(* ===== verification/Prelude.thy ===== *)
theory Prelude
  imports Complex_Main "HOL-Library.AList" "HOL-Library.Multiset"
    "HOL-Library.List_Lexorder" "HOL-Library.Char_ord"
begin

text \<open>
  Shared ground of the development: the named collections, JavaScript's plain objects as
  insertion-ordered dictionaries, arrays with \<open>splice\<close>, decimal printing, and the outcome of
  a synchronous call that may throw.

  Strings are lists of characters with the lexicographic order of their codes, which for the
  ASCII addresses the program uses is the order \<open><\<close> compares. Times, incarnation numbers and
  counters are unbounded integers: the program keeps them far below \<open>2\<^sup>5\<^sup>3\<close>, where a
  JavaScript number is exact.
\<close>

section \<open>Collections of facts\<close>

named_theorems dict_simps
  \<open>rewrite rules of the dictionary interface\<close>
named_theorems preserves
  \<open>an operation keeps the invariant of its component\<close>
named_theorems frame
  \<open>fields an operation leaves alone\<close>

section \<open>Outcomes and options\<close>

text \<open>A synchronous call either returns or throws; the thrown value is kept.\<close>

datatype js_error =
    TypeError
  | Error string

type_synonym 'a outcome = "js_error + 'a"

text \<open>\<open>numOrDefault\<close>: a missing (or non-numeric) option falls back to a default.\<close>

definition numOrDefault :: "'a option \<Rightarrow> 'a \<Rightarrow> 'a" where
  "numOrDefault num orDefault = (case num of None \<Rightarrow> orDefault | Some n \<Rightarrow> n)"

lemma numOrDefault_simps [simp]:
  "numOrDefault None d = d" "numOrDefault (Some n) d = n"
  by (simp_all add: numOrDefault_def)

section \<open>Objects used as dictionaries\<close>

text \<open>
  \<open>obj[k]\<close>, \<open>obj[k] = v\<close>, \<open>delete obj[k]\<close> and \<open>Object.keys(obj)\<close>. Assigning to a present
  key keeps its place, a new key goes last, which is the enumeration order of a plain object
  whose keys are not array indices (addresses \<open>host:port\<close> never are).
\<close>

type_synonym 'a dict = "(string \<times> 'a) list"

abbreviation dget :: "'a dict \<Rightarrow> string \<Rightarrow> 'a option" where
  "dget d k \<equiv> map_of d k"

abbreviation dset :: "string \<Rightarrow> 'a \<Rightarrow> 'a dict \<Rightarrow> 'a dict" where
  "dset k v d \<equiv> AList.update k v d"

abbreviation ddel :: "string \<Rightarrow> 'a dict \<Rightarrow> 'a dict" where
  "ddel k d \<equiv> AList.delete k d"

abbreviation dkeys :: "'a dict \<Rightarrow> string list" where
  "dkeys d \<equiv> map fst d"

text \<open>The interface the components use, and what follows from its laws alone.\<close>

locale dictionary =
  fixes get :: "'d \<Rightarrow> 'k \<Rightarrow> 'v option"
    and put :: "'k \<Rightarrow> 'v \<Rightarrow> 'd \<Rightarrow> 'd"
    and del :: "'k \<Rightarrow> 'd \<Rightarrow> 'd"
    and keys :: "'d \<Rightarrow> 'k list"
    and ok :: "'d \<Rightarrow> bool"
  assumes get_put: "get (put k v d) k' = (if k' = k then Some v else get d k')"
    and get_del: "get (del k d) k' = (if k' = k then None else get d k')"
    and set_keys: "set (keys d) = {k. get d k \<noteq> None}"
    and ok_put: "ok d \<Longrightarrow> ok (put k v d)"
    and ok_del: "ok d \<Longrightarrow> ok (del k d)"
    and ok_keys: "ok d \<Longrightarrow> distinct (keys d)"
begin

lemma get_put_same [simp]: "get (put k v d) k = Some v"
  by (simp add: get_put)

lemma get_put_other [simp]: "k' \<noteq> k \<Longrightarrow> get (put k v d) k' = get d k'"
  by (simp add: get_put)

lemma get_del_same [simp]: "get (del k d) k = None"
  by (simp add: get_del)

lemma keys_put: "set (keys (put k v d)) = insert k (set (keys d))"
  by (auto simp: set_keys get_put)

lemma keys_del: "set (keys (del k d)) = set (keys d) - {k}"
  by (auto simp: set_keys get_del)

lemma length_keys: "ok d \<Longrightarrow> length (keys d) = card {k. get d k \<noteq> None}"
  by (metis ok_keys set_keys distinct_card)

lemma length_keys_del:
  assumes "ok d" and "get d k \<noteq> None"
  shows "Suc (length (keys (del k d))) = length (keys d)"
proof -
  have fin: "finite (set (keys d))" by simp
  have mem: "k \<in> set (keys d)" using assms(2) by (simp add: set_keys)
  have "length (keys (del k d)) = card (set (keys d) - {k})"
    by (metis assms(1) ok_del ok_keys distinct_card keys_del)
  then show ?thesis
    using fin mem by (metis assms(1) card_Suc_Diff1 distinct_card ok_keys)
qed

lemma get_fold_del: "get (fold del ks d) k = (if k \<in> set ks then None else get d k)"
  by (induction ks arbitrary: d) (auto simp: get_del)

lemma ok_fold_del: "ok d \<Longrightarrow> ok (fold del ks d)"
  by (induction ks arbitrary: d) (auto intro: ok_del)

end

interpretation dict: dictionary map_of AList.update AList.delete "map fst"
  "\<lambda>d. distinct (map fst d)"
proof
  show "map_of (AList.update k v d) k' = (if k' = k then Some v else map_of d k')" for k v d k'
    by (simp add: update_conv' fun_upd_def)
  show "map_of (AList.delete k d) k' = (if k' = k then None else map_of d k')" for k d k'
    by (simp add: delete_conv' fun_upd_def)
  show "set (map fst d) = {k. map_of d k \<noteq> None}" for d :: "('c \<times> 'd) list"
    by (auto simp: map_of_eq_None_iff)
  show "distinct (map fst d) \<Longrightarrow> distinct (map fst (AList.update k v d))" for k v d
    by (rule distinct_update)
  show "distinct (map fst d) \<Longrightarrow> distinct (map fst (AList.delete k d))" for k d
    by (rule distinct_delete)
qed simp

lemmas dict_laws = dict.get_put dict.get_del dict.get_fold_del

declare dict_laws [dict_simps]

text \<open>Object.keys of an object is empty exactly when no property is defined.\<close>

lemma dkeys_empty_iff: "d = [] \<longleftrightarrow> (\<forall>k. dget d k = None)"
  using dict.set_keys [of d] by (auto simp del: set_map)

lemma dget_Some_key: "dget d k = Some v \<Longrightarrow> k \<in> set (dkeys d)"
  by (force dest: map_of_SomeD)

lemma dget_unique: "distinct (dkeys d) \<Longrightarrow> (k, v) \<in> set d \<Longrightarrow> dget d k = Some v"
  by simp

lemma snd_update: "set (AList.update k v d) \<subseteq> insert (k, v) (set d)"
  by (induction d) auto

lemma snd_delete: "set (AList.delete k d) \<subseteq> set d"
  by (induction d) auto

lemma keys_dset [simp]: "fst ` set (dset k v d) = insert k (fst ` set d)"
  using dict.keys_put [of k v d] by simp

lemma keys_ddel [simp]: "fst ` set (ddel k d) = fst ` set d - {k}"
  using dict.keys_del [of k d] by simp

lemma length_dset_new: "k \<notin> fst ` set d \<Longrightarrow> length (dset k v d) = Suc (length d)"
  by (induction d) auto

lemma dset_not_Nil [simp]: "dset k v d \<noteq> []"
  by (cases d) auto

section \<open>Arrays\<close>

text \<open>\<open>xs.splice(i, 0, x)\<close>: an index past the end appends.\<close>

definition splice_in :: "nat \<Rightarrow> 'a \<Rightarrow> 'a list \<Rightarrow> 'a list" where
  "splice_in i x xs = take i xs @ x # drop i xs"

lemma set_splice_in [simp]: "set (splice_in i x xs) = insert x (set xs)"
  by (metis splice_in_def append_take_drop_id list.simps(15) set_append Un_insert_right)

lemma length_splice_in [simp]: "length (splice_in i x xs) = Suc (length xs)"
  by (simp add: splice_in_def)

lemma mset_splice_in [simp]: "mset (splice_in i x xs) = add_mset x (mset xs)"
  by (metis splice_in_def append_take_drop_id mset.simps(2) mset_append union_mset_add_mset_right)

lemma map_splice_in [simp]: "map f (splice_in i x xs) = splice_in i (f x) (map f xs)"
  by (simp add: splice_in_def take_map drop_map)

lemma distinct_splice_in [simp]: "distinct (splice_in i x xs) \<longleftrightarrow> x \<notin> set xs \<and> distinct xs"
  by (metis distinct.simps(2) mset.simps(2) mset_eq_imp_distinct_iff mset_splice_in)

section \<open>Decimal printing of numbers\<close>

definition digit :: "nat \<Rightarrow> char" where
  "digit n = char_of (48 + n)"

fun show_nat :: "nat \<Rightarrow> string" where
  "show_nat n = (if n < 10 then [digit n] else show_nat (n div 10) @ [digit (n mod 10)])"

declare show_nat.simps [simp del]

definition show_int :: "int \<Rightarrow> string" where
  "show_int i = (if i < 0 then CHR ''-'' # show_nat (nat (- i)) else show_nat (nat i))"

lemma show_nat_not_Nil [simp]: "show_nat n \<noteq> []"
  by (subst show_nat.simps) simp

lemma digit_inj: "m < 10 \<Longrightarrow> n < 10 \<Longrightarrow> digit m = digit n \<longleftrightarrow> m = n"
  by (auto simp: digit_def of_char_of
      dest: arg_cong [where f = "of_char :: char \<Rightarrow> nat"])

lemma show_nat_inj: "show_nat m = show_nat n \<Longrightarrow> m = n"
proof (induction m arbitrary: n rule: show_nat.induct)
  case (1 m)
  show ?case
  proof (cases "m < 10 \<or> n < 10")
    case True
    then show ?thesis
      using "1.prems"
      by (auto simp: show_nat.simps [of m] show_nat.simps [of n] digit_inj
          split: if_splits dest: sym [where s = "[]"])
  next
    case False
    then have "show_nat (m div 10) = show_nat (n div 10)" and "m mod 10 = n mod 10"
      using "1.prems" by (auto simp: show_nat.simps [of m] show_nat.simps [of n] digit_inj)
    then show ?thesis
      using "1.IH" False by (metis div_mult_mod_eq)
  qed
qed

section \<open>Sorting by address\<close>

text \<open>
  \<open>Array.prototype.sort\<close> with a comparator that orders by one key is a stable sort on that key;
  on arrays without two equal keys the result depends only on the elements.
\<close>

lemma sort_key_perm_eq:
  assumes "mset xs = mset ys" and "distinct (map f xs)"
  shows "sort_key f xs = sort_key f ys"
proof (rule properties_for_sort_key)
  show "mset (sort_key f ys) = mset xs" using assms(1) by simp
  have inj: "inj_on f (set xs)" using assms(2) by (simp add: distinct_map)
  show "filter (\<lambda>y. f k = f y) (sort_key f ys) = filter (\<lambda>y. f k = f y) xs"
    if "k \<in> set (sort_key f ys)" for k
  proof -
    have d: "distinct xs" "distinct ys"
      using assms mset_eq_imp_distinct_iff by (auto simp: distinct_map)
    have s: "set ys = set xs" using assms(1) by (metis set_mset_mset)
    with that have k: "k \<in> set xs" by simp
    have one: "filter (\<lambda>y. f k = f y) zs = [k]" if "distinct zs" "set zs = set xs" for zs
    proof -
      have "filter (\<lambda>y. f k = f y) zs = filter (\<lambda>y. y = k) zs"
        using inj that(2) k by (intro filter_cong) (auto dest: inj_onD)
      moreover have "k \<in> set zs" using that k by simp
      moreover have "filter (\<lambda>y. y = k) zs = [k]"
        using \<open>distinct zs\<close> \<open>k \<in> set zs\<close>
        by (induction zs) (auto simp: filter_empty_conv)
      ultimately show ?thesis by simp
    qed
    show ?thesis using one [of "sort_key f ys"] one [of xs] d s by simp
  qed
  show "sorted (map f (sort_key f ys))" by simp
qed

end
