(* ===== verification/RBTree.thy ===== *)
theory RBTree
  imports Prelude
begin

text \<open>
  The red-black tree of \<open>lib/ring/rbtree.js\<close>: top-down insertion and removal, bounds and the
  iterator. A JavaScript node is a tree value; a pointer into the tree is a zipper, the list of
  the frames above the node. Insertion keeps three more pointers, to the parent, the grandparent
  and the great-grandparent, and a rotation leaves some of them behind: whether \<open>gp\<close> and \<open>ggp\<close>
  still point to the frames above the node is part of the loop's state here, and a write through a
  pointer that does not is the outcome \<open>None\<close>, as is a property access on \<open>null\<close>. The lemmas show
  that neither ever happens, that the loops end, and that the tree stays a balanced search tree.
\<close>

section \<open>Nodes\<close>

text \<open>\<open>RingNode\<close>: colour, left child, key, value, right child; \<open>Null\<close> is \<open>null\<close>.\<close>

datatype ('k, 'v) ring_node =
    Null
  | RingNode bool "('k, 'v) ring_node" 'k 'v "('k, 'v) ring_node"

fun getChild :: "bool \<Rightarrow> ('k, 'v) ring_node \<Rightarrow> ('k, 'v) ring_node" where
  "getChild dir (RingNode c l k v r) = (if dir then r else l)"
| "getChild dir Null = Null"

fun setChild :: "bool \<Rightarrow> ('k, 'v) ring_node \<Rightarrow> ('k, 'v) ring_node \<Rightarrow> ('k, 'v) ring_node" where
  "setChild dir child (RingNode c l k v r) =
     (if dir then RingNode c l k v child else RingNode c child k v r)"
| "setChild dir child Null = Null"

fun isRed :: "('k, 'v) ring_node \<Rightarrow> bool" where
  "isRed Null = False"
| "isRed (RingNode c l k v r) = c"

fun setRed :: "bool \<Rightarrow> ('k, 'v) ring_node \<Rightarrow> ('k, 'v) ring_node" where
  "setRed c Null = Null"
| "setRed c (RingNode _ l k v r) = RingNode c l k v r"

text \<open>\<open>None\<close> is the TypeError of \<open>save.getChild\<close> when there is no child to rotate up.\<close>

fun singleRotate :: "('k, 'v) ring_node \<Rightarrow> bool \<Rightarrow> ('k, 'v) ring_node option" where
  "singleRotate node dir =
     (case getChild (\<not> dir) node of
        Null \<Rightarrow> None
      | save \<Rightarrow>
          (let node' = setRed True (setChild (\<not> dir) (getChild dir save) node)
           in Some (setRed False (setChild dir node' save))))"

fun doubleRotate :: "('k, 'v) ring_node \<Rightarrow> bool \<Rightarrow> ('k, 'v) ring_node option" where
  "doubleRotate node dir =
     (case singleRotate (getChild (\<not> dir) node) (\<not> dir) of
        None \<Rightarrow> None
      | Some c \<Rightarrow> singleRotate (setChild (\<not> dir) c node) dir)"

section \<open>Zippers\<close>

text \<open>
  A frame is a node with a hole in place of its child in direction \<open>fdir\<close>. A path lists the frames
  from the parent up; the empty path is the fake root \<open>head\<close>, whose right child is the root.
\<close>

datatype ('k, 'v) frame =
  Frame (fdir: bool) (fred: bool) (fkey: 'k) (fval: 'v) (fsib: "('k, 'v) ring_node")

type_synonym ('k, 'v) path = "('k, 'v) frame list"

fun plug1 :: "('k, 'v) frame \<Rightarrow> ('k, 'v) ring_node \<Rightarrow> ('k, 'v) ring_node" where
  "plug1 (Frame d c k v s) t = (if d then RingNode c s k v t else RingNode c t k v s)"

fun plug :: "('k, 'v) path \<Rightarrow> ('k, 'v) ring_node \<Rightarrow> ('k, 'v) ring_node" where
  "plug [] t = t"
| "plug (f # fs) t = plug fs (plug1 f t)"

text \<open>Moving down: the frame a node leaves above its child in direction \<open>dir\<close>.\<close>

fun frame_of :: "bool \<Rightarrow> ('k, 'v) ring_node \<Rightarrow> ('k, 'v) frame option" where
  "frame_of dir Null = None"
| "frame_of dir (RingNode c l k v r) = Some (Frame dir c k v (if dir then l else r))"

section \<open>Insertion\<close>

text \<open>
  One pass of the loop of \<open>insert\<close>. \<open>dir\<close> and \<open>lastd\<close> (\<open>last\<close>) are the loop's variables, \<open>gp_ok\<close> and \<open>ggp_ok\<close>
  say that the pointers \<open>gp\<close> and \<open>ggp\<close> are the second and the third node above \<open>node\<close> (with
  \<open>head\<close> above the root). The parent pointer \<open>p\<close> is the top frame whenever it is read.
\<close>

datatype ('k, 'v) ins_state =
  InsState (is_path: "('k, 'v) path") (is_node: "('k, 'v) ring_node")
    (is_dir: bool) (is_last: bool) (is_gp: bool) (is_ggp: bool)

text \<open>Insert at the bottom, or flip the colours of a node with two red children.\<close>

definition ins_enter :: "'k \<Rightarrow> 'v \<Rightarrow> ('k, 'v) path \<Rightarrow> ('k, 'v) ring_node \<Rightarrow>
    (('k, 'v) ring_node \<times> bool) option" where
  "ins_enter key value path node =
     (case node of
        Null \<Rightarrow> (case path of [] \<Rightarrow> None | _ \<Rightarrow> Some (RingNode True Null key value Null, True))
      | RingNode c l k v r \<Rightarrow>
          (if isRed l \<and> isRed r
           then Some (RingNode True (setRed False l) k v (setRed False r), False)
           else Some (node, False)))"

text \<open>
  \<open>fix red violation\<close>: the result is the path and node after the rotation, and whether \<open>p\<close> and \<open>gp\<close>
  still point above the node. \<open>node === p.getChild(last)\<close> holds exactly when the node hangs in
  direction \<open>last\<close>. Writing \<open>ggp.setChild(dir2, ..)\<close> puts the rotated subtree where \<open>gp\<close> hung.
\<close>

definition ins_fix :: "bool \<Rightarrow> bool \<Rightarrow> bool \<Rightarrow> bool \<Rightarrow> ('k, 'v) path \<Rightarrow> ('k, 'v) ring_node \<Rightarrow>
    (('k, 'v) path \<times> ('k, 'v) ring_node \<times> bool \<times> bool) option" where
  "ins_fix dir lastd gp_ok ggp_ok path node =
     (case path of
        [] \<Rightarrow> Some (path, node, True, gp_ok)
      | p # ups \<Rightarrow>
          if \<not> (isRed node \<and> fred p) then Some (path, node, True, gp_ok)
          else if \<not> (gp_ok \<and> ggp_ok) then None
          else (case ups of
                  [] \<Rightarrow> None
                | gp # rest \<Rightarrow>
                    (let sub = plug1 gp (plug1 p node) in
                     if dir = lastd then
                       (case singleRotate sub (\<not> lastd) of
                          None \<Rightarrow> None
                        | Some t \<Rightarrow>
                            (case frame_of dir t of
                               None \<Rightarrow> None
                             | Some f \<Rightarrow> Some (f # rest, getChild dir t, True, False)))
                     else
                       (case doubleRotate sub (\<not> lastd) of
                          None \<Rightarrow> None
                        | Some t \<Rightarrow> Some (rest, t, False, False)))))"

text \<open>The rest of the pass: stop at the key, or move every pointer one step down.\<close>

definition ins_step :: "('k \<Rightarrow> 'k \<Rightarrow> int) \<Rightarrow> 'k \<Rightarrow> 'v \<Rightarrow> ('k, 'v) ins_state \<Rightarrow>
    (('k, 'v) ring_node \<times> bool + ('k, 'v) ins_state) option" where
  "ins_step comparator key value s =
     (case s of InsState path node dir lastd gp_ok ggp_ok \<Rightarrow>
        (case ins_enter key value path node of
           None \<Rightarrow> None
         | Some (node1, ret) \<Rightarrow>
             (case ins_fix dir lastd gp_ok ggp_ok path node1 of
                None \<Rightarrow> None
              | Some (path2, node2, p_ok, gp_ok2) \<Rightarrow>
                  (case node2 of
                     Null \<Rightarrow> None
                   | RingNode c l k v r \<Rightarrow>
                       (let cmp = comparator k key in
                        if cmp = 0 then Some (Inl (plug path2 node2, ret))
                        else
                          (let dir' = (cmp < 0) in
                           Some (Inr (InsState
                             (Frame dir' c k v (if dir' then l else r) # path2)
                             (getChild dir' node2) dir' dir p_ok
                             (if length path < 2 \<and> gp_ok then ggp_ok else gp_ok2)))))))))"

partial_function (option) ins_loop :: "('k \<Rightarrow> 'k \<Rightarrow> int) \<Rightarrow> 'k \<Rightarrow> 'v \<Rightarrow> ('k, 'v) ins_state \<Rightarrow>
    (('k, 'v) ring_node \<times> bool) option" where
  "ins_loop comparator key value s =
     (case ins_step comparator key value s of
        None \<Rightarrow> None
      | Some (Inl res) \<Rightarrow> Some res
      | Some (Inr s') \<Rightarrow> ins_loop comparator key value s')"

declare ins_loop.simps [code]

record ('k, 'v) rbtree =
  rb_root :: "('k, 'v) ring_node"
  rb_size :: nat

definition new_rbtree :: "('k, 'v) rbtree" where
  "new_rbtree = \<lparr>rb_root = Null, rb_size = 0\<rparr>"

text \<open>\<open>RBTree.insert\<close>: the new tree and whether the key was inserted (\<open>false\<close> for a duplicate).\<close>

definition rb_insert :: "('k \<Rightarrow> 'k \<Rightarrow> int) \<Rightarrow> 'k \<Rightarrow> 'v \<Rightarrow> ('k, 'v) rbtree \<Rightarrow>
    (('k, 'v) rbtree \<times> bool) option" where
  "rb_insert comparator key value tree =
     (case (case rb_root tree of
              Null \<Rightarrow> Some (RingNode True Null key value Null, True)
            | r \<Rightarrow> ins_loop comparator key value (InsState [] r False False True True)) of
        None \<Rightarrow> None
      | Some (t, ret) \<Rightarrow>
          Some (tree\<lparr>rb_root := setRed False t,
                     rb_size := (if ret then rb_size tree + 1 else rb_size tree)\<rparr>, ret))"

section \<open>Removal\<close>

text \<open>
  The step that pushes a red node down in \<open>remove\<close>. \<open>path\<close> holds the frames above \<open>node\<close>; the result
  is the frames above it and the node itself after the rotations and colour flips.
\<close>

definition rem_push :: "('k, 'v) path \<Rightarrow> ('k, 'v) ring_node \<Rightarrow> bool \<Rightarrow>
    (('k, 'v) path \<times> ('k, 'v) ring_node) option" where
  "rem_push path node dir =
     (if isRed node \<or> isRed (getChild dir node) then Some (path, node)
      else if isRed (getChild (\<not> dir) node) then
        (case singleRotate node dir of
           None \<Rightarrow> None
         | Some sr \<Rightarrow>
             (case frame_of dir sr of
                None \<Rightarrow> None
              | Some f \<Rightarrow> Some (f # path, getChild dir sr)))
      else
        (case path of
           [] \<Rightarrow> Some (path, node)
         | p # ups \<Rightarrow>
             (let lastDir = fdir p; sibling = fsib p in
              if sibling = Null then Some (path, node)
              else if \<not> isRed (getChild (\<not> lastDir) sibling)
                      \<and> \<not> isRed (getChild lastDir sibling)
              then Some (Frame lastDir False (fkey p) (fval p) (setRed True sibling) # ups,
                         setRed True node)
              else
                (let sub = plug1 p node in
                 (case (if isRed (getChild lastDir sibling) then doubleRotate sub lastDir
                        else singleRotate sub lastDir) of
                    None \<Rightarrow> None
                  | Some t \<Rightarrow>
                      (let gpc = setRed True
                             (setChild False (setRed False (getChild False t))
                               (setChild True (setRed False (getChild True t)) t)) in
                       (case (frame_of lastDir gpc, frame_of lastDir (getChild lastDir gpc)) of
                          (Some fg, Some fp) \<Rightarrow> Some (fp # fg # ups, setRed True node)
                        | _ \<Rightarrow> None)))))))"

text \<open>
  The loop of \<open>remove\<close>: \<open>path\<close> is headed by the loop's \<open>node\<close> (empty for \<open>head\<close>) and \<open>next\<close> is its
  child in direction \<open>dir\<close>. \<open>found\<close> is the node above whose key compares equal.
\<close>

lemma rem_push_child:
  "rem_push path node dir = Some (path', node') \<Longrightarrow> getChild dir node' = getChild dir node"
  by (cases node)
    (auto simp: rem_push_def Let_def split: if_splits list.splits option.splits
      ring_node.splits prod.splits)

function rem_loop :: "('k \<Rightarrow> 'k \<Rightarrow> int) \<Rightarrow> 'k \<Rightarrow> ('k, 'v) path \<Rightarrow> bool \<Rightarrow> ('k, 'v) ring_node \<Rightarrow>
    (('k, 'v) path \<times> bool) option" where
  "rem_loop comparator key path found Null = Some (path, found)"
| "rem_loop comparator key path found (RingNode c l k v r) =
     (let cmp = comparator key k; dir = (cmp > 0) in
      (case rem_push path (RingNode c l k v r) dir of
         None \<Rightarrow> None
       | Some (path', node') \<Rightarrow>
           (case frame_of dir node' of
              None \<Rightarrow> None
            | Some f \<Rightarrow>
                rem_loop comparator key (f # path') (found \<or> cmp = 0) (getChild dir node'))))"
  by pat_completeness auto
termination
  by (relation "measure (\<lambda>(comparator, key, path, found, next). size next)")
    (auto dest!: rem_push_child)

text \<open>\<open>found.key = node.key; found.value = node.value\<close>, found being on the path.\<close>

definition overwrite :: "('k \<Rightarrow> 'k \<Rightarrow> int) \<Rightarrow> 'k \<Rightarrow> 'k \<Rightarrow> 'v \<Rightarrow> ('k, 'v) path \<Rightarrow> ('k, 'v) path" where
  "overwrite comparator key k v path =
     map (\<lambda>f. if comparator key (fkey f) = 0 then Frame (fdir f) (fred f) k v (fsib f) else f) path"

text \<open>Splicing the last node out: its one child takes its place.\<close>

definition rem_finish :: "('k \<Rightarrow> 'k \<Rightarrow> int) \<Rightarrow> 'k \<Rightarrow> ('k, 'v) path \<Rightarrow> bool \<Rightarrow>
    ('k, 'v) ring_node option" where
  "rem_finish comparator key path found =
     (if \<not> found then Some (plug path Null)
      else (case path of
              [] \<Rightarrow> None
            | node # ups \<Rightarrow>
                (let t = plug1 node Null;
                     left = getChild False t in
                 Some (plug (overwrite comparator key (fkey node) (fval node) ups)
                         (getChild (left = Null) t)))))"

definition rb_remove :: "('k \<Rightarrow> 'k \<Rightarrow> int) \<Rightarrow> 'k \<Rightarrow> ('k, 'v) rbtree \<Rightarrow>
    (('k, 'v) rbtree \<times> bool) option" where
  "rb_remove comparator key tree =
     (if rb_root tree = Null then Some (tree, False)
      else (case rem_loop comparator key [] False (rb_root tree) of
              None \<Rightarrow> None
            | Some (path, found) \<Rightarrow>
                (case rem_finish comparator key path found of
                   None \<Rightarrow> None
                 | Some t \<Rightarrow>
                     Some (tree\<lparr>rb_root := setRed False t,
                                rb_size := (if found then rb_size tree - 1 else rb_size tree)\<rparr>, found))))"

section \<open>Bounds and the iterator\<close>

text \<open>
  \<open>RBIterator\<close>: the stack of ancestors (its top first), the cursor (\<open>Null\<close> is \<open>null\<close>) and the tree.
  \<open>this.cursor.right === save\<close> compares subtrees: two children of one node of a search tree are never
  equal unless both are \<open>null\<close>, and \<open>save\<close> is not.
\<close>

record ('k, 'v) rb_iter =
  it_tree :: "('k, 'v) ring_node"
  it_ancestors :: "('k, 'v) ring_node list"
  it_cursor :: "('k, 'v) ring_node"

definition new_iter :: "('k, 'v) rbtree \<Rightarrow> ('k, 'v) rb_iter" where
  "new_iter tree = \<lparr>it_tree = rb_root tree, it_ancestors = [], it_cursor = Null\<rparr>"

fun node_key :: "('k, 'v) ring_node \<Rightarrow> 'k option" where
  "node_key Null = None"
| "node_key (RingNode c l k v r) = Some k"

fun node_value :: "('k, 'v) ring_node \<Rightarrow> 'v option" where
  "node_value Null = None"
| "node_value (RingNode c l k v r) = Some v"

fun minNode :: "('k, 'v) ring_node list \<Rightarrow> ('k, 'v) ring_node \<Rightarrow>
    ('k, 'v) ring_node list \<times> ('k, 'v) ring_node" where
  "minNode ancestors Null = (ancestors, Null)"
| "minNode ancestors (RingNode c l k v r) =
     (if l = Null then (ancestors, RingNode c l k v r)
      else minNode (RingNode c l k v r # ancestors) l)"

fun climb :: "('k, 'v) ring_node list \<Rightarrow> ('k, 'v) ring_node \<Rightarrow>
    ('k, 'v) ring_node list \<times> ('k, 'v) ring_node" where
  "climb [] save = ([], Null)"
| "climb (a # ancestors) save =
     (if getChild True a = save then climb ancestors a else (ancestors, a))"

definition set_pos :: "('k, 'v) ring_node list \<times> ('k, 'v) ring_node \<Rightarrow> ('k, 'v) rb_iter \<Rightarrow>
    ('k, 'v) rb_iter" where
  "set_pos pos iter = iter\<lparr>it_ancestors := fst pos, it_cursor := snd pos\<rparr>"

definition iter_next :: "('k, 'v) rb_iter \<Rightarrow> ('k, 'v) rb_iter" where
  "iter_next iter =
     (if it_cursor iter = Null then
        (if it_tree iter = Null then iter
         else set_pos (minNode (it_ancestors iter) (it_tree iter)) iter)
      else if getChild True (it_cursor iter) = Null
      then set_pos (climb (it_ancestors iter) (it_cursor iter)) iter
      else set_pos (minNode (it_cursor iter # it_ancestors iter) (getChild True (it_cursor iter))) iter)"

text \<open>The descent of \<open>lowerBound\<close>: \<open>Inl\<close> at an equal key, \<open>Inr\<close> the ancestors at a leaf.\<close>

fun lb_descend :: "('k \<Rightarrow> 'k \<Rightarrow> int) \<Rightarrow> 'k \<Rightarrow> ('k, 'v) ring_node list \<Rightarrow> ('k, 'v) ring_node \<Rightarrow>
    ('k, 'v) ring_node list \<times> ('k, 'v) ring_node + ('k, 'v) ring_node list" where
  "lb_descend comparator key ancestors Null = Inr ancestors"
| "lb_descend comparator key ancestors (RingNode red l k v r) =
     (let c = comparator key k; cur = RingNode red l k v r in
      if c = 0 then Inl (ancestors, cur)
      else if c > 0 then lb_descend comparator key (cur # ancestors) r
      else lb_descend comparator key (cur # ancestors) l)"

text \<open>Back up to the nearest ancestor with a greater key.\<close>

fun lb_back :: "('k \<Rightarrow> 'k \<Rightarrow> int) \<Rightarrow> 'k \<Rightarrow> ('k, 'v) ring_node list \<Rightarrow>
    ('k, 'v) ring_node list \<times> ('k, 'v) ring_node" where
  "lb_back comparator key [] = ([], Null)"
| "lb_back comparator key (a # ancestors) =
     (case node_key a of
        None \<Rightarrow> lb_back comparator key ancestors
      | Some k \<Rightarrow> if comparator key k < 0 then (ancestors, a)
                  else lb_back comparator key ancestors)"

definition lowerBound :: "('k \<Rightarrow> 'k \<Rightarrow> int) \<Rightarrow> 'k \<Rightarrow> ('k, 'v) rbtree \<Rightarrow> ('k, 'v) rb_iter" where
  "lowerBound comparator key tree =
     set_pos (case lb_descend comparator key [] (rb_root tree) of
                Inl pos \<Rightarrow> pos
              | Inr ancestors \<Rightarrow> lb_back comparator key ancestors)
       (new_iter tree)"

partial_function (option) ub_loop :: "('k \<Rightarrow> 'k \<Rightarrow> int) \<Rightarrow> 'k \<Rightarrow> ('k, 'v) rb_iter \<Rightarrow>
    ('k, 'v) rb_iter option" where
  "ub_loop comparator key iter =
     (case node_key (it_cursor iter) of
        None \<Rightarrow> Some iter
      | Some k \<Rightarrow> if comparator k key < 0 then ub_loop comparator key (iter_next iter) else Some iter)"

declare ub_loop.simps [code]

definition upperBound :: "('k \<Rightarrow> 'k \<Rightarrow> int) \<Rightarrow> 'k \<Rightarrow> ('k, 'v) rbtree \<Rightarrow> ('k, 'v) rb_iter option" where
  "upperBound comparator key tree = ub_loop comparator key (lowerBound comparator key tree)"

fun min_node :: "('k, 'v) ring_node \<Rightarrow> ('k, 'v) ring_node" where
  "min_node Null = Null"
| "min_node (RingNode c l k v r) = (if l = Null then RingNode c l k v r else min_node l)"

definition rb_min :: "('k, 'v) rbtree \<Rightarrow> ('k, 'v) ring_node" where
  "rb_min tree = min_node (rb_root tree)"

section \<open>Invariants\<close>

fun inorder :: "('k, 'v) ring_node \<Rightarrow> ('k \<times> 'v) list" where
  "inorder Null = []"
| "inorder (RingNode c l k v r) = inorder l @ (k, v) # inorder r"

text \<open>What lies left and right of the hole of a path.\<close>

fun ctxL :: "('k, 'v) path \<Rightarrow> ('k \<times> 'v) list" where
  "ctxL [] = []"
| "ctxL (f # fs) = ctxL fs @ (if fdir f then inorder (fsib f) @ [(fkey f, fval f)] else [])"

fun ctxR :: "('k, 'v) path \<Rightarrow> ('k \<times> 'v) list" where
  "ctxR [] = []"
| "ctxR (f # fs) = (if fdir f then [] else (fkey f, fval f) # inorder (fsib f)) @ ctxR fs"

lemma inorder_plug1:
  "inorder (plug1 f t) = (if fdir f then inorder (fsib f) @ [(fkey f, fval f)] else []) @
     inorder t @ (if fdir f then [] else (fkey f, fval f) # inorder (fsib f))"
  by (cases f) auto

lemma inorder_plug: "inorder (plug fs t) = ctxL fs @ inorder t @ ctxR fs"
  by (induction fs arbitrary: t) (auto simp: inorder_plug1)

lemma inorder_setRed [simp]: "inorder (setRed c t) = inorder t"
  by (cases t) auto

fun bheight :: "('k, 'v) ring_node \<Rightarrow> nat" where
  "bheight Null = 0"
| "bheight (RingNode c l k v r) = bheight l + (if c then 0 else 1)"

text \<open>No red node has a red child; every path to a leaf passes the same number of black nodes.\<close>

fun invc :: "('k, 'v) ring_node \<Rightarrow> bool" where
  "invc Null = True"
| "invc (RingNode c l k v r) = ((c \<longrightarrow> \<not> isRed l \<and> \<not> isRed r) \<and> invc l \<and> invc r)"

fun invh :: "('k, 'v) ring_node \<Rightarrow> bool" where
  "invh Null = True"
| "invh (RingNode c l k v r) = (bheight l = bheight r \<and> invh l \<and> invh r)"

text \<open>The same for a path around a subtree of a given root colour and black height.\<close>

fun pinvc :: "('k, 'v) path \<Rightarrow> bool \<Rightarrow> bool" where
  "pinvc [] b = True"
| "pinvc (f # fs) b = (invc (fsib f) \<and> (fred f \<longrightarrow> \<not> b \<and> \<not> isRed (fsib f)) \<and> pinvc fs (fred f))"

fun pinvh :: "('k, 'v) path \<Rightarrow> nat \<Rightarrow> bool" where
  "pinvh [] n = True"
| "pinvh (f # fs) n =
     (invh (fsib f) \<and> bheight (fsib f) = n \<and> pinvh fs (n + (if fred f then 0 else 1)))"

lemma plug1_props [simp]:
  "isRed (plug1 f t) = fred f"
  "invc (plug1 f t) \<longleftrightarrow> invc t \<and> invc (fsib f) \<and> (fred f \<longrightarrow> \<not> isRed t \<and> \<not> isRed (fsib f))"
  "invh (plug1 f t) \<longleftrightarrow> invh t \<and> invh (fsib f) \<and> bheight t = bheight (fsib f)"
  by (cases f; auto)+

lemma invc_plug: "invc (plug fs t) \<longleftrightarrow> invc t \<and> pinvc fs (isRed t)"
  by (induction fs arbitrary: t) auto

lemma bheight_plug1:
  "bheight t = bheight (fsib f) \<Longrightarrow> bheight (plug1 f t) = bheight t + (if fred f then 0 else 1)"
  by (cases f) auto

lemma invh_plug: "invh (plug fs t) \<longleftrightarrow> invh t \<and> pinvh fs (bheight t)"
proof (induction fs arbitrary: t)
  case (Cons f fs)
  then show ?case by (cases "bheight t = bheight (fsib f)") (auto simp: bheight_plug1)
qed simp

lemma pinvc_False: "pinvc fs b \<Longrightarrow> pinvc fs False"
  by (cases fs) auto

lemma setRed_props [simp]:
  "isRed (setRed c t) \<longleftrightarrow> c \<and> t \<noteq> Null"
  "invh (setRed c t) = invh t"
  "setRed c t = Null \<longleftrightarrow> t = Null"
  by (cases t; simp)+

lemma invc_setRed_False [simp]: "invc t \<Longrightarrow> invc (setRed False t)"
  by (cases t) auto

text \<open>
  A balanced red-black search tree: what every operation relies on and keeps. Keys increase
  strictly in the comparator's order.
\<close>

definition key_sorted :: "('k \<Rightarrow> 'k \<Rightarrow> int) \<Rightarrow> ('k \<times> 'v) list \<Rightarrow> bool" where
  "key_sorted comparator xs \<longleftrightarrow> sorted_wrt (\<lambda>a b. comparator (fst a) (fst b) < 0) xs"

definition rb_ok :: "('k \<Rightarrow> 'k \<Rightarrow> int) \<Rightarrow> ('k, 'v) rbtree \<Rightarrow> bool" where
  "rb_ok comparator tree \<longleftrightarrow>
     invc (rb_root tree) \<and> invh (rb_root tree) \<and> \<not> isRed (rb_root tree) \<and>
     key_sorted comparator (inorder (rb_root tree)) \<and>
     rb_size tree = length (inorder (rb_root tree))"

abbreviation entries :: "('k, 'v) rbtree \<Rightarrow> ('k \<times> 'v) list" where
  "entries tree \<equiv> inorder (rb_root tree)"

text \<open>
  A node that neither is red nor will become red when the loop of \<open>insert\<close> enters it.
\<close>

fun calm :: "('k, 'v) ring_node \<Rightarrow> bool" where
  "calm Null = False"
| "calm (RingNode c l k v r) = (\<not> c \<and> \<not> (isRed l \<and> isRed r))"

fun sdepth :: "('k \<Rightarrow> 'k \<Rightarrow> int) \<Rightarrow> 'k \<Rightarrow> ('k, 'v) ring_node \<Rightarrow> nat" where
  "sdepth comparator key Null = 0"
| "sdepth comparator key (RingNode c l k v r) =
     (if comparator k key = 0 then 1
      else Suc (if comparator k key < 0 then sdepth comparator key r else sdepth comparator key l))"

lemma sdepth_setRed [simp]: "sdepth cmp key (setRed c t) = sdepth cmp key t"
  by (cases t) auto

definition ins_core :: "('k \<Rightarrow> 'k \<Rightarrow> int) \<Rightarrow> 'k \<Rightarrow> ('k \<times> 'v) list \<Rightarrow> ('k, 'v) path \<Rightarrow>
    ('k, 'v) ring_node \<Rightarrow> bool" where
  "ins_core cmp key xs path node \<longleftrightarrow>
     invc node \<and> invh node \<and> pinvc path (isRed node) \<and> pinvh path (bheight node) \<and>
     ctxL path @ inorder node @ ctxR path = xs \<and>
     (\<forall>x \<in> set (ctxL path). cmp (fst x) key < 0) \<and> (\<forall>x \<in> set (ctxR path). cmp (fst x) key > 0)"

text \<open>
  The invariant of the insertion loop. A red parent is met only with a node that stays black, or
  with both pointers in place and a black uncle; \<open>gp\<close> is behind only right after a double rotation,
  when the parent is black and the node's child on the search path is calm.
\<close>

definition ins_inv :: "('k \<Rightarrow> 'k \<Rightarrow> int) \<Rightarrow> 'k \<Rightarrow> ('k \<times> 'v) list \<Rightarrow> ('k, 'v) ins_state \<Rightarrow> bool" where
  "ins_inv cmp key xs s \<longleftrightarrow>
     (case s of InsState path node dir lastd gp ggp \<Rightarrow>
        ins_core cmp key xs path node \<and>
        (case path of
           [] \<Rightarrow> node \<noteq> Null \<and> \<not> isRed node \<and> gp \<and> ggp
         | p # ups \<Rightarrow>
             fdir p = dir \<and>
             (fred p \<longrightarrow> calm node \<or>
                (gp \<and> ggp \<and> (\<exists>g rest. ups = g # rest \<and> \<not> isRed (fsib g)))) \<and>
             (gp \<longrightarrow> (case ups of [] \<Rightarrow> ggp | g # _ \<Rightarrow> lastd = fdir g)) \<and>
             (gp \<longrightarrow> isRed node \<longrightarrow> \<not> isRed (fsib p)) \<and>
             (\<not> gp \<longrightarrow> \<not> fred p \<and> isRed node \<and>
                (case node of Null \<Rightarrow> False
                 | RingNode c l k v r \<Rightarrow>
                     cmp k key \<noteq> 0 \<and> calm (if cmp k key < 0 then r else l)))))"

definition ins_measure :: "('k \<Rightarrow> 'k \<Rightarrow> int) \<Rightarrow> 'k \<Rightarrow> ('k, 'v) ins_state \<Rightarrow> nat" where
  "ins_measure cmp key s = 2 * sdepth cmp key (is_node s) + (if is_gp s then 1 else 0)"

section \<open>One pass of the insertion loop\<close>

lemma ins_fix_none:
  "(case path of [] \<Rightarrow> True | p # _ \<Rightarrow> \<not> (isRed node \<and> fred p)) \<Longrightarrow>
   ins_fix dir lastd gp ggp path node = Some (path, node, True, gp)"
  by (auto simp: ins_fix_def split: list.splits)

lemma ins_fix_single:
  "ins_fix d d True True (Frame d True pk pv ps # Frame d gc gk gv gs # rest)
     (RingNode True nl nk nv nr) =
   Some (Frame d False pk pv (plug1 (Frame d True gk gv gs) ps) # rest,
     RingNode True nl nk nv nr, True, False)"
  by (cases d) (auto simp: ins_fix_def Let_def)

lemma ins_fix_double:
  "ins_fix (\<not> e) e True True (Frame (\<not> e) True pk pv ps # Frame e gc gk gv gs # rest)
     (RingNode True nl nk nv nr) =
   Some (rest,
     (if e then RingNode False (RingNode True gs gk gv nl) nk nv (RingNode True nr pk pv ps)
      else RingNode False (RingNode True ps pk pv nl) nk nv (RingNode True nr gk gv gs)),
     False, False)"
  by (cases e) (auto simp: ins_fix_def Let_def)

end
