(* ===== verification/RBTree_Insert.thy ===== *)
theory RBTree_Insert
  imports RBTree
begin

text \<open>
  Insertion is correct: on a well-formed tree the top-down loop of \<open>RBTree.insert\<close> ends, never
  writes through a pointer that is not in place, keeps the colours and the black heights, and adds
  the entry unless its key is there. What the proofs use of the comparator is the interface
  \<open>comparator_order\<close>, which the hash ring's comparator provides.
\<close>

definition ins_post :: "('k \<Rightarrow> 'k \<Rightarrow> int) \<Rightarrow> 'k \<Rightarrow> 'v \<Rightarrow> ('k \<times> 'v) list \<Rightarrow> ('k, 'v) ring_node \<times> bool \<Rightarrow> bool"
  where
  "ins_post cmp key val xs res \<longleftrightarrow>
     (case res of (t, ret) \<Rightarrow>
        invc t \<and> invh t \<and> t \<noteq> Null \<and>
        (if ret then \<exists>as bs. xs = as @ bs \<and> inorder t = as @ (key, val) # bs \<and>
             (\<forall>x \<in> set as. cmp (fst x) key < 0) \<and> (\<forall>x \<in> set bs. cmp (fst x) key > 0)
         else key \<in> fst ` set xs \<and> inorder t = xs))"

lemma ins_step_eq:
  assumes "ins_enter key val path node = Some (node1, ret)"
    and "ins_fix dir lastd gp ggp path node1 = Some (path2, RingNode c l k v r, p_ok, gp_ok2)"
  shows "ins_step cmp key val (InsState path node dir lastd gp ggp) =
    (if cmp k key = 0 then Some (Inl (plug path2 (RingNode c l k v r), ret))
     else Some (Inr (InsState
       (Frame (cmp k key < 0) c k v (if cmp k key < 0 then l else r) # path2)
       (if cmp k key < 0 then r else l) (cmp k key < 0) dir p_ok
       (if length path < 2 \<and> gp then ggp else gp_ok2))))"
  using assms by (simp add: ins_step_def Let_def)

lemma bheight_setRed_False: "isRed t \<Longrightarrow> bheight (setRed False t) = Suc (bheight t)"
  by (cases t) auto

lemma plug_not_Null: "t \<noteq> Null \<Longrightarrow> plug path t \<noteq> Null"
proof (induction path arbitrary: t)
  case (Cons f fs)
  have "plug1 f t \<noteq> Null" by (cases f) auto
  then show ?case using Cons.IH by simp
qed simp

locale comparator_order =
  fixes cmp :: "'k \<Rightarrow> 'k \<Rightarrow> int"
  assumes cmp_zero: "cmp a b = 0 \<longleftrightarrow> a = b"
    and cmp_flip: "cmp a b < 0 \<longleftrightarrow> cmp b a > 0"
    and cmp_trans: "cmp a b < 0 \<Longrightarrow> cmp b c < 0 \<Longrightarrow> cmp a c < 0"
begin

lemma cmp_refl [simp]: "cmp a a = 0"
  by (simp add: cmp_zero)

lemma cmp_irrefl: "cmp a b < 0 \<Longrightarrow> a \<noteq> b"
  by auto

lemma core_down:
  assumes "ins_core cmp key xs path (RingNode c l k v r)" and "cmp k key \<noteq> 0"
    and "key_sorted cmp xs"
  defines "d \<equiv> cmp k key < 0"
  shows "ins_core cmp key xs (Frame d c k v (if d then l else r) # path) (if d then r else l)"
proof -
  have kl: "cmp (fst x) k < 0" if "x \<in> set (inorder l)" for x
    using assms(1,3) that by (auto simp: ins_core_def key_sorted_def sorted_wrt_append)
  have kr: "cmp k (fst x) < 0" if "x \<in> set (inorder r)" for x
    using assms(1,3) that by (auto simp: ins_core_def key_sorted_def sorted_wrt_append)
  show ?thesis
  proof (cases "cmp k key < 0")
    case True
    then have "cmp (fst x) key < 0" if "x \<in> set (inorder l)" for x
      using kl [OF that] cmp_trans by blast
    with True assms(1) show ?thesis by (auto simp: ins_core_def d_def)
  next
    case False
    with assms(2) have gt: "cmp k key > 0" by simp
    then have "cmp key k < 0" using cmp_flip by simp
    then have "cmp (fst x) key > 0" if "x \<in> set (inorder r)" for x
      using kr [OF that] cmp_trans cmp_flip by blast
    with False gt assms(1) show ?thesis by (auto simp: ins_core_def d_def)
  qed
qed

text \<open>The rotations at a red parent restore the colours around a red node.\<close>

lemma rotate_core:
  assumes n: "node = RingNode True nl nk nv nr" "\<not> isRed nl" "\<not> isRed nr" "invc node" "invh node"
    and path: "path = Frame d True pk pv ps # Frame e gc gk gv gs # rest"
    and inv: "pinvc path False" "pinvh path (bheight node)" "\<not> isRed gs"
    and ord: "ctxL path @ inorder node @ ctxR path = xs"
      "\<forall>x \<in> set (ctxL path). cmp (fst x) key < 0" "\<forall>x \<in> set (ctxR path). cmp (fst x) key > 0"
    and fix': "ins_fix d e True True path node = Some (path2, node2, p_ok, gp_ok)"
  shows "ins_core cmp key xs path2 node2"
proof (cases "d = e")
  case True
  then have "path2 = Frame d False pk pv (plug1 (Frame d True gk gv gs) ps) # rest"
      and "node2 = node"
    using fix' by (auto simp: path n ins_fix_single)
  then show ?thesis
    using n inv ord True by (auto simp: path ins_core_def inorder_plug1 bheight_plug1)
next
  case False
  then have d: "d = (\<not> e)" by auto
  show ?thesis
  proof (cases e)
    case True
    then show ?thesis
      using fix' n inv ord unfolding path n d
      by (auto simp: ins_fix_double [where e = True, simplified] ins_core_def)
  next
    case False
    then show ?thesis
      using fix' n inv ord unfolding path n d
      by (auto simp: ins_fix_double [where e = False, simplified] ins_core_def)
  qed
qed


lemma core_post:
  assumes "ins_core cmp key ys path (RingNode c l k v r)" and "cmp k key = 0"
    and "if ret then v = val \<and> (\<exists>as bs. xs = as @ bs \<and> ys = as @ (key, val) # bs \<and>
             (\<forall>x \<in> set as. cmp (fst x) key < 0) \<and> (\<forall>x \<in> set bs. cmp (fst x) key > 0))
         else ys = xs"
  shows "ins_post cmp key val xs (plug path (RingNode c l k v r), ret)"
  using assms plug_not_Null [of "RingNode c l k v r" path]
  by (auto simp: ins_post_def ins_core_def invc_plug invh_plug inorder_plug cmp_zero
      split: if_splits)

lemma down_inv:
  assumes "ins_core cmp key xs path2 (RingNode c l k v r)" "key_sorted cmp xs" "cmp k key \<noteq> 0"
  defines "d \<equiv> cmp k key < 0"
  defines "child \<equiv> (if d then r else l)" and "sib \<equiv> (if d then l else r)"
  assumes "c \<Longrightarrow> calm child \<or> (p_ok \<and> ggp \<and> (\<exists>g rest. path2 = g # rest \<and> \<not> isRed (fsib g)))"
    and "p_ok \<Longrightarrow> (case path2 of [] \<Rightarrow> ggp | g # _ \<Rightarrow> dir = fdir g)"
    and "p_ok \<Longrightarrow> isRed child \<Longrightarrow> \<not> isRed sib"
    and "\<not> p_ok \<Longrightarrow> \<not> c \<and> isRed child \<and> (case child of Null \<Rightarrow> False
            | RingNode c l k v r \<Rightarrow> cmp k key \<noteq> 0 \<and> calm (if cmp k key < 0 then r else l))"
  shows "ins_inv cmp key xs (InsState (Frame d c k v sib # path2) child d dir p_ok ggp)"
  using core_down [OF assms(1,3,2)] assms(7-)
  by (simp add: ins_inv_def d_def child_def sib_def)

text \<open>Reaching a leaf: the new red node is put in place and the loop stops.\<close>

lemma step_leaf:
  assumes inv: "ins_inv cmp key xs (InsState path Null dir lastd gp ggp)"
  shows "\<exists>res. ins_step cmp key val (InsState path Null dir lastd gp ggp) = Some (Inl res) \<and>
    ins_post cmp key val xs res"
proof -
  let ?node = "RingNode True Null key val Null"
  let ?ys = "ctxL path @ inorder ?node @ ctxR path"
  have "path \<noteq> []" using inv by (auto simp: ins_inv_def)
  then obtain d c k v s ups where path: "path = Frame d c k v s # ups"
    by (metis neq_Nil_conv frame.exhaust)
  have core: "pinvc path False" "pinvh path 0" "xs = ctxL path @ ctxR path"
    "\<forall>x \<in> set (ctxL path). cmp (fst x) key < 0" "\<forall>x \<in> set (ctxR path). cmp (fst x) key > 0"
    using inv by (auto simp: ins_inv_def ins_core_def split: list.splits)
  have enter: "ins_enter key val path Null = Some (?node, True)"
    by (simp add: ins_enter_def path)
  have post: "ins_post cmp key val xs (plug path2 (RingNode c2 l2 key val r2), True)"
    if "ins_core cmp key ?ys path2 (RingNode c2 l2 key val r2)" for path2 c2 l2 r2
    by (rule core_post [OF that])
      (simp, simp, rule exI [of _ "ctxL path"], rule exI [of _ "ctxR path"], use core in simp)
  have d: "dir = d" using inv by (simp add: ins_inv_def path)
  show ?thesis
  proof (cases c)
    case False
    then have core': "ins_core cmp key ?ys path ?node"
      using core by (auto simp: ins_core_def path)
    have "ins_fix dir lastd gp ggp path ?node = Some (path, ?node, True, gp)"
      using False by (intro ins_fix_none) (simp add: path)
    then show ?thesis
      using ins_step_eq [OF enter] post [OF core'] by simp
  next
    case True
    then obtain g rest where g: "gp" "ggp" "ups = g # rest" "\<not> isRed (fsib g)" "lastd = fdir g"
      using inv by (auto simp: ins_inv_def path)
    obtain e gc gk gv gs where "g = Frame e gc gk gv gs" by (cases g)
    with g have gp: "gp" "ggp" "ups = Frame e gc gk gv gs # rest" "\<not> isRed gs" "lastd = e"
      by auto
    obtain path2 node2 p_ok gp_ok where fix': "ins_fix d e True True path ?node = Some (path2, node2, p_ok, gp_ok)"
      and k: "\<exists>c2 l2 r2. node2 = RingNode c2 l2 key val r2"
    proof (cases "d = e")
      case True
      then show ?thesis using that gp(3) \<open>c\<close> by (auto simp: path ins_fix_single)
    next
      case False
      then have "d = (\<not> e)" by auto
      then show ?thesis using that gp(3) \<open>c\<close> by (cases e) (auto simp: path ins_fix_double [where e = True, simplified] ins_fix_double [where e = False, simplified])
    qed
    have "ins_core cmp key ?ys path2 node2"
      by (rule rotate_core [OF refl _ _ _ _ _ core(1) _ gp(4) refl core(4,5) fix'])
        (use core True in \<open>auto simp: path gp(3)\<close>)
    moreover obtain c2 l2 r2 where "node2 = RingNode c2 l2 key val r2" using k by blast
    ultimately show ?thesis
      using ins_step_eq [OF enter, of dir lastd gp ggp path2 c2 l2 key val r2 p_ok gp_ok cmp]
        fix' post gp(1,2,5) d by auto
  qed
qed


text \<open>A node with two red children flips; its parent may then be red.\<close>

lemma step_flip:
  assumes inv: "ins_inv cmp key xs (InsState path (RingNode c l k v r) dir lastd gp ggp)"
    and red: "isRed l" "isRed r" and sorted: "key_sorted cmp xs"
  shows "\<exists>res. ins_step cmp key val (InsState path (RingNode c l k v r) dir lastd gp ggp) = Some res \<and>
    (case res of Inl res \<Rightarrow> ins_post cmp key val xs res
     | Inr s' \<Rightarrow> ins_inv cmp key xs s' \<and>
         ins_measure cmp key s' < ins_measure cmp key (InsState path (RingNode c l k v r) dir lastd gp ggp))"
proof -
  let ?node = "RingNode True (setRed False l) k v (setRed False r)"
  have core: "ins_core cmp key xs path (RingNode c l k v r)" and c: "\<not> c"
    using inv red by (auto simp: ins_inv_def ins_core_def)
  have enter: "ins_enter key val path (RingNode c l k v r) = Some (?node, False)"
    using red by (simp add: ins_enter_def)
  have gp: "gp" if "path = p # ups" for p ups
    using inv red that c by (auto simp: ins_inv_def)
  have calm: "calm (setRed False l)" "calm (setRed False r)"
    using core red by (cases l; cases r; auto simp: ins_core_def)+
  have node: "\<not> isRed (setRed False l)" "\<not> isRed (setRed False r)" "invc ?node" "invh ?node"
      "bheight ?node = bheight (RingNode c l k v r)"
    using core red c by (auto simp: ins_core_def bheight_setRed_False)
  have pc: "pinvc path False" "pinvh path (bheight ?node)"
      "ctxL path @ inorder ?node @ ctxR path = xs"
      "\<forall>x \<in> set (ctxL path). cmp (fst x) key < 0" "\<forall>x \<in> set (ctxR path). cmp (fst x) key > 0"
    using core c node(5) by (auto simp: ins_core_def)
  show ?thesis
  proof (cases "\<exists>p ups. path = p # ups \<and> fred p")
    case False
    then have core': "ins_core cmp key xs path ?node"
      using pc node by (cases path) (auto simp: ins_core_def)
    have fix': "ins_fix dir lastd gp ggp path ?node = Some (path, ?node, True, gp)"
      using False by (intro ins_fix_none) (auto split: list.splits)
    show ?thesis
    proof (cases "cmp k key = 0")
      case True
      then show ?thesis
        using ins_step_eq [OF enter fix'] core_post [OF core' True, where ret = False and xs = xs and val = val] by simp
    next
      case False
      have "ins_inv cmp key xs (InsState
         (Frame (cmp k key < 0) True k v (if cmp k key < 0 then setRed False l else setRed False r) # path)
         (if cmp k key < 0 then setRed False r else setRed False l) (cmp k key < 0) dir True
         (if length path < 2 \<and> gp then ggp else gp))"
        using inv gp calm by (intro down_inv [OF core' sorted False])
          (auto simp: ins_inv_def split: list.splits)
      then show ?thesis
        using ins_step_eq [OF enter fix'] False inv gp
        by (auto simp: ins_measure_def ins_inv_def split: list.splits)
    qed
  next
    case True
    then obtain p ups where p: "path = p # ups" "fred p" by blast
    then obtain g rest where g: "gp" "ggp" "ups = g # rest" "\<not> isRed (fsib g)" "lastd = fdir g" "dir = fdir p"
      using inv red by (auto simp: ins_inv_def)
    obtain d pk pv ps where pd: "p = Frame d True pk pv ps" using p(2) by (cases p) auto
    obtain e gc gk gv gs where gd: "g = Frame e gc gk gv gs" by (cases g)
    have path: "path = Frame d True pk pv ps # Frame e gc gk gv gs # rest"
      and de: "dir = d" "lastd = e" and gs: "\<not> isRed gs"
      using p g pd gd by auto
    show ?thesis
    proof (cases "d = e")
      case True
      let ?path2 = "Frame d False pk pv (plug1 (Frame d True gk gv gs) ps) # rest"
      have fix': "ins_fix d e True True path ?node = Some (?path2, ?node, True, False)"
        by (simp only: path True ins_fix_single)
      have core': "ins_core cmp key xs ?path2 ?node"
        by (rule rotate_core [OF refl node(1-4) path pc(1,2) gs pc(3-5) fix'])
      show ?thesis
      proof (cases "cmp k key = 0")
        case True
        then show ?thesis
          using ins_step_eq [OF enter fix'] core_post [OF core' True, where ret = False and xs = xs and val = val] g(1,2) de by simp
      next
        case False
        have "ins_inv cmp key xs (InsState
           (Frame (cmp k key < 0) True k v (if cmp k key < 0 then setRed False l else setRed False r) # ?path2)
           (if cmp k key < 0 then setRed False r else setRed False l) (cmp k key < 0) d True False)"
          using calm node by (intro down_inv [OF core' sorted False]) auto
        then show ?thesis
          using ins_step_eq [OF enter fix'] False g(1,2) de
          by (auto simp: ins_measure_def path)
      qed
    next
      case False
      then have dn: "d = (\<not> e)" by auto
      define L where "L = (if e then RingNode True gs gk gv (setRed False l)
        else RingNode True ps pk pv (setRed False l))"
      define R where "R = (if e then RingNode True (setRed False r) pk pv ps
        else RingNode True (setRed False r) gk gv gs)"
      have fix': "ins_fix d e True True path ?node = Some (rest, RingNode False L k v R, False, False)"
        by (cases e) (simp_all add: path dn L_def R_def ins_fix_double [where e = True, simplified]
            ins_fix_double [where e = False, simplified])
      have core': "ins_core cmp key xs rest (RingNode False L k v R)"
        by (rule rotate_core [OF refl node(1-4) path pc(1,2) gs pc(3-5) fix'])
      have ord: "cmp pk key \<noteq> 0 \<and> (cmp pk key < 0) = d" "cmp gk key \<noteq> 0 \<and> (cmp gk key < 0) = e"
        using pc(4,5) unfolding path by (cases d; cases e; simp)+
      have step: "ins_step cmp key val (InsState path (RingNode c l k v r) dir lastd gp ggp) =
        (if cmp k key = 0 then Some (Inl (plug rest (RingNode False L k v R), False))
         else Some (Inr (InsState
           (Frame (cmp k key < 0) False k v (if cmp k key < 0 then L else R) # rest)
           (if cmp k key < 0 then R else L) (cmp k key < 0) d False False)))"
      proof -
        have "ins_fix dir lastd gp ggp path ?node =
            Some (rest, RingNode False L k v R, False, False)"
          using fix' g(1,2) de by simp
        from ins_step_eq [OF enter this, of cmp] show ?thesis using de(1) by (simp add: path)
      qed
      show ?thesis
      proof (cases "cmp k key = 0")
        case True
        show ?thesis
          using step True core_post [OF core' True, where ret = False and xs = xs and val = val]
          by simp
      next
        case ne: False
        have "ins_inv cmp key xs (InsState
             (Frame (cmp k key < 0) False k v (if cmp k key < 0 then L else R) # rest)
             (if cmp k key < 0 then R else L) (cmp k key < 0) d False False)"
          by (rule down_inv [OF core' sorted ne])
            (use calm ord dn in \<open>cases e; simp add: L_def R_def\<close>)+
        moreover have "2 * sdepth cmp key (if cmp k key < 0 then R else L)
            < ins_measure cmp key (InsState path (RingNode c l k v r) dir lastd gp ggp)"
          using ord dn ne g(1) by (cases e) (auto simp: ins_measure_def L_def R_def)
        ultimately show ?thesis
          using step ne by (simp add: ins_measure_def)
      qed
    qed
  qed
qed

text \<open>Any other node is left alone.\<close>

lemma step_pass:
  assumes inv: "ins_inv cmp key xs (InsState path (RingNode c l k v r) dir lastd gp ggp)"
    and red: "\<not> (isRed l \<and> isRed r)" and sorted: "key_sorted cmp xs"
  shows "\<exists>res. ins_step cmp key val (InsState path (RingNode c l k v r) dir lastd gp ggp) = Some res \<and>
    (case res of Inl res \<Rightarrow> ins_post cmp key val xs res
     | Inr s' \<Rightarrow> ins_inv cmp key xs s' \<and>
         ins_measure cmp key s' < ins_measure cmp key (InsState path (RingNode c l k v r) dir lastd gp ggp))"
proof -
  let ?node = "RingNode c l k v r"
  have core: "ins_core cmp key xs path ?node"
    using inv by (auto simp: ins_inv_def)
  have enter: "ins_enter key val path ?node = Some (?node, False)"
    using red by (auto simp: ins_enter_def)
  have fix': "ins_fix dir lastd gp ggp path ?node = Some (path, ?node, True, gp)"
    using core by (intro ins_fix_none) (auto simp: ins_core_def split: list.splits)
  show ?thesis
  proof (cases "cmp k key = 0")
    case True
    then show ?thesis
      using ins_step_eq [OF enter fix'] core_post [OF core True, where ret = False and xs = xs and val = val] by simp
  next
    case False
    have "ins_inv cmp key xs (InsState
       (Frame (cmp k key < 0) c k v (if cmp k key < 0 then l else r) # path)
       (if cmp k key < 0 then r else l) (cmp k key < 0) dir True
       (if length path < 2 \<and> gp then ggp else gp))"
    proof (rule down_inv [OF core sorted False])
      assume c
      then show "calm (if cmp k key < 0 then r else l) \<or>
          (True \<and> (if length path < 2 \<and> gp then ggp else gp) \<and>
           (\<exists>g rest. path = g # rest \<and> \<not> isRed (fsib g)))"
        using inv by (cases path) (auto simp: ins_inv_def ins_core_def split: list.splits)
    qed (use inv red in \<open>auto simp: ins_inv_def split: list.splits\<close>)
    then show ?thesis
      using ins_step_eq [OF enter fix'] False by (auto simp: ins_measure_def)
  qed
qed


lemma ins_step_ok:
  assumes "ins_inv cmp key xs s" and "key_sorted cmp xs"
  shows "\<exists>res. ins_step cmp key val s = Some res \<and>
    (case res of Inl res \<Rightarrow> ins_post cmp key val xs res
     | Inr s' \<Rightarrow> ins_inv cmp key xs s' \<and> ins_measure cmp key s' < ins_measure cmp key s)"
proof (cases s)
  case (InsState path node dir lastd gp ggp)
  show ?thesis
  proof (cases node)
    case Null
    then show ?thesis
      using step_leaf [of key xs path dir lastd gp ggp val] assms(1)
      by (auto simp: InsState)
  next
    case (RingNode c l k v r)
    then show ?thesis
      using step_flip [of key xs path c l k v r dir lastd gp ggp val]
        step_pass [of key xs path c l k v r dir lastd gp ggp val] assms
      unfolding InsState by blast
  qed
qed

text \<open>The loop ends, and with the right tree.\<close>

lemma ins_loop_ok:
  assumes "ins_inv cmp key xs s" and sorted: "key_sorted cmp xs"
  shows "\<exists>res. ins_loop cmp key val s = Some res \<and> ins_post cmp key val xs res"
  using assms(1)
proof (induction "ins_measure cmp key s" arbitrary: s rule: less_induct)
  case less
  obtain res where step: "ins_step cmp key val s = Some res" and
    res: "case res of Inl res \<Rightarrow> ins_post cmp key val xs res
      | Inr s' \<Rightarrow> ins_inv cmp key xs s' \<and> ins_measure cmp key s' < ins_measure cmp key s"
    using ins_step_ok [OF less.prems sorted] by blast
  show ?case
  proof (cases res)
    case (Inl a)
    then show ?thesis using step res by (simp add: ins_loop.simps)
  next
    case (Inr s')
    then have "\<exists>res. ins_loop cmp key val s' = Some res \<and> ins_post cmp key val xs res"
      using res less.hyps by simp
    then show ?thesis using step Inr by (simp add: ins_loop.simps [of cmp key val s])
  qed
qed

lemma key_sorted_insert:
  assumes "key_sorted cmp (as @ bs)"
    and "\<forall>x \<in> set as. cmp (fst x) key < 0" "\<forall>x \<in> set bs. cmp (fst x) key > 0"
  shows "key_sorted cmp (as @ (key, val) # bs)"
  using assms by (auto simp: key_sorted_def sorted_wrt_append cmp_flip)

text \<open>
  Insertion is total on well-formed trees: it adds the entry unless the key is already there, in
  which case the tree's entries stay as they are, and reports which.
\<close>

lemma rb_insert_ok:
  assumes ok: "rb_ok cmp tree"
  shows "\<exists>tree' ret. rb_insert cmp key val tree = Some (tree', ret) \<and> rb_ok cmp tree' \<and>
    (ret \<longleftrightarrow> key \<notin> fst ` set (entries tree)) \<and>
    set (entries tree') = (if ret then insert (key, val) (set (entries tree)) else set (entries tree))"
proof (cases "rb_root tree")
  case Null
  then show ?thesis
    using ok by (auto simp: rb_insert_def rb_ok_def key_sorted_def)
next
  case (RingNode c l k v r)
  let ?xs = "entries tree"
  have sorted: "key_sorted cmp ?xs" using ok by (simp add: rb_ok_def)
  have "ins_inv cmp key ?xs (InsState [] (rb_root tree) False False True True)"
    using ok RingNode by (auto simp: ins_inv_def ins_core_def rb_ok_def)
  then obtain t ret where loop: "ins_loop cmp key val (InsState [] (rb_root tree) False False True True) = Some (t, ret)"
      and post: "ins_post cmp key val ?xs (t, ret)"
    using ins_loop_ok [OF _ sorted] by (metis surj_pair)
  have eq: "rb_insert cmp key val tree = Some (tree\<lparr>rb_root := setRed False t,
      rb_size := (if ret then rb_size tree + 1 else rb_size tree)\<rparr>, ret)" (is "_ = Some (?t', _)")
    using loop RingNode by (simp add: rb_insert_def)
  show ?thesis
  proof (cases ret)
    case True
    then obtain as bs where ab: "?xs = as @ bs" "inorder t = as @ (key, val) # bs"
        "\<forall>x \<in> set as. cmp (fst x) key < 0" "\<forall>x \<in> set bs. cmp (fst x) key > 0"
      using post by (auto simp: ins_post_def)
    then have "rb_ok cmp ?t'"
      using True post ok sorted key_sorted_insert [of as bs key val]
      by (simp add: rb_ok_def ins_post_def)
    moreover have "key \<notin> fst ` set ?xs" using ab by force
    ultimately show ?thesis using eq True ab by auto
  next
    case False
    then show ?thesis
      using eq post ok by (auto simp: rb_ok_def ins_post_def)
  qed
qed

end
end
