(* ===== verification/RBTree_Remove.thy ===== *)
theory RBTree_Remove
  imports RBTree_Insert
begin

text \<open>
  Removal is correct: on a well-formed tree the loop of \<open>RBTree.remove\<close> pushes a red node down to
  the place the entry is spliced out, never writes through \<open>null\<close>, and leaves a balanced tree with
  exactly the entry of the key gone. \<open>rem_push\<close> is taken apart into its three rearrangements, which
  concern colours and heights only; the keys enter with the loop's invariant \<open>rem_inv\<close>.
\<close>

section \<open>The invariant of the removal loop\<close>

definition rem_core :: "('k \<Rightarrow> 'k \<Rightarrow> int) \<Rightarrow> 'k \<Rightarrow> ('k \<times> 'v) list \<Rightarrow> ('k, 'v) path \<Rightarrow> bool \<Rightarrow>
    ('k, 'v) ring_node \<Rightarrow> bool" where
  "rem_core cmp key xs path found node \<longleftrightarrow>
     invc node \<and> invh node \<and> pinvc path (isRed node) \<and> pinvh path (bheight node) \<and>
     ctxL path @ inorder node @ ctxR path = xs \<and>
     (\<forall>x \<in> set (ctxL path). cmp key (fst x) > 0) \<and> (\<forall>x \<in> set (ctxR path). cmp key (fst x) \<le> 0) \<and>
     (found \<longleftrightarrow> (\<exists>x \<in> set (ctxR path). cmp key (fst x) = 0))"

definition rem_inv :: "('k \<Rightarrow> 'k \<Rightarrow> int) \<Rightarrow> 'k \<Rightarrow> ('k \<times> 'v) list \<Rightarrow> ('k, 'v) path \<Rightarrow> bool \<Rightarrow>
    ('k, 'v) ring_node \<Rightarrow> bool" where
  "rem_inv cmp key xs path found node \<longleftrightarrow>
     rem_core cmp key xs path found node \<and>
     (case path of [] \<Rightarrow> True
      | p # ups \<Rightarrow> isRed node \<or> fred p \<or> (ups = [] \<and> \<not> isRed (fsib p)))"

text \<open>The colours and heights alone, which the push changes without looking at a key.\<close>

definition balanced_at :: "('k, 'v) path \<Rightarrow> ('k, 'v) ring_node \<Rightarrow> bool" where
  "balanced_at path node \<longleftrightarrow>
     invc node \<and> invh node \<and> pinvc path (isRed node) \<and> pinvh path (bheight node)"

lemma bheight_pos: "\<not> isRed t \<Longrightarrow> t \<noteq> Null \<Longrightarrow> 0 < bheight t"
  by (cases t) auto

text \<open>A red child on the other side is rotated up, the node moves down red.\<close>

lemma rem_push_rotate:
  assumes bal: "balanced_at path (RingNode c l k v r)"
    and col: "\<not> c" "\<not> isRed (if dir then r else l)" "isRed (if dir then l else r)"
  shows "\<exists>f node'. rem_push path (RingNode c l k v r) dir = Some (f # path, node') \<and>
    fdir f = dir \<and> \<not> fred f \<and> balanced_at (f # path) node' \<and>
    (\<exists>l' r'. node' = RingNode True l' k v r') \<and>
    inorder (plug1 f node') = inorder (RingNode c l k v r)"
  using assms
  by (cases dir; cases "if dir then l else r")
    (auto simp: rem_push_def balanced_at_def Let_def)

text \<open>A black sibling without red children turns red together with the node.\<close>

lemma rem_push_flip:
  assumes bal: "balanced_at (p # ups) (RingNode c l k v r)"
    and col: "\<not> c" "\<not> isRed l" "\<not> isRed r"
    and p: "fred p \<or> (ups = [] \<and> \<not> isRed (fsib p))"
    and sib: "\<not> isRed (getChild True (fsib p))" "\<not> isRed (getChild False (fsib p))"
  shows "\<exists>p'. rem_push (p # ups) (RingNode c l k v r) dir = Some (p' # ups, RingNode True l k v r) \<and>
    ctxL (p' # ups) = ctxL (p # ups) \<and> ctxR (p' # ups) = ctxR (p # ups) \<and>
    balanced_at (p' # ups) (RingNode True l k v r)"
proof -
  obtain d pc pk pv s where pf: "p = Frame d pc pk pv s" by (cases p)
  obtain sc sl sk sv sr where s: "s = RingNode sc sl sk sv sr"
    using bal col by (cases s) (auto simp: pf balanced_at_def)
  have "\<not> sc" using p bal by (auto simp: pf s balanced_at_def)
  then show ?thesis
    using assms by (auto simp: pf s balanced_at_def rem_push_def Let_def dest: pinvc_False)
qed

text \<open>A sibling with a red child is rotated over the parent.\<close>

lemma rem_push_double:
  assumes bal: "balanced_at (p # ups) (RingNode c l k v r)"
    and col: "\<not> c" "\<not> isRed l" "\<not> isRed r"
    and p: "fred p \<or> (ups = [] \<and> \<not> isRed (fsib p))"
    and sib: "isRed (getChild True (fsib p)) \<or> isRed (getChild False (fsib p))"
  shows "\<exists>fp fg. rem_push (p # ups) (RingNode c l k v r) dir =
      Some (fp # fg # ups, RingNode True l k v r) \<and>
    ctxL (fp # fg # ups) = ctxL (p # ups) \<and> ctxR (fp # fg # ups) = ctxR (p # ups) \<and>
    balanced_at (fp # fg # ups) (RingNode True l k v r)"
proof -
  obtain d pc pk pv s where pf: "p = Frame d pc pk pv s" by (cases p)
  obtain sc sl sk sv sr where s: "s = RingNode sc sl sk sv sr"
    using sib by (cases s) (auto simp: pf)
  have sc: "\<not> sc" using p bal by (auto simp: pf s balanced_at_def)
  have inv: "pinvc ups True" "pinvh ups (bheight s)" using p bal sc
    by (auto simp: pf s balanced_at_def)
  show ?thesis
  proof (cases "isRed (getChild d s)")
    case True
    then obtain xl xk xv xr where x: "getChild d s = RingNode True xl xk xv xr"
      by (cases "getChild d s") auto
    show ?thesis
      using bal col sc x sib inv
      by (cases d) (auto simp: pf s balanced_at_def rem_push_def Let_def)
  next
    case False
    then obtain xl xk xv xr where x: "getChild (\<not> d) s = RingNode True xl xk xv xr"
      using sib by (cases d; cases "getChild (\<not> d) s") (auto simp: pf)
    show ?thesis
      using bal col sc x sib inv False
      by (cases d) (auto simp: pf s balanced_at_def rem_push_def Let_def)
  qed
qed

text \<open>What one pass of the loop does before it moves down.\<close>

lemma rem_push_ok:
  assumes bal: "balanced_at path (RingNode c l k v r)"
    and path: "case path of [] \<Rightarrow> True
      | p # ups \<Rightarrow> c \<or> fred p \<or> (ups = [] \<and> \<not> isRed (fsib p))"
  obtains path' c' l' r' where
    "rem_push path (RingNode c l k v r) dir = Some (path', RingNode c' l' k v r')"
    "balanced_at path' (RingNode c' l' k v r')"
    "if dir then r' = r \<and> ctxL path' @ inorder l' = ctxL path @ inorder l \<and> ctxR path' = ctxR path
     else l' = l \<and> ctxL path' = ctxL path \<and> inorder r' @ ctxR path' = inorder r @ ctxR path"
    "c' \<or> isRed (if dir then r' else l') \<or> (path' = [] \<and> \<not> isRed (if dir then l' else r'))"
proof -
  let ?n = "RingNode c l k v r"
  consider (pass) "c \<or> isRed (if dir then r else l)"
    | (rot) "\<not> c" "\<not> isRed (if dir then r else l)" "isRed (if dir then l else r)"
    | (top) "\<not> c" "\<not> isRed l" "\<not> isRed r" "path = []"
    | (flip) p ups where "\<not> c" "\<not> isRed l" "\<not> isRed r" "path = p # ups"
      "\<not> isRed (getChild True (fsib p))" "\<not> isRed (getChild False (fsib p))"
    | (double) p ups where "\<not> c" "\<not> isRed l" "\<not> isRed r" "path = p # ups"
      "isRed (getChild True (fsib p)) \<or> isRed (getChild False (fsib p))"
    by (cases dir; cases path) auto
  then show thesis
  proof cases
    case pass
    then have "rem_push path ?n dir = Some (path, ?n)" by (auto simp: rem_push_def)
    then show thesis by (rule that) (use bal pass in auto)
  next
    case rot
    then obtain f l' r' where f: "rem_push path ?n dir = Some (f # path, RingNode True l' k v r')"
      "fdir f = dir" "balanced_at (f # path) (RingNode True l' k v r')"
      "inorder (plug1 f (RingNode True l' k v r')) = inorder ?n"
      using rem_push_rotate [OF bal, of dir] by blast
    have child: "if dir then r' = r else l' = l"
      using rem_push_child [OF f(1)] by (cases dir) simp_all
    then show thesis
      using that [OF f(1) f(3)] f(2,4) by (cases f) (auto split: if_splits)
  next
    case top
    then have "rem_push path ?n dir = Some (path, ?n)" by (auto simp: rem_push_def)
    then show thesis by (rule that) (use bal top in auto)
  next
    case flip
    then obtain p' where f: "rem_push path ?n dir = Some (p' # ups, RingNode True l k v r)"
      "ctxL (p' # ups) = ctxL path" "ctxR (p' # ups) = ctxR path"
      "balanced_at (p' # ups) (RingNode True l k v r)"
      using rem_push_flip [of p ups c l k v r dir] bal path by auto
    show thesis by (rule that [OF f(1)]) (use f in auto)
  next
    case double
    then obtain fp fg where f: "rem_push path ?n dir = Some (fp # fg # ups, RingNode True l k v r)"
      "ctxL (fp # fg # ups) = ctxL path" "ctxR (fp # fg # ups) = ctxR path"
      "balanced_at (fp # fg # ups) (RingNode True l k v r)"
      using rem_push_double [of p ups c l k v r dir] bal path by auto
    show thesis by (rule that [OF f(1)]) (use f in auto)
  qed
qed

context comparator_order
begin

lemma rem_inv_down:
  assumes inv: "rem_inv cmp key xs path found (RingNode c l k v r)" and sorted: "key_sorted cmp xs"
  defines "d \<equiv> cmp key k > 0"
  shows "\<exists>path' node' f. rem_push path (RingNode c l k v r) d = Some (path', node') \<and>
    frame_of d node' = Some f \<and> getChild d node' = getChild d (RingNode c l k v r) \<and>
    rem_inv cmp key xs (f # path') (found \<or> cmp key k = 0) (getChild d node')"
proof -
  have bal: "balanced_at path (RingNode c l k v r)"
    and core: "rem_core cmp key xs path found (RingNode c l k v r)"
    using inv by (auto simp: rem_inv_def rem_core_def balanced_at_def)
  have path: "case path of [] \<Rightarrow> True | p # ups \<Rightarrow> c \<or> fred p \<or> (ups = [] \<and> \<not> isRed (fsib p))"
    using inv by (auto simp: rem_inv_def split: list.splits)
  obtain path' c' l' r' where push:
    "rem_push path (RingNode c l k v r) d = Some (path', RingNode c' l' k v r')"
    "balanced_at path' (RingNode c' l' k v r')"
    "if d then r' = r \<and> ctxL path' @ inorder l' = ctxL path @ inorder l \<and> ctxR path' = ctxR path
     else l' = l \<and> ctxL path' = ctxL path \<and> inorder r' @ ctxR path' = inorder r @ ctxR path"
    "c' \<or> isRed (if d then r' else l') \<or> (path' = [] \<and> \<not> isRed (if d then l' else r'))"
    by (rule rem_push_ok [OF bal path])
  have xs: "xs = ctxL path @ inorder l @ (k, v) # inorder r @ ctxR path"
    and ctx: "\<forall>x \<in> set (ctxL path). cmp key (fst x) > 0" "\<forall>x \<in> set (ctxR path). cmp key (fst x) \<le> 0"
    and found: "found \<longleftrightarrow> (\<exists>x \<in> set (ctxR path). cmp key (fst x) = 0)"
    using core by (auto simp: rem_core_def)
  let ?child = "getChild d (RingNode c' l' k v r')"
  let ?f = "Frame d c' k v (if d then l' else r')"
  have child: "?child = getChild d (RingNode c l k v r)" using push(3) by (simp split: if_splits)
  have core': "rem_core cmp key xs (?f # path') (found \<or> cmp key k = 0) ?child"
  proof (cases d)
    case True
    have "cmp key (fst x) > 0" if "x \<in> set (inorder l)" for x
    proof -
      have "cmp (fst x) k < 0" using sorted that by (auto simp: xs key_sorted_def sorted_wrt_append)
      then show ?thesis using True cmp_trans cmp_flip unfolding d_def by blast
    qed
    moreover have "set (ctxL path') \<union> set (inorder l') = set (ctxL path) \<union> set (inorder l)"
      using push(3) True by (metis set_append)
    ultimately have "\<forall>x \<in> set (ctxL path') \<union> set (inorder l'). cmp key (fst x) > 0"
      using ctx(1) by auto
    moreover have "ctxL path' @ inorder l' @ (k, v) # inorder r' @ ctxR path' = xs"
      using push(3) True unfolding xs by (simp flip: append_assoc)
    ultimately show ?thesis
      using push(2,3) True ctx(2) found by (auto simp: rem_core_def balanced_at_def d_def)
  next
    case False
    have lt: "cmp key (fst x) < 0" if "x \<in> set (inorder r)" for x
    proof -
      have "cmp k (fst x) < 0" using sorted that by (auto simp: xs key_sorted_def sorted_wrt_append)
      moreover have "cmp key k < 0 \<or> key = k" using False cmp_zero unfolding d_def by force
      ultimately show ?thesis using cmp_trans by blast
    qed
    have set_eq: "set (inorder r') \<union> set (ctxR path') = set (inorder r) \<union> set (ctxR path)"
      using push(3) False by (metis set_append)
    then have "\<forall>x \<in> set (inorder r') \<union> set (ctxR path'). cmp key (fst x) \<le> 0"
      using ctx(2) lt by force
    moreover have "ctxL path' @ inorder l' @ (k, v) # inorder r' @ ctxR path' = xs"
      using push(3) False unfolding xs by simp
    moreover have "(found \<or> cmp key k = 0) \<longleftrightarrow>
        (\<exists>x \<in> set (inorder r') \<union> set (ctxR path'). cmp key (fst x) = 0) \<or> cmp key k = 0"
      unfolding set_eq bex_Un found using lt by fastforce
    moreover have "cmp key k \<le> 0" "l' = l" "ctxL path' = ctxL path"
      using False push(3) by (auto simp: d_def)
    ultimately show ?thesis
      using push(2) False ctx(1)
      by (auto simp: rem_core_def balanced_at_def ball_Un bex_Un disj_commute)
  qed
  have "rem_inv cmp key xs (?f # path') (found \<or> cmp key k = 0) ?child"
    using core' push(4) by (auto simp: rem_inv_def)
  then show ?thesis
    using push(1) child by (intro exI [of _ path'] exI [of _ "RingNode c' l' k v r'"] exI [of _ ?f]) simp
qed

lemma rem_loop_ok:
  assumes "rem_inv cmp key xs path found node" and sorted: "key_sorted cmp xs"
  shows "\<exists>path' found'. rem_loop cmp key path found node = Some (path', found') \<and>
    rem_inv cmp key xs path' found' Null"
  using assms(1)
proof (induction "size node" arbitrary: path found node rule: less_induct)
  case less
  show ?case
  proof (cases node)
    case Null
    then show ?thesis using less.prems by simp
  next
    case (RingNode c l k v r)
    then obtain path' node' f where
      "rem_push path node (cmp key k > 0) = Some (path', node')"
      "frame_of (cmp key k > 0) node' = Some f"
      "getChild (cmp key k > 0) node' = getChild (cmp key k > 0) node"
      and inv: "rem_inv cmp key xs (f # path') (found \<or> cmp key k = 0) (getChild (cmp key k > 0) node')"
      using rem_inv_down [OF _ sorted] less.prems by blast
    then show ?thesis
      using less.hyps [OF _ inv] by (auto simp: RingNode Let_def)
  qed
qed


text \<open>The node spliced out is red and has no other child, or is the lone root.\<close>

lemma rem_inv_last:
  assumes "rem_inv cmp key xs (nd # ups) found Null"
  shows "fsib nd = Null" "balanced_at ups Null"
proof -
  have "bheight (fsib nd) = 0" "\<not> isRed (fsib nd)"
    using assms by (auto simp: rem_inv_def rem_core_def)
  then show sib: "fsib nd = Null" using bheight_pos by (metis less_irrefl)
  show "balanced_at ups Null"
    using assms by (auto simp: rem_inv_def rem_core_def balanced_at_def sib split: if_splits
        dest: pinvc_False)
qed

lemma overwrite_inv [simp]:
  "pinvc (overwrite cmp key k v path) b = pinvc path b"
  "pinvh (overwrite cmp key k v path) n = pinvh path n"
  unfolding overwrite_def by (induction path arbitrary: b n) auto

lemma overwrite_id:
  "\<forall>f \<in> set path. cmp key (fkey f) \<noteq> 0 \<Longrightarrow> overwrite cmp key k v path = path"
  by (auto simp: overwrite_def intro: map_idI)

lemma frame_keys: "fkey ` set path \<subseteq> fst ` (set (ctxL path) \<union> set (ctxR path))"
  by (induction path) force+

lemma overwrite_id_ctx:
  assumes "\<forall>x \<in> set (ctxL path) \<union> set (ctxR path). cmp key (fst x) \<noteq> 0"
  shows "overwrite cmp key k v path = path"
proof (rule overwrite_id, rule ballI)
  fix f assume "f \<in> set path"
  then obtain x where "x \<in> set (ctxL path) \<union> set (ctxR path)" "fkey f = fst x"
    using frame_keys [of path] by blast
  then show "cmp key (fkey f) \<noteq> 0" using assms by simp
qed

text \<open>The key found above the last node is the first entry right of the hole.\<close>

lemma overwrite_ctx:
  assumes "ctxR path = x # rest" "cmp key (fst x) = 0"
    and "\<forall>y \<in> set rest. cmp key (fst y) \<noteq> 0" "\<forall>y \<in> set (ctxL path). cmp key (fst y) \<noteq> 0"
  shows "ctxR (overwrite cmp key k v path) = (k, v) # rest \<and>
    ctxL (overwrite cmp key k v path) = ctxL path"
  using assms
proof (induction path)
  case (Cons f fs)
  show ?case
  proof (cases "fdir f")
    case True
    then show ?thesis using Cons by (auto simp: overwrite_def)
  next
    case False
    have "overwrite cmp key k v fs = fs"
      using Cons.prems False by (intro overwrite_id_ctx) auto
    then show ?thesis using Cons.prems False by (auto simp: overwrite_def)
  qed
qed simp

lemma length_filter_key:
  "distinct (map fst xs) \<Longrightarrow> length (filter (\<lambda>x. fst x \<noteq> key) xs) =
    (if key \<in> fst ` set xs then length xs - 1 else length xs)"
proof (induction xs)
  case (Cons x xs)
  have "0 < length xs" if "key \<in> fst ` set xs" using that by (cases xs) auto
  moreover have "filter (\<lambda>x. fst x \<noteq> key) xs = xs" if "key = fst x"
  proof (rule filter_True, rule ballI)
    fix y assume "y \<in> set xs"
    then have "fst y \<in> fst ` set xs" by (rule imageI)
    moreover have "fst x \<notin> fst ` set xs" using Cons.prems by simp
    ultimately show "fst y \<noteq> key" using that by metis
  qed
  ultimately show ?case using Cons by auto
qed simp

lemma filter_unique_key:
  assumes "\<forall>y \<in> set as \<union> set bs. cmp key (fst y) \<noteq> 0" "cmp key (fst x) = 0"
  shows "filter (\<lambda>y. cmp key (fst y) \<noteq> 0) (as @ x # bs) = as @ bs"
  using assms by simp

lemma rem_finish_ok:
  assumes inv: "rem_inv cmp key xs path found Null" and sorted: "key_sorted cmp xs"
  shows "\<exists>t. rem_finish cmp key path found = Some t \<and> balanced_at [] t \<and>
    inorder t = filter (\<lambda>x. cmp key (fst x) \<noteq> 0) xs \<and>
    (found \<longleftrightarrow> (\<exists>x \<in> set xs. cmp key (fst x) = 0))"
proof -
  have xs: "xs = ctxL path @ ctxR path" and bal: "balanced_at path Null"
    and ctx: "\<forall>x \<in> set (ctxL path). cmp key (fst x) > 0" "\<forall>x \<in> set (ctxR path). cmp key (fst x) \<le> 0"
    and found: "found \<longleftrightarrow> (\<exists>x \<in> set (ctxR path). cmp key (fst x) = 0)"
    using inv by (auto simp: rem_inv_def rem_core_def balanced_at_def)
  show ?thesis
  proof (cases found)
    case False
    then have no: "\<forall>x \<in> set xs. cmp key (fst x) \<noteq> 0" using ctx(1) found by (auto simp: xs)
    then have "filter (\<lambda>x. cmp key (fst x) \<noteq> 0) xs = xs" by (simp add: filter_id_conv)
    then show ?thesis
      using no False bal xs
      by (simp add: rem_finish_def balanced_at_def invc_plug invh_plug inorder_plug)
  next
    case True
    then obtain x where x: "x \<in> set (ctxR path)" "cmp key (fst x) = 0" using found by blast
    then obtain as rest where split: "ctxR path = as @ x # rest" by (meson split_list)
    have uniq: "as = []" "\<forall>y \<in> set rest. cmp key (fst y) \<noteq> 0"
    proof -
      have eq: "fst x = key" using x(2) cmp_zero by metis
      have "cmp (fst y) key < 0" if "y \<in> set as" for y
        using sorted that by (auto simp: xs split key_sorted_def sorted_wrt_append eq)
      then have "cmp key (fst y) > 0" if "y \<in> set as" for y using that cmp_flip by blast
      then show "as = []" using ctx(2) split by (cases as) force+
      show "\<forall>y \<in> set rest. cmp key (fst y) \<noteq> 0"
        using sorted by (auto simp: xs split key_sorted_def sorted_wrt_append eq)
    qed
    from x obtain nd ups where path: "path = nd # ups" by (cases path) auto
    have sib: "fsib nd = Null" and bal': "balanced_at ups Null"
      using rem_inv_last [OF inv [unfolded path]] by simp_all
    have fin: "rem_finish cmp key path found =
        Some (plug (overwrite cmp key (fkey nd) (fval nd) ups) Null)"
      using True sib by (cases nd) (simp add: path rem_finish_def Let_def)
    have "inorder (plug (overwrite cmp key (fkey nd) (fval nd) ups) Null) = ctxL path @ rest"
    proof (cases "fdir nd")
      case True
      have "\<forall>y \<in> set (ctxL ups). cmp key (fst y) \<noteq> 0" using ctx(1) by (force simp: path)
      then show ?thesis
        using overwrite_ctx [of ups x rest key "fkey nd" "fval nd"] x(2) uniq split True sib
        by (simp add: path inorder_plug)
    next
      case False
      have "overwrite cmp key (fkey nd) (fval nd) ups = ups"
        using False uniq split ctx(1) by (intro overwrite_id_ctx) (auto simp: path)
      then show ?thesis using False uniq split sib by (auto simp: path inorder_plug)
    qed
    moreover have "\<forall>y \<in> set (ctxL path) \<union> set rest. cmp key (fst y) \<noteq> 0"
      using uniq(2) ctx(1) by force
    then have "filter (\<lambda>x. cmp key (fst x) \<noteq> 0) xs = ctxL path @ rest"
      using x(2) uniq(1) by (simp add: xs split filter_unique_key)
    ultimately show ?thesis
      using fin bal' found True ctx(1) x unfolding xs
      by (auto simp: balanced_at_def invc_plug invh_plug)
  qed
qed

lemma key_sorted_distinct: "key_sorted cmp xs \<Longrightarrow> distinct (map fst xs)"
  unfolding key_sorted_def by (induction xs) force+

text \<open>
  Removal is total on well-formed trees: the tree stays balanced and sorted, exactly the entry of
  the key goes, and the result says whether it was there.
\<close>

lemma rb_remove_ok:
  assumes ok: "rb_ok cmp tree"
  shows "\<exists>tree' ret. rb_remove cmp key tree = Some (tree', ret) \<and> rb_ok cmp tree' \<and>
    (ret \<longleftrightarrow> key \<in> fst ` set (entries tree)) \<and>
    entries tree' = filter (\<lambda>x. fst x \<noteq> key) (entries tree)"
proof (cases "rb_root tree = Null")
  case True
  then show ?thesis using ok by (auto simp: rb_remove_def)
next
  case False
  let ?xs = "entries tree"
  have sorted: "key_sorted cmp ?xs" using ok by (simp add: rb_ok_def)
  have "rem_inv cmp key ?xs [] False (rb_root tree)"
    using ok by (auto simp: rem_inv_def rem_core_def rb_ok_def)
  then obtain path found where loop: "rem_loop cmp key [] False (rb_root tree) = Some (path, found)"
      and inv: "rem_inv cmp key ?xs path found Null"
    using rem_loop_ok [OF _ sorted] by blast
  obtain t where t: "rem_finish cmp key path found = Some t" "balanced_at [] t"
      "inorder t = filter (\<lambda>x. cmp key (fst x) \<noteq> 0) ?xs"
      "found \<longleftrightarrow> (\<exists>x \<in> set ?xs. cmp key (fst x) = 0)"
    using rem_finish_ok [OF inv sorted] by blast
  have filt: "filter (\<lambda>x. cmp key (fst x) \<noteq> 0) ?xs = filter (\<lambda>x. fst x \<noteq> key) ?xs"
    and mem: "found \<longleftrightarrow> key \<in> fst ` set ?xs"
    using t(4) cmp_zero by (auto intro!: filter_cong)
  have len: "length (filter (\<lambda>x. fst x \<noteq> key) ?xs) =
      (if found then rb_size tree - 1 else rb_size tree)"
    using length_filter_key [OF key_sorted_distinct [OF sorted], of key] ok mem
    by (simp add: rb_ok_def)
  have "key_sorted cmp (filter (\<lambda>x. fst x \<noteq> key) ?xs)"
    using sorted by (simp add: key_sorted_def sorted_wrt_filter)
  then have "rb_ok cmp (tree\<lparr>rb_root := setRed False t,
      rb_size := (if found then rb_size tree - 1 else rb_size tree)\<rparr>)"
    using t(2,3) filt len by (simp add: rb_ok_def balanced_at_def)
  then show ?thesis
    using False loop t(1,3) filt mem by (simp add: rb_remove_def)
qed

end

end
