(* ===== verification/RBTree_Iter.thy ===== *)
theory RBTree_Iter
  imports RBTree_Remove
begin

text \<open>
  The iterator and the bounds: an iterator stands for the entries from its cursor on; \<open>next\<close> drops
  the first of them, \<open>lowerBound\<close> starts at the first key not below the given one, and \<open>upperBound\<close>
  is the same iterator. \<open>min\<close> is the first entry.
\<close>

section \<open>What an iterator stands for\<close>

fun up_rest :: "('k, 'v) ring_node list \<Rightarrow> ('k, 'v) ring_node \<Rightarrow> ('k \<times> 'v) list" where
  "up_rest [] cur = []"
| "up_rest (Null # as) cur = []"
| "up_rest (RingNode c l k v r # as) cur =
     (if r = cur then [] else (k, v) # inorder r) @ up_rest as (RingNode c l k v r)"

fun pos_rest :: "('k, 'v) ring_node list \<times> ('k, 'v) ring_node \<Rightarrow> ('k \<times> 'v) list" where
  "pos_rest (as, Null) = []"
| "pos_rest (as, RingNode c l k v r) = (k, v) # inorder r @ up_rest as (RingNode c l k v r)"

definition iter_rest :: "('k, 'v) rb_iter \<Rightarrow> ('k \<times> 'v) list" where
  "iter_rest iter = pos_rest (it_ancestors iter, it_cursor iter)"

text \<open>The ancestors are the chain from the cursor to the root.\<close>

fun linked :: "('k, 'v) ring_node \<Rightarrow> ('k, 'v) ring_node list \<Rightarrow> ('k, 'v) ring_node \<Rightarrow> bool" where
  "linked rt [] cur \<longleftrightarrow> cur = rt"
| "linked rt (a # as) cur \<longleftrightarrow>
     a \<noteq> Null \<and> (cur = getChild True a \<or> cur = getChild False a \<and> cur \<noteq> getChild True a) \<and>
     linked rt as a"

definition iter_ok :: "('k, 'v) rb_iter \<Rightarrow> bool" where
  "iter_ok iter \<longleftrightarrow> distinct (map fst (inorder (it_tree iter))) \<and>
     (it_cursor iter = Null \<or> linked (it_tree iter) (it_ancestors iter) (it_cursor iter))"

lemma inorder_Nil [simp]: "inorder t = [] \<longleftrightarrow> t = Null"
  by (cases t) auto

lemma children_differ:
  assumes "distinct (map fst (inorder (RingNode c l k v r)))" "l \<noteq> Null"
  shows "l \<noteq> r"
proof
  assume "l = r"
  moreover obtain x where "x \<in> set (inorder l)"
    using assms(2) by (cases l) auto
  ultimately show False using assms(1) by auto
qed

lemma linked_inorder:
  "linked rt as cur \<Longrightarrow> \<exists>pre. inorder rt = pre @ inorder cur @ up_rest as cur"
proof (induction as arbitrary: cur)
  case (Cons a as)
  then obtain pre where "inorder rt = pre @ inorder a @ up_rest as a" by auto
  moreover obtain c l k v r where "a = RingNode c l k v r" using Cons.prems by (cases a) auto
  ultimately show ?case using Cons.prems by auto
qed simp

lemma minNode_pos:
  assumes "linked rt as start" "start \<noteq> Null" "distinct (map fst (inorder rt))"
  shows "linked rt (fst (minNode as start)) (snd (minNode as start)) \<and>
    pos_rest (minNode as start) = inorder start @ up_rest as start"
  using assms(1,2)
proof (induction as start rule: minNode.induct)
  case (2 as c l k v r)
  obtain pre where "inorder rt = pre @ inorder (RingNode c l k v r) @ up_rest as (RingNode c l k v r)"
    using linked_inorder [OF "2.prems"(1)] by blast
  then have dist: "distinct (map fst (inorder (RingNode c l k v r)))" using assms(3) by auto
  show ?case
  proof (cases "l = Null")
    case False
    then have "l \<noteq> r" using children_differ [OF dist] by simp
    then show ?thesis using "2.IH" [OF False] "2.prems" False by auto
  qed (use "2.prems" in auto)
qed simp

lemma climb_pos:
  assumes "linked rt as save"
  shows "(snd (climb as save) = Null \<or> linked rt (fst (climb as save)) (snd (climb as save))) \<and>
    pos_rest (climb as save) = up_rest as save"
  using assms
proof (induction as save rule: climb.induct)
  case (2 a as save)
  then show ?case by (cases a) auto
qed simp

text \<open>\<open>next\<close> moves one entry on.\<close>

lemma iter_next_ok:
  assumes "iter_ok iter" "it_cursor iter \<noteq> Null"
  shows "iter_ok (iter_next iter) \<and> iter_rest (iter_next iter) = tl (iter_rest iter) \<and>
    it_tree (iter_next iter) = it_tree iter"
proof -
  obtain c l k v r where cur: "it_cursor iter = RingNode c l k v r"
    using assms(2) by (cases "it_cursor iter") auto
  have lk: "linked (it_tree iter) (it_ancestors iter) (RingNode c l k v r)"
    and dist: "distinct (map fst (inorder (it_tree iter)))"
    using assms cur by (auto simp: iter_ok_def)
  show ?thesis
  proof (cases "r = Null")
    case True
    then show ?thesis
      using climb_pos [OF lk] dist cur
      by (auto simp: iter_next_def iter_ok_def iter_rest_def set_pos_def)
  next
    case False
    have "linked (it_tree iter) (RingNode c l k v r # it_ancestors iter) r" using lk by simp
    from minNode_pos [OF this False dist] False show ?thesis
      using dist cur by (simp add: iter_next_def iter_ok_def iter_rest_def set_pos_def)
  qed
qed

lemma rb_min_ok: "node_key (rb_min tree) = (case entries tree of [] \<Rightarrow> None | x # _ \<Rightarrow> Some (fst x))"
proof -
  have "node_key (min_node t) = (case inorder t of [] \<Rightarrow> None | x # _ \<Rightarrow> Some (fst x))"
    for t :: "('a, 'b) ring_node"
    by (induction t rule: min_node.induct) (auto split: list.splits)
  then show ?thesis by (simp add: rb_min_def)
qed

context comparator_order
begin

lemma lb_pos:
  assumes "cur \<noteq> Null \<Longrightarrow> linked rt as cur \<and> up_rest as cur = post"
    and "pos_rest (lb_back cmp key as) = post"
    and "snd (lb_back cmp key as) = Null \<or> linked rt (fst (lb_back cmp key as)) (snd (lb_back cmp key as))"
    and "inorder rt = pre @ inorder cur @ post" "key_sorted cmp (inorder rt)"
    and "\<forall>x \<in> set pre. cmp (fst x) key < 0" "\<forall>x \<in> set post. cmp (fst x) key > 0"
  defines "pos \<equiv> (case lb_descend cmp key as cur of Inl pos \<Rightarrow> pos
      | Inr as' \<Rightarrow> lb_back cmp key as')"
  shows "pos_rest pos = dropWhile (\<lambda>x. cmp (fst x) key < 0) (inorder rt) \<and>
    (snd pos = Null \<or> linked rt (fst pos) (snd pos))"
  using assms(1-4,6,7) unfolding pos_def
proof (induction cur arbitrary: as pre post)
  case Null
  have "dropWhile (\<lambda>x. cmp (fst x) key < 0) (pre @ post) = post"
    using Null.prems by (cases post) auto
  then show ?case using Null by simp
next
  case (RingNode c l k v r)
  let ?n = "RingNode c l k v r"
  have rt: "inorder rt = pre @ inorder l @ (k, v) # inorder r @ post"
    using RingNode.prems by simp
  have up: "linked rt as ?n" "up_rest as ?n = post" using RingNode.prems(1) by auto
  have dist: "distinct (map fst (inorder ?n))"
    using key_sorted_distinct [OF assms(5)] by (auto simp: rt)
  have lk: "cmp (fst x) k < 0" if "x \<in> set (inorder l)" for x
    using assms(5) that unfolding rt by (auto simp: key_sorted_def sorted_wrt_append)
  have kr: "cmp k (fst x) < 0" if "x \<in> set (inorder r)" for x
    using assms(5) that unfolding rt by (auto simp: key_sorted_def sorted_wrt_append)
  consider "cmp key k = 0" | "cmp key k > 0" | "cmp key k < 0" by linarith
  then show ?case
  proof cases
    case 1
    then have eq: "k = key" using cmp_zero by metis
    have "dropWhile (\<lambda>x. cmp (fst x) key < 0) (inorder rt) = (k, v) # inorder r @ post"
      unfolding rt using RingNode.prems(5) lk
      by (subst append_assoc [symmetric], subst dropWhile_append2) (auto simp: eq)
    then show ?thesis using 1 up by (simp add: Let_def)
  next
    case 2
    have "\<forall>x \<in> set (pre @ inorder l @ [(k, v)]). cmp (fst x) key < 0"
      using RingNode.prems(5) lk 2 cmp_flip cmp_trans by (auto, blast)
    then show ?thesis
      using RingNode.IH(2) [of "?n # as" post "pre @ inorder l @ [(k, v)]"] RingNode.prems 2 up rt
      by (simp add: Let_def)
  next
    case 3
    have "cmp (fst x) key > 0" if "x \<in> set (inorder r)" for x
      using kr [OF that] 3 cmp_flip cmp_trans by blast
    then have gt: "\<forall>x \<in> set ((k, v) # inorder r @ post). cmp (fst x) key > 0"
      using RingNode.prems(6) 3 cmp_flip by auto
    have "l \<noteq> Null \<Longrightarrow> r \<noteq> l" using children_differ [OF dist] by auto
    then show ?thesis
      using RingNode.IH(1) [of "?n # as" "(k, v) # inorder r @ post" pre] RingNode.prems 3 up rt gt
      by (auto simp: Let_def)
  qed
qed

lemma lowerBound_ok:
  assumes "rb_ok cmp tree"
  shows "iter_ok (lowerBound cmp key tree) \<and>
    iter_rest (lowerBound cmp key tree) = dropWhile (\<lambda>x. cmp (fst x) key < 0) (entries tree)"
proof -
  have sorted: "key_sorted cmp (entries tree)" using assms by (simp add: rb_ok_def)
  show ?thesis
    using lb_pos [of "rb_root tree" "rb_root tree" "[]" "[]" key "[]"] sorted key_sorted_distinct [OF sorted]
    by (simp add: lowerBound_def iter_ok_def iter_rest_def set_pos_def new_iter_def split: sum.splits)
qed

lemma upperBound_eq:
  assumes "rb_ok cmp tree"
  shows "upperBound cmp key tree = Some (lowerBound cmp key tree)"
proof (cases "it_cursor (lowerBound cmp key tree)")
  case Null
  then show ?thesis by (simp add: upperBound_def ub_loop.simps)
next
  case (RingNode c l k v r)
  then have "\<exists>v ys. dropWhile (\<lambda>x. cmp (fst x) key < 0) (entries tree) = (k, v) # ys"
    using lowerBound_ok [OF assms, of key] by (simp add: iter_rest_def) metis
  then have "\<not> cmp k key < 0" by (metis dropWhile_eq_Cons_conv fst_conv)
  then show ?thesis using RingNode by (simp add: upperBound_def ub_loop.simps)
qed

end

end
