(* ===== verification/HashRing.thy ===== *)
theory HashRing
  imports RBTree_Iter
begin

text \<open>
  The consistent hash ring of \<open>lib/ring/index.js\<close>: every server puts \<open>replicaPoints\<close> points on the
  ring, kept in the red-black tree under the comparator, and a key belongs to the server of the
  first point at or after its hash, wrapping around. The hash function (\<open>options.hashFunc\<close>, farmhash
  by default) is a parameter; nothing is assumed of it. Emitted events are appended to a field.
\<close>

section \<open>Replica points and their order\<close>

text \<open>
  A key of the tree. \<open>lookup\<close> builds one without an address, which the comparator reads as the empty
  string; the field \<open>index\<close> of a replica point is never read and is left out.
\<close>

datatype ring_key = RKey (rk_hash: int) (rk_address: string)

definition comparator :: "ring_key \<Rightarrow> ring_key \<Rightarrow> int" where
  "comparator a b =
     (let result = rk_hash a - rk_hash b in
      if result \<noteq> 0 then result
      else if rk_address a = rk_address b then 0
      else if rk_address a > rk_address b then 1
      else -1)"

instantiation ring_key :: linorder
begin

definition less_ring_key :: "ring_key \<Rightarrow> ring_key \<Rightarrow> bool" where
  "less_ring_key a b \<longleftrightarrow>
     rk_hash a < rk_hash b \<or> (rk_hash a = rk_hash b \<and> rk_address a < rk_address b)"

definition less_eq_ring_key :: "ring_key \<Rightarrow> ring_key \<Rightarrow> bool" where
  "less_eq_ring_key a b \<longleftrightarrow>
     rk_hash a < rk_hash b \<or> (rk_hash a = rk_hash b \<and> rk_address a \<le> rk_address b)"

instance
  by intro_classes (auto simp: less_ring_key_def less_eq_ring_key_def ring_key.expand)

end

lemma comparator_less: "comparator a b < 0 \<longleftrightarrow> a < b"
  by (auto simp: comparator_def less_ring_key_def Let_def)

lemma comparator_zero: "comparator a b = 0 \<longleftrightarrow> a = b"
  by (auto simp: comparator_def Let_def ring_key.expand)

lemma comparator_greater: "comparator a b > 0 \<longleftrightarrow> b < a"
  by (metis comparator_less comparator_zero less_asym linorder_cases)

interpretation ring_cmp: comparator_order comparator
proof
  show "comparator a b = 0 \<longleftrightarrow> a = b" for a b by (rule comparator_zero)
  show "comparator a b < 0 \<longleftrightarrow> comparator b a > 0" for a b
    by (simp add: comparator_less comparator_greater)
  show "comparator a b < 0 \<Longrightarrow> comparator b c < 0 \<Longrightarrow> comparator a c < 0" for a b c
    unfolding comparator_less by (rule less_trans)
qed

section \<open>The ring\<close>

datatype ring_event =
    Added string
  | Removed string
  | ChecksumComputed int "int option"
  | RingChanged "string list" "string list"

record hash_ring =
  hr_replicaPoints :: nat
  hr_rbtree :: "(ring_key, string) rbtree"
  hr_servers :: "bool dict"
  hr_checksum :: "int option"
  hr_events :: "ring_event list"

text \<open>\<open>options.replicaPoints || 100\<close>: missing and zero both give 100.\<close>

definition new_ring :: "nat option \<Rightarrow> hash_ring" where
  "new_ring points =
     \<lparr>hr_replicaPoints = (case points of None \<Rightarrow> 100 | Some n \<Rightarrow> if n = 0 then 100 else n),
      hr_rbtree = new_rbtree, hr_servers = [], hr_checksum = None, hr_events = []\<rparr>"

definition ring_emit :: "ring_event \<Rightarrow> hash_ring \<Rightarrow> hash_ring" where
  "ring_emit e ring = ring\<lparr>hr_events := hr_events ring @ [e]\<rparr>"

definition hasServer :: "string \<Rightarrow> hash_ring \<Rightarrow> bool" where
  "hasServer name ring \<longleftrightarrow> dget (hr_servers ring) name = Some True"

definition newReplicaPoint :: "(string \<Rightarrow> int) \<Rightarrow> string \<Rightarrow> nat \<Rightarrow> ring_key" where
  "newReplicaPoint hashFunc address replica =
     RKey (hashFunc (address @ show_nat replica)) address"

text \<open>The two replica loops; \<open>None\<close> is a TypeError inside the tree.\<close>

fun insertReplicas :: "(string \<Rightarrow> int) \<Rightarrow> string \<Rightarrow> nat list \<Rightarrow> (ring_key, string) rbtree \<Rightarrow>
    (ring_key, string) rbtree option" where
  "insertReplicas hashFunc server [] tree = Some tree"
| "insertReplicas hashFunc server (i # is) tree =
     (case rb_insert comparator (newReplicaPoint hashFunc server i) server tree of
        None \<Rightarrow> None
      | Some (tree', _) \<Rightarrow> insertReplicas hashFunc server is tree')"

definition addServerReplicas :: "(string \<Rightarrow> int) \<Rightarrow> string \<Rightarrow> hash_ring \<Rightarrow> hash_ring option" where
  "addServerReplicas hashFunc server ring =
     (case insertReplicas hashFunc server [0..<hr_replicaPoints ring] (hr_rbtree ring) of
        None \<Rightarrow> None
      | Some tree \<Rightarrow> Some (ring\<lparr>hr_servers := dset server True (hr_servers ring), hr_rbtree := tree\<rparr>))"

fun removeReplicas :: "(string \<Rightarrow> int) \<Rightarrow> string \<Rightarrow> nat list \<Rightarrow> (ring_key, string) rbtree \<Rightarrow>
    (ring_key, string) rbtree option" where
  "removeReplicas hashFunc server [] tree = Some tree"
| "removeReplicas hashFunc server (i # is) tree =
     (case rb_remove comparator (newReplicaPoint hashFunc server i) tree of
        None \<Rightarrow> None
      | Some (tree', _) \<Rightarrow> removeReplicas hashFunc server is tree')"

definition removeServerReplicas :: "(string \<Rightarrow> int) \<Rightarrow> string \<Rightarrow> hash_ring \<Rightarrow> hash_ring option" where
  "removeServerReplicas hashFunc server ring =
     (case removeReplicas hashFunc server [0..<hr_replicaPoints ring] (hr_rbtree ring) of
        None \<Rightarrow> None
      | Some tree \<Rightarrow> Some (ring\<lparr>hr_servers := ddel server (hr_servers ring), hr_rbtree := tree\<rparr>))"

text \<open>\<open>names.sort().join(';')\<close>, hashed.\<close>

fun join :: "string \<Rightarrow> string list \<Rightarrow> string" where
  "join sep [] = []"
| "join sep [x] = x"
| "join sep (x # xs) = x @ sep @ join sep xs"

definition ring_computeChecksum :: "(string \<Rightarrow> int) \<Rightarrow> hash_ring \<Rightarrow> hash_ring" where
  "ring_computeChecksum hashFunc ring =
     (let serverNameStr = join '';'' (sort (dkeys (hr_servers ring)));
          oldChecksum = hr_checksum ring;
          checksum = hashFunc serverNameStr in
      ring_emit (ChecksumComputed checksum oldChecksum) (ring\<lparr>hr_checksum := Some checksum\<rparr>))"

definition addServer :: "(string \<Rightarrow> int) \<Rightarrow> string \<Rightarrow> hash_ring \<Rightarrow> hash_ring option" where
  "addServer hashFunc name ring =
     (if hasServer name ring then Some ring
      else (case addServerReplicas hashFunc name ring of
              None \<Rightarrow> None
            | Some ring' \<Rightarrow> Some (ring_emit (Added name) (ring_computeChecksum hashFunc ring'))))"

definition removeServer :: "(string \<Rightarrow> int) \<Rightarrow> string \<Rightarrow> hash_ring \<Rightarrow> hash_ring option" where
  "removeServer hashFunc name ring =
     (if \<not> hasServer name ring then Some ring
      else (case removeServerReplicas hashFunc name ring of
              None \<Rightarrow> None
            | Some ring' \<Rightarrow> Some (ring_emit (Removed name) (ring_computeChecksum hashFunc ring'))))"

text \<open>The loops of \<open>addRemoveServers\<close>; the flag says whether a server was added (removed).\<close>

fun addServers :: "(string \<Rightarrow> int) \<Rightarrow> string list \<Rightarrow> hash_ring \<Rightarrow> (hash_ring \<times> bool) option" where
  "addServers hashFunc [] ring = Some (ring, False)"
| "addServers hashFunc (server # rest) ring =
     (if hasServer server ring then addServers hashFunc rest ring
      else (case addServerReplicas hashFunc server ring of
              None \<Rightarrow> None
            | Some ring' \<Rightarrow>
                (case addServers hashFunc rest ring' of
                   None \<Rightarrow> None
                 | Some (ring'', _) \<Rightarrow> Some (ring'', True))))"

fun removeServers :: "(string \<Rightarrow> int) \<Rightarrow> string list \<Rightarrow> hash_ring \<Rightarrow> (hash_ring \<times> bool) option" where
  "removeServers hashFunc [] ring = Some (ring, False)"
| "removeServers hashFunc (server # rest) ring =
     (if \<not> hasServer server ring then removeServers hashFunc rest ring
      else (case removeServerReplicas hashFunc server ring of
              None \<Rightarrow> None
            | Some ring' \<Rightarrow>
                (case removeServers hashFunc rest ring' of
                   None \<Rightarrow> None
                 | Some (ring'', _) \<Rightarrow> Some (ring'', True))))"

definition addRemoveServers :: "(string \<Rightarrow> int) \<Rightarrow> string list \<Rightarrow> string list \<Rightarrow> hash_ring \<Rightarrow>
    (hash_ring \<times> bool) option" where
  "addRemoveServers hashFunc serversToAdd serversToRemove ring =
     (case addServers hashFunc serversToAdd ring of
        None \<Rightarrow> None
      | Some (ring1, addedServers) \<Rightarrow>
          (case removeServers hashFunc serversToRemove ring1 of
             None \<Rightarrow> None
           | Some (ring2, removedServers) \<Rightarrow>
               (let ringChanged = addedServers \<or> removedServers in
                Some (if ringChanged
                      then ring_emit (RingChanged serversToAdd serversToRemove)
                             (ring_computeChecksum hashFunc ring2)
                      else ring2, ringChanged))))"

definition getServerCount :: "hash_ring \<Rightarrow> nat" where
  "getServerCount ring = length (dkeys (hr_servers ring))"

section \<open>Lookup\<close>

definition ring_lookup :: "(string \<Rightarrow> int) \<Rightarrow> string \<Rightarrow> hash_ring \<Rightarrow> string option option" where
  "ring_lookup hashFunc str ring =
     (case upperBound comparator (RKey (hashFunc str) []) (hr_rbtree ring) of
        None \<Rightarrow> None
      | Some iter \<Rightarrow>
          (case node_value (it_cursor iter) of
             Some res \<Rightarrow> Some (Some res)
           | None \<Rightarrow> Some (node_value (rb_min (hr_rbtree ring)))))"

text \<open>
  The loop of \<open>lookupN\<close>, body first: \<open>resultSet\<close> is an object, keys are compared by identity, which
  in a tree without two equal keys is equality.
\<close>

partial_function (option) ln_loop :: "(ring_key, string) rbtree \<Rightarrow> int \<Rightarrow> ring_key option \<Rightarrow>
    (ring_key, string) rb_iter \<Rightarrow> string list \<Rightarrow> bool dict \<Rightarrow> string list option" where
  "ln_loop tree n firstVal iter resultArray resultSet =
     (let (iter1, resultArray1, resultSet1) =
        (case node_value (it_cursor iter) of
           None \<Rightarrow> (new_iter tree, resultArray, resultSet)
         | Some res \<Rightarrow>
             if dget resultSet res = Some True then (iter, resultArray, resultSet)
             else (iter, resultArray @ [res], dset res True resultSet));
        iter2 = iter_next iter1
      in if int (length resultArray1) < n \<and> node_key (it_cursor iter2) \<noteq> firstVal
         then ln_loop tree n firstVal iter2 resultArray1 resultSet1
         else Some resultArray1)"

declare ln_loop.simps [code]

definition ring_lookupN :: "(string \<Rightarrow> int) \<Rightarrow> string \<Rightarrow> int \<Rightarrow> hash_ring \<Rightarrow> string list option" where
  "ring_lookupN hashFunc str n ring =
     (let serverCount = int (getServerCount ring);
          n' = (if n > serverCount then serverCount else n) in
      (case upperBound comparator (RKey (hashFunc str) []) (hr_rbtree ring) of
         None \<Rightarrow> None
       | Some iter \<Rightarrow>
           ln_loop (hr_rbtree ring) n' (node_key (it_cursor iter)) iter [] []))"

end
