(* ===== verification/Ring_Spec.thy ===== *)
theory Ring_Spec
  imports HashRing
begin

text \<open>
  What the hash ring promises. Abstractly a ring is the finite set of its points; the owner of a hash
  is the address of the least point at or after it, or of the least point of all. The tree of a ring
  holds exactly the points of its servers, lookups return the owner, and therefore adding a server
  takes keys over only for itself and removing one gives away only its own.
\<close>

section \<open>The abstract ring\<close>

definition points :: "(string \<Rightarrow> int) \<Rightarrow> nat \<Rightarrow> string set \<Rightarrow> ring_key set" where
  "points hashFunc replicas servers =
     (\<Union>server \<in> servers. newReplicaPoint hashFunc server ` set [0..<replicas])"

definition succ_point :: "ring_key set \<Rightarrow> int \<Rightarrow> ring_key" where
  "succ_point P x =
     (let later = {p \<in> P. RKey x [] \<le> p} in if later = {} then Min P else Min later)"

definition owner :: "ring_key set \<Rightarrow> int \<Rightarrow> string option" where
  "owner P x = (if P = {} then None else Some (rk_address (succ_point P x)))"

abbreviation ring_servers :: "hash_ring \<Rightarrow> string set" where
  "ring_servers ring \<equiv> fst ` set (hr_servers ring)"

abbreviation ring_points :: "(string \<Rightarrow> int) \<Rightarrow> hash_ring \<Rightarrow> ring_key set" where
  "ring_points hashFunc ring \<equiv> points hashFunc (hr_replicaPoints ring) (ring_servers ring)"

definition tree_of :: "(ring_key, string) rbtree \<Rightarrow> ring_key set \<Rightarrow> bool" where
  "tree_of tree P \<longleftrightarrow>
     rb_ok comparator tree \<and> set (entries tree) = (\<lambda>p. (p, rk_address p)) ` P"

definition ring_ok :: "(string \<Rightarrow> int) \<Rightarrow> hash_ring \<Rightarrow> bool" where
  "ring_ok hashFunc ring \<longleftrightarrow>
     distinct (dkeys (hr_servers ring)) \<and> (\<forall>x \<in> set (hr_servers ring). snd x) \<and>
     tree_of (hr_rbtree ring) (ring_points hashFunc ring)"

lemma points_simps [simp]:
  "points h n {} = {}"
  "points h n (insert s S) = newReplicaPoint h s ` set [0..<n] \<union> points h n S"
  by (auto simp: points_def)

lemma finite_points [simp]: "finite S \<Longrightarrow> finite (points h n S)"
  by (simp add: points_def)

lemma points_address: "p \<in> points h n S \<Longrightarrow> rk_address p \<in> S"
  by (auto simp: points_def newReplicaPoint_def)

lemma points_diff: "points h n (S - {s}) = points h n S - newReplicaPoint h s ` set [0..<n]"
  by (auto simp: points_def newReplicaPoint_def)

lemma points_empty_iff: "0 < n \<Longrightarrow> points h n S = {} \<longleftrightarrow> S = {}"
  by (force simp: points_def)

section \<open>The tree holds the points\<close>

lemma tree_of_insert:
  assumes "tree_of tree P" "a = rk_address p"
  shows "\<exists>tree' ret. rb_insert comparator p a tree = Some (tree', ret) \<and> tree_of tree' (insert p P)"
proof -
  obtain tree' ret where ins: "rb_insert comparator p a tree = Some (tree', ret)"
    "rb_ok comparator tree'" "ret \<longleftrightarrow> p \<notin> fst ` set (entries tree)"
    "set (entries tree') = (if ret then insert (p, a) (set (entries tree)) else set (entries tree))"
    using ring_cmp.rb_insert_ok [of tree p a] assms(1) by (auto simp: tree_of_def)
  then show ?thesis using assms by (auto simp: tree_of_def image_iff split: if_splits)
qed

lemma tree_of_remove:
  assumes "tree_of tree P"
  shows "\<exists>tree' ret. rb_remove comparator p tree = Some (tree', ret) \<and> tree_of tree' (P - {p})"
proof -
  obtain tree' ret where rem: "rb_remove comparator p tree = Some (tree', ret)"
    "rb_ok comparator tree'" "entries tree' = filter (\<lambda>x. fst x \<noteq> p) (entries tree)"
    using ring_cmp.rb_remove_ok [of tree p] assms by (auto simp: tree_of_def)
  then show ?thesis using assms by (auto simp: tree_of_def)
qed

lemma insertReplicas_ok:
  assumes "tree_of tree P"
  shows "\<exists>tree'. insertReplicas h s is tree = Some tree' \<and>
    tree_of tree' (P \<union> newReplicaPoint h s ` set is)"
  using assms
proof (induction "is" arbitrary: tree P)
  case (Cons i "is")
  obtain tree1 ret where "rb_insert comparator (newReplicaPoint h s i) s tree = Some (tree1, ret)"
    "tree_of tree1 (insert (newReplicaPoint h s i) P)"
    using tree_of_insert [OF Cons.prems, of s "newReplicaPoint h s i"]
    by (auto simp: newReplicaPoint_def)
  with Cons.IH show ?case by fastforce
qed simp

lemma removeReplicas_ok:
  assumes "tree_of tree P"
  shows "\<exists>tree'. removeReplicas h s is tree = Some tree' \<and>
    tree_of tree' (P - newReplicaPoint h s ` set is)"
  using assms
proof (induction "is" arbitrary: tree P)
  case (Cons i "is")
  obtain tree1 ret where "rb_remove comparator (newReplicaPoint h s i) tree = Some (tree1, ret)"
    "tree_of tree1 (P - {newReplicaPoint h s i})"
    using tree_of_remove [OF Cons.prems] by blast
  moreover have "P - newReplicaPoint h s ` set (i # is) =
      P - {newReplicaPoint h s i} - newReplicaPoint h s ` set is" by auto
  ultimately show ?case using Cons.IH by fastforce
qed simp

section \<open>Every operation keeps the ring well-formed\<close>

lemma ring_ok_new [preserves]: "ring_ok h (new_ring n)"
  by (simp add: ring_ok_def tree_of_def new_ring_def new_rbtree_def rb_ok_def key_sorted_def)

lemma ring_ok_emit [simp]: "ring_ok h (ring_emit e ring) = ring_ok h ring"
  by (simp add: ring_ok_def ring_emit_def)

lemma ring_ok_checksum [simp]: "ring_ok h (ring_computeChecksum h' ring) = ring_ok h ring"
  by (simp add: ring_ok_def ring_computeChecksum_def ring_emit_def Let_def)

lemma ring_frame [frame, simp]:
  "hr_servers (ring_emit e ring) = hr_servers ring"
  "hr_replicaPoints (ring_emit e ring) = hr_replicaPoints ring"
  "hr_rbtree (ring_emit e ring) = hr_rbtree ring"
  "hr_checksum (ring_emit e ring) = hr_checksum ring"
  "hr_servers (ring_computeChecksum h ring) = hr_servers ring"
  "hr_replicaPoints (ring_computeChecksum h ring) = hr_replicaPoints ring"
  "hr_rbtree (ring_computeChecksum h ring) = hr_rbtree ring"
  "hr_checksum (ring_computeChecksum h ring) = Some (h (join '';'' (sort (dkeys (hr_servers ring)))))"
  by (simp_all add: ring_emit_def ring_computeChecksum_def Let_def)

lemma hasServer_iff: "ring_ok h ring \<Longrightarrow> hasServer s ring \<longleftrightarrow> s \<in> ring_servers ring"
  by (force simp: hasServer_def ring_ok_def dest: map_of_SomeD)

lemma addServerReplicas_ok:
  assumes "ring_ok h ring"
  shows "\<exists>ring'. addServerReplicas h s ring = Some ring' \<and> ring_ok h ring' \<and>
    hr_replicaPoints ring' = hr_replicaPoints ring \<and>
    ring_servers ring' = insert s (ring_servers ring)"
proof -
  obtain tree' where t: "insertReplicas h s [0..<hr_replicaPoints ring] (hr_rbtree ring) = Some tree'"
    "tree_of tree' (ring_points h ring \<union> newReplicaPoint h s ` set [0..<hr_replicaPoints ring])"
    using insertReplicas_ok assms unfolding ring_ok_def by blast
  moreover have "\<forall>x \<in> set (dset s True (hr_servers ring)). snd x"
    using assms snd_update [of s True "hr_servers ring"] by (auto simp: ring_ok_def)
  moreover have "distinct (dkeys (dset s True (hr_servers ring)))"
    using assms by (intro dict.ok_put) (simp add: ring_ok_def)
  ultimately show ?thesis
    by (simp add: addServerReplicas_def ring_ok_def Un_commute)
qed

lemma removeServerReplicas_ok:
  assumes "ring_ok h ring"
  shows "\<exists>ring'. removeServerReplicas h s ring = Some ring' \<and> ring_ok h ring' \<and>
    hr_replicaPoints ring' = hr_replicaPoints ring \<and>
    ring_servers ring' = ring_servers ring - {s}"
proof -
  obtain tree' where t: "removeReplicas h s [0..<hr_replicaPoints ring] (hr_rbtree ring) = Some tree'"
    "tree_of tree' (ring_points h ring - newReplicaPoint h s ` set [0..<hr_replicaPoints ring])"
    using removeReplicas_ok assms unfolding ring_ok_def by blast
  moreover have "\<forall>x \<in> set (ddel s (hr_servers ring)). snd x"
    using assms snd_delete [of s "hr_servers ring"] by (auto simp: ring_ok_def)
  moreover have "distinct (dkeys (ddel s (hr_servers ring)))"
    using assms by (intro dict.ok_del) (simp add: ring_ok_def)
  ultimately show ?thesis
    by (simp add: removeServerReplicas_def ring_ok_def points_diff)
qed

lemma addServer_ok:
  assumes "ring_ok h ring"
  shows "\<exists>ring'. addServer h s ring = Some ring' \<and> ring_ok h ring' \<and>
    hr_replicaPoints ring' = hr_replicaPoints ring \<and>
    ring_servers ring' = insert s (ring_servers ring)"
  using addServerReplicas_ok [OF assms, of s] hasServer_iff [OF assms, of s] assms
  by (auto simp: addServer_def insert_absorb)

lemma removeServer_ok:
  assumes "ring_ok h ring"
  shows "\<exists>ring'. removeServer h s ring = Some ring' \<and> ring_ok h ring' \<and>
    hr_replicaPoints ring' = hr_replicaPoints ring \<and>
    ring_servers ring' = ring_servers ring - {s}"
  using removeServerReplicas_ok [OF assms, of s] hasServer_iff [OF assms, of s] assms
  by (auto simp: removeServer_def)

lemma addServers_ok:
  assumes "ring_ok h ring"
  shows "\<exists>ring' b. addServers h ss ring = Some (ring', b) \<and> ring_ok h ring' \<and>
    hr_replicaPoints ring' = hr_replicaPoints ring \<and>
    ring_servers ring' = ring_servers ring \<union> set ss \<and> (b \<longleftrightarrow> \<not> set ss \<subseteq> ring_servers ring)"
  using assms
proof (induction ss arbitrary: ring)
  case (Cons s ss)
  show ?case
  proof (cases "hasServer s ring")
    case True
    then have "s \<in> ring_servers ring" using hasServer_iff [OF Cons.prems, of s] by simp
    then have "ring_servers ring \<union> set (s # ss) = ring_servers ring \<union> set ss"
      "set (s # ss) \<subseteq> ring_servers ring \<longleftrightarrow> set ss \<subseteq> ring_servers ring" by simp_all blast
    then show ?thesis
      using Cons.IH [OF Cons.prems] True by simp
  next
    case False
    obtain ring1 where r1: "addServerReplicas h s ring = Some ring1" "ring_ok h ring1"
      "hr_replicaPoints ring1 = hr_replicaPoints ring" "ring_servers ring1 = insert s (ring_servers ring)"
      using addServerReplicas_ok [OF Cons.prems] by blast
    then show ?thesis
      using Cons.IH [OF r1(2)] False hasServer_iff [OF Cons.prems, of s] by (auto)
  qed
qed auto

lemma removeServers_ok:
  assumes "ring_ok h ring"
  shows "\<exists>ring' b. removeServers h ss ring = Some (ring', b) \<and> ring_ok h ring' \<and>
    hr_replicaPoints ring' = hr_replicaPoints ring \<and>
    ring_servers ring' = ring_servers ring - set ss \<and> (b \<longleftrightarrow> set ss \<inter> ring_servers ring \<noteq> {})"
  using assms
proof (induction ss arbitrary: ring)
  case (Cons s ss)
  show ?case
  proof (cases "hasServer s ring")
    case False
    then show ?thesis
      using Cons.IH [OF Cons.prems] hasServer_iff [OF Cons.prems, of s]
      by (auto)
  next
    case True
    obtain ring1 where r1: "removeServerReplicas h s ring = Some ring1" "ring_ok h ring1"
      "hr_replicaPoints ring1 = hr_replicaPoints ring" "ring_servers ring1 = ring_servers ring - {s}"
      using removeServerReplicas_ok [OF Cons.prems] by blast
    have "set (s # ss) \<inter> ring_servers ring \<noteq> {}"
      "ring_servers ring - {s} - set ss = ring_servers ring - set (s # ss)"
      using True hasServer_iff [OF Cons.prems, of s] by auto
    then show ?thesis
      using Cons.IH [OF r1(2)] True r1 by auto
  qed
qed auto


lemma addRemoveServers_ok:
  assumes "ring_ok h ring"
  shows "\<exists>ring' b. addRemoveServers h adds removes ring = Some (ring', b) \<and> ring_ok h ring' \<and>
    hr_replicaPoints ring' = hr_replicaPoints ring \<and>
    ring_servers ring' = ring_servers ring \<union> set adds - set removes \<and>
    (b \<longleftrightarrow> \<not> set adds \<subseteq> ring_servers ring \<or> set removes \<inter> (ring_servers ring \<union> set adds) \<noteq> {})"
proof -
  obtain ring1 b1 where r1: "addServers h adds ring = Some (ring1, b1)" "ring_ok h ring1"
    "hr_replicaPoints ring1 = hr_replicaPoints ring" "ring_servers ring1 = ring_servers ring \<union> set adds"
    "b1 \<longleftrightarrow> \<not> set adds \<subseteq> ring_servers ring"
    using addServers_ok [OF assms] by blast
  obtain ring2 b2 where r2: "removeServers h removes ring1 = Some (ring2, b2)" "ring_ok h ring2"
    "hr_replicaPoints ring2 = hr_replicaPoints ring1" "ring_servers ring2 = ring_servers ring1 - set removes"
    "b2 \<longleftrightarrow> set removes \<inter> ring_servers ring1 \<noteq> {}"
    using removeServers_ok [OF r1(2)] by blast
  show ?thesis
    using r1 r2 by (simp add: addRemoveServers_def Let_def)
qed

section \<open>Lookup returns the owner\<close>

lemma tree_of_sorted:
  assumes "tree_of tree P"
  shows "sorted_wrt (<) (map fst (entries tree))" "fst ` set (entries tree) = P"
    "\<forall>x \<in> set (entries tree). snd x = rk_address (fst x)" "finite P"
proof -
  show "sorted_wrt (<) (map fst (entries tree))" "\<forall>x \<in> set (entries tree). snd x = rk_address (fst x)"
    using assms by (auto simp: tree_of_def rb_ok_def key_sorted_def sorted_wrt_map comparator_less)
  show P: "fst ` set (entries tree) = P"
    using assms by (simp add: tree_of_def image_image)
  show "finite P" unfolding P [symmetric] by simp
qed

lemma sorted_dropWhile_set:
  fixes xs :: "('a :: linorder \<times> 'b) list"
  assumes "sorted_wrt (<) (map fst xs)"
  shows "set (dropWhile (\<lambda>x. fst x < k) xs) = {x \<in> set xs. k \<le> fst x}"
  using assms
proof (induction xs)
  case (Cons x xs)
  show ?case
  proof (cases "fst x < k")
    case True
    then show ?thesis using Cons by auto
  next
    case False
    then have "\<forall>y \<in> set xs. k \<le> fst y" using Cons.prems by force
    then show ?thesis using False by auto
  qed
qed simp

lemma sorted_hd_Min:
  assumes "sorted_wrt (<) (map fst (x # xs))"
  shows "fst x = Min (fst ` set (x # xs) :: 'a :: linorder set)"
  by (rule sym, rule Min_eqI) (use assms in auto)

lemma iter_rest_value:
  "node_value (it_cursor iter) = (case iter_rest iter of [] \<Rightarrow> None | x # _ \<Rightarrow> Some (snd x))"
  "node_key (it_cursor iter) = (case iter_rest iter of [] \<Rightarrow> None | x # _ \<Rightarrow> Some (fst x))"
  by (cases "it_cursor iter"; simp add: iter_rest_def)+

lemma rb_min_value:
  fixes tree :: "(ring_key, string) rbtree"
  shows "node_value (rb_min tree) = (case entries tree of [] \<Rightarrow> None | x # _ \<Rightarrow> Some (snd x))"
proof -
  have "node_value (min_node t) = (case inorder t of [] \<Rightarrow> None | x # _ \<Rightarrow> Some (snd x))"
    for t :: "(ring_key, string) ring_node"
    by (induction t rule: min_node.induct) (auto split: list.splits)
  then show ?thesis by (simp add: rb_min_def)
qed

lemma lookup_owner:
  assumes "ring_ok h ring"
  shows "ring_lookup h str ring = Some (owner (ring_points h ring) (h str))"
proof -
  let ?P = "ring_points h ring" and ?k = "RKey (h str) []" and ?t = "hr_rbtree ring"
  let ?xs = "entries ?t"
  let ?ys = "dropWhile (\<lambda>x. fst x < ?k) ?xs"
  have tree: "tree_of ?t ?P" and ok: "rb_ok comparator ?t"
    using assms by (auto simp: ring_ok_def tree_of_def)
  note P = tree_of_sorted [OF tree]
  have rest: "iter_rest (lowerBound comparator ?k ?t) = ?ys"
    using ring_cmp.lowerBound_ok [OF ok] by (simp add: comparator_less)
  have up: "upperBound comparator ?k ?t = Some (lowerBound comparator ?k ?t)"
    by (rule ring_cmp.upperBound_eq [OF ok])
  have later: "{p \<in> ?P. ?k \<le> p} = fst ` set ?ys"
    using sorted_dropWhile_set [of ?xs ?k] P by auto
  have sub: "set ?ys \<subseteq> set ?xs" by (auto dest: set_dropWhileD)
  show ?thesis
  proof (cases ?ys)
    case (Cons y ys)
    have "sorted_wrt (<) (map fst ?ys)"
      using P(1) unfolding sorted_wrt_map by (rule sorted_wrt_dropWhile)
    then have "fst y = Min (fst ` set (y # ys))" unfolding Cons by (rule sorted_hd_Min)
    then have "fst y = Min (fst ` set ?ys)" unfolding Cons .
    moreover have "?P \<noteq> {}" "snd y = rk_address (fst y)" using P(2,3) sub Cons by auto
    ultimately show ?thesis
      using rest up Cons later
      by (simp add: ring_lookup_def iter_rest_value owner_def succ_point_def Let_def)
  next
    case Nil
    show ?thesis
    proof (cases ?xs)
      case (Cons x xs)
      have "fst x = Min (fst ` set (x # xs))" using P(1) unfolding Cons by (rule sorted_hd_Min)
      then have "fst x = Min ?P" using P(2) unfolding Cons by (simp only:)
      moreover have "?P \<noteq> {}" "snd x = rk_address (fst x)" using P(2,3) Cons by auto
      ultimately show ?thesis
        using rest up Nil Cons later
        by (simp add: ring_lookup_def iter_rest_value rb_min_value owner_def succ_point_def Let_def)
    next
      case xs: Nil
      then have "?P = {}" using P by auto
      then show ?thesis
        using rest up Nil xs
        by (simp add: ring_lookup_def iter_rest_value rb_min_value owner_def)
    qed
  qed
qed

end
