(* ===== verification/Ring_LookupN.thy ===== *)
theory Ring_LookupN
  imports Ring_Spec
begin

text \<open>
  The preference list: \<open>lookupN\<close> walks the ring once around from the key's position and collects the
  first servers it has not seen, as many as asked for and there are. The walk is compared with
  \<open>take_uniq\<close> on the list of the entries' servers, rotated to the position.
\<close>

section \<open>The walk\<close>

fun take_uniq :: "int \<Rightarrow> string list \<Rightarrow> string list \<Rightarrow> string list" where
  "take_uniq n arr [] = arr"
| "take_uniq n arr (v # vs) =
     (let arr' = (if v \<in> set arr then arr else arr @ [v]) in
      if int (length arr') < n then take_uniq n arr' vs else arr')"

abbreviation seen :: "bool dict \<Rightarrow> string list \<Rightarrow> bool" where
  "seen resultSet arr \<equiv> (\<forall>v. dget resultSet v = Some True \<longleftrightarrow> v \<in> set arr)"

lemma seen_dset: "seen resultSet arr \<Longrightarrow> seen (dset v True resultSet) (arr @ [v])"
  by (auto simp: dict.get_put)

text \<open>One pass at an entry.\<close>

lemma ln_loop_entry:
  assumes "iter_ok iter" "iter_rest iter = x # xs" "seen resultSet arr"
  defines "arr' \<equiv> (if snd x \<in> set arr then arr else arr @ [snd x])"
  shows "\<exists>resultSet'. seen resultSet' arr' \<and>
    ln_loop tree n firstVal iter arr resultSet =
      (if int (length arr') < n \<and> node_key (it_cursor (iter_next iter)) \<noteq> firstVal
       then ln_loop tree n firstVal (iter_next iter) arr' resultSet' else Some arr')"
proof -
  have val: "node_value (it_cursor iter) = Some (snd x)" using assms(2) by (simp add: iter_rest_value)
  define rs where "rs = (if snd x \<in> set arr then resultSet else dset (snd x) True resultSet)"
  have "seen rs arr'" using seen_dset [OF assms(3)] assms(3) by (simp add: rs_def arr'_def)
  moreover have "dget resultSet (snd x) = Some True \<longleftrightarrow> snd x \<in> set arr" using assms(3) by blast
  ultimately show ?thesis
    by (subst ln_loop.simps) (auto simp: val arr'_def rs_def Let_def intro!: exI [of _ rs])
qed

lemma iter_step:
  assumes "iter_ok iter" "iter_rest iter = x # xs"
  shows "iter_ok (iter_next iter)" "iter_rest (iter_next iter) = xs"
    "it_tree (iter_next iter) = it_tree iter"
proof -
  have "it_cursor iter \<noteq> Null" using assms(2) by (cases "it_cursor iter") (auto simp: iter_rest_def)
  then show "iter_ok (iter_next iter)" "iter_rest (iter_next iter) = xs"
    "it_tree (iter_next iter) = it_tree iter"
    using iter_next_ok [OF assms(1)] assms(2) by auto
qed

text \<open>Up to the position the walk started at.\<close>

lemma ln_loop_until:
  assumes "iter_ok iter" "iter_rest iter = xs @ ys" "xs \<noteq> []" "seen resultSet arr"
    and "(case ys of [] \<Rightarrow> None | y # _ \<Rightarrow> Some (fst y)) = firstVal"
    and "\<forall>x \<in> set (tl xs). Some (fst x) \<noteq> firstVal"
  shows "ln_loop tree n firstVal iter arr resultSet = Some (take_uniq n arr (map snd xs))"
  using assms
proof (induction xs arbitrary: iter arr resultSet)
  case (Cons x xs)
  let ?arr = "if snd x \<in> set arr then arr else arr @ [snd x]"
  have rest: "iter_rest iter = x # xs @ ys" using Cons.prems by simp
  obtain rs where rs: "seen rs ?arr" "ln_loop tree n firstVal iter arr resultSet =
      (if int (length ?arr) < n \<and> node_key (it_cursor (iter_next iter)) \<noteq> firstVal
       then ln_loop tree n firstVal (iter_next iter) ?arr rs else Some ?arr)"
    using ln_loop_entry [OF Cons.prems(1) rest Cons.prems(4)] by blast
  note next' = iter_step [OF Cons.prems(1) rest]
  show ?case
  proof (cases xs)
    case Nil
    then have "node_key (it_cursor (iter_next iter)) = firstVal"
      using next'(2) Cons.prems(5) by (simp add: iter_rest_value)
    then show ?thesis using rs(2) Nil by (simp add: Let_def)
  next
    case xs: (Cons z zs)
    have "node_key (it_cursor (iter_next iter)) \<noteq> firstVal"
      using next'(2) Cons.prems(6) by (simp add: iter_rest_value xs)
    moreover have "ln_loop tree n firstVal (iter_next iter) ?arr rs =
        Some (take_uniq n ?arr (map snd xs))"
      using Cons.prems(5,6) xs by (intro Cons.IH next' rs(1)) auto
    ultimately show ?thesis using rs(2) by (simp add: Let_def)
  qed
qed simp

text \<open>To the end of the tree and around.\<close>

lemma ln_loop_to_end:
  fixes n :: int
  assumes "iter_ok iter" "iter_rest iter = xs" "xs \<noteq> []" "seen resultSet arr"
    and "firstVal = Some k" "\<forall>x \<in> set (tl xs). fst x \<noteq> k"
  defines "arr' \<equiv> take_uniq n arr (map snd xs)"
  shows "if int (length arr') < n
    then \<exists>iter' resultSet'. iter_ok iter' \<and> iter_rest iter' = [] \<and> it_tree iter' = it_tree iter \<and>
      seen resultSet' arr' \<and>
      ln_loop tree n firstVal iter arr resultSet = ln_loop tree n firstVal iter' arr' resultSet'
    else ln_loop tree n firstVal iter arr resultSet = Some arr'"
  using assms(1-4,6) unfolding arr'_def
proof (induction xs arbitrary: iter arr resultSet)
  case (Cons x xs)
  let ?arr = "if snd x \<in> set arr then arr else arr @ [snd x]"
  obtain rs where rs: "seen rs ?arr" "ln_loop tree n firstVal iter arr resultSet =
      (if int (length ?arr) < n \<and> node_key (it_cursor (iter_next iter)) \<noteq> firstVal
       then ln_loop tree n firstVal (iter_next iter) ?arr rs else Some ?arr)"
    using ln_loop_entry [OF Cons.prems(1,2,4)] by blast
  note next' = iter_step [OF Cons.prems(1,2)]
  have key: "node_key (it_cursor (iter_next iter)) \<noteq> firstVal"
    using next'(2) Cons.prems(5) assms(5) by (auto simp: iter_rest_value split: list.splits)
  show ?case
  proof (cases "xs = []")
    case True
    have eq: "take_uniq n arr (map snd (x # xs)) = ?arr" using True by (simp add: Let_def)
    show ?thesis
    proof (cases "int (length ?arr) < n")
      case True
      then have "ln_loop tree n firstVal iter arr resultSet = ln_loop tree n firstVal (iter_next iter) ?arr rs"
        using rs(2) key by simp
      then show ?thesis
        unfolding eq using True next' rs(1) \<open>xs = []\<close> by (simp only: if_True) blast
    next
      case False
      then show ?thesis unfolding eq using rs(2) by simp
    qed
  next
    case False
    have "\<forall>x \<in> set (tl xs). fst x \<noteq> k" using Cons.prems(5) by (cases xs) auto
    note IH = Cons.IH [OF next'(1,2) False rs(1) this]
    show ?thesis
    proof (cases "int (length ?arr) < n")
      case True
      then have "ln_loop tree n firstVal iter arr resultSet = ln_loop tree n firstVal (iter_next iter) ?arr rs"
        "take_uniq n arr (map snd (x # xs)) = take_uniq n ?arr (map snd xs)"
        using rs(2) key by (simp_all add: Let_def)
      then show ?thesis using IH next'(3) by (simp only:)
    next
      case False
      then have "take_uniq n arr (map snd (x # xs)) = ?arr" by (simp add: Let_def)
      then show ?thesis using rs(2) False by simp
    qed
  qed
qed simp

lemma take_uniq_append:
  "xs \<noteq> [] \<Longrightarrow> take_uniq n arr (xs @ ys) =
    (let arr' = take_uniq n arr xs in if int (length arr') < n then take_uniq n arr' ys else arr')"
proof (induction xs arbitrary: arr)
  case (Cons x xs)
  then show ?case by (cases "xs = []") (auto simp: Let_def)
qed simp

text \<open>The end of the tree wraps around to the first entry.\<close>

lemma new_iter_next:
  assumes "rb_ok comparator tree" "entries tree \<noteq> []"
  shows "iter_ok (iter_next (new_iter tree))" "iter_rest (iter_next (new_iter tree)) = entries tree"
proof -
  have dist: "distinct (map fst (entries tree))"
    using assms(1) ring_cmp.key_sorted_distinct by (auto simp: rb_ok_def)
  have ne: "rb_root tree \<noteq> Null" using assms(2) by auto
  have pos: "linked (rb_root tree) (fst (minNode [] (rb_root tree))) (snd (minNode [] (rb_root tree)))"
    "pos_rest (minNode [] (rb_root tree)) = entries tree"
    using minNode_pos [OF _ ne dist, of "[]"] by auto
  show "iter_ok (iter_next (new_iter tree))" "iter_rest (iter_next (new_iter tree)) = entries tree"
    using pos dist ne
    by (simp_all add: iter_next_def new_iter_def set_pos_def iter_ok_def iter_rest_def)
qed

lemma ln_loop_wrap:
  assumes "rb_ok comparator tree" "entries tree = xs @ ys" "xs \<noteq> []"
    and "it_cursor iter = Null" "seen resultSet arr" "int (length arr) < n"
    and "(case ys of [] \<Rightarrow> None | y # _ \<Rightarrow> Some (fst y)) = firstVal"
  shows "ln_loop tree n firstVal iter arr resultSet = Some (take_uniq n arr (map snd xs))"
proof -
  have dist: "distinct (map fst (entries tree))"
    using assms(1) ring_cmp.key_sorted_distinct by (auto simp: rb_ok_def)
  have out: "\<forall>x \<in> set xs. Some (fst x) \<noteq> firstVal"
    using dist assms(2,7) by (force split: list.splits)
  have it: "iter_ok (iter_next (new_iter tree))" "iter_rest (iter_next (new_iter tree)) = xs @ ys"
    using new_iter_next [OF assms(1)] assms(2,3) by auto
  have "node_key (it_cursor (iter_next (new_iter tree))) \<noteq> firstVal"
    using it(2) out assms(3) by (cases xs) (auto simp: iter_rest_value)
  then have "ln_loop tree n firstVal iter arr resultSet =
      ln_loop tree n firstVal (iter_next (new_iter tree)) arr resultSet"
    using assms(4,6) by (subst ln_loop.simps) (simp add: Let_def)
  also have "\<dots> = Some (take_uniq n arr (map snd xs))"
    using out by (intro ln_loop_until [OF it assms(3,5,7)]) (cases xs; simp)
  finally show ?thesis .
qed

text \<open>With at least one server asked for, the walk goes once around.\<close>

lemma ln_loop_ok:
  assumes ok: "rb_ok comparator tree" and n: "0 < n" and ent: "entries tree = xs @ ys"
    and iter: "iter_ok iter" "iter_rest iter = ys"
  shows "ln_loop tree n (node_key (it_cursor iter)) iter [] [] =
    Some (take_uniq n [] (map snd (ys @ xs)))"
proof (cases "ys = []")
  case True
  then have cur: "it_cursor iter = Null" using iter(2) by (cases "it_cursor iter") (auto simp: iter_rest_def)
  show ?thesis
  proof (cases "xs = []")
    case True
    have "iter_next (new_iter tree) = new_iter tree"
      using ent True \<open>ys = []\<close> by (simp add: iter_next_def new_iter_def)
    then show ?thesis
      using cur True \<open>ys = []\<close> by (subst ln_loop.simps) (simp add: new_iter_def)
  next
    case False
    then show ?thesis
      using ln_loop_wrap [OF ok _ _ cur, of xs "[]" "[]" "[]" n] ent True n cur by simp
  qed
next
  case False
  then obtain y zs where ys: "ys = y # zs" by (cases ys) auto
  have first: "node_key (it_cursor iter) = Some (fst y)" using iter(2) ys by (simp add: iter_rest_value)
  have "distinct (map fst (entries tree))"
    using ok ring_cmp.key_sorted_distinct by (auto simp: rb_ok_def)
  then have "fst y \<notin> fst ` set zs" by (simp add: ent ys)
  then have zs: "\<forall>x \<in> set (tl ys). fst x \<noteq> fst y" unfolding ys list.sel by (metis imageI)
  let ?arr = "take_uniq n [] (map snd ys)"
  have seen: "seen [] []" by simp
  note walk = ln_loop_to_end [OF iter False seen first zs, of n tree]
  show ?thesis
  proof (cases "int (length ?arr) < n")
    case True
    then obtain iter' rs where it: "iter_rest iter' = []" "seen rs ?arr"
      "ln_loop tree n (node_key (it_cursor iter)) iter [] [] = ln_loop tree n (Some (fst y)) iter' ?arr rs"
      using walk first by auto
    have cur: "it_cursor iter' = Null" using it(1) by (cases "it_cursor iter'") (auto simp: iter_rest_def)
    show ?thesis
    proof (cases "xs = []")
      case xs: True
      have "entries tree \<noteq> []" using ent False by simp
      note wrap = new_iter_next [OF ok this]
      have "node_key (it_cursor (iter_next (new_iter tree))) = Some (fst y)"
        using wrap(2) ent xs ys by (simp add: iter_rest_value)
      then have "ln_loop tree n (Some (fst y)) iter' ?arr rs = Some ?arr"
        using cur by (subst ln_loop.simps) (simp add: Let_def)
      then show ?thesis using it(3) xs by simp
    next
      case xs: False
      have "ln_loop tree n (Some (fst y)) iter' ?arr rs = Some (take_uniq n ?arr (map snd xs))"
        by (rule ln_loop_wrap [OF ok ent xs cur it(2) True]) (simp add: ys)
      then show ?thesis
        using it(3) True False take_uniq_append [of "map snd ys" n "[]" "map snd xs"]
        by (simp add: Let_def)
    qed
  next
    case no: False
    then show ?thesis
      using walk first False take_uniq_append [of "map snd ys" n "[]" "map snd xs"]
      by (simp add: Let_def)
  qed
qed


section \<open>The preference list\<close>

fun add_uniq :: "string list \<Rightarrow> string list \<Rightarrow> string list" where
  "add_uniq arr [] = arr"
| "add_uniq arr (v # vs) = add_uniq (if v \<in> set arr then arr else arr @ [v]) vs"

text \<open>The points in the order the walk meets them, and the first distinct servers among them.\<close>

definition walk :: "ring_key set \<Rightarrow> int \<Rightarrow> ring_key list" where
  "walk P x =
     (let ps = sorted_list_of_set P in
      filter (\<lambda>p. RKey x [] \<le> p) ps @ filter (\<lambda>p. \<not> RKey x [] \<le> p) ps)"

definition preference :: "ring_key set \<Rightarrow> int \<Rightarrow> nat \<Rightarrow> string list" where
  "preference P x n = take n (add_uniq [] (map rk_address (walk P x)))"

lemma add_uniq_prefix: "\<exists>ys. add_uniq arr vs = arr @ ys"
proof (induction vs arbitrary: arr)
  case (Cons v vs)
  show ?case using Cons [of arr] Cons [of "arr @ [v]"] by auto
qed simp

lemma take_uniq_eq:
  "int (length arr) < n \<Longrightarrow> take_uniq n arr vs = take (nat n) (add_uniq arr vs)"
proof (induction vs arbitrary: arr)
  case (Cons v vs)
  obtain ys where ys: "add_uniq (arr @ [v]) vs = (arr @ [v]) @ ys" using add_uniq_prefix by blast
  show ?case
  proof (cases "v \<notin> set arr \<and> \<not> int (length (arr @ [v])) < n")
    case True
    then have "n = int (length arr) + 1" using Cons.prems by simp
    then have "nat n - length arr = 1" by (simp add: nat_add_distrib)
    then show ?thesis using True ys by (simp add: Let_def)
  next
    case False
    then show ?thesis
      using Cons.IH [of arr] Cons.IH [of "arr @ [v]"] Cons.prems by (auto simp: Let_def)
  qed
qed (simp add: nat_less_iff)

lemma set_add_uniq [simp]: "set (add_uniq arr vs) = set arr \<union> set vs"
  by (induction vs arbitrary: arr) auto

lemma distinct_add_uniq [simp]: "distinct (add_uniq arr vs) \<longleftrightarrow> distinct arr"
proof (induction vs arbitrary: arr)
  case (Cons v vs)
  then show ?case by simp
qed simp

lemma set_walk [simp]: "finite P \<Longrightarrow> set (walk P x) = P"
  by (auto simp: walk_def Let_def)

lemma rk_address_points: "0 < n \<Longrightarrow> rk_address ` points h n S = S"
  by (force simp: points_def newReplicaPoint_def)

text \<open>The first of them is the owner.\<close>

lemma preference_hd:
  assumes "finite P" "P \<noteq> {}" "0 < n"
  shows "\<exists>rest. preference P x n = the (owner P x) # rest"
proof -
  let ?ps = "sorted_list_of_set P"
  have first: "z = Min Q" if "sorted_list_of_set Q = z # zs" "finite Q" for z zs and Q :: "ring_key set"
    using that sorted_list_of_set.sorted_sorted_key_list_of_set [of Q] set_sorted_list_of_set [of Q]
    by (metis Min_eqI list.set_intros(1) set_ConsD sorted_simps(2) order_refl id_apply list.map_id)
  have split: "filter (\<lambda>p. RKey x [] \<le> p) ?ps = sorted_list_of_set {p \<in> P. RKey x [] \<le> p}"
    using assms(1) by (intro sorted_distinct_set_unique) (auto intro: sorted_wrt_filter)
  have "\<exists>zs. walk P x = succ_point P x # zs"
  proof (cases "{p \<in> P. RKey x [] \<le> p} = {}")
    case True
    obtain z zs where ps: "?ps = z # zs" using assms(1,2) by (cases ?ps) auto
    have "filter (\<lambda>p. RKey x [] \<le> p) ?ps = []" unfolding split True by simp
    moreover from this have "filter (\<lambda>p. \<not> RKey x [] \<le> p) ?ps = ?ps"
      by (simp add: filter_empty_conv filter_id_conv)
    moreover have "z = Min P" by (rule first [OF ps assms(1)])
    ultimately show ?thesis using True ps by (simp add: walk_def succ_point_def)
  next
    case False
    obtain z zs where ps: "sorted_list_of_set {p \<in> P. RKey x [] \<le> p} = z # zs"
      using assms(1) False by (cases "sorted_list_of_set {p \<in> P. RKey x [] \<le> p}") auto
    moreover have "z = Min {p \<in> P. RKey x [] \<le> p}" by (rule first [OF ps]) (use assms(1) in simp)
    ultimately have "walk P x = Min {p \<in> P. RKey x [] \<le> p} # zs @
        filter (\<lambda>p. \<not> RKey x [] \<le> p) ?ps"
      by (simp only: walk_def Let_def split append_Cons)
    moreover have "succ_point P x = Min {p \<in> P. RKey x [] \<le> p}"
      unfolding succ_point_def Let_def by (simp only: False if_False)
    ultimately show ?thesis by simp
  qed
  then obtain zs where "walk P x = succ_point P x # zs" by blast
  moreover obtain ys where "add_uniq [rk_address (succ_point P x)] (map rk_address zs) =
      [rk_address (succ_point P x)] @ ys"
    using add_uniq_prefix by blast
  ultimately show ?thesis using assms(2,3) by (cases n) (auto simp: preference_def owner_def)
qed

lemma sorted_split:
  fixes xs :: "('a :: linorder \<times> 'b) list"
  assumes "sorted_wrt (<) (map fst xs)"
  shows "filter (\<lambda>x. k \<le> fst x) xs = dropWhile (\<lambda>x. fst x < k) xs"
    "filter (\<lambda>x. \<not> k \<le> fst x) xs = takeWhile (\<lambda>x. fst x < k) xs"
proof -
  have "filter (\<lambda>x. k \<le> fst x) xs = dropWhile (\<lambda>x. fst x < k) xs \<and>
    filter (\<lambda>x. \<not> k \<le> fst x) xs = takeWhile (\<lambda>x. fst x < k) xs"
    using assms
  proof (induction xs)
    case (Cons x xs)
    show ?case
    proof (cases "fst x < k")
      case False
      then have "\<forall>y \<in> set xs. k \<le> fst y" using Cons.prems by force
      then show ?thesis using False by (simp add: filter_id_conv filter_empty_conv)
    qed (use Cons in auto)
  qed simp
  then show "filter (\<lambda>x. k \<le> fst x) xs = dropWhile (\<lambda>x. fst x < k) xs"
    "filter (\<lambda>x. \<not> k \<le> fst x) xs = takeWhile (\<lambda>x. fst x < k) xs" by simp_all
qed

lemma lookupN_preference:
  assumes ok: "ring_ok h ring" and n: "0 < n"
  shows "ring_lookupN h str n ring = Some (preference (ring_points h ring) (h str) (nat n))"
proof -
  let ?P = "ring_points h ring" and ?k = "RKey (h str) []" and ?t = "hr_rbtree ring"
  let ?E = "entries ?t"
  let ?xs = "takeWhile (\<lambda>x. fst x < ?k) ?E" and ?ys = "dropWhile (\<lambda>x. fst x < ?k) ?E"
  have tree: "tree_of ?t ?P" and rb: "rb_ok comparator ?t"
    using ok by (auto simp: ring_ok_def tree_of_def)
  note P = tree_of_sorted [OF tree]
  have low: "iter_ok (lowerBound comparator ?k ?t)" "iter_rest (lowerBound comparator ?k ?t) = ?ys"
    using ring_cmp.lowerBound_ok [OF rb] by (auto simp: comparator_less)
  have up: "upperBound comparator ?k ?t = Some (lowerBound comparator ?k ?t)"
    by (rule ring_cmp.upperBound_eq [OF rb])
  have E: "?E = ?xs @ ?ys" by simp
  have keys: "map fst ?E = sorted_list_of_set ?P"
    using P(1,2) by (metis list.set_map sorted_list_of_set.idem_if_sorted_distinct strict_sorted_iff)
  have "walk ?P (h str) = map fst (?ys @ ?xs)"
    unfolding walk_def Let_def keys [symmetric] filter_map comp_def sorted_split [OF P(1)] by simp
  moreover have "\<forall>z \<in> set (?ys @ ?xs). rk_address (fst z) = snd z"
    using P(3) sorted_split [OF P(1), of ?k] by (metis (no_types, lifting) Un_iff filter_is_subset set_append subsetD)
  ultimately have walk: "map rk_address (walk ?P (h str)) = map snd (?ys @ ?xs)"
    by simp
  let ?c = "getServerCount ring"
  let ?u = "add_uniq [] (map rk_address (walk ?P (h str)))"
  have "set ?u \<subseteq> ring_servers ring"
    using P(4) points_address by auto
  then have "card (set ?u) \<le> card (ring_servers ring)" by (intro card_mono) auto
  then have len: "length ?u \<le> ?c"
    using ok distinct_card [of ?u] distinct_card [of "dkeys (hr_servers ring)"]
    by (simp add: getServerCount_def ring_ok_def)
  show ?thesis
  proof (cases "?c = 0")
    case True
    then have "ring_points h ring = {}" by (simp add: getServerCount_def)
    then have "?E = []" using P(2) by simp
    moreover from this have "it_cursor (lowerBound comparator ?k ?t) = Null"
      using low(2) by (cases "it_cursor (lowerBound comparator ?k ?t)") (auto simp: iter_rest_def)
    ultimately show ?thesis
      using True n \<open>ring_points h ring = {}\<close> up
      by (simp add: ring_lookupN_def ln_loop.simps [of ?t] preference_def walk_def new_iter_def iter_next_def)
  next
    case False
    define m where "m = (if n > int ?c then int ?c else n)"
    have m: "0 < m" using False n by (auto simp: m_def)
    have "ring_lookupN h str n ring = Some (take_uniq m [] (map snd (?ys @ ?xs)))"
      using ln_loop_ok [OF rb m E low] up by (simp add: ring_lookupN_def Let_def m_def)
    also have "\<dots> = Some (take (nat m) ?u)"
      using m by (simp add: take_uniq_eq walk)
    also have "take (nat m) ?u = take (nat n) ?u" using len by (auto simp: m_def)
    finally show ?thesis by (simp add: preference_def)
  qed
qed

lemma preference_servers:
  assumes "finite S" "0 < replicas"
  shows "distinct (preference (points h replicas S) x n)"
    "set (preference (points h replicas S) x n) \<subseteq> S"
    "length (preference (points h replicas S) x n) = min n (card S)"
proof -
  let ?u = "add_uniq [] (map rk_address (walk (points h replicas S) x))"
  have u: "distinct ?u" "set ?u = S"
    using assms rk_address_points [of replicas h S] by simp_all
  then show "distinct (preference (points h replicas S) x n)"
    "set (preference (points h replicas S) x n) \<subseteq> S"
    by (auto simp: preference_def dest: in_set_takeD)
  show "length (preference (points h replicas S) x n) = min n (card S)"
    using distinct_card [OF u(1)] u(2) by (simp add: preference_def)
qed

end
