(* ===== verification/Ring_Properties.thy ===== *)
theory Ring_Properties
  imports Ring_LookupN
begin

text \<open>
  The properties of the hash ring and its tree: what the operations of the tree do, that the ring's
  operations are total and keep its tree in step with its servers, that lookups follow the abstract
  ring, and that membership changes move no key they need not move. The concrete ring of the
  witnesses has two servers with two points each under a small hash function.
\<close>

section \<open>Facts about the abstract ring\<close>

lemma succ_point_in:
  assumes "finite P" "P \<noteq> {}"
  shows "succ_point P x \<in> P"
proof (cases "{p \<in> P. RKey x [] \<le> p} = {}")
  case True
  then show ?thesis using assms by (simp add: succ_point_def)
next
  case False
  then have "Min {p \<in> P. RKey x [] \<le> p} \<in> {p \<in> P. RKey x [] \<le> p}"
    using assms(1) by (intro Min_in) auto
  then show ?thesis using False by (simp only: succ_point_def Let_def if_False mem_Collect_eq)
qed

text \<open>Dropping other points does not change the successor.\<close>

lemma succ_point_subset:
  assumes "finite P" "Q \<subseteq> P" "succ_point P x \<in> Q"
  shows "succ_point Q x = succ_point P x"
proof -
  let ?P = "{p \<in> P. RKey x [] \<le> p}" and ?Q = "{p \<in> Q. RKey x [] \<le> p}"
  have fin: "finite ?P" "finite ?Q" "finite Q" using assms(1,2) by (auto intro: finite_subset)
  show ?thesis
  proof (cases "?P = {}")
    case True
    then have "succ_point P x = Min P" "?Q = {}" using assms(2) by (auto simp: succ_point_def)
    moreover have "Min Q = Min P"
      using fin assms calculation(1) by (intro Min_eqI) (auto intro: Min_le)
    ultimately show ?thesis by (simp add: succ_point_def)
  next
    case False
    then have s: "succ_point P x = Min ?P" by (simp only: succ_point_def Let_def if_False)
    have "Min ?P \<in> ?P" using fin(1) False by (rule Min_in)
    then have mem: "Min ?P \<in> ?Q" using assms(3) unfolding s by simp
    have "Min ?Q = Min ?P"
      using fin mem assms(2) by (intro Min_eqI) (auto intro!: Min_le)
    moreover have "?Q \<noteq> {}" using mem by blast
    ultimately show ?thesis unfolding s by (simp only: succ_point_def Let_def if_False)
  qed
qed

lemma owner_in: "finite P \<Longrightarrow> owner P x = Some a \<Longrightarrow> a \<in> rk_address ` P"
  using succ_point_in [of P x] by (auto simp: owner_def split: if_splits)

lemma owner_change:
  fixes h :: "string \<Rightarrow> int" and n :: nat
  assumes fin: "finite S" "finite S'"
  defines "P \<equiv> points h n S" and "P' \<equiv> points h n S'"
  shows "owner P' x = owner P x \<or> (\<exists>a \<in> S' - S. owner P' x = Some a) \<or>
    (\<exists>a \<in> S - S'. owner P x = Some a)"
proof -
  have f: "finite P" "finite P'" using fin by (simp_all add: P_def P'_def)
  have only: "rk_address p \<in> S1 - S2" if "p \<in> points h n S1" "p \<notin> points h n S2" for p S1 S2
    using that by (auto simp: points_def newReplicaPoint_def)
  consider "P = {}" "P' = {}" | "P = {}" "P' \<noteq> {}" | "P \<noteq> {}" "P' = {}"
    | "P \<noteq> {}" "P' \<noteq> {}" by blast
  then show ?thesis
  proof cases
    case 2
    then have "rk_address (succ_point P' x) \<in> S' - S"
      using succ_point_in [OF f(2)] only unfolding P_def P'_def by blast
    then show ?thesis using 2 by (auto simp: owner_def)
  next
    case 3
    then have "rk_address (succ_point P x) \<in> S - S'"
      using succ_point_in [OF f(1)] only unfolding P_def P'_def by blast
    then show ?thesis using 3 by (auto simp: owner_def)
  next
    case 4
    note s = succ_point_in [OF f(1) 4(1), of x] and s' = succ_point_in [OF f(2) 4(2), of x]
    show ?thesis
    proof (cases "succ_point P x \<in> P'")
      case in': True
      show ?thesis
      proof (cases "succ_point P' x \<in> P")
        case True
        then have "succ_point (P \<inter> P') x = succ_point P x" "succ_point (P \<inter> P') x = succ_point P' x"
          using s s' in' f by (auto intro!: succ_point_subset)
        then show ?thesis by (simp add: owner_def 4)
      next
        case False
        then have "rk_address (succ_point P' x) \<in> S' - S"
          using only s' unfolding P_def P'_def by blast
        then show ?thesis using 4 by (auto simp: owner_def)
      qed
    next
      case False
      then have "rk_address (succ_point P x) \<in> S - S'"
        using only s unfolding P_def P'_def by blast
      then show ?thesis using 4 by (auto simp: owner_def)
    qed
  qed (simp add: owner_def)
qed

section \<open>Height of the tree\<close>

fun rb_height :: "('k, 'v) ring_node \<Rightarrow> nat" where
  "rb_height Null = 0"
| "rb_height (RingNode c l k v r) = Suc (max (rb_height l) (rb_height r))"

lemma bheight_size: "invh t \<Longrightarrow> 2 ^ bheight t \<le> Suc (length (inorder t))"
proof (induction t)
  case (RingNode c l k v r)
  then have IH: "2 ^ bheight l \<le> Suc (length (inorder l))" "2 ^ bheight l \<le> Suc (length (inorder r))"
    by auto
  show ?case
  proof (cases c)
    case False
    then have "2 ^ bheight (RingNode c l k v r) = 2 ^ bheight l + (2 :: nat) ^ bheight l" by simp
    also have "\<dots> \<le> Suc (length (inorder (RingNode c l k v r)))" using IH by simp
    finally show ?thesis .
  qed (use IH in simp)
qed simp

lemma height_bheight:
  "invc t \<Longrightarrow> invh t \<Longrightarrow> rb_height t \<le> 2 * bheight t + (if isRed t then 1 else 0)"
  by (induction t) (auto split: if_splits)


section \<open>A concrete ring\<close>

definition demo_hash :: "string \<Rightarrow> int" where
  "demo_hash s = foldl (\<lambda>a c. (a * 31 + int (of_char c)) mod 997) 7 s"

definition demo_ring :: hash_ring where
  "demo_ring = the (addServer demo_hash ''b:1'' (the (addServer demo_hash ''a:1'' (new_ring (Some 2)))))"

lemma demo_ring_ok: "ring_ok demo_hash demo_ring"
proof -
  obtain r1 where r1: "addServer demo_hash ''a:1'' (new_ring (Some 2)) = Some r1" "ring_ok demo_hash r1"
    using addServer_ok [OF ring_ok_new] by blast
  show ?thesis using addServer_ok [OF r1(2), of "''b:1''"] r1(1) by (auto simp: demo_ring_def)
qed

lemma demo_ring_facts:
  "hr_replicaPoints demo_ring = 2" "ring_servers demo_ring = {''a:1'', ''b:1''}"
proof -
  obtain r1 where r1: "addServer demo_hash ''a:1'' (new_ring (Some 2)) = Some r1" "ring_ok demo_hash r1"
    "hr_replicaPoints r1 = 2" "ring_servers r1 = {''a:1''}"
    using addServer_ok [OF ring_ok_new, of demo_hash "''a:1''" "Some 2"] by (auto simp: new_ring_def)
  obtain r2 where r2: "addServer demo_hash ''b:1'' r1 = Some r2" "hr_replicaPoints r2 = 2"
    "ring_servers r2 = {''b:1'', ''a:1''}"
    using addServer_ok [OF r1(2), of "''b:1''"] r1(3,4) by metis
  have "demo_ring = r2" by (simp only: demo_ring_def r1(1) r2(1) option.sel)
  then show "hr_replicaPoints demo_ring = 2" "ring_servers demo_ring = {''a:1'', ''b:1''}"
    using r2(2,3) by (simp_all add: insert_commute)
qed


lemma demo_tree_ok: "rb_ok comparator (hr_rbtree demo_ring)"
  using demo_ring_ok by (simp add: ring_ok_def tree_of_def)

section \<open>The tree\<close>

text \<open>
  Inserting into a well-formed red-black tree always returns, never touches \<open>null\<close> or a stale
  pointer, keeps the tree a balanced search tree with the right size, adds exactly the given entry
  unless its key is present, and reports whether it did.
\<close>

theorem rbtree_insert_correct:
  assumes "rb_ok comparator tree"
  shows "\<exists>tree' added. rb_insert comparator key val tree = Some (tree', added) \<and>
    rb_ok comparator tree' \<and> (added \<longleftrightarrow> key \<notin> fst ` set (entries tree)) \<and>
    set (entries tree') =
      (if added then insert (key, val) (set (entries tree)) else set (entries tree))"
  by (rule ring_cmp.rb_insert_ok [OF assms])

theorem rbtree_insert_correct_witness:
  "\<exists>tree' added. rb_insert comparator (RKey 900 ''c:1'') ''c:1'' (hr_rbtree demo_ring) = Some (tree', added) \<and>
    rb_ok comparator tree' \<and>
    (added \<longleftrightarrow> RKey 900 ''c:1'' \<notin> fst ` set (entries (hr_rbtree demo_ring))) \<and>
    set (entries tree') =
      (if added then insert (RKey 900 ''c:1'', ''c:1'') (set (entries (hr_rbtree demo_ring)))
       else set (entries (hr_rbtree demo_ring)))"
  by (rule rbtree_insert_correct [OF demo_tree_ok])

text \<open>
  Removing a key from a well-formed red-black tree always returns, never touches \<open>null\<close>, keeps the
  tree a balanced search tree with the right size, removes exactly the entry of that key and leaves
  the others in order, and reports whether the key was there.
\<close>

theorem rbtree_remove_correct:
  assumes "rb_ok comparator tree"
  shows "\<exists>tree' removed. rb_remove comparator key tree = Some (tree', removed) \<and>
    rb_ok comparator tree' \<and> (removed \<longleftrightarrow> key \<in> fst ` set (entries tree)) \<and>
    entries tree' = filter (\<lambda>x. fst x \<noteq> key) (entries tree)"
  by (rule ring_cmp.rb_remove_ok [OF assms])

theorem rbtree_remove_correct_witness:
  "\<exists>tree' removed. rb_remove comparator (RKey 877 ''b:1'') (hr_rbtree demo_ring) = Some (tree', removed) \<and>
    rb_ok comparator tree' \<and>
    (removed \<longleftrightarrow> RKey 877 ''b:1'' \<in> fst ` set (entries (hr_rbtree demo_ring))) \<and>
    entries tree' = filter (\<lambda>x. fst x \<noteq> RKey 877 ''b:1'') (entries (hr_rbtree demo_ring))"
  by (rule rbtree_remove_correct [OF demo_tree_ok])

text \<open>
  The ring's tree stays balanced: a tree with \<open>n\<close> points has height at most about
  \<open>2 log\<^sub>2 (n + 1)\<close>, whatever servers were added and removed, and so do the paths a lookup descends.
\<close>

theorem ring_tree_height:
  assumes "ring_ok hashFunc ring"
  shows "2 ^ (rb_height (rb_root (hr_rbtree ring)) div 2) \<le> Suc (rb_size (hr_rbtree ring))"
proof -
  let ?t = "rb_root (hr_rbtree ring)"
  have ok: "invc ?t" "invh ?t" "\<not> isRed ?t" "rb_size (hr_rbtree ring) = length (inorder ?t)"
    using assms by (auto simp: ring_ok_def tree_of_def rb_ok_def)
  then have "rb_height ?t div 2 \<le> bheight ?t" using height_bheight [OF ok(1,2)] by simp
  then have "(2 :: nat) ^ (rb_height ?t div 2) \<le> 2 ^ bheight ?t" by (rule power_increasing) simp
  also have "\<dots> \<le> Suc (rb_size (hr_rbtree ring))" unfolding ok(4) by (rule bheight_size [OF ok(2)])
  finally show ?thesis .
qed

theorem ring_tree_height_witness:
  "2 ^ (rb_height (rb_root (hr_rbtree demo_ring)) div 2) \<le> Suc (rb_size (hr_rbtree demo_ring))"
  by (rule ring_tree_height [OF demo_ring_ok])

section \<open>The ring\<close>

text \<open>
  Adding and removing batches of servers always returns; the tree afterwards holds exactly the
  replica points of the servers that remain, additions being done before removals, and the call
  reports a change exactly when a new server was added or a present one removed.
\<close>

theorem addRemoveServers_correct:
  assumes "ring_ok hashFunc ring"
  shows "\<exists>ring' changed. addRemoveServers hashFunc adds removes ring = Some (ring', changed) \<and>
    ring_ok hashFunc ring' \<and>
    ring_servers ring' = ring_servers ring \<union> set adds - set removes \<and>
    (changed \<longleftrightarrow> \<not> set adds \<subseteq> ring_servers ring \<or>
       set removes \<inter> (ring_servers ring \<union> set adds) \<noteq> {})"
  using addRemoveServers_ok [OF assms, of adds removes] by blast

theorem addRemoveServers_correct_witness:
  "\<exists>ring' changed. addRemoveServers demo_hash [''c:1''] [''a:1'', ''z:9''] demo_ring = Some (ring', changed) \<and>
    ring_ok demo_hash ring' \<and>
    ring_servers ring' = ring_servers demo_ring \<union> set [''c:1''] - set [''a:1'', ''z:9''] \<and>
    (changed \<longleftrightarrow> \<not> set [''c:1''] \<subseteq> ring_servers demo_ring \<or>
       set [''a:1'', ''z:9''] \<inter> (ring_servers demo_ring \<union> set [''c:1'']) \<noteq> {})"
  by (rule addRemoveServers_correct [OF demo_ring_ok])

text \<open>
  C18: A lookup on the red-black tree agrees with the abstract ring: it returns the server whose point
  is the first at or after the key's hash, wrapping around to the least point, and nothing exactly
  when the ring has no points.
\<close>

theorem lookup_refines_owner:
  assumes "ring_ok hashFunc ring"
  shows "ring_lookup hashFunc key ring = Some (owner (ring_points hashFunc ring) (hashFunc key))"
  by (rule lookup_owner [OF assms])

theorem lookup_refines_owner_witness:
  "ring_lookup demo_hash ''yy'' demo_ring =
    Some (owner (ring_points demo_hash demo_ring) (demo_hash ''yy''))"
  by (rule lookup_refines_owner [OF demo_ring_ok])

text \<open>
  C21: Minimal disruption: when a batch of servers is added and removed, a key changes its owner only
  if its new owner was added by the batch or its old owner removed by it.
\<close>

theorem ring_minimal_disruption:
  assumes "ring_ok hashFunc ring"
    and "addRemoveServers hashFunc adds removes ring = Some (ring', changed)"
    and "ring_lookup hashFunc key ring = Some old" and "ring_lookup hashFunc key ring' = Some new"
  shows "new = old \<or> (\<exists>a \<in> set adds - ring_servers ring. new = Some a) \<or>
    (\<exists>a \<in> set removes. old = Some a)"
proof -
  have r: "ring_ok hashFunc ring'" "hr_replicaPoints ring' = hr_replicaPoints ring"
    "ring_servers ring' = ring_servers ring \<union> set adds - set removes"
    using addRemoveServers_ok [OF assms(1), of adds removes] assms(2) by auto
  have "old = owner (ring_points hashFunc ring) (hashFunc key)"
    "new = owner (ring_points hashFunc ring') (hashFunc key)"
    using assms(3,4) lookup_owner [OF assms(1)] lookup_owner [OF r(1)] by auto
  then show ?thesis
    using owner_change [of "ring_servers ring" "ring_servers ring'" hashFunc "hr_replicaPoints ring"
        "hashFunc key"] r(2,3)
    by auto
qed

theorem ring_minimal_disruption_witness:
  "\<exists>ring' changed old new. addRemoveServers demo_hash [''c:1''] [''a:1''] demo_ring = Some (ring', changed) \<and>
    ring_lookup demo_hash ''yy'' demo_ring = Some old \<and> ring_lookup demo_hash ''yy'' ring' = Some new \<and>
    (new = old \<or> (\<exists>a \<in> set [''c:1''] - ring_servers demo_ring. new = Some a) \<or>
     (\<exists>a \<in> set [''a:1'']. old = Some a))"
proof -
  obtain ring' changed where r: "addRemoveServers demo_hash [''c:1''] [''a:1''] demo_ring = Some (ring', changed)"
    "ring_ok demo_hash ring'"
    using addRemoveServers_ok [OF demo_ring_ok] by metis
  from ring_minimal_disruption [OF demo_ring_ok r(1) lookup_owner [OF demo_ring_ok] lookup_owner [OF r(2)]]
  show ?thesis using r(1) lookup_owner [OF demo_ring_ok] lookup_owner [OF r(2)] by metis
qed

text \<open>
  Adding a server and removing it again restores the owner of every key.
\<close>

theorem add_remove_roundtrip:
  assumes "ring_ok hashFunc ring" and "\<not> hasServer server ring"
  shows "\<exists>ring1 ring2. addServer hashFunc server ring = Some ring1 \<and>
    removeServer hashFunc server ring1 = Some ring2 \<and> ring_servers ring2 = ring_servers ring \<and>
    ring_lookup hashFunc key ring2 = ring_lookup hashFunc key ring"
proof -
  obtain ring1 where r1: "addServer hashFunc server ring = Some ring1" "ring_ok hashFunc ring1"
    "hr_replicaPoints ring1 = hr_replicaPoints ring"
    "ring_servers ring1 = insert server (ring_servers ring)"
    using addServer_ok [OF assms(1)] by blast
  obtain ring2 where r2: "removeServer hashFunc server ring1 = Some ring2" "ring_ok hashFunc ring2"
    "hr_replicaPoints ring2 = hr_replicaPoints ring1" "ring_servers ring2 = ring_servers ring1 - {server}"
    using removeServer_ok [OF r1(2)] by blast
  have "ring_servers ring2 = ring_servers ring"
    using r1(4) r2(4) hasServer_iff [OF assms(1), of server] assms(2) by auto
  then show ?thesis
    using r1 r2 lookup_owner [OF assms(1)] lookup_owner [OF r2(2)] by simp
qed

theorem add_remove_roundtrip_witness:
  "\<exists>ring1 ring2. addServer demo_hash ''c:1'' demo_ring = Some ring1 \<and>
    removeServer demo_hash ''c:1'' ring1 = Some ring2 \<and> ring_servers ring2 = ring_servers demo_ring \<and>
    ring_lookup demo_hash ''yy'' ring2 = ring_lookup demo_hash ''yy'' demo_ring"
  by (rule add_remove_roundtrip [OF demo_ring_ok])
    (simp add: hasServer_iff [OF demo_ring_ok] demo_ring_facts)

text \<open>
  The preference list: for a positive \<open>n\<close>, \<open>lookupN\<close> returns (its loop ends) the first \<open>n\<close> distinct
  servers met walking the ring from the key, all of them if there are fewer, each once, starting with
  the key's owner.
\<close>

theorem lookupN_correct:
  assumes "ring_ok hashFunc ring" and "0 < hr_replicaPoints ring" and "0 < n"
  shows "\<exists>servers. ring_lookupN hashFunc key n ring = Some servers \<and>
    servers = preference (ring_points hashFunc ring) (hashFunc key) (nat n) \<and>
    distinct servers \<and> set servers \<subseteq> ring_servers ring \<and>
    length servers = min (nat n) (getServerCount ring) \<and>
    (servers \<noteq> [] \<longrightarrow> ring_lookup hashFunc key ring = Some (Some (hd servers)))"
proof -
  let ?P = "ring_points hashFunc ring" and ?x = "hashFunc key"
  have fin: "finite (ring_servers ring)" by simp
  have count: "getServerCount ring = card (ring_servers ring)"
    using assms(1) distinct_card [of "dkeys (hr_servers ring)"]
    by (simp add: getServerCount_def ring_ok_def)
  have "ring_lookup hashFunc key ring = Some (Some (hd (preference ?P ?x (nat n))))"
    if "preference ?P ?x (nat n) \<noteq> []"
  proof -
    have ne: "?P \<noteq> {}" using that by (auto simp: preference_def walk_def)
    obtain rest where "preference ?P ?x (nat n) = the (owner ?P ?x) # rest"
      using preference_hd [of ?P "nat n" ?x] ne assms(3) by auto
    moreover have "owner ?P ?x \<noteq> None" using ne by (simp add: owner_def)
    ultimately show ?thesis using lookup_owner [OF assms(1)] by auto
  qed
  then show ?thesis
    using lookupN_preference [OF assms(1,3), of key] preference_servers [OF fin assms(2)] count by simp
qed

theorem lookupN_correct_witness:
  "\<exists>servers. ring_lookupN demo_hash ''yy'' 5 demo_ring = Some servers \<and>
    servers = preference (ring_points demo_hash demo_ring) (demo_hash ''yy'') (nat 5) \<and>
    distinct servers \<and> set servers \<subseteq> ring_servers demo_ring \<and>
    length servers = min (nat 5) (getServerCount demo_ring) \<and>
    (servers \<noteq> [] \<longrightarrow> ring_lookup demo_hash ''yy'' demo_ring = Some (Some (hd servers)))"
  by (rule lookupN_correct [OF demo_ring_ok]) (simp_all add: demo_ring_facts)

text \<open>Asked for none, the do-while loop still returns one, unless the key is past the last point.\<close>

lemma lookupN_zero:
  "ring_lookupN demo_hash ''yy'' 0 demo_ring = Some [''b:1'']"
  by code_simp

text \<open>
  The ring's checksum does not depend on the order in which servers came and went: after any
  change it is the hash of the remaining server names in ascending order, joined by semicolons.
\<close>

theorem ring_checksum_canonical:
  assumes "ring_ok hashFunc ring"
    and "addRemoveServers hashFunc adds removes ring = Some (ring', True)"
  shows "hr_checksum ring' = Some (hashFunc (join '';''
    (sorted_list_of_set (ring_servers ring \<union> set adds - set removes))))"
proof -
  have r: "ring_ok hashFunc ring'" "ring_servers ring' = ring_servers ring \<union> set adds - set removes"
    using addRemoveServers_ok [OF assms(1), of adds removes] assms(2) by auto
  have "hr_checksum ring' = Some (hashFunc (join '';'' (sort (dkeys (hr_servers ring')))))"
    using assms(2)
    by (auto simp: addRemoveServers_def Let_def split: option.splits prod.splits if_splits)
  moreover have "sort (dkeys (hr_servers ring')) = sorted_list_of_set (ring_servers ring')"
    using r(1) by (simp add: ring_ok_def sorted_list_of_set_sort_remdups distinct_remdups_id
        flip: set_map)
  ultimately show ?thesis unfolding r(2) by simp
qed

theorem ring_checksum_canonical_witness:
  "\<exists>ring'. addRemoveServers demo_hash [''c:1''] [''a:1''] demo_ring = Some (ring', True) \<and>
    hr_checksum ring' = Some (demo_hash (join '';''
      (sorted_list_of_set (ring_servers demo_ring \<union> set [''c:1''] - set [''a:1'']))))"
proof -
  obtain ring' b where r: "addRemoveServers demo_hash [''c:1''] [''a:1''] demo_ring = Some (ring', b)"
    "b \<longleftrightarrow> \<not> set [''c:1''] \<subseteq> ring_servers demo_ring \<or>
       set [''a:1''] \<inter> (ring_servers demo_ring \<union> set [''c:1'']) \<noteq> {}"
    using addRemoveServers_ok [OF demo_ring_ok, of "[''c:1'']" "[''a:1'']"] by blast
  have "\<not> set [''c:1''] \<subseteq> ring_servers demo_ring" unfolding demo_ring_facts by simp
  then have b using r(2) by argo
  then have "addRemoveServers demo_hash [''c:1''] [''a:1''] demo_ring = Some (ring', True)"
    using r(1) by simp
  then show ?thesis using ring_checksum_canonical [OF demo_ring_ok] by blast
qed

end
