(* ===== verification/Config.thy ===== *)
theory Config
  imports Prelude
begin

text \<open>
  The configuration of a ringpop node, \<open>config.js\<close>: the typed value of every key, and the seeding
  that falls back to a default for a key that is missing or that its validator rejects. A seed is
  \<open>None\<close> when undefined; for a validated key \<open>Some None\<close> is a value the validator rejects. The log
  levels, which nothing but logging reads, are left out. A regular expression is the predicate it
  tests.
\<close>

record config =
  c_TEST_KEY :: "int"
  c_autoGossip :: "bool"
  c_isCrossPlatform :: "bool"
  c_useLatestHash32 :: "bool"
  c_dampedErrorLoggingEnabled :: "bool"
  c_dampedMaxPercentage :: "int"
  c_dampedMemberExpirationInterval :: "int"
  c_dampReqNVal :: "int"
  c_dampReqRVal :: "int"
  c_dampReqTimeout :: "int"
  c_dampScoringEnabled :: "bool"
  c_dampScoringDecayEnabled :: "bool"
  c_dampScoringDecayInterval :: "int"
  c_dampScoringHalfLife :: "int"
  c_dampScoringInitial :: "int"
  c_dampScoringMax :: "int"
  c_dampScoringMin :: "int"
  c_dampScoringPenalty :: "int"
  c_dampScoringReuseLimit :: "int"
  c_dampScoringSuppressDuration :: "int"
  c_dampScoringSuppressLimit :: "int"
  c_dampTimerInterval :: "int"
  c_joinDelayMin :: "int"
  c_joinDelayMax :: "int"
  c_joinTroubleErrorEnabled :: "bool"
  c_maxJoinDuration :: "int"
  c_backpressureEnabled :: "bool"
  c_lagSamplerInterval :: "int"
  c_maxEventLoopLag :: "int"
  c_maxInflightRequests :: "int"
  c_memberBlacklist :: "(string \<Rightarrow> bool) list"
  c_membershipUpdateRollupEnabled :: "bool"
  c_tchannelRetryLimit :: "int"
  c_wedgedRequestTimeout :: "int"
  c_wedgedTimerInterval :: "int"
  c_inflightClientRequestsLimit :: "int"
  c_discoverProviderHealerMaxFailures :: "int"
  c_discoverProviderHealerPeriod :: "int"
  c_discoverProviderHealerBaseProbability :: "int"
  c_discoverProviderHealerPeriodicEnabled :: "bool"
  c_selfEvictionPingEnabled :: "bool"
  c_selfEvictionMaxPingRatio :: "real"

text \<open>The object the user seeds the configuration with.\<close>

record config_seed =
  s_TEST_KEY :: "int option option"
  s_autoGossip :: "bool option"
  s_isCrossPlatform :: "bool option"
  s_useLatestHash32 :: "bool option"
  s_dampedErrorLoggingEnabled :: "bool option"
  s_dampedMaxPercentage :: "int option"
  s_dampedMemberExpirationInterval :: "int option"
  s_dampReqNVal :: "int option"
  s_dampReqRVal :: "int option"
  s_dampReqTimeout :: "int option"
  s_dampScoringEnabled :: "bool option"
  s_dampScoringDecayEnabled :: "bool option"
  s_dampScoringDecayInterval :: "int option"
  s_dampScoringHalfLife :: "int option"
  s_dampScoringInitial :: "int option"
  s_dampScoringMax :: "int option"
  s_dampScoringMin :: "int option"
  s_dampScoringPenalty :: "int option"
  s_dampScoringReuseLimit :: "int option"
  s_dampScoringSuppressDuration :: "int option"
  s_dampScoringSuppressLimit :: "int option"
  s_dampTimerInterval :: "int option"
  s_joinDelayMin :: "int option option"
  s_joinDelayMax :: "int option option"
  s_joinTroubleErrorEnabled :: "bool option"
  s_maxJoinDuration :: "int option option"
  s_backpressureEnabled :: "bool option"
  s_lagSamplerInterval :: "int option option"
  s_maxEventLoopLag :: "int option option"
  s_maxInflightRequests :: "int option option"
  s_memberBlacklist :: "((string \<Rightarrow> bool) list) option option"
  s_membershipUpdateRollupEnabled :: "bool option"
  s_tchannelRetryLimit :: "int option"
  s_wedgedRequestTimeout :: "int option"
  s_wedgedTimerInterval :: "int option"
  s_inflightClientRequestsLimit :: "int option"
  s_discoverProviderHealerMaxFailures :: "int option"
  s_discoverProviderHealerPeriod :: "int option"
  s_discoverProviderHealerBaseProbability :: "int option"
  s_discoverProviderHealerPeriodicEnabled :: "bool option"
  s_selfEvictionPingEnabled :: "bool option"
  s_selfEvictionMaxPingRatio :: "real option"

text \<open>\<open>seedOrDefault\<close> without and with a validator.\<close>

definition seedOrDefault :: "'a option \<Rightarrow> 'a \<Rightarrow> 'a" where
  "seedOrDefault seedVal defaultVal = (case seedVal of None \<Rightarrow> defaultVal | Some v \<Rightarrow> v)"

definition seedOrDefault_checked :: "'a option option \<Rightarrow> 'a \<Rightarrow> 'a" where
  "seedOrDefault_checked seedVal defaultVal =
     (case seedVal of None \<Rightarrow> defaultVal | Some None \<Rightarrow> defaultVal | Some (Some v) \<Rightarrow> v)"

definition seed_config :: "config_seed \<Rightarrow> config" where
  "seed_config seed = \<lparr>
     c_TEST_KEY = seedOrDefault_checked (s_TEST_KEY seed) 100,
     c_autoGossip = seedOrDefault (s_autoGossip seed) True,
     c_isCrossPlatform = seedOrDefault (s_isCrossPlatform seed) False,
     c_useLatestHash32 = seedOrDefault (s_useLatestHash32 seed) False,
     c_dampedErrorLoggingEnabled = seedOrDefault (s_dampedErrorLoggingEnabled seed) False,
     c_dampedMaxPercentage = seedOrDefault (s_dampedMaxPercentage seed) 10,
     c_dampedMemberExpirationInterval = seedOrDefault (s_dampedMemberExpirationInterval seed) 60000,
     c_dampReqNVal = seedOrDefault (s_dampReqNVal seed) 6,
     c_dampReqRVal = seedOrDefault (s_dampReqRVal seed) 3,
     c_dampReqTimeout = seedOrDefault (s_dampReqTimeout seed) 1000,
     c_dampScoringEnabled = seedOrDefault (s_dampScoringEnabled seed) True,
     c_dampScoringDecayEnabled = seedOrDefault (s_dampScoringDecayEnabled seed) True,
     c_dampScoringDecayInterval = seedOrDefault (s_dampScoringDecayInterval seed) 1000,
     c_dampScoringHalfLife = seedOrDefault (s_dampScoringHalfLife seed) (60 * 5),
     c_dampScoringInitial = seedOrDefault (s_dampScoringInitial seed) 0,
     c_dampScoringMax = seedOrDefault (s_dampScoringMax seed) 10000,
     c_dampScoringMin = seedOrDefault (s_dampScoringMin seed) 0,
     c_dampScoringPenalty = seedOrDefault (s_dampScoringPenalty seed) 500,
     c_dampScoringReuseLimit = seedOrDefault (s_dampScoringReuseLimit seed) 2500,
     c_dampScoringSuppressDuration = seedOrDefault (s_dampScoringSuppressDuration seed) (60 * 60 * 1000),
     c_dampScoringSuppressLimit = seedOrDefault (s_dampScoringSuppressLimit seed) 5000,
     c_dampTimerInterval = seedOrDefault (s_dampTimerInterval seed) (60 * 1000),
     c_joinDelayMin = seedOrDefault_checked (s_joinDelayMin seed) 100,
     c_joinDelayMax = seedOrDefault_checked (s_joinDelayMax seed) (2 * 60 * 1000),
     c_joinTroubleErrorEnabled = seedOrDefault (s_joinTroubleErrorEnabled seed) True,
     c_maxJoinDuration = seedOrDefault_checked (s_maxJoinDuration seed) (20 * 60 * 1000),
     c_backpressureEnabled = seedOrDefault (s_backpressureEnabled seed) False,
     c_lagSamplerInterval = seedOrDefault_checked (s_lagSamplerInterval seed) 1000,
     c_maxEventLoopLag = seedOrDefault_checked (s_maxEventLoopLag seed) 1500,
     c_maxInflightRequests = seedOrDefault_checked (s_maxInflightRequests seed) 5000,
     c_memberBlacklist = seedOrDefault_checked (s_memberBlacklist seed) [],
     c_membershipUpdateRollupEnabled = seedOrDefault (s_membershipUpdateRollupEnabled seed) False,
     c_tchannelRetryLimit = seedOrDefault (s_tchannelRetryLimit seed) 0,
     c_wedgedRequestTimeout = seedOrDefault (s_wedgedRequestTimeout seed) (30 * 1000),
     c_wedgedTimerInterval = seedOrDefault (s_wedgedTimerInterval seed) 1000,
     c_inflightClientRequestsLimit = seedOrDefault (s_inflightClientRequestsLimit seed) 100,
     c_discoverProviderHealerMaxFailures = seedOrDefault (s_discoverProviderHealerMaxFailures seed) 10,
     c_discoverProviderHealerPeriod = seedOrDefault (s_discoverProviderHealerPeriod seed) 30000,
     c_discoverProviderHealerBaseProbability = seedOrDefault (s_discoverProviderHealerBaseProbability seed) 3,
     c_discoverProviderHealerPeriodicEnabled = seedOrDefault (s_discoverProviderHealerPeriodicEnabled seed) True,
     c_selfEvictionPingEnabled = seedOrDefault (s_selfEvictionPingEnabled seed) True,
     c_selfEvictionMaxPingRatio = seedOrDefault (s_selfEvictionMaxPingRatio seed) 0.4\<rparr>"

definition empty_seed :: config_seed where
  "empty_seed = \<lparr>
     s_TEST_KEY = None,
     s_autoGossip = None,
     s_isCrossPlatform = None,
     s_useLatestHash32 = None,
     s_dampedErrorLoggingEnabled = None,
     s_dampedMaxPercentage = None,
     s_dampedMemberExpirationInterval = None,
     s_dampReqNVal = None,
     s_dampReqRVal = None,
     s_dampReqTimeout = None,
     s_dampScoringEnabled = None,
     s_dampScoringDecayEnabled = None,
     s_dampScoringDecayInterval = None,
     s_dampScoringHalfLife = None,
     s_dampScoringInitial = None,
     s_dampScoringMax = None,
     s_dampScoringMin = None,
     s_dampScoringPenalty = None,
     s_dampScoringReuseLimit = None,
     s_dampScoringSuppressDuration = None,
     s_dampScoringSuppressLimit = None,
     s_dampTimerInterval = None,
     s_joinDelayMin = None,
     s_joinDelayMax = None,
     s_joinTroubleErrorEnabled = None,
     s_maxJoinDuration = None,
     s_backpressureEnabled = None,
     s_lagSamplerInterval = None,
     s_maxEventLoopLag = None,
     s_maxInflightRequests = None,
     s_memberBlacklist = None,
     s_membershipUpdateRollupEnabled = None,
     s_tchannelRetryLimit = None,
     s_wedgedRequestTimeout = None,
     s_wedgedTimerInterval = None,
     s_inflightClientRequestsLimit = None,
     s_discoverProviderHealerMaxFailures = None,
     s_discoverProviderHealerPeriod = None,
     s_discoverProviderHealerBaseProbability = None,
     s_discoverProviderHealerPeriodicEnabled = None,
     s_selfEvictionPingEnabled = None,
     s_selfEvictionMaxPingRatio = None\<rparr>"

definition default_config :: config where
  "default_config = seed_config empty_seed"

end
