(* ===== verification/Member.thy ===== *)
theory Member
  imports Config
begin

text \<open>
  A member of the cluster as one node sees it: \<open>lib/membership/member.js\<close> and \<open>update.js\<close>. Status,
  incarnation number, the rule that decides whether a piece of gossip overrides what is known
  (\<open>shouldProcessGossip\<close>), and the damp score with its exponential decay. Logging and statistics are
  left out; events are returned.
\<close>

section \<open>Status\<close>

text \<open>\<open>Member.Status\<close>; a status read from the network may be any other string.\<close>

datatype status = Alive | Suspect | Faulty | Leave | Tombstone | Unknown string

fun status_name :: "status \<Rightarrow> string" where
  "status_name Alive = ''alive''"
| "status_name Suspect = ''suspect''"
| "status_name Faulty = ''faulty''"
| "status_name Leave = ''leave''"
| "status_name Tombstone = ''tombstone''"
| "status_name (Unknown s) = s"

fun isStatusPingable :: "status \<Rightarrow> bool" where
  "isStatusPingable Alive = True"
| "isStatusPingable Suspect = True"
| "isStatusPingable _ = False"

fun statusPrecedence :: "status \<Rightarrow> int" where
  "statusPrecedence Alive = 0"
| "statusPrecedence Suspect = 1"
| "statusPrecedence Faulty = 2"
| "statusPrecedence Leave = 3"
| "statusPrecedence Tombstone = 4"
| "statusPrecedence (Unknown _) = -1"

section \<open>Updates\<close>

text \<open>
  \<open>Update\<close>, also the shape of a change received from another node: what is claimed of the subject,
  and by whom. \<open>u_dampScore\<close> and \<open>u_tombstone\<close> may come with a received change. The time stamp of an
  update is never read.
\<close>

record update =
  u_id :: "string option"
  u_address :: string
  u_status :: status
  u_inc :: int
  u_source :: "string option"
  u_sourceInc :: "int option"
  u_dampScore :: "int option"
  u_tombstone :: bool

section \<open>Members\<close>

record member =
  m_address :: string
  m_status :: status
  m_inc :: int
  m_dampScore :: "int option"
  m_lastUpdateTimestamp :: "int option"
  m_lastUpdateDampScore :: int

datatype member_event =
    DampScoreDecayed "int option" "int option"
  | MemberUpdated update
  | MemberReusable string "int option"
  | MemberSuppressLimitExceeded string

definition new_member :: "config \<Rightarrow> update \<Rightarrow> member" where
  "new_member cfg u =
     (let dampScore = numOrDefault (u_dampScore u) (c_dampScoringInitial cfg) in
      \<lparr>m_address = u_address u, m_status = u_status u, m_inc = u_inc u,
       m_dampScore = Some dampScore, m_lastUpdateTimestamp = None,
       m_lastUpdateDampScore = dampScore\<rparr>)"

text \<open>\<open>new Update(subject, source)\<close> with both present.\<close>

definition new_update :: "string \<Rightarrow> member \<Rightarrow> member option \<Rightarrow> update" where
  "new_update uuid subject source =
     \<lparr>u_id = Some uuid, u_address = m_address subject, u_status = m_status subject,
      u_inc = m_inc subject, u_source = map_option m_address source,
      u_sourceInc = map_option m_inc source, u_dampScore = None, u_tombstone = False\<rparr>"

section \<open>Damp score\<close>

text \<open>
  \<open>score(t2) = score(t1) e\<^sup>(-(t2 - t1) ln 2 / halfLife)\<close>, times in seconds, rounded to the nearest
  whole. A missing time stamp counts as 0 in the subtraction.
\<close>

definition decay_factor :: "config \<Rightarrow> int \<Rightarrow> int option \<Rightarrow> real" where
  "decay_factor cfg now lastUpdate =
     (let timeSince = (real_of_int now - real_of_int (case lastUpdate of None \<Rightarrow> 0 | Some t \<Rightarrow> t)) / 1000 in
      exp (- 1 * timeSince * ln 2 / real_of_int (c_dampScoringHalfLife cfg)))"

definition decayDampScore :: "config \<Rightarrow> int \<Rightarrow> member \<Rightarrow> member \<times> member_event list" where
  "decayDampScore cfg now m =
     (case m_dampScore m of
        None \<Rightarrow> (m\<lparr>m_dampScore := Some (c_dampScoringInitial cfg)\<rparr>, [])
      | Some oldDampScore \<Rightarrow>
          (let decay = decay_factor cfg now (m_lastUpdateTimestamp m);
               dampScore = max (round (real_of_int (m_lastUpdateDampScore m) * decay))
                 (c_dampScoringMin cfg);
               reuseLimit = c_dampScoringReuseLimit cfg
           in (m\<lparr>m_dampScore := Some dampScore\<rparr>,
               (if oldDampScore > reuseLimit \<and> dampScore \<le> reuseLimit
                then [MemberReusable (m_address m) (Some oldDampScore)] else []) @
               [DampScoreDecayed (Some dampScore) (Some oldDampScore)])))"

text \<open>After the decay there always is a score.\<close>

definition applyUpdatePenalty :: "config \<Rightarrow> int \<Rightarrow> member \<Rightarrow> member \<times> member_event list" where
  "applyUpdatePenalty cfg now m =
     (let (m1, evs) = decayDampScore cfg now m in
      (case m_dampScore m1 of
         None \<Rightarrow> (m1, evs)
       | Some oldDampScore \<Rightarrow>
           (let dampScore = min (oldDampScore + c_dampScoringPenalty cfg) (c_dampScoringMax cfg);
                suppressLimit = c_dampScoringSuppressLimit cfg
            in (m1\<lparr>m_dampScore := Some dampScore\<rparr>,
                evs @ (if oldDampScore < suppressLimit \<and> dampScore \<ge> suppressLimit
                       then [MemberSuppressLimitExceeded (m_address m)] else [])))))"

text \<open>
  \<open>applyUpdate\<close>: \<open>now\<close> is the clock when the score decays, \<open>after\<close> when the update has been applied.
\<close>

definition applyUpdate :: "config \<Rightarrow> string \<Rightarrow> int \<Rightarrow> int \<Rightarrow> update \<Rightarrow> member \<Rightarrow>
    member \<times> member_event list" where
  "applyUpdate cfg whoami now after u m =
     (let m1 = m\<lparr>m_status := u_status u, m_inc := u_inc u\<rparr>;
          (m2, evs) =
            (if c_dampScoringEnabled cfg \<and> u_address u \<noteq> whoami then
               (let (m', evs) = applyUpdatePenalty cfg now m1 in
                (m'\<lparr>m_lastUpdateDampScore := (case m_dampScore m' of None \<Rightarrow> 0 | Some s \<Rightarrow> s)\<rparr>, evs))
             else (m1, []))
      in (m2\<lparr>m_lastUpdateTimestamp := Some after\<rparr>, evs @ [MemberUpdated u]))"

section \<open>Gossip precedence\<close>

definition shouldProcessGossip :: "member option \<Rightarrow> update \<Rightarrow> bool" where
  "shouldProcessGossip member gossip =
     (if u_status gossip = Tombstone \<and> member = None then False
      else (case member of
              None \<Rightarrow> True
            | Some m \<Rightarrow>
                if u_inc gossip < m_inc m then False
                else if u_inc gossip > m_inc m then True
                else if statusPrecedence (u_status gossip) > statusPrecedence (m_status m) then True
                else False))"

section \<open>Lemmas\<close>

text \<open>
  What a member knows of another is its rank: incarnation number first, precedence second. Gossip
  about a known member is processed exactly when its rank is higher.
\<close>

definition rank_less :: "int \<times> status \<Rightarrow> int \<times> status \<Rightarrow> bool" where
  "rank_less a b \<longleftrightarrow> fst a < fst b \<or>
     (fst a = fst b \<and> statusPrecedence (snd a) < statusPrecedence (snd b))"

definition rank_le :: "int \<times> status \<Rightarrow> int \<times> status \<Rightarrow> bool" where
  "rank_le a b \<longleftrightarrow> \<not> rank_less b a"

abbreviation m_rank :: "member \<Rightarrow> int \<times> status" where
  "m_rank m \<equiv> (m_inc m, m_status m)"

abbreviation u_rank :: "update \<Rightarrow> int \<times> status" where
  "u_rank u \<equiv> (u_inc u, u_status u)"

lemma shouldProcess_known: "shouldProcessGossip (Some m) u \<longleftrightarrow> rank_less (m_rank m) (u_rank u)"
  by (auto simp: shouldProcessGossip_def rank_less_def)

lemma shouldProcess_unknown: "shouldProcessGossip None u \<longleftrightarrow> u_status u \<noteq> Tombstone"
  by (simp add: shouldProcessGossip_def)

lemma rank_le_refl [simp, intro]: "rank_le a a"
  by (simp add: rank_le_def rank_less_def)

lemma rank_le_trans: "rank_le a b \<Longrightarrow> rank_le b c \<Longrightarrow> rank_le a c"
  by (auto simp: rank_le_def rank_less_def)

lemma rank_less_le: "rank_less a b \<Longrightarrow> rank_le a b"
  by (auto simp: rank_le_def rank_less_def)

lemma rank_less_trans: "rank_less a b \<Longrightarrow> rank_less b c \<Longrightarrow> rank_less a c"
  by (auto simp: rank_less_def)

lemma rank_le_total: "rank_le a b \<or> rank_le b a"
  by (auto simp: rank_le_def rank_less_def)

definition known_status :: "status \<Rightarrow> bool" where
  "known_status s \<longleftrightarrow> (\<forall>x. s \<noteq> Unknown x)"

lemma known_status_simps [simp]:
  "known_status Alive" "known_status Suspect" "known_status Faulty" "known_status Leave"
  "known_status Tombstone" "\<not> known_status (Unknown x)"
  by (auto simp: known_status_def)

lemma precedence_inj:
  "known_status s \<Longrightarrow> statusPrecedence s = statusPrecedence t \<Longrightarrow> s = t"
  by (cases s; cases t) auto

lemma rank_le_antisym:
  "known_status (snd a) \<Longrightarrow> rank_le a b \<Longrightarrow> rank_le b a \<Longrightarrow> a = b"
  by (cases a; cases b) (auto simp: rank_le_def rank_less_def, metis precedence_inj)

lemma decayDampScore_frame [frame, simp]:
  "m_address (fst (decayDampScore cfg now m)) = m_address m"
  "m_status (fst (decayDampScore cfg now m)) = m_status m"
  "m_inc (fst (decayDampScore cfg now m)) = m_inc m"
  "m_lastUpdateTimestamp (fst (decayDampScore cfg now m)) = m_lastUpdateTimestamp m"
  "m_lastUpdateDampScore (fst (decayDampScore cfg now m)) = m_lastUpdateDampScore m"
  by (auto simp: decayDampScore_def Let_def split: option.splits)

lemma applyUpdatePenalty_frame [frame, simp]:
  "m_address (fst (applyUpdatePenalty cfg now m)) = m_address m"
  "m_status (fst (applyUpdatePenalty cfg now m)) = m_status m"
  "m_inc (fst (applyUpdatePenalty cfg now m)) = m_inc m"
  using decayDampScore_frame [of cfg now m]
  by (auto simp: applyUpdatePenalty_def Let_def simp del: decayDampScore_frame
      split: option.splits prod.splits)

lemma applyUpdate_frame [simp]:
  "m_address (fst (applyUpdate cfg me now after u m)) = m_address m"
  "m_status (fst (applyUpdate cfg me now after u m)) = u_status u"
  "m_inc (fst (applyUpdate cfg me now after u m)) = u_inc u"
  using applyUpdatePenalty_frame [of cfg now "m\<lparr>m_status := u_status u, m_inc := u_inc u\<rparr>"]
  by (auto simp: applyUpdate_def Let_def simp del: applyUpdatePenalty_frame split: prod.splits)

lemma new_member_simps [simp]:
  "m_address (new_member cfg u) = u_address u" "m_status (new_member cfg u) = u_status u"
  "m_inc (new_member cfg u) = u_inc u"
  by (simp_all add: new_member_def Let_def)

text \<open>A score is kept between the configured bounds.\<close>

definition damp_config_ok :: "config \<Rightarrow> bool" where
  "damp_config_ok cfg \<longleftrightarrow> 0 \<le> c_dampScoringMin cfg \<and> c_dampScoringMin cfg \<le> c_dampScoringInitial cfg \<and>
     c_dampScoringInitial cfg \<le> c_dampScoringMax cfg \<and> 0 \<le> c_dampScoringPenalty cfg \<and>
     0 < c_dampScoringHalfLife cfg"

definition damp_ok :: "config \<Rightarrow> member \<Rightarrow> bool" where
  "damp_ok cfg m \<longleftrightarrow>
     (case m_dampScore m of None \<Rightarrow> False
      | Some s \<Rightarrow> c_dampScoringMin cfg \<le> s \<and> s \<le> m_lastUpdateDampScore m) \<and>
     m_lastUpdateDampScore m \<le> c_dampScoringMax cfg"

lemma default_damp_config [simp]: "damp_config_ok default_config"
  by (simp add: damp_config_ok_def default_config_def seed_config_def empty_seed_def
      seedOrDefault_def seedOrDefault_checked_def)

lemma decay_factor_le_one:
  assumes "0 < c_dampScoringHalfLife cfg" "(case t of None \<Rightarrow> 0 | Some t \<Rightarrow> t) \<le> now"
  shows "decay_factor cfg now t \<le> 1" "0 < decay_factor cfg now t"
  using assms by (auto simp: decay_factor_def Let_def zero_le_divide_iff split: option.splits)

lemma round_decay_le:
  assumes "0 \<le> s" "0 < f" "f \<le> 1"
  shows "round (real_of_int s * f) \<le> s"
proof -
  have "real_of_int s * f \<le> real_of_int s" using assms by (simp add: mult_left_le)
  then have "round (real_of_int s * f) \<le> round (real_of_int s)" by (rule round_mono)
  then show ?thesis by simp
qed

lemma decay_damp_ok [preserves]:
  assumes cfg: "damp_config_ok cfg" and ok: "damp_ok cfg m"
    and clock: "(case m_lastUpdateTimestamp m of None \<Rightarrow> 0 | Some t \<Rightarrow> t) \<le> now"
  shows "damp_ok cfg (fst (decayDampScore cfg now m)) \<and> (\<exists>s. m_dampScore (fst (decayDampScore cfg now m)) = Some s)"
proof -
  obtain s where s: "m_dampScore m = Some s" "c_dampScoringMin cfg \<le> s" "s \<le> m_lastUpdateDampScore m"
    using ok by (auto simp: damp_ok_def split: option.splits)
  have "0 \<le> m_lastUpdateDampScore m" using s cfg by (simp add: damp_config_ok_def)
  then have "round (real_of_int (m_lastUpdateDampScore m) * decay_factor cfg now (m_lastUpdateTimestamp m))
      \<le> m_lastUpdateDampScore m"
    using cfg clock by (intro round_decay_le decay_factor_le_one) (auto simp: damp_config_ok_def)
  then show ?thesis
    using s ok by (auto simp: decayDampScore_def damp_ok_def Let_def)
qed

text \<open>Applying an update bounds the score from above, too.\<close>

lemma applyUpdate_damp_ok [preserves]:
  assumes cfg: "damp_config_ok cfg" and ok: "damp_ok cfg m"
    and clock: "(case m_lastUpdateTimestamp m of None \<Rightarrow> 0 | Some t \<Rightarrow> t) \<le> now"
  shows "damp_ok cfg (fst (applyUpdate cfg me now after u m))"
proof -
  let ?m1 = "m\<lparr>m_status := u_status u, m_inc := u_inc u\<rparr>"
  let ?m2 = "fst (decayDampScore cfg now ?m1)"
  have "damp_ok cfg ?m1" using ok by (simp add: damp_ok_def split: option.splits)
  then have ok2: "damp_ok cfg ?m2" and "\<exists>s. m_dampScore ?m2 = Some s"
    using decay_damp_ok [OF cfg, of ?m1 now] clock by auto
  then obtain s where s: "m_dampScore ?m2 = Some s" by blast
  have s_ok: "c_dampScoringMin cfg \<le> s" using ok2 by (simp only: damp_ok_def s option.case)
  have "m_dampScore (fst (applyUpdatePenalty cfg now ?m1)) =
      Some (min (s + c_dampScoringPenalty cfg) (c_dampScoringMax cfg))"
    using s by (cases "decayDampScore cfg now ?m1") (simp add: applyUpdatePenalty_def Let_def)
  moreover have "c_dampScoringMin cfg \<le> min (s + c_dampScoringPenalty cfg) (c_dampScoringMax cfg)"
    using s_ok cfg by (simp add: damp_config_ok_def)
  moreover obtain m3 evs where m3: "applyUpdatePenalty cfg now ?m1 = (m3, evs)"
    by (cases "applyUpdatePenalty cfg now ?m1")
  ultimately show ?thesis
    using ok unfolding applyUpdate_def Let_def m3
    by (cases "c_dampScoringEnabled cfg \<and> u_address u \<noteq> me")
      (simp_all add: damp_ok_def split: option.splits)
qed

end
