(* ===== verification/Membership.thy ===== *)
theory Membership
  imports Member
begin

text \<open>
  The member list of a node, \<open>lib/membership/index.js\<close>, \<open>merge.js\<close> and \<open>iterator.js\<close>. Members are
  objects shared by the list, the address index and \<open>localMember\<close>: they live in a heap that only
  grows, and a reference is an index into it. What the code reads of the ringpop object is the record
  \<open>node_ctx\<close>; the clock, the random numbers and the uuids it draws are an oracle indexed by the
  position of the change in its batch. Emitted events are appended to the state; logging, statistics
  and event time stamps are left out. \<open>_.shuffle\<close> and \<open>_.sample\<close> are parameters.
\<close>

section \<open>State\<close>

record node_ctx =
  x_whoami :: string
  x_isReady :: bool
  x_hashFunc :: "string \<Rightarrow> int"
  x_config :: config

record env =
  e_now :: "nat \<Rightarrow> int"
  e_after :: "nat \<Rightarrow> int"
  e_random :: "nat \<Rightarrow> real"
  e_uuid :: "nat \<Rightarrow> string"

datatype ms_event =
    MsChecksumComputed int "int option"
  | MsChecksumUpdate int "(status \<times> nat) list"
  | MsLocalMemberLeave string status
  | MsUpdated "update list"
  | MsSet "update list"
  | MsMember string member_event

record membership =
  ms_heap :: "member list"
  ms_members :: "nat list"
  ms_byAddress :: "nat dict"
  ms_checksum :: "int option"
  ms_stashed :: "update list list option"
  ms_decayTimer :: bool
  ms_local :: "nat option"
  ms_events :: "ms_event list"

definition new_membership :: membership where
  "new_membership = \<lparr>ms_heap = [], ms_members = [], ms_byAddress = [], ms_checksum = None,
     ms_stashed = Some [], ms_decayTimer = False, ms_local = None, ms_events = []\<rparr>"

definition ms_emit :: "ms_event list \<Rightarrow> membership \<Rightarrow> membership" where
  "ms_emit es ms = ms\<lparr>ms_events := ms_events ms @ es\<rparr>"

definition deref :: "membership \<Rightarrow> nat \<Rightarrow> member" where
  "deref ms r = ms_heap ms ! r"

definition set_member :: "nat \<Rightarrow> member \<Rightarrow> membership \<Rightarrow> membership" where
  "set_member r m ms = ms\<lparr>ms_heap := (ms_heap ms)[r := m]\<rparr>"

definition findMemberByAddress :: "membership \<Rightarrow> string \<Rightarrow> nat option" where
  "findMemberByAddress ms address = dget (ms_byAddress ms) address"

definition getMemberCount :: "membership \<Rightarrow> nat" where
  "getMemberCount ms = length (ms_members ms)"

definition getIncarnationNumber :: "membership \<Rightarrow> int option" where
  "getIncarnationNumber ms = map_option (\<lambda>l. m_inc (deref ms l)) (ms_local ms)"

definition isPingable :: "node_ctx \<Rightarrow> member \<Rightarrow> bool" where
  "isPingable ctx m \<longleftrightarrow> m_address m \<noteq> x_whoami ctx \<and> isStatusPingable (m_status m)"

definition hasMember :: "membership \<Rightarrow> string \<Rightarrow> bool" where
  "hasMember ms address \<longleftrightarrow> findMemberByAddress ms address \<noteq> None"

section \<open>Checksum\<close>

definition member_string :: "member \<Rightarrow> string" where
  "member_string m = m_address m @ status_name (m_status m) @ show_int (m_inc m) @ '';''"

definition generateChecksumString :: "membership \<Rightarrow> string" where
  "generateChecksumString ms =
     (let sortedMembers = sort_key m_address (map (deref ms) (ms_members ms)) in
      butlast (concat (map member_string (filter (\<lambda>m. m_status m \<noteq> Tombstone) sortedMembers))))"

text \<open>The counts of \<open>checksumUpdate\<close>; a status outside the enum counts under a key of its own.\<close>

definition statusCounts :: "membership \<Rightarrow> (status \<times> nat) list" where
  "statusCounts ms =
     map (\<lambda>s. (s, length (filter (\<lambda>r. m_status (deref ms r) = s) (ms_members ms))))
       [Alive, Faulty, Leave, Suspect, Tombstone]"

definition ms_computeChecksum :: "node_ctx \<Rightarrow> membership \<Rightarrow> membership" where
  "ms_computeChecksum ctx ms =
     (let prevChecksum = ms_checksum ms;
          checksum = x_hashFunc ctx (generateChecksumString ms)
      in ms_emit (MsChecksumComputed checksum prevChecksum #
           (if prevChecksum \<noteq> Some checksum then [MsChecksumUpdate checksum (statusCounts ms)] else []))
           (ms\<lparr>ms_checksum := Some checksum\<rparr>))"

section \<open>The local member\<close>

text \<open>\<open>_createMember\<close> and the two ways it is put into the list and the index.\<close>

definition alloc_member :: "member \<Rightarrow> membership \<Rightarrow> nat \<times> membership" where
  "alloc_member m ms = (length (ms_heap ms), ms\<lparr>ms_heap := ms_heap ms @ [m]\<rparr>)"

definition insert_member :: "nat \<Rightarrow> member \<Rightarrow> membership \<Rightarrow> membership" where
  "insert_member pos m ms =
     (let (r, ms1) = alloc_member m ms in
      ms1\<lparr>ms_members := splice_in pos r (ms_members ms1),
          ms_byAddress := dset (m_address m) r (ms_byAddress ms1)\<rparr>)"

definition push_member :: "member \<Rightarrow> membership \<Rightarrow> membership" where
  "push_member m ms = insert_member (length (ms_members ms)) m ms"

text \<open>\<open>_reincarnate\<close>, for a local member that is there.\<close>

definition reincarnate :: "env \<Rightarrow> nat \<Rightarrow> nat \<Rightarrow> membership \<Rightarrow> membership \<times> update" where
  "reincarnate env i l ms =
     (let m = (deref ms l)\<lparr>m_inc := e_now env i\<rparr> in
      (set_member l m ms, new_update (e_uuid env i) m (Some m)))"

definition postLocalUpdate :: "node_ctx \<Rightarrow> update \<Rightarrow> membership \<Rightarrow> membership" where
  "postLocalUpdate ctx u ms = ms_emit [MsUpdated [u]] (ms_computeChecksum ctx ms)"

definition setLocalStatus :: "node_ctx \<Rightarrow> env \<Rightarrow> status \<Rightarrow> membership \<Rightarrow> membership" where
  "setLocalStatus ctx env status ms =
     (let (l, ms1) =
        (case ms_local ms of
           Some l \<Rightarrow>
             (let m = deref ms l;
                  ms0 = (if status = Leave
                         then ms_emit [MsLocalMemberLeave (m_address m) (m_status m)] ms else ms)
              in (l, set_member l (m\<lparr>m_status := status\<rparr>) ms0))
         | None \<Rightarrow>
             (let u = \<lparr>u_id = Some (e_uuid env 0), u_address = x_whoami ctx, u_status = status,
                       u_inc = e_now env 0, u_source = None, u_sourceInc = None,
                       u_dampScore = None, u_tombstone = False\<rparr>;
                  l = length (ms_heap ms)
              in (l, (push_member (new_member (x_config ctx) u) ms)\<lparr>ms_local := Some l\<rparr>)));
        (ms2, u) = reincarnate env 1 l ms1
      in postLocalUpdate ctx u ms2)"

definition makeLocalAlive :: "node_ctx \<Rightarrow> env \<Rightarrow> membership \<Rightarrow> membership" where
  "makeLocalAlive ctx env ms = setLocalStatus ctx env Alive ms"

section \<open>Applying changes\<close>

text \<open>\<open>Math.floor(Math.random() * n)\<close>.\<close>

definition getJoinPosition :: "real \<Rightarrow> membership \<Rightarrow> nat" where
  "getJoinPosition random ms = nat \<lfloor>random * real (length (ms_members ms))\<rfloor>"

text \<open>One pass of the loop of \<open>update\<close>; reading \<open>self.localMember.address\<close> may throw.\<close>

definition apply_change :: "node_ctx \<Rightarrow> env \<Rightarrow> nat \<Rightarrow> update \<Rightarrow> membership \<Rightarrow>
    (membership \<times> update option) outcome" where
  "apply_change ctx env i change ms =
     (let member = findMemberByAddress ms (u_address change) in
      if shouldProcessGossip (map_option (deref ms) member) change then
        (case ms_local ms of
           None \<Rightarrow> Inl TypeError
         | Some l \<Rightarrow>
             if u_address change = m_address (deref ms l) then
               (let (ms', u) = reincarnate env i l ms in Inr (ms', Some u))
             else
               (case member of
                  None \<Rightarrow>
                    Inr (insert_member (getJoinPosition (e_random env i) ms)
                           (new_member (x_config ctx) change) ms, Some change)
                | Some r \<Rightarrow>
                    (let (m, evs) = applyUpdate (x_config ctx) (x_whoami ctx) (e_now env i)
                           (e_after env i) change (deref ms r)
                     in Inr (ms_emit (map (MsMember (m_address m)) evs) (set_member r m ms),
                          Some change))))
      else Inr (ms, None))"

fun update_loop :: "node_ctx \<Rightarrow> env \<Rightarrow> nat \<Rightarrow> update list \<Rightarrow> membership \<Rightarrow>
    (membership \<times> update list) outcome" where
  "update_loop ctx env i [] ms = Inr (ms, [])"
| "update_loop ctx env i (change # changes) ms =
     (case apply_change ctx env i change ms of
        Inl e \<Rightarrow> Inl e
      | Inr (ms1, u) \<Rightarrow>
          (case update_loop ctx env (Suc i) changes ms1 of
             Inl e \<Rightarrow> Inl e
           | Inr (ms2, us) \<Rightarrow> Inr (ms2, (case u of None \<Rightarrow> us | Some x \<Rightarrow> x # us))))"

definition ms_update :: "node_ctx \<Rightarrow> env \<Rightarrow> update list \<Rightarrow> membership \<Rightarrow>
    (membership \<times> update list) outcome" where
  "ms_update ctx env changes ms =
     (if changes = [] then Inr (ms, [])
      else if \<not> x_isReady ctx then
        Inr (case ms_stashed ms of
               None \<Rightarrow> ms
             | Some st \<Rightarrow> ms\<lparr>ms_stashed := Some (st @ [changes])\<rparr>, [])
      else
        (case update_loop ctx env 0 changes ms of
           Inl e \<Rightarrow> Inl e
         | Inr (ms1, updates) \<Rightarrow>
             Inr (if updates \<noteq> [] then ms_emit [MsUpdated updates] (ms_computeChecksum ctx ms1) else ms1,
                  updates)))"

text \<open>
  \<open>makeChange\<close> builds the change from what is known and overwrites address, incarnation number and
  status; the source is the local member, when there is one.
\<close>

definition makeChange :: "node_ctx \<Rightarrow> env \<Rightarrow> string \<Rightarrow> int \<Rightarrow> status \<Rightarrow> membership \<Rightarrow>
    (membership \<times> update list) outcome" where
  "makeChange ctx env address incarnationNumber status ms =
     (let source = map_option (deref ms) (ms_local ms);
          change = \<lparr>u_id = Some (e_uuid env 0), u_address = address, u_status = status,
                    u_inc = incarnationNumber, u_source = map_option m_address source,
                    u_sourceInc = map_option m_inc source, u_dampScore = None, u_tombstone = False\<rparr>
      in ms_update ctx env [change] ms)"

definition makeFaulty :: "node_ctx \<Rightarrow> env \<Rightarrow> string \<Rightarrow> int \<Rightarrow> membership \<Rightarrow>
    (membership \<times> update list) outcome" where
  "makeFaulty ctx env address inc ms = makeChange ctx env address inc Faulty ms"

definition makeSuspect :: "node_ctx \<Rightarrow> env \<Rightarrow> string \<Rightarrow> int \<Rightarrow> membership \<Rightarrow>
    (membership \<times> update list) outcome" where
  "makeSuspect ctx env address inc ms = makeChange ctx env address inc Suspect ms"

definition makeTombstone :: "node_ctx \<Rightarrow> env \<Rightarrow> string \<Rightarrow> int \<Rightarrow> membership \<Rightarrow>
    (membership \<times> update list) outcome" where
  "makeTombstone ctx env address inc ms = makeChange ctx env address inc Tombstone ms"

section \<open>Setting the stashed updates\<close>

definition merge_change :: "string \<Rightarrow> update \<Rightarrow> update dict \<Rightarrow> update dict" where
  "merge_change whoami change mergeIndex =
     (if u_address change = whoami then mergeIndex
      else (case dget mergeIndex (u_address change) of
              None \<Rightarrow> dset (u_address change) change mergeIndex
            | Some indexVal \<Rightarrow>
                if u_inc indexVal < u_inc change then dset (u_address change) change mergeIndex
                else mergeIndex))"

definition mergeMembershipChangesets :: "string \<Rightarrow> update list list \<Rightarrow> update list" where
  "mergeMembershipChangesets whoami changesets =
     map snd (fold (\<lambda>changes index. fold (merge_change whoami) changes index) changesets [])"

fun set_loop :: "config \<Rightarrow> update list \<Rightarrow> membership \<Rightarrow> membership" where
  "set_loop cfg [] ms = ms"
| "set_loop cfg (u # us) ms =
     (if u_status u = Tombstone then set_loop cfg us ms
      else set_loop cfg us (push_member (new_member cfg u) ms))"

definition ms_set :: "node_ctx \<Rightarrow> membership \<Rightarrow> membership" where
  "ms_set ctx ms =
     (if x_isReady ctx then ms
      else (case ms_stashed ms of
              None \<Rightarrow> ms
            | Some stashed \<Rightarrow>
                if stashed = [] then ms
                else
                  (let updates = mergeMembershipChangesets (x_whoami ctx) stashed;
                       ms1 = set_loop (x_config ctx) updates ms
                   in ms_emit [MsSet updates] (ms_computeChecksum ctx (ms1\<lparr>ms_stashed := None\<rparr>)))))"

section \<open>Removing members\<close>

definition removeMember :: "node_ctx \<Rightarrow> string \<Rightarrow> membership \<Rightarrow> membership" where
  "removeMember ctx address ms =
     (case dget (ms_byAddress ms) address of
        None \<Rightarrow> ms
      | Some r \<Rightarrow>
          ms_computeChecksum ctx
            (ms\<lparr>ms_byAddress := ddel address (ms_byAddress ms),
                ms_members := filter (\<lambda>x. x \<noteq> r) (ms_members ms)\<rparr>))"

definition evict :: "node_ctx \<Rightarrow> string \<Rightarrow> membership \<Rightarrow> membership outcome" where
  "evict ctx address ms =
     (case ms_local ms of
        None \<Rightarrow> Inl TypeError
      | Some l \<Rightarrow> Inr (if m_address (deref ms l) = address then ms else removeMember ctx address ms))"

section \<open>Choosing members\<close>

definition ms_shuffle :: "(nat list \<Rightarrow> nat list) \<Rightarrow> membership \<Rightarrow> membership" where
  "ms_shuffle shuffle ms = ms\<lparr>ms_members := shuffle (ms_members ms)\<rparr>"

definition getRandomPingableMembers :: "(nat \<Rightarrow> nat list \<Rightarrow> nat list) \<Rightarrow> node_ctx \<Rightarrow> nat \<Rightarrow>
    string list \<Rightarrow> membership \<Rightarrow> nat list" where
  "getRandomPingableMembers sample ctx n excluding ms =
     sample n (filter (\<lambda>r. isPingable ctx (deref ms r))
       (filter (\<lambda>r. m_address (deref ms r) \<notin> set excluding) (ms_members ms)))"

text \<open>\<open>MembershipIterator\<close>; the \<open>n\<close>-th shuffle of a call is \<open>shuffle n\<close>.\<close>

record ms_iter =
  mi_currentIndex :: int
  mi_currentRound :: nat

definition new_ms_iter :: ms_iter where
  "new_ms_iter = \<lparr>mi_currentIndex = -1, mi_currentRound = 0\<rparr>"

partial_function (option) mi_loop :: "(nat \<Rightarrow> nat list \<Rightarrow> nat list) \<Rightarrow> node_ctx \<Rightarrow> nat \<Rightarrow>
    bool dict \<Rightarrow> ms_iter \<Rightarrow> membership \<Rightarrow> (nat option \<times> ms_iter \<times> membership) option" where
  "mi_loop shuffle ctx maxMembersToVisit membersVisited it ms =
     (if \<not> length (dkeys membersVisited) < maxMembersToVisit then Some (None, it, ms)
      else
        (let index = mi_currentIndex it + 1;
             (it1, ms1) =
               (if index \<ge> int (getMemberCount ms)
                then (\<lparr>mi_currentIndex = 0, mi_currentRound = mi_currentRound it + 1\<rparr>,
                      ms_shuffle (shuffle (mi_currentRound it + 1)) ms)
                else (it\<lparr>mi_currentIndex := index\<rparr>, ms));
             r = ms_members ms1 ! nat (mi_currentIndex it1)
         in if isPingable ctx (deref ms1 r) then Some (Some r, it1, ms1)
            else mi_loop shuffle ctx maxMembersToVisit
                   (dset (m_address (deref ms1 r)) True membersVisited) it1 ms1))"

declare mi_loop.simps [code]

definition mi_next :: "(nat \<Rightarrow> nat list \<Rightarrow> nat list) \<Rightarrow> node_ctx \<Rightarrow> ms_iter \<Rightarrow> membership \<Rightarrow>
    (nat option \<times> ms_iter \<times> membership) option" where
  "mi_next shuffle ctx it ms = mi_loop shuffle ctx (getMemberCount ms) [] it ms"

section \<open>Damp scores\<close>

definition collectDampScores :: "string list \<Rightarrow> membership \<Rightarrow> (string \<times> int option) list" where
  "collectDampScores memberAddresses ms =
     concat (map (\<lambda>a. case findMemberByAddress ms a of
        None \<Rightarrow> []
      | Some r \<Rightarrow> [(m_address (deref ms r), m_dampScore (deref ms r))]) memberAddresses)"

fun decay_loop :: "config \<Rightarrow> env \<Rightarrow> nat \<Rightarrow> nat list \<Rightarrow> membership \<Rightarrow> membership" where
  "decay_loop cfg env i [] ms = ms"
| "decay_loop cfg env i (r # rs) ms =
     (let (m, evs) = decayDampScore cfg (e_now env i) (deref ms r) in
      decay_loop cfg env (Suc i) rs (ms_emit (map (MsMember (m_address m)) evs) (set_member r m ms)))"

definition decayMembersDampScore :: "node_ctx \<Rightarrow> env \<Rightarrow> membership \<Rightarrow> membership" where
  "decayMembersDampScore ctx env ms = decay_loop (x_config ctx) env 0 (ms_members ms) ms"

text \<open>The decay timer: whether the handle is set. A firing does not clear it.\<close>

definition decay_schedule :: "node_ctx \<Rightarrow> membership \<Rightarrow> membership" where
  "decay_schedule ctx ms =
     (if \<not> c_dampScoringDecayEnabled (x_config ctx) then ms else ms\<lparr>ms_decayTimer := True\<rparr>)"

definition startDampScoreDecayer :: "node_ctx \<Rightarrow> membership \<Rightarrow> membership" where
  "startDampScoreDecayer ctx ms = (if ms_decayTimer ms then ms else decay_schedule ctx ms)"

definition onDecayTimeout :: "node_ctx \<Rightarrow> env \<Rightarrow> membership \<Rightarrow> membership" where
  "onDecayTimeout ctx env ms = decay_schedule ctx (decayMembersDampScore ctx env ms)"

definition stopDampScoreDecayer :: "membership \<Rightarrow> membership" where
  "stopDampScoreDecayer ms = (if ms_decayTimer ms then ms\<lparr>ms_decayTimer := False\<rparr> else ms)"

end
