(* ===== verification/Membership_Facts.thy ===== *)
theory Membership_Facts
  imports Membership
begin

text \<open>
  The member list is well-formed after every operation: the list holds each member once, the index
  maps exactly the addresses of the listed members, and the local member is the one listed under the
  node's own address. Abstractly the list is a view, a map from addresses to the rank (incarnation
  number and status) known of them; applying a change is one step on the view.
\<close>

section \<open>Well-formedness\<close>

definition ms_wf :: "membership \<Rightarrow> bool" where
  "ms_wf ms \<longleftrightarrow>
     (\<forall>r \<in> set (ms_members ms). r < length (ms_heap ms)) \<and> distinct (ms_members ms) \<and>
     distinct (dkeys (ms_byAddress ms)) \<and>
     (\<forall>a r. dget (ms_byAddress ms) a = Some r \<longleftrightarrow>
        r \<in> set (ms_members ms) \<and> m_address (deref ms r) = a)"

definition ms_ok :: "node_ctx \<Rightarrow> membership \<Rightarrow> bool" where
  "ms_ok ctx ms \<longleftrightarrow> ms_wf ms \<and>
     dget (ms_byAddress ms) (x_whoami ctx) = ms_local ms \<and>
     (\<not> x_isReady ctx \<and> ms_stashed ms \<noteq> None \<longrightarrow>
        (\<forall>r \<in> set (ms_members ms). ms_local ms = Some r))"

definition known :: "membership \<Rightarrow> string \<Rightarrow> member option" where
  "known ms a = map_option (deref ms) (dget (ms_byAddress ms) a)"

definition view :: "membership \<Rightarrow> string \<Rightarrow> (int \<times> status) option" where
  "view ms a = map_option m_rank (known ms a)"

lemma ms_wf_frame [simp]:
  "ms_wf (ms\<lparr>ms_checksum := x\<rparr>) = ms_wf ms" "ms_wf (ms\<lparr>ms_stashed := st\<rparr>) = ms_wf ms"
  "ms_wf (ms\<lparr>ms_events := e\<rparr>) = ms_wf ms" "ms_wf (ms\<lparr>ms_local := l\<rparr>) = ms_wf ms"
  "ms_wf (ms\<lparr>ms_decayTimer := b\<rparr>) = ms_wf ms"
  by (simp_all add: ms_wf_def deref_def)

lemma known_frame [simp]:
  "known (ms\<lparr>ms_checksum := x\<rparr>) = known ms" "known (ms\<lparr>ms_stashed := st\<rparr>) = known ms"
  "known (ms\<lparr>ms_events := e\<rparr>) = known ms" "known (ms\<lparr>ms_local := l\<rparr>) = known ms"
  "known (ms\<lparr>ms_decayTimer := b\<rparr>) = known ms"
  by (rule ext, simp add: known_def deref_def [abs_def])+

lemma ms_emit_frame [frame, simp]:
  "ms_heap (ms_emit es ms) = ms_heap ms" "ms_members (ms_emit es ms) = ms_members ms"
  "ms_byAddress (ms_emit es ms) = ms_byAddress ms" "ms_checksum (ms_emit es ms) = ms_checksum ms"
  "ms_stashed (ms_emit es ms) = ms_stashed ms" "ms_local (ms_emit es ms) = ms_local ms"
  "ms_decayTimer (ms_emit es ms) = ms_decayTimer ms"
  "known (ms_emit es ms) = known ms" "ms_wf (ms_emit es ms) = ms_wf ms"
  "deref (ms_emit es ms) = deref ms"
  by (simp_all add: ms_emit_def deref_def [abs_def])

lemma ms_computeChecksum_frame [frame, simp]:
  "ms_heap (ms_computeChecksum ctx ms) = ms_heap ms"
  "ms_members (ms_computeChecksum ctx ms) = ms_members ms"
  "ms_byAddress (ms_computeChecksum ctx ms) = ms_byAddress ms"
  "ms_stashed (ms_computeChecksum ctx ms) = ms_stashed ms"
  "ms_local (ms_computeChecksum ctx ms) = ms_local ms"
  "ms_checksum (ms_computeChecksum ctx ms) = Some (x_hashFunc ctx (generateChecksumString ms))"
  "known (ms_computeChecksum ctx ms) = known ms" "ms_wf (ms_computeChecksum ctx ms) = ms_wf ms"
  "deref (ms_computeChecksum ctx ms) = deref ms"
  by (simp_all add: ms_computeChecksum_def Let_def deref_def [abs_def])

lemma view_frame [simp]:
  "view (ms_emit es ms) = view ms" "view (ms_computeChecksum ctx ms) = view ms"
  by (rule ext, simp add: view_def)+

lemma ms_ok_frame [simp]:
  "ms_ok ctx (ms_emit es ms) = ms_ok ctx ms" "ms_ok ctx (ms_computeChecksum ctx' ms) = ms_ok ctx ms"
  by (simp_all add: ms_ok_def)

lemma wf_index:
  "ms_wf ms \<Longrightarrow> dget (ms_byAddress ms) a = Some r \<longleftrightarrow>
    r \<in> set (ms_members ms) \<and> m_address (deref ms r) = a"
  by (simp add: ms_wf_def)

lemma wf_same_address:
  "ms_wf ms \<Longrightarrow> r \<in> set (ms_members ms) \<Longrightarrow> r' \<in> set (ms_members ms) \<Longrightarrow>
    m_address (deref ms r) = m_address (deref ms r') \<Longrightarrow> r = r'"
  by (metis wf_index option.inject)

lemma wf_distinct_addresses:
  assumes "ms_wf ms"
  shows "distinct (map (\<lambda>r. m_address (deref ms r)) (ms_members ms))"
proof -
  have "inj_on (\<lambda>r. m_address (deref ms r)) (set (ms_members ms))"
    using wf_same_address [OF assms] by (intro inj_onI) blast
  then show ?thesis using assms by (simp add: distinct_map ms_wf_def)
qed

lemma known_address: "ms_wf ms \<Longrightarrow> known ms a = Some m \<Longrightarrow> m_address m = a"
  by (auto simp: known_def wf_index)

section \<open>The primitive changes\<close>

lemma set_member_wf:
  assumes "ms_wf ms" "m_address m = m_address (deref ms r)"
  shows "ms_wf (set_member r m ms)"
proof -
  have "m_address (deref (set_member r m ms) x) = m_address (deref ms x)" for x
    using assms(2) by (cases "r < length (ms_heap ms)") (auto simp: deref_def set_member_def nth_list_update list_update_beyond)
  then show ?thesis using assms(1) by (simp add: ms_wf_def set_member_def deref_def)
qed

lemma set_member_frame [simp]:
  "ms_members (set_member r m ms) = ms_members ms" "ms_byAddress (set_member r m ms) = ms_byAddress ms"
  "ms_local (set_member r m ms) = ms_local ms" "ms_stashed (set_member r m ms) = ms_stashed ms"
  "ms_checksum (set_member r m ms) = ms_checksum ms" "ms_events (set_member r m ms) = ms_events ms"
  by (simp_all add: set_member_def)

lemma set_member_ok [preserves]:
  "ms_ok ctx ms \<Longrightarrow> m_address m = m_address (deref ms r) \<Longrightarrow> ms_ok ctx (set_member r m ms)"
  by (simp add: ms_ok_def set_member_wf)

lemma set_member_known:
  assumes "ms_wf ms" "dget (ms_byAddress ms) a = Some r"
  shows "known (set_member r m ms) = (known ms)(a \<mapsto> m)"
proof
  fix b
  have r: "r < length (ms_heap ms)" using assms by (auto simp: ms_wf_def)
  show "known (set_member r m ms) b = ((known ms)(a \<mapsto> m)) b"
  proof (cases "dget (ms_byAddress ms) b = Some r")
    case True
    then have "b = a" using assms wf_index by metis
    then show ?thesis using True r by (simp add: known_def deref_def set_member_def)
  next
    case False
    then have "b \<noteq> a" using assms(2) by auto
    then show ?thesis using False
      by (auto simp: known_def deref_def set_member_def map_option_case nth_list_update split: option.splits)
  qed
qed

lemma insert_member_frame [simp]:
  "ms_local (insert_member pos m ms) = ms_local ms"
  "ms_stashed (insert_member pos m ms) = ms_stashed ms"
  "ms_members (insert_member pos m ms) = splice_in pos (length (ms_heap ms)) (ms_members ms)"
  "ms_byAddress (insert_member pos m ms) = dset (m_address m) (length (ms_heap ms)) (ms_byAddress ms)"
  "ms_heap (insert_member pos m ms) = ms_heap ms @ [m]"
  by (simp_all add: insert_member_def alloc_member_def)

lemma insert_member_wf:
  assumes wf: "ms_wf ms" and new: "dget (ms_byAddress ms) (m_address m) = None"
  shows "ms_wf (insert_member pos m ms)"
    and "known (insert_member pos m ms) = (known ms)(m_address m \<mapsto> m)"
proof -
  let ?n = "length (ms_heap ms)"
  have old: "deref (insert_member pos m ms) r = deref ms r" if "r \<in> set (ms_members ms)" for r
    using wf that by (auto simp: deref_def ms_wf_def nth_append)
  have n: "deref (insert_member pos m ms) ?n = m" "?n \<notin> set (ms_members ms)"
    using wf by (auto simp: deref_def ms_wf_def nth_append)
  have none: "m_address (deref ms r) \<noteq> m_address m" if "r \<in> set (ms_members ms)" for r
    using that new wf wf_index by (metis option.distinct(1))
  show "ms_wf (insert_member pos m ms)"
    using wf old n none dict.ok_put [of "ms_byAddress ms" "m_address m" ?n]
    unfolding ms_wf_def by (auto simp: dict.get_put less_Suc_eq)
  show "known (insert_member pos m ms) = (known ms)(m_address m \<mapsto> m)"
  proof
    fix b
    show "known (insert_member pos m ms) b = ((known ms)(m_address m \<mapsto> m)) b"
    proof (cases "b = m_address m")
      case False
      have "deref (insert_member pos m ms) a = deref ms a" if "dget (ms_byAddress ms) b = Some a" for a
        using that wf_index [OF wf, of b a] by (intro old) simp
      then show ?thesis
        using False by (cases "dget (ms_byAddress ms) b") (simp_all add: known_def dict.get_put)
    qed (simp add: known_def dict.get_put n)
  qed
qed

lemma wf_member: "ms_wf ms \<Longrightarrow> r \<in> set (ms_members ms) \<Longrightarrow> view ms (m_address (deref ms r)) = Some (m_rank (deref ms r))"
  using wf_index [of ms "m_address (deref ms r)" r] by (simp add: view_def known_def)

section \<open>One change is one step on the view\<close>

definition processed :: "(int \<times> status) option \<Rightarrow> update \<Rightarrow> bool" where
  "processed k u \<longleftrightarrow>
     (case k of None \<Rightarrow> u_status u \<noteq> Tombstone | Some k \<Rightarrow> rank_less k (u_rank u))"

definition gossip_step :: "string \<Rightarrow> int \<Rightarrow> update \<Rightarrow> (string \<Rightarrow> (int \<times> status) option) \<Rightarrow>
    string \<Rightarrow> (int \<times> status) option" where
  "gossip_step whoami now u v =
     (if processed (v (u_address u)) u
      then v(u_address u := Some (if u_address u = whoami then (now, snd (the (v whoami))) else u_rank u))
      else v)"

fun gossip_steps :: "string \<Rightarrow> (nat \<Rightarrow> int) \<Rightarrow> nat \<Rightarrow> update list \<Rightarrow>
    (string \<Rightarrow> (int \<times> status) option) \<Rightarrow> string \<Rightarrow> (int \<times> status) option" where
  "gossip_steps whoami now i [] v = v"
| "gossip_steps whoami now i (u # us) v =
     gossip_steps whoami now (Suc i) us (gossip_step whoami (now i) u v)"

lemma processed_iff:
  "shouldProcessGossip (known ms a) u \<longleftrightarrow> processed (view ms a) u"
  by (cases "known ms a") (auto simp: processed_def view_def shouldProcess_known shouldProcess_unknown)

lemma view_upd: "known ms' = (known ms)(a \<mapsto> m) \<Longrightarrow> view ms' = (view ms)(a \<mapsto> m_rank m)"
  by (auto simp: view_def)

lemma apply_change_ok:
  assumes ok: "ms_ok ctx ms" and ready: "x_isReady ctx" and loc: "ms_local ms = Some l"
  shows "\<exists>ms' u. apply_change ctx env i change ms = Inr (ms', u) \<and> ms_ok ctx ms' \<and>
    ms_local ms' = Some l \<and>
    view ms' = gossip_step (x_whoami ctx) (e_now env i) change (view ms) \<and>
    (u = None \<longleftrightarrow> \<not> processed (view ms (u_address change)) change) \<and>
    (\<forall>x. u = Some x \<longrightarrow> view ms' (u_address x) = Some (u_rank x) \<and> u_address x = u_address change)"
proof -
  have wf: "ms_wf ms" and idx: "dget (ms_byAddress ms) (x_whoami ctx) = Some l"
    using ok loc by (auto simp: ms_ok_def)
  have addr: "m_address (deref ms l) = x_whoami ctx" using idx wf wf_index by metis
  have proc: "shouldProcessGossip (map_option (deref ms) (findMemberByAddress ms (u_address change))) change
      \<longleftrightarrow> processed (view ms (u_address change)) change"
    using processed_iff [of ms "u_address change" change] by (simp add: known_def findMemberByAddress_def)
  show ?thesis
  proof (cases "processed (view ms (u_address change)) change")
    case False
    then show ?thesis using proc ok loc by (simp add: apply_change_def gossip_step_def)
  next
    case True
    show ?thesis
    proof (cases "u_address change = x_whoami ctx")
      case self: True
      let ?m = "(deref ms l)\<lparr>m_inc := e_now env i\<rparr>"
      have eq: "apply_change ctx env i change ms =
          Inr (set_member l ?m ms, Some (new_update (e_uuid env i) ?m (Some ?m)))"
        using True proc loc self addr by (simp add: apply_change_def reincarnate_def Let_def)
      have "view (set_member l ?m ms) = (view ms)(x_whoami ctx \<mapsto> m_rank ?m)"
        by (rule view_upd [OF set_member_known [OF wf idx]])
      moreover have "view ms (x_whoami ctx) = Some (m_rank (deref ms l))"
        using idx by (simp add: view_def known_def)
      ultimately show ?thesis
        using eq True self ok loc addr
        by (simp add: gossip_step_def set_member_ok new_update_def)
    next
      case other: False
      show ?thesis
      proof (cases "dget (ms_byAddress ms) (u_address change)")
        case None
        let ?m = "new_member (x_config ctx) change"
        let ?ms = "insert_member (getJoinPosition (e_random env i) ms) ?m ms"
        have eq: "apply_change ctx env i change ms = Inr (?ms, Some change)"
          using True proc loc other addr None by (simp add: apply_change_def findMemberByAddress_def)
        have new: "dget (ms_byAddress ms) (m_address ?m) = None" using None by simp
        have "ms_ok ctx ?ms"
          using ok insert_member_wf(1) [OF wf new] ready other by (simp add: ms_ok_def dict.get_put)
        moreover have "view ?ms = (view ms)(u_address change \<mapsto> u_rank change)"
          using view_upd [OF insert_member_wf(2) [OF wf new]] by simp
        ultimately show ?thesis using eq True other loc by (simp add: gossip_step_def)
      next
        case (Some r)
        obtain m evs where m: "applyUpdate (x_config ctx) (x_whoami ctx) (e_now env i) (e_after env i)
            change (deref ms r) = (m, evs)" by (meson surj_pair)
        have fields: "m_address m = m_address (deref ms r)" "m_rank m = u_rank change"
          using applyUpdate_frame [of "x_config ctx" "x_whoami ctx" "e_now env i" "e_after env i" change "deref ms r"]
          by (simp_all add: m)
        let ?ms = "ms_emit (map (MsMember (m_address m)) evs) (set_member r m ms)"
        have eq: "apply_change ctx env i change ms = Inr (?ms, Some change)"
          using True proc loc other addr Some m by (simp add: apply_change_def findMemberByAddress_def)
        have "view (set_member r m ms) = (view ms)(u_address change \<mapsto> u_rank change)"
          using view_upd [OF set_member_known [OF wf Some]] fields(2) by simp
        then have "view ?ms = (view ms)(u_address change \<mapsto> u_rank change)" by simp
        moreover have "ms_ok ctx ?ms" using ok fields(1) by (simp add: set_member_ok)
        ultimately show ?thesis using eq True other loc by (simp add: gossip_step_def)
      qed
    qed
  qed
qed

lemma update_loop_ok:
  assumes "ms_ok ctx ms" "x_isReady ctx" "ms_local ms = Some l"
  shows "\<exists>ms' us. update_loop ctx env i changes ms = Inr (ms', us) \<and> ms_ok ctx ms' \<and>
    ms_local ms' = Some l \<and>
    view ms' = gossip_steps (x_whoami ctx) (e_now env) i changes (view ms)"
  using assms(1,3)
proof (induction changes arbitrary: i ms)
  case (Cons change changes)
  obtain ms1 u where s: "apply_change ctx env i change ms = Inr (ms1, u)" "ms_ok ctx ms1"
    "ms_local ms1 = Some l" "view ms1 = gossip_step (x_whoami ctx) (e_now env i) change (view ms)"
    using apply_change_ok [OF Cons.prems(1) assms(2) Cons.prems(2)] by blast
  show ?case using Cons.IH [OF s(2,3), of "Suc i"] s(1,4) by auto
qed simp

text \<open>\<open>update\<close> on a node that is ready: total, keeps the invariant, steps the view.\<close>

lemma ms_update_ok:
  assumes "ms_ok ctx ms" "x_isReady ctx" "ms_local ms = Some l"
  shows "\<exists>ms' us. ms_update ctx env changes ms = Inr (ms', us) \<and> ms_ok ctx ms' \<and>
    ms_local ms' = Some l \<and>
    view ms' = gossip_steps (x_whoami ctx) (e_now env) 0 changes (view ms)"
proof (cases "changes = []")
  case False
  obtain ms1 us where "update_loop ctx env 0 changes ms = Inr (ms1, us)" "ms_ok ctx ms1"
    "ms_local ms1 = Some l" "view ms1 = gossip_steps (x_whoami ctx) (e_now env) 0 changes (view ms)"
    using update_loop_ok [OF assms] by blast
  then show ?thesis using False assms(2) by (simp add: ms_update_def)
qed (use assms in \<open>simp add: ms_update_def\<close>)

end
