(* ===== verification/Membership_More.thy ===== *)
theory Membership_More
  imports Membership_Facts
begin

text \<open>
  The remaining operations of the member list keep it well-formed; what gossip does to a view;
  merging stashed changesets; the checksum string; the iterator.
\<close>

section \<open>The view under gossip\<close>

definition join_rank :: "update \<Rightarrow> (int \<times> status) option \<Rightarrow> (int \<times> status) option" where
  "join_rank u k = (if processed k u then Some (u_rank u) else k)"

abbreviation about :: "string \<Rightarrow> update list \<Rightarrow> update list" where
  "about a us \<equiv> filter (\<lambda>u. u_address u = a) us"

lemma gossip_steps_other:
  "a \<noteq> whoami \<Longrightarrow> gossip_steps whoami now i us v a = fold join_rank (about a us) (v a)"
  by (induction us arbitrary: i v) (auto simp: gossip_step_def join_rank_def)

lemma join_rank_known: "\<exists>k'. join_rank u (Some k) = Some k' \<and> (k' = k \<or> k' = u_rank u) \<and>
    rank_le k k' \<and> rank_le (u_rank u) k'"
proof (cases "rank_less k (u_rank u)")
  case True
  then show ?thesis by (simp add: join_rank_def processed_def rank_less_le)
next
  case False
  then show ?thesis by (simp add: join_rank_def processed_def rank_le_def [of "u_rank u"])
qed

text \<open>From a known member, gossip computes the greatest rank it has heard.\<close>

lemma fold_join_known:
  "\<exists>r. fold join_rank us (Some k) = Some r \<and> r \<in> insert k (u_rank ` set us) \<and>
    (\<forall>x \<in> insert k (u_rank ` set us). rank_le x r)"
proof (induction us arbitrary: k)
  case (Cons u us)
  obtain k' where k': "join_rank u (Some k) = Some k'" "k' = k \<or> k' = u_rank u"
    "rank_le k k'" "rank_le (u_rank u) k'"
    using join_rank_known by blast
  obtain r where r: "fold join_rank us (Some k') = Some r" "r \<in> insert k' (u_rank ` set us)"
    "\<forall>x \<in> insert k' (u_rank ` set us). rank_le x r"
    using Cons.IH by blast
  have "rank_le k r" "rank_le (u_rank u) r" using k'(3,4) r(3) rank_le_trans by blast+
  then show ?case using k'(1,2) r by auto
qed simp

lemma fold_join_unknown_tombstones:
  "\<forall>u \<in> set us. u_status u = Tombstone \<Longrightarrow> fold join_rank us None = None"
  by (induction us) (auto simp: join_rank_def processed_def)

lemma fold_join_set_eq:
  assumes "known_status (snd k)" "\<forall>u \<in> set us \<union> set us'. known_status (u_status u)"
    and "set us = set us'"
  shows "fold join_rank us (Some k) = fold join_rank us' (Some k)"
proof -
  obtain r where r: "fold join_rank us (Some k) = Some r" "r \<in> insert k (u_rank ` set us)"
    "\<forall>x \<in> insert k (u_rank ` set us). rank_le x r"
    using fold_join_known by blast
  obtain r' where r': "fold join_rank us' (Some k) = Some r'" "r' \<in> insert k (u_rank ` set us')"
    "\<forall>x \<in> insert k (u_rank ` set us'). rank_le x r'"
    using fold_join_known by blast
  have "rank_le r r'" "rank_le r' r" using r r' assms(3) by auto
  moreover have "known_status (snd r)" using r(2) assms(1,2) by auto
  ultimately show ?thesis using r(1) r'(1) rank_le_antisym by metis
qed

text \<open>The local member keeps its status; its incarnation number is what it was or a clock reading.\<close>

lemma gossip_steps_local:
  "v whoami = Some k \<Longrightarrow> \<exists>inc. gossip_steps whoami now i us v whoami = Some (inc, snd k) \<and>
    (inc = fst k \<or> (\<exists>j. inc = now j))"
proof (induction us arbitrary: i v k)
  case (Cons u us)
  obtain k' where k': "gossip_step whoami (now i) u v whoami = Some k'" "snd k' = snd k"
    "fst k' = fst k \<or> fst k' = now i"
  proof (cases "processed (v whoami) u \<and> u_address u = whoami")
    case True
    then show ?thesis using that [of "(now i, snd k)"] Cons.prems by (simp add: gossip_step_def)
  next
    case False
    then show ?thesis
      using that [of k] Cons.prems by (cases "u_address u = whoami") (simp_all add: gossip_step_def)
  qed
  show ?case
    using Cons.IH [where v = "gossip_step whoami (now i) u v" and k = k' and i = "Suc i"] k' by auto
next
  case Nil
  then show ?case by (cases k) auto
qed

section \<open>The local member\<close>

lemma wf_bound: "ms_wf ms \<Longrightarrow> dget (ms_byAddress ms) a = Some r \<Longrightarrow> r < length (ms_heap ms)"
  using wf_index [of ms a r] by (simp add: ms_wf_def)

lemma reincarnate_ok:
  assumes "ms_ok ctx ms" "ms_local ms = Some l"
  shows "ms_ok ctx (fst (reincarnate env i l ms))" "ms_local (fst (reincarnate env i l ms)) = Some l"
    "view (fst (reincarnate env i l ms)) =
      (view ms)(x_whoami ctx \<mapsto> (e_now env i, m_status (deref ms l)))"
proof -
  have wf: "ms_wf ms" and idx: "dget (ms_byAddress ms) (x_whoami ctx) = Some l"
    using assms by (auto simp: ms_ok_def)
  show "ms_ok ctx (fst (reincarnate env i l ms))" "ms_local (fst (reincarnate env i l ms)) = Some l"
    using assms by (simp_all add: reincarnate_def set_member_ok Let_def)
  show "view (fst (reincarnate env i l ms)) =
      (view ms)(x_whoami ctx \<mapsto> (e_now env i, m_status (deref ms l)))"
    using view_upd [OF set_member_known [OF wf idx]] by (simp add: reincarnate_def Let_def)
qed

lemma setLocalStatus_ok:
  assumes ok: "ms_ok ctx ms"
  shows "ms_ok ctx (setLocalStatus ctx env status ms) \<and>
    ms_local (setLocalStatus ctx env status ms) \<noteq> None \<and>
    view (setLocalStatus ctx env status ms) = (view ms)(x_whoami ctx \<mapsto> (e_now env 1, status))"
proof (cases "ms_local ms")
  case (Some l)
  let ?ms0 = "if status = Leave
    then ms_emit [MsLocalMemberLeave (m_address (deref ms l)) (m_status (deref ms l))] ms else ms"
  let ?m = "(deref ms l)\<lparr>m_status := status\<rparr>"
  let ?ms1 = "set_member l ?m ?ms0"
  have ms0: "ms_byAddress ?ms0 = ms_byAddress ms" "ms_wf ?ms0 = ms_wf ms" "view ?ms0 = view ms"
    "ms_ok ctx ?ms0 = ms_ok ctx ms" "ms_local ?ms0 = ms_local ms" "deref ?ms0 = deref ms"
    by simp_all
  have idx: "dget (ms_byAddress ?ms0) (x_whoami ctx) = Some l" and wf: "ms_wf ?ms0"
    unfolding ms0 using ok Some by (simp_all add: ms_ok_def)
  have ok1: "ms_ok ctx ?ms1" "ms_local ?ms1 = Some l"
    using set_member_ok [of ctx ?ms0 ?m l] ok Some ms0 by simp_all
  have v1: "view ?ms1 = (view ms)(x_whoami ctx \<mapsto> m_rank ?m)"
    using view_upd [OF set_member_known [OF wf idx, of ?m]] unfolding ms0 .
  have l: "l < length (ms_heap ms)" using wf idx unfolding ms0 by (rule wf_bound)
  have "m_status (deref ?ms1 l) = status"
    using l by (simp add: deref_def set_member_def)
  with reincarnate_ok [OF ok1, of env 1] v1 show ?thesis
    using Some by (auto simp: setLocalStatus_def postLocalUpdate_def Let_def split: prod.splits)
next
  case None
  let ?u = "\<lparr>u_id = Some (e_uuid env 0), u_address = x_whoami ctx, u_status = status,
    u_inc = e_now env 0, u_source = None, u_sourceInc = None, u_dampScore = None, u_tombstone = False\<rparr>"
  let ?m = "new_member (x_config ctx) ?u"
  let ?l = "length (ms_heap ms)"
  let ?ms1 = "(push_member ?m ms)\<lparr>ms_local := Some ?l\<rparr>"
  have wf: "ms_wf ms" and new: "dget (ms_byAddress ms) (m_address ?m) = None"
    using ok None by (auto simp: ms_ok_def)
  have "known ?ms1 = (known ms)(x_whoami ctx \<mapsto> ?m)"
    using insert_member_wf(2) [OF wf new] by (simp add: push_member_def)
  from view_upd [OF this] have v1: "view ?ms1 = (view ms)(x_whoami ctx \<mapsto> m_rank ?m)" .
  have ok1: "ms_ok ctx ?ms1"
    using ok None insert_member_wf(1) [OF wf new]
    by (auto simp: ms_ok_def push_member_def dict.get_put)
  have "m_status (deref ?ms1 ?l) = status"
    by (simp add: deref_def push_member_def nth_append)
  with reincarnate_ok [OF ok1, of ?l env 1] v1 show ?thesis
    using None by (auto simp: setLocalStatus_def postLocalUpdate_def Let_def split: prod.splits)
qed

section \<open>Removing, shuffling, decaying\<close>

lemma removeMember_ok:
  assumes "ms_ok ctx ms" "address \<noteq> x_whoami ctx"
  shows "ms_ok ctx (removeMember ctx address ms) \<and> ms_local (removeMember ctx address ms) = ms_local ms \<and>
    view (removeMember ctx address ms) = (view ms)(address := None)"
proof (cases "dget (ms_byAddress ms) address")
  case None
  then show ?thesis using assms by (auto simp: removeMember_def view_def known_def)
next
  case (Some r)
  let ?ms = "ms\<lparr>ms_byAddress := ddel address (ms_byAddress ms),
    ms_members := filter (\<lambda>x. x \<noteq> r) (ms_members ms)\<rparr>"
  have wf: "ms_wf ms" using assms by (simp add: ms_ok_def)
  have r: "r \<in> set (ms_members ms)" "m_address (deref ms r) = address" using Some wf wf_index by metis+
  have deref: "deref ?ms = deref ms" by (simp add: deref_def [abs_def])
  have "dget (ms_byAddress ?ms) a = Some x \<longleftrightarrow> x \<in> set (ms_members ?ms) \<and> m_address (deref ?ms x) = a" for a x
    using wf_index [OF wf, of a x] wf_same_address [OF wf _ r(1), of x] r
    by (auto simp: dict.get_del deref)
  moreover have "distinct (dkeys (ms_byAddress ?ms))"
    using wf dict.ok_del [of "ms_byAddress ms" address] by (simp add: ms_wf_def)
  ultimately have "ms_wf ?ms" using wf by (simp add: ms_wf_def)
  moreover have "view ?ms = (view ms)(address := None)"
    by (auto simp: view_def known_def dict.get_del deref)
  ultimately show ?thesis
    using Some assms by (auto simp: removeMember_def ms_ok_def dict.get_del)
qed

lemma evict_ok:
  assumes ok: "ms_ok ctx ms" and loc: "ms_local ms = Some l"
  shows "\<exists>ms'. evict ctx address ms = Inr ms' \<and> ms_ok ctx ms' \<and> ms_local ms' = Some l \<and>
    view ms' = (if address = x_whoami ctx then view ms else (view ms)(address := None))"
proof -
  have "m_address (deref ms l) = x_whoami ctx"
    using ok loc wf_index by (fastforce simp: ms_ok_def)
  then show ?thesis using removeMember_ok [OF ok, of address] ok loc by (auto simp: evict_def)
qed

lemma shuffle_ok [preserves]:
  assumes "ms_ok ctx ms" "mset (shuffle (ms_members ms)) = mset (ms_members ms)"
  shows "ms_ok ctx (ms_shuffle shuffle ms) \<and> known (ms_shuffle shuffle ms) = known ms"
proof -
  have "set (shuffle (ms_members ms)) = set (ms_members ms)"
    "distinct (shuffle (ms_members ms)) \<longleftrightarrow> distinct (ms_members ms)"
    using assms(2) by (metis set_mset_mset, metis mset_eq_imp_distinct_iff)
  then show ?thesis
    using assms(1) by (auto simp: ms_ok_def ms_wf_def ms_shuffle_def deref_def [abs_def] known_def [abs_def])
qed

lemma decay_loop_ok:
  assumes "ms_ok ctx ms" "set rs \<subseteq> set (ms_members ms)"
  shows "ms_ok ctx (decay_loop cfg env i rs ms) \<and> view (decay_loop cfg env i rs ms) = view ms"
  using assms
proof (induction rs arbitrary: i ms)
  case (Cons r rs)
  obtain m evs where m: "decayDampScore cfg (e_now env i) (deref ms r) = (m, evs)" by (meson surj_pair)
  have fields: "m_address m = m_address (deref ms r)" "m_rank m = m_rank (deref ms r)"
    using decayDampScore_frame [of cfg "e_now env i" "deref ms r"] by (simp_all add: m)
  have wf: "ms_wf ms" using Cons.prems by (simp add: ms_ok_def)
  have idx: "dget (ms_byAddress ms) (m_address (deref ms r)) = Some r"
    using Cons.prems(2) wf_index [OF wf] by simp
  have "view (set_member r m ms) = (view ms)(m_address (deref ms r) \<mapsto> m_rank m)"
    by (rule view_upd [OF set_member_known [OF wf idx]])
  also have "\<dots> = view ms" using idx fields(2) by (auto simp: view_def known_def)
  finally have "view (set_member r m ms) = view ms" .
  then show ?case
    using Cons.IH [of "ms_emit (map (MsMember (m_address m)) evs) (set_member r m ms)" "Suc i"]
      Cons.prems fields(1) by (simp add: m set_member_ok)
qed simp


section \<open>Merging changesets\<close>

lemma fold_concat_merge:
  "fold (\<lambda>changes index. fold (merge_change whoami) changes index) css d =
    fold (merge_change whoami) (concat css) d"
  by (induction css arbitrary: d) auto

definition merge_ok :: "string \<Rightarrow> update set \<Rightarrow> update dict \<Rightarrow> bool" where
  "merge_ok whoami U d \<longleftrightarrow> distinct (dkeys d) \<and>
     (\<forall>(a, u) \<in> set d. u_address u = a \<and> a \<noteq> whoami \<and> u \<in> U) \<and>
     (\<forall>u \<in> U. u_address u \<noteq> whoami \<longrightarrow>
        (\<exists>w. dget d (u_address u) = Some w \<and> u_inc u \<le> u_inc w))"

lemma merge_change_ok:
  assumes "merge_ok whoami U d"
  shows "merge_ok whoami (insert u U) (merge_change whoami u d)"
proof -
  let ?d = "dset (u_address u) u d"
  have upd: "merge_ok whoami (insert u U) ?d"
    if "u_address u \<noteq> whoami" "\<forall>w. dget d (u_address u) = Some w \<longrightarrow> u_inc w \<le> u_inc u"
  proof -
    have "distinct (dkeys ?d)" using assms by (intro dict.ok_put) (simp add: merge_ok_def)
    moreover have "set ?d \<subseteq> insert (u_address u, u) (set d)" by (induction d) auto
    moreover have "\<exists>w. dget ?d (u_address x) = Some w \<and> u_inc x \<le> u_inc w"
      if "x \<in> insert u U" "u_address x \<noteq> whoami" for x
      using that \<open>\<forall>w. dget d (u_address u) = Some w \<longrightarrow> u_inc w \<le> u_inc u\<close> assms
      by (fastforce simp: merge_ok_def dict.get_put intro: order_trans)
    ultimately show ?thesis using assms that(1) by (fastforce simp: merge_ok_def)
  qed
  have keep: "merge_ok whoami (insert u U) d"
    if "u_address u = whoami \<or> (\<exists>w. dget d (u_address u) = Some w \<and> u_inc u \<le> u_inc w)"
    using assms that by (fastforce simp: merge_ok_def)
  show ?thesis
    using upd keep by (auto simp: merge_change_def split: option.splits)
qed

lemma merge_changes_ok:
  "merge_ok whoami U d \<Longrightarrow> merge_ok whoami (U \<union> set us) (fold (merge_change whoami) us d)"
proof (induction us arbitrary: U d)
  case (Cons u us)
  show ?case using Cons.IH [OF merge_change_ok [OF Cons.prems]] by simp
qed simp

lemma mergeMembershipChangesets_ok:
  fixes changesets :: "update list list" and whoami :: string
  defines "us \<equiv> mergeMembershipChangesets whoami changesets"
  shows "distinct (map u_address us)" "set us \<subseteq> set (concat changesets)"
    "\<forall>u \<in> set us. u_address u \<noteq> whoami"
    "\<forall>u \<in> set (concat changesets). u_address u \<noteq> whoami \<longrightarrow>
      (\<exists>w \<in> set us. u_address w = u_address u \<and> u_inc u \<le> u_inc w)"
proof -
  let ?d = "fold (merge_change whoami) (concat changesets) []"
  have ok: "merge_ok whoami (set (concat changesets)) ?d"
  proof -
    have "merge_ok whoami {} []" by (simp add: merge_ok_def)
    from merge_changes_ok [OF this, of "concat changesets"] show ?thesis by simp
  qed
  have us: "us = map snd ?d" by (simp only: us_def mergeMembershipChangesets_def fold_concat_merge)
  have "map u_address us = dkeys ?d" unfolding us using ok by (auto simp: merge_ok_def)
  then show "distinct (map u_address us)" using ok by (simp add: merge_ok_def)
  show "set us \<subseteq> set (concat changesets)" "\<forall>u \<in> set us. u_address u \<noteq> whoami"
    unfolding us using ok by (auto simp: merge_ok_def)
  show "\<forall>u \<in> set (concat changesets). u_address u \<noteq> whoami \<longrightarrow>
      (\<exists>w \<in> set us. u_address w = u_address u \<and> u_inc u \<le> u_inc w)"
  proof (intro ballI impI)
    fix u assume "u \<in> set (concat changesets)" "u_address u \<noteq> whoami"
    then obtain w where w: "dget ?d (u_address u) = Some w" "u_inc u \<le> u_inc w"
      using ok unfolding merge_ok_def by blast
    then have mem: "(u_address u, w) \<in> set ?d" by (meson map_of_SomeD)
    then have "u_address w = u_address u" using ok unfolding merge_ok_def by fast
    then show "\<exists>w \<in> set us. u_address w = u_address u \<and> u_inc u \<le> u_inc w"
      unfolding us using mem w(2) by force
  qed
qed

section \<open>Setting the stashed updates\<close>

lemma push_member_ok:
  assumes "ms_wf ms" "dget (ms_byAddress ms) (m_address m) = None"
  shows "ms_wf (push_member m ms)" "known (push_member m ms) = (known ms)(m_address m \<mapsto> m)"
  using insert_member_wf [OF assms] by (simp_all add: push_member_def)

definition set_view :: "update list \<Rightarrow> (string \<Rightarrow> (int \<times> status) option) \<Rightarrow> string \<Rightarrow>
    (int \<times> status) option" where
  "set_view us v a =
     (case find (\<lambda>u. u_address u = a \<and> u_status u \<noteq> Tombstone) us of
        None \<Rightarrow> v a | Some u \<Rightarrow> Some (u_rank u))"

lemma set_loop_ok:
  assumes "ms_wf ms" "distinct (map u_address us)"
    "\<forall>u \<in> set us. dget (ms_byAddress ms) (u_address u) = None"
  shows "ms_wf (set_loop cfg us ms) \<and> view (set_loop cfg us ms) = set_view us (view ms) \<and>
    ms_local (set_loop cfg us ms) = ms_local ms \<and>
    (\<forall>a. a \<notin> u_address ` set us \<longrightarrow>
      dget (ms_byAddress (set_loop cfg us ms)) a = dget (ms_byAddress ms) a)"
  using assms
proof (induction us arbitrary: ms)
  case (Cons u us)
  show ?case
  proof (cases "u_status u = Tombstone")
    case True
    then show ?thesis using Cons.IH [OF Cons.prems(1)] Cons.prems
      by (auto simp: set_view_def [abs_def])
  next
    case False
    let ?m = "new_member cfg u" and ?ms = "push_member (new_member cfg u) ms"
    have new: "dget (ms_byAddress ms) (m_address ?m) = None" using Cons.prems by simp
    note push = push_member_ok [OF Cons.prems(1) new]
    have fresh: "\<forall>w \<in> set us. dget (ms_byAddress ?ms) (u_address w) = None"
    proof
      fix w assume w: "w \<in> set us"
      then have "u_address w \<in> u_address ` set us" by (rule imageI)
      then have "u_address w \<noteq> u_address u" using Cons.prems(2) by auto
      then show "dget (ms_byAddress ?ms) (u_address w) = None"
        using w Cons.prems(3) by (simp add: push_member_def dict.get_put)
    qed
    have "find (\<lambda>w. u_address w = u_address u \<and> u_status w \<noteq> Tombstone) us = None"
      using Cons.prems(2) by (force simp: find_None_iff image_iff)
    moreover have "view ?ms = (view ms)(u_address u \<mapsto> u_rank u)" using view_upd [OF push(2)] by simp
    ultimately have "set_view us (view ?ms) = set_view (u # us) (view ms)"
      using False by (auto simp: set_view_def fun_eq_iff split: option.splits)
    then show ?thesis
      using Cons.IH [OF push(1) _ fresh] Cons.prems(2) False
      by (auto simp: push_member_def dict.get_put)
  qed
qed (simp add: set_view_def [abs_def])

lemma ms_set_ok:
  assumes ok: "ms_ok ctx ms" and nr: "\<not> x_isReady ctx" and st: "ms_stashed ms = Some st" "st \<noteq> []"
  shows "ms_ok ctx (ms_set ctx ms) \<and> ms_stashed (ms_set ctx ms) = None \<and>
    ms_local (ms_set ctx ms) = ms_local ms \<and>
    view (ms_set ctx ms) = set_view (mergeMembershipChangesets (x_whoami ctx) st) (view ms)"
proof -
  let ?us = "mergeMembershipChangesets (x_whoami ctx) st"
  have wf: "ms_wf ms" using ok by (simp add: ms_ok_def)
  note merged = mergeMembershipChangesets_ok [where whoami = "x_whoami ctx" and changesets = st]
  have fresh: "\<forall>u \<in> set ?us. dget (ms_byAddress ms) (u_address u) = None"
  proof
    fix u assume u: "u \<in> set ?us"
    show "dget (ms_byAddress ms) (u_address u) = None"
    proof (rule ccontr)
      assume "dget (ms_byAddress ms) (u_address u) \<noteq> None"
      then obtain r where r: "dget (ms_byAddress ms) (u_address u) = Some r" by blast
      then have "r \<in> set (ms_members ms)" "m_address (deref ms r) = u_address u"
        using wf_index [OF wf] by auto
      moreover have "dget (ms_byAddress ms) (x_whoami ctx) = Some r"
        using ok nr st(1) calculation(1) by (auto simp: ms_ok_def)
      ultimately have "u_address u = x_whoami ctx" using wf_index [OF wf] by metis
      then show False using merged(3) u by blast
    qed
  qed
  note loop = set_loop_ok [OF wf merged(1) fresh, of "x_config ctx"]
  have "x_whoami ctx \<notin> u_address ` set ?us" using merged(3) by force
  then have idx: "dget (ms_byAddress (set_loop (x_config ctx) ?us ms)) (x_whoami ctx) = ms_local ms"
    using loop ok by (simp add: ms_ok_def)
  have "view ((set_loop (x_config ctx) ?us ms)\<lparr>ms_stashed := None\<rparr>) = set_view ?us (view ms)"
    using loop by (simp add: view_def [abs_def])
  moreover have "ms_ok ctx ((set_loop (x_config ctx) ?us ms)\<lparr>ms_stashed := None\<rparr>)"
    using loop idx by (simp add: ms_ok_def)
  ultimately show ?thesis using nr st loop by (simp add: ms_set_def Let_def)
qed

end
