(* ===== verification/Membership_Choose.thy ===== *)
theory Membership_Choose
  imports Membership_More
begin

text \<open>
  The checksum string depends only on the view without its tombstones, and the iterator ends and
  returns a pingable member exactly when there is one.
\<close>

section \<open>The checksum string\<close>

definition live :: "membership \<Rightarrow> (string \<times> int \<times> status) set" where
  "live ms = {(a, i, s). view ms a = Some (i, s) \<and> s \<noteq> Tombstone}"

abbreviation triple :: "member \<Rightarrow> string \<times> int \<times> status" where
  "triple m \<equiv> (m_address m, m_rank m)"

definition triple_string :: "string \<times> int \<times> status \<Rightarrow> string" where
  "triple_string t = (case t of (a, i, s) \<Rightarrow> a @ status_name s @ show_int i @ '';'')"

lemma member_string_triple: "member_string = triple_string \<circ> triple"
  by (rule ext) (simp add: member_string_def triple_string_def)

definition live_list :: "membership \<Rightarrow> (string \<times> int \<times> status) list" where
  "live_list ms =
     filter (\<lambda>t. snd (snd t) \<noteq> Tombstone) (map (\<lambda>r. triple (deref ms r)) (ms_members ms))"

lemma live_list_facts:
  assumes "ms_wf ms"
  shows "set (live_list ms) = live ms" "distinct (map fst (live_list ms))"
proof -
  have "view ms a = Some (i, s) \<longleftrightarrow> (\<exists>r \<in> set (ms_members ms). triple (deref ms r) = (a, i, s))" for a i s
    using wf_index [OF assms, of a] by (auto simp: view_def known_def)
  then show "set (live_list ms) = live ms" by (force simp: live_list_def live_def)
  have "distinct (map fst (map (\<lambda>r. triple (deref ms r)) (ms_members ms)))"
    using wf_distinct_addresses [OF assms] by (simp add: comp_def)
  then show "distinct (map fst (live_list ms))"
    unfolding live_list_def by (simp add: distinct_map_filter del: map_map)
qed

lemma map_insort_key: "map f (insort_key (\<lambda>a. g (f a)) x xs) = insort_key g (f x) (map f xs)"
  by (induction xs) auto

lemma map_sort_key: "map f (sort_key (\<lambda>a. g (f a)) xs) = sort_key g (map f xs)"
  by (induction xs) (simp_all add: map_insort_key)

lemma checksum_string_live:
  "generateChecksumString ms = butlast (concat (map triple_string (sort_key fst (live_list ms))))"
proof -
  let ?ms = "map (deref ms) (ms_members ms)"
  have t: "m_address = (\<lambda>m. fst (triple m))" by auto
  have "sort_key fst (live_list ms) =
      filter (\<lambda>t. snd (snd t) \<noteq> Tombstone) (sort_key fst (map triple ?ms))"
    by (simp add: live_list_def filter_sort comp_def)
  also have "\<dots> = filter (\<lambda>t. snd (snd t) \<noteq> Tombstone) (map triple (sort_key m_address ?ms))"
    by (subst t, subst map_sort_key) simp
  also have "\<dots> = map triple (filter (\<lambda>m. m_status m \<noteq> Tombstone) (sort_key m_address ?ms))"
    by (simp add: filter_map comp_def)
  finally show ?thesis
    by (simp only: generateChecksumString_def Let_def member_string_triple map_map)
qed

lemma checksum_string_cong:
  assumes "ms_wf ms" "ms_wf ms'" "live ms = live ms'"
  shows "generateChecksumString ms = generateChecksumString ms'"
proof -
  have "distinct (live_list ms)" "distinct (live_list ms')"
    using live_list_facts [OF assms(1)] live_list_facts [OF assms(2)] distinct_map by blast+
  then have "mset (live_list ms) = mset (live_list ms')"
    using live_list_facts(1) [OF assms(1)] live_list_facts(1) [OF assms(2)] assms(3)
    by (metis set_eq_iff_mset_eq_distinct)
  then have "sort_key fst (live_list ms) = sort_key fst (live_list ms')"
    by (rule sort_key_perm_eq) (rule live_list_facts(2) [OF assms(1)])
  then show ?thesis by (simp add: checksum_string_live)
qed

section \<open>The iterator\<close>

text \<open>
  What a step of the loop needs: the members are those of the start, the addresses visited are those
  of members that cannot be pinged, and after the index wrapped, everything up to it was visited.
\<close>

definition visited_ok :: "node_ctx \<Rightarrow> bool dict \<Rightarrow> membership \<Rightarrow> bool" where
  "visited_ok ctx vis ms \<longleftrightarrow> distinct (dkeys vis) \<and>
     set (dkeys vis) \<subseteq>
       (\<lambda>r. m_address (deref ms r)) ` {r \<in> set (ms_members ms). \<not> isPingable ctx (deref ms r)}"

definition mi_result :: "node_ctx \<Rightarrow> membership \<Rightarrow> nat option \<times> ms_iter \<times> membership \<Rightarrow> bool" where
  "mi_result ctx ms res \<longleftrightarrow>
     (case res of (r, it, ms') \<Rightarrow>
        mset (ms_members ms') = mset (ms_members ms) \<and> ms_heap ms' = ms_heap ms \<and>
        (case r of
           None \<Rightarrow> \<forall>r \<in> set (ms_members ms). \<not> isPingable ctx (deref ms r)
         | Some r \<Rightarrow> r \<in> set (ms_members ms) \<and> isPingable ctx (deref ms r)))"

lemma address_card:
  assumes "ms_wf ms"
  shows "card ((\<lambda>r. m_address (deref ms r)) ` set (ms_members ms)) = length (ms_members ms)"
  using distinct_card [OF wf_distinct_addresses [OF assms]] by simp

lemma visited_card:
  assumes "ms_wf ms" "visited_ok ctx vis ms"
  shows "length (dkeys vis) \<le> length (ms_members ms)"
    and "length (dkeys vis) \<ge> length (ms_members ms) \<Longrightarrow>
      \<forall>r \<in> set (ms_members ms). \<not> isPingable ctx (deref ms r)"
proof -
  let ?A = "(\<lambda>r. m_address (deref ms r)) ` set (ms_members ms)"
  have sub: "set (dkeys vis) \<subseteq> ?A" and d: "distinct (dkeys vis)"
    using assms(2) unfolding visited_ok_def by blast+
  note cA = address_card [OF assms(1)]
  have cV: "card (set (dkeys vis)) = length (dkeys vis)" using d by (rule distinct_card)
  show "length (dkeys vis) \<le> length (ms_members ms)"
    using card_mono [OF _ sub] cA cV by simp
  assume "length (dkeys vis) \<ge> length (ms_members ms)"
  then have "card ?A \<le> card (set (dkeys vis))" using cA cV by simp
  then have eq: "set (dkeys vis) = ?A" using sub by (intro card_seteq) auto
  show "\<forall>r \<in> set (ms_members ms). \<not> isPingable ctx (deref ms r)"
  proof
    fix r assume r: "r \<in> set (ms_members ms)"
    then have "m_address (deref ms r) \<in> set (dkeys vis)" unfolding eq by (rule imageI)
    then have "m_address (deref ms r) \<in> (\<lambda>r. m_address (deref ms r)) `
        {r \<in> set (ms_members ms). \<not> isPingable ctx (deref ms r)}"
      using assms(2) unfolding visited_ok_def by (meson subsetD)
    then obtain r' where "r' \<in> set (ms_members ms)" "m_address (deref ms r') = m_address (deref ms r)"
      "\<not> isPingable ctx (deref ms r')" by (elim imageE) auto
    then show "\<not> isPingable ctx (deref ms r)" using wf_same_address [OF assms(1)] r by metis
  qed
qed

lemma visit_ok:
  assumes "visited_ok ctx vis ms" "r \<in> set (ms_members ms)" "\<not> isPingable ctx (deref ms r)"
  shows "visited_ok ctx (dset (m_address (deref ms r)) True vis) ms"
  using assms dict.ok_put [of vis "m_address (deref ms r)" True]
  unfolding visited_ok_def dict.keys_put by blast

text \<open>On the second lap, after the wrap, the loop ends before the index passes the end again.\<close>

lemma mi_loop_lap2:
  assumes "ms_wf ms" "visited_ok ctx vis ms" "0 \<le> mi_currentIndex it"
    and "mi_currentIndex it < int (length (ms_members ms))"
    and "\<forall>j \<le> nat (mi_currentIndex it). m_address (deref ms (ms_members ms ! j)) \<in> set (dkeys vis)"
  shows "\<exists>res. mi_loop shuffle ctx (length (ms_members ms)) vis it ms = Some res \<and> mi_result ctx ms res"
  using assms
proof (induction "length (ms_members ms) - nat (mi_currentIndex it)" arbitrary: vis it rule: less_induct)
  case less
  let ?n = "length (ms_members ms)"
  show ?case
  proof (cases "length (dkeys vis) < ?n")
    case False
    then have "\<forall>r \<in> set (ms_members ms). \<not> isPingable ctx (deref ms r)"
      using visited_card(2) [OF less.prems(1,2)] by simp
    then show ?thesis using False by (subst mi_loop.simps) (simp add: mi_result_def)
  next
    case True
    let ?i = "mi_currentIndex it"
    have inner: "?i + 1 < int ?n"
    proof (rule ccontr)
      assume "\<not> ?i + 1 < int ?n"
      then have "\<forall>j < ?n. m_address (deref ms (ms_members ms ! j)) \<in> set (dkeys vis)"
        using less.prems(5) by auto
      then have sub: "(\<lambda>r. m_address (deref ms r)) ` set (ms_members ms) \<subseteq> set (dkeys vis)"
        by (metis (no_types, lifting) image_subsetI in_set_conv_nth)
      have "length (ms_members ms) \<le> card (set (dkeys vis))"
        using card_mono [OF _ sub] unfolding address_card [OF less.prems(1)] by blast
      then show False using True card_length [of "dkeys vis"] by linarith
    qed
    let ?it = "it\<lparr>mi_currentIndex := ?i + 1\<rparr>"
    let ?r = "ms_members ms ! nat (?i + 1)"
    have r: "?r \<in> set (ms_members ms)" using inner less.prems(3) by simp
    have unf: "mi_loop shuffle ctx ?n vis it ms =
        (if isPingable ctx (deref ms ?r) then Some (Some ?r, ?it, ms)
         else mi_loop shuffle ctx ?n (dset (m_address (deref ms ?r)) True vis) ?it ms)"
      using True inner by (subst mi_loop.simps) (simp add: Let_def getMemberCount_def)
    show ?thesis
    proof (cases "isPingable ctx (deref ms ?r)")
      case True
      then show ?thesis using unf r by (simp add: mi_result_def)
    next
      case False
      have "\<forall>j \<le> nat (mi_currentIndex ?it). m_address (deref ms (ms_members ms ! j))
          \<in> set (dkeys (dset (m_address (deref ms ?r)) True vis))"
      proof (intro allI impI)
        fix j assume "j \<le> nat (mi_currentIndex ?it)"
        then have "j \<le> nat ?i \<or> j = nat (?i + 1)" using less.prems(3) by auto
        then show "m_address (deref ms (ms_members ms ! j))
            \<in> set (dkeys (dset (m_address (deref ms ?r)) True vis))"
          unfolding dict.keys_put using less.prems(5) by blast
      qed
      moreover have "?n - nat (mi_currentIndex ?it) < ?n - nat ?i" using inner less.prems(3) by simp
      ultimately show ?thesis
        using less.hyps [of ?it, OF _ less.prems(1) visit_ok [OF less.prems(2) r False]] unf False
          inner less.prems(3) by simp
    qed
  qed
qed


text \<open>On the first lap the index runs to the end, where the list is shuffled.\<close>

lemma shuffled:
  assumes "mset (shuffle (ms_members ms)) = mset (ms_members ms)"
  shows "set (shuffle (ms_members ms)) = set (ms_members ms)"
    "length (shuffle (ms_members ms)) = length (ms_members ms)"
    "deref (ms_shuffle shuffle ms) = deref ms" "ms_members (ms_shuffle shuffle ms) = shuffle (ms_members ms)"
    "ms_heap (ms_shuffle shuffle ms) = ms_heap ms"
    "ms_wf ms \<Longrightarrow> ms_wf (ms_shuffle shuffle ms)"
    "visited_ok ctx vis (ms_shuffle shuffle ms) = visited_ok ctx vis ms"
proof -
  show s: "set (shuffle (ms_members ms)) = set (ms_members ms)" using assms by (metis set_mset_mset)
  show "length (shuffle (ms_members ms)) = length (ms_members ms)" using assms by (metis size_mset)
  show d: "deref (ms_shuffle shuffle ms) = deref ms" by (simp add: ms_shuffle_def deref_def [abs_def])
  show "ms_members (ms_shuffle shuffle ms) = shuffle (ms_members ms)"
    "ms_heap (ms_shuffle shuffle ms) = ms_heap ms" by (simp_all add: ms_shuffle_def)
  have "distinct (shuffle (ms_members ms)) \<longleftrightarrow> distinct (ms_members ms)"
    using assms by (rule mset_eq_imp_distinct_iff)
  then show "ms_wf ms \<Longrightarrow> ms_wf (ms_shuffle shuffle ms)"
    using s by (simp add: ms_wf_def ms_shuffle_def deref_def)
  show "visited_ok ctx vis (ms_shuffle shuffle ms) = visited_ok ctx vis ms"
    using s d by (simp add: visited_ok_def ms_shuffle_def)
qed

lemma mi_loop_lap1:
  assumes "ms_wf ms" "visited_ok ctx vis ms" "-1 \<le> mi_currentIndex it"
    and shuffle: "\<And>k xs. mset (shuffle k xs) = mset xs"
  shows "\<exists>res. mi_loop shuffle ctx (length (ms_members ms)) vis it ms = Some res \<and> mi_result ctx ms res"
  using assms(2,3)
proof (induction "nat (int (length (ms_members ms)) - mi_currentIndex it)" arbitrary: vis it rule: less_induct)
  case less
  let ?n = "length (ms_members ms)"
  let ?i = "mi_currentIndex it"
  show ?case
  proof (cases "length (dkeys vis) < ?n")
    case False
    then have "\<forall>r \<in> set (ms_members ms). \<not> isPingable ctx (deref ms r)"
      using visited_card(2) [OF assms(1) less.prems(1)] by simp
    then show ?thesis using False by (subst mi_loop.simps) (simp add: mi_result_def)
  next
    case True
    show ?thesis
    proof (cases "?i + 1 < int ?n")
      case inner: True
      let ?it = "it\<lparr>mi_currentIndex := ?i + 1\<rparr>"
      let ?r = "ms_members ms ! nat (?i + 1)"
      have r: "?r \<in> set (ms_members ms)" using inner less.prems(2) by simp
      have unf: "mi_loop shuffle ctx ?n vis it ms =
          (if isPingable ctx (deref ms ?r) then Some (Some ?r, ?it, ms)
           else mi_loop shuffle ctx ?n (dset (m_address (deref ms ?r)) True vis) ?it ms)"
        using True inner by (subst mi_loop.simps) (simp add: Let_def getMemberCount_def)
      show ?thesis
      proof (cases "isPingable ctx (deref ms ?r)")
        case True
        then show ?thesis using unf r by (simp add: mi_result_def)
      next
        case False
        then show ?thesis
          using less.hyps [of ?it, OF _ visit_ok [OF less.prems(1) r False]] unf inner less.prems(2)
          by simp
      qed
    next
      case wrap: False
      let ?sh = "shuffle (mi_currentRound it + 1)"
      let ?ms = "ms_shuffle ?sh ms"
      let ?it = "\<lparr>mi_currentIndex = 0, mi_currentRound = mi_currentRound it + 1\<rparr>"
      let ?r = "?sh (ms_members ms) ! 0"
      note sh = shuffled [of ?sh ms, OF shuffle]
      have n: "0 < ?n" using True by linarith
      then have r: "?r \<in> set (ms_members ms)" using sh(1,2) by (metis nth_mem)
      have unf: "mi_loop shuffle ctx ?n vis it ms =
          (if isPingable ctx (deref ms ?r) then Some (Some ?r, ?it, ?ms)
           else mi_loop shuffle ctx ?n (dset (m_address (deref ms ?r)) True vis) ?it ?ms)"
        using True wrap sh(3,4) by (subst mi_loop.simps) (simp add: Let_def getMemberCount_def)
      have heap: "ms_heap ?ms = ms_heap ms" by (rule sh(5))
      show ?thesis
      proof (cases "isPingable ctx (deref ms ?r)")
        case True
        then show ?thesis using unf r shuffle heap sh(4) by (simp add: mi_result_def)
      next
        case False
        let ?vis = "dset (m_address (deref ms ?r)) True vis"
        have v: "visited_ok ctx ?vis ?ms" using visit_ok [OF less.prems(1) r False] sh(7) by blast
        have "\<exists>res. mi_loop shuffle ctx (length (ms_members ?ms)) ?vis ?it ?ms = Some res \<and>
            mi_result ctx ?ms res"
          by (rule mi_loop_lap2 [OF sh(6) [OF assms(1)] v])
            (use n sh(2,3,4) in \<open>simp_all add: dict.keys_put [simplified]\<close>)
        then obtain res where res: "mi_loop shuffle ctx ?n ?vis ?it ?ms = Some res" "mi_result ctx ?ms res"
          using sh(2,4) by auto
        have "mi_result ctx ms res"
          using res(2) sh(1,3,4) heap shuffle by (simp add: mi_result_def split: prod.splits option.splits)
        then show ?thesis using unf False res(1) by simp
      qed
    qed
  qed
qed

lemma mi_next_ok:
  assumes "ms_wf ms" "-1 \<le> mi_currentIndex it" "\<And>k xs. mset (shuffle k xs) = mset xs"
  shows "\<exists>res. mi_next shuffle ctx it ms = Some res \<and> mi_result ctx ms res"
proof -
  have "visited_ok ctx [] ms" by (simp add: visited_ok_def)
  from mi_loop_lap1 [OF assms(1) this assms(2,3)] show ?thesis
    by (simp add: mi_next_def getMemberCount_def)
qed

end
