(* ===== verification/Membership_Properties.thy ===== *)
theory Membership_Properties
  imports Membership_Choose
begin

text \<open>
  The properties of the member list: which states a node can reach and that they are well-formed,
  that gossip makes nodes agree, what the local member and tombstones are protected from, the
  checksum, the stashed updates, the iterator and the damp score. The witnesses use a node that knows
  one other member.
\<close>

section \<open>Reachable states\<close>

text \<open>
  A node is not ready, then ready; the operations of the member list happen in any order, with any
  arguments, oracle and shuffle. A node becomes ready once it has a local member (\<open>bootstrap\<close> makes
  the local member alive before it joins).
\<close>

abbreviation ready :: "node_ctx \<Rightarrow> bool \<Rightarrow> node_ctx" where
  "ready ctx b \<equiv> ctx\<lparr>x_isReady := b\<rparr>"

inductive ms_reachable :: "node_ctx \<Rightarrow> bool \<Rightarrow> membership \<Rightarrow> bool" for ctx where
  start: "ms_reachable ctx False new_membership"
| become_ready: "ms_reachable ctx b ms \<Longrightarrow> ms_local ms \<noteq> None \<Longrightarrow> ms_reachable ctx True ms"
| local_status: "ms_reachable ctx b ms \<Longrightarrow> ms_reachable ctx b (setLocalStatus (ready ctx b) env status ms)"
| update: "ms_reachable ctx b ms \<Longrightarrow> ms_update (ready ctx b) env changes ms = Inr (ms', updates) \<Longrightarrow>
    ms_reachable ctx b ms'"
| make_change: "ms_reachable ctx b ms \<Longrightarrow>
    makeChange (ready ctx b) env address inc status ms = Inr (ms', updates) \<Longrightarrow> ms_reachable ctx b ms'"
| set_stashed: "ms_reachable ctx b ms \<Longrightarrow> ms_reachable ctx b (ms_set (ready ctx b) ms)"
| evict: "ms_reachable ctx b ms \<Longrightarrow> Membership.evict (ready ctx b) address ms = Inr ms' \<Longrightarrow>
    ms_reachable ctx b ms'"
| shuffle: "ms_reachable ctx b ms \<Longrightarrow> mset (shuffle (ms_members ms)) = mset (ms_members ms) \<Longrightarrow>
    ms_reachable ctx b (ms_shuffle shuffle ms)"
| decay: "ms_reachable ctx b ms \<Longrightarrow> ms_reachable ctx b (onDecayTimeout (ready ctx b) env ms)"
| start_decay: "ms_reachable ctx b ms \<Longrightarrow> ms_reachable ctx b (startDampScoreDecayer (ready ctx b) ms)"
| stop_decay: "ms_reachable ctx b ms \<Longrightarrow> ms_reachable ctx b (stopDampScoreDecayer ms)"

inductive_cases ms_reachableE: "ms_reachable ctx b ms"

lemma ms_ok_ready: "ms_ok (ready ctx b) ms \<Longrightarrow> ms_ok (ready ctx True) ms"
  by (simp add: ms_ok_def)

lemma ms_ok_timer [simp]: "ms_ok ctx (ms\<lparr>ms_decayTimer := x\<rparr>) = ms_ok ctx ms"
  by (simp add: ms_ok_def)

lemma update_inv:
  assumes "ms_ok (ready ctx b) ms" "b \<longrightarrow> ms_local ms \<noteq> None"
    and "ms_update (ready ctx b) env changes ms = Inr (ms', us)"
  shows "ms_ok (ready ctx b) ms' \<and> (b \<longrightarrow> ms_local ms' \<noteq> None)"
proof (cases b)
  case True
  then obtain l where "ms_local ms = Some l" using assms(2) by blast
  then show ?thesis
    using ms_update_ok [of "ready ctx b" ms l env changes] assms(1,3) True by auto
next
  case False
  then show ?thesis
    using assms by (auto simp: ms_update_def ms_ok_def split: if_splits option.splits)
qed

lemma decay_ok: "ms_ok ctx ms \<Longrightarrow> ms_ok ctx (onDecayTimeout ctx env ms) \<and>
    view (onDecayTimeout ctx env ms) = view ms"
  using decay_loop_ok [of ctx ms "ms_members ms" "x_config ctx" env 0]
  by (simp add: onDecayTimeout_def decay_schedule_def decayMembersDampScore_def view_def [abs_def])

lemma decay_loop_local: "ms_local (decay_loop cfg env i rs ms) = ms_local ms"
  by (induction rs arbitrary: i ms) (auto split: prod.splits)

lemma decay_local: "ms_local (onDecayTimeout ctx env ms) = ms_local ms"
  by (simp add: onDecayTimeout_def decay_schedule_def decayMembersDampScore_def decay_loop_local)

lemma set_inv:
  assumes "ms_ok ctx ms"
  shows "ms_ok ctx (ms_set ctx ms) \<and> ms_local (ms_set ctx ms) = ms_local ms"
proof (cases "\<not> x_isReady ctx \<and> (\<exists>st. ms_stashed ms = Some st \<and> st \<noteq> [])")
  case True
  then show ?thesis using ms_set_ok [OF assms] by blast
next
  case False
  then have "ms_set ctx ms = ms" by (auto simp: ms_set_def split: option.splits)
  then show ?thesis using assms by simp
qed

lemma reachable_inv: "ms_reachable ctx b ms \<Longrightarrow> ms_ok (ready ctx b) ms \<and> (b \<longrightarrow> ms_local ms \<noteq> None)"
proof (induction rule: ms_reachable.induct)
  case start
  then show ?case by (simp add: ms_ok_def ms_wf_def new_membership_def)
next
  case (become_ready b ms)
  then show ?case using ms_ok_ready by blast
next
  case (local_status b ms env status)
  then show ?case using setLocalStatus_ok by blast
next
  case (update b ms env changes ms' updates)
  then show ?case using update_inv by blast
next
  case (make_change b ms env address inc status ms' updates)
  then show ?case unfolding makeChange_def Let_def using update_inv by blast
next
  case (set_stashed b ms)
  then show ?case using set_inv by metis
next
  case (evict b ms address ms')
  then show ?case using evict_ok [of "ready ctx b" ms _ address]
    by (cases "ms_local ms") (auto simp: Membership.evict_def)
next
  case (shuffle b ms shuffle)
  then show ?case using shuffle_ok by (simp add: ms_shuffle_def)
next
  case (decay b ms env)
  then show ?case using decay_ok decay_local by metis
next
  case (start_decay b ms)
  then show ?case by (simp add: startDampScoreDecayer_def decay_schedule_def)
next
  case (stop_decay b ms)
  then show ?case by (simp add: stopDampScoreDecayer_def)
qed


section \<open>A concrete node\<close>

definition demo_ctx :: node_ctx where
  "demo_ctx = \<lparr>x_whoami = ''a:1'', x_isReady = True, x_hashFunc = (\<lambda>s. int (length s)),
     x_config = default_config\<lparr>c_dampScoringEnabled := False\<rparr>\<rparr>"

definition demo_env :: env where
  "demo_env = \<lparr>e_now = (\<lambda>i. 1000 + int i), e_after = (\<lambda>i. 1000 + int i), e_random = (\<lambda>i. 0),
     e_uuid = (\<lambda>i. ''u'')\<rparr>"

definition demo_change :: "string \<Rightarrow> int \<Rightarrow> status \<Rightarrow> update" where
  "demo_change a inc s = \<lparr>u_id = None, u_address = a, u_status = s, u_inc = inc, u_source = Some ''b:1'',
     u_sourceInc = Some 7, u_dampScore = None, u_tombstone = False\<rparr>"

definition demo_ms0 :: membership where
  "demo_ms0 = makeLocalAlive (ready demo_ctx False) demo_env new_membership"

definition demo_ms :: membership where
  "demo_ms = (case ms_update demo_ctx demo_env [demo_change ''b:1'' 7 Alive] demo_ms0 of
     Inr (ms, us) \<Rightarrow> ms | Inl e \<Rightarrow> demo_ms0)"

lemma demo_ctx_simps [simp]:
  "x_whoami demo_ctx = ''a:1''" "x_isReady demo_ctx" "ready demo_ctx True = demo_ctx"
  by (simp_all add: demo_ctx_def)

lemma demo_change_simps [simp]:
  "u_address (demo_change a i s) = a" "u_status (demo_change a i s) = s" "u_inc (demo_change a i s) = i"
  by (simp_all add: demo_change_def)

lemma demo_ms0_facts:
  "ms_reachable demo_ctx True demo_ms0" "ms_local demo_ms0 \<noteq> None"
  "view demo_ms0 = [''a:1'' \<mapsto> (1001, Alive)]" "ms_reachable demo_ctx False demo_ms0"
proof -
  have ok: "ms_ok (ready demo_ctx False) new_membership"
    using reachable_inv [OF ms_reachable.start] by blast
  have v: "view new_membership = Map.empty" by (auto simp: view_def known_def new_membership_def)
  note facts = setLocalStatus_ok [OF ok, of demo_env Alive]
  show "view demo_ms0 = [''a:1'' \<mapsto> (1001, Alive)]"
    using facts v by (simp add: demo_ms0_def makeLocalAlive_def demo_env_def)
  show l: "ms_local demo_ms0 \<noteq> None" using facts by (simp add: demo_ms0_def makeLocalAlive_def)
  show "ms_reachable demo_ctx False demo_ms0"
    unfolding demo_ms0_def makeLocalAlive_def by (rule ms_reachable.local_status [OF ms_reachable.start])
  then show "ms_reachable demo_ctx True demo_ms0" using l by (rule ms_reachable.become_ready)
qed

lemma demo_ms_facts:
  "ms_reachable demo_ctx True demo_ms" "\<exists>l. ms_local demo_ms = Some l" "ms_ok demo_ctx demo_ms"
  "view demo_ms = [''a:1'' \<mapsto> (1001, Alive), ''b:1'' \<mapsto> (7, Alive)]"
proof -
  obtain l where l: "ms_local demo_ms0 = Some l" using demo_ms0_facts(2) by blast
  have ok: "ms_ok demo_ctx demo_ms0" using reachable_inv [OF demo_ms0_facts(1)] by simp
  obtain ms' us where u: "ms_update demo_ctx demo_env [demo_change ''b:1'' 7 Alive] demo_ms0 = Inr (ms', us)"
    "ms_ok demo_ctx ms'" "ms_local ms' = Some l"
    "view ms' = gossip_steps ''a:1'' (e_now demo_env) 0 [demo_change ''b:1'' 7 Alive] (view demo_ms0)"
    using ms_update_ok [OF ok _ l, of demo_env] by fastforce
  have eq: "demo_ms = ms'" by (simp add: demo_ms_def u(1))
  have v: "(view demo_ms0) ''b:1'' = None" by (simp add: demo_ms0_facts(3))
  show "ms_reachable demo_ctx True demo_ms"
    unfolding eq by (rule ms_reachable.update [OF demo_ms0_facts(1)]) (use u(1) in simp)
  show "\<exists>l. ms_local demo_ms = Some l" "ms_ok demo_ctx demo_ms" using u(2,3) eq by auto
  show "view demo_ms = [''a:1'' \<mapsto> (1001, Alive), ''b:1'' \<mapsto> (7, Alive)]"
    unfolding eq u(4) using v
    by (simp add: gossip_step_def processed_def demo_ms0_facts(3) fun_upd_twist)
qed

section \<open>Invariant\<close>

text \<open>
  C32: In every reachable state of a node the member list is well-formed: it lists no member and no
  address twice, the address index maps exactly the listed members, the local member is the one under
  the node's own address, and a ready node has one.
\<close>

theorem membership_invariant:
  assumes "ms_reachable ctx b ms"
  shows "ms_ok (ready ctx b) ms \<and> distinct (map (\<lambda>r. m_address (deref ms r)) (ms_members ms)) \<and>
    (b \<longrightarrow> (\<exists>l. ms_local ms = Some l \<and> l \<in> set (ms_members ms) \<and>
      m_address (deref ms l) = x_whoami ctx))"
proof -
  have ok: "ms_ok (ready ctx b) ms" "b \<longrightarrow> ms_local ms \<noteq> None" using reachable_inv [OF assms] by auto
  then have wf: "ms_wf ms" and loc: "dget (ms_byAddress ms) (x_whoami ctx) = ms_local ms"
    by (simp_all add: ms_ok_def)
  have "l \<in> set (ms_members ms) \<and> m_address (deref ms l) = x_whoami ctx" if "ms_local ms = Some l" for l
    using wf_index [OF wf, of "x_whoami ctx" l] loc that by simp
  then show ?thesis using ok wf_distinct_addresses [OF wf] by auto
qed

theorem membership_invariant_witness:
  "ms_ok (ready demo_ctx True) demo_ms \<and>
    distinct (map (\<lambda>r. m_address (deref demo_ms r)) (ms_members demo_ms)) \<and>
    (\<exists>l. ms_local demo_ms = Some l \<and> l \<in> set (ms_members demo_ms) \<and>
      m_address (deref demo_ms l) = x_whoami demo_ctx)"
  using membership_invariant [OF demo_ms_facts(1)] by blast

section \<open>Gossip\<close>

text \<open>
  C33: Gossip converges: two nodes that know the same of a third and hear the same changes about it end
  up knowing the same of it, in whatever order, grouping and number they hear them and whatever else
  they hear.
\<close>

theorem gossip_converges:
  assumes "ms_ok ctx1 ms1" "x_isReady ctx1" "ms_local ms1 = Some l1"
    and "ms_ok ctx2 ms2" "x_isReady ctx2" "ms_local ms2 = Some l2"
    and "a \<noteq> x_whoami ctx1" "a \<noteq> x_whoami ctx2"
    and "view ms1 a = Some k" "view ms2 a = Some k" "known_status (snd k)"
    and "\<forall>u \<in> set (about a changes1). known_status (u_status u)"
    and "set (about a changes1) = set (about a changes2)"
    and "ms_update ctx1 env1 changes1 ms1 = Inr (ms1', us1)"
    and "ms_update ctx2 env2 changes2 ms2 = Inr (ms2', us2)"
  shows "view ms1' a = view ms2' a"
proof -
  have "view ms1' a = fold join_rank (about a changes1) (Some k)"
    using ms_update_ok [OF assms(1-3), of env1 changes1] assms(7,9,14) by (auto simp: gossip_steps_other)
  moreover have "view ms2' a = fold join_rank (about a changes2) (Some k)"
    using ms_update_ok [OF assms(4-6), of env2 changes2] assms(8,10,15) by (auto simp: gossip_steps_other)
  ultimately show ?thesis
    using fold_join_set_eq [OF assms(11) _ assms(13)] assms(12,13) by auto
qed

theorem gossip_converges_witness:
  "\<exists>ms1 us1 ms2 us2.
    ms_update demo_ctx demo_env [demo_change ''b:1'' 9 Suspect, demo_change ''b:1'' 9 Faulty] demo_ms = Inr (ms1, us1) \<and>
    ms_update demo_ctx demo_env [demo_change ''b:1'' 9 Faulty, demo_change ''c:1'' 1 Alive,
      demo_change ''b:1'' 9 Suspect] demo_ms = Inr (ms2, us2) \<and>
    view ms1 ''b:1'' = view ms2 ''b:1''"
proof -
  obtain l where l: "ms_local demo_ms = Some l" using demo_ms_facts(2) by blast
  note ok = demo_ms_facts(3)
  let ?c1 = "[demo_change ''b:1'' 9 Suspect, demo_change ''b:1'' 9 Faulty]"
  let ?c2 = "[demo_change ''b:1'' 9 Faulty, demo_change ''c:1'' 1 Alive, demo_change ''b:1'' 9 Suspect]"
  obtain ms1 us1 where 1: "ms_update demo_ctx demo_env ?c1 demo_ms = Inr (ms1, us1)"
    using ms_update_ok [OF ok _ l, of demo_env ?c1] by auto
  obtain ms2 us2 where 2: "ms_update demo_ctx demo_env ?c2 demo_ms = Inr (ms2, us2)"
    using ms_update_ok [OF ok _ l, of demo_env ?c2] by auto
  have "view ms1 ''b:1'' = view ms2 ''b:1''"
    by (rule gossip_converges [OF ok _ l ok _ l _ _ _ _ _ _ _ 1 2, of _ "(7, Alive)"])
      (auto simp: demo_ms_facts(4))
  then show ?thesis using 1 2 by blast
qed

text \<open>
  What a node knows of another only grows: after any batch of changes it still knows the member,
  with the greatest incarnation number and, at that number, the highest precedence among what it knew
  and what it heard.
\<close>

theorem update_keeps_newest:
  assumes "ms_ok ctx ms" "x_isReady ctx" "ms_local ms = Some l"
    and "a \<noteq> x_whoami ctx" "view ms a = Some k"
    and "ms_update ctx env changes ms = Inr (ms', us)"
  shows "\<exists>k'. view ms' a = Some k' \<and> k' \<in> insert k (u_rank ` set (about a changes)) \<and>
    rank_le k k' \<and> (\<forall>u \<in> set (about a changes). rank_le (u_rank u) k')"
proof -
  have "view ms' a = fold join_rank (about a changes) (Some k)"
    using ms_update_ok [OF assms(1-3), of env changes] assms(4-6) by (auto simp: gossip_steps_other)
  then show ?thesis using fold_join_known [of "about a changes" k] by auto
qed

theorem update_keeps_newest_witness:
  "\<exists>ms' us k'. ms_update demo_ctx demo_env [demo_change ''b:1'' 9 Faulty] demo_ms = Inr (ms', us) \<and>
    view ms' ''b:1'' = Some k' \<and> rank_le (7, Alive) k' \<and> rank_le (9, Faulty) k'"
proof -
  obtain l where l: "ms_local demo_ms = Some l" using demo_ms_facts(2) by blast
  obtain ms' us where u: "ms_update demo_ctx demo_env [demo_change ''b:1'' 9 Faulty] demo_ms = Inr (ms', us)"
    using ms_update_ok [OF demo_ms_facts(3) _ l, of demo_env "[demo_change ''b:1'' 9 Faulty]"] by auto
  show ?thesis
    using update_keeps_newest [OF demo_ms_facts(3) _ l _ _ u, of "''b:1''" "(7, Alive)"] u
    by (auto simp: demo_ms_facts(4))
qed

text \<open>
  Gossip never creates a tombstone: a member the node does not know stays unknown as long as all it
  hears about it are tombstones.
\<close>

theorem tombstones_not_created:
  assumes "ms_ok ctx ms" "x_isReady ctx" "ms_local ms = Some l"
    and "a \<noteq> x_whoami ctx" "view ms a = None" "\<forall>u \<in> set (about a changes). u_status u = Tombstone"
    and "ms_update ctx env changes ms = Inr (ms', us)"
  shows "findMemberByAddress ms' a = None"
proof -
  have "view ms' a = fold join_rank (about a changes) None"
    using ms_update_ok [OF assms(1-3), of env changes] assms(4,5,7) by (auto simp: gossip_steps_other)
  then have "view ms' a = None" using fold_join_unknown_tombstones [OF assms(6)] by simp
  then show ?thesis by (simp add: view_def known_def findMemberByAddress_def)
qed

theorem tombstones_not_created_witness:
  "\<exists>ms' us. ms_update demo_ctx demo_env [demo_change ''c:1'' 9 Tombstone] demo_ms = Inr (ms', us) \<and>
    findMemberByAddress ms' ''c:1'' = None"
proof -
  obtain l where l: "ms_local demo_ms = Some l" using demo_ms_facts(2) by blast
  obtain ms' us where u: "ms_update demo_ctx demo_env [demo_change ''c:1'' 9 Tombstone] demo_ms = Inr (ms', us)"
    using ms_update_ok [OF demo_ms_facts(3) _ l, of demo_env "[demo_change ''c:1'' 9 Tombstone]"] by auto
  show ?thesis
    using tombstones_not_created [OF demo_ms_facts(3) _ l _ _ _ u, of "''c:1''"] u
    by (simp add: demo_ms_facts(4))
qed

text \<open>
  A node cannot be talked out of its own status: whatever it hears about itself, its status stays
  and its incarnation number is the old one or a reading of its clock.
\<close>

theorem local_status_protected:
  assumes "ms_ok ctx ms" "x_isReady ctx" "ms_local ms = Some l" "view ms (x_whoami ctx) = Some (inc, s)"
    and "ms_update ctx env changes ms = Inr (ms', us)"
  shows "\<exists>inc'. view ms' (x_whoami ctx) = Some (inc', s) \<and> (inc' = inc \<or> (\<exists>j. inc' = e_now env j))"
  using ms_update_ok [OF assms(1-3), of env changes] assms(5)
    gossip_steps_local [of "view ms" "x_whoami ctx" "(inc, s)" "e_now env" 0 changes] assms(4)
  by auto

theorem local_status_protected_witness:
  "\<exists>ms' us inc'. ms_update demo_ctx demo_env [demo_change ''a:1'' 2000 Faulty] demo_ms = Inr (ms', us) \<and>
    view ms' ''a:1'' = Some (inc', Alive) \<and> (inc' = 1001 \<or> (\<exists>j. inc' = e_now demo_env j))"
proof -
  obtain l where l: "ms_local demo_ms = Some l" using demo_ms_facts(2) by blast
  obtain ms' us where u: "ms_update demo_ctx demo_env [demo_change ''a:1'' 2000 Faulty] demo_ms = Inr (ms', us)"
    using ms_update_ok [OF demo_ms_facts(3) _ l, of demo_env "[demo_change ''a:1'' 2000 Faulty]"] by auto
  show ?thesis
    using local_status_protected [OF demo_ms_facts(3) _ l _ u, of 1001 Alive] u
    by (auto simp: demo_ms_facts(4))
qed

text \<open>
  Evicting removes exactly the given member, and never the local one.
\<close>

theorem evict_spares_local:
  assumes "ms_ok ctx ms" "ms_local ms = Some l"
  shows "\<exists>ms'. evict ctx address ms = Inr ms' \<and> ms_ok ctx ms' \<and> ms_local ms' = Some l \<and>
    view ms' = (if address = x_whoami ctx then view ms else (view ms)(address := None))"
  by (rule evict_ok [OF assms])

theorem evict_spares_local_witness:
  "\<exists>ms'. evict demo_ctx ''b:1'' demo_ms = Inr ms' \<and> ms_ok demo_ctx ms' \<and>
    view ms' = [''a:1'' \<mapsto> (1001, Alive)]"
proof -
  obtain l where l: "ms_local demo_ms = Some l" using demo_ms_facts(2) by blast
  show ?thesis using evict_spares_local [OF demo_ms_facts(3) l, of "''b:1''"]
    by (auto simp: demo_ms_facts(4) fun_eq_iff)
qed

section \<open>Checksum, stash, iterator\<close>

text \<open>
  Nodes that know the same of the members that are not tombstones have the same checksum, wherever
  the members stand in their lists and whatever their tombstones.
\<close>

theorem checksum_agrees:
  assumes "ms_wf ms" "ms_wf ms'" "x_hashFunc ctx = x_hashFunc ctx'"
    and "\<forall>a i s. s \<noteq> Tombstone \<longrightarrow> (view ms a = Some (i, s) \<longleftrightarrow> view ms' a = Some (i, s))"
  shows "ms_checksum (ms_computeChecksum ctx ms) = ms_checksum (ms_computeChecksum ctx' ms')"
proof -
  have "live ms = live ms'" using assms(4) by (auto simp: live_def)
  then show ?thesis using checksum_string_cong [OF assms(1,2)] assms(3) by simp
qed

theorem checksum_agrees_witness:
  "ms_checksum (ms_computeChecksum demo_ctx demo_ms) =
    ms_checksum (ms_computeChecksum demo_ctx (ms_shuffle rev demo_ms))"
proof -
  have "ms_ok demo_ctx (ms_shuffle rev demo_ms)" "known (ms_shuffle rev demo_ms) = known demo_ms"
    using shuffle_ok [OF demo_ms_facts(3), of rev] by simp_all
  then show ?thesis
    using checksum_agrees [of demo_ms "ms_shuffle rev demo_ms" demo_ctx demo_ctx] demo_ms_facts(3)
    by (simp add: ms_ok_def view_def)
qed

lemma set_view_at:
  assumes "distinct (map u_address us)" "u \<in> set us"
  shows "set_view us v (u_address u) =
    (if u_status u = Tombstone then v (u_address u) else Some (u_rank u))"
  using assms
proof (induction us)
  case (Cons w us)
  have "u_address w \<noteq> u_address x" if "x \<in> set us" for x
    using Cons.prems(1) that by (metis distinct.simps(2) image_eqI list.simps(9) set_map)
  moreover from this have "\<not> (\<exists>x. x \<in> set us \<and> u_address x = u_address w \<and> u_status x \<noteq> Tombstone)"
    by metis
  then have "find (\<lambda>x. u_address x = u_address w \<and> u_status x \<noteq> Tombstone) us = None"
    by (simp add: find_None_iff)
  ultimately show ?case using Cons by (cases "u = w") (auto simp: set_view_def)
qed simp

lemma only_local_before_set:
  assumes "ms_ok ctx ms" "\<not> x_isReady ctx" "ms_stashed ms \<noteq> None" "a \<noteq> x_whoami ctx"
  shows "view ms a = None"
proof (rule ccontr)
  assume "view ms a \<noteq> None"
  then obtain r where r: "dget (ms_byAddress ms) a = Some r" by (auto simp: view_def known_def)
  have wf: "ms_wf ms" using assms(1) by (simp add: ms_ok_def)
  then have "r \<in> set (ms_members ms)" "m_address (deref ms r) = a" using r wf_index by metis+
  moreover from this have "dget (ms_byAddress ms) (x_whoami ctx) = Some r"
    using assms(1-3) by (auto simp: ms_ok_def)
  ultimately show False using assms(4) wf wf_index by metis
qed

text \<open>
  Setting the updates stashed during the join takes, for every other address, the newest update
  heard (none older by incarnation number is kept), adds no tombstone, leaves the local member alone,
  and happens once.
\<close>

theorem set_takes_newest:
  assumes "ms_ok ctx ms" "\<not> x_isReady ctx" "ms_stashed ms = Some st" "st \<noteq> []"
  shows "\<exists>us. us = mergeMembershipChangesets (x_whoami ctx) st \<and>
    ms_ok ctx (ms_set ctx ms) \<and> ms_stashed (ms_set ctx ms) = None \<and>
    (\<forall>u \<in> set us. u_status u \<noteq> Tombstone \<longrightarrow> view (ms_set ctx ms) (u_address u) = Some (u_rank u)) \<and>
    (\<forall>u \<in> set us. u_status u = Tombstone \<longrightarrow> view (ms_set ctx ms) (u_address u) = None) \<and>
    (\<forall>u \<in> set (concat st). u_address u \<noteq> x_whoami ctx \<longrightarrow>
      (\<exists>w \<in> set us. u_address w = u_address u \<and> u_inc u \<le> u_inc w)) \<and>
    view (ms_set ctx ms) (x_whoami ctx) = view ms (x_whoami ctx)"
proof -
  let ?us = "mergeMembershipChangesets (x_whoami ctx) st"
  note merged = mergeMembershipChangesets_ok [where whoami = "x_whoami ctx" and changesets = st]
  have set: "ms_ok ctx (ms_set ctx ms)" "ms_stashed (ms_set ctx ms) = None"
    "view (ms_set ctx ms) = set_view ?us (view ms)"
    using ms_set_ok [OF assms] by auto
  have one: "set_view ?us (view ms) (u_address u) =
      (if u_status u = Tombstone then view ms (u_address u) else Some (u_rank u))" if "u \<in> set ?us" for u
    using set_view_at [OF merged(1) that] .
  have fresh: "view ms (u_address u) = None" if "u \<in> set ?us" for u
    using only_local_before_set [OF assms(1,2)] assms(3) merged(3) that by auto
  have "find (\<lambda>u. u_address u = x_whoami ctx \<and> u_status u \<noteq> Tombstone) ?us = None"
    using merged(3) by (auto simp: find_None_iff)
  then have "set_view ?us (view ms) (x_whoami ctx) = view ms (x_whoami ctx)" by (simp add: set_view_def)
  then show ?thesis
    using set one fresh merged(4) by auto
qed

definition demo_stash :: "update list list" where
  "demo_stash = [[demo_change ''b:1'' 7 Alive, demo_change ''c:1'' 3 Tombstone], [demo_change ''b:1'' 9 Faulty]]"

lemma demo_stash_ok: "ms_ok (ready demo_ctx False) (demo_ms0\<lparr>ms_stashed := Some demo_stash\<rparr>)"
proof -
  have "ms_stashed demo_ms0 = Some []" by code_simp
  then show ?thesis using reachable_inv [OF demo_ms0_facts(4)] by (simp add: ms_ok_def deref_def)
qed

theorem set_takes_newest_witness:
  "\<exists>us. us = mergeMembershipChangesets ''a:1'' demo_stash \<and>
    (let ctx = ready demo_ctx False; ms = demo_ms0\<lparr>ms_stashed := Some demo_stash\<rparr> in
     ms_ok ctx (ms_set ctx ms) \<and> ms_stashed (ms_set ctx ms) = None \<and>
     view (ms_set ctx ms) ''a:1'' = view ms ''a:1'')"
  using set_takes_newest [OF demo_stash_ok, of demo_stash] by (simp add: Let_def demo_stash_def)

text \<open>
  The iterator ends, from whatever index and with whatever shuffles, and returns a member that can
  be pinged, or nothing exactly when no listed member can be; the list keeps its members.
\<close>

theorem iterator_finds_pingable:
  assumes "ms_wf ms" "-1 \<le> mi_currentIndex it" "\<And>k xs. mset (shuffle k xs) = mset xs"
  shows "\<exists>r it' ms'. mi_next shuffle ctx it ms = Some (r, it', ms') \<and>
    mset (ms_members ms') = mset (ms_members ms) \<and>
    (case r of None \<Rightarrow> \<forall>r \<in> set (ms_members ms). \<not> isPingable ctx (deref ms r)
     | Some r \<Rightarrow> r \<in> set (ms_members ms) \<and> isPingable ctx (deref ms r))"
  using mi_next_ok [OF assms(1,2), of shuffle ctx] assms(3) by (auto simp: mi_result_def split: prod.splits)

theorem iterator_finds_pingable_witness:
  "\<exists>r it' ms'. mi_next (\<lambda>k. rev) demo_ctx new_ms_iter demo_ms = Some (r, it', ms') \<and>
    mset (ms_members ms') = mset (ms_members demo_ms) \<and>
    (case r of None \<Rightarrow> \<forall>r \<in> set (ms_members demo_ms). \<not> isPingable demo_ctx (deref demo_ms r)
     | Some r \<Rightarrow> r \<in> set (ms_members demo_ms) \<and> isPingable demo_ctx (deref demo_ms r))"
  by (rule iterator_finds_pingable) (use demo_ms_facts(3) in \<open>simp_all add: ms_ok_def new_ms_iter_def\<close>)

text \<open>
  With a sane damping configuration and a clock that does not run backwards, a member's damp score
  stays between the configured bounds when an update is applied and when it decays.
\<close>

theorem damp_score_bounded:
  assumes "damp_config_ok cfg" "damp_ok cfg m"
    and "(case m_lastUpdateTimestamp m of None \<Rightarrow> 0 | Some t \<Rightarrow> t) \<le> now"
  shows "\<exists>s s'. m_dampScore (fst (decayDampScore cfg now m)) = Some s \<and>
    m_dampScore (fst (applyUpdate cfg whoami now after u m)) = Some s' \<and>
    c_dampScoringMin cfg \<le> s \<and> s \<le> c_dampScoringMax cfg \<and>
    c_dampScoringMin cfg \<le> s' \<and> s' \<le> c_dampScoringMax cfg"
proof -
  have "damp_ok cfg (fst (decayDampScore cfg now m))"
    "damp_ok cfg (fst (applyUpdate cfg whoami now after u m))"
    using decay_damp_ok [OF assms] applyUpdate_damp_ok [OF assms] by auto
  then show ?thesis unfolding damp_ok_def by (auto split: option.splits)
qed

theorem damp_score_bounded_witness:
  "\<exists>s s'. m_dampScore (fst (decayDampScore default_config 5000 (new_member default_config (demo_change ''b:1'' 7 Alive)))) = Some s \<and>
    m_dampScore (fst (applyUpdate default_config ''a:1'' 5000 5001 (demo_change ''b:1'' 8 Suspect)
      (new_member default_config (demo_change ''b:1'' 7 Alive)))) = Some s' \<and>
    0 \<le> s \<and> s \<le> 10000 \<and> 0 \<le> s' \<and> s' \<le> 10000"
proof -
  have "damp_ok default_config (new_member default_config (demo_change ''b:1'' 7 Alive))"
    by (simp add: damp_ok_def new_member_def demo_change_def default_config_def seed_config_def
        empty_seed_def seedOrDefault_def)
  moreover have "m_lastUpdateTimestamp (new_member cfg u) = None" for cfg u
    by (simp add: new_member_def Let_def)
  moreover have "c_dampScoringMin default_config = 0" "c_dampScoringMax default_config = 10000"
    by (simp_all add: default_config_def seed_config_def empty_seed_def seedOrDefault_def)
  ultimately show ?thesis
    using damp_score_bounded [OF default_damp_config, of "new_member default_config (demo_change ''b:1'' 7 Alive)"
        5000 "''a:1''" 5001 "demo_change ''b:1'' 8 Suspect"] by simp
qed

end
