(* ===== verification/Dissemination.thy ===== *)
theory Dissemination
  imports Membership Ring_Spec
begin

text \<open>
  Dissemination of changes, \<open>lib/gossip/dissemination.js\<close>: changes are kept by address with a counter
  of how often they were piggybacked, are issued to a peer unless the peer is their source, and are
  dropped once the counter reaches a maximum that grows with the logarithm of the number of servers.
  The reverse full sync is modelled by its start and by the answer to its join request.
\<close>

section \<open>State\<close>

record dchange =
  dc_update :: update
  dc_piggybackCount :: int

datatype ds_event = MaxPiggybackCountAdjusted | ChangesExhausted

record dissemination =
  ds_changes :: "dchange dict"
  ds_reverseFullSyncJobs :: int
  ds_maxPiggybackCount :: int
  ds_piggybackFactor :: int
  ds_events :: "ds_event list"

definition new_dissemination :: dissemination where
  "new_dissemination = \<lparr>ds_changes = [], ds_reverseFullSyncJobs = 0, ds_maxPiggybackCount = 1,
     ds_piggybackFactor = 15, ds_events = []\<rparr>"

definition ds_emit :: "ds_event \<Rightarrow> dissemination \<Rightarrow> dissemination" where
  "ds_emit e ds = ds\<lparr>ds_events := ds_events ds @ [e]\<rparr>"

text \<open>\<open>Math.ceil(Math.log(serverCount + 1) / Math.log(10))\<close>, in exact arithmetic.\<close>

definition adjustMaxPiggybackCount :: "nat \<Rightarrow> dissemination \<Rightarrow> dissemination" where
  "adjustMaxPiggybackCount serverCount ds =
     (let newPiggybackCount = ds_piggybackFactor ds * \<lceil>ln (real serverCount + 1) / ln 10\<rceil> in
      if ds_maxPiggybackCount ds \<noteq> newPiggybackCount
      then ds_emit MaxPiggybackCountAdjusted (ds\<lparr>ds_maxPiggybackCount := newPiggybackCount\<rparr>)
      else ds)"

definition clearChanges :: "dissemination \<Rightarrow> dissemination" where
  "clearChanges ds = ds\<lparr>ds_changes := []\<rparr>"

definition resetMaxPiggybackCount :: "dissemination \<Rightarrow> dissemination" where
  "resetMaxPiggybackCount ds = ds\<lparr>ds_maxPiggybackCount := 1\<rparr>"

definition recordChange :: "update \<Rightarrow> dissemination \<Rightarrow> dissemination" where
  "recordChange change ds =
     ds\<lparr>ds_changes := dset (u_address change) \<lparr>dc_update = change, dc_piggybackCount = 0\<rparr> (ds_changes ds)\<rparr>"

definition getChangesCount :: "dissemination \<Rightarrow> nat" where
  "getChangesCount ds = length (dkeys (ds_changes ds))"

definition ds_isEmpty :: "dissemination \<Rightarrow> bool" where
  "ds_isEmpty ds \<longleftrightarrow> length (dkeys (ds_changes ds)) = 0"

text \<open>Every member as a change of this node: no id, no source incarnation number.\<close>

definition membershipAsChanges :: "string \<Rightarrow> membership \<Rightarrow> update list" where
  "membershipAsChanges whoami ms =
     map (\<lambda>r. let m = deref ms r in
        \<lparr>u_id = None, u_address = m_address m, u_status = m_status m, u_inc = m_inc m,
         u_source = Some whoami, u_sourceInc = None, u_dampScore = None, u_tombstone = False\<rparr>)
       (ms_members ms)"

section \<open>Issuing changes\<close>

text \<open>The fields of a change that go out.\<close>

definition outgoing :: "update \<Rightarrow> update" where
  "outgoing c = c\<lparr>u_dampScore := None, u_tombstone := False\<rparr>"

fun issue_loop :: "(update \<Rightarrow> bool) \<Rightarrow> string list \<Rightarrow> dissemination \<Rightarrow> update list \<times> dissemination" where
  "issue_loop filterChange [] ds = ([], ds)"
| "issue_loop filterChange (address # rest) ds =
     (case dget (ds_changes ds) address of
        None \<Rightarrow> issue_loop filterChange rest ds
      | Some change \<Rightarrow>
          if filterChange (dc_update change) then issue_loop filterChange rest ds
          else if dc_piggybackCount change \<ge> ds_maxPiggybackCount ds then
            (let ds1 = ds\<lparr>ds_changes := ddel address (ds_changes ds)\<rparr>;
                 ds2 = (if length (dkeys (ds_changes ds1)) = 0 then ds_emit ChangesExhausted ds1 else ds1)
             in issue_loop filterChange rest ds2)
          else
            (let (out, ds1) = issue_loop filterChange rest ds in
             (outgoing (dc_update change) # out, ds1)))"

definition issueAs :: "(update \<Rightarrow> bool) \<Rightarrow> dissemination \<Rightarrow> update list \<times> dissemination" where
  "issueAs filterChange ds = issue_loop filterChange (dkeys (ds_changes ds)) ds"

text \<open>Bump the counters of the issued changes that are still the recorded ones.\<close>

fun bump_loop :: "update list \<Rightarrow> dissemination \<Rightarrow> dissemination" where
  "bump_loop [] ds = ds"
| "bump_loop (issued # rest) ds =
     (case dget (ds_changes ds) (u_address issued) of
        None \<Rightarrow> bump_loop rest ds
      | Some c \<Rightarrow>
          if u_id (dc_update c) = u_id issued
          then bump_loop rest (ds\<lparr>ds_changes := dset (u_address issued)
                 (c\<lparr>dc_piggybackCount := dc_piggybackCount c + 1\<rparr>) (ds_changes ds)\<rparr>)
          else bump_loop rest ds)"

text \<open>\<open>issueAsSender\<close>: what is sent, and the callback that learns whether it arrived.\<close>

definition issueAsSender :: "dissemination \<Rightarrow> update list \<times> dissemination" where
  "issueAsSender ds = issueAs (\<lambda>_. False) ds"

definition onIssue :: "'e option \<Rightarrow> update list \<Rightarrow> dissemination \<Rightarrow> dissemination" where
  "onIssue err membershipChanges ds =
     (case err of Some _ \<Rightarrow> ds | None \<Rightarrow> bump_loop membershipChanges ds)"

text \<open>\<open>!!x\<close>: a missing or empty address and a missing or zero number are falsy.\<close>

definition truthy_str :: "string option \<Rightarrow> bool" where
  "truthy_str s \<longleftrightarrow> s \<noteq> None \<and> s \<noteq> Some []"

definition truthy_num :: "int option \<Rightarrow> bool" where
  "truthy_num n \<longleftrightarrow> n \<noteq> None \<and> n \<noteq> Some 0"

definition filterSource :: "string option \<Rightarrow> int option \<Rightarrow> update \<Rightarrow> bool" where
  "filterSource senderAddr senderInc change \<longleftrightarrow>
     truthy_str senderAddr \<and> truthy_num senderInc \<and> truthy_str (u_source change) \<and>
     truthy_num (u_sourceInc change) \<and> senderAddr = u_source change \<and> senderInc = u_sourceInc change"

definition issueAsReceiver :: "string \<Rightarrow> membership \<Rightarrow> string option \<Rightarrow> int option \<Rightarrow> int option \<Rightarrow>
    dissemination \<Rightarrow> (update list \<times> bool) \<times> dissemination" where
  "issueAsReceiver whoami ms senderAddr senderInc senderChecksum ds =
     (let (changes, ds1) = issueAs (filterSource senderAddr senderInc) ds;
          fullSync = (changes = [] \<and> ms_checksum ms \<noteq> senderChecksum);
          membershipChanges = (if fullSync then membershipAsChanges whoami ms else changes)
      in ((membershipChanges, fullSync), bump_loop membershipChanges ds1))"

section \<open>Reverse full sync\<close>

definition tryStartReverseFullSync :: "int \<Rightarrow> dissemination \<Rightarrow> bool \<times> dissemination" where
  "tryStartReverseFullSync maxReverseFullSyncJobs ds =
     (if ds_reverseFullSyncJobs ds \<ge> maxReverseFullSyncJobs then (False, ds)
      else (True, ds\<lparr>ds_reverseFullSyncJobs := ds_reverseFullSyncJobs ds + 1\<rparr>))"

text \<open>The join request ends: with an error nothing is applied; either way the job is over.\<close>

definition onReverseFullSync :: "node_ctx \<Rightarrow> env \<Rightarrow> 'e + update list \<Rightarrow> membership \<Rightarrow> dissemination \<Rightarrow>
    (membership \<times> update list \<times> dissemination) outcome" where
  "onReverseFullSync ctx env res ms ds =
     (let done = ds\<lparr>ds_reverseFullSyncJobs := ds_reverseFullSyncJobs ds - 1\<rparr> in
      (case res of
         Inl err \<Rightarrow> Inr (ms, [], done)
       | Inr members \<Rightarrow>
           (case ms_update ctx env members ms of
              Inl e \<Rightarrow> Inl e
            | Inr (ms', updates) \<Rightarrow> Inr (ms', updates, done))))"

section \<open>The piggyback limit\<close>

lemma length_show_nat_pow:
  "n > 0 \<Longrightarrow> 10 ^ (length (show_nat n) - 1) \<le> n \<and> n < 10 ^ length (show_nat n)"
proof (induction n rule: show_nat.induct)
  case (1 n)
  show ?case
  proof (cases "n < 10")
    case True
    then show ?thesis using 1 by (subst (1 2) show_nat.simps) simp
  next
    case False
    let ?l = "length (show_nat (n div 10))"
    have IH: "10 ^ (?l - 1) \<le> n div 10" "n div 10 < 10 ^ ?l" using 1 False by auto
    have l: "?l > 0" by simp
    have len: "length (show_nat n) = Suc ?l" using False by (subst show_nat.simps) simp
    have "10 * 10 ^ (?l - 1) \<le> n" "n < 10 * 10 ^ ?l" using IH by linarith+
    then show ?thesis unfolding len using l by (cases ?l) simp_all
  qed
qed

text \<open>The maximum is the factor times the number of decimal digits of the server count.\<close>

lemma ceil_log_digits:
  assumes "0 < n"
  shows "\<lceil>ln (real n + 1) / ln 10\<rceil> = int (length (show_nat n))"
proof -
  let ?l = "length (show_nat n)"
  have b: "10 ^ (?l - 1) \<le> n" "n < 10 ^ ?l" using length_show_nat_pow [OF assms] by auto
  have log: "ln (real n + 1) / ln 10 = log 10 (real n + 1)" by (simp add: log_def)
  have "real n + 1 \<le> 10 ^ ?l" using b(2) by (metis Suc_leI of_nat_1 of_nat_add of_nat_le_iff of_nat_numeral of_nat_power Suc_eq_plus1)
  then have up: "log 10 (real n + 1) \<le> real ?l"
    using assms by (subst log_le_iff) (simp_all add: powr_realpow)
  have "real (10 ^ (?l - 1)) < real n + 1" using b(1) by linarith
  then have "real (?l - 1) < log 10 (real n + 1)"
    by (subst less_log_iff) (simp_all add: powr_realpow)
  moreover have "real (?l - 1) = real ?l - 1" by (cases ?l) auto
  ultimately show ?thesis unfolding log using up by (intro ceiling_unique) auto
qed

end
