(* ===== verification/Dissemination_Facts.thy ===== *)
theory Dissemination_Facts
  imports Dissemination
begin

text \<open>
  What is issued and what is kept: a change below the limit goes out unless its source is the peer, a
  change at the limit is dropped, and answering a peer uses up the changes it sends, so dissemination
  dies out.
\<close>

definition ds_ok :: "dissemination \<Rightarrow> bool" where
  "ds_ok ds \<longleftrightarrow> distinct (dkeys (ds_changes ds)) \<and>
     (\<forall>(a, c) \<in> set (ds_changes ds). u_address (dc_update c) = a)"

abbreviation spent :: "dissemination \<Rightarrow> dchange \<Rightarrow> bool" where
  "spent ds c \<equiv> dc_piggybackCount c \<ge> ds_maxPiggybackCount ds"

lemma recordChange_ok [preserves]: "ds_ok ds \<Longrightarrow> ds_ok (recordChange u ds)"
proof -
  assume ok: "ds_ok ds"
  let ?c = "\<lparr>dc_update = u, dc_piggybackCount = 0\<rparr>"
  have "distinct (dkeys (dset (u_address u) ?c (ds_changes ds)))"
    using ok by (intro dict.ok_put) (simp add: ds_ok_def)
  moreover have "set (dset (u_address u) ?c (ds_changes ds)) \<subseteq> insert (u_address u, ?c) (set (ds_changes ds))"
    by (rule snd_update)
  ultimately show ?thesis using ok by (fastforce simp: ds_ok_def recordChange_def)
qed

lemma filter_ddel: "ddel k d = filter (\<lambda>(a, c). a \<noteq> k) d"
  by (induction d) auto

lemma ds_emit_simps [frame, simp]:
  "ds_changes (ds_emit e ds) = ds_changes ds" "ds_maxPiggybackCount (ds_emit e ds) = ds_maxPiggybackCount ds"
  "ds_reverseFullSyncJobs (ds_emit e ds) = ds_reverseFullSyncJobs ds"
  by (simp_all add: ds_emit_def)

lemma issue_loop_ok:
  assumes "distinct (dkeys (ds_changes ds))" "distinct ks" "set ks \<subseteq> set (dkeys (ds_changes ds))"
  shows "ds_changes (snd (issue_loop f ks ds)) =
      filter (\<lambda>(a, c). \<not> (a \<in> set ks \<and> \<not> f (dc_update c) \<and> spent ds c)) (ds_changes ds) \<and>
    fst (issue_loop f ks ds) =
      map (\<lambda>a. outgoing (dc_update (the (dget (ds_changes ds) a))))
        (filter (\<lambda>a. let c = the (dget (ds_changes ds) a) in \<not> f (dc_update c) \<and> \<not> spent ds c) ks) \<and>
    ds_maxPiggybackCount (snd (issue_loop f ks ds)) = ds_maxPiggybackCount ds"
  using assms
proof (induction ks arbitrary: ds)
  case (Cons k ks)
  have "k \<in> set (dkeys (ds_changes ds))" using Cons.prems(3) by simp
  then obtain c where c: "dget (ds_changes ds) k = Some c"
    by (cases "dget (ds_changes ds) k") (simp_all add: map_of_eq_None_iff)
  have uniq: "c' = c" if "(k, c') \<in> set (ds_changes ds)" for c'
    using that c Cons.prems(1) by (metis dget_unique option.inject)
  show ?case
  proof (cases "\<not> f (dc_update c) \<and> spent ds c")
    case False
    have "filter (\<lambda>(a, x). \<not> (a \<in> set (k # ks) \<and> \<not> f (dc_update x) \<and> spent ds x)) (ds_changes ds) =
        filter (\<lambda>(a, x). \<not> (a \<in> set ks \<and> \<not> f (dc_update x) \<and> spent ds x)) (ds_changes ds)"
      using uniq False by (intro filter_cong) auto
    then show ?thesis
      using Cons.IH [of ds] Cons.prems c False by (auto simp: Let_def split: prod.splits)
  next
    case True
    let ?ds1 = "ds\<lparr>ds_changes := ddel k (ds_changes ds)\<rparr>"
    let ?ds2 = "if length (dkeys (ds_changes ?ds1)) = 0 then ds_emit ChangesExhausted ?ds1 else ?ds1"
    have ds2: "ds_changes ?ds2 = ddel k (ds_changes ds)" "ds_maxPiggybackCount ?ds2 = ds_maxPiggybackCount ds"
      by simp_all
    have d: "distinct (dkeys (ds_changes ?ds2))" unfolding ds2 using Cons.prems(1) by (rule dict.ok_del)
    have sub: "set ks \<subseteq> set (dkeys (ds_changes ?ds2))"
      unfolding ds2 dict.keys_del using Cons.prems(2,3) by auto
    have step: "issue_loop f (k # ks) ds = issue_loop f ks ?ds2"
      using c True by (simp add: Let_def)
    have get: "dget (ddel k (ds_changes ds)) a = dget (ds_changes ds) a" if "a \<in> set ks" for a
      using that Cons.prems(2) by (auto simp: dict.get_del)
    have "filter (\<lambda>(a, x). \<not> (a \<in> set ks \<and> \<not> f (dc_update x) \<and> spent ds x)) (ddel k (ds_changes ds)) =
        filter (\<lambda>(a, x). \<not> (a \<in> set (k # ks) \<and> \<not> f (dc_update x) \<and> spent ds x)) (ds_changes ds)"
      unfolding filter_ddel filter_filter using uniq True by (intro filter_cong) auto
    moreover have "filter (\<lambda>a. let c = the (dget (ddel k (ds_changes ds)) a) in \<not> f (dc_update c) \<and> \<not> spent ds c) ks =
        filter (\<lambda>a. let c = the (dget (ds_changes ds) a) in \<not> f (dc_update c) \<and> \<not> spent ds c) ks"
      using get by (intro filter_cong) auto
    moreover have "\<not> (let c = the (dget (ds_changes ds) k) in \<not> f (dc_update c) \<and> \<not> spent ds c)"
      using c True by (simp add: Let_def)
    ultimately show ?thesis
      using Cons.IH [OF d _ sub] Cons.prems(2) get unfolding step ds2 by simp
  qed
qed auto

lemma issueAs_ok:
  assumes ok: "ds_ok ds"
  shows "ds_changes (snd (issueAs f ds)) =
      filter (\<lambda>(a, c). f (dc_update c) \<or> \<not> spent ds c) (ds_changes ds)"
    "fst (issueAs f ds) =
      map (\<lambda>(a, c). outgoing (dc_update c))
        (filter (\<lambda>(a, c). \<not> f (dc_update c) \<and> \<not> spent ds c) (ds_changes ds))"
    "ds_maxPiggybackCount (snd (issueAs f ds)) = ds_maxPiggybackCount ds"
proof -
  have d: "distinct (dkeys (ds_changes ds))" using ok by (simp add: ds_ok_def)
  note loop = issue_loop_ok [OF d d order_refl, of f]
  have get: "dget (ds_changes ds) (fst x) = Some (snd x)" if "x \<in> set (ds_changes ds)" for x
    using that d by (metis dget_unique prod.collapse)
  show "ds_changes (snd (issueAs f ds)) =
      filter (\<lambda>(a, c). f (dc_update c) \<or> \<not> spent ds c) (ds_changes ds)"
    unfolding issueAs_def using loop by (auto intro!: filter_cong intro: rev_image_eqI)
  show "fst (issueAs f ds) =
      map (\<lambda>(a, c). outgoing (dc_update c))
        (filter (\<lambda>(a, c). \<not> f (dc_update c) \<and> \<not> spent ds c) (ds_changes ds))"
    unfolding issueAs_def using loop get
    by (auto simp: filter_map comp_def Let_def split_beta intro!: map_cong filter_cong)
  show "ds_maxPiggybackCount (snd (issueAs f ds)) = ds_maxPiggybackCount ds"
    unfolding issueAs_def using loop by blast
qed

text \<open>How many times the recorded changes can still go out.\<close>

definition budget :: "dissemination \<Rightarrow> nat" where
  "budget ds = sum_list (map (\<lambda>(a, c). nat (ds_maxPiggybackCount ds - dc_piggybackCount c)) (ds_changes ds))"

lemma bump_one:
  assumes "distinct (dkeys d)" "dget d a = Some c" "dc_piggybackCount c < m"
  shows "sum_list (map (\<lambda>(a, c). nat (m - dc_piggybackCount c))
      (dset a (c\<lparr>dc_piggybackCount := dc_piggybackCount c + 1\<rparr>) d)) + 1 =
    sum_list (map (\<lambda>(a, c). nat (m - dc_piggybackCount c)) d)"
  using assms by (induction d) auto

lemma bump_loop_budget:
  assumes "ds_ok ds" "distinct (map u_address us)"
    and "\<forall>u \<in> set us. \<exists>c. dget (ds_changes ds) (u_address u) = Some c \<and>
      u_id (dc_update c) = u_id u \<and> dc_piggybackCount c < ds_maxPiggybackCount ds"
  shows "ds_ok (bump_loop us ds) \<and> budget (bump_loop us ds) + length us = budget ds"
  using assms
proof (induction us arbitrary: ds)
  case (Cons u us)
  obtain c where c: "dget (ds_changes ds) (u_address u) = Some c" "u_id (dc_update c) = u_id u"
    "dc_piggybackCount c < ds_maxPiggybackCount ds" using Cons.prems(3) by auto
  let ?c = "c\<lparr>dc_piggybackCount := dc_piggybackCount c + 1\<rparr>"
  let ?ds = "ds\<lparr>ds_changes := dset (u_address u) ?c (ds_changes ds)\<rparr>"
  have d: "distinct (dkeys (ds_changes ds))" using Cons.prems(1) by (simp add: ds_ok_def)
  have "(u_address u, c) \<in> set (ds_changes ds)" using c(1) by (meson map_of_SomeD)
  then have "u_address (dc_update c) = u_address u" using Cons.prems(1) by (auto simp: ds_ok_def)
  then have ok: "ds_ok ?ds"
    using Cons.prems(1) dict.ok_put [OF d, of "u_address u" ?c] snd_update [of "u_address u" ?c "ds_changes ds"]
    by (fastforce simp: ds_ok_def)
  have rest: "\<forall>w \<in> set us. \<exists>c. dget (ds_changes ?ds) (u_address w) = Some c \<and>
      u_id (dc_update c) = u_id w \<and> dc_piggybackCount c < ds_maxPiggybackCount ?ds"
  proof
    fix w assume w: "w \<in> set us"
    then have "u_address w \<noteq> u_address u"
      using Cons.prems(2) by (metis distinct.simps(2) image_eqI list.simps(9) set_map)
    then show "\<exists>c. dget (ds_changes ?ds) (u_address w) = Some c \<and>
      u_id (dc_update c) = u_id w \<and> dc_piggybackCount c < ds_maxPiggybackCount ?ds"
      using Cons.prems(3) w by (simp add: dict.get_put)
  qed
  have "budget ?ds + 1 = budget ds" using bump_one [OF d c(1,3)] by (simp add: budget_def)
  then show ?case using Cons.IH [OF ok _ rest] Cons.prems(2) c(1,2) by simp
qed simp

lemma sum_filter_le: "sum_list (map g (filter P xs)) \<le> (sum_list (map g xs) :: nat)"
  by (induction xs) auto

lemma issueAs_budget:
  assumes ok: "ds_ok ds"
  shows "ds_ok (snd (issueAs f ds))"
    "budget (snd (issueAs f ds)) \<le> budget ds"
    "distinct (map u_address (fst (issueAs f ds)))"
    "\<forall>u \<in> set (fst (issueAs f ds)). \<exists>c. dget (ds_changes (snd (issueAs f ds))) (u_address u) = Some c \<and>
      u_id (dc_update c) = u_id u \<and>
      dc_piggybackCount c < ds_maxPiggybackCount (snd (issueAs f ds))"
proof -
  let ?d = "ds_changes ds" and ?d' = "ds_changes (snd (issueAs f ds))"
  note facts = issueAs_ok [OF ok, of f]
  have d: "distinct (dkeys ?d)" and key: "\<forall>(a, c) \<in> set ?d. u_address (dc_update c) = a"
    using ok by (auto simp: ds_ok_def)
  have d': "distinct (dkeys ?d')" unfolding facts(1) using d by (rule distinct_map_filter)
  then show "ds_ok (snd (issueAs f ds))" using key unfolding ds_ok_def facts(1) by auto
  show "budget (snd (issueAs f ds)) \<le> budget ds"
    unfolding budget_def facts(1,3) by (rule sum_filter_le)
  have "map u_address (fst (issueAs f ds)) =
      map fst (filter (\<lambda>(a, c). \<not> f (dc_update c) \<and> \<not> spent ds c) ?d)"
    using key unfolding facts(2) by (auto simp: outgoing_def)
  then show "distinct (map u_address (fst (issueAs f ds)))" by (simp only: distinct_map_filter [OF d])
  show "\<forall>u \<in> set (fst (issueAs f ds)). \<exists>c. dget ?d' (u_address u) = Some c \<and>
      u_id (dc_update c) = u_id u \<and> dc_piggybackCount c < ds_maxPiggybackCount (snd (issueAs f ds))"
  proof
    fix u assume "u \<in> set (fst (issueAs f ds))"
    then obtain a c where ac: "(a, c) \<in> set ?d" "\<not> spent ds c" "u = outgoing (dc_update c)"
      unfolding facts(2) by auto
    have a: "u_address u = a" using ac key by (auto simp: outgoing_def)
    have "(a, c) \<in> set ?d'" unfolding facts(1) using ac(1,2) by auto
    then have "dget ?d' a = Some c" using d' by (metis dget_unique)
    then show "\<exists>c. dget ?d' (u_address u) = Some c \<and> u_id (dc_update c) = u_id u \<and>
        dc_piggybackCount c < ds_maxPiggybackCount (snd (issueAs f ds))"
      using ac a facts(3) by (simp add: outgoing_def)
  qed
qed

end
