(* ===== verification/State_Transitions.thy ===== *)
theory State_Transitions
  imports Member
begin

text \<open>
  The timed state transitions of \<open>lib/gossip/state_transitions.js\<close>: a suspect member becomes faulty, a
  faulty one a tombstone and a tombstone is evicted, each after its timeout unless the member changes
  state before. \<open>setTimeout\<close> hands out fresh handles; the timeouts not yet fired or cleared are the
  pending ones, and firing one yields the call its callback makes.
\<close>

section \<open>State\<close>

datatype transition = SuspectToFaulty | FaultyToTombstone | TombstoneToEvict

record timeout =
  to_transition :: transition
  to_address :: string
  to_inc :: int
  to_delay :: int

record transitions =
  st_suspectTimeout :: int
  st_faultyTimeout :: int
  st_tombstoneTimeout :: int
  st_enabled :: bool
  st_timers :: "(nat \<times> status) dict"
  st_pending :: "(nat \<times> timeout) list"
  st_nextId :: nat

text \<open>\<open>_.defaults({}, options.periods, StateTransitions.Defaults)\<close>.\<close>

definition new_transitions :: "int option \<Rightarrow> int option \<Rightarrow> int option \<Rightarrow> transitions" where
  "new_transitions suspect faulty tombstone =
     \<lparr>st_suspectTimeout = (case suspect of None \<Rightarrow> 5 * 1000 | Some t \<Rightarrow> t),
      st_faultyTimeout = (case faulty of None \<Rightarrow> 24 * 60 * 60 * 1000 | Some t \<Rightarrow> t),
      st_tombstoneTimeout = (case tombstone of None \<Rightarrow> 60 * 1000 | Some t \<Rightarrow> t),
      st_enabled = True, st_timers = [], st_pending = [], st_nextId = 0\<rparr>"

definition st_setTimeout :: "timeout \<Rightarrow> transitions \<Rightarrow> nat \<times> transitions" where
  "st_setTimeout t st =
     (st_nextId st, st\<lparr>st_pending := st_pending st @ [(st_nextId st, t)], st_nextId := st_nextId st + 1\<rparr>)"

definition st_clearTimeout :: "nat \<Rightarrow> transitions \<Rightarrow> transitions" where
  "st_clearTimeout i st = st\<lparr>st_pending := filter (\<lambda>x. fst x \<noteq> i) (st_pending st)\<rparr>"

section \<open>Operations\<close>

definition st_cancel :: "string \<Rightarrow> transitions \<Rightarrow> transitions" where
  "st_cancel address st =
     (case dget (st_timers st) address of
        None \<Rightarrow> st
      | Some timer \<Rightarrow>
          (let st1 = st_clearTimeout (fst timer) st in
           st1\<lparr>st_timers := ddel address (st_timers st1)\<rparr>))"

definition st_schedule :: "string \<Rightarrow> update \<Rightarrow> status \<Rightarrow> transition \<Rightarrow> int \<Rightarrow> transitions \<Rightarrow> transitions" where
  "st_schedule whoami member state transition delay st =
     (if \<not> st_enabled st then st
      else if u_address member = whoami then st
      else
        (let start = (\<lambda>st0.
               let (i, st1) = st_setTimeout \<lparr>to_transition = transition, to_address = u_address member,
                     to_inc = u_inc member, to_delay = delay\<rparr> st0
               in st1\<lparr>st_timers := dset (u_address member) (i, state) (st_timers st1)\<rparr>)
         in (case dget (st_timers st) (u_address member) of
               None \<Rightarrow> start st
             | Some timer \<Rightarrow>
                 if snd timer = state then st else start (st_cancel (u_address member) st))))"

definition scheduleSuspectToFaulty :: "string \<Rightarrow> update \<Rightarrow> transitions \<Rightarrow> transitions" where
  "scheduleSuspectToFaulty whoami u st = st_schedule whoami u Suspect SuspectToFaulty (st_suspectTimeout st) st"

definition scheduleFaultyToTombstone :: "string \<Rightarrow> update \<Rightarrow> transitions \<Rightarrow> transitions" where
  "scheduleFaultyToTombstone whoami u st = st_schedule whoami u Faulty FaultyToTombstone (st_faultyTimeout st) st"

definition scheduleTombstoneToEvict :: "string \<Rightarrow> update \<Rightarrow> transitions \<Rightarrow> transitions" where
  "scheduleTombstoneToEvict whoami u st = st_schedule whoami u Tombstone TombstoneToEvict (st_tombstoneTimeout st) st"

fun handleUpdate :: "string \<Rightarrow> update \<Rightarrow> transitions \<Rightarrow> transitions" where
  "handleUpdate whoami u st =
     (case u_status u of
        Alive \<Rightarrow> st_cancel (u_address u) st
      | Leave \<Rightarrow> st_cancel (u_address u) st
      | Suspect \<Rightarrow> scheduleSuspectToFaulty whoami u st
      | Faulty \<Rightarrow> scheduleFaultyToTombstone whoami u st
      | Tombstone \<Rightarrow> scheduleTombstoneToEvict whoami u st
      | Unknown _ \<Rightarrow> st)"

definition st_enable :: "transitions \<Rightarrow> transitions" where
  "st_enable st = (if st_enabled st then st else st\<lparr>st_enabled := True\<rparr>)"

definition st_disable :: "transitions \<Rightarrow> transitions" where
  "st_disable st =
     fold (\<lambda>k st. (case dget (st_timers st) k of
             None \<Rightarrow> st
           | Some timer \<Rightarrow> (st_clearTimeout (fst timer) st)\<lparr>st_timers := ddel k (st_timers st)\<rparr>))
       (dkeys (st_timers st)) (st\<lparr>st_enabled := False\<rparr>)"

text \<open>A pending timeout fires; its entry in \<open>timers\<close> stays.\<close>

definition st_fire :: "nat \<Rightarrow> transitions \<Rightarrow> timeout option \<times> transitions" where
  "st_fire i st =
     (case map_of (st_pending st) i of
        None \<Rightarrow> (None, st)
      | Some t \<Rightarrow> (Some t, st_clearTimeout i st))"

section \<open>Invariant\<close>

text \<open>
  Every pending timeout is the one recorded for its address, with the state its transition starts
  from; while disabled there are none.
\<close>

fun from_state :: "transition \<Rightarrow> status" where
  "from_state SuspectToFaulty = Suspect"
| "from_state FaultyToTombstone = Faulty"
| "from_state TombstoneToEvict = Tombstone"

definition st_ok :: "string \<Rightarrow> transitions \<Rightarrow> bool" where
  "st_ok whoami st \<longleftrightarrow> distinct (dkeys (st_timers st)) \<and> distinct (map fst (st_pending st)) \<and>
     (\<forall>(i, t) \<in> set (st_pending st). i < st_nextId st \<and> to_address t \<noteq> whoami \<and>
        dget (st_timers st) (to_address t) = Some (i, from_state (to_transition t))) \<and>
     (\<forall>a i s. dget (st_timers st) a = Some (i, s) \<longrightarrow> i < st_nextId st \<and>
        (\<forall>b s'. dget (st_timers st) b = Some (i, s') \<longrightarrow> a = b)) \<and>
     (\<not> st_enabled st \<longrightarrow> st_pending st = [] \<and> st_timers st = [])"

lemma st_ok_new [preserves]: "st_ok whoami (new_transitions a b c)"
  by (simp add: st_ok_def new_transitions_def)

lemma pending_timer:
  "st_ok whoami st \<Longrightarrow> x \<in> set (st_pending st) \<Longrightarrow>
    dget (st_timers st) (to_address (snd x)) = Some (fst x, from_state (to_transition (snd x)))"
  by (auto simp: st_ok_def)

lemma timer_unique:
  "st_ok whoami st \<Longrightarrow> dget (st_timers st) a = Some (i, s) \<Longrightarrow> dget (st_timers st) b = Some (i, s') \<Longrightarrow> a = b"
  unfolding st_ok_def by blast

lemma st_cancel_eq:
  assumes ok: "st_ok whoami st"
  shows "st_cancel a st = st\<lparr>st_pending := filter (\<lambda>x. to_address (snd x) \<noteq> a) (st_pending st),
    st_timers := ddel a (st_timers st)\<rparr>"
proof (cases "dget (st_timers st) a")
  case None
  then have "\<forall>x \<in> set (st_pending st). to_address (snd x) \<noteq> a"
    using pending_timer [OF ok] by fastforce
  moreover have "ddel a (st_timers st) = st_timers st"
    using None by (simp add: delete_id map_of_eq_None_iff)
  ultimately show ?thesis using None by (simp add: st_cancel_def filter_id_conv)
next
  case (Some timer)
  have "fst x = fst timer \<longleftrightarrow> to_address (snd x) = a" if x: "x \<in> set (st_pending st)" for x
    using pending_timer [OF ok x] Some timer_unique [OF ok] by (metis fst_conv option.inject prod.collapse)
  then have "filter (\<lambda>x. fst x \<noteq> fst timer) (st_pending st) =
      filter (\<lambda>x. to_address (snd x) \<noteq> a) (st_pending st)"
    by (intro filter_cong) auto
  then show ?thesis using Some by (simp add: st_cancel_def st_clearTimeout_def Let_def)
qed

lemma st_cancel_ok [preserves]:
  assumes ok: "st_ok whoami st"
  shows "st_ok whoami (st_cancel a st)" "dget (st_timers (st_cancel a st)) a = None"
    "st_pending (st_cancel a st) = filter (\<lambda>x. to_address (snd x) \<noteq> a) (st_pending st)"
    "st_enabled (st_cancel a st) = st_enabled st"
proof -
  show "dget (st_timers (st_cancel a st)) a = None"
    "st_pending (st_cancel a st) = filter (\<lambda>x. to_address (snd x) \<noteq> a) (st_pending st)"
    "st_enabled (st_cancel a st) = st_enabled st"
    by (simp_all add: st_cancel_eq [OF ok] dict.get_del)
  have d: "distinct (dkeys (ddel a (st_timers st)))" "distinct (map fst (filter (\<lambda>x. to_address (snd x) \<noteq> a) (st_pending st)))"
    using ok by (auto simp: st_ok_def intro: dict.ok_del distinct_map_filter)
  show "st_ok whoami (st_cancel a st)"
    using ok d unfolding st_cancel_eq [OF ok] st_ok_def by (auto simp: dict.get_del)
qed

lemma st_start_ok:
  assumes ok: "st_ok whoami st" and free: "dget (st_timers st) a = None" and a: "a \<noteq> whoami" and en: "st_enabled st"
    and t: "to_address t = a" "from_state (to_transition t) = s"
  shows "st_ok whoami (st\<lparr>st_pending := st_pending st @ [(st_nextId st, t)], st_nextId := st_nextId st + 1,
    st_timers := dset a (st_nextId st, s) (st_timers st)\<rparr>)"
proof -
  have d: "distinct (dkeys (dset a (st_nextId st, s) (st_timers st)))"
    using ok by (intro dict.ok_put) (simp add: st_ok_def)
  let ?timers = "dset a (st_nextId st, s) (st_timers st)"
  have old: "to_address (snd x) \<noteq> a" if "x \<in> set (st_pending st)" for x
    using pending_timer [OF ok that] free by auto
  have fresh: "fst x < st_nextId st" if "x \<in> set (st_pending st)" for x
    using ok that by (auto simp: st_ok_def)
  then have ids: "distinct (map fst (st_pending st @ [(st_nextId st, t)]))"
    using ok by (auto simp: st_ok_def)
  have pend: "i < st_nextId st + 1 \<and> to_address t' \<noteq> whoami \<and>
      dget ?timers (to_address t') = Some (i, from_state (to_transition t'))"
    if "(i, t') \<in> set (st_pending st @ [(st_nextId st, t)])" for i t'
  proof (cases "(i, t') \<in> set (st_pending st)")
    case True
    then have "i < st_nextId st" "to_address t' \<noteq> whoami" using ok by (auto simp: st_ok_def)
    then show ?thesis using old [OF True] pending_timer [OF ok True] by (simp add: dict.get_put)
  next
    case False
    then show ?thesis using that a t by (simp add: dict.get_put)
  qed
  have lt: "i < st_nextId st" if "dget (st_timers st) b = Some (i, s')" for b i s'
    using ok that unfolding st_ok_def by blast
  have tim: "i < st_nextId st + 1 \<and> (\<forall>b' s''. dget ?timers b' = Some (i, s'') \<longrightarrow> b = b')"
    if "dget ?timers b = Some (i, s')" for b i s'
  proof (cases "b = a")
    case True
    then show ?thesis using that lt by (auto simp: dict.get_put split: if_splits)
  next
    case False
    then have b: "dget (st_timers st) b = Some (i, s')" using that by (simp add: dict.get_put)
    then have i: "i < st_nextId st" by (rule lt)
    have "b = b'" if b': "dget ?timers b' = Some (i, s'')" for b' s''
    proof (cases "b' = a")
      case True
      then show ?thesis using b' i by (simp add: dict.get_put)
    next
      case False
      then have "dget (st_timers st) b' = Some (i, s'')" using b' by (simp add: dict.get_put)
      then show ?thesis by (rule timer_unique [OF ok b])
    qed
    then show ?thesis using i by simp
  qed
  let ?st = "st\<lparr>st_pending := st_pending st @ [(st_nextId st, t)], st_nextId := st_nextId st + 1,
    st_timers := ?timers\<rparr>"
  have f: "st_timers ?st = ?timers" "st_pending ?st = st_pending st @ [(st_nextId st, t)]"
    "st_nextId ?st = st_nextId st + 1" "st_enabled ?st = st_enabled st" by simp_all
  show ?thesis
    unfolding st_ok_def f
  proof (intro conjI)
    show "\<forall>(i, t') \<in> set (st_pending st @ [(st_nextId st, t)]). i < st_nextId st + 1 \<and>
        to_address t' \<noteq> whoami \<and>
        dget ?timers (to_address t') = Some (i, from_state (to_transition t'))"
      using pend by blast
    show "\<forall>b i s'. dget ?timers b = Some (i, s') \<longrightarrow> i < st_nextId st + 1 \<and>
        (\<forall>b' s''. dget ?timers b' = Some (i, s'') \<longrightarrow> b = b')"
      using tim by blast
  qed (use d ids en in simp_all)
qed

lemma st_schedule_ok [preserves]:
  assumes ok: "st_ok whoami st" and s: "s = from_state tr"
  shows "st_ok whoami (st_schedule whoami u s tr d st)"
proof (cases "st_enabled st \<and> u_address u \<noteq> whoami")
  case False
  then show ?thesis using ok by (auto simp: st_schedule_def)
next
  case True
  let ?t = "\<lparr>to_transition = tr, to_address = u_address u, to_inc = u_inc u, to_delay = d\<rparr>"
  show ?thesis
  proof (cases "dget (st_timers st) (u_address u)")
    case None
    then show ?thesis
      using st_start_ok [OF ok None, of ?t s] True s
      by (simp add: st_schedule_def st_setTimeout_def Let_def)
  next
    case (Some timer)
    note c = st_cancel_ok [OF ok, of "u_address u"]
    show ?thesis
      using st_start_ok [OF c(1,2), of ?t s] True s ok Some c(4)
      by (simp add: st_schedule_def st_setTimeout_def Let_def)
  qed
qed

lemma handleUpdate_ok [preserves]: "st_ok whoami st \<Longrightarrow> st_ok whoami (handleUpdate whoami u st)"
  by (auto simp: scheduleSuspectToFaulty_def scheduleFaultyToTombstone_def scheduleTombstoneToEvict_def
      split: status.splits intro: st_cancel_ok(1) st_schedule_ok)

lemma st_clear_ok: "st_ok whoami st \<Longrightarrow> st_ok whoami (st_clearTimeout i st)"
  by (auto simp: st_ok_def st_clearTimeout_def intro: distinct_map_filter)

lemma st_fire_ok [preserves]: "st_ok whoami st \<Longrightarrow> st_ok whoami (snd (st_fire i st))"
  by (auto simp: st_fire_def st_clear_ok split: option.splits)

lemma st_enable_ok [preserves]: "st_ok whoami st \<Longrightarrow> st_ok whoami (st_enable st)"
  by (auto simp: st_enable_def st_ok_def)

text \<open>Disabling cancels one recorded timer after the other.\<close>

lemma disable_loop:
  assumes "st_ok whoami (st\<lparr>st_enabled := True\<rparr>)" "distinct ks" "set ks = set (dkeys (st_timers st))"
  shows "st_timers (fold (\<lambda>k st. (case dget (st_timers st) k of None \<Rightarrow> st
        | Some timer \<Rightarrow> (st_clearTimeout (fst timer) st)\<lparr>st_timers := ddel k (st_timers st)\<rparr>)) ks st) = [] \<and>
    st_pending (fold (\<lambda>k st. (case dget (st_timers st) k of None \<Rightarrow> st
        | Some timer \<Rightarrow> (st_clearTimeout (fst timer) st)\<lparr>st_timers := ddel k (st_timers st)\<rparr>)) ks st) = []"
  using assms
proof (induction ks arbitrary: st)
  case Nil
  have "st_pending st = []"
  proof (rule ccontr)
    assume "st_pending st \<noteq> []"
    then obtain x where x: "x \<in> set (st_pending (st\<lparr>st_enabled := True\<rparr>))" by (cases "st_pending st") auto
    have "st_timers st = []" using Nil.prems(3) by simp
    then show False using pending_timer [OF Nil.prems(1) x] by simp
  qed
  then show ?case using Nil.prems(3) by simp
next
  case (Cons k ks)
  obtain timer where timer: "dget (st_timers st) k = Some timer"
    using Cons.prems(3) by (metis list.set_intros(1) map_of_eq_None_iff not_None_eq set_map)
  let ?st = "(st_clearTimeout (fst timer) st)\<lparr>st_timers := ddel k (st_timers st)\<rparr>"
  have c: "st_cancel k (st\<lparr>st_enabled := True\<rparr>) = ?st\<lparr>st_enabled := True\<rparr>"
    using timer by (simp add: st_cancel_def st_clearTimeout_def Let_def)
  have ok: "st_ok whoami (?st\<lparr>st_enabled := True\<rparr>)" using st_cancel_ok(1) [OF Cons.prems(1), of k] unfolding c .
  have keys: "set ks = set (dkeys (st_timers ?st))"
    using Cons.prems(2,3) dict.keys_del [of k "st_timers st"] by auto
  show ?case using Cons.IH [OF ok _ keys] Cons.prems(2) timer by simp
qed

lemma st_disable_ok [preserves]:
  assumes ok: "st_ok whoami st"
  shows "st_ok whoami (st_disable st)" "st_pending (st_disable st) = []" "st_enabled (st_disable st) = False"
proof -
  have d: "distinct (dkeys (st_timers st))" using ok by (simp add: st_ok_def)
  have ok': "st_ok whoami ((st\<lparr>st_enabled := False\<rparr>)\<lparr>st_enabled := True\<rparr>)" using ok by (auto simp: st_ok_def)
  have "st_enabled (fold (\<lambda>k st. (case dget (st_timers st) k of None \<Rightarrow> st
        | Some timer \<Rightarrow> (st_clearTimeout (fst timer) st)\<lparr>st_timers := ddel k (st_timers st)\<rparr>)) ks st0) = st_enabled st0" for ks st0
    by (induction ks arbitrary: st0) (auto simp: st_clearTimeout_def split: option.splits)
  then show e: "st_enabled (st_disable st) = False" by (simp add: st_disable_def)
  have "st_timers (st_disable st) = [] \<and> st_pending (st_disable st) = []"
    unfolding st_disable_def by (rule disable_loop [OF ok' d]) simp
  then show "st_ok whoami (st_disable st)" "st_pending (st_disable st) = []"
    using e by (simp_all add: st_ok_def)
qed

lemma st_schedule_pending:
  assumes ok: "st_ok whoami st" and en: "st_enabled st" and a: "u_address u \<noteq> whoami"
  shows "if (\<exists>i. dget (st_timers st) (u_address u) = Some (i, s)) then st_schedule whoami u s tr d st = st
    else st_pending (st_schedule whoami u s tr d st) = filter (\<lambda>x. to_address (snd x) \<noteq> u_address u) (st_pending st) @
      [(st_nextId st, \<lparr>to_transition = tr, to_address = u_address u, to_inc = u_inc u, to_delay = d\<rparr>)]"
proof (cases "dget (st_timers st) (u_address u)")
  case None
  have "\<forall>x \<in> set (st_pending st). to_address (snd x) \<noteq> u_address u"
    using pending_timer [OF ok] None by fastforce
  then show ?thesis using None en a by (simp add: st_schedule_def st_setTimeout_def filter_id_conv)
next
  case (Some timer)
  have "st_nextId (st_cancel (u_address u) st) = st_nextId st" by (simp add: st_cancel_eq [OF ok])
  then show ?thesis using Some en a st_cancel_ok(3) [OF ok, of "u_address u"]
    by (cases timer) (auto simp: st_schedule_def st_setTimeout_def Let_def)
qed

end
