(* ===== verification/Dissemination_Properties.thy ===== *)
theory Dissemination_Properties
  imports Dissemination_Facts State_Transitions
begin

text \<open>
  The properties of dissemination and of the state transitions: what a peer is answered, that
  changes die out, the piggyback limit; that a pending timeout is the recorded one and never about
  the local member, and what a member suspected again under a newer incarnation number gets.
\<close>

section \<open>Answering a peer\<close>

definition demo_update :: "string \<Rightarrow> string \<Rightarrow> int \<Rightarrow> status \<Rightarrow> update" where
  "demo_update ident address inc status =
     \<lparr>u_id = Some ident, u_address = address, u_status = status, u_inc = inc,
      u_source = Some ''c:1'', u_sourceInc = Some 4, u_dampScore = None, u_tombstone = False\<rparr>"

definition demo_ds :: dissemination where
  "demo_ds = recordChange (demo_update ''i'' ''b:1'' 7 Suspect) new_dissemination"

lemma demo_ds_ok: "ds_ok demo_ds"
  unfolding demo_ds_def by (intro recordChange_ok) (simp add: ds_ok_def new_dissemination_def)

lemma issueAsReceiver_eq:
  "issueAsReceiver whoami ms senderAddr senderInc senderChecksum ds =
    (let cs = fst (issueAs (filterSource senderAddr senderInc) ds);
         full = (cs = [] \<and> ms_checksum ms \<noteq> senderChecksum);
         out = (if full then membershipAsChanges whoami ms else cs)
     in ((out, full), bump_loop out (snd (issueAs (filterSource senderAddr senderInc) ds))))"
  by (simp add: issueAsReceiver_def Let_def split: prod.splits)

text \<open>
  Changes die out: a node that answers a peer with changes uses up, from a budget that only
  recording a change or a larger cluster refills, one unit for each change it sends.
\<close>

theorem answering_spends_budget:
  assumes "ds_ok ds"
    and "issueAsReceiver whoami ms senderAddr senderInc senderChecksum ds = ((changes, False), ds')"
  shows "ds_ok ds' \<and> budget ds' + length changes \<le> budget ds"
proof -
  let ?r = "issueAs (filterSource senderAddr senderInc) ds"
  note b = issueAs_budget [OF assms(1), of "filterSource senderAddr senderInc"]
  have "changes = fst ?r" "ds' = bump_loop (fst ?r) (snd ?r)"
    using assms(2) by (auto simp: issueAsReceiver_eq Let_def split: if_splits)
  moreover have "ds_ok (bump_loop (fst ?r) (snd ?r))"
    "budget (bump_loop (fst ?r) (snd ?r)) + length (fst ?r) = budget (snd ?r)"
    using bump_loop_budget [OF b(1,3,4)] by auto
  ultimately show ?thesis using b(2) by simp
qed

theorem answering_spends_budget_witness:
  "\<exists>changes ds'. issueAsReceiver ''a:1'' new_membership (Some ''d:1'') (Some 3) None demo_ds
      = ((changes, False), ds') \<and> length changes = 1 \<and>
    ds_ok ds' \<and> budget ds' + length changes \<le> budget demo_ds"
proof -
  obtain changes ds' where e: "issueAsReceiver ''a:1'' new_membership (Some ''d:1'') (Some 3) None demo_ds
      = ((changes, False), ds')" "length changes = 1"
    by (simp add: issueAsReceiver_def issueAs_def demo_ds_def recordChange_def new_dissemination_def
        demo_update_def filterSource_def truthy_str_def truthy_num_def Let_def)
  then show ?thesis using answering_spends_budget [OF demo_ds_ok e(1)] by blast
qed

text \<open>
  What a peer is answered: a change whose source is the peer is never sent back, a change at the
  piggyback limit is not sent either, every other one is; the whole member list is sent exactly
  when there is no change to send and the checksums differ.
\<close>

theorem answer_correct:
  assumes "ds_ok ds"
    and "issueAsReceiver whoami ms senderAddr senderInc senderChecksum ds = ((changes, full), ds')"
  shows "(full \<longleftrightarrow> (\<forall>(a, c) \<in> set (ds_changes ds). filterSource senderAddr senderInc (dc_update c) \<or> spent ds c) \<and>
      ms_checksum ms \<noteq> senderChecksum) \<and>
    changes = (if full then membershipAsChanges whoami ms
      else map (\<lambda>(a, c). outgoing (dc_update c))
        (filter (\<lambda>(a, c). \<not> filterSource senderAddr senderInc (dc_update c) \<and> \<not> spent ds c) (ds_changes ds)))"
  using assms(2) issueAs_ok(2) [OF assms(1), of "filterSource senderAddr senderInc"]
  by (auto simp: issueAsReceiver_eq Let_def filter_empty_conv split: if_splits)

theorem answer_correct_witness:
  "\<exists>changes full ds'. issueAsReceiver ''a:1'' new_membership (Some ''c:1'') (Some 4) (Some 9) demo_ds
      = ((changes, full), ds') \<and> full \<and> changes = []"
proof -
  obtain changes full ds' where e: "issueAsReceiver ''a:1'' new_membership (Some ''c:1'') (Some 4) (Some 9) demo_ds
      = ((changes, full), ds')"
    by (cases "issueAsReceiver ''a:1'' new_membership (Some ''c:1'') (Some 4) (Some 9) demo_ds") auto
  have "full \<and> changes = []"
    using answer_correct [OF demo_ds_ok e]
    by (simp add: demo_ds_def recordChange_def new_dissemination_def demo_update_def filterSource_def
        truthy_str_def truthy_num_def new_membership_def membershipAsChanges_def)
  then show ?thesis using e by blast
qed

text \<open>
  A change is piggybacked at most 15 times the number of decimal digits of the server count: that
  is the maximum the adjustment computes with logarithms.
\<close>

theorem max_piggyback_digits:
  assumes "0 < serverCount" and "ds_piggybackFactor ds = 15"
  shows "ds_maxPiggybackCount (adjustMaxPiggybackCount serverCount ds) = 15 * int (length (show_nat serverCount))"
  using assms ceil_log_digits [OF assms(1)] by (simp add: adjustMaxPiggybackCount_def ds_emit_def Let_def)

theorem max_piggyback_digits_witness:
  "ds_maxPiggybackCount (adjustMaxPiggybackCount 1234 new_dissemination) = 60"
  using max_piggyback_digits [of 1234 new_dissemination]
  by (simp add: new_dissemination_def show_nat.simps)

section \<open>State transitions\<close>

text \<open>The states the component reaches: any updates, switches and firings, in any order.\<close>

inductive st_reachable :: "string \<Rightarrow> transitions \<Rightarrow> bool" for whoami where
  start: "st_reachable whoami (new_transitions s f t)"
| handle: "st_reachable whoami st \<Longrightarrow> st_reachable whoami (handleUpdate whoami u st)"
| enable: "st_reachable whoami st \<Longrightarrow> st_reachable whoami (st_enable st)"
| disable: "st_reachable whoami st \<Longrightarrow> st_reachable whoami (st_disable st)"
| fire: "st_reachable whoami st \<Longrightarrow> st_reachable whoami (snd (st_fire i st))"

lemma pending_not_local:
  "st_ok whoami st \<Longrightarrow> x \<in> set (st_pending st) \<Longrightarrow> to_address (snd x) \<noteq> whoami \<and> st_enabled st"
  by (cases x) (auto simp: st_ok_def)

lemma st_reachable_ok: "st_reachable whoami st \<Longrightarrow> st_ok whoami st"
  by (induction rule: st_reachable.induct)
    (blast intro: st_ok_new handleUpdate_ok st_enable_ok st_disable_ok(1) st_fire_ok)+

text \<open>
  In every reachable state the pending timeouts are those recorded, with the status they start
  from; each member has at most one, the local member none, and disabling leaves none.
\<close>

theorem pending_transitions_recorded:
  assumes "st_reachable whoami st" and "(i, t) \<in> set (st_pending st)"
  shows "dget (st_timers st) (to_address t) = Some (i, from_state (to_transition t)) \<and>
    to_address t \<noteq> whoami \<and> st_enabled st \<and>
    (\<forall>(j, t') \<in> set (st_pending st). to_address t' = to_address t \<longrightarrow> j = i \<and> t' = t)"
proof -
  note ok = st_reachable_ok [OF assms(1)]
  have "j = i \<and> t' = t" if x: "(j, t') \<in> set (st_pending st)" "to_address t' = to_address t" for j t'
  proof -
    have "j = i" using pending_timer [OF ok x(1)] pending_timer [OF ok assms(2)] x(2) by simp
    moreover have "distinct (map fst (st_pending st))" using ok by (simp add: st_ok_def)
    ultimately show ?thesis using x(1) assms(2) by (metis eq_key_imp_eq_value)
  qed
  then show ?thesis
    using pending_timer [OF ok assms(2)] pending_not_local [OF ok assms(2)] by auto
qed

lemmas demo_st_simps = new_transitions_def demo_update_def scheduleSuspectToFaulty_def st_schedule_def
  st_setTimeout_def Let_def

abbreviation demo_st :: transitions where
  "demo_st \<equiv> handleUpdate ''a:1'' (demo_update ''i'' ''b:1'' 7 Suspect) (new_transitions None None None)"

theorem pending_transitions_recorded_witness:
  "dget (st_timers demo_st) ''b:1'' = Some (0, Suspect)"
proof -
  have "st_reachable ''a:1'' demo_st" by (intro st_reachable.intros)
  moreover have "(0, \<lparr>to_transition = SuspectToFaulty, to_address = ''b:1'', to_inc = 7, to_delay = 5000\<rparr>)
      \<in> set (st_pending demo_st)" by (simp add: demo_st_simps)
  ultimately show ?thesis using pending_transitions_recorded by fastforce
qed

text \<open>
  An update moves a member's transition: a member heard to be alive or to have left has none; a
  suspect, faulty or tombstone member has one from that status, whose delay is the configured one, unless
  one from that status was scheduled before.
\<close>

theorem handleUpdate_correct:
  assumes "st_reachable whoami st" "st_enabled st" "u_address u \<noteq> whoami" "known_status (u_status u)"
  shows "if u_status u \<in> {Alive, Leave}
    then dget (st_timers (handleUpdate whoami u st)) (u_address u) = None \<and>
      st_pending (handleUpdate whoami u st) = filter (\<lambda>(i, t). to_address t \<noteq> u_address u) (st_pending st)
    else if (\<exists>i. dget (st_timers st) (u_address u) = Some (i, u_status u))
    then handleUpdate whoami u st = st
    else \<exists>tr d. from_state tr = u_status u \<and>
      d = (case tr of SuspectToFaulty \<Rightarrow> st_suspectTimeout st | FaultyToTombstone \<Rightarrow> st_faultyTimeout st
           | TombstoneToEvict \<Rightarrow> st_tombstoneTimeout st) \<and>
      st_pending (handleUpdate whoami u st) = filter (\<lambda>(i, t). to_address t \<noteq> u_address u) (st_pending st) @
        [(st_nextId st, \<lparr>to_transition = tr, to_address = u_address u, to_inc = u_inc u, to_delay = d\<rparr>)]"
proof -
  note ok = st_reachable_ok [OF assms(1)]
  note s = st_schedule_pending [OF ok assms(2,3)]
  show ?thesis
    using assms(4) st_cancel_ok(2,3) [OF ok, of "u_address u"] s [of Suspect SuspectToFaulty "st_suspectTimeout st"]
      s [of Faulty FaultyToTombstone "st_faultyTimeout st"] s [of Tombstone TombstoneToEvict "st_tombstoneTimeout st"]
    by (cases "u_status u") (auto simp: scheduleSuspectToFaulty_def scheduleFaultyToTombstone_def scheduleTombstoneToEvict_def
        case_prod_beta' split: status.splits) 
qed

theorem handleUpdate_correct_witness:
  "st_pending (handleUpdate ''a:1'' (demo_update ''j'' ''b:1'' 8 Faulty) demo_st) =
    [(1, \<lparr>to_transition = FaultyToTombstone, to_address = ''b:1'', to_inc = 8, to_delay = 86400000\<rparr>)]"
proof -
  define st where "st = demo_st"
  define u where "u = demo_update ''j'' ''b:1'' 8 Faulty"
  have u: "u_address u = ''b:1''" "u_status u = Faulty" "u_inc u = 8" by (simp_all add: u_def demo_update_def)
  have r: "st_reachable ''a:1'' st" unfolding st_def by (intro st_reachable.intros)
  have st: "dget (st_timers st) ''b:1'' = Some (0, Suspect)" "st_enabled st"
    "st_pending st = [(0, \<lparr>to_transition = SuspectToFaulty, to_address = ''b:1'', to_inc = 7, to_delay = 5000\<rparr>)]"
    "st_nextId st = 1" "st_faultyTimeout st = 86400000"
    by (simp_all add: st_def demo_st_simps)
  obtain tr d where tr: "from_state tr = Faulty"
    "d = (case tr of SuspectToFaulty \<Rightarrow> st_suspectTimeout st | FaultyToTombstone \<Rightarrow> st_faultyTimeout st
           | TombstoneToEvict \<Rightarrow> st_tombstoneTimeout st)"
    "st_pending (handleUpdate ''a:1'' u st) =
      [(1, \<lparr>to_transition = tr, to_address = ''b:1'', to_inc = 8, to_delay = d\<rparr>)]"
    using handleUpdate_correct [OF r st(2), of u] u st by (auto simp del: handleUpdate.simps)
  then have "st_pending (handleUpdate ''a:1'' u st) =
    [(1, \<lparr>to_transition = FaultyToTombstone, to_address = ''b:1'', to_inc = 8, to_delay = 86400000\<rparr>)]"
    using st(5) by (cases tr) (simp_all del: handleUpdate.simps)
  then show ?thesis unfolding st_def u_def .
qed

end
