(* ===== verification/Gossip.thy ===== *)
theory Gossip
  imports Membership_Choose Dissemination
begin

text \<open>
  The failure detector of a node: the protocol loop of \<open>lib/gossip/index.js\<close>, the pings of
  \<open>ping-sender.js\<close> and the indirect pings of \<open>ping-req-sender.js\<close>. Period timeouts are explicit: the
  pending ones are a list of handles and delays, firing one removes it. The median of the ping timings
  (a histogram of the \<open>metrics\<close> package), the clock and the random numbers are arguments; the answers to
  requests arrive as arguments of the callbacks.
\<close>

section \<open>The protocol loop\<close>

record gossip =
  g_minProtocolPeriod :: int
  g_isPinging :: bool
  g_isStopped :: bool
  g_lastProtocolPeriod :: int
  g_lastProtocolRate :: real
  g_numProtocolPeriods :: nat
  g_protocolPeriodTimer :: "nat option"
  g_protocolRateTimer :: bool
  g_pending :: "(nat \<times> real) list"
  g_nextId :: nat

text \<open>\<open>options.minProtocolPeriod || 200\<close>.\<close>

definition new_gossip :: "int option \<Rightarrow> int \<Rightarrow> gossip" where
  "new_gossip minProtocolPeriod now =
     \<lparr>g_minProtocolPeriod = (case minProtocolPeriod of None \<Rightarrow> 200 | Some p \<Rightarrow> if p = 0 then 200 else p),
      g_isPinging = False, g_isStopped = True, g_lastProtocolPeriod = now, g_lastProtocolRate = 0,
      g_numProtocolPeriods = 0, g_protocolPeriodTimer = None, g_protocolRateTimer = False,
      g_pending = [], g_nextId = 0\<rparr>"

definition computeProtocolDelay :: "int \<Rightarrow> real \<Rightarrow> gossip \<Rightarrow> real" where
  "computeProtocolDelay now random g =
     (if g_numProtocolPeriods g \<noteq> 0 then
        (let target = real_of_int (g_lastProtocolPeriod g) + g_lastProtocolRate g in
         max (target - real_of_int now) (real_of_int (g_minProtocolPeriod g)))
      else real_of_int \<lfloor>random * real_of_int (g_minProtocolPeriod g + 1)\<rfloor>)"

definition computeProtocolRate :: "real \<Rightarrow> gossip \<Rightarrow> real" where
  "computeProtocolRate median g = (let observed = median * 2 in max observed (real_of_int (g_minProtocolPeriod g)))"

datatype gossip_status = Started | Stopped

definition getStatus :: "gossip \<Rightarrow> gossip_status" where
  "getStatus g = (if g_isStopped g then Stopped else Started)"

definition g_run :: "int \<Rightarrow> real \<Rightarrow> gossip \<Rightarrow> gossip" where
  "g_run now random g =
     (let protocolDelay = computeProtocolDelay now random g in
      g\<lparr>g_protocolPeriodTimer := Some (g_nextId g),
        g_pending := g_pending g @ [(g_nextId g, protocolDelay)], g_nextId := g_nextId g + 1\<rparr>)"

text \<open>The rate timer: whether the interval is set, and what its tick does.\<close>

definition startProtocolRateTimer :: "gossip \<Rightarrow> gossip" where
  "startProtocolRateTimer g = g\<lparr>g_protocolRateTimer := True\<rparr>"

definition onRateTimer :: "real \<Rightarrow> gossip \<Rightarrow> gossip" where
  "onRateTimer median g = g\<lparr>g_lastProtocolRate := computeProtocolRate median g\<rparr>"

definition g_start :: "(nat list \<Rightarrow> nat list) \<Rightarrow> int \<Rightarrow> real \<Rightarrow> membership \<Rightarrow> gossip \<Rightarrow>
    membership \<times> gossip" where
  "g_start shuffle now random ms g =
     (if \<not> g_isStopped g then (ms, g)
      else (ms_shuffle shuffle ms,
            (startProtocolRateTimer (g_run now random g))\<lparr>g_isStopped := False\<rparr>))"

definition g_stop :: "gossip \<Rightarrow> gossip" where
  "g_stop g =
     (if g_isStopped g then g
      else g\<lparr>g_protocolRateTimer := False,
             g_pending := filter (\<lambda>x. Some (fst x) \<noteq> g_protocolPeriodTimer g) (g_pending g),
             g_protocolPeriodTimer := None, g_isStopped := True\<rparr>)"

text \<open>
  \<open>tick\<close>: the member to ping, or that the callback is called at once. When the ping succeeds, or
  the indirect pings that follow a failed one are over, \<open>isPinging\<close> is cleared and the callback called.
\<close>

definition g_tick :: "(nat \<Rightarrow> nat list \<Rightarrow> nat list) \<Rightarrow> node_ctx \<Rightarrow> ms_iter \<Rightarrow> membership \<Rightarrow> gossip \<Rightarrow>
    (nat option \<times> ms_iter \<times> membership \<times> gossip) option" where
  "g_tick shuffle ctx it ms g =
     (if g_isPinging g then Some (None, it, ms, g)
      else if \<not> x_isReady ctx then Some (None, it, ms, g)
      else (case mi_next shuffle ctx it ms of
              None \<Rightarrow> None
            | Some (None, it', ms') \<Rightarrow> Some (None, it', ms', g)
            | Some (Some member, it', ms') \<Rightarrow> Some (Some member, it', ms', g\<lparr>g_isPinging := True\<rparr>)))"

definition ping_over :: "gossip \<Rightarrow> gossip" where
  "ping_over g = g\<lparr>g_isPinging := False\<rparr>"

text \<open>The callback the loop gives to \<open>tick\<close>; and the timeout, which fires when its time has come.\<close>

definition onMemberPinged :: "int \<Rightarrow> real \<Rightarrow> gossip \<Rightarrow> gossip" where
  "onMemberPinged now random g =
     (let g1 = g\<lparr>g_lastProtocolPeriod := now, g_numProtocolPeriods := g_numProtocolPeriods g + 1\<rparr> in
      if g_isStopped g1 then g1 else g_run now random g1)"

definition onGossipTimer :: "(nat \<Rightarrow> nat list \<Rightarrow> nat list) \<Rightarrow> node_ctx \<Rightarrow> int \<Rightarrow> real \<Rightarrow> nat \<Rightarrow> ms_iter \<Rightarrow>
    membership \<Rightarrow> gossip \<Rightarrow> (nat option \<times> ms_iter \<times> membership \<times> gossip) option" where
  "onGossipTimer shuffle ctx now random i it ms g =
     (case g_tick shuffle ctx it ms (g\<lparr>g_pending := filter (\<lambda>x. fst x \<noteq> i) (g_pending g)\<rparr>) of
        None \<Rightarrow> None
      | Some (None, it', ms', g') \<Rightarrow> Some (None, it', ms', onMemberPinged now random g')
      | Some (Some member, it', ms', g') \<Rightarrow> Some (Some member, it', ms', g'))"

section \<open>Pings\<close>

text \<open>The body of a ping, of a ping-req (with a target) and of what is answered.\<close>

record ping_body =
  pg_checksum :: "int option"
  pg_changes :: "update list"
  pg_source :: string
  pg_sourceInc :: "int option"
  pg_app :: "string option"

definition ping_request :: "node_ctx \<Rightarrow> string \<Rightarrow> membership \<Rightarrow> dissemination \<Rightarrow> ping_body \<times> dissemination" where
  "ping_request ctx app ms ds =
     (let (changes, ds') = issueAsSender ds in
      (\<lparr>pg_checksum = ms_checksum ms, pg_changes = changes, pg_source = x_whoami ctx,
        pg_sourceInc = getIncarnationNumber ms, pg_app = Some app\<rparr>, ds'))"

datatype ping_error = PingTransport | PingNoResponse

text \<open>
  \<open>onPing\<close>, after \<open>onIssue\<close>: the changes to apply, or the error. A response is the changes it
  carries, \<open>None\<close> when there is no body or no changes in it.
\<close>

definition onPing :: "('e + update list option) \<Rightarrow> ping_error + update list" where
  "onPing res =
     (case res of
        Inl err \<Rightarrow> Inl PingTransport
      | Inr None \<Rightarrow> Inl PingNoResponse
      | Inr (Some changes) \<Rightarrow> Inr changes)"

section \<open>Indirect pings\<close>

datatype ping_req_error = PingReqPingError | BadPingReqRespBodyError | BadPingReqPingStatusError

text \<open>\<open>PingReqSender.onPingReq\<close>: the changes it applies and what its callback gets.\<close>

definition onPingReq :: "('e + (update list \<times> bool) option) \<Rightarrow> update list option \<times> ping_req_error option" where
  "onPingReq res =
     (case res of
        Inl err \<Rightarrow> (None, Some PingReqPingError)
      | Inr None \<Rightarrow> (None, Some BadPingReqRespBodyError)
      | Inr (Some (changes, pingStatus)) \<Rightarrow>
          (Some changes, if \<not> pingStatus then Some BadPingReqPingStatusError else None))"

text \<open>A round of \<open>sendPingReqs\<close>: the errors so far, and whether it has called back.\<close>

record ping_reqs =
  pr_numMembers :: nat
  pr_errors :: "ping_req_error list"
  pr_calledBack :: bool

datatype ping_reqs_result = Reachable | Unreachable | Inconclusive

definition new_ping_reqs :: "nat \<Rightarrow> ping_reqs" where
  "new_ping_reqs n = \<lparr>pr_numMembers = n, pr_errors = [], pr_calledBack = False\<rparr>"

text \<open>\<open>onPingReqHandler\<close>; \<open>Unreachable\<close> makes the member suspect before it calls back.\<close>

definition onPingReqHandler :: "ping_req_error option \<Rightarrow> ping_reqs \<Rightarrow> ping_reqs_result option \<times> ping_reqs" where
  "onPingReqHandler err pr =
     (if pr_calledBack pr then (None, pr)
      else (case err of
              None \<Rightarrow> (Some Reachable, pr\<lparr>pr_calledBack := True\<rparr>)
            | Some e \<Rightarrow>
                (let pr1 = pr\<lparr>pr_errors := pr_errors pr @ [e]\<rparr> in
                 if length (pr_errors pr1) < pr_numMembers pr then (None, pr1)
                 else
                   (let numPingReqStatusErrs = length (filter (\<lambda>x. x = BadPingReqPingStatusError) (pr_errors pr1)) in
                    if numPingReqStatusErrs > 0 then (Some Unreachable, pr1\<lparr>pr_calledBack := True\<rparr>)
                    else (Some Inconclusive, pr1\<lparr>pr_calledBack := True\<rparr>)))))"

text \<open>Who is asked; with nobody to ask the member is suspect at once.\<close>

definition sendPingReqs :: "(nat \<Rightarrow> nat list \<Rightarrow> nat list) \<Rightarrow> node_ctx \<Rightarrow> nat \<Rightarrow> string \<Rightarrow> membership \<Rightarrow>
    nat list \<times> ping_reqs \<times> ping_reqs_result option" where
  "sendPingReqs sample ctx pingReqSize unreachableMember ms =
     (let pingReqMembers = getRandomPingableMembers sample ctx pingReqSize [unreachableMember] ms in
      (pingReqMembers, new_ping_reqs (length pingReqMembers),
       if length pingReqMembers = 0 then Some Unreachable else None))"

text \<open>The results a round calls back with when the answers arrive one after the other.\<close>

fun ping_reqs_round :: "ping_req_error option list \<Rightarrow> ping_reqs \<Rightarrow> ping_reqs_result list" where
  "ping_reqs_round [] pr = []"
| "ping_reqs_round (err # errs) pr =
     (let (res, pr') = onPingReqHandler err pr in
      (case res of None \<Rightarrow> [] | Some r \<Rightarrow> [r]) @ ping_reqs_round errs pr')"

section \<open>Lemmas\<close>

lemma round_over: "pr_calledBack pr \<Longrightarrow> ping_reqs_round errs pr = []"
  by (induction errs) (simp_all add: onPingReqHandler_def)

text \<open>A round calls back exactly once, with the verdict the answers call for.\<close>

definition verdict :: "ping_req_error option list \<Rightarrow> ping_reqs_result" where
  "verdict answers =
     (if None \<in> set answers then Reachable
      else if Some BadPingReqPingStatusError \<in> set answers then Unreachable
      else Inconclusive)"

lemma round_verdict:
  assumes "\<not> pr_calledBack pr" "length (pr_errors pr) + length answers = pr_numMembers pr" "answers \<noteq> []"
  shows "ping_reqs_round answers pr = [verdict (map Some (pr_errors pr) @ answers)]"
  using assms
proof (induction answers arbitrary: pr)
  case (Cons a answers)
  show ?case
  proof (cases a)
    case None
    then show ?thesis using Cons.prems by (simp add: onPingReqHandler_def round_over verdict_def)
  next
    case (Some e)
    let ?pr = "pr\<lparr>pr_errors := pr_errors pr @ [e]\<rparr>"
    show ?thesis
    proof (cases "answers = []")
      case True
      have "filter (\<lambda>x. x = BadPingReqPingStatusError) (pr_errors pr @ [e]) \<noteq> [] \<longleftrightarrow>
          BadPingReqPingStatusError \<in> set (pr_errors pr @ [e])"
        by (auto simp: filter_empty_conv)
      then show ?thesis using Cons.prems Some True
        by (auto simp: onPingReqHandler_def verdict_def Let_def)
    next
      case False
      have "ping_reqs_round answers ?pr = [verdict (map Some (pr_errors ?pr) @ answers)]"
        using Cons.IH [of ?pr] Cons.prems False by simp
      moreover have "length (pr_errors ?pr) < pr_numMembers pr" using Cons.prems(2) False by (cases answers) auto
      ultimately show ?thesis using Cons.prems(1) Some by (simp add: onPingReqHandler_def Let_def)
    qed
  qed
qed simp

text \<open>A loop that is not stopped always has a pending period or a ping under way.\<close>

lemma g_tick_frame:
  "g_tick shuffle ctx it ms g = Some (r, it', ms', g') \<Longrightarrow>
    g' = g\<lparr>g_isPinging := g_isPinging g \<or> r \<noteq> None\<rparr> \<and> (r \<noteq> None \<longrightarrow> \<not> g_isPinging g)"
  by (cases g) (auto simp: g_tick_def split: if_splits option.splits prod.splits)

end
