(* ===== verification/Gossip_Properties.thy ===== *)
theory Gossip_Properties
  imports Gossip Membership_Properties
begin

text \<open>
  The properties of the failure detector: a started protocol loop never stalls, the delay of a period
  is bounded, and a round of indirect pings calls back exactly once with the verdict its answers call for.
\<close>

section \<open>The loop\<close>

text \<open>
  The states of the loop, with two ghosts: whether the ping under way is the loop's own (an admin
  request may tick, too), and whether the run is orderly: the loop was never started again while a ping
  of its own was under way. Pending timeouts fire in any order.
\<close>

inductive g_reachable :: "gossip \<Rightarrow> bool \<Rightarrow> bool \<Rightarrow> bool" where
  init: "g_reachable (new_gossip p now) False True"
| start: "g_reachable g l orderly \<Longrightarrow>
    g_reachable (snd (g_start shuffle now random ms g)) l (orderly \<and> (g_isStopped g \<longrightarrow> \<not> l))"
| stop: "g_reachable g l orderly \<Longrightarrow> g_reachable (g_stop g) l orderly"
| rate: "g_reachable g l orderly \<Longrightarrow> g_reachable (onRateTimer median g) l orderly"
| fire: "g_reachable g l orderly \<Longrightarrow> i \<in> fst ` set (g_pending g) \<Longrightarrow>
    onGossipTimer shuffle ctx now random i it ms g = Some (r, it', ms', g') \<Longrightarrow>
    g_reachable g' (l \<or> r \<noteq> None) orderly"
| admin_tick: "g_reachable g l orderly \<Longrightarrow> g_tick shuffle ctx it ms g = Some (r, it', ms', g') \<Longrightarrow>
    g_reachable g' l orderly"
| pinged: "g_reachable g True orderly \<Longrightarrow> g_isPinging g \<Longrightarrow>
    g_reachable (onMemberPinged now random (ping_over g)) False orderly"
| admin_pinged: "g_reachable g False orderly \<Longrightarrow> g_isPinging g \<Longrightarrow> g_reachable (ping_over g) False orderly"

definition g_alive :: "gossip \<Rightarrow> bool \<Rightarrow> bool" where
  "g_alive g l \<longleftrightarrow> (g_isStopped g \<or> g_pending g \<noteq> [] \<or> l) \<and> (l \<longrightarrow> g_isPinging g) \<and>
     (g_isStopped g \<longleftrightarrow> g_protocolPeriodTimer g = None) \<and> (g_isStopped g \<longleftrightarrow> \<not> g_protocolRateTimer g)"

lemma alive_run: "g_pending (g_run now random g) \<noteq> []" "g_protocolPeriodTimer (g_run now random g) \<noteq> None"
  "g_isStopped (g_run now random g) = g_isStopped g" "g_isPinging (g_run now random g) = g_isPinging g"
  "g_protocolRateTimer (g_run now random g) = g_protocolRateTimer g"
  by (simp_all add: g_run_def Let_def)

lemma alive_pinged: "g_alive g l \<Longrightarrow> g_alive (onMemberPinged now random (g\<lparr>g_isPinging := b, g_pending := ps\<rparr>)) (l \<and> b)"
  by (auto simp: g_alive_def onMemberPinged_def Let_def alive_run)

lemma alive_fire:
  assumes "g_alive g l" "onGossipTimer shuffle ctx now random i it ms g = Some (r, it', ms', g')"
  shows "g_alive g' (l \<or> r \<noteq> None)"
proof -
  let ?g = "g\<lparr>g_pending := filter (\<lambda>x. fst x \<noteq> i) (g_pending g)\<rparr>"
  obtain g1 where t: "g_tick shuffle ctx it ms ?g = Some (r, it', ms', g1)"
    "g' = (if r = None then onMemberPinged now random g1 else g1)"
    using assms(2) by (auto simp: onGossipTimer_def split: option.splits prod.splits)
  note f = g_tick_frame [OF t(1)]
  show ?thesis
  proof (cases r)
    case None
    then have g': "g' = onMemberPinged now random (g\<lparr>g_isPinging := g_isPinging g, g_pending := filter (\<lambda>x. fst x \<noteq> i) (g_pending g)\<rparr>)"
      using t(2) f by simp
    have "g_alive g' (l \<and> g_isPinging g)" unfolding g' by (rule alive_pinged [OF assms(1)])
    moreover have "l \<and> g_isPinging g \<longleftrightarrow> l" using assms(1) by (auto simp: g_alive_def)
    ultimately show ?thesis using None by simp
  next
    case (Some m)
    then have g': "g' = g\<lparr>g_pending := filter (\<lambda>x. fst x \<noteq> i) (g_pending g), g_isPinging := True\<rparr>"
      using t(2) f by simp
    show ?thesis using assms(1) Some unfolding g' g_alive_def by auto
  qed
qed

lemma reachable_alive: "g_reachable g l orderly \<Longrightarrow> g_alive g l"
proof (induction rule: g_reachable.induct)
  case (pinged g orderly now random)
  have "ping_over g = g\<lparr>g_isPinging := False, g_pending := g_pending g\<rparr>" by (simp add: ping_over_def)
  then show ?case using alive_pinged [OF pinged.IH, where b = False and ps = "g_pending g"] by simp
next
  case (fire g l orderly i shuffle ctx now random it ms r it' ms' g')
  then show ?case using alive_fire by blast
next
  case (admin_tick g l orderly shuffle ctx it ms r it' ms' g')
  then show ?case using g_tick_frame [OF admin_tick.hyps(2)] by (auto simp: g_alive_def)
next
  case (start g l orderly shuffle now random ms)
  then show ?case by (auto simp: g_start_def g_alive_def startProtocolRateTimer_def alive_run)
qed (auto simp: g_alive_def new_gossip_def g_stop_def onRateTimer_def ping_over_def)

text \<open>The pending timeouts of an orderly run are those of the handle.\<close>

definition g_single :: "gossip \<Rightarrow> bool \<Rightarrow> bool" where
  "g_single g l \<longleftrightarrow> map fst (g_pending g) =
     (case g_protocolPeriodTimer g of None \<Rightarrow> [] | Some t \<Rightarrow> if l then [] else [t])"

lemma single_pinged:
  assumes "g_pending g = []" "g_isStopped g \<longleftrightarrow> g_protocolPeriodTimer g = None"
  shows "g_single (onMemberPinged now random g) False"
  using assms by (auto simp: g_single_def onMemberPinged_def g_run_def Let_def)

lemma reachable_single: "g_reachable g l orderly \<Longrightarrow> orderly \<Longrightarrow> g_single g l"
proof (induction rule: g_reachable.induct)
  case (start g l orderly shuffle now random ms)
  then show ?case
    using reachable_alive [OF start.hyps]
    by (auto simp: g_single_def g_alive_def g_start_def startProtocolRateTimer_def g_run_def Let_def)
next
  case (stop g l orderly)
  then show ?case
    using reachable_alive [OF stop.hyps]
    by (auto simp: g_single_def g_alive_def g_stop_def filter_empty_conv split: option.splits if_splits)
next
  case (fire g l orderly i shuffle ctx now random it ms r it' ms' g')
  have p: "\<not> l" "g_protocolPeriodTimer g = Some i" "filter (\<lambda>x. fst x \<noteq> i) (g_pending g) = []"
    using fire.IH [OF fire.prems] fire.hyps(2) by (auto simp: g_single_def split: option.splits if_splits)
  let ?g = "g\<lparr>g_pending := filter (\<lambda>x. fst x \<noteq> i) (g_pending g)\<rparr>"
  obtain g1 where t: "g_tick shuffle ctx it ms ?g = Some (r, it', ms', g1)"
    "g' = (if r = None then onMemberPinged now random g1 else g1)"
    using fire.hyps(3) by (auto simp: onGossipTimer_def split: option.splits prod.splits)
  have "g1 = ?g\<lparr>g_isPinging := g_isPinging ?g \<or> r \<noteq> None\<rparr>" using g_tick_frame [OF t(1)] by blast
  then have g1: "g_pending g1 = []" "g_isStopped g1 = g_isStopped g" "g_protocolPeriodTimer g1 = Some i"
    using p by simp_all
  have "\<not> g_isStopped g" using reachable_alive [OF fire.hyps(1)] p(2) by (simp add: g_alive_def)
  then show ?case
    using single_pinged [OF g1(1), of now random] g1 t(2) p(1) by (cases r) (simp_all add: g_single_def)
next
  case (admin_tick g l orderly shuffle ctx it ms r it' ms' g')
  then show ?case using g_tick_frame [OF admin_tick.hyps(2)] by (auto simp: g_single_def)
next
  case (pinged g orderly now random)
  have "g_pending (ping_over g) = []"
    using pinged.IH [OF pinged.prems] by (simp add: g_single_def ping_over_def split: option.splits)
  then show ?case
    using single_pinged [of "ping_over g"] reachable_alive [OF pinged.hyps(1)] by (simp add: ping_over_def g_alive_def)
qed (auto simp: g_single_def new_gossip_def onRateTimer_def ping_over_def)

text \<open>What an orderly run gives to those that stop the loop: every pending timeout has its handle.\<close>

definition g_held :: "gossip \<Rightarrow> bool" where
  "g_held g \<longleftrightarrow> (\<forall>p \<in> set (g_pending g). Some (fst p) = g_protocolPeriodTimer g) \<and>
     (g_isStopped g \<longleftrightarrow> g_protocolPeriodTimer g = None) \<and> (g_isStopped g \<longleftrightarrow> \<not> g_protocolRateTimer g)"

lemma orderly_g_held:
  assumes "g_reachable g l True"
  shows "g_held g"
proof -
  have "g_single g l" using reachable_single [OF assms] by simp
  then have "fst ` set (g_pending g) \<subseteq> set_option (g_protocolPeriodTimer g)"
    unfolding g_single_def set_map [symmetric] by (simp split: option.splits if_splits)
  then show ?thesis using reachable_alive [OF assms] by (auto simp: g_held_def g_alive_def)
qed

lemma g_held_ops:
  "g_held g \<Longrightarrow> g_held (g_stop g)"
  "g_held g \<Longrightarrow> g_held (snd (g_start shuffle now random ms g))"
  "g_held g \<Longrightarrow> g_isStopped (g_stop g) \<and> g_pending (g_stop g) = []"
  "g_held g \<Longrightarrow> g_isStopped g \<Longrightarrow> g_pending g = []"
  by (auto simp: g_held_def g_stop_def g_start_def g_run_def startProtocolRateTimer_def filter_empty_conv Let_def)
    (metis last_in_set prod.collapse)+

text \<open>
  C35: The protocol loop never stalls: as long as it is started, a period timeout is pending or a ping
  of the loop is under way, whatever stops, starts, admin ticks and firings came before. It keeps its
  two handles exactly while it is started. And in orderly runs, where it is not started again while a
  ping of its own is under way, the pending timeouts are exactly the one whose handle it keeps, and none
  during its own ping: a stopped loop has no timeout left, and a started one never has two. (Without
  that, the old ping's callback starts a second loop, \<open>gossip_restart_doubles\<close>.)
\<close>

theorem gossip_never_stalls:
  assumes "g_reachable g loopPing orderly"
  shows "(getStatus g = Started \<longrightarrow> g_pending g \<noteq> [] \<or> loopPing \<and> g_isPinging g) \<and>
    (getStatus g = Stopped \<longleftrightarrow> g_protocolPeriodTimer g = None) \<and>
    (getStatus g = Stopped \<longleftrightarrow> \<not> g_protocolRateTimer g) \<and>
    (orderly \<longrightarrow> map fst (g_pending g) =
      (case g_protocolPeriodTimer g of None \<Rightarrow> [] | Some t \<Rightarrow> if loopPing then [] else [t]))"
  using reachable_alive [OF assms] reachable_single [OF assms]
  by (auto simp: g_alive_def g_single_def getStatus_def)

abbreviation demo_gossip :: gossip where
  "demo_gossip \<equiv> snd (g_start id 5 (1/2) demo_ms (new_gossip None 3))"

lemma demo_gossip_reachable: "g_reachable demo_gossip False True" "g_reachable (g_stop demo_gossip) False True"
proof -
  show d: "g_reachable demo_gossip False True"
    using g_reachable.start [OF g_reachable.init, of id 5 "1/2" demo_ms None 3] by simp
  show "g_reachable (g_stop demo_gossip) False True" by (rule g_reachable.stop [OF d])
qed

theorem gossip_never_stalls_witness:
  "getStatus demo_gossip = Started \<and> map fst (g_pending demo_gossip) = [0] \<and> g_pending (g_stop demo_gossip) = []"
proof -
  have s: "getStatus demo_gossip = Started" "g_protocolPeriodTimer demo_gossip = Some 0"
    "g_protocolPeriodTimer (g_stop demo_gossip) = None"
    by (simp_all add: getStatus_def g_start_def g_stop_def new_gossip_def startProtocolRateTimer_def g_run_def Let_def)
  then show ?thesis
    using gossip_never_stalls [OF demo_gossip_reachable(1)] gossip_never_stalls [OF demo_gossip_reachable(2)] by simp
qed

text \<open>
  Stopping while a ping of the loop is under way and starting again before it is over leaves two
  loops: the new period and the one the old ping's callback starts.
\<close>

lemma gossip_restart_doubles:
  fixes shuffle :: "nat list \<Rightarrow> nat list" and now :: int and random :: real and ms :: membership
  assumes "g_reachable g True orderly" "g_isPinging g"
  defines "g1 \<equiv> snd (g_start shuffle now random ms (g_stop g))"
  shows "g_reachable (onMemberPinged now' random' (ping_over g1)) False False \<and>
    length (g_pending (onMemberPinged now' random' (ping_over g1))) \<ge> 2"
proof -
  have f: "g_isPinging g1" "\<not> g_isStopped g1" "g_pending g1 \<noteq> []" "g_isStopped (g_stop g)"
    using assms(2) by (auto simp: g1_def g_start_def g_stop_def startProtocolRateTimer_def alive_run)
  have "g_reachable g1 True False"
    using g_reachable.start [OF g_reachable.stop [OF assms(1)], of shuffle now random ms] f(4) by (simp add: g1_def)
  then have r: "g_reachable (onMemberPinged now' random' (ping_over g1)) False False"
    using f(1) by (rule g_reachable.pinged)
  show ?thesis using r f by (cases "g_pending g1") (auto simp: onMemberPinged_def g_run_def Let_def ping_over_def)
qed

text \<open>
  The delay of a protocol period: the first is staggered between 0 and the minimum period, every
  later one is at least the minimum period.
\<close>

theorem protocol_delay_bounds:
  assumes "0 \<le> random" "random < 1" "0 \<le> g_minProtocolPeriod g"
  shows "if g_numProtocolPeriods g = 0
    then 0 \<le> computeProtocolDelay now random g \<and> computeProtocolDelay now random g \<le> real_of_int (g_minProtocolPeriod g)
    else real_of_int (g_minProtocolPeriod g) \<le> computeProtocolDelay now random g"
proof (cases "g_numProtocolPeriods g = 0")
  case True
  let ?x = "random * real_of_int (g_minProtocolPeriod g + 1)"
  have "?x < 1 * real_of_int (g_minProtocolPeriod g + 1)"
    using assms by (intro mult_strict_right_mono) auto
  then have "\<lfloor>?x\<rfloor> < g_minProtocolPeriod g + 1" unfolding floor_less_iff by simp
  moreover have "0 \<le> ?x" using assms by (intro mult_nonneg_nonneg) auto
  then have "0 \<le> \<lfloor>?x\<rfloor>" by simp
  ultimately show ?thesis using True by (simp add: computeProtocolDelay_def)
next
  case False
  then show ?thesis by (simp add: computeProtocolDelay_def Let_def)
qed

theorem protocol_delay_bounds_witness:
  "0 \<le> computeProtocolDelay 5 (1/2) (new_gossip (Some 101) 3) \<and>
    computeProtocolDelay 5 (1/2) (new_gossip (Some 101) 3) \<le> 101"
  using protocol_delay_bounds [of "1/2" "new_gossip (Some 101) 3" 5] by (simp add: new_gossip_def)

section \<open>Indirect pings\<close>

text \<open>
  A round of indirect pings to n members calls back exactly once, whatever the order of the
  answers: reachable if some member reached the target, else unreachable if some member answered that it
  could not, else inconclusive; transport errors alone never make a member suspect.
\<close>

theorem ping_req_round_once:
  assumes "0 < n" "length answers = n"
  shows "ping_reqs_round answers (new_ping_reqs n) =
    [if None \<in> set answers then Reachable
     else if Some BadPingReqPingStatusError \<in> set answers then Unreachable
     else Inconclusive]"
  using round_verdict [of "new_ping_reqs n" answers] assms by (auto simp: new_ping_reqs_def verdict_def)

theorem ping_req_round_once_witness:
  "ping_reqs_round [Some PingReqPingError, Some BadPingReqPingStatusError, Some BadPingReqRespBodyError]
    (new_ping_reqs 3) = [Unreachable]"
  by (subst ping_req_round_once) simp_all

end
