(* ===== verification/Damper.thy ===== *)
theory Damper
  imports Membership_Choose
begin

text \<open>
  Flap damping, \<open>lib/gossip/damper.js\<close>: flappers are collected until a damp-req to other members
  confirms their damp scores, are then damped, and expire. The two timers are explicit: \<open>setTimeout\<close>
  hands out fresh handles, and a firing removes the pending timeout. A flapper is kept by its address;
  of the answers to a damp-req the damp scores are kept. Clock, sampling and answers are arguments.
\<close>

section \<open>State\<close>

datatype damper_timer = DampTick | ExpirationTick

datatype damper_event =
    DampedMemberExpiration "(string \<times> int) list"
  | DamperStarted
  | DampReqUnsatisfied
  | DampReqFailed
  | DampingInconclusive
  | Damped
  | DampedLimitExceeded

record damper =
  d_flappers :: "bool dict"
  d_dampedMembers :: "int dict"
  d_dampTimer :: "nat option"
  d_expirationTimer :: "nat option"
  d_pending :: "(nat \<times> damper_timer \<times> int) list"
  d_nextId :: nat
  d_events :: "damper_event list"

definition new_damper :: damper where
  "new_damper = \<lparr>d_flappers = [], d_dampedMembers = [], d_dampTimer = None, d_expirationTimer = None,
     d_pending = [], d_nextId = 0, d_events = []\<rparr>"

definition d_emit :: "damper_event \<Rightarrow> damper \<Rightarrow> damper" where
  "d_emit e d = d\<lparr>d_events := d_events d @ [e]\<rparr>"

definition d_clearTimeout :: "nat \<Rightarrow> damper \<Rightarrow> damper" where
  "d_clearTimeout i d = d\<lparr>d_pending := filter (\<lambda>x. fst x \<noteq> i) (d_pending d)\<rparr>"

section \<open>Timers\<close>

definition schedule_damp :: "config \<Rightarrow> damper \<Rightarrow> damper" where
  "schedule_damp cfg d =
     d\<lparr>d_dampTimer := Some (d_nextId d),
       d_pending := d_pending d @ [(d_nextId d, DampTick, c_dampTimerInterval cfg)],
       d_nextId := d_nextId d + 1\<rparr>"

definition startDampTimer :: "config \<Rightarrow> damper \<Rightarrow> damper" where
  "startDampTimer cfg d = (if d_dampTimer d \<noteq> None then d else schedule_damp cfg d)"

definition schedule_expiration :: "config \<Rightarrow> damper \<Rightarrow> damper" where
  "schedule_expiration cfg d =
     d\<lparr>d_expirationTimer := Some (d_nextId d),
       d_pending := d_pending d @ [(d_nextId d, ExpirationTick, c_dampedMemberExpirationInterval cfg)],
       d_nextId := d_nextId d + 1\<rparr>"

definition startExpirationTimer :: "config \<Rightarrow> damper \<Rightarrow> damper" where
  "startExpirationTimer cfg d = (if d_expirationTimer d \<noteq> None then d else schedule_expiration cfg d)"

definition stopDampTimer :: "damper \<Rightarrow> damper" where
  "stopDampTimer d =
     (case d_dampTimer d of None \<Rightarrow> d | Some i \<Rightarrow> (d_clearTimeout i d)\<lparr>d_dampTimer := None\<rparr>)"

definition stopExpirationTimer :: "damper \<Rightarrow> damper" where
  "stopExpirationTimer d =
     (case d_expirationTimer d of None \<Rightarrow> d | Some i \<Rightarrow> (d_clearTimeout i d)\<lparr>d_expirationTimer := None\<rparr>)"

definition d_destroy :: "damper \<Rightarrow> damper" where
  "d_destroy d = stopExpirationTimer (stopDampTimer d)"

section \<open>Flappers and damped members\<close>

definition getFlapperAddrs :: "damper \<Rightarrow> string list" where
  "getFlapperAddrs d = dkeys (d_flappers d)"

definition getFlapperCount :: "damper \<Rightarrow> nat" where
  "getFlapperCount d = length (dkeys (d_flappers d))"

definition hasFlapper :: "string \<Rightarrow> damper \<Rightarrow> bool" where
  "hasFlapper address d \<longleftrightarrow> dget (d_flappers d) address = Some True"

definition isDamped :: "string \<Rightarrow> damper \<Rightarrow> bool" where
  "isDamped address d \<longleftrightarrow> dget (d_dampedMembers d) address \<noteq> None"

definition addDampedMember :: "int \<Rightarrow> string \<Rightarrow> damper \<Rightarrow> damper" where
  "addDampedMember now memberAddr d = d\<lparr>d_dampedMembers := dset memberAddr now (d_dampedMembers d)\<rparr>"

definition addFlapper :: "config \<Rightarrow> string \<Rightarrow> damper \<Rightarrow> bool \<times> damper" where
  "addFlapper cfg flapper d =
     (if isDamped flapper d then (False, d)
      else if hasFlapper flapper d then (False, d)
      else
        (let d1 = d\<lparr>d_flappers := dset flapper True (d_flappers d)\<rparr> in
         (True, if getFlapperCount d1 = 1 then startDampTimer cfg d1 else d1)))"

definition removeFlapper :: "string \<Rightarrow> damper \<Rightarrow> bool \<times> damper" where
  "removeFlapper address d =
     (if \<not> hasFlapper address d then (False, d)
      else
        (let d1 = d\<lparr>d_flappers := ddel address (d_flappers d)\<rparr> in
         (True, if getFlapperCount d1 = 0 then stopDampTimer d1 else d1)))"

text \<open>
  The share of damped members against the maximum percentage; without members the quotient is not a
  number or infinite, and the limit counts as reached.
\<close>

definition validateDampedClusterLimits :: "config \<Rightarrow> nat \<Rightarrow> damper \<Rightarrow> bool \<times> damper" where
  "validateDampedClusterLimits cfg memberCount d =
     (if memberCount \<noteq> 0 \<and>
         real (length (dkeys (d_dampedMembers d))) * 100 / real memberCount < real_of_int (c_dampedMaxPercentage cfg)
      then (True, d) else (False, d_emit DampedLimitExceeded d))"

text \<open>\<open>dampMember\<close>; \<open>None\<close> is the \<open>undefined\<close> it returns at the limit.\<close>

definition dampMember :: "config \<Rightarrow> int \<Rightarrow> membership \<Rightarrow> string \<Rightarrow> damper \<Rightarrow> bool option \<times> damper" where
  "dampMember cfg now ms addr d =
     (case findMemberByAddress ms addr of
        None \<Rightarrow> (Some False, d)
      | Some r \<Rightarrow>
          if \<not> hasFlapper (m_address (deref ms r)) d then (Some False, d)
          else
            (let (below, d1) = validateDampedClusterLimits cfg (getMemberCount ms) d in
             if \<not> below then (None, d1)
             else
               (let address = m_address (deref ms r);
                    d2 = snd (removeFlapper address d1);
                    d3 = addDampedMember now address d2
                in (Some True, if d_expirationTimer d3 = None then startExpirationTimer cfg d3 else d3))))"

fun expire_loop :: "(nat \<Rightarrow> int) \<Rightarrow> int \<Rightarrow> nat \<Rightarrow> string list \<Rightarrow> damper \<Rightarrow> (string \<times> int) list \<times> damper" where
  "expire_loop now suppressDuration i [] d = ([], d)"
| "expire_loop now suppressDuration i (key # keys) d =
     (case dget (d_dampedMembers d) key of
        None \<Rightarrow> expire_loop now suppressDuration (Suc i) keys d
      | Some timestamp \<Rightarrow>
          (let dampedDuration = now i - timestamp in
           if dampedDuration \<ge> suppressDuration then
             (let (us, d') = expire_loop now suppressDuration (Suc i) keys
                (d\<lparr>d_dampedMembers := ddel key (d_dampedMembers d)\<rparr>)
              in ((key, dampedDuration) # us, d'))
           else expire_loop now suppressDuration (Suc i) keys d))"

definition expireDampedMembers :: "config \<Rightarrow> (nat \<Rightarrow> int) \<Rightarrow> damper \<Rightarrow> (string \<times> int) list \<times> damper" where
  "expireDampedMembers cfg now d =
     (let (undampedMembers, d1) =
        expire_loop now (c_dampScoringSuppressDuration cfg) 0 (dkeys (d_dampedMembers d)) d
      in if undampedMembers = [] then (undampedMembers, d1)
         else
           (let d2 = d_emit (DampedMemberExpiration undampedMembers) d1 in
            (undampedMembers,
             if length (dkeys (d_dampedMembers d2)) = 0 then stopExpirationTimer d2 else d2)))"

definition onExpirationTimeout :: "config \<Rightarrow> (nat \<Rightarrow> int) \<Rightarrow> nat \<Rightarrow> damper \<Rightarrow> damper" where
  "onExpirationTimeout cfg now i d =
     (let d1 = snd (expireDampedMembers cfg now (d_clearTimeout i d)) in
      if d_expirationTimer d1 \<noteq> None then schedule_expiration cfg d1 else d1)"

section \<open>The damp-req subprotocol\<close>

text \<open>
  The scores of a response, \<open>None\<close> when it has no array of them; a score that is missing exceeds no
  limit.
\<close>

type_synonym damp_scores = "(string \<times> int option) list option"

definition group_score :: "string \<times> int option \<Rightarrow> int option list dict \<Rightarrow> int option list dict" where
  "group_score score groups =
     (let old = (case dget groups (fst score) of None \<Rightarrow> [] | Some ss \<Rightarrow> ss) in
      dset (fst score) (old @ [snd score]) groups)"

definition groupDampScoresByFlapper :: "damp_scores list \<Rightarrow> int option list dict" where
  "groupDampScoresByFlapper allResponses =
     fold (\<lambda>response groups. case response of None \<Rightarrow> groups | Some scores \<Rightarrow> fold group_score scores groups)
       allResponses []"

definition findFlappersToDamp :: "int option list dict \<Rightarrow> int \<Rightarrow> int \<Rightarrow> string list" where
  "findFlappersToDamp dampScoresByFlapper rVal suppressLimit =
     filter (\<lambda>addr. case dget dampScoresByFlapper addr of
          None \<Rightarrow> False
        | Some scores \<Rightarrow> int (length scores) \<ge> rVal \<and>
            list_all (\<lambda>s. case s of None \<Rightarrow> False | Some x \<Rightarrow> x \<ge> suppressLimit) scores)
       (dkeys dampScoresByFlapper)"

definition getMembersToDamp :: "damp_scores list \<Rightarrow> int \<Rightarrow> config \<Rightarrow> string list" where
  "getMembersToDamp allResponses rVal cfg =
     findFlappersToDamp (groupDampScoresByFlapper allResponses) rVal (c_dampScoringSuppressLimit cfg)"

text \<open>
  The first half of \<open>initiateSubprotocol\<close>: the flappers to ask about, the members to ask and how many
  must answer; \<open>None\<close> when its callback is called at once.
\<close>

definition initiateSubprotocol :: "(nat \<Rightarrow> nat list \<Rightarrow> nat list) \<Rightarrow> node_ctx \<Rightarrow> membership \<Rightarrow> damper \<Rightarrow>
    (string list \<times> nat list \<times> int) option \<times> damper" where
  "initiateSubprotocol sample ctx ms d =
     (let (below, d1) = validateDampedClusterLimits (x_config ctx) (getMemberCount ms) d in
      if \<not> below then (None, d1)
      else
        (let flapperAddrs = getFlapperAddrs d1;
             d2 = d_emit DamperStarted d1;
             nVal = c_dampReqNVal (x_config ctx);
             dampReqMembers = getRandomPingableMembers sample ctx (nat nVal) flapperAddrs ms;
             rVal = min (c_dampReqRVal (x_config ctx)) (int (length dampReqMembers))
         in if rVal = 0 then (None, d_emit DampReqUnsatisfied d2)
            else (Some (flapperAddrs, dampReqMembers, rVal), d2)))"

text \<open>The state of a fan-out, and what an answer makes of it: a result or the errors, once.\<close>

record ('e, 'r) fanout =
  fo_numPendingReqs :: int
  fo_errors :: "'e list"
  fo_results :: "'r list"
  fo_done :: bool

definition new_fanout :: "nat \<Rightarrow> ('e, 'r) fanout" where
  "new_fanout n = \<lparr>fo_numPendingReqs = int n, fo_errors = [], fo_results = [], fo_done = False\<rparr>"

definition onDampReq :: "int \<Rightarrow> ('e + 'r) \<Rightarrow> ('e, 'r) fanout \<Rightarrow> ('e list + 'r list) option \<times> ('e, 'r) fanout" where
  "onDampReq rVal answer fo =
     (if fo_done fo then (None, fo)
      else
        (let fo1 = fo\<lparr>fo_numPendingReqs := fo_numPendingReqs fo - 1\<rparr>;
             fo2 = (case answer of
                Inl err \<Rightarrow> fo1\<lparr>fo_errors := fo_errors fo1 @ [err]\<rparr>
              | Inr res \<Rightarrow> fo1\<lparr>fo_results := fo_results fo1 @ [res]\<rparr>)
         in if int (length (fo_results fo2)) \<ge> rVal then (Some (Inr (fo_results fo2)), fo2\<lparr>fo_done := True\<rparr>)
            else if fo_numPendingReqs fo2 < rVal - int (length (fo_results fo2))
            then (Some (Inl (fo_errors fo2)), fo2\<lparr>fo_done := True\<rparr>)
            else (None, fo2)))"

fun fanout_round :: "int \<Rightarrow> ('e + 'r) list \<Rightarrow> ('e, 'r) fanout \<Rightarrow> ('e list + 'r list) list" where
  "fanout_round rVal [] fo = []"
| "fanout_round rVal (a # as) fo =
     (let (res, fo') = onDampReq rVal a fo in
      (case res of None \<Rightarrow> [] | Some r \<Rightarrow> [r]) @ fanout_round rVal as fo')"

fun damp_loop :: "config \<Rightarrow> (nat \<Rightarrow> int) \<Rightarrow> membership \<Rightarrow> nat \<Rightarrow> string list \<Rightarrow> damper \<Rightarrow> damper" where
  "damp_loop cfg now ms i [] d = d"
| "damp_loop cfg now ms i (addr # addrs) d = damp_loop cfg now ms (Suc i) addrs (snd (dampMember cfg (now i) ms addr d))"

definition onFanout :: "config \<Rightarrow> (nat \<Rightarrow> int) \<Rightarrow> membership \<Rightarrow> int \<Rightarrow> ('e list + damp_scores list) \<Rightarrow>
    damper \<Rightarrow> damper" where
  "onFanout cfg now ms rVal res d =
     (case res of
        Inl errors \<Rightarrow> d_emit DampReqFailed d
      | Inr responses \<Rightarrow>
          (let membersToDamp = getMembersToDamp responses rVal cfg in
           if length membersToDamp = 0 then d_emit DampingInconclusive d
           else d_emit Damped (damp_loop cfg now ms 0 membersToDamp d)))"

text \<open>The damp timer fires; its callback, called at once or after the fan-out, runs on.\<close>

definition onSubprotocol :: "config \<Rightarrow> damper \<Rightarrow> damper" where
  "onSubprotocol cfg d = (if d_dampTimer d \<noteq> None then schedule_damp cfg d else d)"

definition onDampTimeout :: "(nat \<Rightarrow> nat list \<Rightarrow> nat list) \<Rightarrow> node_ctx \<Rightarrow> membership \<Rightarrow> nat \<Rightarrow> damper \<Rightarrow>
    (string list \<times> nat list \<times> int) option \<times> damper" where
  "onDampTimeout sample ctx ms i d =
     (let (fan, d1) = initiateSubprotocol sample ctx ms (d_clearTimeout i d) in
      (fan, case fan of None \<Rightarrow> onSubprotocol (x_config ctx) d1 | Some _ \<Rightarrow> d1))"

end
