(* ===== verification/Damper_Properties.thy ===== *)
theory Damper_Properties
  imports Damper Membership_Properties
begin

text \<open>
  The properties of flap damping: when a flapper is damped on the answers of others, that a fan-out
  calls back once, and that flappers, damped members and the two timers go together in every reachable
  state.
\<close>

section \<open>The verdict on the answers\<close>

text \<open>The scores reported of one member, in order.\<close>

definition scores_of :: "string \<Rightarrow> damp_scores list \<Rightarrow> int option list" where
  "scores_of a rs = map snd (filter (\<lambda>s. fst s = a) (concat (map (case_option [] id) rs)))"

definition groups_ok :: "(string \<times> int option) list \<Rightarrow> int option list dict \<Rightarrow> bool" where
  "groups_ok ss g \<longleftrightarrow> distinct (dkeys g) \<and> set (dkeys g) = fst ` set ss \<and>
     (\<forall>a \<in> fst ` set ss. dget g a = Some (map snd (filter (\<lambda>s. fst s = a) ss)))"

lemma group_score_ok:
  assumes "groups_ok ss g"
  shows "groups_ok (ss @ [s]) (group_score s g)"
proof -
  have old: "(case dget g a of None \<Rightarrow> [] | Some x \<Rightarrow> x) = map snd (filter (\<lambda>s. fst s = a) ss)" for a
  proof (cases "a \<in> fst ` set ss")
    case False
    then have "dget g a = None" using assms by (simp add: groups_ok_def map_of_eq_None_iff)
    moreover have "filter (\<lambda>s. fst s = a) ss = []" using False by (force simp: filter_empty_conv)
    ultimately show ?thesis by simp
  next
    case True
    then have "dget g a = Some (map snd (filter (\<lambda>s. fst s = a) ss))"
      using assms unfolding groups_ok_def by blast
    then show ?thesis by simp
  qed
  have "distinct (dkeys (group_score s g))"
    using assms unfolding group_score_def Let_def by (intro dict.ok_put) (simp add: groups_ok_def)
  then show ?thesis
    using assms old unfolding groups_ok_def group_score_def Let_def
    by (auto simp: dict.get_put filter_empty_conv)
qed

lemma fold_group_ok: "groups_ok ss g \<Longrightarrow> groups_ok (ss @ ts) (fold group_score ts g)"
proof (induction ts arbitrary: ss g)
  case (Cons t ts)
  show ?case using Cons.IH [OF group_score_ok [OF Cons.prems, of t]] by simp
qed simp

lemma groupDampScores_ok:
  "groups_ok ss g \<Longrightarrow> groups_ok (ss @ concat (map (case_option [] id) rs))
    (fold (\<lambda>response groups. case response of None \<Rightarrow> groups | Some scores \<Rightarrow> fold group_score scores groups) rs g)"
proof (induction rs arbitrary: ss g)
  case (Cons r rs)
  have "groups_ok (ss @ case_option [] id r) (case r of None \<Rightarrow> g | Some scores \<Rightarrow> fold group_score scores g)"
    using fold_group_ok [OF Cons.prems] Cons.prems by (cases r) auto
  from Cons.IH [OF this] show ?case by (simp add: append_assoc)
qed simp

text \<open>
  A flapper is damped exactly when enough of the asked members reported a score for it and all
  reported scores have reached the suppress limit; none is listed twice.
\<close>

theorem members_to_damp_correct:
  "distinct (getMembersToDamp allResponses rVal cfg) \<and>
    (a \<in> set (getMembersToDamp allResponses rVal cfg) \<longleftrightarrow>
     scores_of a allResponses \<noteq> [] \<and> rVal \<le> int (length (scores_of a allResponses)) \<and>
     list_all (\<lambda>s. case s of None \<Rightarrow> False | Some x \<Rightarrow> c_dampScoringSuppressLimit cfg \<le> x) (scores_of a allResponses))"
proof -
  let ?g = "groupDampScoresByFlapper allResponses" and ?ss = "concat (map (case_option [] id) allResponses)"
  have ok: "groups_ok ?ss ?g"
  proof -
    have "groups_ok [] []" by (simp add: groups_ok_def)
    from groupDampScores_ok [OF this, of allResponses] show ?thesis
      by (simp only: groupDampScoresByFlapper_def append_Nil)
  qed
  then have keys: "distinct (dkeys ?g)" "set (dkeys ?g) = fst ` set ?ss"
    unfolding groups_ok_def by (blast, blast)
  have val: "dget ?g a = Some (scores_of a allResponses)" if "a \<in> fst ` set ?ss"
    using that ok unfolding groups_ok_def scores_of_def by blast
  have some: "scores_of a allResponses \<noteq> [] \<longleftrightarrow> a \<in> fst ` set ?ss"
    unfolding scores_of_def by (force simp: filter_empty_conv simp del: set_concat)
  have "a \<in> set (getMembersToDamp allResponses rVal cfg) \<longleftrightarrow> a \<in> set (dkeys ?g) \<and>
      (case dget ?g a of None \<Rightarrow> False
        | Some scores \<Rightarrow> int (length scores) \<ge> rVal \<and>
            list_all (\<lambda>s. case s of None \<Rightarrow> False | Some x \<Rightarrow> x \<ge> c_dampScoringSuppressLimit cfg) scores)"
    unfolding getMembersToDamp_def findFlappersToDamp_def by auto
  also have "\<dots> \<longleftrightarrow> scores_of a allResponses \<noteq> [] \<and> rVal \<le> int (length (scores_of a allResponses)) \<and>
      list_all (\<lambda>s. case s of None \<Rightarrow> False | Some x \<Rightarrow> c_dampScoringSuppressLimit cfg \<le> x) (scores_of a allResponses)"
    unfolding keys some by (cases "a \<in> fst ` set ?ss") (simp_all only: val option.case simp_thms)
  finally show ?thesis using keys by (simp add: getMembersToDamp_def findFlappersToDamp_def)
qed

section \<open>The fan-out\<close>

abbreviation successes :: "('e + 'r) list \<Rightarrow> 'r list" where
  "successes as \<equiv> concat (map (case_sum (\<lambda>_. []) (\<lambda>r. [r])) as)"

lemma fanout_over: "fo_done fo \<Longrightarrow> fanout_round r as fo = []"
  by (induction as) (simp_all add: onDampReq_def)

definition fo_ok :: "int \<Rightarrow> nat \<Rightarrow> ('e, 'r) fanout \<Rightarrow> bool" where
  "fo_ok rVal k fo \<longleftrightarrow> \<not> fo_done fo \<and> fo_numPendingReqs fo = int k \<and>
     int (length (fo_results fo)) < rVal \<and> rVal - int (length (fo_results fo)) \<le> int k"

lemma fanout_verdict:
  assumes "fo_ok rVal (length as) fo"
  shows "\<exists>res. fanout_round rVal as fo = [res] \<and>
    (if int (length (fo_results fo) + length (successes as)) \<ge> rVal
     then res = Inr (fo_results fo @ take (nat rVal - length (fo_results fo)) (successes as))
     else \<exists>es. res = Inl es)"
  using assms
proof (induction "as" arbitrary: fo)
  case Nil
  then have "int (length (fo_results fo)) < rVal" "rVal - int (length (fo_results fo)) \<le> 0"
    by (simp_all add: fo_ok_def)
  then show ?case by linarith
next
  case (Cons a "as")
  let ?k = "length (fo_results fo)"
  note ok = Cons.prems [unfolded fo_ok_def]
  show ?case
  proof (cases a)
    case (Inr x)
    let ?fo = "fo\<lparr>fo_numPendingReqs := fo_numPendingReqs fo - 1, fo_results := fo_results fo @ [x]\<rparr>"
    show ?thesis
    proof (cases "int (?k + 1) \<ge> rVal")
      case True
      then have "nat rVal - ?k = 1" using ok by auto
      then show ?thesis using True ok Inr by (simp add: onDampReq_def fanout_over)
    next
      case False
      then have "fo_ok rVal (length as) ?fo" using ok by (auto simp: fo_ok_def)
      from Cons.IH [OF this] obtain res where res: "fanout_round rVal as ?fo = [res]"
        "if int (?k + 1 + length (successes as)) \<ge> rVal
         then res = Inr (fo_results fo @ x # take (nat rVal - (?k + 1)) (successes as)) else \<exists>es. res = Inl es"
        by auto
      have "nat rVal - ?k = Suc (nat rVal - (?k + 1))" using False by auto
      then show ?thesis using res False ok Inr by (auto simp: onDampReq_def Let_def split: if_splits)
    qed
  next
    case (Inl e)
    let ?fo = "fo\<lparr>fo_numPendingReqs := fo_numPendingReqs fo - 1, fo_errors := fo_errors fo @ [e]\<rparr>"
    show ?thesis
    proof (cases "fo_numPendingReqs fo - 1 < rVal - int ?k")
      case True
      have "length (successes as) \<le> length as" by (induction "as") (auto split: sum.splits)
      then have "int (?k + length (successes as)) < rVal" using True ok by auto
      then show ?thesis using True ok Inl by (simp add: onDampReq_def fanout_over)
    next
      case False
      then have "fo_ok rVal (length as) ?fo" using ok by (auto simp: fo_ok_def)
      from Cons.IH [OF this] obtain res where res: "fanout_round rVal as ?fo = [res]"
        "if int (?k + length (successes as)) \<ge> rVal
         then res = Inr (fo_results fo @ take (nat rVal - ?k) (successes as)) else \<exists>es. res = Inl es"
        by auto
      then show ?thesis using False ok Inl by (auto simp: onDampReq_def Let_def split: if_splits)
    qed
  qed
qed

text \<open>
  A damp-req fan-out calls back exactly once, in whatever order the members answer: with the first
  rVal results as soon as that many members answered, with the errors when that has become impossible.
\<close>

theorem damp_fanout_once:
  assumes "0 < rVal" "rVal \<le> int (length answers)"
  shows "\<exists>res. fanout_round rVal answers (new_fanout (length answers)) = [res] \<and>
    (if int (length (successes answers)) \<ge> rVal then res = Inr (take (nat rVal) (successes answers))
     else \<exists>errors. res = Inl errors)"
proof -
  have "fo_ok rVal (length answers) (new_fanout (length answers) :: ('a, 'b) fanout)"
    using assms by (simp add: fo_ok_def new_fanout_def)
  from fanout_verdict [OF this] show ?thesis by (auto simp: new_fanout_def)
qed

theorem damp_fanout_once_witness:
  "fanout_round 2 [Inl 1, Inr 5, Inr 6, Inr 7] (new_fanout 4) = [Inr [5 :: int, 6] :: int list + int list]"
  using damp_fanout_once [of 2 "[Inl 1, Inr 5, Inr 6, Inr (7 :: int)] :: (int + int) list"]
  by (auto simp: numeral_eq_Suc)

section \<open>Flappers, damped members and timers\<close>

text \<open>
  The runs of the damper, with three ghosts: how many subprotocols (fan-outs) are under way, whether
  the damper was destroyed, and whether the run is orderly: no damp timer was started while a
  subprotocol was under way. Only pending timeouts fire, in any order.
\<close>

inductive d_reachable :: "config \<Rightarrow> damper \<Rightarrow> nat \<Rightarrow> bool \<Rightarrow> bool \<Rightarrow> bool" for cfg where
  init: "d_reachable cfg new_damper 0 False True"
| add: "d_reachable cfg d k x orderly \<Longrightarrow> snd (addFlapper cfg a d) = d' \<Longrightarrow>
    d_reachable cfg d' k x (orderly \<and> (k = 0 \<or> d_dampTimer d' = d_dampTimer d))"
| remove: "d_reachable cfg d k x orderly \<Longrightarrow> d_reachable cfg (snd (removeFlapper a d)) k x orderly"
| damp: "d_reachable cfg d k x orderly \<Longrightarrow> d_reachable cfg (snd (dampMember cfg now ms a d)) k x orderly"
| expire: "d_reachable cfg d k x orderly \<Longrightarrow> (i, ExpirationTick, t) \<in> set (d_pending d) \<Longrightarrow>
    d_reachable cfg (onExpirationTimeout cfg clock i d) k x orderly"
| tick: "d_reachable cfg d k x orderly \<Longrightarrow> (i, DampTick, t) \<in> set (d_pending d) \<Longrightarrow> x_config ctx = cfg \<Longrightarrow>
    onDampTimeout sample ctx ms i d = (fan, d') \<Longrightarrow>
    d_reachable cfg d' (case fan of None \<Rightarrow> k | Some _ \<Rightarrow> Suc k) x orderly"
| fanout: "d_reachable cfg d (Suc k) x orderly \<Longrightarrow>
    d_reachable cfg (onSubprotocol cfg (onFanout cfg clock ms rVal (res :: int list + damp_scores list) d)) k x orderly"
| destroy: "d_reachable cfg d k x orderly \<Longrightarrow> d_reachable cfg (d_destroy d) k True orderly"

definition d_ok :: "damper \<Rightarrow> bool" where
  "d_ok d \<longleftrightarrow> distinct (dkeys (d_flappers d)) \<and> distinct (dkeys (d_dampedMembers d)) \<and>
     (\<forall>x \<in> set (d_flappers d). snd x) \<and>
     fst ` set (d_flappers d) \<inter> fst ` set (d_dampedMembers d) = {} \<and>
     (d_dampTimer d \<noteq> None \<longleftrightarrow> d_flappers d \<noteq> []) \<and>
     (d_expirationTimer d \<noteq> None \<longleftrightarrow> d_dampedMembers d \<noteq> [])"

lemma d_frame [simp]:
  "d_ok (d_emit e d) = d_ok d" "d_ok (d_clearTimeout i d) = d_ok d"
  "d_dampedMembers (d_emit e d) = d_dampedMembers d" "d_flappers (d_emit e d) = d_flappers d"
  by (simp_all add: d_ok_def d_emit_def d_clearTimeout_def)

lemma schedule_ok:
  "d_ok d \<Longrightarrow> d_dampTimer d \<noteq> None \<Longrightarrow> d_ok (schedule_damp cfg d)"
  "d_ok d \<Longrightarrow> d_expirationTimer d \<noteq> None \<Longrightarrow> d_ok (schedule_expiration cfg d)"
  by (auto simp: d_ok_def schedule_damp_def schedule_expiration_def)

lemma hasFlapper_iff: "d_ok d \<Longrightarrow> hasFlapper a d \<longleftrightarrow> a \<in> fst ` set (d_flappers d)"
  by (force simp: d_ok_def hasFlapper_def dest: map_of_SomeD)

lemma isDamped_iff: "isDamped a d \<longleftrightarrow> a \<in> fst ` set (d_dampedMembers d)"
  by (simp add: isDamped_def map_of_eq_None_iff)

lemma addFlapper_ok [preserves]:
  assumes ok: "d_ok d"
  shows "d_ok (snd (addFlapper cfg a d))"
proof (cases "isDamped a d \<or> hasFlapper a d")
  case False
  let ?f = "dset a True (d_flappers d)" and ?d = "d\<lparr>d_flappers := dset a True (d_flappers d)\<rparr>"
  have a: "a \<notin> fst ` set (d_flappers d)" "a \<notin> fst ` set (d_dampedMembers d)"
    using False hasFlapper_iff [OF ok] isDamped_iff by auto
  have dist: "distinct (dkeys ?f)" using ok by (intro dict.ok_put) (simp add: d_ok_def)
  have all: "\<forall>x \<in> set ?f. snd x" using ok snd_update [of a True "d_flappers d"] by (auto simp: d_ok_def)
  have len: "length (dkeys ?f) = Suc (length (d_flappers d))"
    using length_dset_new [OF a(1)] by simp
  have sets: "fst ` set ?f \<inter> fst ` set (d_dampedMembers d) = {}" using ok a by (auto simp: d_ok_def)
  show ?thesis
  proof (cases "d_flappers d = []")
    case True
    then show ?thesis
      using False dist all sets len ok
      by (auto simp: addFlapper_def d_ok_def getFlapperCount_def startDampTimer_def schedule_damp_def)
  next
    case f: False
    then show ?thesis
      using False dist all sets len ok
      by (auto simp: addFlapper_def d_ok_def getFlapperCount_def)
  qed
qed (use ok in \<open>auto simp: addFlapper_def\<close>)

lemma removeFlapper_ok [preserves]:
  assumes ok: "d_ok d"
  shows "d_ok (snd (removeFlapper a d))" "\<not> hasFlapper a (snd (removeFlapper a d))"
    "d_dampedMembers (snd (removeFlapper a d)) = d_dampedMembers d"
    "d_expirationTimer (snd (removeFlapper a d)) = d_expirationTimer d"
proof -
  let ?f = "ddel a (d_flappers d)"
  have f: "d_flappers (snd (removeFlapper a d)) = (if hasFlapper a d then ?f else d_flappers d)"
    "d_dampTimer (snd (removeFlapper a d)) = (if hasFlapper a d \<and> ?f = [] then None else d_dampTimer d)"
    by (auto simp: removeFlapper_def getFlapperCount_def stopDampTimer_def d_clearTimeout_def Let_def split: option.splits)
  show d: "d_dampedMembers (snd (removeFlapper a d)) = d_dampedMembers d"
    and e: "d_expirationTimer (snd (removeFlapper a d)) = d_expirationTimer d"
    by (auto simp: removeFlapper_def stopDampTimer_def d_clearTimeout_def Let_def split: option.splits)
  have dist: "distinct (dkeys ?f)" using ok by (intro dict.ok_del) (simp add: d_ok_def)
  have all: "\<forall>x \<in> set ?f. snd x" using ok snd_delete [of a "d_flappers d"] by (auto simp: d_ok_def)
  have ne: "hasFlapper a d \<Longrightarrow> d_flappers d \<noteq> []" by (auto simp: hasFlapper_def)
  show "d_ok (snd (removeFlapper a d))"
    unfolding d_ok_def f d e using ok dist all ne unfolding d_ok_def by auto
  show "\<not> hasFlapper a (snd (removeFlapper a d))"
    unfolding hasFlapper_def f by (auto simp: dict.get_del hasFlapper_def)
qed

lemma dampMember_ok [preserves]:
  assumes ok: "d_ok d"
  shows "d_ok (snd (dampMember cfg now ms addr d))"
proof (cases "findMemberByAddress ms addr")
  case None
  then show ?thesis using ok by (simp add: dampMember_def)
next
  case (Some r)
  let ?a = "m_address (deref ms r)"
  let ?d1 = "snd (removeFlapper ?a d)"
  let ?m = "dset ?a now (d_dampedMembers d)"
  note rem = removeFlapper_ok [OF ok, of ?a]
  have fl: "?a \<notin> fst ` set (d_flappers ?d1)" using hasFlapper_iff [OF rem(1)] rem(2) by simp
  have dist: "distinct (dkeys ?m)" using ok by (intro dict.ok_put) (simp add: d_ok_def)
  have val: "snd (validateDampedClusterLimits cfg n d) = d" if "fst (validateDampedClusterLimits cfg n d)" for n
    using that by (auto simp: validateDampedClusterLimits_def split: if_splits)
  have lim: "d_ok (snd (validateDampedClusterLimits cfg n d))" for n
    using ok by (simp add: validateDampedClusterLimits_def)
  let ?d3 = "addDampedMember now ?a ?d1"
  let ?d4 = "if d_expirationTimer ?d3 = None then startExpirationTimer cfg ?d3 else ?d3"
  have f: "d_flappers ?d4 = d_flappers ?d1" "d_dampedMembers ?d4 = ?m" "d_dampTimer ?d4 = d_dampTimer ?d1"
    "d_expirationTimer ?d4 \<noteq> None"
    by (auto simp: addDampedMember_def startExpirationTimer_def schedule_expiration_def rem(3))
  have "d_ok ?d4"
    using rem(1) fl dist unfolding d_ok_def f(1,2,3) rem(3) using f(4) by auto
  moreover obtain b x where v: "validateDampedClusterLimits cfg (getMemberCount ms) d = (b, x)" by force
  moreover have "d_ok x" "b \<Longrightarrow> x = d"
    using lim [of "getMemberCount ms"] val [of "getMemberCount ms"] by (simp_all add: v)
  ultimately show ?thesis
    using Some ok by (cases b) (simp_all add: dampMember_def Let_def)
qed

lemma expire_loop_ok:
  assumes "distinct (dkeys (d_dampedMembers d))"
  shows "\<exists>m. snd (expire_loop now sd i ks d) = d\<lparr>d_dampedMembers := m\<rparr> \<and> distinct (dkeys m) \<and>
    fst ` set m \<subseteq> fst ` set (d_dampedMembers d) \<and> (fst (expire_loop now sd i ks d) = [] \<longrightarrow> m = d_dampedMembers d)"
  using assms
proof (induction ks arbitrary: d i)
  case Nil
  show ?case using Nil by (intro exI [of _ "d_dampedMembers d"]) simp
next
  case (Cons k ks)
  let ?d = "d\<lparr>d_dampedMembers := ddel k (d_dampedMembers d)\<rparr>"
  have "distinct (dkeys (d_dampedMembers ?d))" using dict.ok_del [OF Cons.prems, of k] by simp
  note del = Cons.IH [OF this, of "Suc i"]
  note keep = Cons.IH [OF Cons.prems, of "Suc i"]
  show ?case
  proof (cases "\<exists>t. dget (d_dampedMembers d) k = Some t \<and> now i - t \<ge> sd")
    case True
    then have step: "snd (expire_loop now sd i (k # ks) d) = snd (expire_loop now sd (Suc i) ks ?d)"
      "fst (expire_loop now sd i (k # ks) d) \<noteq> []"
      by (auto simp: Let_def split: prod.splits)
    obtain m where "snd (expire_loop now sd (Suc i) ks ?d) = ?d\<lparr>d_dampedMembers := m\<rparr>" "distinct (dkeys m)"
      "fst ` set m \<subseteq> fst ` set (d_dampedMembers ?d)" using del by blast
    then show ?thesis unfolding step(1) using step(2) by (intro exI [of _ m]) auto
  next
    case False
    then have "expire_loop now sd i (k # ks) d = expire_loop now sd (Suc i) ks d"
      by (auto simp: Let_def split: option.splits)
    then show ?thesis using keep by simp
  qed
qed

lemma expireDampedMembers_ok [preserves]:
  assumes ok: "d_ok d"
  shows "d_ok (snd (expireDampedMembers cfg now d))"
proof -
  have dist: "distinct (dkeys (d_dampedMembers d))" using ok by (simp add: d_ok_def)
  let ?r = "expire_loop now (c_dampScoringSuppressDuration cfg) 0 (dkeys (d_dampedMembers d)) d"
  obtain m where m: "snd ?r = d\<lparr>d_dampedMembers := m\<rparr>" "distinct (dkeys m)"
    "fst ` set m \<subseteq> fst ` set (d_dampedMembers d)" "fst ?r = [] \<longrightarrow> m = d_dampedMembers d"
    using expire_loop_ok [OF dist] by blast
  have ne: "m \<noteq> [] \<longrightarrow> d_dampedMembers d \<noteq> []" using m(3) by auto
  have eq: "snd (expireDampedMembers cfg now d) =
      (if fst ?r = [] then d
       else let d2 = d_emit (DampedMemberExpiration (fst ?r)) (d\<lparr>d_dampedMembers := m\<rparr>)
         in if m = [] then stopExpirationTimer d2 else d2)"
    using m(1,4) by (auto simp: expireDampedMembers_def Let_def d_emit_def split: prod.splits)
  show ?thesis
    unfolding eq using ok m(2,3) ne
    by (auto simp: d_ok_def d_emit_def stopExpirationTimer_def d_clearTimeout_def Let_def split: option.splits)
qed

lemma damp_loop_ok [preserves]: "d_ok d \<Longrightarrow> d_ok (damp_loop cfg now ms i as d)"
  by (induction "as" arbitrary: i d) (auto intro: dampMember_ok)

lemma onFanout_ok [preserves]: "d_ok d \<Longrightarrow> d_ok (onFanout cfg now ms rVal res d)"
  by (auto simp: onFanout_def Let_def intro: damp_loop_ok split: sum.splits)

lemma onSubprotocol_ok [preserves]: "d_ok d \<Longrightarrow> d_ok (onSubprotocol cfg d)"
  by (simp add: onSubprotocol_def schedule_ok)

lemma initiateSubprotocol_ok [preserves]: "d_ok d \<Longrightarrow> d_ok (snd (initiateSubprotocol sample ctx ms d))"
  by (auto simp: initiateSubprotocol_def validateDampedClusterLimits_def Let_def split: if_splits)

lemma d_reachable_ok: "d_reachable cfg d k x orderly \<Longrightarrow> \<not> x \<Longrightarrow> d_ok d"
proof (induction rule: d_reachable.induct)
  case init
  show ?case by (simp add: d_ok_def new_damper_def)
next
  case (add d k x orderly a d')
  then show ?case using addFlapper_ok [of d cfg a] by auto
next
  case (expire d k x orderly i t clock)
  have "d_ok (snd (expireDampedMembers cfg clock (d_clearTimeout i d)))"
    using expire.IH [OF expire.prems] by (intro expireDampedMembers_ok) simp
  then show ?case by (simp add: onExpirationTimeout_def Let_def schedule_ok)
next
  case (tick d k x orderly i t ctx sample ms fan d')
  have "d_ok (snd (initiateSubprotocol sample ctx ms (d_clearTimeout i d)))"
    using tick.IH [OF tick.prems] by (intro initiateSubprotocol_ok) simp
  then show ?case
    using tick.hyps(4) by (auto simp: onDampTimeout_def intro: onSubprotocol_ok split: prod.splits option.splits)
qed (auto intro: removeFlapper_ok dampMember_ok onFanout_ok onSubprotocol_ok)

section \<open>Handles and pending timeouts\<close>

definition ticks :: "damper_timer \<Rightarrow> damper \<Rightarrow> nat list" where
  "ticks ty d = map fst (filter (\<lambda>x. fst (snd x) = ty) (d_pending d))"

definition of_handle :: "nat option \<Rightarrow> nat list" where
  "of_handle h = (case h of None \<Rightarrow> [] | Some i \<Rightarrow> [i])"

lemma of_handle_simps [simp]: "of_handle None = []" "of_handle (Some i) = [i]"
  by (simp_all add: of_handle_def)

text \<open>Handles are fresh, and those of the two timers are kept apart.\<close>

definition fresh_ids :: "damper \<Rightarrow> bool" where
  "fresh_ids d \<longleftrightarrow> (\<forall>i \<in> set (map fst (d_pending d)). i < d_nextId d) \<and>
     (\<forall>i. d_dampTimer d = Some i \<longrightarrow> i < d_nextId d \<and> i \<notin> set (ticks ExpirationTick d)) \<and>
     (\<forall>i. d_expirationTimer d = Some i \<longrightarrow> i < d_nextId d \<and> i \<notin> set (ticks DampTick d))"

text \<open>
  The timeouts that are pending, with \<^theory_text>\<open>k\<close> subprotocols under way and \<^theory_text>\<open>e\<close> when the
  expiration timeout is just firing.
\<close>

definition held :: "bool \<Rightarrow> nat \<Rightarrow> bool \<Rightarrow> damper \<Rightarrow> bool" where
  "held orderly k e d \<longleftrightarrow> fresh_ids d \<and>
     ticks ExpirationTick d = (if e then [] else of_handle (d_expirationTimer d)) \<and>
     (d_dampTimer d \<noteq> None \<longrightarrow> 0 < k \<or> ticks DampTick d \<noteq> []) \<and>
     (orderly \<longrightarrow> k \<le> 1 \<and> ticks DampTick d = (if 0 < k then [] else of_handle (d_dampTimer d)))"

lemma held_cong:
  assumes "d_pending d' = d_pending d" "d_nextId d' = d_nextId d" "d_dampTimer d' = d_dampTimer d"
    "d_expirationTimer d' = d_expirationTimer d"
  shows "held orderly k e d' = held orderly k e d"
  using assms by (simp add: held_def fresh_ids_def ticks_def)

lemma fresh_cong:
  assumes "d_pending d' = d_pending d" "d_nextId d' = d_nextId d" "d_dampTimer d' = d_dampTimer d"
    "d_expirationTimer d' = d_expirationTimer d"
  shows "fresh_ids d' = fresh_ids d"
  using assms by (simp add: fresh_ids_def ticks_def)

lemma held_emit [simp]: "held orderly k e (d_emit ev d) = held orderly k e d"
  by (rule held_cong) (simp_all add: d_emit_def)

lemma ticks_clear: "ticks ty (d_clearTimeout i d) = filter (\<lambda>j. j \<noteq> i) (ticks ty d)"
  by (simp add: ticks_def d_clearTimeout_def filter_map comp_def conj_commute)

lemma ticks_schedule [simp]:
  "ticks DampTick (schedule_damp cfg d) = ticks DampTick d @ [d_nextId d]"
  "ticks ExpirationTick (schedule_damp cfg d) = ticks ExpirationTick d"
  "ticks DampTick (schedule_expiration cfg d) = ticks DampTick d"
  "ticks ExpirationTick (schedule_expiration cfg d) = ticks ExpirationTick d @ [d_nextId d]"
  by (simp_all add: ticks_def schedule_damp_def schedule_expiration_def)

lemma ticks_pending: "set (ticks ty d) \<subseteq> set (map fst (d_pending d))"
  by (auto simp: ticks_def)

lemma fresh_clear: "fresh_ids d \<Longrightarrow> fresh_ids (d_clearTimeout i d)"
  unfolding fresh_ids_def ticks_clear by (auto simp: d_clearTimeout_def)

lemma fresh_stop:
  assumes "fresh_ids d"
  shows "fresh_ids ((d_clearTimeout i d)\<lparr>d_dampTimer := None\<rparr>)"
    "fresh_ids ((d_clearTimeout i d)\<lparr>d_expirationTimer := None\<rparr>)"
proof -
  have "ticks ty (d\<lparr>d_dampTimer := h\<rparr>) = ticks ty d" "ticks ty (d\<lparr>d_expirationTimer := h\<rparr>) = ticks ty d" for ty d h
    by (simp_all add: ticks_def)
  then show "fresh_ids ((d_clearTimeout i d)\<lparr>d_dampTimer := None\<rparr>)"
    "fresh_ids ((d_clearTimeout i d)\<lparr>d_expirationTimer := None\<rparr>)"
    using fresh_clear [OF assms, of i] unfolding fresh_ids_def by simp_all
qed

lemma fresh_schedule:
  assumes "fresh_ids d"
  shows "fresh_ids (schedule_damp cfg d)" "fresh_ids (schedule_expiration cfg d)"
proof -
  have new: "d_nextId d \<notin> set (map fst (d_pending d))" using assms by (auto simp: fresh_ids_def)
  then have "d_nextId d \<notin> set (ticks ty d)" for ty using ticks_pending by fastforce
  then show "fresh_ids (schedule_damp cfg d)" "fresh_ids (schedule_expiration cfg d)"
    using assms new unfolding fresh_ids_def
    by (auto simp: less_Suc_eq) (auto simp: schedule_damp_def schedule_expiration_def less_Suc_eq)
qed

lemma held_startDamp:
  "held orderly k e d \<Longrightarrow> held (orderly \<and> (k = 0 \<or> d_dampTimer d \<noteq> None)) k e (startDampTimer cfg d)"
  using fresh_schedule(1) [of d cfg]
  by (auto simp: startDampTimer_def held_def) (auto simp: schedule_damp_def)

lemma held_stopDamp: "held orderly k e d \<Longrightarrow> held orderly k e (stopDampTimer d)"
proof (cases "d_dampTimer d")
  case (Some i)
  assume h: "held orderly k e d"
  have e: "i \<notin> set (ticks ExpirationTick d)" using h Some unfolding held_def fresh_ids_def by blast
  have "ticks ty ((d_clearTimeout i d)\<lparr>d_dampTimer := None\<rparr>) = filter (\<lambda>j. j \<noteq> i) (ticks ty d)" for ty
    using ticks_clear [of ty i d] by (simp add: ticks_def)
  moreover have "filter (\<lambda>j. j \<noteq> i) (ticks ExpirationTick d) = ticks ExpirationTick d"
    using e by (auto simp: filter_id_conv)
  moreover have "fresh_ids ((d_clearTimeout i d)\<lparr>d_dampTimer := None\<rparr>)"
    using h fresh_stop by (simp add: held_def)
  ultimately show ?thesis
    using h Some unfolding held_def stopDampTimer_def by (auto simp: d_clearTimeout_def)
qed (simp add: stopDampTimer_def)

lemma held_startExpiration: "held orderly k False d \<Longrightarrow> held orderly k False (startExpirationTimer cfg d)"
  using fresh_schedule(2) [of d cfg]
  by (auto simp: startExpirationTimer_def held_def) (auto simp: schedule_expiration_def)

lemma held_stopExpiration:
  assumes h: "held orderly k e d"
  shows "held orderly k e' (stopExpirationTimer d)"
proof (cases "d_expirationTimer d")
  case None
  then show ?thesis using h by (auto simp: stopExpirationTimer_def held_def)
next
  case (Some i)
  have e: "i \<notin> set (ticks DampTick d)" using h Some unfolding held_def fresh_ids_def by blast
  have "ticks ty ((d_clearTimeout i d)\<lparr>d_expirationTimer := None\<rparr>) = filter (\<lambda>j. j \<noteq> i) (ticks ty d)" for ty
    using ticks_clear [of ty i d] by (simp add: ticks_def)
  moreover have "filter (\<lambda>j. j \<noteq> i) (ticks DampTick d) = ticks DampTick d"
    using e by (auto simp: filter_id_conv)
  moreover have "fresh_ids ((d_clearTimeout i d)\<lparr>d_expirationTimer := None\<rparr>)"
    using h fresh_stop by (simp add: held_def)
  ultimately show ?thesis
    using h Some unfolding held_def stopExpirationTimer_def by (auto simp: d_clearTimeout_def)
qed

lemma held_weaken: "held orderly k e d \<Longrightarrow> held (orderly \<and> b) k e d"
  by (auto simp: held_def)

lemma held_addFlapper:
  assumes "held orderly k e d"
  shows "held (orderly \<and> (k = 0 \<or> d_dampTimer (snd (addFlapper cfg a d)) = d_dampTimer d)) k e (snd (addFlapper cfg a d))"
proof (cases "isDamped a d \<or> hasFlapper a d")
  case True
  then show ?thesis using assms by (auto simp: addFlapper_def)
next
  case False
  let ?d = "d\<lparr>d_flappers := dset a True (d_flappers d)\<rparr>"
  have h: "held orderly k e ?d" using assms held_cong [of ?d d] by simp
  show ?thesis
  proof (cases "getFlapperCount ?d = 1 \<and> d_dampTimer d = None")
    case True
    then have "snd (addFlapper cfg a d) = startDampTimer cfg ?d" "d_dampTimer (startDampTimer cfg ?d) \<noteq> None"
      using False by (simp_all add: addFlapper_def startDampTimer_def schedule_damp_def)
    then show ?thesis using held_startDamp [OF h, of cfg] True by auto
  next
    case no: False
    then have "snd (addFlapper cfg a d) = ?d" using False by (auto simp: addFlapper_def startDampTimer_def Let_def)
    then show ?thesis using h by simp
  qed
qed

lemma held_removeFlapper: "held orderly k e d \<Longrightarrow> held orderly k e (snd (removeFlapper a d))"
  using held_cong [of "d\<lparr>d_flappers := ddel a (d_flappers d)\<rparr>" d] held_stopDamp
  by (auto simp: removeFlapper_def Let_def)

lemma held_dampMember: "held orderly k False d \<Longrightarrow> held orderly k False (snd (dampMember cfg now ms a d))"
proof -
  have add: "held orderly k False (addDampedMember now a d)" if "held orderly k False d" for a d
    using that held_cong [of "addDampedMember now a d" d] by (simp add: addDampedMember_def)
  have val: "held orderly k e (snd (validateDampedClusterLimits cfg n d)) = held orderly k e d" for n d e
    by (simp add: validateDampedClusterLimits_def)
  assume h: "held orderly k False d"
  then show ?thesis
    using val [of False "getMemberCount ms" d]
    by (auto simp: dampMember_def Let_def split: option.split prod.split
        intro!: held_startExpiration add held_removeFlapper)
qed

lemma held_onFanout: "held orderly k False d \<Longrightarrow> held orderly k False (onFanout cfg now ms rVal res d)"
proof -
  have "held orderly k False (damp_loop cfg now ms i as d)" if "held orderly k False d" for i "as"
    using that by (induction "as" arbitrary: i d) (auto intro: held_dampMember)
  then show "held orderly k False d \<Longrightarrow> ?thesis" by (auto simp: onFanout_def Let_def split: sum.split)
qed

lemma expire_loop_frame: "\<exists>m. snd (expire_loop now sd i ks d) = d\<lparr>d_dampedMembers := m\<rparr>"
proof (induction ks arbitrary: d i)
  case (Cons a ks)
  show ?case
    using Cons [of "Suc i" d] Cons [of "Suc i" "d\<lparr>d_dampedMembers := ddel a (d_dampedMembers d)\<rparr>"]
    by (auto simp: Let_def split: option.split prod.split)
next
  case Nil
  show ?case by (intro exI [of _ "d_dampedMembers d"]) simp
qed

lemma held_expireMembers:
  assumes "held orderly k e d"
  shows "held orderly k e (snd (expireDampedMembers cfg now d))"
proof -
  obtain us d1 where r: "expire_loop now (c_dampScoringSuppressDuration cfg) 0 (dkeys (d_dampedMembers d)) d = (us, d1)"
    by fastforce
  obtain m where "d1 = d\<lparr>d_dampedMembers := m\<rparr>"
    using expire_loop_frame [of now "c_dampScoringSuppressDuration cfg" 0 "dkeys (d_dampedMembers d)" d] r by auto
  then have "held orderly k e d1" using assms held_cong [of d1 d] by simp
  then show ?thesis
    by (auto simp: expireDampedMembers_def r Let_def intro!: held_stopExpiration)
qed

lemma held_expire:
  assumes h: "held orderly k False d" and i: "(i, ExpirationTick, t) \<in> set (d_pending d)"
  shows "held orderly k False (onExpirationTimeout cfg now i d)"
proof -
  have "i \<in> set (ticks ExpirationTick d)" using i by (force simp: ticks_def)
  then have ex: "d_expirationTimer d = Some i"
    using h by (auto simp: held_def of_handle_def split: option.splits)
  then have "i \<notin> set (ticks DampTick d)" using h by (simp add: held_def fresh_ids_def)
  then have "filter (\<lambda>j. j \<noteq> i) (ticks DampTick d) = ticks DampTick d" by (auto simp: filter_id_conv)
  then have "held orderly k True (d_clearTimeout i d)"
    using h ex fresh_clear [of d i] unfolding held_def ticks_clear by (auto simp: d_clearTimeout_def)
  from held_expireMembers [OF this, of cfg now] show ?thesis
    using fresh_schedule(2) [of "snd (expireDampedMembers cfg now (d_clearTimeout i d))" cfg]
    by (auto simp: onExpirationTimeout_def Let_def held_def) (auto simp: schedule_expiration_def)
qed

lemma initiate_frame:
  "d_pending (snd (initiateSubprotocol sample ctx ms d)) = d_pending d \<and>
   d_nextId (snd (initiateSubprotocol sample ctx ms d)) = d_nextId d \<and>
   d_dampTimer (snd (initiateSubprotocol sample ctx ms d)) = d_dampTimer d \<and>
   d_expirationTimer (snd (initiateSubprotocol sample ctx ms d)) = d_expirationTimer d"
  by (auto simp: initiateSubprotocol_def validateDampedClusterLimits_def Let_def d_emit_def)

lemma held_tick:
  assumes h: "held orderly k False d" and i: "(i, DampTick, t) \<in> set (d_pending d)"
    and r: "onDampTimeout sample ctx ms i d = (fan, d')"
  shows "held orderly (case fan of None \<Rightarrow> k | Some _ \<Rightarrow> Suc k) False d'"
proof -
  let ?d = "d_clearTimeout i d"
  obtain d1 where d1: "initiateSubprotocol sample ctx ms ?d = (fan, d1)"
    "d' = (case fan of None \<Rightarrow> onSubprotocol (x_config ctx) d1 | Some _ \<Rightarrow> d1)"
    using r by (auto simp: onDampTimeout_def split: prod.splits)
  have eq: "d_pending d1 = d_pending ?d" "d_nextId d1 = d_nextId d" "d_dampTimer d1 = d_dampTimer d"
    "d_expirationTimer d1 = d_expirationTimer d"
    using initiate_frame [of sample ctx ms ?d] d1(1) by (simp_all add: d_clearTimeout_def)
  then have t1: "ticks ty d1 = filter (\<lambda>j. j \<noteq> i) (ticks ty d)" for ty
    using ticks_clear [of ty i d] by (simp add: ticks_def)
  have i1: "i \<in> set (ticks DampTick d)" using i by (force simp: ticks_def)
  have ex: "ticks ExpirationTick d = of_handle (d_expirationTimer d)" using h by (simp add: held_def)
  then have "i \<notin> set (ticks ExpirationTick d)"
    using h i1 by (auto simp: held_def fresh_ids_def of_handle_def split: option.splits)
  then have ex1: "ticks ExpirationTick d1 = of_handle (d_expirationTimer d1)"
    using ex eq by (auto simp: t1 filter_id_conv)
  have "fresh_ids ?d" using h fresh_clear by (simp add: held_def)
  then have fr: "fresh_ids d1"
    using fresh_cong [of d1 ?d] initiate_frame [of sample ctx ms ?d] d1(1) by simp
  have ord: "k = 0 \<and> ticks DampTick d1 = []" if orderly
    using h i1 that by (auto simp: held_def t1 of_handle_def split: if_splits option.splits)
  show ?thesis
    using fr ex1 ord fresh_schedule(1) [OF fr, of "x_config ctx"] unfolding d1(2)
    by (cases fan) (auto simp: held_def onSubprotocol_def, auto simp: schedule_damp_def)
qed

lemma held_fanout:
  assumes "held orderly (Suc k) False d"
  shows "held orderly k False (onSubprotocol cfg d)"
  using assms fresh_schedule(1) [of d cfg]
  by (auto simp: held_def onSubprotocol_def) (auto simp: schedule_damp_def)

lemma d_reachable_held: "d_reachable cfg d k x orderly \<Longrightarrow> held orderly k False d"
proof (induction rule: d_reachable.induct)
  case init
  show ?case by (simp add: held_def fresh_ids_def ticks_def new_damper_def)
next
  case (add d k x orderly a d')
  then show ?case using held_addFlapper [OF add.IH, of cfg a] by simp
next
  case (fanout d k x orderly clock ms rVal res)
  show ?case by (rule held_fanout [OF held_onFanout [OF fanout.IH]])
qed (auto simp: d_destroy_def intro: held_removeFlapper held_dampMember held_expire held_tick held_stopDamp
    held_stopExpiration)

text \<open>What an orderly run gives to those that stop the damper: every pending timeout has its handle.\<close>

definition d_held :: "damper \<Rightarrow> bool" where
  "d_held d \<longleftrightarrow> (\<forall>p \<in> set (d_pending d). Some (fst p) = d_dampTimer d \<or> Some (fst p) = d_expirationTimer d)"

lemma orderly_held:
  assumes "d_reachable cfg d k x True"
  shows "d_held d"
  unfolding d_held_def
proof
  fix p
  assume p: "p \<in> set (d_pending d)"
  note h = d_reachable_held [OF assms]
  show "Some (fst p) = d_dampTimer d \<or> Some (fst p) = d_expirationTimer d"
  proof (cases "fst (snd p)")
    case DampTick
    then have "fst p \<in> set (ticks DampTick d)" using p by (auto simp: ticks_def)
    then show ?thesis using h by (auto simp: held_def of_handle_def split: if_splits option.splits)
  next
    case ExpirationTick
    then have "fst p \<in> set (ticks ExpirationTick d)" using p by (auto simp: ticks_def)
    then show ?thesis using h by (auto simp: held_def of_handle_def split: option.splits)
  qed
qed

lemma d_held_ops:
  assumes "d_held d"
  shows "d_held (snd (addFlapper cfg a d))" "d_held (snd (removeFlapper a d))"
  using assms
  by (auto simp: d_held_def addFlapper_def removeFlapper_def startDampTimer_def schedule_damp_def stopDampTimer_def
      d_clearTimeout_def Let_def split: option.split)

lemma d_held_destroy:
  assumes "d_held d"
  shows "d_pending (d_destroy d) = [] \<and> d_dampTimer (d_destroy d) = None \<and> d_expirationTimer (d_destroy d) = None"
proof -
  have "p \<notin> set (d_pending (d_destroy d))" for p
    using assms
    by (auto simp: d_held_def d_destroy_def stopDampTimer_def stopExpirationTimer_def d_clearTimeout_def split: option.split)
  then have "d_pending (d_destroy d) = []" by (metis last_in_set)
  then show ?thesis
    by (auto simp: d_destroy_def stopDampTimer_def stopExpirationTimer_def d_clearTimeout_def split: option.split)
qed

text \<open>
  C36: In every state of a damper that is not destroyed no member is both a flapper and damped, the damp
  timer is set exactly while there are flappers, and the expiration timer exactly while there are damped
  members. In every state, destroyed or not, the pending expiration timeouts are exactly the one whose
  handle is kept, and while a damp timer is set a damp timeout is pending or a subprotocol is under way.
  In orderly runs, where no damp timer is started while a subprotocol is under way, there is no other
  damp timeout: with no subprotocol under way it is the one whose handle is kept, else there is none. So
  stopping the timers stops the timeouts. Without that the old subprotocol's callback leaves a second
  one, \<open>damp_restart_doubles\<close>.
\<close>

theorem damper_invariant:
  assumes "d_reachable cfg d subprotocols destroyed orderly"
  shows "(\<not> destroyed \<longrightarrow> \<not> (hasFlapper a d \<and> isDamped a d) \<and>
      (d_dampTimer d = None \<longleftrightarrow> getFlapperCount d = 0) \<and>
      (d_expirationTimer d = None \<longleftrightarrow> (\<forall>b. \<not> isDamped b d))) \<and>
    map fst (filter (\<lambda>p. fst (snd p) = ExpirationTick) (d_pending d)) =
      (case d_expirationTimer d of None \<Rightarrow> [] | Some i \<Rightarrow> [i]) \<and>
    (d_dampTimer d \<noteq> None \<longrightarrow>
      0 < subprotocols \<or> filter (\<lambda>p. fst (snd p) = DampTick) (d_pending d) \<noteq> []) \<and>
    (orderly \<longrightarrow> map fst (filter (\<lambda>p. fst (snd p) = DampTick) (d_pending d)) =
      (if 0 < subprotocols then [] else case d_dampTimer d of None \<Rightarrow> [] | Some i \<Rightarrow> [i]))"
proof -
  have "\<not> (hasFlapper a d \<and> isDamped a d) \<and> (d_dampTimer d = None \<longleftrightarrow> getFlapperCount d = 0) \<and>
      (d_expirationTimer d = None \<longleftrightarrow> (\<forall>b. \<not> isDamped b d))" if "\<not> destroyed"
  proof -
    have ok: "d_ok d" by (rule d_reachable_ok [OF assms that])
    have "(\<forall>b. \<not> isDamped b d) \<longleftrightarrow> d_dampedMembers d = []"
      using isDamped_iff [of _ d] by (cases "d_dampedMembers d") auto
    moreover have "\<not> (hasFlapper a d \<and> isDamped a d)"
      using hasFlapper_iff [OF ok] isDamped_iff [of a d] ok by (auto simp: d_ok_def)
    ultimately show ?thesis using ok by (auto simp: d_ok_def getFlapperCount_def)
  qed
  then show ?thesis
    using d_reachable_held [OF assms] by (simp add: held_def ticks_def of_handle_def)
qed

theorem damper_invariant_witness:
  "hasFlapper ''b:1'' (snd (addFlapper default_config ''b:1'' new_damper)) \<and>
    d_dampTimer (snd (addFlapper default_config ''b:1'' new_damper)) \<noteq> None \<and>
    map fst (filter (\<lambda>p. fst (snd p) = DampTick) (d_pending (snd (addFlapper default_config ''b:1'' new_damper)))) = [0]"
proof -
  let ?d = "snd (addFlapper default_config ''b:1'' new_damper)"
  have "d_reachable default_config ?d 0 False (True \<and> ((0::nat) = 0 \<or> d_dampTimer ?d = d_dampTimer new_damper))"
    by (rule d_reachable.add [OF d_reachable.init]) simp
  then have "d_reachable default_config ?d 0 False True" by simp
  note inv = damper_invariant [OF this, of "''b:1''"]
  have "getFlapperCount ?d = 1" "hasFlapper ''b:1'' ?d" "d_dampTimer ?d = Some 0"
    by (simp_all add: addFlapper_def isDamped_def hasFlapper_def new_damper_def getFlapperCount_def
        startDampTimer_def schedule_damp_def)
  then show ?thesis using inv by simp
qed

text \<open>
  The flapper goes while its subprotocol is under way, another comes: the new flapper's timer and the one
  the old subprotocol's callback starts are both pending, and only the second one has a handle.
\<close>

lemma damp_restart_doubles:
  "let d0 = snd (addFlapper default_config ''b:1'' new_damper);
       d1 = snd (removeFlapper ''b:1'' (d_clearTimeout 0 d0));
       d2 = onSubprotocol default_config (snd (addFlapper default_config ''c:1'' d1))
   in map fst (d_pending d2) = [1, 2] \<and> d_dampTimer d2 = Some 2 \<and> map fst (d_pending (d_destroy d2)) = [1]"
  by code_simp

text \<open>
  Destroying does not end a subprotocol that is under way: when its answers damp a member, the
  expiration timer is started again.
\<close>

lemma damping_after_destroy:
  "fst (dampMember cfg now ms addr (d_destroy d)) = Some True \<Longrightarrow>
    d_expirationTimer (snd (dampMember cfg now ms addr (d_destroy d))) \<noteq> None"
  by (auto simp: dampMember_def startExpirationTimer_def schedule_expiration_def Let_def split: option.splits prod.splits if_splits)

text \<open>
  The limit on damped members: a member is damped only while their share, this one not counted, is
  below the maximum percentage.
\<close>

lemma dampMember_limit:
  assumes "fst (dampMember cfg now ms addr d) = Some True"
  shows "real (length (d_dampedMembers d)) * 100 < real_of_int (c_dampedMaxPercentage cfg) * real (getMemberCount ms)"
  using assms
  by (auto simp: dampMember_def validateDampedClusterLimits_def Let_def field_simps split: option.splits if_splits)

end
