(* ===== verification/Node.thy ===== *)
theory Node
  imports Gossip Damper State_Transitions
begin

text \<open>
  A node: member list, hash ring, dissemination, state transitions, gossip and damper, and the listeners
  that tie them together (\<open>lib/on_membership_event.js\<close>, \<open>lib/on_ring_event.js\<close>), then the handlers of
  \<open>server/protocol\<close> and \<open>server/admin\<close> that work on all of them. An operation of the member list runs
  first and the events it emitted are delivered after it, in their order: listeners touch only the other
  components, so this is the state the synchronous emits leave. The listeners that only log, count or
  roll updates up are left out. A TypeError inside the ring's tree is an outcome.
\<close>

section \<open>State\<close>

record node =
  n_membership :: membership
  n_ring :: hash_ring
  n_dissemination :: dissemination
  n_transitions :: transitions
  n_gossip :: gossip
  n_damper :: damper

section \<open>Listeners\<close>

text \<open>\<open>ring.addRemoveServers\<close> with the ring's \<open>ringChanged\<close>, on which dissemination adjusts.\<close>

definition n_addRemoveServers :: "node_ctx \<Rightarrow> string list \<Rightarrow> string list \<Rightarrow> node \<Rightarrow> node outcome" where
  "n_addRemoveServers ctx adds removes n =
     (case addRemoveServers (x_hashFunc ctx) adds removes (n_ring n) of
        None \<Rightarrow> Inl TypeError
      | Some (ring, changed) \<Rightarrow>
          Inr (n\<lparr>n_ring := ring,
                 n_dissemination := (if changed then adjustMaxPiggybackCount (getServerCount ring) (n_dissemination n)
                   else n_dissemination n)\<rparr>))"

definition onLocalMemberLeave :: "node \<Rightarrow> node" where
  "onLocalMemberLeave n = n\<lparr>n_gossip := g_stop (n_gossip n), n_transitions := st_disable (n_transitions n)\<rparr>"

definition serversToAdd :: "update list \<Rightarrow> string list" where
  "serversToAdd updates = map u_address (filter (\<lambda>u. u_status u = Alive \<or> u_status u = Suspect) updates)"

definition serversToRemove :: "update list \<Rightarrow> string list" where
  "serversToRemove updates =
     map u_address (filter (\<lambda>u. u_status u = Faulty \<or> u_status u = Leave \<or> u_status u = Tombstone) updates)"

definition onMembershipSet :: "node_ctx \<Rightarrow> update list \<Rightarrow> node \<Rightarrow> node outcome" where
  "onMembershipSet ctx updates n =
     (let n1 = n\<lparr>n_transitions := fold (handleUpdate (x_whoami ctx)) updates (n_transitions n)\<rparr> in
      if length (serversToAdd updates) > 0 then n_addRemoveServers ctx (serversToAdd updates) [] n1
      else Inr n1)"

definition onUpdatedForGossip :: "node_ctx \<Rightarrow> update list \<Rightarrow> node \<Rightarrow> node" where
  "onUpdatedForGossip ctx updates n =
     fold (\<lambda>u n. n\<lparr>n_transitions := handleUpdate (x_whoami ctx) u (n_transitions n),
                   n_dissemination := recordChange u (n_dissemination n)\<rparr>) updates n"

definition onUpdatedForRing :: "node_ctx \<Rightarrow> update list \<Rightarrow> node \<Rightarrow> node outcome" where
  "onUpdatedForRing ctx updates n =
     (if length (serversToAdd updates) > 0 \<or> length (serversToRemove updates) > 0
      then n_addRemoveServers ctx (serversToAdd updates) (serversToRemove updates) n
      else Inr n)"

fun onMemberEvent :: "node_ctx \<Rightarrow> member_event \<Rightarrow> node \<Rightarrow> node" where
  "onMemberEvent ctx (MemberSuppressLimitExceeded address) n =
     n\<lparr>n_damper := snd (addFlapper (x_config ctx) address (n_damper n))\<rparr>"
| "onMemberEvent ctx (MemberReusable address old) n =
     n\<lparr>n_damper := snd (removeFlapper address (n_damper n))\<rparr>"
| "onMemberEvent ctx _ n = n"

fun on_ms_event :: "node_ctx \<Rightarrow> ms_event \<Rightarrow> node \<Rightarrow> node outcome" where
  "on_ms_event ctx (MsLocalMemberLeave address status) n = Inr (onLocalMemberLeave n)"
| "on_ms_event ctx (MsUpdated updates) n = onUpdatedForRing ctx updates (onUpdatedForGossip ctx updates n)"
| "on_ms_event ctx (MsSet updates) n = onMembershipSet ctx updates n"
| "on_ms_event ctx (MsMember address e) n = Inr (onMemberEvent ctx e n)"
| "on_ms_event ctx _ n = Inr n"

fun deliver :: "node_ctx \<Rightarrow> ms_event list \<Rightarrow> node \<Rightarrow> node outcome" where
  "deliver ctx [] n = Inr n"
| "deliver ctx (e # es) n =
     (case on_ms_event ctx e n of Inl err \<Rightarrow> Inl err | Inr n' \<Rightarrow> deliver ctx es n')"

section \<open>Operations of the member list on a node\<close>

definition quiet :: "node \<Rightarrow> membership" where
  "quiet n = (n_membership n)\<lparr>ms_events := []\<rparr>"

definition settle :: "node_ctx \<Rightarrow> membership \<Rightarrow> node \<Rightarrow> node outcome" where
  "settle ctx ms n = deliver ctx (ms_events ms) (n\<lparr>n_membership := ms\<lparr>ms_events := []\<rparr>\<rparr>)"

definition n_update :: "node_ctx \<Rightarrow> env \<Rightarrow> update list \<Rightarrow> node \<Rightarrow> node outcome" where
  "n_update ctx env changes n =
     (case ms_update ctx env changes (quiet n) of
        Inl e \<Rightarrow> Inl e
      | Inr (ms, updates) \<Rightarrow> settle ctx ms n)"

definition n_makeChange :: "node_ctx \<Rightarrow> env \<Rightarrow> string \<Rightarrow> int \<Rightarrow> status \<Rightarrow> node \<Rightarrow> node outcome" where
  "n_makeChange ctx env address inc status n =
     (case makeChange ctx env address inc status (quiet n) of
        Inl e \<Rightarrow> Inl e
      | Inr (ms, updates) \<Rightarrow> settle ctx ms n)"

definition n_setLocalStatus :: "node_ctx \<Rightarrow> env \<Rightarrow> status \<Rightarrow> node \<Rightarrow> node outcome" where
  "n_setLocalStatus ctx env status n = settle ctx (setLocalStatus ctx env status (quiet n)) n"

definition n_set :: "node_ctx \<Rightarrow> node \<Rightarrow> node outcome" where
  "n_set ctx n = settle ctx (ms_set ctx (quiet n)) n"

definition n_evict :: "node_ctx \<Rightarrow> string \<Rightarrow> node \<Rightarrow> node outcome" where
  "n_evict ctx address n =
     (case Membership.evict ctx address (quiet n) of Inl e \<Rightarrow> Inl e | Inr ms \<Rightarrow> settle ctx ms n)"

definition n_decay :: "node_ctx \<Rightarrow> env \<Rightarrow> node \<Rightarrow> node outcome" where
  "n_decay ctx env n = settle ctx (onDecayTimeout ctx env (quiet n)) n"

text \<open>A state transition's timeout fires: the callback of its \<open>schedule\<close> call.\<close>

definition onTransition :: "node_ctx \<Rightarrow> env \<Rightarrow> nat \<Rightarrow> node \<Rightarrow> node outcome" where
  "onTransition ctx env i n =
     (case st_fire i (n_transitions n) of
        (None, st) \<Rightarrow> Inr n
      | (Some t, st) \<Rightarrow>
          (let n1 = n\<lparr>n_transitions := st\<rparr> in
           case to_transition t of
             SuspectToFaulty \<Rightarrow> n_makeChange ctx env (to_address t) (to_inc t) Faulty n1
           | FaultyToTombstone \<Rightarrow> n_makeChange ctx env (to_address t) (to_inc t) Tombstone n1
           | TombstoneToEvict \<Rightarrow> n_evict ctx (to_address t) n1))"

section \<open>Protocol handlers\<close>

datatype server_error =
    RingpopIsNotReadyError
  | RequestError string
  | RedundantLeaveError
  | InvalidLocalMemberError

text \<open>What a ping or ping-req body may carry; a missing field is \<open>None\<close>.\<close>

record ping_in =
  pi_source :: "string option"
  pi_sourceInc :: "int option"
  pi_changes :: "update list option"
  pi_checksum :: "int option"
  pi_app :: "string option"
  pi_target :: "string option"

text \<open>
  \<open>handlePing\<close>: the answer, whether a reverse full sync is started, and the node. The body \<open>None\<close> is
  null.
\<close>

definition handlePing :: "node_ctx \<Rightarrow> env \<Rightarrow> string \<Rightarrow> bool \<Rightarrow> int \<Rightarrow> ping_in option \<Rightarrow> node \<Rightarrow>
    ((server_error + update list) \<times> bool \<times> node) outcome" where
  "handlePing ctx env app requiresAppInPing maxJobs body n =
     (let bad = (\<lambda>e. Inr (Inl e, False, n)) in
      if \<not> x_isReady ctx then bad RingpopIsNotReadyError
      else (case body of
        None \<Rightarrow> bad (RequestError ''need req body with source, changes, and checksum'')
      | Some b \<Rightarrow>
          (case pi_changes b of
             None \<Rightarrow> bad (RequestError ''need req body with source, changes, and checksum'')
           | Some changes \<Rightarrow>
               if \<not> truthy_str (pi_source b) \<or> \<not> truthy_num (pi_checksum b)
               then bad (RequestError ''need req body with source, changes, and checksum'')
               else if (case pi_app b of Some a \<Rightarrow> a \<noteq> app | None \<Rightarrow> False)
               then bad (RequestError ''Pinged ringpop has a different app name'')
               else if pi_app b = None \<and> requiresAppInPing
               then bad (RequestError ''Pinged ringpop requires app name'')
               else (case n_update ctx env changes n of
                       Inl e \<Rightarrow> Inl e
                     | Inr n1 \<Rightarrow>
                         (let ((out, fullSync), ds) = issueAsReceiver (x_whoami ctx) (n_membership n1)
                                (pi_source b) (pi_sourceInc b) (pi_checksum b) (n_dissemination n1);
                              (started, ds') = (if fullSync then tryStartReverseFullSync maxJobs ds else (False, ds))
                          in Inr (Inr out, started, n1\<lparr>n_dissemination := ds'\<rparr>))))))"

text \<open>
  \<open>handlePingReq\<close> up to the ping it sends to the target, and the answer once that ping is over.
\<close>

definition handlePingReq :: "node_ctx \<Rightarrow> env \<Rightarrow> string \<Rightarrow> ping_in option \<Rightarrow> node \<Rightarrow>
    ((server_error + string \<times> ping_body) \<times> node) outcome" where
  "handlePingReq ctx env app body n =
     (let bad = (\<lambda>e. Inr (Inl e, n)) in
      if \<not> x_isReady ctx then bad RingpopIsNotReadyError
      else (case body of
        None \<Rightarrow> bad (RequestError ''need req body with source, target, changes, and checksum'')
      | Some b \<Rightarrow>
          (case (pi_changes b, pi_target b) of
             (Some changes, Some target) \<Rightarrow>
               if \<not> truthy_str (pi_source b) \<or> target = [] \<or> \<not> truthy_num (pi_checksum b)
               then bad (RequestError ''need req body with source, target, changes, and checksum'')
               else (case n_update ctx env changes n of
                       Inl e \<Rightarrow> Inl e
                     | Inr n1 \<Rightarrow>
                         (let (req, ds) = ping_request ctx app (n_membership n1) (n_dissemination n1)
                          in Inr (Inr (target, req), n1\<lparr>n_dissemination := ds\<rparr>)))
           | _ \<Rightarrow> bad (RequestError ''need req body with source, target, changes, and checksum''))))"

definition answerPingReq :: "node_ctx \<Rightarrow> ping_in \<Rightarrow> bool \<Rightarrow> node \<Rightarrow> (update list \<times> bool \<times> string option) \<times> node" where
  "answerPingReq ctx b isOk n =
     (let ((out, fullSync), ds) = issueAsReceiver (x_whoami ctx) (n_membership n)
            (pi_source b) (pi_sourceInc b) (pi_checksum b) (n_dissemination n)
      in ((out, isOk, pi_target b), n\<lparr>n_dissemination := ds\<rparr>))"

text \<open>The answer to a ping this node sent arrives: \<open>onIssue\<close>, then \<open>onPing\<close>.\<close>

definition changesSent :: "node_ctx \<Rightarrow> env \<Rightarrow> update list \<Rightarrow> ('e + update list option) \<Rightarrow> node \<Rightarrow>
    (ping_error option \<times> node) outcome" where
  "changesSent ctx env sent res n =
     (let n1 = n\<lparr>n_dissemination := onIssue (case res of Inl e \<Rightarrow> Some e | Inr _ \<Rightarrow> None) sent (n_dissemination n)\<rparr> in
      (case onPing res of
         Inl e \<Rightarrow> Inr (Some e, n1)
       | Inr changes \<Rightarrow> (case n_update ctx env changes n1 of Inl e \<Rightarrow> Inl e | Inr n2 \<Rightarrow> Inr (None, n2))))"

text \<open>The answer to a ping-req it sent: here \<open>onPingReq\<close> comes first, then \<open>onIssue\<close>.\<close>

definition pingReqSent :: "node_ctx \<Rightarrow> env \<Rightarrow> update list \<Rightarrow> ('e + (update list \<times> bool) option) \<Rightarrow> node \<Rightarrow>
    (ping_req_error option \<times> node) outcome" where
  "pingReqSent ctx env sent res n =
     (let (changes, err) = onPingReq res;
          issued = (\<lambda>n. n\<lparr>n_dissemination := onIssue (case res of Inl e \<Rightarrow> Some e | Inr _ \<Rightarrow> None) sent (n_dissemination n)\<rparr>)
      in (case changes of
            None \<Rightarrow> Inr (err, issued n)
          | Some cs \<Rightarrow> (case n_update ctx env cs n of Inl e \<Rightarrow> Inl e | Inr n1 \<Rightarrow> Inr (err, issued n1))))"

section \<open>Admin handlers\<close>

text \<open>\<open>/admin/member/join\<close> of a member that left; \<open>None\<close> when it starts a join instead.\<close>

definition adminRejoin :: "(nat list \<Rightarrow> nat list) \<Rightarrow> node_ctx \<Rightarrow> env \<Rightarrow> real \<Rightarrow> node \<Rightarrow> node option outcome" where
  "adminRejoin shuffle ctx env random n =
     (case ms_local (n_membership n) of
        None \<Rightarrow> Inl TypeError
      | Some l \<Rightarrow>
          if m_status (deref (n_membership n) l) = Leave then
            (case n_setLocalStatus ctx env Alive n of
               Inl e \<Rightarrow> Inl e
             | Inr n1 \<Rightarrow>
                 (let (ms, g) = g_start shuffle (e_now env 0) random (n_membership n1) (n_gossip n1) in
                  Inr (Some (n1\<lparr>n_membership := ms, n_gossip := g,
                    n_transitions := st_enable (n_transitions n1)\<rparr>))))
          else Inr None)"

definition adminLeave :: "node_ctx \<Rightarrow> env \<Rightarrow> node \<Rightarrow> (server_error option \<times> node) outcome" where
  "adminLeave ctx env n =
     (case ms_local (n_membership n) of
        None \<Rightarrow> Inr (Some InvalidLocalMemberError, n)
      | Some l \<Rightarrow>
          if m_status (deref (n_membership n) l) = Leave then Inr (Some RedundantLeaveError, n)
          else (case n_setLocalStatus ctx env Leave n of Inl e \<Rightarrow> Inl e | Inr n1 \<Rightarrow> Inr (None, n1)))"

text \<open>\<open>/admin/reap\<close>: the members are those listed when it starts, their fields read one by one.\<close>

fun reap_loop :: "node_ctx \<Rightarrow> (nat \<Rightarrow> env) \<Rightarrow> nat list \<Rightarrow> nat \<Rightarrow> node \<Rightarrow> (nat \<times> node) outcome" where
  "reap_loop ctx envs [] reaped n = Inr (reaped, n)"
| "reap_loop ctx envs (r # rs) reaped n =
     (let member = deref (n_membership n) r in
      if m_status member = Faulty then
        (case n_makeChange ctx (envs reaped) (m_address member) (m_inc member) Tombstone n of
           Inl e \<Rightarrow> Inl e
         | Inr n1 \<Rightarrow> reap_loop ctx envs rs (reaped + 1) n1)
      else reap_loop ctx envs rs reaped n)"

definition adminReap :: "node_ctx \<Rightarrow> (nat \<Rightarrow> env) \<Rightarrow> node \<Rightarrow> ((server_error + nat) \<times> node) outcome" where
  "adminReap ctx envs n =
     (case ms_local (n_membership n) of
        None \<Rightarrow> Inr (Inl InvalidLocalMemberError, n)
      | Some l \<Rightarrow>
          (case reap_loop ctx envs (ms_members (n_membership n)) 0 n of
             Inl e \<Rightarrow> Inl e
           | Inr (reaped, n1) \<Rightarrow> Inr (Inr reaped, n1)))"

end
