(* ===== verification/Membership_Events.thy ===== *)
theory Membership_Events
  imports Membership_More
begin

text \<open>
  What the operations of the member list emit, and how the updates they report account for the change
  of the view: the listeners of a node see exactly these updates.
\<close>

section \<open>Reported updates account for the view\<close>

definition put_rank :: "update \<Rightarrow> (string \<Rightarrow> (int \<times> status) option) \<Rightarrow> string \<Rightarrow> (int \<times> status) option" where
  "put_rank u v = v(u_address u \<mapsto> u_rank u)"

text \<open>Events no listener but the damper's reacts to.\<close>

fun quiet_event :: "ms_event \<Rightarrow> bool" where
  "quiet_event (MsMember a e) = True"
| "quiet_event (MsChecksumComputed c p) = True"
| "quiet_event (MsChecksumUpdate c s) = True"
| "quiet_event _ = False"

definition adds_quiet :: "membership \<Rightarrow> membership \<Rightarrow> bool" where
  "adds_quiet ms ms' \<longleftrightarrow> (\<exists>es. ms_events ms' = ms_events ms @ es \<and> list_all quiet_event es)"

lemma adds_quiet_refl [simp, intro]: "adds_quiet ms ms"
  by (simp add: adds_quiet_def)

lemma adds_quiet_trans: "adds_quiet a b \<Longrightarrow> adds_quiet b c \<Longrightarrow> adds_quiet a c"
  by (force simp: adds_quiet_def)

lemma adds_quiet_same: "ms_events ms' = ms_events ms \<Longrightarrow> adds_quiet ms ms'"
  by (simp add: adds_quiet_def)

lemma adds_quiet_emit: "list_all quiet_event es \<Longrightarrow> adds_quiet ms (ms_emit es ms)"
  by (simp add: adds_quiet_def ms_emit_def)

lemma events_frame [simp]:
  "ms_events (set_member r m ms) = ms_events ms" "ms_events (insert_member p m ms) = ms_events ms"
  "ms_events (push_member m ms) = ms_events ms" "ms_events (ms_emit es ms) = ms_events ms @ es"
  "ms_events (fst (reincarnate env i l ms)) = ms_events ms"
  by (simp_all add: set_member_def insert_member_def alloc_member_def push_member_def ms_emit_def
      reincarnate_def Let_def)

lemma adds_quiet_checksum: "adds_quiet ms (ms_computeChecksum ctx ms)"
  by (simp add: adds_quiet_def ms_computeChecksum_def Let_def)

text \<open>The source of a reported update: the change itself, or the reincarnation of the local member.\<close>

definition reported :: "node_ctx \<Rightarrow> update list \<Rightarrow> status \<Rightarrow> update \<Rightarrow> bool" where
  "reported ctx changes s u \<longleftrightarrow>
     (u \<in> set changes \<and> u_address u \<noteq> x_whoami ctx) \<or> (u_address u = x_whoami ctx \<and> u_status u = s)"

lemma apply_change_trace:
  assumes ok: "ms_ok ctx ms" "x_isReady ctx" "ms_local ms = Some l"
    and r: "apply_change ctx env i change ms = Inr (ms', u)"
    and me: "view ms (x_whoami ctx) = Some (inc, s)"
  shows "view ms' = (case u of None \<Rightarrow> view ms | Some x \<Rightarrow> put_rank x (view ms)) \<and> adds_quiet ms ms' \<and>
    (\<forall>x. u = Some x \<longrightarrow> reported ctx [change] s x) \<and> ms_stashed ms' = ms_stashed ms"
proof -
  have step: "view ms' = gossip_step (x_whoami ctx) (e_now env i) change (view ms)"
    "u = None \<longleftrightarrow> \<not> processed (view ms (u_address change)) change"
    "\<forall>x. u = Some x \<longrightarrow> view ms' (u_address x) = Some (u_rank x) \<and> u_address x = u_address change"
    using apply_change_ok [OF ok, of env i change] r by auto
  have view: "view ms' = (case u of None \<Rightarrow> view ms | Some x \<Rightarrow> put_rank x (view ms))"
    using step by (cases u) (auto simp: gossip_step_def put_rank_def fun_eq_iff split: if_splits)
  have wf: "ms_wf ms" and idx: "dget (ms_byAddress ms) (x_whoami ctx) = Some l"
    using ok by (auto simp: ms_ok_def)
  have addr: "m_address (deref ms l) = x_whoami ctx" using idx wf wf_index by metis
  have stat: "m_status (deref ms l) = s" using me idx by (simp add: view_def known_def)
  have "adds_quiet ms ms' \<and> (\<forall>x. u = Some x \<longrightarrow> reported ctx [change] s x) \<and> ms_stashed ms' = ms_stashed ms"
    using r ok(3) addr stat
    by (auto simp: apply_change_def Let_def reported_def reincarnate_def new_update_def set_member_def
        insert_member_def alloc_member_def adds_quiet_def list_all_iff split: if_splits option.splits prod.splits)
  then show ?thesis using view by blast
qed

lemma put_rank_me:
  "reported ctx changes s u \<Longrightarrow> v (x_whoami ctx) = Some (inc, s) \<Longrightarrow>
    \<exists>inc'. put_rank u v (x_whoami ctx) = Some (inc', s)"
  by (auto simp: reported_def put_rank_def)

lemma update_loop_trace:
  assumes "ms_ok ctx ms" "x_isReady ctx" "ms_local ms = Some l"
    and "update_loop ctx env i changes ms = Inr (ms', us)"
    and "view ms (x_whoami ctx) = Some (inc, s)"
  shows "view ms' = fold put_rank us (view ms) \<and> adds_quiet ms ms' \<and>
    (\<forall>u \<in> set us. reported ctx changes s u) \<and> ms_stashed ms' = ms_stashed ms"
  using assms(1,3-5)
proof (induction changes arbitrary: i ms us inc)
  case (Cons change changes)
  obtain ms1 u where s1: "apply_change ctx env i change ms = Inr (ms1, u)" "ms_ok ctx ms1" "ms_local ms1 = Some l"
    using apply_change_ok [OF Cons.prems(1) assms(2) Cons.prems(2)] by blast
  note t = apply_change_trace [OF Cons.prems(1) assms(2) Cons.prems(2) s1(1) Cons.prems(4)]
  obtain us1 where us1: "update_loop ctx env (Suc i) changes ms1 = Inr (ms', us1)"
    "us = (case u of None \<Rightarrow> us1 | Some x \<Rightarrow> x # us1)"
    using Cons.prems(3) s1(1) by (auto split: sum.splits prod.splits)
  obtain inc1 where me: "view ms1 (x_whoami ctx) = Some (inc1, s)"
    using t put_rank_me [of ctx "[change]" s _ "view ms" inc] Cons.prems(4) by (cases u) auto
  note IH = Cons.IH [OF s1(2,3) us1(1) me]
  have "reported ctx (change # changes) s x" if "reported ctx [change] s x \<or> reported ctx changes s x" for x
    using that by (auto simp: reported_def)
  moreover have "adds_quiet ms ms'" using t IH adds_quiet_trans by blast
  ultimately show ?case using t IH us1(2) by (cases u) auto
qed simp

text \<open>\<open>update\<close>: quiet events, then the reported updates when there are any.\<close>

definition emitted :: "update list \<Rightarrow> ms_event list \<Rightarrow> bool" where
  "emitted us es \<longleftrightarrow>
     (\<exists>qs. list_all quiet_event qs \<and> es = qs @ (if us = [] then [] else [MsUpdated us]))"

lemma ms_update_trace:
  assumes "ms_ok ctx ms" "x_isReady ctx" "ms_local ms = Some l" "ms_events ms = []"
    and "ms_update ctx env changes ms = Inr (ms', us)"
    and "view ms (x_whoami ctx) = Some (inc, s)"
  shows "view ms' = fold put_rank us (view ms) \<and> emitted us (ms_events ms') \<and>
    (\<forall>u \<in> set us. reported ctx changes s u) \<and> ms_stashed ms' = ms_stashed ms"
proof (cases "changes = []")
  case True
  then show ?thesis using assms(4,5) by (auto simp: ms_update_def emitted_def)
next
  case False
  obtain ms1 where u: "update_loop ctx env 0 changes ms = Inr (ms1, us)"
    "ms' = (if us \<noteq> [] then ms_emit [MsUpdated us] (ms_computeChecksum ctx ms1) else ms1)"
    using assms(2,5) False by (auto simp: ms_update_def split: sum.splits)
  note t = update_loop_trace [OF assms(1-3) u(1) assms(6)]
  obtain es where es: "ms_events ms1 = es" "list_all quiet_event es"
    using t assms(4) by (auto simp: adds_quiet_def)
  obtain es' where "ms_events (ms_computeChecksum ctx ms1) = es @ es'" "list_all quiet_event es'"
    using adds_quiet_checksum [of ms1 ctx] es(1) by (auto simp: adds_quiet_def)
  then have "emitted us (ms_events ms')"
    using es u(2) by (auto simp: emitted_def)
  then show ?thesis using t u(2) by auto
qed

lemma setLocalStatus_trace:
  assumes "ms_ok ctx ms" "ms_events ms = []"
  shows "\<exists>u leave. u_address u = x_whoami ctx \<and> u_rank u = (e_now env 1, status) \<and>
    (leave = [] \<or> status = Leave \<and> (\<exists>a s. leave = [MsLocalMemberLeave a s])) \<and>
    ms_stashed (setLocalStatus ctx env status ms) = ms_stashed ms \<and>
    (\<exists>qs. list_all quiet_event qs \<and> ms_events (setLocalStatus ctx env status ms) = leave @ qs @ [MsUpdated [u]])"
proof -
  have chk: "\<exists>qs. list_all quiet_event qs \<and> ms_events (postLocalUpdate ctx u m) = ms_events m @ qs @ [MsUpdated [u]] \<and>
      ms_stashed (postLocalUpdate ctx u m) = ms_stashed m" for u m
    using adds_quiet_checksum [of m ctx] by (auto simp: adds_quiet_def postLocalUpdate_def)
  show ?thesis
  proof (cases "ms_local ms")
    case (Some l)
    let ?ms0 = "if status = Leave
      then ms_emit [MsLocalMemberLeave (m_address (deref ms l)) (m_status (deref ms l))] ms else ms"
    let ?ms1 = "set_member l ((deref ms l)\<lparr>m_status := status\<rparr>) ?ms0"
    have wf: "ms_wf ms" and idx: "dget (ms_byAddress ms) (x_whoami ctx) = Some l"
      using assms Some by (auto simp: ms_ok_def)
    have addr: "m_address (deref ms l) = x_whoami ctx" "l < length (ms_heap ms)"
      using idx wf wf_index wf_bound by metis+
    obtain ms2 u where r: "reincarnate env 1 l ?ms1 = (ms2, u)" by force
    have u: "u_address u = x_whoami ctx" "u_rank u = (e_now env 1, status)" "ms_events ms2 = ms_events ?ms0"
      "ms_stashed ms2 = ms_stashed ms"
      using r addr by (auto simp: reincarnate_def new_update_def set_member_def deref_def ms_emit_def Let_def split: if_splits)
    have eq: "setLocalStatus ctx env status ms = postLocalUpdate ctx u ms2"
      using Some r by (simp add: setLocalStatus_def Let_def)
    show ?thesis
      unfolding eq using chk [of u ms2] u assms(2)
      by (intro exI [of _ u] exI [of _ "ms_events ?ms0"]) auto
  next
    case None
    let ?u = "\<lparr>u_id = Some (e_uuid env 0), u_address = x_whoami ctx, u_status = status,
      u_inc = e_now env 0, u_source = None, u_sourceInc = None, u_dampScore = None, u_tombstone = False\<rparr>"
    let ?l = "length (ms_heap ms)"
    let ?ms1 = "(push_member (new_member (x_config ctx) ?u) ms)\<lparr>ms_local := Some ?l\<rparr>"
    obtain ms2 u where r: "reincarnate env 1 ?l ?ms1 = (ms2, u)" by force
    have d: "deref ?ms1 ?l = new_member (x_config ctx) ?u" by (simp add: deref_def push_member_def nth_append)
    have u: "u_address u = x_whoami ctx" "u_rank u = (e_now env 1, status)"
      "ms_events ms2 = ms_events ms" "ms_stashed ms2 = ms_stashed ms"
      using r d by (auto simp: reincarnate_def new_update_def set_member_def push_member_def insert_member_def
          alloc_member_def Let_def)
    have eq: "setLocalStatus ctx env status ms = postLocalUpdate ctx u ms2"
      using None r by (simp add: setLocalStatus_def Let_def)
    show ?thesis
      unfolding eq using chk [of u ms2] u assms(2) by (intro exI [of _ u] exI [of _ "[]"]) auto
  qed
qed

lemma ms_set_trace:
  assumes "\<not> x_isReady ctx" "ms_stashed ms = Some st" "st \<noteq> []" "ms_events ms = []"
  shows "\<exists>qs. list_all quiet_event qs \<and>
    ms_events (ms_set ctx ms) = qs @ [MsSet (mergeMembershipChangesets (x_whoami ctx) st)]"
proof -
  have loop: "ms_events (set_loop cfg us m) = ms_events m" for cfg us m
    by (induction us arbitrary: m) auto
  let ?us = "mergeMembershipChangesets (x_whoami ctx) st"
  let ?m = "(set_loop (x_config ctx) ?us ms)\<lparr>ms_stashed := None\<rparr>"
  have "adds_quiet ?m (ms_computeChecksum ctx ?m)" by (rule adds_quiet_checksum)
  then show ?thesis using assms loop by (auto simp: ms_set_def adds_quiet_def Let_def)
qed

lemma removeMember_trace: "adds_quiet ms (removeMember ctx a ms) \<and> ms_stashed (removeMember ctx a ms) = ms_stashed ms"
proof (cases "dget (ms_byAddress ms) a")
  case (Some r)
  let ?m = "ms\<lparr>ms_byAddress := ddel a (ms_byAddress ms), ms_members := filter (\<lambda>x. x \<noteq> r) (ms_members ms)\<rparr>"
  have "adds_quiet ?m (ms_computeChecksum ctx ?m)" by (rule adds_quiet_checksum)
  then show ?thesis using Some by (simp add: removeMember_def adds_quiet_def)
qed (simp add: removeMember_def)

lemma evict_trace:
  "Membership.evict ctx a ms = Inr ms' \<Longrightarrow> adds_quiet ms ms' \<and> ms_stashed ms' = ms_stashed ms"
  using removeMember_trace by (auto simp: Membership.evict_def split: option.splits if_splits)

lemma decay_trace: "adds_quiet ms (onDecayTimeout ctx env ms) \<and> ms_stashed (onDecayTimeout ctx env ms) = ms_stashed ms"
proof -
  have "adds_quiet ms (decay_loop cfg env i rs ms) \<and> ms_stashed (decay_loop cfg env i rs ms) = ms_stashed ms" for cfg i rs
  proof (induction rs arbitrary: i ms)
    case (Cons r rs)
    obtain m evs where m: "decayDampScore cfg (e_now env i) (deref ms r) = (m, evs)" by force
    let ?ms = "ms_emit (map (MsMember (m_address m)) evs) (set_member r m ms)"
    have "adds_quiet ms ?ms" by (auto simp: adds_quiet_def list_all_iff)
    moreover have "ms_stashed ?ms = ms_stashed ms" by (simp add: set_member_def ms_emit_def)
    ultimately show ?case using Cons [of ?ms "Suc i"] m adds_quiet_trans by auto
  qed simp
  then show ?thesis by (simp add: onDecayTimeout_def decay_schedule_def decayMembersDampScore_def adds_quiet_def)
qed

end
