(* ===== verification/Node_Facts.thy ===== *)
theory Node_Facts
  imports Node Membership_Events Damper_Properties Dissemination_Properties
begin

text \<open>
  The invariant of a node and that every operation keeps it: the ring has exactly the servers the node
  believes to be up, and every recorded state transition starts from the status the node has of its
  member.
\<close>

section \<open>The invariant\<close>

definition live :: "(string \<Rightarrow> (int \<times> status) option) \<Rightarrow> string set" where
  "live v = {a. \<exists>k. v a = Some k \<and> isStatusPingable (snd k)}"

definition matches :: "string \<Rightarrow> (string \<Rightarrow> (int \<times> status) option) \<Rightarrow> transitions \<Rightarrow> bool" where
  "matches whoami v st \<longleftrightarrow> dget (st_timers st) whoami = None \<and>
     (\<forall>a i s k. dget (st_timers st) a = Some (i, s) \<longrightarrow> v a = Some k \<longrightarrow> snd k = s)"

definition all_known :: "(string \<Rightarrow> (int \<times> status) option) \<Rightarrow> bool" where
  "all_known v \<longleftrightarrow> (\<forall>a k. v a = Some k \<longrightarrow> known_status (snd k))"

text \<open>
  A batch that does not say of one address that it is up and that it is not; and of known statuses. What
  nodes send has one change per address.
\<close>

definition consistent :: "update list \<Rightarrow> bool" where
  "consistent us \<longleftrightarrow> (\<forall>u \<in> set us. known_status (u_status u)) \<and>
     (\<forall>u \<in> set us. \<forall>w \<in> set us. u_address u = u_address w \<longrightarrow>
        isStatusPingable (u_status u) = isStatusPingable (u_status w))"

definition parts_ok :: "node_ctx \<Rightarrow> node \<Rightarrow> bool" where
  "parts_ok ctx n \<longleftrightarrow> ring_ok (x_hashFunc ctx) (n_ring n) \<and> st_ok (x_whoami ctx) (n_transitions n) \<and>
     ds_ok (n_dissemination n) \<and> d_ok (n_damper n)"

definition n_inv :: "node_ctx \<Rightarrow> node \<Rightarrow> bool" where
  "n_inv ctx n \<longleftrightarrow> ms_ok ctx (n_membership n) \<and> parts_ok ctx n \<and>
     all_known (view (n_membership n)) \<and>
     (\<forall>st. ms_stashed (n_membership n) = Some st \<longrightarrow> (\<forall>us \<in> set st. \<forall>u \<in> set us. known_status (u_status u))) \<and>
     ring_servers (n_ring n) = live (view (n_membership n)) \<and>
     matches (x_whoami ctx) (view (n_membership n)) (n_transitions n)"

section \<open>Views\<close>

lemma live_put: "live (put_rank u v) = (if isStatusPingable (u_status u) then insert (u_address u) (live v)
    else live v - {u_address u})"
  by (auto simp: live_def put_rank_def)

lemma pingable_iff: "known_status s \<Longrightarrow> isStatusPingable s \<longleftrightarrow> s = Alive \<or> s = Suspect"
  "known_status s \<Longrightarrow> \<not> isStatusPingable s \<longleftrightarrow> s = Faulty \<or> s = Leave \<or> s = Tombstone"
  by (cases s; simp)+

lemma servers_sets:
  assumes "\<forall>u \<in> set us. known_status (u_status u)"
  shows "set (serversToAdd us) = {a. \<exists>u \<in> set us. u_address u = a \<and> isStatusPingable (u_status u)}"
    "set (serversToRemove us) = {a. \<exists>u \<in> set us. u_address u = a \<and> \<not> isStatusPingable (u_status u)}"
proof -
  have "filter (\<lambda>u. u_status u = Alive \<or> u_status u = Suspect) us = filter (\<lambda>u. isStatusPingable (u_status u)) us"
    "filter (\<lambda>u. u_status u = Faulty \<or> u_status u = Leave \<or> u_status u = Tombstone) us =
      filter (\<lambda>u. \<not> isStatusPingable (u_status u)) us"
    by (rule filter_cong [OF refl], use assms pingable_iff in blast)+
  then show "set (serversToAdd us) = {a. \<exists>u \<in> set us. u_address u = a \<and> isStatusPingable (u_status u)}"
    "set (serversToRemove us) = {a. \<exists>u \<in> set us. u_address u = a \<and> \<not> isStatusPingable (u_status u)}"
    by (auto simp: serversToAdd_def serversToRemove_def)
qed

lemma consistent_mono: "consistent us \<Longrightarrow> set ws \<subseteq> set us \<Longrightarrow> consistent ws"
  unfolding consistent_def by blast

lemma live_fold:
  assumes "consistent us"
  shows "live (fold put_rank us v) = live v \<union> set (serversToAdd us) - set (serversToRemove us)"
proof -
  have known: "\<forall>u \<in> set us. known_status (u_status u)" using assms by (simp add: consistent_def)
  let ?A = "\<lambda>us. {a. \<exists>u \<in> set us. u_address u = a \<and> isStatusPingable (u_status u)}"
  let ?R = "\<lambda>us. {a. \<exists>u \<in> set us. u_address u = a \<and> \<not> isStatusPingable (u_status u)}"
  have "live (fold put_rank us v) = live v \<union> ?A us - ?R us"
    using assms
  proof (induction us rule: rev_induct)
    case (snoc u us)
    have c: "consistent us" by (rule consistent_mono [OF snoc.prems]) auto
    have same: "isStatusPingable (u_status w) = isStatusPingable (u_status u)"
      if "w \<in> set us" "u_address w = u_address u" for w
    proof -
      have "\<forall>w \<in> set (us @ [u]). \<forall>x \<in> set (us @ [u]). u_address w = u_address x \<longrightarrow>
          isStatusPingable (u_status w) = isStatusPingable (u_status x)"
        using snoc.prems unfolding consistent_def by blast
      moreover have "w \<in> set (us @ [u])" "u \<in> set (us @ [u])" using that(1) by simp_all
      ultimately show ?thesis using that(2) by blast
    qed
    show ?case
    proof (cases "isStatusPingable (u_status u)")
      case True
      then have "?R (us @ [u]) = ?R us" "?A (us @ [u]) = insert (u_address u) (?A us)" "u_address u \<notin> ?R us"
        using same by auto
      moreover have "live (fold put_rank (us @ [u]) v) = insert (u_address u) (live (fold put_rank us v))"
        using True by (simp add: live_put)
      note this [unfolded snoc.IH [OF c]]
      ultimately show ?thesis by (simp only: insert_Diff_if Un_insert_right if_False)
    next
      case False
      then have "?A (us @ [u]) = ?A us" "?R (us @ [u]) = insert (u_address u) (?R us)" by auto
      moreover have "live (fold put_rank (us @ [u]) v) = live (fold put_rank us v) - {u_address u}"
        using False by (simp add: live_put)
      note this [unfolded snoc.IH [OF c]]
      ultimately show ?thesis by (simp only: Diff_insert [of _ "u_address u" "?R us"])
    qed
  qed simp
  then show ?thesis unfolding servers_sets [OF known] .
qed

lemma all_known_put: "all_known v \<Longrightarrow> known_status (u_status u) \<Longrightarrow> all_known (put_rank u v)"
  by (simp add: all_known_def put_rank_def)

lemma all_known_fold:
  "all_known v \<Longrightarrow> \<forall>u \<in> set us. known_status (u_status u) \<Longrightarrow> all_known (fold put_rank us v)"
  by (induction us arbitrary: v) (simp_all add: all_known_put)

section \<open>State transitions follow the view\<close>

lemma schedule_timers:
  assumes ok: "st_ok whoami st" and "dget (st_timers (st_schedule whoami u s tr d st)) a = Some (i, s')"
  shows "dget (st_timers st) a = Some (i, s') \<and> (a = u_address u \<longrightarrow> s' = s \<or> u_address u = whoami) \<or>
    a = u_address u \<and> s' = s \<and> u_address u \<noteq> whoami"
proof (cases "st_enabled st \<and> u_address u \<noteq> whoami")
  case False
  then have "st_schedule whoami u s tr d st = st" by (auto simp: st_schedule_def)
  moreover have "st_timers st = []" if "\<not> st_enabled st" using ok that by (simp add: st_ok_def)
  ultimately show ?thesis using assms(2) False by fastforce
next
  case True
  then have "st_timers (st_schedule whoami u s tr d st) =
      (case dget (st_timers st) (u_address u) of
         None \<Rightarrow> dset (u_address u) (st_nextId st, s) (st_timers st)
       | Some t \<Rightarrow> if snd t = s then st_timers st
           else dset (u_address u) (st_nextId st, s) (ddel (u_address u) (st_timers st)))"
    by (simp add: st_schedule_def st_setTimeout_def st_cancel_eq [OF ok] split: option.splits)
  then show ?thesis using assms(2) True
    by (cases "a = u_address u") (auto simp: dict.get_put dict.get_del split: option.splits if_splits)
qed

lemma handleUpdate_matches:
  assumes ok: "st_ok whoami st" and m: "matches whoami v st" and k: "known_status (u_status u)"
  shows "matches whoami (put_rank u v) (handleUpdate whoami u st)"
proof -
  have sched: "matches whoami (put_rank u v) (st_schedule whoami u (u_status u) tr d st)" for tr d
    unfolding matches_def
  proof (intro conjI allI impI)
    show "dget (st_timers (st_schedule whoami u (u_status u) tr d st)) whoami = None"
      using schedule_timers [OF ok, of u "u_status u" tr d whoami] m
      by (cases "dget (st_timers (st_schedule whoami u (u_status u) tr d st)) whoami") (auto simp: matches_def)
    fix a i s k assume t: "dget (st_timers (st_schedule whoami u (u_status u) tr d st)) a = Some (i, s)"
      and v: "put_rank u v a = Some k"
    show "snd k = s"
      using schedule_timers [OF ok t] v m
      by (auto simp: matches_def put_rank_def simp del: split_paired_All split: if_splits)
  qed
  have cancel: "matches whoami (put_rank u v) (st_cancel (u_address u) st)"
    using m by (auto simp: matches_def put_rank_def st_cancel_eq [OF ok] dict.get_del
        simp del: split_paired_All split: if_splits)
  show ?thesis
    using sched cancel k
    by (cases "u_status u")
      (auto simp: scheduleSuspectToFaulty_def scheduleFaultyToTombstone_def scheduleTombstoneToEvict_def)
qed

lemma fold_handleUpdate:
  assumes "st_ok whoami st" "matches whoami v st" "\<forall>u \<in> set us. known_status (u_status u)"
  shows "st_ok whoami (fold (handleUpdate whoami) us st) \<and>
    matches whoami (fold put_rank us v) (fold (handleUpdate whoami) us st)"
  using assms
proof (induction us arbitrary: st v)
  case (Cons u us)
  have "st_ok whoami (handleUpdate whoami u st)" using Cons.prems(1) by (rule handleUpdate_ok)
  moreover have "matches whoami (put_rank u v) (handleUpdate whoami u st)"
    using handleUpdate_matches [OF Cons.prems(1,2)] Cons.prems(3) by simp
  ultimately show ?case using Cons.IH Cons.prems(3) by (simp del: handleUpdate.simps)
qed simp

section \<open>Listeners\<close>

lemma n_addRemoveServers_ok:
  assumes "parts_ok ctx n"
  shows "\<exists>ring ds. n_addRemoveServers ctx adds removes n = Inr (n\<lparr>n_ring := ring, n_dissemination := ds\<rparr>) \<and>
    ring_ok (x_hashFunc ctx) ring \<and> ds_ok ds \<and> ring_servers ring = ring_servers (n_ring n) \<union> set adds - set removes"
proof -
  obtain ring b where r: "addRemoveServers (x_hashFunc ctx) adds removes (n_ring n) = Some (ring, b)"
    "ring_ok (x_hashFunc ctx) ring" "ring_servers ring = ring_servers (n_ring n) \<union> set adds - set removes"
    using addRemoveServers_ok [of "x_hashFunc ctx" "n_ring n" adds removes] assms by (auto simp: parts_ok_def)
  have "ds_ok (adjustMaxPiggybackCount k ds) = ds_ok ds" for k ds
    by (simp add: adjustMaxPiggybackCount_def ds_ok_def ds_emit_def Let_def)
  then show ?thesis using r assms
    by (intro exI [of _ ring] exI [of _ "if b then adjustMaxPiggybackCount (getServerCount ring) (n_dissemination n)
        else n_dissemination n"]) (auto simp: n_addRemoveServers_def parts_ok_def)
qed

lemma onUpdatedForGossip_eq:
  "onUpdatedForGossip ctx us n = n\<lparr>n_transitions := fold (handleUpdate (x_whoami ctx)) us (n_transitions n),
    n_dissemination := fold recordChange us (n_dissemination n)\<rparr>"
  unfolding onUpdatedForGossip_def by (induction us arbitrary: n) (simp_all del: handleUpdate.simps)

lemma fold_recordChange_ok: "ds_ok ds \<Longrightarrow> ds_ok (fold recordChange us ds)"
  by (induction us arbitrary: ds) (auto intro: recordChange_ok)

text \<open>What a listener may leave behind: the member list and, but for a leave, gossip untouched.\<close>

lemma updated_ok:
  assumes "parts_ok ctx n" "matches (x_whoami ctx) v (n_transitions n)" "ring_servers (n_ring n) = live v"
    and "consistent us"
  shows "\<exists>n'. on_ms_event ctx (MsUpdated us) n = Inr n' \<and> parts_ok ctx n' \<and>
    matches (x_whoami ctx) (fold put_rank us v) (n_transitions n') \<and>
    ring_servers (n_ring n') = live (fold put_rank us v) \<and>
    n_membership n' = n_membership n \<and> n_gossip n' = n_gossip n \<and>
    n_transitions n' = fold (handleUpdate (x_whoami ctx)) us (n_transitions n)"
proof -
  have known: "\<forall>u \<in> set us. known_status (u_status u)" using assms(4) by (simp add: consistent_def)
  let ?n = "onUpdatedForGossip ctx us n"
  have st: "st_ok (x_whoami ctx) (n_transitions n)" "ds_ok (n_dissemination n)"
    using assms(1) by (simp_all add: parts_ok_def)
  note t = fold_handleUpdate [OF st(1) assms(2) known]
  have parts: "parts_ok ctx ?n"
    using assms(1) t fold_recordChange_ok [OF st(2)] by (simp add: parts_ok_def onUpdatedForGossip_eq)
  have ring: "n_ring ?n = n_ring n" "n_transitions ?n = fold (handleUpdate (x_whoami ctx)) us (n_transitions n)"
    "n_membership ?n = n_membership n" "n_gossip ?n = n_gossip n" "n_damper ?n = n_damper n"
    by (simp_all add: onUpdatedForGossip_eq)
  note live = live_fold [OF assms(4), of v]
  show ?thesis
  proof (cases "length (serversToAdd us) > 0 \<or> length (serversToRemove us) > 0")
    case True
    obtain r ds where "n_addRemoveServers ctx (serversToAdd us) (serversToRemove us) ?n =
        Inr (?n\<lparr>n_ring := r, n_dissemination := ds\<rparr>)" "ring_ok (x_hashFunc ctx) r" "ds_ok ds"
      "ring_servers r = ring_servers (n_ring ?n) \<union> set (serversToAdd us) - set (serversToRemove us)"
      using n_addRemoveServers_ok [OF parts] by blast
    then show ?thesis
      using True parts t live assms(3) ring by (simp add: onUpdatedForRing_def parts_ok_def)
  next
    case False
    then show ?thesis using parts t live assms(3) ring by (simp add: onUpdatedForRing_def)
  qed
qed

lemma deliver_append:
  "deliver ctx (es @ fs) n = (case deliver ctx es n of Inl e \<Rightarrow> Inl e | Inr n' \<Rightarrow> deliver ctx fs n')"
  by (induction es arbitrary: n) (auto split: sum.splits)

lemma deliver_quiet:
  assumes "list_all quiet_event es" "d_ok (n_damper n)"
  shows "\<exists>d. deliver ctx es n = Inr (n\<lparr>n_damper := d\<rparr>) \<and> d_ok d"
  using assms
proof (induction es arbitrary: n)
  case Nil
  then show ?case by (intro exI [of _ "n_damper n"]) simp
next
  case (Cons e es)
  have mem: "\<exists>d. onMemberEvent ctx x n = n\<lparr>n_damper := d\<rparr> \<and> d_ok d" for x
    using Cons.prems(2) addFlapper_ok removeFlapper_ok(1)
    by (cases x) (auto intro: exI [of _ "n_damper n"])
  have "\<exists>d. on_ms_event ctx e n = Inr (n\<lparr>n_damper := d\<rparr>) \<and> d_ok d"
    using Cons.prems mem by (cases e) (auto intro: exI [of _ "n_damper n"])
  then obtain d where d: "on_ms_event ctx e n = Inr (n\<lparr>n_damper := d\<rparr>)" "d_ok d" by blast
  have "list_all quiet_event es" "d_ok (n_damper (n\<lparr>n_damper := d\<rparr>))" using Cons.prems(1) d(2) by simp_all
  from Cons.IH [OF this] show ?case using d by auto
qed

end
