(* ===== verification/Node_Inv.thy ===== *)
theory Node_Inv
  imports Node_Facts
begin

text \<open>
  Every operation of a node keeps the invariant: the operations of the member list with the events
  they deliver, the firing of a state transition, and the handlers.
\<close>

section \<open>Settling\<close>

lemma quiet_simps [simp]:
  "ms_ok ctx (quiet n) = ms_ok ctx (n_membership n)" "view (quiet n) = view (n_membership n)"
  "ms_local (quiet n) = ms_local (n_membership n)" "ms_stashed (quiet n) = ms_stashed (n_membership n)"
  "ms_events (quiet n) = []"
  by (simp_all add: quiet_def ms_ok_def view_def [abs_def])

lemma drop_events [simp]:
  "ms_ok ctx (ms\<lparr>ms_events := es\<rparr>) = ms_ok ctx ms" "view (ms\<lparr>ms_events := es\<rparr>) = view ms"
  by (simp_all add: ms_ok_def view_def [abs_def])

text \<open>What holds of a member list an operation returned, but for the other components.\<close>

definition stash_known :: "membership \<Rightarrow> bool" where
  "stash_known ms \<longleftrightarrow> (\<forall>st. ms_stashed ms = Some st \<longrightarrow> (\<forall>us \<in> set st. \<forall>u \<in> set us. known_status (u_status u)))"

definition list_ok :: "node_ctx \<Rightarrow> membership \<Rightarrow> bool" where
  "list_ok ctx ms \<longleftrightarrow> ms_ok ctx ms \<and> all_known (view ms) \<and> stash_known ms"

lemma n_inv_list: "n_inv ctx n \<Longrightarrow> list_ok ctx (n_membership n)"
  by (simp add: n_inv_def list_ok_def stash_known_def)

lemma settle_quiet:
  assumes inv: "n_inv ctx n" and ms: "list_ok ctx ms" "adds_quiet (quiet n) ms"
    and v: "live (view ms) = live (view (n_membership n))"
    and m: "matches (x_whoami ctx) (view ms) (n_transitions n)"
  shows "\<exists>n'. settle ctx ms n = Inr n' \<and> n_inv ctx n' \<and> n_membership n' = ms\<lparr>ms_events := []\<rparr> \<and>
    n_transitions n' = n_transitions n \<and> n_gossip n' = n_gossip n"
proof -
  let ?n = "n\<lparr>n_membership := ms\<lparr>ms_events := []\<rparr>\<rparr>"
  have "list_all quiet_event (ms_events ms)" using ms(2) by (auto simp: adds_quiet_def)
  moreover have "d_ok (n_damper ?n)" using inv by (simp add: n_inv_def parts_ok_def)
  ultimately obtain d where d: "deliver ctx (ms_events ms) ?n = Inr (?n\<lparr>n_damper := d\<rparr>)" "d_ok d"
    using deliver_quiet by blast
  then show ?thesis
    using inv ms(1) v m by (auto simp: settle_def n_inv_def parts_ok_def list_ok_def stash_known_def)
qed

lemma settle_updated:
  assumes inv: "n_inv ctx n" and ms: "list_ok ctx ms" and es: "ms_events ms = qs @ [MsUpdated us]" "list_all quiet_event qs"
    and v: "view ms = fold put_rank us (view (n_membership n))" and c: "consistent us"
  shows "\<exists>n'. settle ctx ms n = Inr n' \<and> n_inv ctx n' \<and> n_membership n' = ms\<lparr>ms_events := []\<rparr> \<and>
    n_gossip n' = n_gossip n \<and> n_transitions n' = fold (handleUpdate (x_whoami ctx)) us (n_transitions n)"
proof -
  let ?n = "n\<lparr>n_membership := ms\<lparr>ms_events := []\<rparr>\<rparr>"
  have "d_ok (n_damper ?n)" using inv by (simp add: n_inv_def parts_ok_def)
  then obtain d where d: "deliver ctx qs ?n = Inr (?n\<lparr>n_damper := d\<rparr>)" "d_ok d"
    using deliver_quiet es(2) by blast
  let ?m = "?n\<lparr>n_damper := d\<rparr>"
  have pre: "parts_ok ctx ?m" "matches (x_whoami ctx) (view (n_membership n)) (n_transitions ?m)"
    "ring_servers (n_ring ?m) = live (view (n_membership n))"
    using inv d(2) by (simp_all add: n_inv_def parts_ok_def)
  from updated_ok [OF pre c] obtain n' where n': "on_ms_event ctx (MsUpdated us) ?m = Inr n'" "parts_ok ctx n'"
    "matches (x_whoami ctx) (fold put_rank us (view (n_membership n))) (n_transitions n')"
    "ring_servers (n_ring n') = live (fold put_rank us (view (n_membership n)))"
    "n_membership n' = n_membership ?m" "n_gossip n' = n_gossip ?m"
    "n_transitions n' = fold (handleUpdate (x_whoami ctx)) us (n_transitions ?m)" by blast
  have "settle ctx ms n = Inr n'"
    unfolding settle_def es(1) deliver_append d(1) using n'(1) by simp
  then show ?thesis
    using n' ms v by (auto simp: n_inv_def list_ok_def stash_known_def simp del: handleUpdate.simps)
qed

section \<open>Updates\<close>

lemma view_local:
  assumes "ms_ok ctx ms" "ms_local ms = Some l"
  shows "\<exists>inc s. view ms (x_whoami ctx) = Some (inc, s)"
  using assms by (auto simp: ms_ok_def view_def known_def)

text \<open>The reported updates of a consistent batch are consistent: those about the node itself all carry its own status.\<close>

lemma reported_consistent:
  assumes c: "consistent changes" and s: "known_status s" and r: "\<forall>u \<in> set us. reported ctx changes s u"
  shows "consistent us"
  unfolding consistent_def
proof (intro conjI ballI impI)
  fix u assume "u \<in> set us"
  then have "reported ctx changes s u" using r by blast
  then show "known_status (u_status u)" using c s unfolding reported_def consistent_def by blast
next
  fix u w assume "u \<in> set us" "w \<in> set us" and a: "u_address u = u_address w"
  then have "reported ctx changes s u" "reported ctx changes s w" using r by blast+
  then show "isStatusPingable (u_status u) = isStatusPingable (u_status w)"
    using a c unfolding reported_def consistent_def by metis
qed

lemma n_update_ok [preserves]:
  assumes inv: "n_inv ctx n" and ready: "x_isReady ctx \<Longrightarrow> ms_local (n_membership n) \<noteq> None" and c: "consistent changes"
  shows "\<exists>n'. n_update ctx env changes n = Inr n' \<and> n_inv ctx n' \<and>
    ms_local (n_membership n') = ms_local (n_membership n) \<and> n_gossip n' = n_gossip n \<and>
    (x_isReady ctx \<longrightarrow>
      view (n_membership n') = gossip_steps (x_whoami ctx) (e_now env) 0 changes (view (n_membership n)))"
proof (cases "x_isReady ctx")
  case True
  have ok: "ms_ok ctx (quiet n)" using inv by (simp add: n_inv_def)
  obtain l where l: "ms_local (quiet n) = Some l" using ready [OF True] by auto
  obtain inc s where me: "view (quiet n) (x_whoami ctx) = Some (inc, s)" using view_local [OF ok l] by blast
  have s: "known_status s" using inv me by (auto simp: n_inv_def all_known_def)
  obtain ms us where u: "ms_update ctx env changes (quiet n) = Inr (ms, us)" "ms_ok ctx ms" "ms_local ms = Some l"
    "view ms = gossip_steps (x_whoami ctx) (e_now env) 0 changes (view (quiet n))"
    using ms_update_ok [OF ok True l, of env changes] by blast
  note t = ms_update_trace [OF ok True l _ u(1) me, simplified]
  have cu: "consistent us" using reported_consistent [OF c s] t by blast
  have "\<forall>u \<in> set us. known_status (u_status u)" using cu by (simp add: consistent_def)
  then have lo: "list_ok ctx ms"
    using u(2) t inv all_known_fold by (simp add: list_ok_def n_inv_def stash_known_def)
  have step: "n_update ctx env changes n = settle ctx ms n" by (simp add: n_update_def u(1))
  obtain qs where qs: "list_all quiet_event qs" "ms_events ms = qs @ (if us = [] then [] else [MsUpdated us])"
    using t by (auto simp: emitted_def)
  show ?thesis
  proof (cases "us = []")
    case True
    then have "adds_quiet (quiet n) ms" "view ms = view (n_membership n)" using qs t by (auto simp: adds_quiet_def)
    then show ?thesis
      using settle_quiet [OF inv lo] inv step u(3,4) l by (auto simp: n_inv_def)
  next
    case False
    then show ?thesis
      using settle_updated [OF inv lo _ qs(1) _ cu] qs(2) t step u(3,4) l by auto
  qed
next
  case False
  let ?ms = "case ms_stashed (quiet n) of None \<Rightarrow> quiet n | Some st \<Rightarrow> (quiet n)\<lparr>ms_stashed := Some (st @ [changes])\<rparr>"
  let ?m = "if changes = [] then quiet n else ?ms"
  have step: "n_update ctx env changes n = settle ctx ?m n"
    using False by (auto simp: n_update_def ms_update_def)
  have f: "view ?m = view (n_membership n)" "ms_local ?m = ms_local (n_membership n)" "adds_quiet (quiet n) ?m"
    by (auto simp: adds_quiet_def view_def [abs_def] quiet_def split: option.splits)
  have "ms_ok ctx ?m" using inv False by (auto simp: n_inv_def ms_ok_def quiet_def deref_def split: option.splits)
  moreover have "stash_known ?m"
    using n_inv_list [OF inv] c
    by (auto simp: list_ok_def stash_known_def consistent_def quiet_def split: option.splits)
  ultimately have "list_ok ctx ?m" using f(1) inv by (simp add: list_ok_def n_inv_def)
  then show ?thesis
    using settle_quiet [OF inv _ f(3)] f inv False unfolding step by (auto simp: n_inv_def)
qed

text \<open>A single change of another member is reported as it is when it is processed.\<close>

lemma ms_update_single:
  assumes "ms_ok ctx ms" "x_isReady ctx" "ms_local ms = Some l" "u_address c \<noteq> x_whoami ctx"
  shows "\<exists>ms'. ms_update ctx env [c] ms = Inr (ms', if processed (view ms (u_address c)) c then [c] else []) \<and>
    ms_ok ctx ms' \<and> ms_local ms' = Some l"
proof -
  obtain inc s where me: "view ms (x_whoami ctx) = Some (inc, s)" using view_local [OF assms(1,3)] by blast
  obtain ms1 u where a: "apply_change ctx env 0 c ms = Inr (ms1, u)" "ms_ok ctx ms1" "ms_local ms1 = Some l"
    "u = None \<longleftrightarrow> \<not> processed (view ms (u_address c)) c"
    "\<forall>x. u = Some x \<longrightarrow> u_address x = u_address c"
    using apply_change_ok [OF assms(1-3), of env 0 c] by blast
  have "x = c" if "u = Some x" for x
    using apply_change_trace [OF assms(1-3) a(1) me] a(5) assms(4) that by (auto simp: reported_def)
  then have u: "u = (if processed (view ms (u_address c)) c then Some c else None)" using a(4) by (cases u) auto
  show ?thesis using a(1-3) assms(2) unfolding u by (auto simp: ms_update_def)
qed

lemma n_update_single:
  assumes inv: "n_inv ctx n" and ready: "x_isReady ctx" "ms_local (n_membership n) = Some l"
    and c: "u_address c \<noteq> x_whoami ctx" "known_status (u_status c)"
  shows "\<exists>n'. n_update ctx env [c] n = Inr n' \<and> n_inv ctx n' \<and> ms_local (n_membership n') = Some l \<and>
    (if processed (view (n_membership n) (u_address c)) c
     then view (n_membership n') = put_rank c (view (n_membership n)) \<and>
       n_transitions n' = handleUpdate (x_whoami ctx) c (n_transitions n)
     else view (n_membership n') = view (n_membership n) \<and> n_transitions n' = n_transitions n)"
proof -
  have ok: "ms_ok ctx (quiet n)" using inv by (simp add: n_inv_def)
  have l: "ms_local (quiet n) = Some l" using ready by simp
  let ?p = "processed (view (n_membership n) (u_address c)) c"
  obtain ms where u: "ms_update ctx env [c] (quiet n) = Inr (ms, if ?p then [c] else [])" "ms_ok ctx ms" "ms_local ms = Some l"
    using ms_update_single [OF ok ready(1) l c(1), of env] by auto
  obtain inc s where me: "view (quiet n) (x_whoami ctx) = Some (inc, s)" using view_local [OF ok l] by blast
  note t = ms_update_trace [OF ok ready(1) l _ u(1) me, simplified]
  have view: "view ms = (if ?p then put_rank c (view (n_membership n)) else view (n_membership n))"
    using t by (cases ?p) auto
  then have lo: "list_ok ctx ms"
    using u(2) t inv all_known_put [OF _ c(2)] by (simp add: list_ok_def n_inv_def stash_known_def)
  have step: "n_update ctx env [c] n = settle ctx ms n" by (simp add: n_update_def u(1))
  obtain qs where qs: "list_all quiet_event qs" "ms_events ms = qs @ (if ?p then [MsUpdated [c]] else [])"
    using t by (auto simp: emitted_def split: if_splits)
  show ?thesis
  proof (cases ?p)
    case True
    have "consistent [c]" using c(2) by (simp add: consistent_def)
    then show ?thesis
      using settle_updated [OF inv lo _ qs(1), of "[c]"] qs(2) True view step u(3)
      by (auto simp del: handleUpdate.simps)
  next
    case False
    then have "adds_quiet (quiet n) ms" using qs by (auto simp: adds_quiet_def)
    then show ?thesis
      using settle_quiet [OF inv lo] False view step u(3) inv by (auto simp: n_inv_def)
  qed
qed

lemma n_makeChange_single:
  assumes inv: "n_inv ctx n" and ready: "x_isReady ctx" "ms_local (n_membership n) = Some l"
    and c: "address \<noteq> x_whoami ctx" "known_status status"
  shows "\<exists>n' c. n_makeChange ctx env address inc status n = Inr n' \<and> n_inv ctx n' \<and>
    ms_local (n_membership n') = Some l \<and> u_address c = address \<and> u_rank c = (inc, status) \<and>
    (if processed (view (n_membership n) address) c
     then view (n_membership n') = (view (n_membership n))(address \<mapsto> (inc, status)) \<and>
       n_transitions n' = handleUpdate (x_whoami ctx) c (n_transitions n)
     else view (n_membership n') = view (n_membership n) \<and> n_transitions n' = n_transitions n)"
proof -
  obtain c where ch: "makeChange ctx env address inc status (quiet n) = ms_update ctx env [c] (quiet n)"
    "u_address c = address" "u_rank c = (inc, status)" by (simp add: makeChange_def Let_def)
  have "u_address c \<noteq> x_whoami ctx" "known_status (u_status c)" using c ch by auto
  from n_update_single [OF inv ready this, of env] ch show ?thesis
    by (intro exI [of _ "projr (n_update ctx env [c] n)"] exI [of _ c])
      (auto simp: n_makeChange_def n_update_def put_rank_def simp del: handleUpdate.simps)
qed

lemma n_makeChange_ok [preserves]:
  assumes "n_inv ctx n" "x_isReady ctx \<Longrightarrow> ms_local (n_membership n) \<noteq> None" "known_status status"
  shows "\<exists>n'. n_makeChange ctx env address inc status n = Inr n' \<and> n_inv ctx n' \<and>
    ms_local (n_membership n') = ms_local (n_membership n) \<and> n_gossip n' = n_gossip n"
proof -
  obtain c where c: "makeChange ctx env address inc status (quiet n) = ms_update ctx env [c] (quiet n)"
    "u_status c = status" by (simp add: makeChange_def Let_def)
  have "consistent [c]" using assms(3) c(2) by (simp add: consistent_def)
  moreover have "n_makeChange ctx env address inc status n = n_update ctx env [c] n"
    by (simp add: n_makeChange_def n_update_def c(1))
  ultimately show ?thesis using n_update_ok [OF assms(1,2), of "[c]" env] by auto
qed

section \<open>The other operations of the member list\<close>

lemma n_setLocalStatus_ok [preserves]:
  assumes inv: "n_inv ctx n" and s: "known_status status"
  shows "\<exists>n'. n_setLocalStatus ctx env status n = Inr n' \<and> n_inv ctx n' \<and> ms_local (n_membership n') \<noteq> None"
proof -
  have ok: "ms_ok ctx (quiet n)" using inv by (simp add: n_inv_def)
  let ?ms = "setLocalStatus ctx env status (quiet n)"
  note facts = setLocalStatus_ok [OF ok, of env status]
  obtain u leave qs where u: "u_address u = x_whoami ctx" "u_rank u = (e_now env 1, status)"
    "leave = [] \<or> status = Leave \<and> (\<exists>a s. leave = [MsLocalMemberLeave a s])"
    "ms_stashed ?ms = ms_stashed (quiet n)" "list_all quiet_event qs" "ms_events ?ms = leave @ qs @ [MsUpdated [u]]"
    using setLocalStatus_trace [OF ok quiet_simps(5), of env status] by blast
  have v: "view ?ms = fold put_rank [u] (view (n_membership n))" using facts u(1,2) by (simp add: put_rank_def)
  have c: "consistent [u]" using u(2) s by (simp add: consistent_def)
  have k: "known_status (u_status u)" using u(2) s by simp
  then have lo: "list_ok ctx ?ms"
    using facts v inv all_known_put [of "view (n_membership n)" u] u(4) by (simp add: list_ok_def n_inv_def stash_known_def)
  have sto: "st_ok (x_whoami ctx) (n_transitions n)" using inv by (simp add: n_inv_def parts_ok_def)
  show ?thesis
  proof (cases "leave = []")
    case True
    then have "ms_events ?ms = qs @ [MsUpdated [u]]" using u(6) by simp
    from settle_updated [OF inv lo this u(5) v c] show ?thesis
      using facts by (auto simp: n_setLocalStatus_def)
  next
    case False
    then obtain a s' where leave: "leave = [MsLocalMemberLeave a s']" using u(3) by blast
    let ?n = "onLocalMemberLeave n"
    have timers: "st_timers (st_disable (n_transitions n)) = []"
      using st_disable_ok(1,3) [OF sto] by (simp add: st_ok_def)
    have inv': "n_inv ctx ?n"
      using inv timers st_disable_ok(1) [OF sto] by (simp add: n_inv_def parts_ok_def onLocalMemberLeave_def matches_def)
    have mem: "n_membership ?n = n_membership n" by (simp add: onLocalMemberLeave_def)
    let ?ms' = "?ms\<lparr>ms_events := qs @ [MsUpdated [u]]\<rparr>"
    have lo': "list_ok ctx ?ms'" using lo by (simp add: list_ok_def stash_known_def)
    obtain n' where n': "settle ctx ?ms' ?n = Inr n'" "n_inv ctx n'" "n_membership n' = ?ms'\<lparr>ms_events := []\<rparr>"
      using settle_updated [OF inv' lo' _ u(5) _ c] v mem by auto
    have "settle ctx ?ms n = settle ctx ?ms' ?n"
      using u(6) leave by (cases n) (simp add: settle_def onLocalMemberLeave_def)
    then show ?thesis using n' facts by (auto simp: n_setLocalStatus_def)
  qed
qed

lemma find_put_rank:
  assumes "distinct (map u_address us)"
  shows "fold put_rank us v a = (case find (\<lambda>u. u_address u = a) us of None \<Rightarrow> v a | Some u \<Rightarrow> Some (u_rank u))"
  using assms
proof (induction us arbitrary: v)
  case (Cons u us)
  show ?case
  proof (cases "u_address u = a")
    case True
    then have "find (\<lambda>w. u_address w = a) us = None" using Cons.prems by (auto simp: find_None_iff) (metis image_eqI)
    then show ?thesis using Cons True by (simp add: put_rank_def)
  next
    case False
    then show ?thesis using Cons by (simp add: put_rank_def split: option.splits)
  qed
qed simp

text \<open>Setting: what is set of the stash is what its updates say, but for the tombstones.\<close>

lemma set_view_put:
  assumes "distinct (map u_address us)"
  shows "set_view us v a = Some k \<longleftrightarrow> (fold put_rank us v a = Some k \<and>
      (\<forall>u \<in> set us. u_address u = a \<longrightarrow> u_status u \<noteq> Tombstone)) \<or>
    (v a = Some k \<and> (\<exists>u \<in> set us. u_address u = a \<and> u_status u = Tombstone))"
proof (cases "\<exists>u \<in> set us. u_address u = a")
  case True
  then obtain u where u: "u \<in> set us" "u_address u = a" by blast
  have uniq: "w = u" if "w \<in> set us" "u_address w = a" for w
    using assms u that by (metis distinct_map inj_onD)
  have "find (\<lambda>w. u_address w = a) us \<noteq> None" using u by (auto simp: find_None_iff)
  then have "find (\<lambda>w. u_address w = a) us = Some u"
    using uniq by (auto simp: find_Some_iff) (metis nth_mem)
  then have "fold put_rank us v a = Some (u_rank u)" using find_put_rank [OF assms, of v a] by simp
  moreover have "set_view us v a = (if u_status u = Tombstone then v a else Some (u_rank u))"
    using set_view_at [OF assms u(1), of v] u(2) by simp
  moreover have "(\<exists>w \<in> set us. u_address w = a \<and> u_status w = Tombstone) \<longleftrightarrow> u_status u = Tombstone"
    "(\<forall>w \<in> set us. u_address w = a \<longrightarrow> u_status w \<noteq> Tombstone) \<longleftrightarrow> u_status u \<noteq> Tombstone"
    using u uniq by blast+
  ultimately show ?thesis by (cases "u_status u = Tombstone") (simp_all, blast+)
next
  case False
  then have "find (\<lambda>w. u_address w = a) us = None" "find (\<lambda>w. u_address w = a \<and> u_status w \<noteq> Tombstone) us = None"
    by (auto simp: find_None_iff)
  then show ?thesis using False find_put_rank [OF assms, of v a] by (auto simp: set_view_def)
qed

lemma n_set_ok [preserves]:
  assumes inv: "n_inv ctx n"
  shows "\<exists>n'. n_set ctx n = Inr n' \<and> n_inv ctx n' \<and> ms_local (n_membership n') = ms_local (n_membership n)"
proof (cases "\<not> x_isReady ctx \<and> (\<exists>st. ms_stashed (quiet n) = Some st \<and> st \<noteq> [])")
  case False
  then have "ms_set ctx (quiet n) = quiet n" by (auto simp: ms_set_def split: option.splits)
  moreover have "list_ok ctx (quiet n)"
    using n_inv_list [OF inv] by (simp add: list_ok_def stash_known_def)
  ultimately show ?thesis
    using settle_quiet [OF inv, of "quiet n"] inv by (auto simp: n_set_def n_inv_def quiet_def)
next
  case True
  then obtain st where st: "ms_stashed (quiet n) = Some st" "st \<noteq> []" and nr: "\<not> x_isReady ctx" by blast
  have ok: "ms_ok ctx (quiet n)" using inv by (simp add: n_inv_def)
  let ?us = "mergeMembershipChangesets (x_whoami ctx) st" and ?ms = "ms_set ctx (quiet n)"
  let ?v = "view (n_membership n)"
  note merged = mergeMembershipChangesets_ok [where whoami = "x_whoami ctx" and changesets = st]
  note facts = ms_set_ok [OF ok nr st]
  have known: "\<forall>u \<in> set ?us. known_status (u_status u)"
    using merged(2) inv st(1) by (fastforce simp: n_inv_def)
  have other: "?v a = None" if "a \<noteq> x_whoami ctx" for a
    using only_local_before_set [of ctx "quiet n" a] ok nr st(1) that by simp
  obtain qs where qs: "list_all quiet_event qs" "ms_events ?ms = qs @ [MsSet ?us]"
    using ms_set_trace [OF nr st] by auto
  let ?n = "n\<lparr>n_membership := ?ms\<lparr>ms_events := []\<rparr>\<rparr>"
  have "d_ok (n_damper ?n)" using inv by (simp add: n_inv_def parts_ok_def)
  then obtain d where d: "deliver ctx qs ?n = Inr (?n\<lparr>n_damper := d\<rparr>)" "d_ok d"
    using deliver_quiet [OF qs(1)] by blast
  let ?t = "fold (handleUpdate (x_whoami ctx)) ?us (n_transitions n)"
  let ?m = "?n\<lparr>n_damper := d, n_transitions := ?t\<rparr>"
  have "st_ok (x_whoami ctx) (n_transitions n)" "matches (x_whoami ctx) ?v (n_transitions n)"
    using inv by (simp_all add: n_inv_def parts_ok_def)
  note t = fold_handleUpdate [OF this known]
  have parts: "parts_ok ctx ?m" using inv t d(2) by (simp add: n_inv_def parts_ok_def)
  have view: "view ?ms = set_view ?us ?v" using facts by simp
  have tomb: "?v (u_address u) = None" if "u \<in> set ?us" for u using merged(3) that other by blast
  have put: "fold put_rank ?us ?v a = Some k" if "view ?ms a = Some k" for a k
    using that tomb unfolding view set_view_put [OF merged(1)] by fastforce
  have ak: "all_known (fold put_rank ?us ?v)"
    using all_known_fold [OF _ known] inv by (simp add: n_inv_def)
  have ak': "all_known (view ?ms)" unfolding all_known_def using put ak [unfolded all_known_def] by blast
  have lo: "list_ok ctx (?ms\<lparr>ms_events := []\<rparr>)"
    using facts ak' by (simp add: list_ok_def stash_known_def)
  have mt: "matches (x_whoami ctx) (view ?ms) ?t"
    using t put unfolding matches_def by blast
  have adds: "set (serversToAdd ?us) = {a. \<exists>u \<in> set ?us. u_address u = a \<and> isStatusPingable (u_status u)}"
    by (rule servers_sets(1) [OF known])
  have live: "live (view ?ms) = live ?v \<union> set (serversToAdd ?us)"
  proof (rule set_eqI)
    fix a
    show "a \<in> live (view ?ms) \<longleftrightarrow> a \<in> live ?v \<union> set (serversToAdd ?us)"
    proof (cases "\<exists>u \<in> set ?us. u_address u = a")
      case True
      then obtain u where u: "u \<in> set ?us" "u_address u = a" by blast
      have uniq: "w = u" if "w \<in> set ?us" "u_address w = a" for w
        using merged(1) u that by (metis distinct_map inj_onD)
      have "view ?ms a = (if u_status u = Tombstone then ?v a else Some (u_rank u))"
        using set_view_at [OF merged(1) u(1)] u(2) unfolding view by simp
      moreover have "a \<in> set (serversToAdd ?us) \<longleftrightarrow> isStatusPingable (u_status u)"
        unfolding adds using u uniq by blast
      moreover have "?v a = None" using tomb [OF u(1)] u(2) by simp
      ultimately show ?thesis by (cases "u_status u = Tombstone") (simp_all add: live_def)
    next
      case False
      then have "find (\<lambda>w. u_address w = a \<and> u_status w \<noteq> Tombstone) ?us = None" by (auto simp: find_None_iff)
      then have "view ?ms a = ?v a" unfolding view by (simp add: set_view_def)
      then show ?thesis using False unfolding adds live_def by auto
    qed
  qed
  have "\<exists>n'. onMembershipSet ctx ?us (?n\<lparr>n_damper := d\<rparr>) = Inr n' \<and> parts_ok ctx n' \<and>
      n_membership n' = ?ms\<lparr>ms_events := []\<rparr> \<and> n_transitions n' = ?t \<and>
      ring_servers (n_ring n') = ring_servers (n_ring n) \<union> set (serversToAdd ?us)"
  proof (cases "length (serversToAdd ?us) > 0")
    case True
    obtain r ds where r: "n_addRemoveServers ctx (serversToAdd ?us) [] ?m = Inr (?m\<lparr>n_ring := r, n_dissemination := ds\<rparr>)"
      "ring_ok (x_hashFunc ctx) r" "ds_ok ds" "ring_servers r = ring_servers (n_ring n) \<union> set (serversToAdd ?us)"
      using n_addRemoveServers_ok [OF parts, of "serversToAdd ?us" "[]"] by auto
    then show ?thesis using True parts by (simp add: onMembershipSet_def parts_ok_def)
  qed (use parts in \<open>simp add: onMembershipSet_def\<close>)
  then obtain n' where n': "onMembershipSet ctx ?us (?n\<lparr>n_damper := d\<rparr>) = Inr n'" "parts_ok ctx n'"
    "n_membership n' = ?ms\<lparr>ms_events := []\<rparr>" "n_transitions n' = ?t"
    "ring_servers (n_ring n') = ring_servers (n_ring n) \<union> set (serversToAdd ?us)" by blast
  have "n_set ctx n = Inr n'"
    unfolding n_set_def settle_def qs(2) deliver_append d(1) using n'(1) by simp
  moreover have "n_inv ctx n'"
    using n' lo mt live inv by (auto simp: n_inv_def list_ok_def stash_known_def)
  ultimately show ?thesis using n'(3) facts by auto
qed

lemma live_del: "live (v(a := None)) = live v - {a}"
  by (auto simp: live_def)

lemma n_evict_ok [preserves]:
  assumes inv: "n_inv ctx n" and l: "ms_local (n_membership n) = Some l"
    and up: "address = x_whoami ctx \<or> address \<notin> live (view (n_membership n))"
  shows "\<exists>n'. n_evict ctx address n = Inr n' \<and> n_inv ctx n' \<and> ms_local (n_membership n') = Some l \<and>
    n_gossip n' = n_gossip n"
proof -
  have ok: "ms_ok ctx (quiet n)" and l': "ms_local (quiet n) = Some l" using inv l by (simp_all add: n_inv_def)
  obtain ms where e: "Membership.evict ctx address (quiet n) = Inr ms" "ms_ok ctx ms" "ms_local ms = Some l"
    "view ms = (if address = x_whoami ctx then view (quiet n) else (view (quiet n))(address := None))"
    using evict_ok [OF ok l'] by blast
  note t = evict_trace [OF e(1)]
  have sub: "view (n_membership n) a = Some k" if "view ms a = Some k" for a k
    using that e(4) by (auto split: if_splits)
  have "all_known (view (n_membership n))" "matches (x_whoami ctx) (view (n_membership n)) (n_transitions n)"
    using inv by (simp_all add: n_inv_def)
  then have ak: "all_known (view ms)" and mt: "matches (x_whoami ctx) (view ms) (n_transitions n)"
    using sub unfolding all_known_def matches_def by blast+
  have lo: "list_ok ctx ms" using e(2) t ak inv by (simp add: list_ok_def stash_known_def n_inv_def)
  have "live (view ms) = live (view (n_membership n))"
    using e(4) up by (cases "address = x_whoami ctx") (simp_all add: live_del)
  from settle_quiet [OF inv lo conjunct1 [OF t] this mt] show ?thesis using e(1,3) by (auto simp: n_evict_def)
qed

lemma n_decay_ok [preserves]:
  assumes inv: "n_inv ctx n"
  shows "\<exists>n'. n_decay ctx env n = Inr n' \<and> n_inv ctx n' \<and>
    ms_local (n_membership n') = ms_local (n_membership n)"
proof -
  let ?ms = "onDecayTimeout ctx env (quiet n)"
  have ok: "ms_ok ctx (quiet n)" using inv by (simp add: n_inv_def)
  have f: "ms_ok ctx ?ms" "view ?ms = view (n_membership n)" "ms_local ?ms = ms_local (n_membership n)"
    using decay_ok [OF ok, of env] decay_local [of ctx env "quiet n"] by simp_all
  note t = decay_trace [of "quiet n" ctx env]
  have "list_ok ctx ?ms" using f t inv by (simp add: list_ok_def stash_known_def n_inv_def)
  from settle_quiet [OF inv this conjunct1 [OF t]] show ?thesis
    using f inv by (auto simp: n_decay_def n_inv_def)
qed

section \<open>State transitions\<close>

lemma fire_matches: "matches w v (snd (st_fire i st)) = matches w v st"
  by (auto simp: matches_def st_fire_def st_clearTimeout_def split: option.splits)

text \<open>
  A transition that fires is about another member, and when it evicts, about one the node does not
  take for up.
\<close>

lemma onTransition_ok [preserves]:
  assumes inv: "n_inv ctx n" and l: "ms_local (n_membership n) = Some l"
  shows "\<exists>n'. onTransition ctx env i n = Inr n' \<and> n_inv ctx n' \<and> ms_local (n_membership n') = Some l \<and>
    n_gossip n' = n_gossip n"
proof (cases "map_of (st_pending (n_transitions n)) i")
  case None
  then show ?thesis using inv l by (auto simp: onTransition_def st_fire_def)
next
  case (Some t)
  have st: "st_ok (x_whoami ctx) (n_transitions n)" using inv by (simp add: n_inv_def parts_ok_def)
  have p: "(i, t) \<in> set (st_pending (n_transitions n))" using Some by (rule map_of_SomeD)
  have timer: "dget (st_timers (n_transitions n)) (to_address t) = Some (i, from_state (to_transition t))"
    "to_address t \<noteq> x_whoami ctx"
    using pending_timer [OF st p] pending_not_local [OF st p] by auto
  let ?n = "n\<lparr>n_transitions := st_clearTimeout i (n_transitions n)\<rparr>"
  have fire: "st_fire i (n_transitions n) = (Some t, st_clearTimeout i (n_transitions n))"
    using Some by (simp add: st_fire_def)
  have inv': "n_inv ctx ?n"
    using inv st_clear_ok [OF st, of i] fire_matches [of "x_whoami ctx" "view (n_membership n)" i "n_transitions n"] fire
    by (simp add: n_inv_def parts_ok_def)
  have l': "ms_local (n_membership ?n) = Some l" "n_gossip ?n = n_gossip n" using l by simp_all
  have loc: "x_isReady ctx \<Longrightarrow> ms_local (n_membership ?n) \<noteq> None" using l by simp
  show ?thesis
  proof (cases "to_transition t")
    case SuspectToFaulty
    then show ?thesis
      using n_makeChange_ok [OF inv' loc, of Faulty env "to_address t" "to_inc t"] fire l' by (simp add: onTransition_def)
  next
    case FaultyToTombstone
    then show ?thesis
      using n_makeChange_ok [OF inv' loc, of Tombstone env "to_address t" "to_inc t"] fire l' by (simp add: onTransition_def)
  next
    case TombstoneToEvict
    have "to_address t \<notin> live (view (n_membership ?n))"
    proof
      assume "to_address t \<in> live (view (n_membership ?n))"
      then obtain k where k: "view (n_membership n) (to_address t) = Some k" "isStatusPingable (snd k)"
        by (auto simp: live_def)
      have "matches (x_whoami ctx) (view (n_membership n)) (n_transitions n)" using inv by (simp add: n_inv_def)
      then have "snd k = from_state (to_transition t)" unfolding matches_def using timer(1) k(1) by blast
      then show False using k(2) TombstoneToEvict by simp
    qed
    then show ?thesis
      using n_evict_ok [OF inv' l'(1)] fire TombstoneToEvict l' by (simp add: onTransition_def)
  qed
qed

section \<open>What listeners leave alone\<close>

lemma on_ms_event_frame:
  assumes "on_ms_event ctx e n = Inr n'" and "ring_ok (x_hashFunc ctx) (n_ring n)"
  shows "n_membership n' = n_membership n \<and> ring_ok (x_hashFunc ctx) (n_ring n') \<and>
    hr_replicaPoints (n_ring n') = hr_replicaPoints (n_ring n)"
proof -
  have add: "n_membership n2 = n_membership n1 \<and> ring_ok (x_hashFunc ctx) (n_ring n2) \<and>
      hr_replicaPoints (n_ring n2) = hr_replicaPoints (n_ring n1)"
    if eq: "n_addRemoveServers ctx adds removes n1 = Inr n2" and ok: "ring_ok (x_hashFunc ctx) (n_ring n1)"
    for adds removes n1 n2
  proof -
    obtain ring b where "addRemoveServers (x_hashFunc ctx) adds removes (n_ring n1) = Some (ring, b)"
      "ring_ok (x_hashFunc ctx) ring" "hr_replicaPoints ring = hr_replicaPoints (n_ring n1)"
      using addRemoveServers_ok [OF ok, of adds removes] by blast
    then show ?thesis using eq by (auto simp: n_addRemoveServers_def)
  qed
  have gossip: "n_membership (onUpdatedForGossip ctx us n) = n_membership n \<and>
      n_ring (onUpdatedForGossip ctx us n) = n_ring n" for us n
    by (simp add: onUpdatedForGossip_eq)
  show ?thesis
  proof (cases e)
    case (MsMember a m)
    then show ?thesis using assms by (cases m) auto
  next
    case (MsUpdated us)
    let ?n = "onUpdatedForGossip ctx us n"
    have "n' = ?n \<or> n_addRemoveServers ctx (serversToAdd us) (serversToRemove us) ?n = Inr n'"
      using assms(1) MsUpdated by (simp add: onUpdatedForRing_def split: if_splits)
    then show ?thesis using assms(2) gossip [of us] add [of "serversToAdd us" "serversToRemove us" ?n n'] by auto
  next
    case (MsSet us)
    let ?n = "n\<lparr>n_transitions := fold (handleUpdate (x_whoami ctx)) us (n_transitions n)\<rparr>"
    have "n' = ?n \<or> n_addRemoveServers ctx (serversToAdd us) [] ?n = Inr n'"
      using assms(1) MsSet by (auto simp: onMembershipSet_def Let_def split: if_splits)
    then show ?thesis using assms(2) add [of "serversToAdd us" "[]" ?n n'] by auto
  qed (use assms in \<open>auto simp: onLocalMemberLeave_def\<close>)
qed

lemma deliver_frame:
  "deliver ctx es n = Inr n' \<Longrightarrow> ring_ok (x_hashFunc ctx) (n_ring n) \<Longrightarrow>
    n_membership n' = n_membership n \<and> hr_replicaPoints (n_ring n') = hr_replicaPoints (n_ring n)"
proof (induction es arbitrary: n)
  case (Cons e es)
  obtain n1 where n1: "on_ms_event ctx e n = Inr n1" "deliver ctx es n1 = Inr n'"
    using Cons.prems(1) by (auto split: sum.splits)
  show ?case using on_ms_event_frame [OF n1(1) Cons.prems(2)] Cons.IH [OF n1(2)] by simp
qed simp

lemma settle_frame:
  "settle ctx ms n = Inr n' \<Longrightarrow> ring_ok (x_hashFunc ctx) (n_ring n) \<Longrightarrow>
    n_membership n' = ms\<lparr>ms_events := []\<rparr> \<and> hr_replicaPoints (n_ring n') = hr_replicaPoints (n_ring n)"
  using deliver_frame [of ctx "ms_events ms" "n\<lparr>n_membership := ms\<lparr>ms_events := []\<rparr>\<rparr>" n'] by (simp add: settle_def)

lemma n_update_frame:
  "n_update ctx env changes n = Inr n' \<Longrightarrow> n_inv ctx n \<Longrightarrow>
    hr_replicaPoints (n_ring n') = hr_replicaPoints (n_ring n) \<and>
    (\<exists>ms us. ms_update ctx env changes (quiet n) = Inr (ms, us) \<and> n_membership n' = ms\<lparr>ms_events := []\<rparr>)"
  by (auto simp: n_update_def n_inv_def parts_ok_def dest: settle_frame split: sum.splits prod.splits)

end
