(* ===== verification/Node_Properties.thy ===== *)
theory Node_Properties
  imports Node_Inv Ring_Properties
begin

text \<open>
  The properties of a node as a whole: in every reachable state the ring routes keys to the members
  the node takes for up and to no others, pending transitions start from the status their member has,
  and suspicion ends as it should.
\<close>

section \<open>Reachable states\<close>

definition new_node :: "gossip \<Rightarrow> nat option \<Rightarrow> int option \<times> int option \<times> int option \<Rightarrow> node" where
  "new_node g replicaPoints periods =
     \<lparr>n_membership = new_membership, n_ring = new_ring replicaPoints, n_dissemination = new_dissemination,
      n_transitions = (case periods of (s, f, t) \<Rightarrow> new_transitions s f t), n_gossip = g, n_damper = new_damper\<rparr>"

text \<open>
  What a node does, in any order: it applies consistent batches of changes, changes its own status,
  sets the stashed updates, fires transitions, decays damp scores, reaps. Meanwhile the protocol loop shuffles the
  list and changes its own state, and dissemination and damper do anything that keeps their invariants.
\<close>

inductive n_reachable :: "node_ctx \<Rightarrow> bool \<Rightarrow> node \<Rightarrow> bool" for ctx where
  start: "n_reachable ctx False (new_node g replicaPoints periods)"
| become_ready: "n_reachable ctx b n \<Longrightarrow> ms_local (n_membership n) \<noteq> None \<Longrightarrow> n_reachable ctx True n"
| update: "n_reachable ctx b n \<Longrightarrow> consistent changes \<Longrightarrow> n_update (ready ctx b) env changes n = Inr n' \<Longrightarrow>
    n_reachable ctx b n'"
| make_change: "n_reachable ctx b n \<Longrightarrow> known_status status \<Longrightarrow>
    n_makeChange (ready ctx b) env address inc status n = Inr n' \<Longrightarrow> n_reachable ctx b n'"
| local_status: "n_reachable ctx b n \<Longrightarrow> known_status status \<Longrightarrow>
    n_setLocalStatus (ready ctx b) env status n = Inr n' \<Longrightarrow> n_reachable ctx b n'"
| set_stashed: "n_reachable ctx b n \<Longrightarrow> n_set (ready ctx b) n = Inr n' \<Longrightarrow> n_reachable ctx b n'"
| transition: "n_reachable ctx b n \<Longrightarrow> ms_local (n_membership n) \<noteq> None \<Longrightarrow>
    onTransition (ready ctx b) env i n = Inr n' \<Longrightarrow> n_reachable ctx b n'"
| decay: "n_reachable ctx b n \<Longrightarrow> n_decay (ready ctx b) env n = Inr n' \<Longrightarrow> n_reachable ctx b n'"
| gossip: "n_reachable ctx b n \<Longrightarrow> mset (shuffle (ms_members (n_membership n))) = mset (ms_members (n_membership n)) \<Longrightarrow>
    n_reachable ctx b (n\<lparr>n_membership := ms_shuffle shuffle (n_membership n), n_gossip := g\<rparr>)"
| enable: "n_reachable ctx b n \<Longrightarrow> n_reachable ctx b (n\<lparr>n_transitions := st_enable (n_transitions n)\<rparr>)"
| disable: "n_reachable ctx b n \<Longrightarrow> n_reachable ctx b (n\<lparr>n_transitions := st_disable (n_transitions n)\<rparr>)"
| others: "n_reachable ctx b n \<Longrightarrow> ds_ok ds \<Longrightarrow> d_ok d \<Longrightarrow>
    n_reachable ctx b (n\<lparr>n_dissemination := ds, n_damper := d\<rparr>)"

lemma n_inv_start: "n_inv (ready ctx False) (new_node g replicaPoints periods)"
proof -
  have v: "view new_membership = Map.empty" by (auto simp: view_def known_def new_membership_def)
  obtain s f t where p: "periods = (s, f, t)" by (cases periods) auto
  have "ms_ok (ready ctx False) new_membership" by (simp add: ms_ok_def ms_wf_def new_membership_def)
  moreover have "d_ok new_damper" "ds_ok new_dissemination"
    by (simp_all add: d_ok_def new_damper_def ds_ok_def new_dissemination_def)
  ultimately show ?thesis
    using v st_ok_new ring_ok_new
    by (simp add: n_inv_def new_node_def parts_ok_def all_known_def live_def matches_def p)
      (simp add: new_membership_def new_ring_def new_transitions_def)
qed

lemma n_inv_ready: "n_inv (ready ctx b) n \<Longrightarrow> n_inv (ready ctx True) n"
  by (simp add: n_inv_def ms_ok_def parts_ok_def)

lemma n_inv_shuffle:
  assumes "n_inv ctx n" "mset (shuffle (ms_members (n_membership n))) = mset (ms_members (n_membership n))"
  shows "n_inv ctx (n\<lparr>n_membership := ms_shuffle shuffle (n_membership n), n_gossip := g\<rparr>)"
proof -
  note s = shuffle_ok [of ctx "n_membership n" shuffle]
  have "view (ms_shuffle shuffle (n_membership n)) = view (n_membership n)"
    using assms s by (simp add: view_def [abs_def] n_inv_def)
  moreover have "ms_stashed (ms_shuffle shuffle (n_membership n)) = ms_stashed (n_membership n)"
    by (simp add: ms_shuffle_def)
  ultimately show ?thesis using assms s by (simp add: n_inv_def parts_ok_def)
qed

lemma n_reachable_inv:
  "n_reachable ctx b n \<Longrightarrow> n_inv (ready ctx b) n \<and> (b \<longrightarrow> ms_local (n_membership n) \<noteq> None)"
proof (induction rule: n_reachable.induct)
  case start
  show ?case using n_inv_start by blast
next
  case (become_ready b n)
  then show ?case using n_inv_ready by blast
next
  case (update b n changes env n')
  then have inv: "n_inv (ready ctx b) n" "x_isReady (ready ctx b) \<Longrightarrow> ms_local (n_membership n) \<noteq> None" by auto
  from n_update_ok [OF inv update.hyps(2), of env] show ?case using update.hyps(3) update.IH by auto
next
  case (make_change b n status env address inc n')
  then have inv: "n_inv (ready ctx b) n" "x_isReady (ready ctx b) \<Longrightarrow> ms_local (n_membership n) \<noteq> None" by auto
  from n_makeChange_ok [OF inv make_change.hyps(2), of env address inc] show ?case
    using make_change.hyps(3) make_change.IH by auto
next
  case (local_status b n status env n')
  then show ?case using n_setLocalStatus_ok [of "ready ctx b" n status env] by auto
next
  case (set_stashed b n n')
  then show ?case using n_set_ok [of "ready ctx b" n] by auto
next
  case (transition b n env i n')
  then obtain l where "ms_local (n_membership n) = Some l" by blast
  then show ?case using onTransition_ok [of "ready ctx b" n l env i] transition by auto
next
  case (decay b n env n')
  then show ?case using n_decay_ok [of "ready ctx b" n env] by auto
next
  case (gossip b n shuffle g)
  then have "n_inv (ready ctx b) n" by blast
  from n_inv_shuffle [of "ready ctx b" n shuffle g, OF this gossip.hyps(2)] show ?case using gossip.IH by (simp add: ms_shuffle_def)
next
  case (enable b n)
  then show ?case using st_enable_ok by (auto simp: n_inv_def parts_ok_def matches_def st_enable_def)
next
  case (disable b n)
  then have st: "st_ok (x_whoami ctx) (n_transitions n)" by (simp add: n_inv_def parts_ok_def)
  then have "st_timers (st_disable (n_transitions n)) = []" using st_disable_ok(1,3) [OF st] by (simp add: st_ok_def)
  then show ?case using disable.IH st_disable_ok(1) [OF st] by (simp add: n_inv_def parts_ok_def matches_def)
next
  case (others b n ds d)
  then show ?case by (simp add: n_inv_def parts_ok_def)
qed

section \<open>A concrete node\<close>

abbreviation demo_start :: node where
  "demo_start \<equiv> new_node (new_gossip None 0) (Some 2) (None, None, None)"

text \<open>A ready node that hears of a suspect member.\<close>

lemma demo_node_exists:
  "\<exists>n. n_reachable demo_ctx True n \<and> (\<exists>l. ms_local (n_membership n) = Some l) \<and>
    view (n_membership n) ''b:1'' = Some (7, Suspect) \<and>
    (0, \<lparr>to_transition = SuspectToFaulty, to_address = ''b:1'', to_inc = 7, to_delay = 5000\<rparr>)
      \<in> set (st_pending (n_transitions n)) \<and> st_enabled (n_transitions n)"
proof -
  have r0: "n_reachable demo_ctx False demo_start" by (rule n_reachable.start)
  have inv0: "n_inv (ready demo_ctx False) demo_start" using n_reachable_inv [OF r0] by blast
  have q: "quiet demo_start = new_membership" by (simp add: quiet_def new_node_def new_membership_def)
  let ?ms = "setLocalStatus (ready demo_ctx False) demo_env Alive new_membership"
  have ok: "ms_ok (ready demo_ctx False) (quiet demo_start)" using inv0 by (simp add: n_inv_def)
  note facts = setLocalStatus_ok [OF ok, of demo_env Alive, unfolded q]
  obtain n1 where n1: "n_setLocalStatus (ready demo_ctx False) demo_env Alive demo_start = Inr n1"
    "n_membership n1 = ?ms\<lparr>ms_events := []\<rparr>" "st_nextId (n_transitions n1) = 0" "st_pending (n_transitions n1) = []"
    "st_enabled (n_transitions n1)" "st_timers (n_transitions n1) = []" "st_suspectTimeout (n_transitions n1) = 5000"
  proof -
    obtain u qs where u: "u_rank u = (e_now demo_env 1, Alive)" "list_all quiet_event qs"
      "ms_events ?ms = qs @ [MsUpdated [u]]" "u_address u = ''a:1''" "ms_stashed ?ms = Some []"
      using setLocalStatus_trace [OF ok quiet_simps(5), of demo_env Alive] unfolding q
      by (auto simp: new_membership_def)
    have v: "view ?ms = fold put_rank [u] (view (n_membership demo_start))"
      using facts u(1,4) by (simp add: put_rank_def new_node_def)
    have c: "consistent [u]" using u(1) by (simp add: consistent_def)
    have "list_ok (ready demo_ctx False) ?ms"
      using facts u(1,5) by (auto simp: list_ok_def stash_known_def all_known_def view_def known_def new_membership_def)
    from settle_updated [OF inv0 this u(3,2) v c] obtain n1 where
      "settle (ready demo_ctx False) ?ms demo_start = Inr n1" "n_membership n1 = ?ms\<lparr>ms_events := []\<rparr>"
      "n_transitions n1 = fold (handleUpdate ''a:1'') [u] (n_transitions demo_start)" by auto
    then show ?thesis
      using that u(1) q by (simp add: n_setLocalStatus_def new_node_def new_transitions_def st_cancel_def)
  qed
  have r1: "n_reachable demo_ctx False n1" by (rule n_reachable.local_status [OF r0 _ n1(1)]) simp
  have loc: "ms_local (n_membership n1) \<noteq> None" using facts n1(2) by simp
  have r2: "n_reachable demo_ctx True n1" using n_reachable.become_ready [OF r1 loc] .
  have inv: "n_inv demo_ctx n1" using n_reachable_inv [OF r2] by simp
  obtain l where l: "ms_local (n_membership n1) = Some l" using loc by blast
  let ?c = "demo_change ''b:1'' 7 Suspect"
  have none: "view (n_membership n1) ''b:1'' = None"
    using facts n1(2) by (simp add: view_def known_def new_membership_def)
  obtain n2 where n2: "n_update demo_ctx demo_env [?c] n1 = Inr n2" "ms_local (n_membership n2) = Some l"
    "view (n_membership n2) = put_rank ?c (view (n_membership n1))"
    "n_transitions n2 = handleUpdate ''a:1'' ?c (n_transitions n1)"
    using n_update_single [OF inv _ l, of ?c demo_env] none by (auto simp: processed_def)
  have "consistent [?c]" by (simp add: consistent_def)
  then have "n_reachable demo_ctx True n2" using n_reachable.update [OF r2, of "[?c]" demo_env n2] n2(1) by simp
  moreover have "(0, \<lparr>to_transition = SuspectToFaulty, to_address = ''b:1'', to_inc = 7, to_delay = 5000\<rparr>)
      \<in> set (st_pending (n_transitions n2))" "st_enabled (n_transitions n2)"
    unfolding n2(4) using n1(3-7) by (simp_all add: scheduleSuspectToFaulty_def st_schedule_def st_setTimeout_def)
  ultimately show ?thesis using n2(2,3) by (intro exI [of _ n2]) (simp add: put_rank_def)
qed

section \<open>Properties\<close>

text \<open>
  C37: In every reachable state of a node its ring consists of exactly the members it takes for alive or
  suspect, itself included; so a key is always routed to one of these.
\<close>

theorem ring_agrees_with_members:
  assumes "n_reachable ctx b n"
  shows "ring_servers (n_ring n) =
      {a. \<exists>inc s. view (n_membership n) a = Some (inc, s) \<and> (s = Alive \<or> s = Suspect)} \<and>
    (\<exists>res. ring_lookup (x_hashFunc ctx) key (n_ring n) = Some res \<and>
      (res = None \<or> (\<exists>a inc s. res = Some a \<and> view (n_membership n) a = Some (inc, s) \<and> (s = Alive \<or> s = Suspect))))"
proof -
  have inv: "n_inv (ready ctx b) n" using n_reachable_inv [OF assms] by blast
  have ping: "isStatusPingable s \<longleftrightarrow> s = Alive \<or> s = Suspect" for s by (cases s) auto
  have live: "live (view (n_membership n)) =
      {a. \<exists>inc s. view (n_membership n) a = Some (inc, s) \<and> (s = Alive \<or> s = Suspect)}"
    by (auto simp: live_def ping)
  have ring: "ring_ok (x_hashFunc ctx) (n_ring n)" "ring_servers (n_ring n) = live (view (n_membership n))"
    using inv by (simp_all add: n_inv_def parts_ok_def)
  let ?P = "ring_points (x_hashFunc ctx) (n_ring n)" and ?x = "x_hashFunc ctx key"
  have "a \<in> ring_servers (n_ring n)" if "owner ?P ?x = Some a" for a
    using owner_in [OF _ that] points_address by fastforce
  then have "owner ?P ?x = None \<or> (\<exists>a. owner ?P ?x = Some a \<and> a \<in> live (view (n_membership n)))"
    unfolding ring(2) by (cases "owner ?P ?x") auto
  then show ?thesis
    unfolding ring(2) live lookup_owner [OF ring(1)] by blast
qed

theorem ring_agrees_with_members_witness:
  "\<exists>n. n_reachable demo_ctx True n \<and> ''b:1'' \<in> ring_servers (n_ring n)"
proof -
  obtain n where n: "n_reachable demo_ctx True n" "view (n_membership n) ''b:1'' = Some (7, Suspect)"
    using demo_node_exists by blast
  then show ?thesis using ring_agrees_with_members [OF n(1)] by auto
qed

text \<open>
  In every reachable state the timeouts that wait to make a member faulty, a tombstone or to evict
  it are about another member that still has the status they start from, or is unknown by now; a
  member that is up is never evicted by one.
\<close>

theorem transitions_match_status:
  assumes "n_reachable ctx b n" and "(i, t) \<in> set (st_pending (n_transitions n))"
  shows "to_address t \<noteq> x_whoami ctx \<and>
    (view (n_membership n) (to_address t) = None \<or>
     (\<exists>inc. view (n_membership n) (to_address t) = Some (inc, from_state (to_transition t))))"
proof -
  have inv: "n_inv (ready ctx b) n" using n_reachable_inv [OF assms(1)] by blast
  then have st: "st_ok (x_whoami ctx) (n_transitions n)"
    and m: "matches (x_whoami ctx) (view (n_membership n)) (n_transitions n)"
    by (simp_all add: n_inv_def parts_ok_def)
  have "snd k = from_state (to_transition t)" if "view (n_membership n) (to_address t) = Some k" for k
    using m pending_timer [OF st assms(2)] that unfolding matches_def by (simp only: snd_conv fst_conv)
  then show ?thesis
    using pending_not_local [OF st assms(2)] by (cases "view (n_membership n) (to_address t)") auto
qed

theorem transitions_match_status_witness:
  "\<exists>n i t. n_reachable demo_ctx True n \<and> (i, t) \<in> set (st_pending (n_transitions n)) \<and>
    to_address t \<noteq> ''a:1'' \<and>
    (\<exists>inc. view (n_membership n) (to_address t) = Some (inc, from_state (to_transition t)))"
proof -
  let ?t = "\<lparr>to_transition = SuspectToFaulty, to_address = ''b:1'', to_inc = 7, to_delay = 5000\<rparr>"
  obtain n where n: "n_reachable demo_ctx True n" "view (n_membership n) ''b:1'' = Some (7, Suspect)"
    "(0, ?t) \<in> set (st_pending (n_transitions n))" using demo_node_exists by blast
  then show ?thesis
    using transitions_match_status [OF n(1,3)] by (intro exI [of _ n] exI [of _ "0 :: nat"] exI [of _ ?t]) simp
qed

text \<open>
  C38: Suspicion ends: when the suspicion timeout of a member fires that has not been heard of since,
  the member becomes faulty, leaves the ring, and its tombstone is scheduled. But a member suspected
  again under a newer incarnation number meanwhile stays suspect, with no timeout pending for it.
\<close>

theorem suspicion_timeout:
  assumes "n_reachable ctx True n" and "x_isReady ctx" and "(i, t) \<in> set (st_pending (n_transitions n))"
    and "to_transition t = SuspectToFaulty" and "view (n_membership n) (to_address t) = Some (inc, Suspect)"
    and "to_inc t \<le> inc"
  shows "\<exists>n'. onTransition ctx env i n = Inr n' \<and>
    (if inc = to_inc t
     then view (n_membership n') (to_address t) = Some (inc, Faulty) \<and> to_address t \<notin> ring_servers (n_ring n') \<and>
       (\<exists>j t'. (j, t') \<in> set (st_pending (n_transitions n')) \<and> to_address t' = to_address t \<and>
          to_transition t' = FaultyToTombstone)
     else view (n_membership n') = view (n_membership n) \<and>
       (\<forall>(j, t') \<in> set (st_pending (n_transitions n')). to_address t' \<noteq> to_address t))"
proof -
  have ctx: "ready ctx True = ctx" using assms(2) by simp
  have inv: "n_inv ctx n" and loc: "ms_local (n_membership n) \<noteq> None"
    using n_reachable_inv [OF assms(1)] ctx by auto
  then obtain l where l: "ms_local (n_membership n) = Some l" by blast
  have st: "st_ok (x_whoami ctx) (n_transitions n)" using inv by (simp add: n_inv_def parts_ok_def)
  let ?a = "to_address t" and ?st = "st_clearTimeout i (n_transitions n)"
  let ?n = "n\<lparr>n_transitions := ?st\<rparr>"
  have "distinct (map fst (st_pending (n_transitions n)))" using st by (simp add: st_ok_def)
  then have fire: "st_fire i (n_transitions n) = (Some t, ?st)"
    using assms(3) by (simp add: st_fire_def)
  have timer: "dget (st_timers (n_transitions n)) ?a = Some (i, Suspect)" "?a \<noteq> x_whoami ctx" "st_enabled (n_transitions n)"
    using pending_timer [OF st assms(3)] pending_not_local [OF st assms(3)] assms(4) by auto
  have st': "st_ok (x_whoami ctx) ?st" by (rule st_clear_ok [OF st])
  have inv': "n_inv ctx ?n"
    using inv st' fire_matches [of "x_whoami ctx" "view (n_membership n)" i "n_transitions n"] fire
    by (simp add: n_inv_def parts_ok_def)
  obtain n' c where n': "n_makeChange ctx env ?a (to_inc t) Faulty ?n = Inr n'" "n_inv ctx n'"
    "u_address c = ?a" "u_rank c = (to_inc t, Faulty)"
    "if processed (view (n_membership ?n) ?a) c
     then view (n_membership n') = (view (n_membership ?n))(?a \<mapsto> (to_inc t, Faulty)) \<and>
       n_transitions n' = handleUpdate (x_whoami ctx) c (n_transitions ?n)
     else view (n_membership n') = view (n_membership ?n) \<and> n_transitions n' = n_transitions ?n"
    using n_makeChange_single [OF inv' assms(2) _ timer(2), of l Faulty env "to_inc t"] l by auto
  have p: "processed (view (n_membership ?n) ?a) c \<longleftrightarrow> inc = to_inc t"
    using assms(5,6) n'(4) by (auto simp: processed_def rank_less_def)
  have step: "onTransition ctx env i n = Inr n'" using fire assms(4) n'(1) by (simp add: onTransition_def)
  have gone: "\<forall>(j, t') \<in> set (st_pending ?st). to_address t' \<noteq> ?a"
  proof (clarify)
    fix j t' assume x: "(j, t') \<in> set (st_pending ?st)" and a: "to_address t' = ?a"
    then have "(j, t') \<in> set (st_pending (n_transitions n))" "j \<noteq> i" by (auto simp: st_clearTimeout_def)
    then show False using pending_timer [OF st] timer(1) a by fastforce
  qed
  show ?thesis
  proof (cases "inc = to_inc t")
    case False
    then show ?thesis using step n'(5) p gone by (intro exI [of _ n']) simp
  next
    case True
    then have v: "view (n_membership n') = (view (n_membership n))(?a \<mapsto> (to_inc t, Faulty))"
      "n_transitions n' = handleUpdate (x_whoami ctx) c ?st" using n'(5) p by auto
    have "ring_servers (n_ring n') = live (view (n_membership n'))" using n'(2) by (simp add: n_inv_def)
    then have "?a \<notin> ring_servers (n_ring n')" using v(1) by (simp add: live_def)
    moreover have "st_enabled ?st" "u_address c \<noteq> x_whoami ctx" "dget (st_timers ?st) (u_address c) = Some (i, Suspect)"
      using timer n'(3) by (simp_all add: st_clearTimeout_def)
    note st_schedule_pending [OF st' this(1,2), of Faulty FaultyToTombstone "st_faultyTimeout ?st"] this(3)
    then have "\<exists>j t'. (j, t') \<in> set (st_pending (n_transitions n')) \<and> to_address t' = ?a \<and> to_transition t' = FaultyToTombstone"
      unfolding v(2) using n'(3,4)
      by (intro exI [of _ "st_nextId ?st"] exI [of _ "\<lparr>to_transition = FaultyToTombstone, to_address = ?a,
          to_inc = to_inc t, to_delay = st_faultyTimeout ?st\<rparr>"]) (simp add: scheduleFaultyToTombstone_def)
    ultimately show ?thesis using step v(1) True by (intro exI [of _ n']) simp
  qed
qed

theorem suspicion_timeout_witness:
  "\<exists>n n'. n_reachable demo_ctx True n \<and> onTransition demo_ctx demo_env 0 n = Inr n' \<and>
    view (n_membership n') ''b:1'' = Some (7, Faulty) \<and> ''b:1'' \<notin> ring_servers (n_ring n')"
proof -
  let ?t = "\<lparr>to_transition = SuspectToFaulty, to_address = ''b:1'', to_inc = 7, to_delay = 5000\<rparr>"
  obtain n where n: "n_reachable demo_ctx True n" "view (n_membership n) ''b:1'' = Some (7, Suspect)"
    "(0, ?t) \<in> set (st_pending (n_transitions n))" using demo_node_exists by blast
  then show ?thesis using suspicion_timeout [OF n(1) _ n(3), of 7 demo_env] by auto
qed

section \<open>The ping handler\<close>

text \<open>
  C39: A ping never makes a node throw, if its changes have known statuses and no two of them put one
  address both into the ring and out of it, as the changes that nodes send do: it answers with an error,
  leaves the node as it is and starts no full sync, or it applies the changes by the gossip rule, answers
  with changes of its own, and the ring still agrees with the members; before the node is ready it only
  answers that it is not. (Contradicting changes for one address leave a ring that does not agree:
  \<open>on_membership_event.js\<close> adds and removes in one go.)
\<close>

theorem ping_handler_correct:
  assumes "n_reachable ctx b n" and "\<And>x changes. body = Some x \<Longrightarrow> pi_changes x = Some changes \<Longrightarrow> consistent changes"
  shows "\<exists>answer started n'. handlePing (ready ctx b) env app requiresApp maxJobs body n = Inr (answer, started, n') \<and>
    (case answer of
       Inl e \<Rightarrow> n' = n \<and> \<not> started \<and> (\<not> b \<longrightarrow> e = RingpopIsNotReadyError)
     | Inr out \<Rightarrow> b \<and> (\<exists>x changes. body = Some x \<and> pi_changes x = Some changes \<and>
         view (n_membership n') = gossip_steps (x_whoami ctx) (e_now env) 0 changes (view (n_membership n))) \<and>
         ring_servers (n_ring n') = live (view (n_membership n')))"
proof -
  have inv: "n_inv (ready ctx b) n" and loc: "b \<longrightarrow> ms_local (n_membership n) \<noteq> None"
    using n_reachable_inv [OF assms(1)] by auto
  let ?r = "handlePing (ready ctx b) env app requiresApp maxJobs body n"
  show ?thesis
  proof (cases "\<exists>e. ?r = Inr (Inl e, False, n)")
    case True
    then obtain e where e: "?r = Inr (Inl e, False, n)" by blast
    then have "\<not> b \<longrightarrow> e = RingpopIsNotReadyError" by (auto simp: handlePing_def)
    then show ?thesis using e by auto
  next
    case False
    then obtain x changes where x: "b" "body = Some x" "pi_changes x = Some changes"
      by (cases b; cases body; cases "pi_changes (the body)") (auto simp: handlePing_def)
    have "x_isReady (ready ctx b) \<Longrightarrow> ms_local (n_membership n) \<noteq> None" using loc x(1) by simp
    from n_update_ok [OF inv this assms(2) [OF x(2,3)], of env] obtain n1 where
      n1: "n_update (ready ctx b) env changes n = Inr n1" "n_inv (ready ctx b) n1"
      "view (n_membership n1) = gossip_steps (x_whoami ctx) (e_now env) 0 changes (view (n_membership n))"
      using x(1) by auto
    obtain out full ds where a: "issueAsReceiver (x_whoami ctx) (n_membership n1) (pi_source x) (pi_sourceInc x)
        (pi_checksum x) (n_dissemination n1) = ((out, full), ds)" by (metis surj_pair)
    have "\<exists>started ds'. ?r = Inr (Inr out, started, n1\<lparr>n_dissemination := ds'\<rparr>)"
      using False x n1(1) a by (auto simp: handlePing_def split: if_splits prod.splits option.splits)
    then show ?thesis using n1(2,3) x by (auto simp: n_inv_def)
  qed
qed

definition demo_ping :: ping_in where
  "demo_ping = \<lparr>pi_source = Some ''b:1'', pi_sourceInc = Some 8, pi_changes = Some [demo_change ''b:1'' 8 Alive],
     pi_checksum = Some 5, pi_app = Some ''app'', pi_target = None\<rparr>"

theorem ping_handler_correct_witness:
  "\<exists>n out started n'. n_reachable demo_ctx True n \<and> view (n_membership n) ''b:1'' = Some (7, Suspect) \<and>
    handlePing (ready demo_ctx True) demo_env ''app'' False 5 (Some demo_ping) n = Inr (Inr out, started, n') \<and>
    view (n_membership n') ''b:1'' = Some (8, Alive) \<and> ''b:1'' \<in> ring_servers (n_ring n')"
proof -
  obtain n where n: "n_reachable demo_ctx True n" "view (n_membership n) ''b:1'' = Some (7, Suspect)"
    using demo_node_exists by blast
  have "consistent changes" if "Some demo_ping = Some x" "pi_changes x = Some changes" for x changes
    using that by (auto simp: demo_ping_def consistent_def)
  with ping_handler_correct [OF n(1), where body = "Some demo_ping" and env = demo_env and app = "''app''"
      and requiresApp = False and maxJobs = 5] obtain answer started n' where
    a: "handlePing (ready demo_ctx True) demo_env ''app'' False 5 (Some demo_ping) n = Inr (answer, started, n')"
    "case answer of Inl e \<Rightarrow> n' = n \<and> \<not> started \<and> (\<not> True \<longrightarrow> e = RingpopIsNotReadyError)
     | Inr out \<Rightarrow> True \<and> (\<exists>x changes. Some demo_ping = Some x \<and> pi_changes x = Some changes \<and>
         view (n_membership n') = gossip_steps (x_whoami demo_ctx) (e_now demo_env) 0 changes (view (n_membership n))) \<and>
         ring_servers (n_ring n') = live (view (n_membership n'))" by auto
  obtain out where out: "answer = Inr out"
    using a(1) by (auto simp: handlePing_def demo_ping_def truthy_str_def truthy_num_def Let_def split: sum.splits prod.splits if_splits)
  have "view (n_membership n') ''b:1'' = Some (8, Alive)" "ring_servers (n_ring n') = live (view (n_membership n'))"
    using a(2) n(2) unfolding out by (auto simp: demo_ping_def gossip_step_def processed_def rank_less_def)
  then show ?thesis using n a(1) unfolding out by (auto simp: live_def)
qed

end
