(* ===== verification/Json.thy ===== *)
theory Json
  imports Prelude
begin

text \<open>
  JavaScript values that came out of \<open>JSON.parse\<close>, and the parts of the language the API's
  validator applies to them: property access, \<open>Object.prototype.toString\<close> and the coercion to
  a number behind \<open>isNaN\<close> and \<open><\<close>. Numbers are taken to be integers. What a string or an array
  coerces to is an argument, \<^theory_text>\<open>num\<close> (\<open>None\<close> stands for NaN).
\<close>

datatype json =
    JUndefined
  | JNull
  | JBool bool
  | JNum int
  | JStr string
  | JArr "json list"
  | JObj "(string \<times> json) list"

text \<open>\<open>v.k\<close>: throws on null and undefined; a property that is not there is undefined.\<close>

fun getProp :: "json \<Rightarrow> string \<Rightarrow> js_error + json" where
  "getProp JUndefined k = Inl TypeError"
| "getProp JNull k = Inl TypeError"
| "getProp (JObj fs) k = Inr (case map_of fs k of None \<Rightarrow> JUndefined | Some v \<Rightarrow> v)"
| "getProp v k = Inr JUndefined"

text \<open>\<open>typeOf\<close> of the validator.\<close>

fun typeOf :: "json \<Rightarrow> string" where
  "typeOf JUndefined = ''Undefined''"
| "typeOf JNull = ''Null''"
| "typeOf (JBool b) = ''Boolean''"
| "typeOf (JNum n) = ''Number''"
| "typeOf (JStr s) = ''String''"
| "typeOf (JArr vs) = ''Array''"
| "typeOf (JObj fs) = ''Object''"

fun toNumber :: "(json \<Rightarrow> int option) \<Rightarrow> json \<Rightarrow> int option" where
  "toNumber num JUndefined = None"
| "toNumber num JNull = Some 0"
| "toNumber num (JBool b) = Some (if b then 1 else 0)"
| "toNumber num (JNum n) = Some n"
| "toNumber num (JStr s) = num (JStr s)"
| "toNumber num (JArr vs) = num (JArr vs)"
| "toNumber num (JObj fs) = None"

text \<open>
  \<open>json.parse\<close>: an empty text is an empty object; \<^theory_text>\<open>parse\<close> stands for \<open>JSON.parse\<close>, which
  returns a value or throws an error with a message.
\<close>

definition json_parse :: "(string \<Rightarrow> string + json) \<Rightarrow> string \<Rightarrow> string + json" where
  "json_parse parse text = (if text = [] then Inr (JObj []) else parse text)"

end
