(* ===== verification/Timer.thy ===== *)
theory Timer
  imports Json
begin

text \<open>
  The timers of a skyring node (\<open>packages/skyring/lib/timer.js\<close>): a map of records, the store
  behind it, the timeouts armed on the event loop, and what the node has published.

  The store (levelup), NATS and the transports are not part of the repository. A call to the
  store leaves a piece of work in \<^theory_text>\<open>io\<close>, which ends later, with an error or without; what
  \<open>setImmediate\<close> queues is in \<^theory_text>\<open>immediate\<close> and runs in order. Callbacks of requests are
  numbered; \<^theory_text>\<open>answered\<close> lists the ones that were called, with what they were given. A
  callback handed to \<open>nats.publish\<close> or \<open>nats.quit\<close> counts as called at that point. The clock
  is an argument: it is read once per turn of the event loop.
\<close>

section \<open>Data\<close>

record callback =
  cb_transport :: string
  cb_method :: string
  cb_uri :: string

text \<open>The body of a request; \<open>id\<close>, \<open>created\<close> and \<open>count\<close> are there when a node hands it over.\<close>

record body =
  b_timeout :: int
  b_data :: json
  b_callback :: callback
  b_created :: "int option"
  b_id :: "string option"
  b_count :: "nat option"

record timer_rec =
  r_created :: int
  r_id :: string
  r_payload :: body
  r_timer :: "nat option"

text \<open>The arguments of \<open>transport.exec\<close>, and a timeout of the event loop.\<close>

record exec_call =
  x_transport :: string
  x_method :: string
  x_uri :: string
  x_data :: json
  x_id :: string

record armed_timeout =
  a_handle :: nat
  a_due :: int
  a_call :: exec_call

datatype code = ENOTRANSPORT | EKEYEXISTS | ENOENT | ENOSTORAGE | ESTORAGE | ENATS

text \<open>What a request's callback is given: \<open>cb(null, id)\<close>, \<open>cb()\<close> or \<open>cb(err)\<close>.\<close>

datatype answer = Created string | Done | Failed code

datatype node_status = READY | RECOVERY | REBALANCE | PURGE | SHUTDOWN

datatype msg =
    Ev_created string int body
  | Ev_exec string int body int
  | Ev_success string
  | Ev_fail string string
  | Ev_cancelled string
  | Ev_evict string
  | Ev_node node_status
  | Ev_reply string string

text \<open>What runs when a removal has ended: the callbacks of success, failure, cancel, update.\<close>

datatype after = A_success | A_failure string | A_cancel | A_update body

datatype work =
    Put timer_rec int "nat option"
  | Del string after "nat option"
  | Batch "string list" "nat option option"
  | Closing "nat option"

datatype immediate =
    Exec exec_call
  | Answer "nat option" answer
  | Removed string after "nat option" "code option"

text \<open>A shutdown under way: acknowledgements, their number to reach, the batch, the callback.\<close>

record leaving =
  l_acks :: nat
  l_size :: nat
  l_batch :: "string list"
  l_cb :: "nat option"

record timers =
  nodeid :: string
  transports :: "string list"
  recs :: "timer_rec dict"
  stored :: "timer_rec dict"
  armed :: "armed_timeout list"
  next_handle :: nat
  started :: "(int \<times> exec_call) list"
  published :: "msg list"
  requested :: "body list"
  answered :: "(nat \<times> answer) list"
  io :: "work list"
  immediate :: "immediate list"
  leaving_runs :: "leaving list"
  sid :: "nat option"
  storage_closed :: bool

definition new_timers :: "string \<Rightarrow> string list \<Rightarrow> timer_rec dict \<Rightarrow> timers" where
  "new_timers nid ts st = \<lparr> nodeid = nid, transports = ts, recs = [], stored = st, armed = [],
     next_handle = 0, started = [], published = [], requested = [], answered = [], io = [],
     immediate = [], leaving_runs = [], sid = None, storage_closed = False \<rparr>"

text \<open>The path of the store; the fallback is made from a random id under the temporary directory.\<close>

definition storage_path :: "string \<Rightarrow> string option \<Rightarrow> string \<Rightarrow> code + string" where
  "storage_path backend path fallback =
    (case path of
       Some p \<Rightarrow> if p = [] then (if backend = ''memdown'' then Inr fallback else Inl ENOSTORAGE) else Inr p
     | None \<Rightarrow> if backend = ''memdown'' then Inr fallback else Inl ENOSTORAGE)"

section \<open>Effects\<close>

definition publish :: "msg \<Rightarrow> timers \<Rightarrow> timers" where
  "publish m t = t\<lparr>published := published t @ [m]\<rparr>"

definition setImmediate :: "immediate \<Rightarrow> timers \<Rightarrow> timers" where
  "setImmediate i t = t\<lparr>immediate := immediate t @ [i]\<rparr>"

text \<open>A callback that was left out is \<open>noop\<close>.\<close>

definition nodeback :: "nat option \<Rightarrow> answer \<Rightarrow> timers \<Rightarrow> timers" where
  "nodeback cb a t = (case cb of None \<Rightarrow> t | Some n \<Rightarrow> t\<lparr>answered := answered t @ [(n, a)]\<rparr>)"

definition startIO :: "work \<Rightarrow> timers \<Rightarrow> timers" where
  "startIO w t = t\<lparr>io := io t @ [w]\<rparr>"

text \<open>Node's \<open>setTimeout\<close>: a delay outside 1 to \<open>2\<^sup>3\<^sup>1 - 1\<close> is taken for 1.\<close>

definition timeout_max :: int where
  "timeout_max = 2147483647"

definition node_delay :: "int \<Rightarrow> int" where
  "node_delay d = (if 1 \<le> d \<and> d \<le> timeout_max then d else 1)"

definition armTimeout :: "int \<Rightarrow> int \<Rightarrow> exec_call \<Rightarrow> timers \<Rightarrow> timers" where
  "armTimeout now delay c t = t\<lparr>
     armed := armed t @ [\<lparr>a_handle = next_handle t, a_due = now + node_delay delay, a_call = c\<rparr>],
     next_handle := Suc (next_handle t)\<rparr>"

text \<open>\<open>clearTimeout\<close> of a handle that is not armed, or of null, does nothing.\<close>

definition clearTimeout :: "nat option \<Rightarrow> timers \<Rightarrow> timers" where
  "clearTimeout h t = t\<lparr>armed := [a \<leftarrow> armed t. Some (a_handle a) \<noteq> h]\<rparr>"

section \<open>Operations\<close>

definition call_of :: "string \<Rightarrow> body \<Rightarrow> exec_call" where
  "call_of tid payload = \<lparr>x_transport = cb_transport (b_callback payload),
     x_method = cb_method (b_callback payload), x_uri = cb_uri (b_callback payload),
     x_data = b_data payload, x_id = tid\<rparr>"

text \<open>\<open>payload.created || now\<close>.\<close>

definition created_of :: "body \<Rightarrow> int \<Rightarrow> int" where
  "created_of payload now =
     (case b_created payload of None \<Rightarrow> now | Some c \<Rightarrow> if c = 0 then now else c)"

definition create :: "int \<Rightarrow> string \<Rightarrow> body \<Rightarrow> nat option \<Rightarrow> timers \<Rightarrow> timers" where
  "create now tid payload cb t =
    (if cb_transport (b_callback payload) \<notin> set (transports t)
     then setImmediate (Answer cb (Failed ENOTRANSPORT)) t
     else if dget (recs t) tid \<noteq> None
     then setImmediate (Answer cb (Failed EKEYEXISTS)) t
     else
       let created = created_of payload now;
           elapsed = now - created
       in if created + b_timeout payload < now
          then nodeback cb (Created tid)
                 (publish (Ev_exec tid created payload now)
                   (setImmediate (Exec (call_of tid payload)) t))
          else startIO (Put \<lparr>r_created = created, r_id = tid, r_payload = payload, r_timer = None\<rparr>
                         elapsed cb) t)"

text \<open>The callback of \<open>storage.put\<close>; the store has taken the record when there is no error.\<close>

definition put_done ::
  "int \<Rightarrow> bool \<Rightarrow> timer_rec \<Rightarrow> int \<Rightarrow> nat option \<Rightarrow> timers \<Rightarrow> timers" where
  "put_done now err data elapsed cb t =
    (if err then nodeback cb (Failed ESTORAGE) t
     else
       let tid = r_id data; payload = r_payload data;
           t1 = publish (Ev_created tid (r_created data) payload)
                  (t\<lparr>stored := dset tid data (stored t)\<rparr>);
           t2 = armTimeout now (b_timeout payload - elapsed) (call_of tid payload) t1;
           t3 = t2\<lparr>recs := dset tid (data\<lparr>r_timer := Some (next_handle t1)\<rparr>) (recs t2)\<rparr>
       in nodeback cb (Created tid) t3)"

definition kRemove :: "string \<Rightarrow> after \<Rightarrow> nat option \<Rightarrow> timers \<Rightarrow> timers" where
  "kRemove tid k cb t = startIO (Del tid k cb) t"

text \<open>The callbacks \<open>success\<close>, \<open>failure\<close>, \<open>cancel\<close> and \<open>update\<close> pass to \<open>kRemove\<close>.\<close>

definition after_remove ::
  "int \<Rightarrow> string \<Rightarrow> after \<Rightarrow> nat option \<Rightarrow> code option \<Rightarrow> timers \<Rightarrow> timers" where
  "after_remove now tid k cb err t =
    (case err of
       Some e \<Rightarrow> nodeback cb (Failed e) t
     | None \<Rightarrow> (case k of
          A_success \<Rightarrow> nodeback cb Done (publish (Ev_success tid) t)
        | A_failure e \<Rightarrow> nodeback cb Done (publish (Ev_fail tid e) t)
        | A_cancel \<Rightarrow> nodeback cb Done (publish (Ev_cancelled tid) t)
        | A_update body \<Rightarrow> create now tid body cb t))"

text \<open>The callback of \<open>storage.del\<close>.\<close>

definition del_done ::
  "int \<Rightarrow> bool \<Rightarrow> string \<Rightarrow> after \<Rightarrow> nat option \<Rightarrow> timers \<Rightarrow> timers" where
  "del_done now err tid k cb t =
    (if err then after_remove now tid k cb (Some ESTORAGE) t
     else
       let t1 = t\<lparr>stored := ddel tid (stored t)\<rparr>
       in case dget (recs t1) tid of
            None \<Rightarrow> setImmediate (Removed tid k cb (Some ENOENT)) t1
          | Some r \<Rightarrow>
              let t2 = clearTimeout (r_timer r) t1;
                  t3 = t2\<lparr>recs := ddel tid (recs t2)\<rparr>
              in setImmediate (Removed tid k cb None) t3)"

definition success :: "string \<Rightarrow> nat option \<Rightarrow> timers \<Rightarrow> timers" where
  "success tid cb t = kRemove tid A_success cb t"

definition failure :: "string \<Rightarrow> string \<Rightarrow> nat option \<Rightarrow> timers \<Rightarrow> timers" where
  "failure tid error cb t = kRemove tid (A_failure error) cb t"

definition cancel :: "string \<Rightarrow> nat option \<Rightarrow> timers \<Rightarrow> timers" where
  "cancel tid cb t = kRemove tid A_cancel cb t"

definition timer_update :: "string \<Rightarrow> body \<Rightarrow> nat option \<Rightarrow> timers \<Rightarrow> timers" where
  "timer_update tid body cb t = kRemove tid (A_update body) cb t"

section \<open>Handing over\<close>

text \<open>\<open>{...payload, id, created}\<close>.\<close>

definition handed :: "timer_rec \<Rightarrow> body" where
  "handed obj = (r_payload obj)\<lparr>b_created := Some (r_created obj), b_id := Some (r_id obj)\<rparr>"

text \<open>
  \<open>rebalance\<close> passes over the values that are there when it starts (it only deletes the entry
  it is at), and calls its callback with each record it gives up; the calls are the second
  component.
\<close>

fun rebalance_run ::
  "(string \<Rightarrow> bool) \<Rightarrow> timer_rec list \<Rightarrow> string list \<Rightarrow> timers \<Rightarrow> timers \<times> string list \<times> body list"
where
  "rebalance_run owns [] batch t = (t, batch, [])"
| "rebalance_run owns (obj # objs) batch t =
    (if owns (r_id obj) then rebalance_run owns objs batch t
     else
       let t1 = clearTimeout (r_timer obj) t;
           t2 = t1\<lparr>recs := ddel (r_id obj) (recs t1)\<rparr>;
           t3 = publish (Ev_evict (r_id obj)) t2;
           (t4, batch', out) = rebalance_run owns objs (batch @ [r_id obj]) t3
       in (t4, batch', handed obj # out))"

definition rebalance :: "(string \<Rightarrow> bool) \<Rightarrow> timers \<Rightarrow> timers \<times> body list" where
  "rebalance owns t =
    (if recs t = [] then (t, [])
     else
       let (t1, batch, out) =
             rebalance_run owns (map snd (recs t)) [] (publish (Ev_node REBALANCE) t)
       in (startIO (Batch batch None) t1, out))"

text \<open>\<open>recover\<close>; the list is what the read stream of the store emits.\<close>

fun recover_run :: "int \<Rightarrow> (string \<times> timer_rec) list \<Rightarrow> timers \<Rightarrow> timers" where
  "recover_run now [] t = t"
| "recover_run now ((key, val) # es) t = recover_run now es (create now key (handed val) None t)"

definition recover :: "int \<Rightarrow> (string \<times> timer_rec) list \<Rightarrow> timers \<Rightarrow> timers" where
  "recover now es t = recover_run now es (publish (Ev_node RECOVERY) t)"

text \<open>The callback the constructor gives to \<open>recover\<close>.\<close>

definition recovered :: "timers \<Rightarrow> timers" where
  "recovered t = publish (Ev_node READY) t"

definition disconnect :: "nat option \<Rightarrow> timers \<Rightarrow> timers" where
  "disconnect cb t = startIO (Closing cb) (t\<lparr>storage_closed := True\<rparr>)"

text \<open>The transports have shut down and the subscription is drained, or failed to.\<close>

definition closing_done :: "bool \<Rightarrow> nat option \<Rightarrow> timers \<Rightarrow> timers" where
  "closing_done err cb t =
     nodeback cb (if err then Failed ENATS else Done) (publish (Ev_node SHUTDOWN) t)"

text \<open>The batch was written, or was not: neither caller looks at the error.\<close>

definition batch_done :: "bool \<Rightarrow> string list \<Rightarrow> nat option option \<Rightarrow> timers \<Rightarrow> timers" where
  "batch_done err ids next t =
    (let t1 = (if err then t else t\<lparr>stored := fold ddel ids (stored t)\<rparr>)
     in case next of None \<Rightarrow> t1 | Some cb \<Rightarrow> disconnect cb t1)"

fun shutdown_run :: "timer_rec list \<Rightarrow> nat \<Rightarrow> timers \<Rightarrow> timers" where
  "shutdown_run [] sent t = t"
| "shutdown_run (obj # objs) sent t =
    (let t1 = clearTimeout (r_timer obj) t;
         data = (handed obj)\<lparr>b_count := Some (Suc sent)\<rparr>
     in shutdown_run objs (Suc sent) (t1\<lparr>requested := requested t1 @ [data]\<rparr>))"

definition shutdown :: "nat option \<Rightarrow> timers \<Rightarrow> timers" where
  "shutdown cb t =
    (if recs t = [] then disconnect cb t
     else
       let t1 = publish (Ev_node PURGE) (t\<lparr>sid := None\<rparr>);
           t2 = shutdown_run (map snd (recs t)) 0 t1
       in t2\<lparr>recs := [],
             leaving_runs := leaving_runs t2 @
               [\<lparr>l_acks = 0, l_size = length (recs t),
                 l_batch = map (r_id \<circ> snd) (recs t), l_cb = cb\<rparr>]\<rparr>)"

text \<open>A reply to one of the requests of the \<open>i\<close>-th shutdown under way.\<close>

definition ack :: "nat \<Rightarrow> timers \<Rightarrow> timers" where
  "ack i t =
    (let l = leaving_runs t ! i; n = Suc (l_acks l)
     in if n = l_size l
        then startIO (Batch (l_batch l) (Some (l_cb l)))
               (t\<lparr>leaving_runs := take i (leaving_runs t) @ drop (Suc i) (leaving_runs t)\<rparr>)
        else t\<lparr>leaving_runs := (leaving_runs t)[i := l\<lparr>l_acks := n\<rparr>]\<rparr>)"

text \<open>\<open>watch\<close>: subscribes; a message is replied to when it asks for it, and given on.\<close>

definition watch :: "nat \<Rightarrow> timers \<Rightarrow> timers" where
  "watch s t = t\<lparr>sid := Some s\<rparr>"

definition watched :: "body \<Rightarrow> string option \<Rightarrow> timers \<Rightarrow> timers \<times> body" where
  "watched data reply t =
    ((case reply of None \<Rightarrow> t
      | Some r \<Rightarrow> publish (Ev_reply r (case b_id data of None \<Rightarrow> [] | Some i \<Rightarrow> i)) t), data)"

section \<open>The event loop\<close>

text \<open>A piece of storage work ends.\<close>

fun finish :: "int \<Rightarrow> bool \<Rightarrow> work \<Rightarrow> timers \<Rightarrow> timers" where
  "finish now err (Put d e cb) t = put_done now err d e cb t"
| "finish now err (Del tid k cb) t = del_done now err tid k cb t"
| "finish now err (Batch ids next) t = batch_done err ids next t"
| "finish now err (Closing cb) t = closing_done err cb t"

definition io_turn :: "int \<Rightarrow> bool \<Rightarrow> nat \<Rightarrow> timers \<Rightarrow> timers" where
  "io_turn now err i t =
     finish now err (io t ! i) (t\<lparr>io := take i (io t) @ drop (Suc i) (io t)\<rparr>)"

fun immediate_run :: "int \<Rightarrow> immediate \<Rightarrow> timers \<Rightarrow> timers" where
  "immediate_run now (Exec c) t = t\<lparr>started := started t @ [(now, c)]\<rparr>"
| "immediate_run now (Answer cb a) t = nodeback cb a t"
| "immediate_run now (Removed tid k cb err) t = after_remove now tid k cb err t"

definition immediate_turn :: "int \<Rightarrow> timers \<Rightarrow> timers" where
  "immediate_turn now t =
    (case immediate t of [] \<Rightarrow> t | i # rest \<Rightarrow> immediate_run now i (t\<lparr>immediate := rest\<rparr>))"

text \<open>A timeout that is due fires.\<close>

definition fire :: "int \<Rightarrow> armed_timeout \<Rightarrow> timers \<Rightarrow> timers" where
  "fire now a t = t\<lparr>armed := [b \<leftarrow> armed t. a_handle b \<noteq> a_handle a],
                    started := started t @ [(now, a_call a)]\<rparr>"

end
