(* ===== verification/Timer_Runs.thy ===== *)
theory Timer_Runs
  imports Timer
begin

text \<open>
  Runs of a node's timers: the steps a client, the event loop, the store and the ring take, in
  any order. Every callback a request brings is called exactly once
  (\<^theory_text>\<open>tokens\<close> counts the ones called and the ones under way), and the work under way ends
  (\<^theory_text>\<open>load\<close> goes down with every turn).
\<close>

section \<open>Steps\<close>

definition put_ids :: "work list \<Rightarrow> string list" where
  "put_ids ws = concat (map (\<lambda>w. case w of Put d e cb \<Rightarrow> [r_id d] | _ \<Rightarrow> []) ws)"

text \<open>No creation of the id is under way, and the node is not handing its timers over.\<close>

definition idle_id :: "timers \<Rightarrow> string \<Rightarrow> bool" where
  "idle_id t tid \<longleftrightarrow> tid \<notin> set (put_ids (io t)) \<and> leaving_runs t = []"

text \<open>What the validator lets through, with a time of creation that is not in the future.\<close>

definition valid_body :: "int \<Rightarrow> body \<Rightarrow> bool" where
  "valid_body now b \<longleftrightarrow> b_timeout b \<le> timeout_max \<and>
     (case b_created b of None \<Rightarrow> True | Some c \<Rightarrow> c \<le> now)"

definition valid_after :: "int \<Rightarrow> after \<Rightarrow> bool" where
  "valid_after now k = (case k of A_update b \<Rightarrow> valid_body now b | _ \<Rightarrow> True)"

definition valid_stream :: "int \<Rightarrow> (string \<times> timer_rec) list \<Rightarrow> bool" where
  "valid_stream now es \<longleftrightarrow> distinct (map fst es) \<and> (\<forall>e \<in> set es. valid_body now (handed (snd e)))"

text \<open>
  The arguments: whether the run is orderly, the callbacks brought by the requests so far, the
  time, the state. In an orderly run the store ends its work in the order it was given, an id
  is not created while an earlier creation of it is under way, and bodies are valid.
\<close>

inductive run :: "bool \<Rightarrow> nat option list \<Rightarrow> int \<Rightarrow> timers \<Rightarrow> bool" for orderly :: bool where
  boot: "0 < now \<Longrightarrow> (orderly \<Longrightarrow> valid_stream now es) \<Longrightarrow>
    run orderly [] now (recover now es (new_timers nid ts st))"
| tick: "run orderly cbs now t \<Longrightarrow> now \<le> now' \<Longrightarrow> run orderly cbs now' t"
| create: "run orderly cbs now t \<Longrightarrow>
    (orderly \<Longrightarrow> idle_id t tid \<and> valid_body now b) \<Longrightarrow>
    run orderly (cb # cbs) now (create now tid b cb t)"
| remove: "run orderly cbs now t \<Longrightarrow> (orderly \<Longrightarrow> valid_after now k) \<Longrightarrow>
    run orderly (cb # cbs) now (kRemove tid k cb t)"
| io_turn: "run orderly cbs now t \<Longrightarrow> i < length (io t) \<Longrightarrow> (orderly \<Longrightarrow> i = 0) \<Longrightarrow>
    run orderly cbs now (io_turn now err i t)"
| immediate_turn: "run orderly cbs now t \<Longrightarrow>
    (orderly \<Longrightarrow> \<forall>tid b cb rest. immediate t = Removed tid (A_update b) cb None # rest \<longrightarrow>
        idle_id t tid) \<Longrightarrow>
    run orderly cbs now (immediate_turn now t)"
| fire: "run orderly cbs now t \<Longrightarrow> a \<in> set (armed t) \<Longrightarrow> a_due a \<le> now \<Longrightarrow>
    run orderly cbs now (fire now a t)"
| rebalance: "run orderly cbs now t \<Longrightarrow> run orderly cbs now (fst (rebalance owns t))"
| shutdown: "run orderly cbs now t \<Longrightarrow> run orderly (cb # cbs) now (shutdown cb t)"
| ack: "run orderly cbs now t \<Longrightarrow> i < length (leaving_runs t) \<Longrightarrow> run orderly cbs now (ack i t)"
| recovered: "run orderly cbs now t \<Longrightarrow> run orderly cbs now (recovered t)"
| watch: "run orderly cbs now t \<Longrightarrow> run orderly cbs now (watch s t)"
| watched: "run orderly cbs now t \<Longrightarrow> run orderly cbs now (fst (watched b reply t))"

section \<open>Callbacks\<close>

definition opt_mset :: "nat option \<Rightarrow> nat multiset" where
  "opt_mset cb = (case cb of None \<Rightarrow> {#} | Some n \<Rightarrow> {#n#})"

fun work_cb :: "work \<Rightarrow> nat multiset" where
  "work_cb (Put d e cb) = opt_mset cb"
| "work_cb (Del tid k cb) = opt_mset cb"
| "work_cb (Batch ids next) = (case next of None \<Rightarrow> {#} | Some cb \<Rightarrow> opt_mset cb)"
| "work_cb (Closing cb) = opt_mset cb"

fun immediate_cb :: "immediate \<Rightarrow> nat multiset" where
  "immediate_cb (Exec c) = {#}"
| "immediate_cb (Answer cb a) = opt_mset cb"
| "immediate_cb (Removed tid k cb err) = opt_mset cb"

definition waiting :: "timers \<Rightarrow> nat multiset" where
  "waiting t = sum_list (map work_cb (io t)) + sum_list (map immediate_cb (immediate t)) +
     sum_list (map (opt_mset \<circ> l_cb) (leaving_runs t))"

definition tokens :: "timers \<Rightarrow> nat multiset" where
  "tokens t = mset (map fst (answered t)) + waiting t"

lemma opt_mset_simps [simp]: "opt_mset None = {#}" "opt_mset (Some n) = {#n#}"
  by (simp_all add: opt_mset_def)

lemmas effect_defs = publish_def setImmediate_def nodeback_def startIO_def armTimeout_def
  clearTimeout_def

lemmas token_defs = tokens_def waiting_def effect_defs

lemma tokens_publish [simp]: "tokens (publish m t) = tokens t"
  by (simp add: token_defs)

lemma tokens_setImmediate [simp]: "tokens (setImmediate i t) = tokens t + immediate_cb i"
  by (simp add: token_defs)

lemma tokens_callback [simp]: "tokens (nodeback cb a t) = tokens t + opt_mset cb"
  by (simp add: token_defs split: option.split)

lemma tokens_startIO [simp]: "tokens (startIO w t) = tokens t + work_cb w"
  by (simp add: token_defs)

lemma tokens_armTimeout [simp]: "tokens (armTimeout now d c t) = tokens t"
  by (simp add: token_defs)

lemma tokens_clearTimeout [simp]: "tokens (clearTimeout h t) = tokens t"
  by (simp add: token_defs)

lemma tokens_fields [simp]:
  "tokens (t\<lparr>recs := r\<rparr>) = tokens t" "tokens (t\<lparr>stored := st\<rparr>) = tokens t"
  "tokens (t\<lparr>started := xs\<rparr>) = tokens t" "tokens (t\<lparr>requested := rs\<rparr>) = tokens t"
  "tokens (t\<lparr>sid := s\<rparr>) = tokens t" "tokens (t\<lparr>storage_closed := c\<rparr>) = tokens t"
  "tokens (t\<lparr>armed := a\<rparr>) = tokens t"
  by (simp_all add: token_defs)

lemma tokens_create [simp]: "tokens (create now tid b cb t) = tokens t + opt_mset cb"
  by (simp add: create_def Let_def)

lemma tokens_put_done [simp]: "tokens (put_done now err d e cb t) = tokens t + opt_mset cb"
  by (simp add: put_done_def Let_def)

lemma tokens_after_remove [simp]:
  "tokens (after_remove now tid k cb err t) = tokens t + opt_mset cb"
  by (simp add: after_remove_def split: option.split after.split)

lemma tokens_del_done [simp]: "tokens (del_done now err tid k cb t) = tokens t + opt_mset cb"
  by (simp add: del_done_def Let_def split: option.split)

lemma tokens_disconnect [simp]: "tokens (disconnect cb t) = tokens t + opt_mset cb"
  by (simp add: disconnect_def)

lemma tokens_batch_done [simp]:
  "tokens (batch_done err ids next t) = tokens t + work_cb (Batch ids next)"
  by (simp add: batch_done_def Let_def split: option.split)

lemma tokens_finish [simp]: "tokens (finish now err w t) = tokens t + work_cb w"
  by (cases w) (simp_all add: closing_done_def)

lemma sum_list_remove:
  fixes f :: "'a \<Rightarrow> nat multiset"
  assumes "i < length xs"
  shows "sum_list (map f (take i xs @ drop (Suc i) xs)) + f (xs ! i) = sum_list (map f xs)"
proof -
  have "sum_list (map f xs) = sum_list (map f (take i xs @ xs ! i # drop (Suc i) xs))"
    using id_take_nth_drop [OF assms] by simp
  then show ?thesis by simp
qed

lemma tokens_io_turn:
  assumes "i < length (io t)"
  shows "tokens (io_turn now err i t) = tokens t"
proof -
  have "tokens (t\<lparr>io := take i (io t) @ drop (Suc i) (io t)\<rparr>) + work_cb (io t ! i) = tokens t"
    using sum_list_remove [OF assms, of work_cb]
    by (simp add: tokens_def waiting_def ac_simps)
  then show ?thesis by (simp add: io_turn_def)
qed

lemma tokens_immediate_run [simp]:
  "tokens (immediate_run now i t) = tokens t + immediate_cb i"
  by (cases i) simp_all

lemma tokens_immediate_turn: "tokens (immediate_turn now t) = tokens t"
  by (cases "immediate t")
    (simp_all add: immediate_turn_def, simp add: tokens_def waiting_def ac_simps)

lemma tokens_rebalance_run:
  "tokens (fst (rebalance_run owns objs batch t)) = tokens t"
  by (induction owns objs batch t rule: rebalance_run.induct)
    (simp_all add: Let_def split_beta)

lemma tokens_rebalance [simp]: "tokens (fst (rebalance owns t)) = tokens t"
  by (simp add: rebalance_def Let_def split_beta tokens_rebalance_run)

lemma tokens_recover_run [simp]: "tokens (recover_run now es t) = tokens t"
  by (induction now es t rule: recover_run.induct) simp_all

lemma tokens_shutdown_run [simp]: "tokens (shutdown_run objs n t) = tokens t"
  by (induction objs n t rule: shutdown_run.induct) (simp_all add: Let_def)

lemma tokens_shutdown [simp]: "tokens (shutdown cb t) = tokens t + opt_mset cb"
proof -
  have leave: "tokens (t\<lparr>recs := [], leaving_runs := leaving_runs t @ [l]\<rparr>) =
      tokens t + opt_mset (l_cb l)" for t :: timers and l
    by (simp add: tokens_def waiting_def)
  show ?thesis by (simp add: shutdown_def Let_def leave)
qed

lemma tokens_ack [simp]:
  assumes "i < length (leaving_runs t)"
  shows "tokens (ack i t) = tokens t"
proof -
  let ?l = "leaving_runs t ! i"
  have done_case: "tokens (t\<lparr>leaving_runs := take i (leaving_runs t) @ drop (Suc i) (leaving_runs t)\<rparr>)
      + opt_mset (l_cb ?l) = tokens t"
    using sum_list_remove [OF assms, of "opt_mset \<circ> l_cb"]
    by (simp add: tokens_def waiting_def ac_simps)
  have "map (opt_mset \<circ> l_cb) ((leaving_runs t)[i := ?l\<lparr>l_acks := n\<rparr>]) =
      map (opt_mset \<circ> l_cb) (leaving_runs t)" for n
    using assms by (simp add: map_update list_update_same_conv)
  then have more: "tokens (t\<lparr>leaving_runs := (leaving_runs t)[i := ?l\<lparr>l_acks := n\<rparr>]\<rparr>) = tokens t" for n
    by (simp add: tokens_def waiting_def del: map_update)
  show ?thesis
    using done_case by (simp add: ack_def Let_def more)
qed

lemma tokens_new [simp]: "tokens (new_timers nid ts st) = {#}"
  by (simp add: new_timers_def tokens_def waiting_def)

lemma tokens_run:
  "run orderly cbs now t \<Longrightarrow> tokens t = sum_list (map opt_mset cbs)"
proof (induction rule: run.induct)
  case (io_turn cbs now t i err)
  then show ?case by (simp add: tokens_io_turn)
next
  case (immediate_turn cbs now t)
  then show ?case by (simp add: tokens_immediate_turn)
qed (simp_all add: recover_def kRemove_def fire_def recovered_def watch_def watched_def ac_simps
       split: option.split)

section \<open>The work ends\<close>

text \<open>A machine whose every turn lowers a load comes to rest, and keeps what turns keep.\<close>

locale settling =
  fixes turn :: "'s \<Rightarrow> 's" and load :: "'s \<Rightarrow> nat" and ok :: "'s \<Rightarrow> bool"
  assumes turn_ok: "ok s \<Longrightarrow> ok (turn s)"
    and turn_load: "ok s \<Longrightarrow> 0 < load s \<Longrightarrow> load (turn s) < load s"
begin

lemma turns_ok: "ok s \<Longrightarrow> ok ((turn ^^ n) s)"
  by (induction n) (simp_all add: turn_ok)

lemma settles: "ok s \<Longrightarrow> \<exists>n \<le> load s. load ((turn ^^ n) s) = 0"
proof (induction "load s" arbitrary: s rule: less_induct)
  case less
  show ?case
  proof (cases "load s = 0")
    case True
    then show ?thesis by (intro exI [of _ 0]) simp
  next
    case False
    then have lt: "load (turn s) < load s" using less.prems turn_load by simp
    from less.hyps [OF lt turn_ok [OF less.prems]] obtain n
      where "n \<le> load (turn s)" "load ((turn ^^ n) (turn s)) = 0" by blast
    then show ?thesis
      using lt by (intro exI [of _ "Suc n"]) (simp add: funpow_swap1)
  qed
qed

end

fun work_load :: "work \<Rightarrow> nat" where
  "work_load (Put d e cb) = 1"
| "work_load (Del tid k cb) = 3"
| "work_load (Batch ids next) = (case next of None \<Rightarrow> 1 | Some cb \<Rightarrow> 2)"
| "work_load (Closing cb) = 1"

fun immediate_load :: "immediate \<Rightarrow> nat" where
  "immediate_load (Exec c) = 1"
| "immediate_load (Answer cb a) = 1"
| "immediate_load (Removed tid k cb err) = 2"

definition leaving_load :: "leaving \<Rightarrow> nat" where
  "leaving_load l = (l_size l - l_acks l) + 2"

definition load :: "timers \<Rightarrow> nat" where
  "load t = sum_list (map work_load (io t)) + sum_list (map immediate_load (immediate t)) +
     sum_list (map leaving_load (leaving_runs t))"

text \<open>One turn: an immediate, or the oldest storage work (without error), or a reply.\<close>

definition turn :: "int \<Rightarrow> timers \<Rightarrow> timers" where
  "turn now t =
    (if immediate t \<noteq> [] then immediate_turn now t
     else if io t \<noteq> [] then io_turn now False 0 t
     else if leaving_runs t \<noteq> [] then ack 0 t
     else t)"

definition leaving_ok :: "timers \<Rightarrow> bool" where
  "leaving_ok t \<longleftrightarrow> (\<forall>l \<in> set (leaving_runs t). l_acks l < l_size l)"

definition at_rest :: "timers \<Rightarrow> bool" where
  "at_rest t \<longleftrightarrow> io t = [] \<and> immediate t = [] \<and> leaving_runs t = []"

lemma load_0_iff: "load t = 0 \<longleftrightarrow> at_rest t"
proof -
  have "work_load w > 0" for w by (cases w) (simp_all split: option.split)
  moreover have "immediate_load i > 0" for i by (cases i) simp_all
  ultimately show ?thesis
    by (cases "io t"; cases "immediate t"; cases "leaving_runs t")
      (simp_all add: load_def at_rest_def leaving_load_def)
qed

lemmas load_defs = load_def effect_defs

lemma load_create: "load (create now tid b cb t) \<le> Suc (load t)"
  by (simp add: create_def Let_def load_defs split: option.split)

lemma load_callback [simp]: "load (nodeback cb a t) = load t"
  by (simp add: load_defs split: option.split)

lemma load_after_remove: "load (after_remove now tid k cb err t) \<le> Suc (load t)"
proof -
  have "load (publish m t) = load t" for m by (simp add: load_defs)
  then show ?thesis
    by (simp add: after_remove_def load_create split: option.split after.split)
qed

lemma load_immediate_turn: "immediate t \<noteq> [] \<Longrightarrow> load (immediate_turn now t) < load t"
proof (cases "immediate t")
  case (Cons i rest)
  let ?t = "t\<lparr>immediate := rest\<rparr>"
  have "load t = load ?t + immediate_load i" using Cons by (simp add: load_def)
  moreover have "load (immediate_run now i ?t) < load ?t + immediate_load i"
  proof (cases i)
    case (Removed tid k cb err)
    then show ?thesis using load_after_remove [of now tid k cb err ?t] by simp
  qed (simp_all, simp add: load_def)
  ultimately show ?thesis using Cons by (simp add: immediate_turn_def)
qed simp

lemma load_finish: "load (finish now False w t) < load t + work_load w"
proof (cases w)
  case (Put d e cb)
  then show ?thesis by (simp add: put_done_def Let_def) (simp add: load_defs)
next
  case (Del tid k cb)
  then show ?thesis by (simp add: del_done_def Let_def load_defs split: option.split)
next
  case (Batch ids nxt)
  then show ?thesis by (simp add: batch_done_def disconnect_def load_defs split: option.split)
next
  case (Closing cb)
  then show ?thesis by (simp add: closing_done_def) (simp add: load_defs)
qed

lemma load_io_turn: "io t \<noteq> [] \<Longrightarrow> load (io_turn now False 0 t) < load t"
  using load_finish [of now "hd (io t)" "t\<lparr>io := tl (io t)\<rparr>"]
  by (cases "io t") (simp_all add: io_turn_def load_def)

lemma load_ack:
  assumes "leaving_runs t \<noteq> []" and "leaving_ok t"
  shows "load (ack 0 t) < load t"
proof (cases "leaving_runs t")
  case (Cons l ls)
  then have "l_acks l < l_size l" using assms(2) by (simp add: leaving_ok_def)
  then show ?thesis using Cons
    by (auto simp: ack_def Let_def load_def startIO_def leaving_load_def)
qed (use assms in simp)

lemma leaving_ok_effects [simp]:
  "leaving_ok (publish m t) = leaving_ok t" "leaving_ok (setImmediate i t) = leaving_ok t"
  "leaving_ok (nodeback cb a t) = leaving_ok t" "leaving_ok (startIO w t) = leaving_ok t"
  "leaving_ok (armTimeout now d c t) = leaving_ok t"
  "leaving_ok (clearTimeout h t) = leaving_ok t"
  "leaving_ok (t\<lparr>recs := r\<rparr>) = leaving_ok t" "leaving_ok (t\<lparr>stored := st\<rparr>) = leaving_ok t"
  "leaving_ok (t\<lparr>started := xs\<rparr>) = leaving_ok t"
  "leaving_ok (t\<lparr>requested := rs\<rparr>) = leaving_ok t"
  "leaving_ok (t\<lparr>sid := s\<rparr>) = leaving_ok t" "leaving_ok (t\<lparr>storage_closed := cl\<rparr>) = leaving_ok t"
  "leaving_ok (t\<lparr>armed := as\<rparr>) = leaving_ok t" "leaving_ok (t\<lparr>immediate := im\<rparr>) = leaving_ok t"
  "leaving_ok (t\<lparr>io := w'\<rparr>) = leaving_ok t"
  by (simp_all add: leaving_ok_def effect_defs split: option.split)

lemma leaving_ok_create [simp]: "leaving_ok (create now tid b cb t) = leaving_ok t"
  by (simp add: create_def Let_def)

lemma leaving_ok_after_remove [simp]:
  "leaving_ok (after_remove now tid k cb err t) = leaving_ok t"
  by (simp add: after_remove_def split: option.split after.split)

lemma leaving_ok_finish [simp]: "leaving_ok (finish now err w t) = leaving_ok t"
  by (cases w) (simp_all add: put_done_def del_done_def batch_done_def disconnect_def
      closing_done_def Let_def split: option.split)

lemma leaving_ok_io_turn [simp]: "leaving_ok (io_turn now err i t) = leaving_ok t"
  by (simp add: io_turn_def)

lemma leaving_ok_immediate_turn [simp]: "leaving_ok (immediate_turn now t) = leaving_ok t"
proof -
  have "leaving_ok (immediate_run now i t) = leaving_ok t" for i t by (cases i) simp_all
  then show ?thesis by (simp add: immediate_turn_def split: list.split)
qed

lemma leaving_ok_rebalance [simp]: "leaving_ok (fst (rebalance owns t)) = leaving_ok t"
proof -
  have "leaving_ok (fst (rebalance_run owns objs batch t)) = leaving_ok t" for objs batch t
    by (induction owns objs batch t rule: rebalance_run.induct) (simp_all add: Let_def split_beta)
  then show ?thesis by (simp add: rebalance_def Let_def split_beta)
qed

lemma leaving_ok_shutdown [simp]: "leaving_ok t \<Longrightarrow> leaving_ok (shutdown cb t)"
proof -
  have run: "leaving_ok (shutdown_run objs n t) = leaving_ok t" for objs n t
    by (induction objs n t rule: shutdown_run.induct) (simp_all add: Let_def)
  assume ok: "leaving_ok t"
  show ?thesis
  proof (cases "recs t = []")
    case False
    define t2 where "t2 = shutdown_run (map snd (recs t)) 0 (publish (Ev_node PURGE) (t\<lparr>sid := None\<rparr>))"
    have "leaving_ok t2" using ok by (simp add: t2_def run)
    then show ?thesis using False by (simp add: shutdown_def Let_def t2_def [symmetric])
        (simp add: leaving_ok_def)
  qed (simp add: shutdown_def disconnect_def ok)
qed

lemma leaving_ok_ack [simp]:
  assumes "leaving_ok t" and "i < length (leaving_runs t)"
  shows "leaving_ok (ack i t)"
proof -
  let ?l = "leaving_runs t ! i"
  have lt: "l_acks ?l < l_size ?l" using assms by (simp add: leaving_ok_def)
  have "\<forall>l \<in> set (take i (leaving_runs t) @ drop (Suc i) (leaving_runs t)). l_acks l < l_size l"
    using assms(1) by (auto simp: leaving_ok_def dest: in_set_takeD in_set_dropD)
  moreover have "\<forall>l \<in> set ((leaving_runs t)[i := ?l\<lparr>l_acks := Suc (l_acks ?l)\<rparr>]). l_acks l < l_size l"
    if "Suc (l_acks ?l) \<noteq> l_size ?l"
    using assms(1) lt that by (auto simp: leaving_ok_def dest!: set_update_subset_insert [THEN subsetD])
  ultimately show ?thesis by (simp add: ack_def Let_def) (simp add: leaving_ok_def)
qed

lemma leaving_ok_run: "run orderly cbs now t \<Longrightarrow> leaving_ok t"
proof (induction rule: run.induct)
  case (boot now es nid ts st)
  have "leaving_ok (recover_run now es t) = leaving_ok t" for t
    by (induction now es t rule: recover_run.induct) simp_all
  then show ?case by (simp add: recover_def) (simp add: new_timers_def leaving_ok_def)
qed (simp_all add: kRemove_def fire_def recovered_def watch_def watched_def split: option.split)

lemma tokens_turn [simp]: "tokens (turn now t) = tokens t"
  by (simp add: turn_def tokens_immediate_turn tokens_io_turn)

interpretation timer_loop: settling "turn now" load leaving_ok for now
proof
  fix t
  assume ok: "leaving_ok t"
  show "leaving_ok (turn now t)" using ok by (simp add: turn_def)
  assume "0 < load t"
  then have "\<not> at_rest t" using load_0_iff [of t] by simp
  then show "load (turn now t) < load t"
    using ok load_immediate_turn [of t now] load_io_turn [of t now] load_ack [of t]
    by (auto simp: turn_def at_rest_def)
qed

lemma tokens_turns [simp]: "tokens ((turn now ^^ n) t) = tokens t"
  by (induction n) simp_all

lemma answered_at_rest: "at_rest t \<Longrightarrow> mset (map fst (answered t)) = tokens t"
  by (simp add: at_rest_def tokens_def waiting_def)

lemma turn_setImmediate: "at_rest t \<Longrightarrow> turn now (setImmediate i t) = immediate_run now i t"
  by (cases t) (simp add: turn_def immediate_turn_def setImmediate_def at_rest_def)

lemma turn_startIO: "at_rest t \<Longrightarrow> turn now (startIO w t) = finish now False w t"
  by (cases t) (simp add: turn_def io_turn_def startIO_def at_rest_def)

end
