(* ===== verification/Timer_Facts.thy ===== *)
theory Timer_Facts
  imports Timer_Runs
begin

text \<open>
  What the operations do in one piece: handing over is \<^theory_text>\<open>keep\<close>ing the records of some ids and
  clearing the timeouts of the others. The invariant \<^theory_text>\<open>timers_ok\<close> of orderly runs: every armed
  timeout belongs to exactly one record and is not due before the record's time, and every
  record is in the store.
\<close>

section \<open>Records given up\<close>

lemma dget_filter: "dget [kr \<leftarrow> d. P (fst kr)] k = (if P k then dget d k else None)"
  by (induction d) auto

lemma ddel_filter: "ddel k d = [kr \<leftarrow> d. fst kr \<noteq> k]"
  by (induction d) auto

lemma fold_ddel_filter: "fold ddel ks d = [kr \<leftarrow> d. fst kr \<notin> set ks]"
  by (induction ks arbitrary: d) (auto simp: ddel_filter intro!: filter_cong)

definition clear_all :: "nat option set \<Rightarrow> timers \<Rightarrow> timers" where
  "clear_all H t = t\<lparr>armed := [a \<leftarrow> armed t. Some (a_handle a) \<notin> H]\<rparr>"

text \<open>The records of the ids in \<open>P\<close> stay; the timeouts of the other records are cleared.\<close>

definition keep :: "(string \<Rightarrow> bool) \<Rightarrow> timers \<Rightarrow> timers" where
  "keep P t =
    (let gone = [kr \<leftarrow> recs t. \<not> P (fst kr)]
     in (clear_all (set (map (r_timer \<circ> snd) gone)) t)\<lparr>recs := [kr \<leftarrow> recs t. P (fst kr)]\<rparr>)"

lemma keep_fields [simp]:
  "recs (keep P t) = [kr \<leftarrow> recs t. P (fst kr)]" "stored (keep P t) = stored t"
  "io (keep P t) = io t" "immediate (keep P t) = immediate t"
  "leaving_runs (keep P t) = leaving_runs t" "transports (keep P t) = transports t"
  "next_handle (keep P t) = next_handle t" "published (keep P t) = published t"
  "requested (keep P t) = requested t" "answered (keep P t) = answered t"
  "started (keep P t) = started t" "nodeid (keep P t) = nodeid t"
  by (simp_all add: keep_def clear_all_def Let_def)

lemma armed_keep: "armed (keep P t) =
    [a \<leftarrow> armed t. \<forall>kr \<in> set (recs t). r_timer (snd kr) = Some (a_handle a) \<longrightarrow> P (fst kr)]"
proof -
  have "Some (a_handle a) \<notin> set (map (r_timer \<circ> snd) [kr \<leftarrow> recs t. \<not> P (fst kr)]) \<longleftrightarrow>
      (\<forall>kr \<in> set (recs t). r_timer (snd kr) = Some (a_handle a) \<longrightarrow> P (fst kr))" for a :: armed_timeout
    by (auto simp: image_iff) (metis fst_conv snd_conv)+
  then show ?thesis by (simp add: keep_def clear_all_def Let_def del: set_map)
qed

lemma rebalance_run_eq:
  "rebalance_run owns objs batch t =
    (let lost = [r \<leftarrow> objs. \<not> owns (r_id r)]
     in ((clear_all (set (map r_timer lost)) t)
           \<lparr>recs := [kr \<leftarrow> recs t. fst kr \<notin> set (map r_id lost)],
            published := published t @ map (Ev_evict \<circ> r_id) lost\<rparr>,
         batch @ map r_id lost, map handed lost))"
proof (induction owns objs batch t rule: rebalance_run.induct)
  case (1 owns batch t)
  then show ?case by (simp add: clear_all_def)
next
  case (2 owns obj objs batch t)
  show ?case
  proof (cases "owns (r_id obj)")
    case True
    then show ?thesis using 2(1) by (simp add: Let_def)
  next
    case False
    then show ?thesis
      using 2(2) [OF False refl refl refl]
      by (simp add: Let_def clear_all_def clearTimeout_def publish_def ddel_filter conj_commute)
  qed
qed

lemma shutdown_run_eq:
  "shutdown_run objs n t = (clear_all (set (map r_timer objs)) t)\<lparr>requested := requested t @
     map (\<lambda>(i, r). (handed r)\<lparr>b_count := Some (Suc (n + i))\<rparr>) (List.enumerate 0 objs)\<rparr>"
proof (induction objs n t rule: shutdown_run.induct)
  case (1 n t)
  then show ?case by (simp add: clear_all_def)
next
  case (2 obj objs n t)
  have "List.enumerate (Suc 0) objs = map (\<lambda>(i, r). (Suc i, r)) (List.enumerate 0 objs)"
    by (simp add: enumerate_map_upt enumerate_eq_zip map_zip_map zip_map1 map_Suc_upt [symmetric]
        del: upt_Suc)
  then show ?case
    using "2.IH" [OF refl refl]
    by (simp add: clear_all_def clearTimeout_def case_prod_unfold comp_def conj_commute)
qed

section \<open>The invariant\<close>

definition rec_ok :: "timers \<Rightarrow> string \<Rightarrow> timer_rec \<Rightarrow> bool" where
  "rec_ok t k r \<longleftrightarrow> r_id r = k \<and> r_created r \<noteq> 0 \<and>
     cb_transport (b_callback (r_payload r)) \<in> set (transports t) \<and>
     (\<exists>h < next_handle t. r_timer r = Some h)"

definition recs_ok :: "timers \<Rightarrow> bool" where
  "recs_ok t \<longleftrightarrow> distinct (dkeys (recs t)) \<and> (\<forall>(k, r) \<in> set (recs t). rec_ok t k r)"

definition one_handle :: "timers \<Rightarrow> bool" where
  "one_handle t \<longleftrightarrow> (\<forall>(k, r) \<in> set (recs t). \<forall>(k', r') \<in> set (recs t).
     r_timer r = r_timer r' \<longrightarrow> k = k')"

text \<open>The record an armed timeout belongs to.\<close>

definition arms :: "armed_timeout \<Rightarrow> string \<Rightarrow> timer_rec \<Rightarrow> bool" where
  "arms a k r \<longleftrightarrow> r_timer r = Some (a_handle a) \<and> a_call a = call_of k (r_payload r) \<and>
     r_created r + b_timeout (r_payload r) \<le> a_due a"

definition armed_ok :: "timers \<Rightarrow> bool" where
  "armed_ok t \<longleftrightarrow> distinct (map a_handle (armed t)) \<and>
     (\<forall>a \<in> set (armed t). a_handle a < next_handle t \<and> (\<exists>(k, r) \<in> set (recs t). arms a k r))"

definition put_ok :: "int \<Rightarrow> timers \<Rightarrow> timer_rec \<Rightarrow> int \<Rightarrow> bool" where
  "put_ok now t d e \<longleftrightarrow> r_created d \<noteq> 0 \<and> r_created d + e \<le> now \<and> 0 \<le> e \<and>
     e \<le> b_timeout (r_payload d) \<and> b_timeout (r_payload d) \<le> timeout_max \<and>
     cb_transport (b_callback (r_payload d)) \<in> set (transports t) \<and>
     r_id d \<notin> set (dkeys (recs t)) \<and> r_timer d = None"

fun work_ok :: "int \<Rightarrow> timers \<Rightarrow> work \<Rightarrow> bool" where
  "work_ok now t (Put d e cb) = put_ok now t d e"
| "work_ok now t (Del tid k cb) = valid_after now k"
| "work_ok now t (Batch ids next) = (\<forall>i \<in> set ids. i \<notin> set (dkeys (recs t)))"
| "work_ok now t (Closing cb) = True"

fun immediate_ok :: "int \<Rightarrow> immediate \<Rightarrow> bool" where
  "immediate_ok now (Removed tid k cb err) = valid_after now k"
| "immediate_ok now i = True"

definition works_ok :: "int \<Rightarrow> timers \<Rightarrow> bool" where
  "works_ok now t \<longleftrightarrow> (\<forall>w \<in> set (io t). work_ok now t w) \<and>
     (\<forall>i \<in> set (immediate t). immediate_ok now i) \<and> distinct (put_ids (io t))"

definition batch_ids :: "work list \<Rightarrow> string list" where
  "batch_ids ws = concat (map (\<lambda>w. case w of Batch ids next \<Rightarrow> ids | _ \<Rightarrow> []) ws)"

text \<open>A record is put before a batch of the queue only if the batch does not delete it.\<close>

fun fifo_ok :: "work list \<Rightarrow> bool" where
  "fifo_ok [] = True"
| "fifo_ok (w # ws) = ((case w of Put d e cb \<Rightarrow> r_id d \<notin> set (batch_ids ws) | _ \<Rightarrow> True) \<and> fifo_ok ws)"

definition batches_ok :: "timers \<Rightarrow> bool" where
  "batches_ok t \<longleftrightarrow> fifo_ok (io t) \<and> (\<forall>l \<in> set (leaving_runs t). \<forall>i \<in> set (l_batch l).
     i \<notin> set (dkeys (recs t)) \<and> i \<notin> set (put_ids (io t)))"

definition durable :: "timers \<Rightarrow> bool" where
  "durable t \<longleftrightarrow> (\<forall>(k, r) \<in> set (recs t). dget (stored t) k = Some (r\<lparr>r_timer := None\<rparr>))"

definition timers_ok :: "int \<Rightarrow> timers \<Rightarrow> bool" where
  "timers_ok now t \<longleftrightarrow> 0 < now \<and> recs_ok t \<and> one_handle t \<and> armed_ok t \<and> works_ok now t \<and>
     batches_ok t \<and> durable t"

lemmas timers_defs = timers_ok_def recs_ok_def rec_ok_def one_handle_def armed_ok_def works_ok_def
  batches_ok_def durable_def

lemma timers_ok_cong:
  assumes "recs t' = recs t" and "armed t' = armed t" and "next_handle t' = next_handle t"
    and "stored t' = stored t" and "io t' = io t" and "immediate t' = immediate t"
    and "leaving_runs t' = leaving_runs t" and "transports t' = transports t"
  shows "timers_ok now t' = timers_ok now t"
proof -
  have "work_ok now t' w = work_ok now t w" for w
    using assms by (cases w) (simp_all add: put_ok_def)
  then show ?thesis using assms by (simp add: timers_defs)
qed

lemma timers_ok_effects [simp]:
  "timers_ok now (publish m t) = timers_ok now t"
  "timers_ok now (nodeback cb a t) = timers_ok now t"
  "timers_ok now (t\<lparr>sid := s\<rparr>) = timers_ok now t"
  "timers_ok now (t\<lparr>storage_closed := cl\<rparr>) = timers_ok now t"
  "timers_ok now (t\<lparr>started := xs\<rparr>) = timers_ok now t"
  "timers_ok now (t\<lparr>requested := rs\<rparr>) = timers_ok now t"
  by (rule timers_ok_cong; simp add: effect_defs split: option.split)+

lemma queue_fields [simp]:
  "recs (setImmediate i t) = recs t" "recs (startIO w t) = recs t"
  "stored (setImmediate i t) = stored t" "stored (startIO w t) = stored t"
  "armed (setImmediate i t) = armed t" "armed (startIO w t) = armed t"
  "next_handle (setImmediate i t) = next_handle t" "next_handle (startIO w t) = next_handle t"
  "transports (setImmediate i t) = transports t" "transports (startIO w t) = transports t"
  "leaving_runs (setImmediate i t) = leaving_runs t" "leaving_runs (startIO w t) = leaving_runs t"
  "io (setImmediate i t) = io t" "immediate (startIO w t) = immediate t"
  "immediate (setImmediate i t) = immediate t @ [i]" "io (startIO w t) = io t @ [w]"
  by (simp_all add: setImmediate_def startIO_def)

lemma work_ok_queue [simp]:
  "work_ok now (setImmediate i t) w = work_ok now t w"
  "work_ok now (startIO w' t) w = work_ok now t w"
  by (cases w; simp add: put_ok_def)+

lemma rec_ok_queue [simp]:
  "rec_ok (setImmediate i t) k r = rec_ok t k r" "rec_ok (startIO w t) k r = rec_ok t k r"
  by (simp_all add: rec_ok_def)

lemma timers_ok_setImmediate [simp]:
  "timers_ok now (setImmediate i t) \<longleftrightarrow> timers_ok now t \<and> immediate_ok now i"
  by (auto simp: timers_ok_def recs_ok_def one_handle_def armed_ok_def works_ok_def
      batches_ok_def durable_def)

end
