(* ===== verification/Timer_Inv.thy ===== *)
theory Timer_Inv
  imports Timer_Facts
begin

text \<open>Every step of an orderly run keeps \<^theory_text>\<open>timers_ok\<close>.\<close>

section \<open>The queue of the store\<close>

lemma put_ids_simps [simp]:
  "put_ids [] = []" "put_ids (ws @ ws') = put_ids ws @ put_ids ws'"
  "put_ids (Put d e cb # ws) = r_id d # put_ids ws" "put_ids (Del tid k cb # ws) = put_ids ws"
  "put_ids (Batch ids n # ws) = put_ids ws" "put_ids (Closing cb # ws) = put_ids ws"
  by (simp_all add: put_ids_def)

lemma batch_ids_simps [simp]:
  "batch_ids [] = []" "batch_ids (ws @ ws') = batch_ids ws @ batch_ids ws'"
  "batch_ids (Put d e cb # ws) = batch_ids ws" "batch_ids (Del tid k cb # ws) = batch_ids ws"
  "batch_ids (Batch ids n # ws) = ids @ batch_ids ws" "batch_ids (Closing cb # ws) = batch_ids ws"
  by (simp_all add: batch_ids_def)

lemma fifo_ok_snoc [simp]:
  "fifo_ok (ws @ [w]) \<longleftrightarrow> fifo_ok ws \<and>
     (case w of Batch ids n \<Rightarrow> set (put_ids ws) \<inter> set ids = {} | _ \<Rightarrow> True)"
  by (induction ws) (auto split: work.splits)

lemma put_ids_in: "i \<in> set (put_ids ws) \<longleftrightarrow> (\<exists>d e cb. Put d e cb \<in> set ws \<and> r_id d = i)"
proof (induction ws)
  case (Cons w ws)
  then show ?case by (cases w) auto
qed simp

lemma put_ids_new: "timers_ok now t \<Longrightarrow> i \<in> set (put_ids (io t)) \<Longrightarrow> i \<notin> set (dkeys (recs t))"
proof -
  assume ok: "timers_ok now t" and "i \<in> set (put_ids (io t))"
  then obtain d e cb where w: "Put d e cb \<in> set (io t)" "r_id d = i" by (auto simp: put_ids_in)
  then have "work_ok now t (Put d e cb)" using ok by (simp only: timers_ok_def works_ok_def)
  then show ?thesis using w by (simp add: put_ok_def)
qed

lemma timers_ok_startIO_Del [simp]:
  "timers_ok now (startIO (Del tid k cb) t) \<longleftrightarrow> timers_ok now t \<and> valid_after now k"
  by (auto simp: timers_ok_def recs_ok_def one_handle_def armed_ok_def works_ok_def
      batches_ok_def durable_def)

lemma timers_ok_startIO_Closing [simp]:
  "timers_ok now (startIO (Closing cb) t) \<longleftrightarrow> timers_ok now t"
  by (auto simp: timers_ok_def recs_ok_def one_handle_def armed_ok_def works_ok_def
      batches_ok_def durable_def)

lemma timers_ok_startIO_Batch:
  assumes "timers_ok now t" and "set ids \<inter> set (dkeys (recs t)) = {}"
    and "set ids \<inter> set (put_ids (io t)) = {}"
  shows "timers_ok now (startIO (Batch ids n) t)"
  using assms by (auto simp: timers_ok_def recs_ok_def one_handle_def armed_ok_def works_ok_def
      batches_ok_def durable_def)

lemma timers_ok_startIO_Put:
  assumes "timers_ok now t" and "put_ok now t d e" and "idle_id t (r_id d)"
  shows "timers_ok now (startIO (Put d e cb) t)"
  using assms by (auto simp: timers_ok_def recs_ok_def one_handle_def armed_ok_def works_ok_def
      batches_ok_def durable_def idle_id_def)

section \<open>Records\<close>

lemma timers_ok_keep:
  assumes ok: "timers_ok now t"
  shows "timers_ok now (keep P t)"
proof -
  have work: "work_ok now (keep P t) w" if "work_ok now t w" for w
    using that by (cases w) (auto simp: put_ok_def)
  have rec: "rec_ok (keep P t) k r" if "rec_ok t k r" for k r
    using that by (simp add: rec_ok_def)
  have armed: "armed_ok (keep P t)"
  proof -
    have "\<exists>(k, r) \<in> set (recs (keep P t)). arms a k r" if "a \<in> set (armed (keep P t))" for a
    proof -
      from that have "a \<in> set (armed t)"
        and all: "\<forall>kr \<in> set (recs t). r_timer (snd kr) = Some (a_handle a) \<longrightarrow> P (fst kr)"
        by (simp_all add: armed_keep)
      with ok obtain k r where "(k, r) \<in> set (recs t)" "arms a k r"
        by (auto simp: timers_ok_def armed_ok_def)
      moreover from this all have "P k" by (force simp: arms_def)
      ultimately show ?thesis by auto
    qed
    moreover have "distinct (map a_handle (armed (keep P t)))"
      using ok by (simp add: timers_ok_def armed_ok_def armed_keep distinct_map_filter)
    ultimately show ?thesis
      using ok by (auto simp: timers_ok_def armed_ok_def armed_keep)
  qed
  have "distinct (dkeys (recs (keep P t)))"
    using ok by (simp add: timers_ok_def recs_ok_def distinct_map_filter)
  then have "recs_ok (keep P t)"
    using ok rec by (auto simp: timers_ok_def recs_ok_def)
  moreover have "one_handle (keep P t)"
    using ok by (auto simp: timers_ok_def one_handle_def)
  moreover have "works_ok now (keep P t)"
    using ok work by (auto simp: timers_ok_def works_ok_def)
  moreover have "batches_ok (keep P t)"
    using ok by (fastforce simp: timers_ok_def batches_ok_def)
  moreover have "durable (keep P t)"
    using ok by (auto simp: timers_ok_def durable_def)
  ultimately show ?thesis using ok armed by (simp add: timers_ok_def)
qed

lemma timers_ok_unstore:
  assumes ok: "timers_ok now t" and new: "set ids \<inter> set (dkeys (recs t)) = {}"
  shows "timers_ok now (t\<lparr>stored := fold ddel ids (stored t)\<rparr>)"
proof -
  let ?t = "t\<lparr>stored := fold ddel ids (stored t)\<rparr>"
  have "work_ok now ?t w = work_ok now t w" for w by (cases w) (simp_all add: put_ok_def)
  moreover have "durable ?t"
  proof -
    have "dget (fold ddel ids (stored t)) k = Some (r\<lparr>r_timer := None\<rparr>)"
      if kr: "(k, r) \<in> set (recs t)" for k r
    proof -
      have "k \<in> set (dkeys (recs t))" using kr by force
      then have "k \<notin> set ids" using new by blast
      then show ?thesis
        using ok kr by (auto simp: dict.get_fold_del timers_ok_def durable_def dest!: bspec)
    qed
    then show ?thesis by (auto simp: durable_def)
  qed
  ultimately show ?thesis
    using ok by (simp add: timers_ok_def recs_ok_def rec_ok_def one_handle_def armed_ok_def
        works_ok_def batches_ok_def)
qed

lemma rebalance_run_keep:
  assumes ok: "timers_ok now t"
  shows "rebalance_run owns (map snd (recs t)) [] t =
    (let lost = [kr \<leftarrow> recs t. \<not> owns (fst kr)]
     in ((keep owns t)\<lparr>published := published t @ map (Ev_evict \<circ> fst) lost\<rparr>,
         map fst lost, map (handed \<circ> snd) lost))"
proof -
  have tid: "r_id (snd kr) = fst kr" if "kr \<in> set (recs t)" for kr
    using ok that by (auto simp: timers_ok_def recs_ok_def rec_ok_def dest!: bspec)
  have lost: "[r \<leftarrow> map snd (recs t). \<not> owns (r_id r)] = map snd [kr \<leftarrow> recs t. \<not> owns (fst kr)]"
    by (simp add: filter_map comp_def tid cong: filter_cong)
  have ids: "map (\<lambda>kr. r_id (snd kr)) [kr \<leftarrow> recs t. \<not> owns (fst kr)] =
      map fst [kr \<leftarrow> recs t. \<not> owns (fst kr)]"
    and evs: "map (\<lambda>kr. Ev_evict (r_id (snd kr))) [kr \<leftarrow> recs t. \<not> owns (fst kr)] =
      map (\<lambda>kr. Ev_evict (fst kr)) [kr \<leftarrow> recs t. \<not> owns (fst kr)]"
    by (simp_all add: tid)
  have "fst kr \<notin> set (map fst [kr \<leftarrow> recs t. \<not> owns (fst kr)]) \<longleftrightarrow> owns (fst kr)"
    if "kr \<in> set (recs t)" for kr
    using that by auto
  then have stay: "[kr \<leftarrow> recs t. fst kr \<notin> set (map fst [kr \<leftarrow> recs t. \<not> owns (fst kr)])] =
      [kr \<leftarrow> recs t. owns (fst kr)]"
    by (rule filter_cong [OF refl])
  show ?thesis
    by (simp add: rebalance_run_eq lost Let_def keep_def comp_def ids evs stay del: set_map)
qed

lemma clear_one:
  assumes ok: "timers_ok now t" and r: "dget (recs t) tid = Some r"
  shows "(clearTimeout (r_timer r) t)\<lparr>recs := ddel tid (recs t)\<rparr> = keep (\<lambda>k. k \<noteq> tid) t"
proof -
  have uniq: "kr = (tid, r)" if "kr \<in> set (recs t)" "fst kr = tid" for kr
    using ok that eq_key_imp_eq_value [of "recs t" tid "snd kr" r] map_of_SomeD [OF r]
    by (cases kr) (simp add: timers_ok_def recs_ok_def)
  have "(tid, r) \<in> set (recs t)" using r by (rule map_of_SomeD)
  then have "Some (a_handle a) \<noteq> r_timer r \<longleftrightarrow>
      (\<forall>kr \<in> set (recs t). r_timer (snd kr) = Some (a_handle a) \<longrightarrow> fst kr \<noteq> tid)"
    for a :: armed_timeout
    using uniq by (metis fst_conv snd_conv)
  then have "armed (keep (\<lambda>k. k \<noteq> tid) t) = [a \<leftarrow> armed t. Some (a_handle a) \<noteq> r_timer r]"
    by (simp add: armed_keep)
  then show ?thesis
    by (simp add: keep_def clear_all_def clearTimeout_def ddel_filter Let_def)
qed

section \<open>Steps\<close>

lemma valid_body_mono: "valid_body now b \<Longrightarrow> now \<le> now' \<Longrightarrow> valid_body now' b"
  by (simp add: valid_body_def split: option.splits)

lemma valid_after_mono: "valid_after now k \<Longrightarrow> now \<le> now' \<Longrightarrow> valid_after now' k"
  by (simp add: valid_after_def valid_body_mono split: after.splits)

lemma timers_ok_tick:
  assumes "timers_ok now t" and "now \<le> now'"
  shows "timers_ok now' t"
proof -
  have "work_ok now' t w" if "work_ok now t w" for w
    using that assms(2) by (cases w) (auto simp: put_ok_def intro: valid_after_mono)
  moreover have "immediate_ok now' i" if "immediate_ok now i" for i
    using that assms(2) by (cases i) (auto intro: valid_after_mono)
  ultimately show ?thesis using assms by (auto simp: timers_ok_def works_ok_def)
qed

lemma timers_ok_create:
  assumes ok: "timers_ok now t" and "valid_body now b" and "idle_id t tid"
  shows "timers_ok now (create now tid b cb t)"
proof -
  have "created_of b now \<noteq> 0" "created_of b now \<le> now"
    using assms by (auto simp: created_of_def valid_body_def timers_ok_def split: option.splits)
  moreover have "tid \<notin> set (dkeys (recs t))" if "dget (recs t) tid = None"
    using that by (simp add: map_of_eq_None_iff)
  ultimately show ?thesis
    using assms by (simp add: create_def Let_def)
      (auto intro!: timers_ok_startIO_Put simp: put_ok_def valid_body_def not_less)
qed

lemma timers_ok_next_work:
  assumes ok: "timers_ok now t" and io: "io t = w # ws"
  shows "timers_ok now (t\<lparr>io := ws\<rparr>)" and "work_ok now (t\<lparr>io := ws\<rparr>) w"
proof -
  have same: "work_ok now (t\<lparr>io := ws\<rparr>) v = work_ok now t v" for v
    by (cases v) (simp_all add: put_ok_def)
  have "set (put_ids ws) \<subseteq> set (put_ids (io t))" using io by (cases w) auto
  moreover have "distinct (put_ids ws)" if "distinct (put_ids (w # ws))"
    using that by (cases w) auto
  ultimately show "timers_ok now (t\<lparr>io := ws\<rparr>)"
    using ok io
    by (auto simp: timers_ok_def recs_ok_def rec_ok_def one_handle_def armed_ok_def works_ok_def
        batches_ok_def durable_def same)
  show "work_ok now (t\<lparr>io := ws\<rparr>) w"
    using ok io by (simp add: same timers_ok_def works_ok_def)
qed

lemma timers_ok_remove:
  assumes ok: "timers_ok now t"
  shows "timers_ok now ((keep (\<lambda>k. k \<noteq> tid) t)\<lparr>stored := ddel tid (stored t)\<rparr>)"
  using timers_ok_unstore [OF timers_ok_keep [OF ok, of "\<lambda>k. k \<noteq> tid"], of "[tid]"] by auto

lemma timers_ok_after_remove:
  assumes "timers_ok now t" and "valid_after now k"
    and "\<And>b. k = A_update b \<Longrightarrow> err = None \<Longrightarrow> idle_id t tid"
  shows "timers_ok now (after_remove now tid k cb err t)"
  using assms by (auto simp: after_remove_def valid_after_def intro!: timers_ok_create
      split: option.split after.splits)

lemma timers_ok_del_done:
  assumes ok: "timers_ok now t" and k: "valid_after now k"
  shows "timers_ok now (del_done now err tid k cb t)"
proof (cases err)
  case True
  then show ?thesis using assms by (auto intro: timers_ok_after_remove simp: del_done_def)
next
  case False
  show ?thesis
  proof (cases "dget (recs t) tid")
    case None
    then have "tid \<notin> set (dkeys (recs t))" by (simp add: map_of_eq_None_iff)
    then show ?thesis
      using timers_ok_unstore [OF ok, of "[tid]"] False None k
      by (simp add: del_done_def Let_def)
  next
    case (Some r)
    have "(clearTimeout (r_timer r) (t\<lparr>stored := ddel tid (stored t)\<rparr>))
        \<lparr>recs := ddel tid (recs t)\<rparr> =
      (keep (\<lambda>k. k \<noteq> tid) t)\<lparr>stored := ddel tid (stored t)\<rparr>"
      by (subst clear_one [OF ok Some, symmetric]) (simp add: clearTimeout_def)
    then show ?thesis
      using timers_ok_remove [OF ok, of tid] False Some k
      by (simp add: del_done_def Let_def) (simp add: clearTimeout_def)
  qed
qed

lemma dset_new: "k \<notin> set (dkeys d) \<Longrightarrow> dset k v d = d @ [(k, v)]"
  by (induction d) auto

lemma due_bound:
  assumes "put_ok now t d e"
  shows "r_created d + b_timeout (r_payload d) \<le> now + node_delay (b_timeout (r_payload d) - e)"
  using assms by (auto simp: put_ok_def node_delay_def)

lemma timers_ok_put_done:
  assumes ok: "timers_ok now t" and put: "put_ok now t d e"
    and idle: "r_id d \<notin> set (put_ids (io t))" "r_id d \<notin> set (batch_ids (io t))"
      "\<forall>l \<in> set (leaving_runs t). r_id d \<notin> set (l_batch l)"
  shows "timers_ok now (put_done now err d e cb t)"
proof (cases err)
  case True
  then show ?thesis using ok by (simp add: put_done_def)
next
  case False
  define a where "a = \<lparr>a_handle = next_handle t,
    a_due = now + node_delay (b_timeout (r_payload d) - e), a_call = call_of (r_id d) (r_payload d)\<rparr>"
  define r where "r = d\<lparr>r_timer := Some (next_handle t)\<rparr>"
  define u where "u = t\<lparr>armed := armed t @ [a], next_handle := Suc (next_handle t),
    recs := recs t @ [(r_id d, r)], stored := dset (r_id d) d (stored t)\<rparr>"
  have fresh: "r_id d \<notin> set (dkeys (recs t))" using put by (simp add: put_ok_def)
  have new: "dset (r_id d) r (recs t) = recs t @ [(r_id d, r)]"
    by (rule dset_new [OF fresh])
  have less: "r_timer s \<noteq> Some (next_handle t)" if "(k, s) \<in> set (recs t)" for k s
    using ok that by (auto simp: timers_ok_def recs_ok_def rec_ok_def dest!: bspec)
  have h: "a_handle b < next_handle t" if "b \<in> set (armed t)" for b
    using ok that by (auto simp: timers_ok_def armed_ok_def)
  have new_handle: "a_handle b \<noteq> next_handle t" if "b \<in> set (armed t)" for b
    using h [OF that] by simp
  have "recs_ok u"
    using ok put fresh unfolding timers_ok_def recs_ok_def
    by (auto simp: u_def rec_ok_def r_def put_ok_def less_Suc_eq dest!: bspec)
  moreover have "one_handle u"
    using ok less less [symmetric] fresh unfolding timers_ok_def one_handle_def
    by (auto simp: u_def r_def)
  moreover have "armed_ok u"
  proof -
    have "arms a (r_id d) r"
      using due_bound [OF put] by (simp add: arms_def a_def r_def)
    then show ?thesis
      using ok h new_handle new_handle [symmetric] unfolding timers_ok_def armed_ok_def
      by (auto simp: u_def a_def less_Suc_eq dest!: bspec)
  qed
  moreover have "works_ok now u"
  proof -
    have "work_ok now u w" if w: "w \<in> set (io t)" for w
    proof -
      have wok: "work_ok now t w" using ok w by (simp add: timers_ok_def works_ok_def)
      show ?thesis
      proof (cases w)
        case (Put d' e' cb')
        then have "r_id d' \<in> set (put_ids (io t))" using w by (auto simp: put_ids_in)
        then have "r_id d' \<noteq> r_id d" using idle by auto
        then show ?thesis using wok Put by (auto simp: u_def put_ok_def)
      next
        case (Batch ids n)
        then have "set ids \<subseteq> set (batch_ids (io t))" using w by (force simp: batch_ids_def)
        then have "r_id d \<notin> set ids" using idle by auto
        then show ?thesis using wok Batch by (auto simp: u_def)
      qed (use wok in simp_all)
    qed
    then show ?thesis using ok by (simp add: timers_ok_def works_ok_def) (simp add: u_def)
  qed
  moreover have "batches_ok u"
    using ok idle by (auto simp: timers_ok_def batches_ok_def u_def)
  moreover have "durable u"
  proof -
    have "d\<lparr>r_timer := None\<rparr> = d" using put by (cases d) (simp add: put_ok_def)
    moreover have "k \<noteq> r_id d" if "(k, s) \<in> set (recs t)" for k s using fresh that by force
    ultimately show ?thesis
      using ok by (auto simp: timers_ok_def durable_def u_def r_def dict.get_put dest!: bspec)
  qed
  ultimately have u: "timers_ok now u" using ok by (simp add: timers_ok_def)
  have "put_done now err d e cb t =
      nodeback cb (Created (r_id d)) (publish (Ev_created (r_id d) (r_created d) (r_payload d)) u)"
    using False new
    by (simp add: put_done_def Let_def armTimeout_def publish_def u_def a_def r_def) (cases t, simp)
  then show ?thesis using u by simp
qed

lemma timers_ok_io_turn:
  assumes ok: "timers_ok now t" and io: "io t \<noteq> []"
  shows "timers_ok now (io_turn now err 0 t)"
proof (cases "io t")
  case (Cons w ws)
  let ?t = "t\<lparr>io := ws\<rparr>"
  note tl = timers_ok_next_work [OF ok Cons]
  have "timers_ok now (finish now err w ?t)"
  proof (cases w)
    case (Put d e cb)
    have "r_id d \<notin> set (put_ids ws)" "r_id d \<notin> set (batch_ids ws)"
      "\<forall>l \<in> set (leaving_runs t). r_id d \<notin> set (l_batch l)"
      using ok Cons Put by (auto simp: timers_ok_def works_ok_def batches_ok_def)
    then show ?thesis using timers_ok_put_done [OF tl(1), of d e err cb] tl(2) Put by simp
  next
    case (Del tid k cb)
    then show ?thesis using timers_ok_del_done [OF tl(1)] tl(2) by simp
  next
    case (Batch ids n)
    then have "set ids \<inter> set (dkeys (recs ?t)) = {}" using tl(2) by auto
    from timers_ok_unstore [OF tl(1) this] tl(1) show ?thesis
      using Batch by (simp add: batch_done_def disconnect_def Let_def split: option.split)
  next
    case (Closing cb)
    then show ?thesis using tl(1) by (simp add: closing_done_def)
  qed
  then show ?thesis using Cons by (simp add: io_turn_def)
qed (use io in simp)

lemma timers_ok_immediate_turn:
  assumes ok: "timers_ok now t"
    and idle: "\<And>tid b cb rest. immediate t = Removed tid (A_update b) cb None # rest \<Longrightarrow>
      idle_id t tid"
  shows "timers_ok now (immediate_turn now t)"
proof (cases "immediate t")
  case (Cons i rest)
  let ?t = "t\<lparr>immediate := rest\<rparr>"
  have same: "work_ok now ?t w = work_ok now t w" for w by (cases w) (simp_all add: put_ok_def)
  have t: "timers_ok now ?t" and i: "immediate_ok now i"
    using ok Cons by (simp_all add: timers_ok_def recs_ok_def rec_ok_def one_handle_def
        armed_ok_def works_ok_def batches_ok_def durable_def same)
  have "idle_id ?t tid" if "i = Removed tid (A_update b) cb None" for tid b cb
    using idle that Cons by (simp add: idle_id_def)
  then have "timers_ok now (immediate_run now i ?t)"
    using t i by (cases i) (auto intro: timers_ok_after_remove)
  then show ?thesis using Cons by (simp add: immediate_turn_def)
qed (simp add: immediate_turn_def ok)

lemma timers_ok_fire:
  assumes ok: "timers_ok now t"
  shows "timers_ok now (fire now' a t)"
proof -
  have same: "work_ok now (t\<lparr>armed := as\<rparr>) w = work_ok now t w" for w as
    by (cases w) (simp_all add: put_ok_def)
  have "timers_ok now (t\<lparr>armed := [b \<leftarrow> armed t. a_handle b \<noteq> a_handle a]\<rparr>)"
    using ok by (auto simp: timers_ok_def recs_ok_def rec_ok_def one_handle_def armed_ok_def
        works_ok_def batches_ok_def durable_def same distinct_map_filter)
  then show ?thesis unfolding fire_def
    by (subst timers_ok_cong [where t = "t\<lparr>armed := [b \<leftarrow> armed t. a_handle b \<noteq> a_handle a]\<rparr>"])
      simp_all
qed

lemma rebalance_eq:
  assumes ok: "timers_ok now t" and some: "recs t \<noteq> []"
  shows "rebalance owns t =
    (let lost = [kr \<leftarrow> recs t. \<not> owns (fst kr)]
     in (startIO (Batch (map fst lost) None)
           ((keep owns t)\<lparr>published := published t @ Ev_node REBALANCE # map (Ev_evict \<circ> fst) lost\<rparr>),
         map (handed \<circ> snd) lost))"
  using rebalance_run_keep [of now "publish (Ev_node REBALANCE) t" owns] ok some
  by (simp add: rebalance_def Let_def)
    (simp add: publish_def keep_def clear_all_def Let_def)

lemma timers_ok_rebalance:
  assumes ok: "timers_ok now t"
  shows "timers_ok now (fst (rebalance owns t))"
proof (cases "recs t = []")
  case False
  let ?k = "(keep owns t)\<lparr>published := published t @
    Ev_node REBALANCE # map (Ev_evict \<circ> fst) [kr \<leftarrow> recs t. \<not> owns (fst kr)]\<rparr>"
  have "timers_ok now ?k"
    by (subst timers_ok_cong [where t = "keep owns t"]) (simp_all add: timers_ok_keep [OF ok])
  moreover have "set (map fst [kr \<leftarrow> recs t. \<not> owns (fst kr)]) \<inter> set (dkeys (recs ?k)) = {}"
    by auto
  moreover have "set (map fst [kr \<leftarrow> recs t. \<not> owns (fst kr)]) \<inter> set (put_ids (io ?k)) = {}"
    using put_ids_new [OF ok] by fastforce
  ultimately show ?thesis
    using False by (simp add: rebalance_eq [OF ok False] Let_def timers_ok_startIO_Batch)
qed (simp add: rebalance_def ok)

lemma shutdown_eq:
  assumes ok: "timers_ok now t" and some: "recs t \<noteq> []"
  shows "shutdown cb t =
    (keep (\<lambda>k. False) t)\<lparr>
       sid := None, published := published t @ [Ev_node PURGE],
       requested := requested t @ map (\<lambda>(i, r). (handed r)\<lparr>b_count := Some (Suc i)\<rparr>)
         (List.enumerate 0 (map snd (recs t))),
       leaving_runs := leaving_runs t @ [\<lparr>l_acks = 0, l_size = length (recs t),
         l_batch = dkeys (recs t), l_cb = cb\<rparr>]\<rparr>"
proof -
  have "r_id (snd kr) = fst kr" if "kr \<in> set (recs t)" for kr
    using ok that by (auto simp: timers_ok_def recs_ok_def rec_ok_def dest!: bspec)
  then have "map (\<lambda>kr. r_id (snd kr)) (recs t) = dkeys (recs t)" by simp
  then show ?thesis
    using some by (simp add: shutdown_def shutdown_run_eq Let_def publish_def keep_def
        clear_all_def comp_def)
qed

lemma timers_ok_shutdown:
  assumes ok: "timers_ok now t"
  shows "timers_ok now (shutdown cb t)"
proof (cases "recs t = []")
  case True
  then show ?thesis using ok by (simp add: shutdown_def disconnect_def)
next
  case False
  let ?ls = "leaving_runs t @ [\<lparr>l_acks = 0, l_size = length (recs t), l_batch = dkeys (recs t), l_cb = cb\<rparr>]"
  have kept: "timers_ok now (keep (\<lambda>k. False) t)" by (rule timers_ok_keep [OF ok])
  have same: "work_ok now (u\<lparr>leaving_runs := ls\<rparr>) w = work_ok now u w" for u :: timers and w ls
    by (cases w) (simp_all add: put_ok_def)
  have "timers_ok now ((keep (\<lambda>k. False) t)\<lparr>leaving_runs := ?ls\<rparr>)"
    using kept put_ids_new [OF ok]
    by (auto simp: timers_ok_def recs_ok_def rec_ok_def one_handle_def armed_ok_def works_ok_def
        batches_ok_def durable_def same)
  then show ?thesis
    by (subst shutdown_eq [OF ok False], subst timers_ok_cong
        [where t = "(keep (\<lambda>k. False) t)\<lparr>leaving_runs := ?ls\<rparr>"])
      (simp_all add: keep_def clear_all_def Let_def)
qed

lemma timers_ok_leaving:
  assumes ok: "timers_ok now t" and sub: "l_batch ` set ls \<subseteq> l_batch ` set (leaving_runs t)"
  shows "timers_ok now (t\<lparr>leaving_runs := ls\<rparr>)"
proof -
  have same: "work_ok now (t\<lparr>leaving_runs := ls\<rparr>) w = work_ok now t w" for w
    by (cases w) (simp_all add: put_ok_def)
  have "\<forall>b \<in> l_batch ` set (leaving_runs t). \<forall>i \<in> set b.
      i \<notin> set (dkeys (recs t)) \<and> i \<notin> set (put_ids (io t))"
    using ok unfolding timers_ok_def batches_ok_def by blast
  then have "\<forall>b \<in> l_batch ` set ls. \<forall>i \<in> set b.
      i \<notin> set (dkeys (recs t)) \<and> i \<notin> set (put_ids (io t))"
    using sub by blast
  then have "batches_ok (t\<lparr>leaving_runs := ls\<rparr>)"
    using ok unfolding timers_ok_def batches_ok_def by simp
  then show ?thesis
    using ok by (simp add: timers_ok_def recs_ok_def rec_ok_def one_handle_def armed_ok_def
        works_ok_def durable_def same)
qed

lemma timers_ok_ack:
  assumes ok: "timers_ok now t" and i: "i < length (leaving_runs t)"
  shows "timers_ok now (ack i t)"
proof -
  let ?l = "leaving_runs t ! i"
  let ?rest = "take i (leaving_runs t) @ drop (Suc i) (leaving_runs t)"
  let ?upd = "(leaving_runs t)[i := ?l\<lparr>l_acks := Suc (l_acks ?l)\<rparr>]"
  have "set ?rest \<subseteq> set (leaving_runs t)" by (auto dest: in_set_takeD in_set_dropD)
  then have rest: "timers_ok now (t\<lparr>leaving_runs := ?rest\<rparr>)"
    by (intro timers_ok_leaving [OF ok] image_mono)
  have "l_batch ` set ?upd \<subseteq> l_batch ` set (leaving_runs t)"
  proof -
    have "set ?upd \<subseteq> insert (?l\<lparr>l_acks := Suc (l_acks ?l)\<rparr>) (set (leaving_runs t))"
      by (rule set_update_subset_insert)
    moreover have "?l \<in> set (leaving_runs t)" using i by simp
    ultimately show ?thesis by fastforce
  qed
  then have upd: "timers_ok now (t\<lparr>leaving_runs := ?upd\<rparr>)" by (rule timers_ok_leaving [OF ok])
  have "\<forall>j \<in> set (l_batch ?l). j \<notin> set (dkeys (recs t)) \<and> j \<notin> set (put_ids (io t))"
    using ok nth_mem [OF i] unfolding timers_ok_def batches_ok_def by blast
  then have "timers_ok now (startIO (Batch (l_batch ?l) (Some (l_cb ?l))) (t\<lparr>leaving_runs := ?rest\<rparr>))"
    by (intro timers_ok_startIO_Batch [OF rest]) auto
  then show ?thesis using upd by (simp add: ack_def Let_def)
qed

lemma create_put_ids:
  "set (put_ids (io (create now tid b cb t))) \<subseteq> insert tid (set (put_ids (io t)))"
  "leaving_runs (create now tid b cb t) = leaving_runs t"
  "transports (create now tid b cb t) = transports t" "recs (create now tid b cb t) = recs t"
  by (auto simp: create_def Let_def effect_defs split: option.split)

lemma timers_ok_recover_run:
  assumes "timers_ok now t" and "valid_stream now es" and "leaving_runs t = []"
    and "\<forall>e \<in> set es. fst e \<notin> set (put_ids (io t))"
  shows "timers_ok now (recover_run now es t)"
  using assms
proof (induction now es t rule: recover_run.induct)
  case (2 now key r es t)
  let ?t = "create now key (handed r) None t"
  have "timers_ok now ?t"
    using 2 by (intro timers_ok_create) (auto simp: valid_stream_def idle_id_def)
  moreover have "valid_stream now es" "leaving_runs ?t = []"
    using 2 by (simp_all add: valid_stream_def create_put_ids)
  moreover have "fst e \<notin> set (put_ids (io ?t))" if e: "e \<in> set es" for e
  proof -
    have "fst e \<in> fst ` set es" using e by simp
    then have "fst e \<noteq> key" using 2(3) by (auto simp: valid_stream_def)
    moreover have "fst e \<notin> set (put_ids (io t))" using 2(5) e by simp
    ultimately show ?thesis using create_put_ids(1) [of now key "handed r" None t] by blast
  qed
  ultimately show ?case using 2(1) by simp
qed simp

lemma timers_ok_new: "0 < now \<Longrightarrow> timers_ok now (new_timers nid ts st)"
  by (simp add: new_timers_def timers_ok_def recs_ok_def rec_ok_def one_handle_def armed_ok_def
      works_ok_def batches_ok_def durable_def)

lemma timers_ok_boot:
  "0 < now \<Longrightarrow> valid_stream now es \<Longrightarrow> timers_ok now (recover now es (new_timers nid ts st))"
  unfolding recover_def
  by (intro timers_ok_recover_run)
    (simp_all add: timers_ok_new, simp_all add: new_timers_def publish_def)

lemma timers_ok_run: "run True cbs now t \<Longrightarrow> timers_ok now t"
proof (induction rule: run.induct)
  case (boot now es nid ts st)
  then show ?case by (simp add: timers_ok_boot)
next
  case (immediate_turn cbs now t)
  show ?case
    by (rule timers_ok_immediate_turn [OF immediate_turn.IH]) (use immediate_turn(2) in blast)
qed (auto intro: timers_ok_tick timers_ok_create timers_ok_io_turn timers_ok_fire
      timers_ok_rebalance timers_ok_shutdown timers_ok_ack
      simp: kRemove_def recovered_def watch_def watched_def split: option.split)

section \<open>Consequences\<close>

text \<open>The record of an armed timeout.\<close>

lemma armed_owner:
  assumes "timers_ok now t" and "a \<in> set (armed t)"
  shows "\<exists>kr \<in> set (recs t). r_timer (snd kr) = Some (a_handle a) \<and> fst kr = x_id (a_call a)"
proof -
  obtain k r where "(k, r) \<in> set (recs t)" "arms a k r"
    using assms unfolding timers_ok_def armed_ok_def by blast
  then show ?thesis by (intro bexI [of _ "(k, r)"]) (simp_all add: arms_def call_of_def)
qed

lemma one_owner:
  assumes "timers_ok now t" and "kr \<in> set (recs t)" and "kr' \<in> set (recs t)"
    and "r_timer (snd kr) = r_timer (snd kr')"
  shows "fst kr = fst kr'"
proof -
  obtain k r k' r' where "kr = (k, r)" "kr' = (k', r')" by (cases kr, cases kr')
  then show ?thesis using assms unfolding timers_ok_def one_handle_def by simp blast
qed

end
