(* ===== verification/Timer_Properties.thy ===== *)
theory Timer_Properties
  imports Timer_Inv
begin

text \<open>The properties of the timers, with their witnesses.\<close>

section \<open>Sample values\<close>

definition web_hook :: body where
  "web_hook = \<lparr>b_timeout = 50, b_data = JStr ''x'',
     b_callback = \<lparr>cb_transport = ''http'', cb_method = ''post'', cb_uri = ''u''\<rparr>,
     b_created = None, b_id = None, b_count = None\<rparr>"

definition no_timers :: timers where
  "no_timers = recover 100 [] (new_timers ''n1'' [''http''] [])"

text \<open>One timer, created at 100 and stored at 103.\<close>

definition one_timer :: timers where
  "one_timer = io_turn 103 False 0 (create 100 ''k1'' web_hook (Some 0) no_timers)"

lemma run_no_timers: "run ord [] 100 no_timers"
  unfolding no_timers_def by (rule run.boot) (simp_all add: valid_stream_def)

lemma run_one_timer: "run True [Some 0] 103 one_timer"
  unfolding one_timer_def
proof (rule run.io_turn)
  have "run True [Some 0] 100 (create 100 ''k1'' web_hook (Some 0) no_timers)"
    by (rule run.create [OF run_no_timers]) code_simp
  then show "run True [Some 0] 103 (create 100 ''k1'' web_hook (Some 0) no_timers)"
    by (rule run.tick) simp
  show "0 < length (io (create 100 ''k1'' web_hook (Some 0) no_timers))" by code_simp
qed simp

section \<open>The invariant\<close>

text \<open>
  C1: in every orderly run an armed timeout belongs to a record of the map, calls what the
  record asks for and is not due before \<open>created + timeout\<close>; two timeouts never belong to one
  record; and every record is in the store as it was created.
\<close>

theorem timeouts_belong_to_records:
  assumes "run True cbs now t"
  shows "distinct (dkeys (recs t)) \<and> distinct (map a_handle (armed t)) \<and>
    (\<forall>a \<in> set (armed t). \<exists>k r. dget (recs t) k = Some r \<and> r_timer r = Some (a_handle a) \<and>
       a_call a = call_of k (r_payload r) \<and> r_created r + b_timeout (r_payload r) \<le> a_due a) \<and>
    (\<forall>k r. dget (recs t) k = Some r \<longrightarrow> dget (stored t) k = Some (r\<lparr>r_timer := None\<rparr>))"
proof -
  have ok: "timers_ok now t" by (rule timers_ok_run [OF assms])
  then have dist: "distinct (dkeys (recs t))" by (simp add: timers_ok_def recs_ok_def)
  have "\<exists>k r. dget (recs t) k = Some r \<and> arms a k r" if a: "a \<in> set (armed t)" for a
  proof -
    obtain k r where "(k, r) \<in> set (recs t)" "arms a k r"
      using ok a unfolding timers_ok_def armed_ok_def by blast
    then show ?thesis using dist by auto
  qed
  moreover have "dget (stored t) k = Some (r\<lparr>r_timer := None\<rparr>)" if "dget (recs t) k = Some r" for k r
    using ok map_of_SomeD [OF that] unfolding timers_ok_def durable_def by blast
  ultimately show ?thesis
    using ok dist by (simp add: timers_ok_def armed_ok_def arms_def)
qed

lemma timeouts_belong_to_records_witness:
  "map a_due (armed one_timer) = [153] \<and> distinct (dkeys (recs one_timer)) \<and>
   map_option r_created (dget (stored one_timer) ''k1'') = Some 100"
proof -
  have "distinct (dkeys (recs one_timer))"
    using timeouts_belong_to_records [OF run_one_timer] by simp
  moreover have "map a_due (armed one_timer) = [153]"
    "map_option r_created (dget (stored one_timer) ''k1'') = Some 100" by code_simp+
  ultimately show ?thesis by simp
qed

section \<open>Every request is answered once\<close>

text \<open>
  C2: whatever clients, event loop, store and ring do, in any order and with any errors of the
  store, a request's callback is called at most once; and when nothing new comes in, at most
  \<open>load t\<close> turns later every request has been answered exactly once.
\<close>

theorem requests_answered_once:
  assumes "run orderly cbs now t"
  shows "mset (map fst (answered t)) \<subseteq># sum_list (map opt_mset cbs) \<and>
    (\<exists>n \<le> load t. at_rest ((turn now ^^ n) t) \<and>
       mset (map fst (answered ((turn now ^^ n) t))) = sum_list (map opt_mset cbs))"
proof -
  note tok = tokens_run [OF assms]
  obtain n where n: "n \<le> load t" "load ((turn now ^^ n) t) = 0"
    using timer_loop.settles [OF leaving_ok_run [OF assms]] by blast
  then have rest: "at_rest ((turn now ^^ n) t)" by (simp add: load_0_iff)
  then have "mset (map fst (answered ((turn now ^^ n) t))) = sum_list (map opt_mset cbs)"
    by (simp only: answered_at_rest [OF rest] tokens_turns tok)
  moreover have "mset (map fst (answered t)) \<subseteq># sum_list (map opt_mset cbs)"
    by (simp add: tok [symmetric] tokens_def)
  ultimately show ?thesis using n rest by blast
qed

lemma requests_answered_once_witness:
  "\<exists>n \<le> 3. at_rest ((turn 103 ^^ n) (kRemove ''k1'' A_cancel (Some 7) one_timer)) \<and>
     mset (map fst (answered ((turn 103 ^^ n) (kRemove ''k1'' A_cancel (Some 7) one_timer)))) =
     {#7, 0#}"
proof -
  have "run True [Some 7, Some 0] 103 (kRemove ''k1'' A_cancel (Some 7) one_timer)"
    by (rule run.remove [OF run_one_timer]) code_simp
  moreover have "load (kRemove ''k1'' A_cancel (Some 7) one_timer) = 3" by code_simp
  ultimately show ?thesis using requests_answered_once by fastforce
qed

section \<open>Creation\<close>

text \<open>
  C15: a creation on a node at rest, with the turn that ends it: an unknown transport and an id in
  use are refused and change nothing else; a timer that lapsed before is executed at once and
  not kept; any other timer is stored and armed for \<open>created + timeout\<close>, or the next
  millisecond when that is now.
\<close>

theorem create_correct:
  assumes rest: "at_rest t" and body: "b_timeout b \<le> timeout_max" "created_of b now \<le> now"
  shows "(cb_transport (b_callback b) \<notin> set (transports t) \<longrightarrow>
      turn now (create now tid b (Some cb) t) = t\<lparr>answered := answered t @ [(cb, Failed ENOTRANSPORT)]\<rparr>) \<and>
    (cb_transport (b_callback b) \<in> set (transports t) \<and> dget (recs t) tid \<noteq> None \<longrightarrow>
      turn now (create now tid b (Some cb) t) = t\<lparr>answered := answered t @ [(cb, Failed EKEYEXISTS)]\<rparr>) \<and>
    (cb_transport (b_callback b) \<in> set (transports t) \<and> dget (recs t) tid = None \<and>
     created_of b now + b_timeout b < now \<longrightarrow>
      turn now (create now tid b (Some cb) t) = t\<lparr>answered := answered t @ [(cb, Created tid)],
        published := published t @ [Ev_exec tid (created_of b now) b now],
        started := started t @ [(now, call_of tid b)]\<rparr>) \<and>
    (cb_transport (b_callback b) \<in> set (transports t) \<and> dget (recs t) tid = None \<and>
     now \<le> created_of b now + b_timeout b \<longrightarrow>
      (let t' = turn now (create now tid b (Some cb) t);
           r = \<lparr>r_created = created_of b now, r_id = tid, r_payload = b, r_timer = None\<rparr>
       in t' = t\<lparr>answered := answered t @ [(cb, Created tid)],
            published := published t @ [Ev_created tid (created_of b now) b],
            stored := dset tid r (stored t),
            recs := recs t @ [(tid, r\<lparr>r_timer := Some (next_handle t)\<rparr>)],
            next_handle := Suc (next_handle t),
            armed := armed t @ [\<lparr>a_handle = next_handle t,
              a_due = max (created_of b now + b_timeout b) (now + 1),
              a_call = call_of tid b\<rparr>]\<rparr>))"
proof (intro conjI impI)
  assume "cb_transport (b_callback b) \<notin> set (transports t)"
  then show "turn now (create now tid b (Some cb) t) =
      t\<lparr>answered := answered t @ [(cb, Failed ENOTRANSPORT)]\<rparr>"
    using rest by (cases t) (simp add: turn_def create_def immediate_turn_def at_rest_def effect_defs)
next
  assume "cb_transport (b_callback b) \<in> set (transports t) \<and> dget (recs t) tid \<noteq> None"
  then show "turn now (create now tid b (Some cb) t) =
      t\<lparr>answered := answered t @ [(cb, Failed EKEYEXISTS)]\<rparr>"
    using rest by (cases t) (auto simp: turn_def create_def immediate_turn_def at_rest_def effect_defs)
next
  assume "cb_transport (b_callback b) \<in> set (transports t) \<and> dget (recs t) tid = None \<and>
     created_of b now + b_timeout b < now"
  then show "turn now (create now tid b (Some cb) t) = t\<lparr>answered := answered t @ [(cb, Created tid)],
        published := published t @ [Ev_exec tid (created_of b now) b now],
        started := started t @ [(now, call_of tid b)]\<rparr>"
    using rest by (cases t) (simp add: turn_def create_def immediate_turn_def at_rest_def effect_defs)
next
  assume c: "cb_transport (b_callback b) \<in> set (transports t) \<and> dget (recs t) tid = None \<and>
     now \<le> created_of b now + b_timeout b"
  then have new: "tid \<notin> set (dkeys (recs t))" by (simp add: map_of_eq_None_iff)
  have "now + node_delay (b_timeout b - (now - created_of b now)) =
      max (created_of b now + b_timeout b) (now + 1)"
    using c body by (auto simp: node_delay_def)
  then show "let t' = turn now (create now tid b (Some cb) t);
           r = \<lparr>r_created = created_of b now, r_id = tid, r_payload = b, r_timer = None\<rparr>
       in t' = t\<lparr>answered := answered t @ [(cb, Created tid)],
            published := published t @ [Ev_created tid (created_of b now) b],
            stored := dset tid r (stored t),
            recs := recs t @ [(tid, r\<lparr>r_timer := Some (next_handle t)\<rparr>)],
            next_handle := Suc (next_handle t),
            armed := armed t @ [\<lparr>a_handle = next_handle t,
              a_due = max (created_of b now + b_timeout b) (now + 1),
              a_call = call_of tid b\<rparr>]\<rparr>"
    using rest c new
    by (cases t) (simp add: turn_def create_def io_turn_def put_done_def Let_def at_rest_def
        effect_defs dset_new)
qed

lemma create_correct_witness:
  "answered (turn 200 (create 200 ''k2'' (web_hook\<lparr>b_created := Some 170\<rparr>) (Some 9) one_timer)) =
     [(0, Created ''k1''), (9, Created ''k2'')] \<and>
   map a_due (armed (turn 200 (create 200 ''k2'' (web_hook\<lparr>b_created := Some 170\<rparr>) (Some 9)
     one_timer))) = [153, 220]"
proof -
  have rest: "at_rest one_timer" by code_simp
  have "b_timeout (web_hook\<lparr>b_created := Some 170\<rparr>) \<le> timeout_max"
    "created_of (web_hook\<lparr>b_created := Some 170\<rparr>) 200 \<le> 200" by code_simp+
  from create_correct [OF rest this, of "''k2''" 9] show ?thesis by code_simp
qed

text \<open>
  Runs that are not orderly lose this: two creations of one id that overlap both pass the test
  for the id, the second record replaces the first, and the first timeout stays armed with no
  record to clear it by.
\<close>

lemma overlapping_creations:
  "let t = create 100 ''k1'' web_hook (Some 2) (create 100 ''k1'' web_hook (Some 1) no_timers);
       t' = io_turn 101 False 0 (io_turn 101 False 0 t);
       gone = turn 101 (turn 101 (cancel ''k1'' (Some 3) t'))
   in length (recs t') = 1 \<and> length (armed t') = 2 \<and> recs gone = [] \<and>
      map a_due (armed gone) = [151]"
  by code_simp

section \<open>Removal\<close>

text \<open>The node without the timer of an id.\<close>

definition without :: "string \<Rightarrow> timers \<Rightarrow> timers" where
  "without tid t = (keep (\<lambda>k. k \<noteq> tid) t)\<lparr>stored := ddel tid (stored t)\<rparr>"

lemma dget_without:
  "dget (recs (without tid t)) k = (if k = tid then None else dget (recs t) k)"
  "dget (stored (without tid t)) k = (if k = tid then None else dget (stored t) k)"
  by (simp_all add: without_def ddel_filter [symmetric] dict.get_del)

lemma remove_two_turns:
  assumes ok: "timers_ok now t" and rest: "at_rest t"
  shows "turn now (turn now (kRemove tid k cb t)) =
    (case dget (recs t) tid of
       None \<Rightarrow> after_remove now tid k cb (Some ENOENT) (t\<lparr>stored := ddel tid (stored t)\<rparr>)
     | Some r \<Rightarrow> after_remove now tid k cb None (without tid t))"
proof (cases "dget (recs t) tid")
  case None
  then show ?thesis
    using rest by (simp add: kRemove_def turn_startIO del_done_def Let_def)
      (simp add: turn_setImmediate at_rest_def)
next
  case (Some r)
  have "(clearTimeout (r_timer r) (t\<lparr>stored := ddel tid (stored t)\<rparr>))\<lparr>recs := ddel tid (recs t)\<rparr> =
      without tid t"
    unfolding without_def by (subst clear_one [OF ok Some, symmetric]) (simp add: clearTimeout_def)
  then have "del_done now False tid k cb t = setImmediate (Removed tid k cb None) (without tid t)"
    using Some by (simp add: del_done_def Let_def) (simp add: clearTimeout_def)
  moreover have "at_rest (without tid t)" using rest by (simp add: without_def at_rest_def)
  ultimately show ?thesis
    using Some rest by (simp add: kRemove_def turn_startIO turn_setImmediate)
qed

text \<open>
  C16: removing a timer on a node at rest. An unknown id is answered with ENOENT. A known one
  loses its record, its stored copy and its timeout, no other timer is touched, and a success,
  failure or cancel event is published; an update then creates the timer anew, so with a body
  \<open>create\<close> refuses (an unknown transport) the old timer is gone all the same.
\<close>

theorem removal_correct:
  assumes run: "run True cbs now t" and rest: "at_rest t"
  shows "(dget (recs t) tid = None \<longrightarrow>
      turn now (turn now (kRemove tid k (Some cb) t)) =
        t\<lparr>stored := ddel tid (stored t), answered := answered t @ [(cb, Failed ENOENT)]\<rparr>) \<and>
    (dget (recs t) tid \<noteq> None \<longrightarrow>
      turn now (turn now (cancel tid (Some cb) t)) =
        nodeback (Some cb) Done (publish (Ev_cancelled tid) (without tid t)) \<and>
      turn now (turn now (success tid (Some cb) t)) =
        nodeback (Some cb) Done (publish (Ev_success tid) (without tid t)) \<and>
      turn now (turn now (failure tid e (Some cb) t)) =
        nodeback (Some cb) Done (publish (Ev_fail tid e) (without tid t)) \<and>
      turn now (turn now (timer_update tid b (Some cb) t)) = create now tid b (Some cb) (without tid t)) \<and>
    dget (recs (without tid t)) tid = None \<and> dget (stored (without tid t)) tid = None \<and>
    (\<forall>a \<in> set (armed (without tid t)). x_id (a_call a) \<noteq> tid) \<and>
    (\<forall>a \<in> set (armed t). x_id (a_call a) \<noteq> tid \<longrightarrow> a \<in> set (armed (without tid t))) \<and>
    (\<forall>k'. k' \<noteq> tid \<longrightarrow> dget (recs (without tid t)) k' = dget (recs t) k')"
proof -
  have ok: "timers_ok now t" by (rule timers_ok_run [OF run])
  note owner = armed_owner [OF ok] and one = one_owner [OF ok]
  have gone: "x_id (a_call a) \<noteq> tid" if "a \<in> set (armed (without tid t))" for a
    using that owner by (fastforce simp: without_def armed_keep)
  have stays: "a \<in> set (armed (without tid t))"
    if a: "a \<in> set (armed t)" and other: "x_id (a_call a) \<noteq> tid" for a
  proof -
    obtain kr where kr: "kr \<in> set (recs t)" "r_timer (snd kr) = Some (a_handle a)" "fst kr \<noteq> tid"
      using owner [OF a] other by metis
    have "\<forall>kr' \<in> set (recs t). r_timer (snd kr') = Some (a_handle a) \<longrightarrow> fst kr' \<noteq> tid"
      using one [OF _ kr(1)] kr(2, 3) by metis
    moreover have "armed (without tid t) = armed (keep (\<lambda>k. k \<noteq> tid) t)"
      by (simp add: without_def)
    ultimately show ?thesis using a by (simp only: armed_keep set_filter mem_Collect_eq simp_thms)
  qed
  show ?thesis
    using remove_two_turns [OF ok rest] gone stays
    by (cases "dget (recs t) tid") (simp_all add: cancel_def success_def failure_def timer_update_def
        after_remove_def nodeback_def dget_without)
qed

lemma removal_correct_witness:
  "turn 103 (turn 103 (kRemove ''zz'' A_cancel (Some 5) one_timer)) =
     one_timer\<lparr>stored := ddel ''zz'' (stored one_timer),
       answered := answered one_timer @ [(5, Failed ENOENT)]\<rparr> \<and>
   turn 103 (turn 103 (timer_update ''k1'' web_hook (Some 6) one_timer)) =
     create 103 ''k1'' web_hook (Some 6) (without ''k1'' one_timer)"
proof -
  have rest: "at_rest one_timer" by code_simp
  have "dget (recs one_timer) ''zz'' = None" "dget (recs one_timer) ''k1'' \<noteq> None" by code_simp+
  then show ?thesis
    using removal_correct [OF run_one_timer rest, of "''zz''" A_cancel 5]
      removal_correct [OF run_one_timer rest, of "''k1''" A_cancel 6 "[]" web_hook] by blast
qed

section \<open>Rebalancing\<close>

text \<open>
  C5: \<open>rebalance\<close> keeps exactly the timers the node owns, with their timeouts, hands every other
  timer over exactly once, in the order of the map, clears its timeout and deletes it from
  the store in the batch it leaves behind.
\<close>

theorem rebalance_correct:
  assumes run: "run True cbs now t"
  shows "recs (fst (rebalance owns t)) = [kr \<leftarrow> recs t. owns (fst kr)] \<and>
    snd (rebalance owns t) = map (handed \<circ> snd) [kr \<leftarrow> recs t. \<not> owns (fst kr)] \<and>
    map b_id (snd (rebalance owns t)) = map Some [k \<leftarrow> dkeys (recs t). \<not> owns k] \<and>
    set (armed (fst (rebalance owns t))) = {a \<in> set (armed t). owns (x_id (a_call a))} \<and>
    (recs t \<noteq> [] \<longrightarrow> io (fst (rebalance owns t)) =
       io t @ [Batch [k \<leftarrow> dkeys (recs t). \<not> owns k] None])"
proof -
  have ok: "timers_ok now t" by (rule timers_ok_run [OF run])
  have ids: "r_id (snd kr) = fst kr" if "kr \<in> set (recs t)" for kr
    using ok that by (auto simp: timers_ok_def recs_ok_def rec_ok_def dest!: bspec)
  note owner = armed_owner [OF ok] and one = one_owner [OF ok]
  have armed: "set (armed (keep owns t)) = {a \<in> set (armed t). owns (x_id (a_call a))}"
    unfolding armed_keep set_filter
  proof (intro Collect_cong conj_cong refl)
    fix a assume "a \<in> set (armed t)"
    then obtain kr where "kr \<in> set (recs t)" "r_timer (snd kr) = Some (a_handle a)"
      "fst kr = x_id (a_call a)"
      using owner by blast
    then show "(\<forall>kr \<in> set (recs t). r_timer (snd kr) = Some (a_handle a) \<longrightarrow> owns (fst kr)) \<longleftrightarrow>
        owns (x_id (a_call a))"
      using one by metis
  qed
  show ?thesis
  proof (cases "recs t = []")
    case True
    then have "armed t = []" using owner by (cases "armed t") fastforce+
    then show ?thesis using True by (simp add: rebalance_def)
  next
    case False
    have "map (b_id \<circ> (handed \<circ> snd)) [kr \<leftarrow> recs t. \<not> owns (fst kr)] =
        map Some (map fst [kr \<leftarrow> recs t. \<not> owns (fst kr)])"
      by (simp add: handed_def ids)
    then show ?thesis
      using armed by (simp add: rebalance_eq [OF ok False] Let_def filter_map comp_def)
  qed
qed

lemma rebalance_correct_witness:
  "recs (fst (rebalance (\<lambda>k. k = ''k2'') one_timer)) = [] \<and>
   map b_id (snd (rebalance (\<lambda>k. k = ''k2'') one_timer)) = [Some ''k1'']"
proof -
  have "[kr \<leftarrow> recs one_timer. fst kr = ''k2''] = []"
    "[k \<leftarrow> dkeys (recs one_timer). k \<noteq> ''k2''] = [''k1'']" by code_simp+
  then show ?thesis
    using rebalance_correct [OF run_one_timer, of "\<lambda>k. k = ''k2''", THEN conjunct1]
      rebalance_correct [OF run_one_timer, of "\<lambda>k. k = ''k2''",
        THEN conjunct2, THEN conjunct2, THEN conjunct1]
    by simp
qed

section \<open>From node to node\<close>

lemma call_of_handed [simp]: "call_of k (handed r) = call_of k (r_payload r)"
  by (simp add: call_of_def handed_def)

lemma handed_fields [simp]:
  "b_timeout (handed r) = b_timeout (r_payload r)" "b_callback (handed r) = b_callback (r_payload r)"
  "b_created (handed r) = Some (r_created r)"
  by (simp_all add: handed_def)

lemma created_handed: "r_created r \<noteq> 0 \<Longrightarrow> created_of (handed r) now = r_created r"
  by (simp add: created_of_def)

text \<open>
  C4: a timer that moves keeps its deadline. When a node gives a timer up, the body it hands over
  makes the receiving node call the same callback, at the instant the timer was created for,
  however often it moved before: at once if that instant has passed, and otherwise by a timeout
  for \<open>created + timeout\<close> (the next millisecond if that is now).
\<close>

theorem handover_keeps_deadline:
  assumes run: "run True cbs now t" and r: "dget (recs t) k = Some r" and lost: "\<not> owns k"
    and rest: "at_rest u" and new: "dget (recs u) k = None"
    and known: "set (transports t) \<subseteq> set (transports u)"
    and valid: "b_timeout (r_payload r) \<le> timeout_max" "r_created r \<le> now'"
  shows "handed r \<in> set (snd (rebalance owns t)) \<and>
    (\<forall>a \<in> set (armed (fst (rebalance owns t))). x_id (a_call a) \<noteq> k) \<and>
    (let u' = turn now' (create now' k (handed r) (Some cb) u)
     in answered u' = answered u @ [(cb, Created k)] \<and>
        (if r_created r + b_timeout (r_payload r) < now'
         then started u' = started u @ [(now', call_of k (r_payload r))] \<and> armed u' = armed u
         else started u' = started u \<and>
           armed u' = armed u @ [\<lparr>a_handle = next_handle u,
             a_due = max (r_created r + b_timeout (r_payload r)) (now' + 1),
             a_call = call_of k (r_payload r)\<rparr>]))"
proof -
  have ok: "timers_ok now t" by (rule timers_ok_run [OF run])
  have kr: "(k, r) \<in> set (recs t)" using r by (rule map_of_SomeD)
  then have "rec_ok t k r" using ok unfolding timers_ok_def recs_ok_def by blast
  then have created: "created_of (handed r) now' = r_created r"
    and known': "cb_transport (b_callback (handed r)) \<in> set (transports u)"
    using known by (auto simp: rec_ok_def created_handed)
  have "handed r \<in> (\<lambda>kr. handed (snd kr)) ` set [kr \<leftarrow> recs t. \<not> owns (fst kr)]"
    using kr lost by (intro image_eqI [of _ _ "(k, r)"]) simp_all
  then have given: "handed r \<in> set (snd (rebalance owns t))"
    using rebalance_eq [OF ok] kr by (cases "recs t") (simp_all add: Let_def comp_def)
  have gone: "x_id (a_call a) \<noteq> k" if "a \<in> set (armed (fst (rebalance owns t)))" for a
  proof -
    have "recs t \<noteq> []" using kr by auto
    then have a: "a \<in> set (armed (keep owns t))"
      using that by (simp add: rebalance_eq [OF ok] Let_def)
    then have "a \<in> set (armed t)" by (simp add: keep_def clear_all_def Let_def)
    then obtain kr where "kr \<in> set (recs t)" "r_timer (snd kr) = Some (a_handle a)"
      "fst kr = x_id (a_call a)"
      using armed_owner [OF ok] by blast
    moreover from this a have "owns (fst kr)" unfolding armed_keep set_filter by blast
    ultimately show ?thesis using lost by auto
  qed
  show ?thesis
    using given gone known' new valid created rest dset_new
    by (simp add: Let_def create_def turn_setImmediate turn_startIO put_done_def node_delay_def
        effect_defs not_less at_rest_def turn_def immediate_turn_def io_turn_def)
qed

lemma handover_keeps_deadline_witness:
  "map b_created (snd (rebalance (\<lambda>k. False) one_timer)) = [Some 100] \<and>
   map a_due (armed (turn 120 (create 120 ''k1''
     (handed (the (dget (recs one_timer) ''k1''))) (Some 3) no_timers))) = [150]"
proof -
  obtain r where r: "dget (recs one_timer) ''k1'' = Some r" "r_created r = 100"
    "b_timeout (r_payload r) = 50"
  proof -
    have "dget (recs one_timer) ''k1'' = Some \<lparr>r_created = 100, r_id = ''k1'',
        r_payload = web_hook, r_timer = Some 0\<rparr>" by code_simp
    then show thesis by (rule that) (simp_all add: web_hook_def)
  qed
  have "at_rest no_timers" "dget (recs no_timers) ''k1'' = None"
    "set (transports one_timer) \<subseteq> set (transports no_timers)" by code_simp+
  from handover_keeps_deadline [OF run_one_timer r(1) _ this, of "\<lambda>k. False" 120 3]
  have "armed (turn 120 (create 120 ''k1'' (handed r) (Some 3) no_timers)) =
      armed no_timers @ [\<lparr>a_handle = next_handle no_timers, a_due = 150,
        a_call = call_of ''k1'' (r_payload r)\<rparr>]"
    using r by (simp add: Let_def timeout_max_def)
  moreover have "armed no_timers = []"
    "map b_created (snd (rebalance (\<lambda>k. False) one_timer)) = [Some 100]" by code_simp+
  ultimately show ?thesis using r(1) by simp
qed

section \<open>Shutting down\<close>

lemma shutdown_turns:
  assumes "io s = []" and "immediate s = []" and "m < l_size l" and "l_acks l = 0"
  shows "(turn now ^^ m) (s\<lparr>leaving_runs := [l]\<rparr>) = s\<lparr>leaving_runs := [l\<lparr>l_acks := m\<rparr>]\<rparr>"
  using assms
proof (induction m)
  case 0
  then have "l\<lparr>l_acks := 0\<rparr> = l" by (cases l) simp
  then show ?case by simp
qed (simp add: turn_def ack_def Let_def)

text \<open>
  C17: a node that shuts down asks the ring, once for each of its timers and numbered from 1, to
  take the timer over; no timeout stays armed. Its callback is called after the last reply:
  before it, the records have been deleted from the store, and the store was closed.
\<close>

theorem shutdown_correct:
  assumes run: "run True cbs now t" and rest: "at_rest t" and some: "recs t \<noteq> []"
  shows "let s = shutdown (Some cb) t; n = length (recs t); fin = (turn now ^^ (n + 2)) s in
    recs s = [] \<and> armed s = [] \<and>
    map b_id (requested s) = map b_id (requested t) @ map Some (dkeys (recs t)) \<and>
    map b_count (drop (length (requested t)) (requested s)) = map Some [1..<Suc n] \<and>
    (\<forall>m < n + 2. answered ((turn now ^^ m) s) = answered t) \<and>
    answered fin = answered t @ [(cb, Done)] \<and> storage_closed fin \<and> at_rest fin \<and>
    (\<forall>k \<in> set (dkeys (recs t)). dget (stored fin) k = None)"
proof -
  have ok: "timers_ok now t" by (rule timers_ok_run [OF run])
  define n where "n = length (recs t)"
  define s where "s = shutdown (Some cb) t"
  define l where "l = \<lparr>l_acks = 0, l_size = n, l_batch = dkeys (recs t), l_cb = Some cb\<rparr>"
  define q where "q = s\<lparr>leaving_runs := []\<rparr>"
  note seq = shutdown_eq [OF ok some, of "Some cb"]
  have n0: "0 < n" using some by (simp add: n_def)
  have s: "s = q\<lparr>leaving_runs := [l]\<rparr>"
    using rest by (simp add: q_def s_def seq l_def n_def at_rest_def)
  have q: "at_rest q" "answered q = answered t" "stored q = stored t"
    using rest by (simp_all add: q_def s_def seq at_rest_def)
  have early: "(turn now ^^ m) s = q\<lparr>leaving_runs := [l\<lparr>l_acks := m\<rparr>]\<rparr>" if "m < n" for m
    using that q(1) unfolding s by (intro shutdown_turns) (simp_all add: l_def at_rest_def)
  obtain n' where n': "n = Suc n'" using n0 by (cases n) auto
  have at_n: "(turn now ^^ n) s = startIO (Batch (dkeys (recs t)) (Some (Some cb))) q"
    using early [of n'] q(1)
    by (simp add: n' turn_def ack_def Let_def at_rest_def) (simp add: l_def n' q_def)
  have at_n1: "(turn now ^^ Suc n) s =
      disconnect (Some cb) (q\<lparr>stored := fold ddel (dkeys (recs t)) (stored t)\<rparr>)"
    using q by (simp add: at_n turn_startIO batch_done_def)
  have at_n2: "(turn now ^^ (n + 2)) s = closing_done False (Some cb)
      (q\<lparr>stored := fold ddel (dkeys (recs t)) (stored t), storage_closed := True\<rparr>)"
    using q at_n1 by (simp add: disconnect_def turn_startIO at_rest_def)
  have "answered ((turn now ^^ m) s) = answered t" if mn: "m < n + 2" for m
  proof -
    consider "m < n" | "m = n" | "m = Suc n" using mn by linarith
    then show ?thesis
      by cases (use early at_n at_n1 q in \<open>simp_all add: startIO_def disconnect_def\<close>)
  qed
  moreover have "armed s = []"
  proof -
    have "armed (keep (\<lambda>k. False) t) = []"
      using armed_owner [OF ok] by (simp add: armed_keep filter_empty_conv) blast
    then show ?thesis by (simp add: s_def seq)
  qed
  moreover have "map b_id (requested s) = map b_id (requested t) @ map Some (dkeys (recs t))"
  proof -
    have "r_id r = k" if "(k, r) \<in> set (recs t)" for k r
      using ok that unfolding timers_ok_def recs_ok_def rec_ok_def by blast
    then have "map (Some \<circ> r_id) (map snd (recs t)) = map Some (dkeys (recs t))"
      by (auto simp: comp_def)
    moreover have "map (b_id \<circ> (\<lambda>(i, r). (handed r)\<lparr>b_count := Some (Suc i)\<rparr>)) (List.enumerate 0 rs) =
        map (Some \<circ> r_id) rs" for rs :: "timer_rec list"
      by (rule nth_equalityI) (simp_all add: nth_enumerate_eq handed_def)
    ultimately show ?thesis by (simp add: s_def seq)
  qed
  moreover have "map b_count (drop (length (requested t)) (requested s)) = map Some [1..<Suc n]"
    by (rule nth_equalityI) (simp_all add: s_def seq n_def nth_enumerate_eq del: upt_Suc)
  moreover have "recs s = []" by (simp add: s_def seq)
  ultimately show ?thesis
    using at_n2 q
    by (simp add: Let_def s_def [symmetric] n_def [symmetric] closing_done_def nodeback_def
        publish_def at_rest_def dict.get_fold_del del: funpow.simps)
qed

lemma shutdown_correct_witness:
  "map b_id (requested (shutdown (Some 4) one_timer)) = [Some ''k1''] \<and>
   answered ((turn 103 ^^ 3) (shutdown (Some 4) one_timer)) = [(0, Created ''k1''), (4, Done)]"
proof -
  have "at_rest one_timer" "recs one_timer \<noteq> []" by code_simp+
  from shutdown_correct [OF run_one_timer this, of 4]
  have "map b_id (requested (shutdown (Some 4) one_timer)) =
      map b_id (requested one_timer) @ map Some (dkeys (recs one_timer))"
    "answered ((turn 103 ^^ (length (recs one_timer) + 2)) (shutdown (Some 4) one_timer)) =
      answered one_timer @ [(4, Done)]"
    unfolding Let_def by blast+
  moreover have "length (recs one_timer) = 1" "dkeys (recs one_timer) = [''k1'']"
    "requested one_timer = []" "answered one_timer = [(0, Created ''k1'')]" by code_simp+
  ultimately show ?thesis by (simp add: numeral_eq_Suc)
qed

section \<open>Recovery\<close>

text \<open>The store ends all its work without error.\<close>

definition io_all :: "int \<Rightarrow> timers \<Rightarrow> timers" where
  "io_all now t = (io_turn now False 0 ^^ length (io t)) t"

lemma put_done_fields [simp]:
  "io (put_done now False d e cb t) = io t"
  "immediate (put_done now False d e cb t) = immediate t"
  "recs (put_done now False d e cb t) = dset (r_id d) (d\<lparr>r_timer := Some (next_handle t)\<rparr>) (recs t)"
  "armed (put_done now False d e cb t) = armed t @ [\<lparr>a_handle = next_handle t,
     a_due = now + node_delay (b_timeout (r_payload d) - e), a_call = call_of (r_id d) (r_payload d)\<rparr>]"
  by (simp_all add: put_done_def Let_def effect_defs split: option.split)

lemma io_all_Put:
  assumes "io t = Put d e cb # ws"
  shows "io_all now t = io_all now (put_done now False d e cb (t\<lparr>io := ws\<rparr>))"
  using assms by (simp add: io_all_def funpow_swap1 io_turn_def)

lemma io_all_keeps:
  assumes "\<forall>w \<in> set ws. \<exists>d e cb. w = Put d e cb" and "io t = ws"
  shows "immediate (io_all now t) = immediate t \<and> set (armed t) \<subseteq> set (armed (io_all now t)) \<and>
    (\<forall>k. k \<notin> set (put_ids ws) \<longrightarrow> dget (recs (io_all now t)) k = dget (recs t) k)"
  using assms
proof (induction ws arbitrary: t)
  case Nil
  then show ?case by (simp add: io_all_def)
next
  case (Cons w ws)
  then obtain d e cb where w: "w = Put d e cb" by auto
  have "io (put_done now False d e cb (t\<lparr>io := ws\<rparr>)) = ws" by simp
  from Cons.IH [OF _ this] show ?case
    using Cons.prems w io_all_Put [of t d e cb ws now] by (auto simp: dict.get_put)
qed

lemma io_all_puts:
  assumes "\<forall>w \<in> set ws. \<exists>d e cb. w = Put d e cb" and "io t = ws" and "distinct (put_ids ws)"
    and "Put d e cb \<in> set ws"
  shows "\<exists>h. dget (recs (io_all now t)) (r_id d) = Some (d\<lparr>r_timer := Some h\<rparr>) \<and>
    \<lparr>a_handle = h, a_due = now + node_delay (b_timeout (r_payload d) - e),
      a_call = call_of (r_id d) (r_payload d)\<rparr> \<in> set (armed (io_all now t))"
  using assms
proof (induction ws arbitrary: t)
  case (Cons w ws)
  then obtain d' e' cb' where w: "w = Put d' e' cb'" by auto
  let ?t = "put_done now False d' e' cb' (t\<lparr>io := ws\<rparr>)"
  have io: "io ?t = ws" by simp
  have next_t: "io_all now t = io_all now ?t" using Cons.prems(2) w by (simp add: io_all_Put)
  show ?case
  proof (cases "Put d e cb \<in> set ws")
    case True
    then show ?thesis using Cons.IH [OF _ io] Cons.prems w next_t by simp
  next
    case False
    then have "d = d'" "e = e'" "r_id d \<notin> set (put_ids ws)" using Cons.prems w by auto
    then show ?thesis
      using io_all_keeps [OF _ io, of now] Cons.prems(1) next_t by (auto simp: dict.get_put)
  qed
qed simp

lemma recover_run_mono:
  "set (io t) \<subseteq> set (io (recover_run now es t)) \<and>
   set (immediate t) \<subseteq> set (immediate (recover_run now es t)) \<and> recs (recover_run now es t) = recs t"
proof (induction now es t rule: recover_run.induct)
  case (2 now key r es t)
  have "set (io t) \<subseteq> set (io (create now key (handed r) None t))"
    "set (immediate t) \<subseteq> set (immediate (create now key (handed r) None t))"
    by (auto simp: create_def Let_def effect_defs)
  then show ?case using 2 by (auto simp: create_put_ids)
qed simp

lemma recover_run_puts:
  "\<forall>w \<in> set (io t). \<exists>d e cb. w = Put d e cb \<Longrightarrow>
   \<forall>w \<in> set (io (recover_run now es t)). \<exists>d e cb. w = Put d e cb"
proof (induction now es t rule: recover_run.induct)
  case (2 now key r es t)
  have "io (create now key (handed r) None t) = io t \<or>
      (\<exists>d e. io (create now key (handed r) None t) = io t @ [Put d e None])"
    by (simp add: create_def Let_def effect_defs)
  then have "\<forall>w \<in> set (io (create now key (handed r) None t)). \<exists>d e cb. w = Put d e cb"
    using 2(2) by (elim disjE exE) simp_all
  then show ?case unfolding recover_run.simps by (rule 2(1))
qed simp

lemma recover_run_each:
  assumes "(k, r) \<in> set es" and "recs t = []" and "r_created r \<noteq> 0"
    and "cb_transport (b_callback (r_payload r)) \<in> set (transports t)"
  shows "if r_created r + b_timeout (r_payload r) < now
    then Exec (call_of k (r_payload r)) \<in> set (immediate (recover_run now es t))
    else Put \<lparr>r_created = r_created r, r_id = k, r_payload = handed r, r_timer = None\<rparr>
           (now - r_created r) None \<in> set (io (recover_run now es t))"
  using assms
proof (induction now es t rule: recover_run.induct)
  case (2 now key v es t)
  let ?t = "create now key (handed v) None t"
  show ?case
  proof (cases "(k, r) \<in> set es")
    case True
    then show ?thesis using "2.IH" "2.prems" by (simp add: create_put_ids)
  next
    case False
    then have "key = k" "v = r" using "2.prems" by auto
    then have "if r_created r + b_timeout (r_payload r) < now
      then Exec (call_of k (r_payload r)) \<in> set (immediate ?t)
      else Put \<lparr>r_created = r_created r, r_id = k, r_payload = handed r, r_timer = None\<rparr>
           (now - r_created r) None \<in> set (io ?t)"
      using "2.prems" by (simp add: create_def created_handed Let_def effect_defs)
    moreover have "set (io ?t) \<subseteq> set (io (recover_run now es ?t))"
      "set (immediate ?t) \<subseteq> set (immediate (recover_run now es ?t))"
      using recover_run_mono [of ?t now es] by simp_all
    ultimately show ?thesis unfolding recover_run.simps by (meson subsetD)
  qed
qed simp

text \<open>
  C3: no timer is lost in a crash. Whatever an orderly run left in the map of a node, a process
  started on the same store later calls: at once when the timer's instant has passed, and
  otherwise by a timeout for that very instant, with the record back in the map.
\<close>

theorem recovery_after_crash:
  assumes run: "run True cbs now t" and r: "dget (recs t) k = Some r"
    and es: "set es = set (stored t)" and valid: "valid_stream now' es" and now: "0 < now'"
  shows "let u = io_all now' (recover now' es (new_timers (nodeid t) (transports t) (stored t))) in
    if r_created r + b_timeout (r_payload r) < now'
    then Exec (call_of k (r_payload r)) \<in> set (immediate u)
    else \<exists>r' h. dget (recs u) k = Some r' \<and> r_created r' = r_created r \<and> r_timer r' = Some h \<and>
      \<lparr>a_handle = h, a_due = max (r_created r + b_timeout (r_payload r)) (now' + 1),
        a_call = call_of k (r_payload r)\<rparr> \<in> set (armed u)"
proof -
  have ok: "timers_ok now t" by (rule timers_ok_run [OF run])
  have kr: "(k, r) \<in> set (recs t)" using r by (rule map_of_SomeD)
  then have rec: "rec_ok t k r" using ok unfolding timers_ok_def recs_ok_def by blast
  define v where "v = r\<lparr>r_timer := None\<rparr>"
  have "dget (stored t) k = Some v"
    using ok kr unfolding timers_ok_def durable_def v_def by blast
  then have ves: "(k, v) \<in> set es" using es map_of_SomeD by fastforce
  have v: "r_created v = r_created r" "r_payload v = r_payload r" "handed v = handed r"
    by (simp_all add: v_def handed_def)
  define t0 where "t0 = publish (Ev_node RECOVERY) (new_timers (nodeid t) (transports t) (stored t))"
  define w where "w = recover_run now' es t0"
  have t0: "recs t0 = []" "io t0 = []" "transports t0 = transports t"
    by (simp_all add: t0_def publish_def new_timers_def)
  have w: "w = recover now' es (new_timers (nodeid t) (transports t) (stored t))"
    by (simp add: w_def t0_def recover_def)
  have puts: "\<forall>x \<in> set (io w). \<exists>d e cb. x = Put d e cb"
    unfolding w_def by (rule recover_run_puts) (simp add: t0)
  have "timers_ok now' w" unfolding w by (rule timers_ok_boot [OF now valid])
  then have dist: "distinct (put_ids (io w))" by (simp add: timers_ok_def works_ok_def)
  have each: "if r_created r + b_timeout (r_payload r) < now'
    then Exec (call_of k (r_payload r)) \<in> set (immediate w)
    else Put \<lparr>r_created = r_created r, r_id = k, r_payload = handed r, r_timer = None\<rparr>
           (now' - r_created r) None \<in> set (io w)"
    using recover_run_each [OF ves t0(1), of now'] rec unfolding w_def v
    by (simp add: t0 rec_ok_def)
  show ?thesis
  proof (cases "r_created r + b_timeout (r_payload r) < now'")
    case True
    then show ?thesis
      using each io_all_keeps [OF puts refl, of now'] by (simp add: Let_def w [symmetric])
  next
    case False
    have "valid_body now' (handed v)" using valid ves by (auto simp: valid_stream_def)
    then have "now' + node_delay (b_timeout (r_payload r) - (now' - r_created r)) =
        max (r_created r + b_timeout (r_payload r)) (now' + 1)"
      using False by (auto simp: v valid_body_def node_delay_def)
    then show ?thesis
      using io_all_puts [OF puts refl dist, of _ _ None now'] each False
      by (fastforce simp: Let_def w [symmetric])
  qed
qed

lemma recovery_after_crash_witness:
  "map_option r_created (dget (recs (io_all 120
      (recover 120 (stored one_timer) (new_timers ''n1'' [''http''] (stored one_timer))))) ''k1'') = Some 100"
proof -
  have r: "dget (recs one_timer) ''k1'' = Some \<lparr>r_created = 100, r_id = ''k1'',
        r_payload = web_hook, r_timer = Some 0\<rparr>" by code_simp
  have "valid_stream 120 (stored one_timer)" by code_simp
  from recovery_after_crash [OF run_one_timer r refl this]
  obtain r' where "dget (recs (io_all 120 (recover 120 (stored one_timer)
      (new_timers (nodeid one_timer) (transports one_timer) (stored one_timer))))) ''k1'' = Some r'"
    "r_created r' = 100"
    by (auto simp: Let_def web_hook_def)
  moreover have "nodeid one_timer = ''n1''" "transports one_timer = [''http'']" by code_simp+
  ultimately show ?thesis by simp
qed

end
