(* ===== verification/Api.thy ===== *)
theory Api
  imports Timer
begin

text \<open>
  The HTTP interface of a node: the validator of timer bodies, the middleware and handlers of
  the routes (\<open>lib/server/api\<close>), the middleware stack of a route, the router and the error
  response (\<open>lib/server\<close>).

  A request runs until it is answered, forwarded to its owner, or waits for the callback of an
  operation on the timers; \<^theory_text>\<open>timer_reply\<close> is that callback. Parameters are the path patterns
  (\<open>path-to-regexp\<close>), \<open>JSON.parse\<close>, the random id of a timer that came without one, whether
  reading the request's stream failed, and whether this node owns a key. Methods are in upper
  case, as node's parser gives them. The text of an error the engine throws is not modelled.
\<close>

section \<open>Requests and responses\<close>

text \<open>An error as \<open>Response.error\<close> sees it: its \<open>statusCode\<close>, its \<open>code\<close>, its message.\<close>

record http_error =
  e_status :: "nat option"
  e_code :: "code option"
  e_message :: string

datatype status_code = Status nat | Invalid_status code

record response =
  s_status :: status_code
  s_reason :: "string option"
  s_location :: "string option"
  s_json :: bool
  s_ended :: bool

record request =
  q_method :: string
  q_path :: string
  q_timer_id :: "string option"
  q_params :: "(string \<times> string) list"
  q_text :: string
  q_body :: json

text \<open>A response of node starts with status 200.\<close>

definition new_response :: response where
  "new_response = \<lparr>s_status = Status 200, s_reason = None, s_location = None, s_json = False,
     s_ended = False\<rparr>"

text \<open>\<open>Response.error\<close>: the status falls back to the code, then to 500 with a fixed message.\<close>

definition res_error :: "http_error \<Rightarrow> response \<Rightarrow> response" where
  "res_error e res =
    (case (e_status e, e_code e) of
       (Some n, _) \<Rightarrow> res\<lparr>s_status := Status n, s_reason := Some (e_message e), s_ended := True\<rparr>
     | (None, Some c) \<Rightarrow>
         res\<lparr>s_status := Invalid_status c, s_reason := Some (e_message e), s_ended := True\<rparr>
     | (None, None) \<Rightarrow>
         res\<lparr>s_status := Status 500, s_reason := Some ''Internal Server Error'', s_ended := True\<rparr>)"

definition notFound :: "response \<Rightarrow> response" where
  "notFound res = res\<lparr>s_status := Status 404, s_reason := Some ''Not Found'', s_json := True,
     s_ended := True\<rparr>"

section \<open>The validator\<close>

definition invalid :: "string \<Rightarrow> http_error" where
  "invalid m = \<lparr>e_status = Some 400, e_code = None, e_message = m\<rparr>"

definition server_fault :: http_error where
  "server_fault = \<lparr>e_status = Some 500, e_code = None, e_message = ''TypeError''\<rparr>"

text \<open>The test of one property of \<open>callback\<close>; the message names the type of \<open>data\<close>.\<close>

definition callback_check :: "string \<Rightarrow> string \<Rightarrow> json \<Rightarrow> http_error option" where
  "callback_check what ty v =
    (if typeOf v \<noteq> ''String''
     then Some (invalid (''callback.'' @ what @ '' is required and must be a string. Got '' @ ty))
     else None)"

text \<open>The comparisons with a number are false on NaN.\<close>

definition validate :: "(json \<Rightarrow> int option) \<Rightarrow> json \<Rightarrow> http_error option" where
  "validate num body =
    (case getProp body ''timeout'' of
       Inl e \<Rightarrow> Some server_fault
     | Inr timeout \<Rightarrow>
        (case toNumber num timeout of
           None \<Rightarrow> Some (invalid ''timeout is required and must be a positive number'')
         | Some n \<Rightarrow>
            if n < 1 then Some (invalid ''timeout is required and must be a positive number'')
            else if n > timeout_max
            then Some (invalid ''timeout must be less than or equal to 2147483647 milliseconds'')
            else
              (case getProp body ''data'' of
                 Inl e \<Rightarrow> Some server_fault
               | Inr d \<Rightarrow>
                  let ty = typeOf d in
                  if d \<noteq> JNull \<and> d \<noteq> JUndefined \<and> ty \<noteq> ''String'' \<and> ty \<noteq> ''Object''
                  then Some (invalid (''data is required and must be a string or object. Got '' @ ty))
                  else
                    (case getProp body ''callback'' of
                       Inl e \<Rightarrow> Some server_fault
                     | Inr c \<Rightarrow>
                        if typeOf c \<noteq> ''Object''
                        then Some (invalid ''callback is required and must be an object'')
                        else
                          (case (getProp c ''transport'', getProp c ''uri'', getProp c ''method'') of
                             (Inr tr, Inr u, Inr m) \<Rightarrow>
                               (case callback_check ''transport'' ty tr of
                                  Some e \<Rightarrow> Some e
                                | None \<Rightarrow> (case callback_check ''uri'' ty u of
                                    Some e \<Rightarrow> Some e
                                  | None \<Rightarrow> callback_check ''method'' ty m))
                           | _ \<Rightarrow> Some server_fault)))))"

text \<open>
  The body the timers get. They read the fields without looking at their types; the model
  follows them where \<open>timeout\<close> and \<open>created\<close> are numbers (or \<open>created\<close> is missing). A timeout that
  only coerces to one, such as a numeric string, passes the validator, and the timers then work with it
  as it is (\<open>created + timeout\<close> is a text). What becomes of such a request is outside the model: \<^theory_text>\<open>None\<close>
  here and in the functions below.
\<close>

fun str_of :: "json \<Rightarrow> string" where
  "str_of (JStr s) = s"
| "str_of v = []"

definition field :: "json \<Rightarrow> string \<Rightarrow> json" where
  "field v k = (case getProp v k of Inl e \<Rightarrow> JUndefined | Inr w \<Rightarrow> w)"

definition to_body :: "json \<Rightarrow> body option" where
  "to_body v =
    (let c = field v ''callback'';
         created = (case field v ''created'' of JNum n \<Rightarrow> Some (Some n) | JUndefined \<Rightarrow> Some None
                    | JNull \<Rightarrow> Some None | _ \<Rightarrow> None)
     in case (field v ''timeout'', created) of
          (JNum n, Some cr) \<Rightarrow> Some \<lparr>b_timeout = n, b_data = field v ''data'',
             b_callback = \<lparr>cb_transport = str_of (field c ''transport''),
               cb_method = str_of (field c ''method''), cb_uri = str_of (field c ''uri'')\<rparr>,
             b_created = cr,
             b_id = (case field v ''id'' of JStr s \<Rightarrow> Some s | _ \<Rightarrow> None),
             b_count = (case field v ''count'' of JNum n \<Rightarrow> Some (nat n) | _ \<Rightarrow> None)\<rparr>
        | _ \<Rightarrow> None)"

section \<open>Middleware and handlers\<close>

datatype handler = Post | Put_timer | Delete | Ping

datatype middleware = TimerId | Proxy | Validate | Handle handler

text \<open>What a middleware does in the end: calls back, with an error or not, or leaves it.\<close>

datatype mw_result = Next | Err http_error | Forwarded | Waits handler

record env =
  v_now :: int
  v_uuid :: string
  v_num :: "json \<Rightarrow> int option"
  v_parse :: "string \<Rightarrow> string + json"
  v_stream_error :: "http_error option"
  v_owns :: "string \<Rightarrow> bool"
  v_token :: nat

text \<open>\<open>handleOrProxy\<close> on a key: handle it here, or send the request to the owner.\<close>

definition mw_proxy :: "env \<Rightarrow> request \<Rightarrow> response \<Rightarrow> request \<times> response \<times> mw_result" where
  "mw_proxy v req res =
    (let tid = (case q_timer_id req of None \<Rightarrow> v_uuid v | Some i \<Rightarrow> if i = [] then v_uuid v else i);
         req1 = req\<lparr>q_timer_id := Some tid\<rparr>;
         res1 = res\<lparr>s_location := Some (''/timer/'' @ tid)\<rparr>
     in if \<not> v_owns v tid then (req1, res1, Forwarded)
        else (case v_stream_error v of
                Some e \<Rightarrow> (req1, res1, Err e)
              | None \<Rightarrow>
                  (case json_parse (v_parse v) (q_text req) of
                     Inl m \<Rightarrow> (req1, res1, Err (invalid m))
                   | Inr val \<Rightarrow> (req1\<lparr>q_body := val\<rparr>, res1, Next))))"

definition mw_timer_id :: "request \<Rightarrow> request" where
  "mw_timer_id req = req\<lparr>q_timer_id := map_of (q_params req) ''timer_id''\<rparr>"

text \<open>The id the handlers use: the header for a creation, the path for the others.\<close>

definition path_id :: "request \<Rightarrow> string" where
  "path_id req = (case map_of (q_params req) ''timer_id'' of None \<Rightarrow> [] | Some i \<Rightarrow> i)"

definition header_id :: "request \<Rightarrow> string" where
  "header_id req = (case q_timer_id req of None \<Rightarrow> [] | Some i \<Rightarrow> i)"

definition post_timer ::
  "env \<Rightarrow> request \<Rightarrow> response \<Rightarrow> timers \<Rightarrow> (response \<times> timers \<times> mw_result) option" where
  "post_timer v req res t =
    (case to_body (q_body req) of
       None \<Rightarrow> None
     | Some b \<Rightarrow> Some (res, create (v_now v) (header_id req) b (Some (v_token v)) t, Waits Post))"

definition put_timer ::
  "env \<Rightarrow> request \<Rightarrow> response \<Rightarrow> timers \<Rightarrow> (response \<times> timers \<times> mw_result) option" where
  "put_timer v req res t =
    (case to_body (q_body req) of
       None \<Rightarrow> None
     | Some b \<Rightarrow> Some (res, timer_update (path_id req) b (Some (v_token v)) t, Waits Put_timer))"

definition delete_timer ::
  "env \<Rightarrow> request \<Rightarrow> response \<Rightarrow> timers \<Rightarrow> response \<times> timers \<times> mw_result" where
  "delete_timer v req res t = (res, cancel (path_id req) (Some (v_token v)) t, Waits Delete)"

definition get_ping :: "response \<Rightarrow> timers \<Rightarrow> response \<times> timers \<times> mw_result" where
  "get_ping res t = (res\<lparr>s_status := Status 200\<rparr>, t, Next)"

fun handle_timer ::
  "env \<Rightarrow> handler \<Rightarrow> request \<Rightarrow> response \<Rightarrow> timers \<Rightarrow> (response \<times> timers \<times> mw_result) option"
where
  "handle_timer v Post req res t = post_timer v req res t"
| "handle_timer v Put_timer req res t = put_timer v req res t"
| "handle_timer v Delete req res t = Some (delete_timer v req res t)"
| "handle_timer v Ping req res t = Some (get_ping res t)"

declare post_timer_def [simp] put_timer_def [simp] delete_timer_def [simp] get_ping_def [simp]

fun run_mw ::
  "env \<Rightarrow> middleware \<Rightarrow> request \<Rightarrow> response \<Rightarrow> timers \<Rightarrow> (request \<times> response \<times> timers \<times> mw_result) option"
where
  "run_mw v TimerId req res t = Some (mw_timer_id req, res, t, Next)"
| "run_mw v Proxy req res t = (case mw_proxy v req res of (q, r, m) \<Rightarrow> Some (q, r, t, m))"
| "run_mw v Validate req res t =
    Some (req, res, t, (case validate (v_num v) (q_body req) of None \<Rightarrow> Next | Some e \<Rightarrow> Err e))"
| "run_mw v (Handle h) req res t = 
    (case handle_timer v h req res t of None \<Rightarrow> None | Some (r, u, m) \<Rightarrow> Some (req, r, u, m))"

section \<open>Routes\<close>

record route =
  rt_method :: string
  rt_path :: string
  rt_stack :: "middleware list"

definition route_use :: "middleware list \<Rightarrow> route \<Rightarrow> route" where
  "route_use ms r = r\<lparr>rt_stack := rt_stack r @ ms\<rparr>"

definition route_before :: "middleware list \<Rightarrow> route \<Rightarrow> route" where
  "route_before ms r = r\<lparr>rt_stack := ms @ rt_stack r\<rparr>"

text \<open>\<open>Route.process\<close>: one function after the other, until one errs or does not call back.\<close>

fun route_process ::
  "env \<Rightarrow> middleware list \<Rightarrow> request \<Rightarrow> response \<Rightarrow> timers \<Rightarrow> (request \<times> response \<times> timers \<times> mw_result) option"
where
  "route_process v [] req res t = Some (req, res, t, Next)"
| "route_process v (m # ms) req res t =
    (case run_mw v m req res t of
       Some (req1, res1, t1, Next) \<Rightarrow> route_process v ms req1 res1 t1
     | r \<Rightarrow> r)"

text \<open>\<open>Router.handleRoute\<close>; no handler of the API sets a body.\<close>

definition handleRoute ::
  "env \<Rightarrow> route \<Rightarrow> request \<Rightarrow> response \<Rightarrow> timers \<Rightarrow> (request \<times> response \<times> timers \<times> mw_result) option"
where
  "handleRoute v r req res t =
    (case route_process v (rt_stack r) req res t of
       Some (req1, res1, t1, Next) \<Rightarrow> Some (req1, res1\<lparr>s_ended := True\<rparr>, t1, Next)
     | Some (req1, res1, t1, Err e) \<Rightarrow> Some (req1, res_error e res1, t1, Err e)
     | x \<Rightarrow> x)"

text \<open>
  \<open>Router.route\<close>: the same method and path again adds to the stack. The routes of a method
  keep the order they were added in.
\<close>

fun router_route :: "string \<Rightarrow> string \<Rightarrow> middleware list \<Rightarrow> route list \<Rightarrow> route list" where
  "router_route path mth ms [] = [\<lparr>rt_method = mth, rt_path = path, rt_stack = ms\<rparr>]"
| "router_route path mth ms (r # rs) =
    (if rt_method r = mth \<and> rt_path r = path then route_use ms r # rs
     else r # router_route path mth ms rs)"

text \<open>The routes \<open>Server.listen\<close> loads: each handler, with its middleware before it.\<close>

definition api_routes :: "route list" where
  "api_routes =
    [route_before [Proxy, Validate] \<lparr>rt_method = ''POST'', rt_path = ''/timer'', rt_stack = [Handle Post]\<rparr>,
     route_before [TimerId, Proxy]
       \<lparr>rt_method = ''DELETE'', rt_path = ''/timer/:timer_id'', rt_stack = [Handle Delete]\<rparr>,
     route_before [TimerId, Proxy, Validate]
       \<lparr>rt_method = ''PUT'', rt_path = ''/timer/:timer_id'', rt_stack = [Handle Put_timer]\<rparr>,
     \<lparr>rt_method = ''GET'', rt_path = ''/ping'', rt_stack = [Handle Ping]\<rparr>]"

fun first_match ::
  "(string \<Rightarrow> string \<Rightarrow> (string \<times> string) list option) \<Rightarrow> string \<Rightarrow> route list \<Rightarrow>
    (route \<times> (string \<times> string) list) option"
where
  "first_match matching path [] = None"
| "first_match matching path (r # rs) =
    (case matching (rt_path r) path of
       Some ps \<Rightarrow> Some (r, ps)
     | None \<Rightarrow> first_match matching path rs)"

text \<open>\<open>Router.handle\<close>: the routes of the method, the literal path first, then the patterns.\<close>

definition router_handle ::
  "(string \<Rightarrow> string \<Rightarrow> (string \<times> string) list option) \<Rightarrow> route list \<Rightarrow> env \<Rightarrow> request \<Rightarrow> timers \<Rightarrow>
    (request \<times> response \<times> timers \<times> mw_result) option"
where
  "router_handle matching routes v req t =
    (let rs = [r \<leftarrow> routes. rt_method r = q_method req] in
     case find (\<lambda>r. rt_path r = q_path req) rs of
       Some r \<Rightarrow> handleRoute v r (req\<lparr>q_params := []\<rparr>) new_response t
     | None \<Rightarrow>
        (case first_match matching (q_path req) rs of
           Some (r, ps) \<Rightarrow> handleRoute v r (req\<lparr>q_params := ps\<rparr>) new_response t
         | None \<Rightarrow> Some (req, notFound new_response, t, Next)))"

section \<open>The callback of the timers\<close>

text \<open>The errors of \<open>Timer\<close> carry a code, those of the store none that is a status; \<open>m\<close> is the message.\<close>

definition error_of :: "string \<Rightarrow> code \<Rightarrow> http_error" where
  "error_of m c = \<lparr>e_status = None, e_code = (if c = ESTORAGE then None else Some c), e_message = m\<rparr>"

definition not_done :: "code \<Rightarrow> nat" where
  "not_done c = (if c = ENOENT then 404 else 500)"

definition post_reply :: "string \<Rightarrow> answer \<Rightarrow> response \<Rightarrow> response" where
  "post_reply m a res =
    (case a of
       Failed c \<Rightarrow> res_error (error_of m c) res
     | _ \<Rightarrow> res\<lparr>s_status := Status 201, s_ended := True\<rparr>)"

definition put_reply :: "answer \<Rightarrow> response \<Rightarrow> response" where
  "put_reply a res =
    (case a of
       Failed c \<Rightarrow> res\<lparr>s_status := Status (not_done c), s_ended := True\<rparr>
     | _ \<Rightarrow> res\<lparr>s_status := Status 200, s_ended := True\<rparr>)"

definition delete_reply :: "answer \<Rightarrow> response \<Rightarrow> response" where
  "delete_reply a res =
    (case a of
       Failed c \<Rightarrow> res\<lparr>s_status := Status (not_done c), s_ended := True\<rparr>
     | _ \<Rightarrow> res\<lparr>s_status := Status 202, s_ended := True\<rparr>)"

fun timer_reply :: "string \<Rightarrow> handler \<Rightarrow> answer \<Rightarrow> response \<Rightarrow> response" where
  "timer_reply m Post a res = post_reply m a res"
| "timer_reply m Put_timer a res = put_reply a res"
| "timer_reply m Delete a res = delete_reply a res"
| "timer_reply m Ping a res = res"

text \<open>\<open>Server.proxy\<close>: the fabricated request that sends a timer back into the ring.\<close>

definition render :: "body \<Rightarrow> json" where
  "render b = JObj
    ([(''timeout'', JNum (b_timeout b)), (''data'', b_data b),
      (''callback'', JObj [(''transport'', JStr (cb_transport (b_callback b))),
         (''method'', JStr (cb_method (b_callback b))), (''uri'', JStr (cb_uri (b_callback b)))])] @
     (case b_id b of None \<Rightarrow> [] | Some i \<Rightarrow> [(''id'', JStr i)]) @
     (case b_created b of None \<Rightarrow> [] | Some c \<Rightarrow> [(''created'', JNum c)]) @
     (case b_count b of None \<Rightarrow> [] | Some n \<Rightarrow> [(''count'', JNum (int n))]))"

definition server_proxy :: "(json \<Rightarrow> string) \<Rightarrow> body \<Rightarrow> request" where
  "server_proxy stringify b = \<lparr>q_method = ''POST'', q_path = ''/timer'', q_timer_id = b_id b,
     q_params = [], q_text = stringify (render b), q_body = JNull\<rparr>"

end
