(* ===== verification/Api_Properties.thy ===== *)
theory Api_Properties
  imports Api Timer_Properties
begin

text \<open>The properties of the HTTP interface.\<close>

section \<open>The validator\<close>

definition acceptable :: "(json \<Rightarrow> int option) \<Rightarrow> json \<Rightarrow> bool" where
  "acceptable num body \<longleftrightarrow>
    (case toNumber num (field body ''timeout'') of
       None \<Rightarrow> False | Some n \<Rightarrow> 1 \<le> n \<and> n \<le> timeout_max) \<and>
    typeOf (field body ''data'') \<in> {''Undefined'', ''Null'', ''String'', ''Object''} \<and>
    typeOf (field body ''callback'') = ''Object'' \<and>
    (\<forall>k \<in> {''transport'', ''uri'', ''method''}. typeOf (field (field body ''callback'') k) = ''String'')"

lemma getProp_field: "v \<noteq> JNull \<Longrightarrow> v \<noteq> JUndefined \<Longrightarrow> getProp v k = Inr (field v k)"
  by (cases v) (simp_all add: field_def)

lemma getProp_object: "typeOf v = ''Object'' \<Longrightarrow> getProp v k = Inr (field v k)"
  by (cases v) (simp_all add: field_def)

lemma typeOf_null: "typeOf v = ''Null'' \<longleftrightarrow> v = JNull" "typeOf v = ''Undefined'' \<longleftrightarrow> v = JUndefined"
  by (cases v; simp)+

lemma validate_status:
  assumes "body \<noteq> JNull" and "body \<noteq> JUndefined" and "validate num body = Some e"
  shows "e_status e = Some 400"
  using assms by (auto simp: validate_def getProp_field getProp_object invalid_def
      callback_check_def Let_def split: option.splits if_splits)

lemma validate_ok:
  assumes "body \<noteq> JNull" and "body \<noteq> JUndefined"
  shows "validate num body = None \<longleftrightarrow> acceptable num body"
  using assms
  by (auto simp: validate_def getProp_field acceptable_def callback_check_def Let_def getProp_object
      typeOf_null split: option.splits if_splits)




section \<open>Which requests reach the timers\<close>




text \<open>A stack that ends with a handler, behind the proxy and perhaps the validator.\<close>

lemma process_proxy:
  "route_process v (Proxy # ms) req res t =
    (case mw_proxy v req res of
       (req1, res1, Next) \<Rightarrow> route_process v ms req1 res1 t
     | (req1, res1, m) \<Rightarrow> Some (req1, res1, t, m))"
  by (simp split: prod.split mw_result.split)

lemma process_validate:
  "route_process v (Validate # ms) req res t =
    (case validate (v_num v) (q_body req) of
       None \<Rightarrow> route_process v ms req res t
     | Some e \<Rightarrow> Some (req, res, t, Err e))"
  by (simp split: option.split)









text \<open>Sample requests.\<close>

definition demo_matching :: "string \<Rightarrow> string \<Rightarrow> (string \<times> string) list option" where
  "demo_matching pattern path =
    (if pattern = ''/timer/:timer_id'' \<and> take 7 path = ''/timer/'' \<and> 7 < length path
     then Some [(''timer_id'', drop 7 path)] else None)"

definition demo_env :: env where
  "demo_env = \<lparr>v_now = 120, v_uuid = ''u1'', v_num = (\<lambda>j. None),
     v_parse = (\<lambda>s. Inr (render web_hook)), v_stream_error = None, v_owns = (\<lambda>k. True), v_token = 8\<rparr>"




section \<open>Timers sent back into the ring\<close>

lemma field_render:
  "field (render b) ''timeout'' = JNum (b_timeout b)" "field (render b) ''data'' = b_data b"
  "field (render b) ''id'' = (case b_id b of None \<Rightarrow> JUndefined | Some i \<Rightarrow> JStr i)"
  "field (render b) ''created'' = (case b_created b of None \<Rightarrow> JUndefined | Some c \<Rightarrow> JNum c)"
  "field (render b) ''count'' = (case b_count b of None \<Rightarrow> JUndefined | Some n \<Rightarrow> JNum (int n))"
  "field (field (render b) ''callback'') ''transport'' = JStr (cb_transport (b_callback b))"
  "field (field (render b) ''callback'') ''method'' = JStr (cb_method (b_callback b))"
  "field (field (render b) ''callback'') ''uri'' = JStr (cb_uri (b_callback b))"
  "typeOf (field (render b) ''callback'') = ''Object''"
  by (simp_all add: field_def render_def split: option.split)

lemma to_body_render: "to_body (render b) = Some b"
  by (cases b) (simp add: to_body_def Let_def field_render split: option.split)

lemma render_acceptable:
  assumes "1 \<le> b_timeout b" and "b_timeout b \<le> timeout_max"
    and "typeOf (b_data b) \<in> {''Undefined'', ''Null'', ''String'', ''Object''}"
  shows "validate num (render b) = None"
proof -
  have "render b \<noteq> JNull" "render b \<noteq> JUndefined" by (simp_all add: render_def)
  then show ?thesis
    using assms by (simp add: validate_ok acceptable_def field_render)
qed

text \<open>
  C13: the request a node makes of a timer it gives up is never refused: the owner of the id creates
  the timer from the very body that was handed over (the time of creation included), and a
  node that does not own the id forwards the request and leaves its own timers alone.
\<close>

theorem proxied_timer_reaches_owner:
  assumes parse: "v_parse v (stringify (render (handed r))) = Inr (render (handed r))"
    and nonempty: "stringify (render (handed r)) \<noteq> []" and stream: "v_stream_error v = None"
    and tid: "r_id r \<noteq> []" and timeout: "1 \<le> b_timeout (r_payload r)" "b_timeout (r_payload r) \<le> timeout_max"
    and data: "typeOf (b_data (r_payload r)) \<in> {''Undefined'', ''Null'', ''String'', ''Object''}"
  shows "case router_handle matching api_routes v (server_proxy stringify (handed r)) u of
    None \<Rightarrow> False
  | Some (req, res, u', m) \<Rightarrow> q_timer_id req = Some (r_id r) \<and>
      (if v_owns v (r_id r)
       then u' = create (v_now v) (r_id r) (handed r) (Some (v_token v)) u \<and> m = Waits Post
       else u' = u \<and> m = Forwarded)"
proof -
  let ?q = "server_proxy stringify (handed r)"
  have h: "b_id (handed r) = Some (r_id r)" "b_data (handed r) = b_data (r_payload r)"
    by (simp_all add: handed_def)
  have find: "find (\<lambda>r. rt_path r = q_path ?q) [r \<leftarrow> api_routes. rt_method r = q_method ?q] =
      Some \<lparr>rt_method = ''POST'', rt_path = ''/timer'', rt_stack = [Proxy, Validate, Handle Post]\<rparr>"
    by (simp add: api_routes_def route_before_def server_proxy_def)
  have valid: "validate num (render (handed r)) = None" for num
    using timeout data h by (intro render_acceptable) simp_all
  have route: "router_handle matching api_routes v ?q u = handleRoute v \<lparr>rt_method = ''POST'',
      rt_path = ''/timer'', rt_stack = [Proxy, Validate, Handle Post]\<rparr> (?q\<lparr>q_params := []\<rparr>)
      new_response u"
    by (simp only: router_handle_def Let_def find option.case)
  show ?thesis
    using parse nonempty stream tid h unfolding route
    by (simp add: Let_def handleRoute_def process_proxy process_validate
        mw_proxy_def json_parse_def valid to_body_render header_id_def server_proxy_def
        del: route_process.simps(2)) (simp add: valid to_body_render header_id_def)
qed

lemma proxied_timer_reaches_owner_witness:
  "case router_handle demo_matching api_routes
     (demo_env\<lparr>v_parse := (\<lambda>s. Inr (render (handed (snd (hd (recs one_timer))))))\<rparr>)
     (server_proxy (\<lambda>j. ''b'') (handed (snd (hd (recs one_timer))))) no_timers of
   None \<Rightarrow> False
 | Some (req, res, u', m) \<Rightarrow> u' = create 120 ''k1'' (handed (snd (hd (recs one_timer)))) (Some 8) no_timers"
proof -
  let ?r = "snd (hd (recs one_timer))"
  have r: "r_id ?r = ''k1''" "b_timeout (r_payload ?r) = 50" "b_data (r_payload ?r) = JStr ''x''"
    by code_simp+
  show ?thesis
    using proxied_timer_reaches_owner [where v = "demo_env\<lparr>v_parse := (\<lambda>s. Inr (render (handed ?r)))\<rparr>"
        and stringify = "\<lambda>j. ''b''" and r = ?r and matching = demo_matching and u = no_timers] r
    by (simp add: demo_env_def timeout_max_def split: option.splits prod.splits)
qed

end
