(* ===== verification/Server.thy ===== *)
theory Server
  imports Timer HashRing
begin

text \<open>
  The node of the ring as the timers see it (\<open>lib/server/node.js\<close>, with \<open>lookup\<close>, \<open>lookupN\<close>,
  \<open>handleOrProxy\<close> and \<open>handleOrProxyAll\<close> of ringpop), and the server that puts ring and timers
  together (\<open>lib/server/index.js\<close>): what a change of the ring, a message of another node and
  closing do to the timers. A result \<open>None\<close> is a lookup that does not return, which
  \<^theory_text>\<open>ring_lookup\<close> excludes on a well-formed ring.
\<close>

section \<open>Lookups\<close>

definition rp_lookup :: "(string \<Rightarrow> int) \<Rightarrow> string \<Rightarrow> string \<Rightarrow> hash_ring \<Rightarrow> string option" where
  "rp_lookup hashFunc whoami key ring =
    (case ring_lookup hashFunc key ring of
       None \<Rightarrow> None
     | Some None \<Rightarrow> Some whoami
     | Some (Some dest) \<Rightarrow> Some (if dest = [] then whoami else dest))"

definition rp_lookupN ::
  "(string \<Rightarrow> int) \<Rightarrow> string \<Rightarrow> string \<Rightarrow> int \<Rightarrow> hash_ring \<Rightarrow> string list option" where
  "rp_lookupN hashFunc whoami key n ring =
    (case ring_lookupN hashFunc key n ring of
       None \<Rightarrow> None
     | Some dests \<Rightarrow> Some (if dests = [] then [whoami] else dests))"

text \<open>\<open>handleOrProxy\<close>: \<open>None\<close> to handle the request here, or the server to send it to.\<close>

definition handleOrProxy :: "(string \<Rightarrow> int) \<Rightarrow> string \<Rightarrow> string \<Rightarrow> hash_ring \<Rightarrow> string option option" where
  "handleOrProxy hashFunc whoami key ring =
    (case rp_lookup hashFunc whoami key ring of
       None \<Rightarrow> None
     | Some dest \<Rightarrow> Some (if whoami = dest then None else Some dest))"

text \<open>
  \<open>handleOrProxyAll\<close>: the keys by destination, in the order the destinations first occur; each
  group is handled here or sent away as one request.
\<close>

fun groupByDest :: "(string \<Rightarrow> string option) \<Rightarrow> string list \<Rightarrow> string list dict \<Rightarrow> string list dict option"
where
  "groupByDest look [] acc = Some acc"
| "groupByDest look (k # ks) acc =
    (case look k of
       None \<Rightarrow> None
     | Some d \<Rightarrow> groupByDest look ks
         (dset d ((case dget acc d of None \<Rightarrow> [] | Some xs \<Rightarrow> xs) @ [k]) acc))"

definition handleOrProxyAll ::
  "(string \<Rightarrow> int) \<Rightarrow> string \<Rightarrow> string list \<Rightarrow> hash_ring \<Rightarrow> (string option \<times> string list) list option"
where
  "handleOrProxyAll hashFunc whoami keys ring =
    (case groupByDest (\<lambda>k. rp_lookup hashFunc whoami k ring) keys [] of
       None \<Rightarrow> None
     | Some groups \<Rightarrow> Some (map (\<lambda>(d, ks). (if whoami = d then None else Some d, ks)) groups))"

text \<open>
  The responses to such a request: the callback is called once, with the first error or when
  none is outstanding. The state holds what is outstanding, the responses, and whether the
  callback is still to be called.
\<close>

record 'r gather =
  g_pending :: int
  g_responses :: "(string \<times> 'r) list"
  g_open :: bool
  g_result :: "(string option \<times> (string \<times> 'r) list) option"

definition new_gather :: "nat \<Rightarrow> 'r gather" where
  "new_gather n = \<lparr>g_pending = int n, g_responses = [], g_open = (n \<noteq> 0),
     g_result = (if n = 0 then Some (None, []) else None)\<rparr>"

definition onResponse :: "string option \<Rightarrow> 'r \<Rightarrow> string \<Rightarrow> 'r gather \<Rightarrow> 'r gather" where
  "onResponse err resp dest g =
    (let rs = g_responses g @ [(dest, resp)]; p = g_pending g - 1;
         g1 = g\<lparr>g_responses := rs, g_pending := p\<rparr>
     in if (p = 0 \<or> err \<noteq> None) \<and> g_open g
        then g1\<lparr>g_open := False, g_result := Some (err, rs)\<rparr> else g1)"

text \<open>\<open>Node.owns\<close>.\<close>

definition node_owns :: "(string \<Rightarrow> int) \<Rightarrow> string \<Rightarrow> hash_ring \<Rightarrow> string \<Rightarrow> bool" where
  "node_owns hashFunc whoami ring key \<longleftrightarrow> rp_lookup hashFunc whoami key ring = Some whoami"

section \<open>The server\<close>

text \<open>
  The \<open>ringChanged\<close> listener of the node: a change is passed on when servers were added, other
  than this one alone.
\<close>

definition passes_on :: "string \<Rightarrow> string list \<Rightarrow> bool" where
  "passes_on whoami added \<longleftrightarrow> added \<noteq> [] \<and> \<not> (length added = 1 \<and> whoami \<in> set added)"

text \<open>The server's listener: \<open>rebalance\<close>, with what it sends back into the ring.\<close>

definition ring_changed ::
  "(string \<Rightarrow> int) \<Rightarrow> string \<Rightarrow> bool \<Rightarrow> string list \<Rightarrow> hash_ring \<Rightarrow> timers \<Rightarrow> timers \<times> body list"
where
  "ring_changed hashFunc whoami autobalance added ring t =
    (if passes_on whoami added \<and> autobalance
     then rebalance (node_owns hashFunc whoami ring) t else (t, []))"

text \<open>
  \<open>Server.close\<close>, once the node has left the ring: the timers go to the ring when a member is
  alive, otherwise they stay in the store.
\<close>

definition close_timers :: "(string \<times> string) list \<Rightarrow> nat option \<Rightarrow> timers \<Rightarrow> timers" where
  "close_timers members cb t =
    (if [m \<leftarrow> members. snd m = ''alive''] \<noteq> [] then shutdown cb t else disconnect cb t)"

end
