(* ===== verification/Server_Properties.thy ===== *)
theory Server_Properties
  imports Server Timer_Properties Ring_Properties
begin

text \<open>The ring and the timers together.\<close>

lemma rp_lookup_eq:
  assumes "ring_ok h ring"
  shows "rp_lookup h me key ring =
    Some (case owner (ring_points h ring) (h key) of None \<Rightarrow> me | Some d \<Rightarrow> if d = [] then me else d)"
  by (simp add: rp_lookup_def lookup_owner [OF assms] split: option.split)

text \<open>
  C14: when another server joins the ring, a node that balances by itself (\<open>autobalance\<close>) hands over
  exactly the timers it does not own on the new ring, each once and in the order of its map, and keeps
  the others armed as they were. Of the timers it owned before, these are exactly those whose id the new
  server owns now; timers of third nodes it held as well go with them. Without \<open>autobalance\<close>, which
  is the default, it hands over nothing and nothing changes.
\<close>

theorem joining_server_takes_its_timers:
  assumes run: "run True cbs now t" and ring: "ring_ok h ring" and a: "a \<noteq> me" "a \<noteq> []"
    and new: "a \<notin> ring_servers ring"
    and added: "addRemoveServers h [a] [] ring = Some (ring', changed)"
  shows "(let t' = fst (ring_changed h me autobalance [a] ring' t); out = snd (ring_changed h me autobalance [a] ring' t)
    in if autobalance then
      map b_id out = map Some [k \<leftarrow> dkeys (recs t). \<not> node_owns h me ring' k] \<and>
      recs t' = [kr \<leftarrow> recs t. node_owns h me ring' (fst kr)] \<and> set (armed t') \<subseteq> set (armed t) \<and>
      (\<forall>k \<in> set (dkeys (recs t)). node_owns h me ring k \<longrightarrow>
        (\<not> node_owns h me ring' k \<longleftrightarrow> ring_lookup h k ring' = Some (Some a)))
    else t' = t \<and> out = [])"
proof -
  have ok: "timers_ok now t" by (rule timers_ok_run [OF run])
  have r': "ring_ok h ring'" "hr_replicaPoints ring' = hr_replicaPoints ring"
    "ring_servers ring' = insert a (ring_servers ring)"
    using addRemoveServers_ok [OF ring, of "[a]" "[]"] added by auto
  have lost: "\<not> node_owns h me ring' k \<longleftrightarrow> ring_lookup h k ring' = Some (Some a)"
    if k: "node_owns h me ring k" for k
  proof -
    let ?o = "owner (ring_points h ring) (h k)" and ?o' = "owner (ring_points h ring') (h k)"
    have change: "?o' = ?o \<or> ?o' = Some a"
      using owner_change [of "ring_servers ring" "ring_servers ring'" h "hr_replicaPoints ring" "h k"]
        r' new by auto
    have "?o = None \<or> ?o = Some [] \<or> ?o = Some me"
      using k by (auto simp: node_owns_def rp_lookup_eq [OF ring] split: option.splits if_splits)
    then show ?thesis
      using change a
      by (auto simp: node_owns_def rp_lookup_eq [OF r'(1)] lookup_owner [OF r'(1)]
          split: option.splits)
  qed
  have chg: "ring_changed h me True [a] ring' t = rebalance (node_owns h me ring') t"
    and keep: "ring_changed h me False [a] ring' t = (t, [])"
    using a by (simp_all add: ring_changed_def passes_on_def)
  have moved: "map b_id (snd (rebalance (node_owns h me ring') t)) = map Some [k \<leftarrow> dkeys (recs t). \<not> node_owns h me ring' k] \<and>
      recs (fst (rebalance (node_owns h me ring') t)) = [kr \<leftarrow> recs t. node_owns h me ring' (fst kr)] \<and>
      set (armed (fst (rebalance (node_owns h me ring') t))) \<subseteq> set (armed t)"
  proof (cases "recs t = []")
    case True
    then show ?thesis by (simp add: rebalance_def)
  next
    case False
    have "r_id (snd kr) = fst kr" if "kr \<in> set (recs t)" for kr
      using ok that by (auto simp: timers_ok_def recs_ok_def rec_ok_def dest!: bspec)
    then have "map (b_id \<circ> (handed \<circ> snd)) [kr \<leftarrow> recs t. \<not> node_owns h me ring' (fst kr)] =
        map Some (map fst [kr \<leftarrow> recs t. \<not> node_owns h me ring' (fst kr)])"
      by (simp add: handed_def)
    then show ?thesis
      by (simp add: rebalance_eq [OF ok False] Let_def filter_map comp_def armed_keep)
  qed
  show ?thesis using moved lost by (cases autobalance) (auto simp: chg keep Let_def)
qed

lemma joining_server_takes_its_timers_witness:
  "\<exists>ring' changed. addRemoveServers demo_hash [''c:1''] [] demo_ring = Some (ring', changed) \<and>
    map b_id (snd (ring_changed demo_hash ''b:1'' True [''c:1''] ring' one_timer)) = [Some ''k1''] \<and>
    snd (ring_changed demo_hash ''b:1'' False [''c:1''] ring' one_timer) = []"
proof -
  obtain ring' changed where r: "addRemoveServers demo_hash [''c:1''] [] demo_ring = Some (ring', changed)"
    using addRemoveServers_ok [OF demo_ring_ok] by metis
  have "map_option (\<lambda>(r, c). ring_lookup demo_hash ''k1'' r)
      (addRemoveServers demo_hash [''c:1''] [] demo_ring) = Some (Some (Some ''c:1''))" by code_simp
  then have k1: "ring_lookup demo_hash ''k1'' ring' = Some (Some ''c:1'')" using r by simp
  have keys: "dkeys (recs one_timer) = [''k1'']" by code_simp
  have "node_owns demo_hash ''b:1'' demo_ring ''k1''" by code_simp
  moreover have "''c:1'' \<notin> ring_servers demo_ring" by (simp add: demo_ring_facts)
  ultimately show ?thesis
    using joining_server_takes_its_timers [OF run_one_timer demo_ring_ok _ _ _ r, of "''b:1''" True]
      joining_server_takes_its_timers [OF run_one_timer demo_ring_ok _ _ _ r, of "''b:1''" False] r k1
    by (simp add: keys Let_def)
qed

section \<open>Requests for many keys\<close>

lemma groupByDest_keys:
  "groupByDest look ks acc = Some groups \<Longrightarrow>
    mset (concat (map snd groups)) = mset (concat (map snd acc)) + mset ks"
proof (induction look ks acc rule: groupByDest.induct)
  case (2 look k ks acc)
  then obtain d where d: "look k = Some d" by (auto split: option.splits)
  have new: "d \<notin> fst ` set acc \<Longrightarrow> mset (concat (map snd (dset d [k] acc))) =
      mset (concat (map snd acc)) + {#k#}"
    by (induction acc) auto
  have old: "dget acc d = Some xs \<Longrightarrow> mset (concat (map snd (dset d (xs @ [k]) acc))) =
      mset (concat (map snd acc)) + {#k#}" for xs
    by (induction acc) (auto split: if_splits)
  have "mset (concat (map snd (dset d ((case dget acc d of None \<Rightarrow> [] | Some xs \<Rightarrow> xs) @ [k]) acc))) =
      mset (concat (map snd acc)) + {#k#}"
  proof (cases "dget acc d")
    case None
    then have "d \<notin> fst ` set acc" by (simp add: map_of_eq_None_iff)
    then show ?thesis using new None by simp
  qed (simp add: old)
  then show ?case using 2 d by simp
qed simp

lemma groupByDest_dest:
  "groupByDest look ks acc = Some groups \<Longrightarrow>
    \<forall>(d, xs) \<in> set acc. \<forall>x \<in> set xs. look x = Some d \<Longrightarrow>
    \<forall>(d, xs) \<in> set groups. \<forall>x \<in> set xs. look x = Some d"
proof (induction look ks acc rule: groupByDest.induct)
  case (2 look k ks acc)
  then obtain d where d: "look k = Some d" by (auto split: option.splits)
  let ?xs = "(case dget acc d of None \<Rightarrow> [] | Some xs \<Rightarrow> xs) @ [k]"
  have "\<forall>x \<in> set ?xs. look x = Some d"
  proof (cases "dget acc d")
    case (Some xs)
    then have "\<forall>x \<in> set xs. look x = Some d" using 2(3) map_of_SomeD by fast
    then show ?thesis using Some d by simp
  qed (simp add: d)
  then have "\<forall>(d', xs) \<in> set (dset d ?xs acc). \<forall>x \<in> set xs. look x = Some d'"
    using 2(3) snd_update [of d ?xs acc] by blast
  then show ?case using 2 d by simp
qed simp

text \<open>The callback of \<open>handleOrProxyAll\<close> has been called exactly when the count or an error says so.\<close>

definition respond :: "(string option \<times> 'r \<times> string) list \<Rightarrow> 'r gather \<Rightarrow> 'r gather" where
  "respond = fold (\<lambda>(err, resp, dest) g. onResponse err resp dest g)"

lemma respond_all:
  assumes "\<forall>(err, resp, dest) \<in> set rs. err = None" and "g_pending g = int (length rs)"
    and "g_open g" and "g_result g = None" and "rs \<noteq> []"
  shows "g_result (respond rs g) = Some (None, g_responses g @ map (\<lambda>(e, r, d). (d, r)) rs) \<and>
    \<not> g_open (respond rs g)"
  using assms
proof (induction rs arbitrary: g)
  case (Cons r rs)
  obtain e v d where r: "r = (e, v, d)" by (cases r)
  show ?case
  proof (cases rs)
    case Nil
    then show ?thesis using Cons.prems r by (simp add: respond_def onResponse_def Let_def)
  next
    case (Cons r' rs')
    then show ?thesis
      using Cons.IH [of "onResponse e v d g"] Cons.prems r
      by (auto simp: respond_def onResponse_def Let_def)
  qed
qed simp

end
