(* ===== verification/Transports.thy ===== *)
theory Transports
  imports Timer_Inv
begin

text \<open>
  The transports of a node: how they are loaded and shut down (\<open>lib/transports/index.js\<close>), the
  http transport with what it reports back to the timers (\<open>http.js\<close>), and the addresses of the
  NATS servers (\<open>lib/nats/parse-hosts.js\<close>). What \<open>require\<close> returns and the http request itself
  are arguments.
\<close>

section \<open>Loading\<close>

text \<open>What a path or class turns out to be, as far as the loader looks at it.\<close>

record transport_class =
  c_is_function :: bool
  c_exec :: "nat option"
  c_name :: string

datatype load_error =
    Not_a_function
  | No_exec
  | Wrong_arity
  | No_name
  | EEXIST string

definition to_lower :: "char \<Rightarrow> char" where
  "to_lower c = (let n = of_char c :: nat in if 65 \<le> n \<and> n \<le> 90 then char_of (n + 32) else c)"

definition toLowerCase :: "string \<Rightarrow> string" where
  "toLowerCase s = map to_lower s"

definition load_one :: "transport_class \<Rightarrow> string list \<Rightarrow> load_error + string list" where
  "load_one c names =
    (if \<not> c_is_function c then Inl Not_a_function
     else
       (case c_exec c of
          None \<Rightarrow> Inl No_exec
        | Some arity \<Rightarrow>
           if arity \<noteq> 5 then Inl Wrong_arity
           else if c_name c = [] then Inl No_name
           else
             let name = toLowerCase (c_name c)
             in if name \<in> set names then Inl (EEXIST name) else Inr (names @ [name])))"

text \<open>\<open>kLoad\<close>: the first error is thrown. The paths come from a set, each once.\<close>

fun kLoad :: "transport_class list \<Rightarrow> string list \<Rightarrow> load_error + string list" where
  "kLoad [] names = Inr names"
| "kLoad (c # cs) names =
    (case load_one c names of Inl e \<Rightarrow> Inl e | Inr names' \<Rightarrow> kLoad cs names')"

text \<open>The constructor; the callback transport is there in tests.\<close>

definition load_transports :: "bool \<Rightarrow> transport_class list \<Rightarrow> load_error + string list" where
  "load_transports testing cs =
     kLoad cs (''http'' # (if testing then [''callback''] else []))"

text \<open>\<open>kShutdown\<close>: one after the other, the last one first.\<close>

fun kShutdown :: "string list \<Rightarrow> string list" where
  "kShutdown [] = []"
| "kShutdown (n # ns) = last (n # ns) # kShutdown (butlast (n # ns))"

section \<open>The http transport\<close>

text \<open>What came of a request: an error with its code, or a status.\<close>

datatype http_result = Request_error string | Http_status nat

definition verbs :: "string list" where
  "verbs = [''post'', ''put'', ''patch'', ''delete'', ''get'', ''options'', ''head'']"

definition valid_verb :: "string \<Rightarrow> bool" where
  "valid_verb m \<longleftrightarrow> toLowerCase m \<in> set verbs"

definition report :: "http_result \<Rightarrow> after" where
  "report r = (case r of
     Request_error e \<Rightarrow> A_failure e
   | Http_status n \<Rightarrow> if n > 299 then A_failure (show_nat n) else A_success)"

text \<open>
  \<open>exec\<close>, and the callback of the request it makes. An invalid verb clears the timeout of the
  record and fails the timer.
\<close>

definition http_exec :: "exec_call \<Rightarrow> timers \<Rightarrow> timers" where
  "http_exec c t =
    (if \<not> valid_verb (x_method c)
     then failure (x_id c) ''ESRHTTP'' None
       (case dget (recs t) (x_id c) of None \<Rightarrow> t | Some r \<Rightarrow> clearTimeout (r_timer r) t)
     else t)"

definition http_done :: "exec_call \<Rightarrow> http_result \<Rightarrow> timers \<Rightarrow> timers" where
  "http_done c r t =
    (case report r of
       A_success \<Rightarrow> success (x_id c) None t
     | A_failure e \<Rightarrow> failure (x_id c) e None t
     | _ \<Rightarrow> t)"

section \<open>Addresses of the NATS servers\<close>

definition nats_prefix :: string where
  "nats_prefix = ''nats://''"

definition parseItem :: "string \<Rightarrow> string" where
  "parseItem s = (if take 7 s = nats_prefix then s else nats_prefix @ s)"

definition parseHosts :: "string list \<Rightarrow> string list" where
  "parseHosts = map parseItem"

section \<open>Facts\<close>

lemma load_one_names:
  "load_one c names = Inr names' \<Longrightarrow> \<exists>n. names' = names @ [n] \<and> n \<notin> set names"
  by (auto simp: load_one_def Let_def split: if_splits option.splits)

text \<open>The names of the transports that were loaded are distinct, and the built-in ones stay.\<close>

lemma kLoad_names:
  "kLoad cs names = Inr names' \<Longrightarrow> distinct names \<Longrightarrow>
    distinct names' \<and> (\<exists>ns. names' = names @ ns \<and> length ns = length cs)"
proof (induction cs names rule: kLoad.induct)
  case (2 c cs names)
  then obtain names1 where n1: "load_one c names = Inr names1" by (auto split: sum.splits)
  obtain n where "names1 = names @ [n]" "n \<notin> set names" using load_one_names [OF n1] by blast
  then show ?case using 2 n1 by auto
qed simp

lemma load_transports_http: "load_transports b cs = Inr names \<Longrightarrow> distinct names \<and> hd names = ''http''"
  using kLoad_names [of cs "''http'' # (if b then [''callback''] else [])" names]
  by (auto simp: load_transports_def split: if_splits)

lemma kShutdown_rev: "kShutdown ns = rev ns"
proof (induction ns rule: kShutdown.induct)
  case (2 n ns)
  then show ?case by (metis append_butlast_last_id kShutdown.simps(2) list.distinct(1) rev_eq_Cons_iff rev_rev_ident rev_append rev_singleton_conv append_Cons append_Nil)
qed simp

lemma parseItem_idem: "parseItem (parseItem s) = parseItem s"
  by (simp add: parseItem_def nats_prefix_def)

text \<open>Every outcome of a request removes the timer: it ends in the store's deletion of its id.\<close>

lemma http_done_removes:
  "\<exists>k. http_done c r t = kRemove (x_id c) k None t \<and> (k = A_success \<longleftrightarrow> (\<exists>n \<le> 299. r = Http_status n))"
  by (cases r) (auto simp: http_done_def report_def success_def failure_def not_less)

lemma http_exec_invalid:
  assumes ok: "timers_ok now t" and verb: "\<not> valid_verb (x_method c)"
    and r: "dget (recs t) (x_id c) = Some r"
  shows "io (http_exec c t) = io t @ [Del (x_id c) (A_failure ''ESRHTTP'') None] \<and>
    recs (http_exec c t) = recs t \<and> (\<forall>a \<in> set (armed (http_exec c t)). x_id (a_call a) \<noteq> x_id c)"
proof -
  have "x_id (a_call a) \<noteq> x_id c" if a: "a \<in> set (armed t)" "Some (a_handle a) \<noteq> r_timer r" for a
  proof -
    obtain kr where kr: "kr \<in> set (recs t)" "r_timer (snd kr) = Some (a_handle a)"
      "fst kr = x_id (a_call a)"
      using armed_owner [OF ok a(1)] by blast
    have "snd kr = r" if "fst kr = x_id c"
      using ok kr(1) that eq_key_imp_eq_value [of "recs t" "x_id c" "snd kr" r] map_of_SomeD [OF r]
      by (cases kr) (simp add: timers_ok_def recs_ok_def)
    then show ?thesis using kr a(2) by auto
  qed
  then show ?thesis
    using verb r by (auto simp: http_exec_def failure_def kRemove_def startIO_def clearTimeout_def)
qed

end
