(* ===== verification/Joiner.thy ===== *)
theory Joiner
  imports Node
begin

text \<open>
  Joining a cluster: the joiner of \<open>lib/gossip/joiner.js\<close> with the merge of the responses
  (\<open>join-response-merge.js\<close>), and the handler at the other end (\<open>server/protocol/join.js\<close>).

  A join is a state: the groups of nodes asked at a time, the requests under way, the retry that
  waits, and what its callback was given. The requests themselves are outside; their replies are
  arguments. \<open>Math.random\<close> in \<open>takeNode\<close> is a choice function \<^theory_text>\<open>pick\<close> on the list, in the delay a
  number in \<open>[0, 1)\<close>. A collection that is null or undefined is an empty list, which
  \<open>isEmptyArray\<close> does not tell apart.
\<close>

section \<open>Addresses\<close>

definition isDigit :: "char \<Rightarrow> bool" where
  "isDigit c \<longleftrightarrow> (let n = of_char c :: nat in 48 \<le> n \<and> n \<le> 57)"

text \<open>\<open>\d+\<close> and a separator: the digits, and what follows the separator.\<close>

definition digits_then :: "char \<Rightarrow> string \<Rightarrow> (string \<times> string) option" where
  "digits_then sep s =
    (let d = takeWhile isDigit s; r = dropWhile isDigit s
     in if d \<noteq> [] \<and> r \<noteq> [] \<and> hd r = sep then Some (d, tl r) else None)"

text \<open>\<open>/(\d+\.\d+\.\d+\.\d+):\d+/\<close> at the start of a string.\<close>

definition host_at :: "string \<Rightarrow> string option" where
  "host_at s =
    (case digits_then CHR ''.'' s of None \<Rightarrow> None | Some (a, s1) \<Rightarrow>
     (case digits_then CHR ''.'' s1 of None \<Rightarrow> None | Some (b, s2) \<Rightarrow>
     (case digits_then CHR ''.'' s2 of None \<Rightarrow> None | Some (c, s3) \<Rightarrow>
     (case digits_then CHR '':'' s3 of None \<Rightarrow> None | Some (d, s4) \<Rightarrow>
       if s4 \<noteq> [] \<and> isDigit (hd s4) then Some (a @ ''.'' @ b @ ''.'' @ c @ ''.'' @ d) else None))))"

text \<open>The leftmost match.\<close>

fun captureHost :: "string \<Rightarrow> string option" where
  "captureHost [] = None"
| "captureHost (c # s) = (case host_at (c # s) of Some h \<Rightarrow> Some h | None \<Rightarrow> captureHost s)"

fun split_on :: "char \<Rightarrow> string \<Rightarrow> string list" where
  "split_on sep [] = [[]]"
| "split_on sep (c # s) =
    (case split_on sep s of
       [] \<Rightarrow> [[c]]
     | p # ps \<Rightarrow> if c = sep then [] # p # ps else (c # p) # ps)"

text \<open>\<open>!isNaN(parseInt(p, 10))\<close>: white space, a sign, and a digit.\<close>

definition isSpace :: "char \<Rightarrow> bool" where
  "isSpace c \<longleftrightarrow> (let n = of_char c :: nat in n = 32 \<or> (9 \<le> n \<and> n \<le> 13) \<or> n = 160)"

definition parses_int :: "string \<Rightarrow> bool" where
  "parses_int p =
    (let r = dropWhile isSpace p;
         r1 = (if r \<noteq> [] \<and> (hd r = CHR ''+'' \<or> hd r = CHR ''-'') then tl r else r)
     in r1 \<noteq> [] \<and> isDigit (hd r1))"

definition validateHostPort :: "string \<Rightarrow> bool" where
  "validateHostPort hostPort =
    (let parts = split_on CHR '':'' hostPort
     in length parts = 2 \<and> parts ! 1 \<noteq> [] \<and> parses_int (parts ! 1))"

section \<open>Merging the responses\<close>

record join_response =
  jr_checksum :: "int option"
  jr_members :: "update list"

text \<open>
  \<open>hasSameChecksums\<close>: 0 and a missing checksum count as none; the last checksum starts at -1, and
  a checksum of -1 would not be compared with.
\<close>

fun sameChecksums :: "int \<Rightarrow> join_response list \<Rightarrow> bool" where
  "sameChecksums lastChecksum [] = True"
| "sameChecksums lastChecksum (r # rs) =
    (case jr_checksum r of
       None \<Rightarrow> False
     | Some c \<Rightarrow> if c = 0 \<or> (lastChecksum \<noteq> -1 \<and> lastChecksum \<noteq> c) then False else sameChecksums c rs)"

definition hasSameChecksums :: "join_response list \<Rightarrow> bool" where
  "hasSameChecksums rs = sameChecksums (-1) rs"

definition mergeJoinResponses :: "string \<Rightarrow> join_response list \<Rightarrow> update list" where
  "mergeJoinResponses whoami rs =
    (if rs = [] then []
     else if hasSameChecksums rs then jr_members (hd rs)
     else mergeMembershipChangesets whoami (map jr_members rs))"

section \<open>The joiner\<close>

record joiner =
  j_hostPort :: string
  j_bootstrapHosts :: "string list"
  j_host :: "string option"
  j_joinTimeout :: int
  j_parallelismFactor :: int
  j_joinSize :: nat
  j_potentialNodes :: "string list"
  j_preferredNodes :: "string list"
  j_nonPreferredNodes :: "string list"
  j_roundPotentialNodes :: "string list"
  j_roundPreferredNodes :: "string list"
  j_roundNonPreferredNodes :: "string list"
  j_joinResponses :: "join_response list option"
  j_joinDelay :: int
  j_joinRetries :: nat

datatype join_error =
    InvalidOptionError
  | JoinAbortedError
  | JoinDurationExceededError int int

definition collectPotentialNodes :: "string list \<Rightarrow> joiner \<Rightarrow> string list" where
  "collectPotentialNodes nodesJoined j =
     [h \<leftarrow> j_bootstrapHosts j. j_hostPort j \<noteq> h \<and> h \<notin> set nodesJoined]"

definition collectPreferredNodes :: "joiner \<Rightarrow> string list" where
  "collectPreferredNodes j = [h \<leftarrow> j_potentialNodes j. j_host j \<noteq> captureHost h]"

definition collectNonPreferredNodes :: "joiner \<Rightarrow> string list" where
  "collectNonPreferredNodes j =
    (if j_preferredNodes j = [] then j_potentialNodes j
     else [h \<leftarrow> j_potentialNodes j. h \<notin> set (j_preferredNodes j)])"

definition new_joiner ::
  "config \<Rightarrow> string \<Rightarrow> string list \<Rightarrow> int option \<Rightarrow> int option \<Rightarrow> nat option \<Rightarrow> join_error + joiner"
where
  "new_joiner cfg hostPort bootstrapHosts joinTimeout parallelism joinSize =
    (if bootstrapHosts = [] then Inl InvalidOptionError
     else
       let j = \<lparr>j_hostPort = hostPort, j_bootstrapHosts = bootstrapHosts,
             j_host = captureHost hostPort, j_joinTimeout = numOrDefault joinTimeout 1000,
             j_parallelismFactor = numOrDefault parallelism 2, j_joinSize = 0,
             j_potentialNodes = [], j_preferredNodes = [], j_nonPreferredNodes = [],
             j_roundPotentialNodes = [], j_roundPreferredNodes = [], j_roundNonPreferredNodes = [],
             j_joinResponses = Some [], j_joinDelay = c_joinDelayMin cfg, j_joinRetries = 0\<rparr>;
           potential = collectPotentialNodes [] j
       in Inr (j\<lparr>j_potentialNodes := potential,
                 j_joinSize := min (numOrDefault joinSize 3) (length potential)\<rparr>))"

definition j_init :: "string list \<Rightarrow> joiner \<Rightarrow> joiner" where
  "j_init nodesJoined j =
    (let j1 = j\<lparr>j_potentialNodes := collectPotentialNodes nodesJoined j\<rparr>;
         j2 = j1\<lparr>j_preferredNodes := collectPreferredNodes j1\<rparr>;
         j3 = j2\<lparr>j_nonPreferredNodes := collectNonPreferredNodes j2\<rparr>
     in j3\<lparr>j_roundPotentialNodes := j_potentialNodes j3,
           j_roundPreferredNodes := j_preferredNodes j3,
           j_roundNonPreferredNodes := j_nonPreferredNodes j3\<rparr>)"

definition isSingleNodeCluster :: "joiner \<Rightarrow> bool" where
  "isSingleNodeCluster j \<longleftrightarrow> j_bootstrapHosts j = [j_hostPort j]"

section \<open>Selecting a group\<close>

definition takeNode :: "(string list \<Rightarrow> nat) \<Rightarrow> string list \<Rightarrow> string \<times> string list" where
  "takeNode pick hosts =
    (let i = pick hosts mod length hosts in (hosts ! i, take i hosts @ drop (Suc i) hosts))"

lemma length_takeNode: "hosts \<noteq> [] \<Longrightarrow> takeNode pick hosts = (h, rest) \<Longrightarrow> length rest < length hosts"
proof -
  assume ne: "hosts \<noteq> []" and t: "takeNode pick hosts = (h, rest)"
  then have "pick hosts mod length hosts < length hosts" by simp
  then show ?thesis using t by (auto simp: takeNode_def Let_def)
qed

function select_loop ::
  "(string list \<Rightarrow> nat) \<Rightarrow> int \<Rightarrow> string list \<Rightarrow> string list \<Rightarrow> string list \<Rightarrow>
    string list \<times> string list \<times> string list"
where
  "select_loop pick n preferred others grp =
    (if int (length grp) = n then (grp, preferred, others)
     else if preferred \<noteq> [] then
       (case takeNode pick preferred of (h, rest) \<Rightarrow> select_loop pick n rest others (grp @ [h]))
     else if others \<noteq> [] then
       (case takeNode pick others of (h, rest) \<Rightarrow> select_loop pick n preferred rest (grp @ [h]))
     else (grp, preferred, others))"
  by pat_completeness auto
termination
proof (relation "measure (\<lambda>(pick, n, preferred, others, grp). length preferred + length others)")
  show "wf (measure (\<lambda>(pick :: string list \<Rightarrow> nat, n :: int, preferred :: string list,
      others :: string list, grp :: string list). length preferred + length others))" by simp
qed (auto dest: length_takeNode [OF _ sym])

declare select_loop.simps [simp del]

definition selectGroup :: "(string list \<Rightarrow> nat) \<Rightarrow> string list \<Rightarrow> joiner \<Rightarrow> string list \<times> joiner" where
  "selectGroup pick nodesJoined j =
    (let j1 = (if j_roundPreferredNodes j = [] \<and> j_roundNonPreferredNodes j = []
               then j_init nodesJoined j else j);
         left = int (j_joinSize j1) - int (length nodesJoined)
     in case select_loop pick (left * j_parallelismFactor j1) (j_roundPreferredNodes j1)
               (j_roundNonPreferredNodes j1) [] of
          (grp, preferred, others) \<Rightarrow>
            (grp, j1\<lparr>j_roundPreferredNodes := preferred, j_roundNonPreferredNodes := others\<rparr>))"

section \<open>Groups and retries\<close>

record join_group =
  gr_size :: nat
  gr_left :: int
  gr_joined :: "string list"
  gr_failed :: "string list"

record joining =
  jn_joiner :: joiner
  jn_destroyed :: bool
  jn_nodesJoined :: "string list"
  jn_group :: "join_group option"
  jn_waiting :: "string list"
  jn_startTime :: int
  jn_retryAt :: "int option"
  jn_update :: "update list option"
  jn_result :: "(join_error + string list) option"

text \<open>\<open>joinGroup\<close>: a request to every node of the group.\<close>

definition joinGroup :: "(string list \<Rightarrow> nat) \<Rightarrow> joining \<Rightarrow> joining" where
  "joinGroup pick s =
    (case selectGroup pick (jn_nodesJoined s) (jn_joiner s) of
       (grp, j) \<Rightarrow> s\<lparr>jn_joiner := j, jn_waiting := jn_waiting s @ grp,
         jn_group := Some \<lparr>gr_size = length grp,
           gr_left = int (j_joinSize j) - int (length (jn_nodesJoined s)),
           gr_joined = [], gr_failed = []\<rparr>\<rparr>)"

text \<open>\<open>Joiner.join\<close>, up to the requests of its first group.\<close>

definition start_join :: "(string list \<Rightarrow> nat) \<Rightarrow> int \<Rightarrow> bool \<Rightarrow> joiner \<Rightarrow> joining" where
  "start_join pick now destroyed j =
    (let s = \<lparr>jn_joiner = j, jn_destroyed = destroyed, jn_nodesJoined = [], jn_group = None,
           jn_waiting = [], jn_startTime = now, jn_retryAt = None, jn_update = None, jn_result = None\<rparr>
     in if destroyed then s\<lparr>jn_result := Some (Inl JoinAbortedError)\<rparr>
        else if isSingleNodeCluster j then s\<lparr>jn_result := Some (Inr [])\<rparr>
        else joinGroup pick s)"

text \<open>The delay before a retry: doubled every time, up to half as much again, and capped.\<close>

definition retry_delay :: "config \<Rightarrow> real \<Rightarrow> nat \<Rightarrow> int" where
  "retry_delay cfg r retries =
    (let newDelay = c_joinDelayMin cfg * 2 ^ retries;
         withFuzz = \<lfloor>r * (real_of_int newDelay * 1.5 - real_of_int newDelay)\<rfloor> + newDelay
     in min (c_joinDelayMax cfg) withFuzz)"

text \<open>
  The callback of a group in \<open>join\<close>: done, too long, or again after a delay. \<open>joinGroup\<close> never
  passes an error.
\<close>

definition group_done ::
  "config \<Rightarrow> string \<Rightarrow> real \<Rightarrow> int \<Rightarrow> string list \<Rightarrow> joining \<Rightarrow> joining"
where
  "group_done cfg whoami r now successes s =
    (if jn_result s \<noteq> None then s
     else if jn_destroyed s then s\<lparr>jn_result := Some (Inl JoinAbortedError)\<rparr>
     else
       let joined = jn_nodesJoined s @ successes; j = jn_joiner s;
           s1 = s\<lparr>jn_nodesJoined := joined\<rparr>
       in if j_joinSize j \<le> length joined
          then s1\<lparr>jn_update := Some (mergeJoinResponses whoami
                    (case j_joinResponses j of None \<Rightarrow> [] | Some rs \<Rightarrow> rs)),
                  jn_joiner := j\<lparr>j_joinResponses := None\<rparr>, jn_result := Some (Inr joined)\<rparr>
          else
            let duration = now - jn_startTime s in
            if duration > c_maxJoinDuration cfg
            then s1\<lparr>jn_result := Some (Inl (JoinDurationExceededError duration (c_maxJoinDuration cfg)))\<rparr>
            else
              let delay = retry_delay cfg r (j_joinRetries j)
              in s1\<lparr>jn_joiner := j\<lparr>j_joinDelay := delay\<rparr>, jn_retryAt := Some (now + delay)\<rparr>)"

text \<open>The callback of a node in \<open>joinGroup\<close>; \<open>calledBack\<close> is the missing group.\<close>

definition node_done ::
  "config \<Rightarrow> string \<Rightarrow> real \<Rightarrow> int \<Rightarrow> bool \<Rightarrow> string \<Rightarrow> joining \<Rightarrow> joining"
where
  "node_done cfg whoami r now err node s =
    (case jn_group s of
       None \<Rightarrow> s
     | Some g \<Rightarrow>
        let g1 = (if err then g\<lparr>gr_failed := gr_failed g @ [node]\<rparr>
                  else g\<lparr>gr_joined := gr_joined g @ [node]\<rparr>)
        in if gr_left g1 \<le> int (length (gr_joined g1)) \<or>
              gr_size g1 \<le> length (gr_joined g1) + length (gr_failed g1)
           then group_done cfg whoami r now (gr_joined g1) (s\<lparr>jn_group := None\<rparr>)
           else s\<lparr>jn_group := Some g1\<rparr>)"

text \<open>\<open>joinNode\<close>'s callback: an error, or a response, perhaps an empty one.\<close>

datatype join_reply = Join_failed | Joined "join_response option"

definition on_join_reply ::
  "config \<Rightarrow> string \<Rightarrow> real \<Rightarrow> int \<Rightarrow> string \<Rightarrow> join_reply \<Rightarrow> joining \<Rightarrow> joining"
where
  "on_join_reply cfg whoami r now node reply s =
    (let s1 = s\<lparr>jn_waiting := remove1 node (jn_waiting s)\<rparr>
     in case reply of
          Join_failed \<Rightarrow> node_done cfg whoami r now True node s1
        | Joined res \<Rightarrow>
            let j = jn_joiner s1;
                j1 = (case (res, j_joinResponses j) of
                        (Some x, Some rs) \<Rightarrow> j\<lparr>j_joinResponses := Some (rs @ [x])\<rparr>
                      | _ \<Rightarrow> j)
            in node_done cfg whoami r now False node (s1\<lparr>jn_joiner := j1\<rparr>))"

definition on_retry :: "(string list \<Rightarrow> nat) \<Rightarrow> joining \<Rightarrow> joining" where
  "on_retry pick s =
    (let j = jn_joiner s
     in joinGroup pick (s\<lparr>jn_retryAt := None, jn_joiner := j\<lparr>j_joinRetries := Suc (j_joinRetries j)\<rparr>\<rparr>))"

section \<open>The handler\<close>

datatype join_denied =
    Missing_fields
  | DenyJoinError
  | SelfJoinError string
  | InvalidJoinSourceError string
  | BlacklistedError string
  | InvalidJoinAppError string string

record join_body =
  jb_app :: "string option"
  jb_source :: "string option"
  jb_incarnation :: "int option"

record join_answer =
  ja_app :: string
  ja_coordinator :: string
  ja_membership :: "update list"
  ja_checksum :: "int option"

definition validateJoinerAddress :: "config \<Rightarrow> string \<Rightarrow> string \<Rightarrow> join_denied option" where
  "validateJoinerAddress cfg whoami source =
    (if source = whoami then Some (SelfJoinError source)
     else if \<not> validateHostPort source then Some (InvalidJoinSourceError source)
     else if \<exists>p \<in> set (c_memberBlacklist cfg). p source then Some (BlacklistedError source)
     else None)"

definition handleJoin ::
  "config \<Rightarrow> string \<Rightarrow> string \<Rightarrow> bool \<Rightarrow> join_body option \<Rightarrow> node \<Rightarrow> join_denied + join_answer"
where
  "handleJoin cfg whoami app denying body n =
    (case body of
       None \<Rightarrow> Inl Missing_fields
     | Some b \<Rightarrow>
        (case (jb_app b, jb_source b, jb_incarnation b) of
           (Some a, Some source, Some inc) \<Rightarrow>
             if denying then Inl DenyJoinError
             else (case validateJoinerAddress cfg whoami source of
                     Some e \<Rightarrow> Inl e
                   | None \<Rightarrow>
                      if a \<noteq> app then Inl (InvalidJoinAppError app a)
                      else Inr \<lparr>ja_app = app, ja_coordinator = whoami,
                             ja_membership = membershipAsChanges whoami (n_membership n),
                             ja_checksum = ms_checksum (n_membership n)\<rparr>)
         | _ \<Rightarrow> Inl Missing_fields))"

end
