(* ===== verification/Joiner_Properties.thy ===== *)
theory Joiner_Properties
  imports Joiner
begin

text \<open>
  A join never stalls, retries boundedly often, and calls back once, with enough distinct nodes
  of the bootstrap list or an error.
\<close>

section \<open>Selecting\<close>

lemma takeNode_mset: "hosts \<noteq> [] \<Longrightarrow> takeNode pick hosts = (h, rest) \<Longrightarrow> mset hosts = add_mset h (mset rest)"
proof -
  assume ne: "hosts \<noteq> []" and t: "takeNode pick hosts = (h, rest)"
  define i where "i = pick hosts mod length hosts"
  have i: "i < length hosts" using ne by (simp add: i_def)
  have "h = hosts ! i" "rest = take i hosts @ drop (Suc i) hosts"
    using t by (simp_all add: takeNode_def Let_def i_def)
  moreover have "mset hosts = mset (take i hosts @ hosts ! i # drop (Suc i) hosts)"
    using id_take_nth_drop [OF i] by simp
  ultimately show ?thesis by simp
qed

lemma select_loop_correct:
  "select_loop pick n pref others grp = (g, p, q) \<Longrightarrow>
    mset g + mset p + mset q = mset grp + mset pref + mset others \<and>
    (\<exists>taken. g = grp @ taken) \<and>
    (int (length grp) < n \<and> pref @ others \<noteq> [] \<longrightarrow> length grp < length g)"
proof (induction pick n pref others grp rule: select_loop.induct)
  case (1 pick n pref others grp)
  show ?case
  proof (cases "int (length grp) = n")
    case True
    then show ?thesis using "1.prems" by (subst (asm) select_loop.simps) auto
  next
    case more: False
    show ?thesis
    proof (cases "pref = []")
      case False
      obtain h rest where t: "takeNode pick pref = (h, rest)" by fastforce
      have "select_loop pick n rest others (grp @ [h]) = (g, p, q)"
        using "1.prems" more False t by (subst (asm) select_loop.simps) simp
      with "1.IH"(1) [OF more False t [symmetric]] takeNode_mset [OF False t]
      show ?thesis by (auto simp: ac_simps)
    next
      case pref: True
      show ?thesis
      proof (cases "others = []")
        case True
        then show ?thesis using "1.prems" more pref by (subst (asm) select_loop.simps) auto
      next
        case False
        obtain h rest where t: "takeNode pick others = (h, rest)" by fastforce
        have "select_loop pick n pref rest (grp @ [h]) = (g, p, q)"
          using "1.prems" more False pref t by (subst (asm) select_loop.simps) simp
        with "1.IH"(2) [OF more _ False t [symmetric]] takeNode_mset [OF False t] pref
        show ?thesis by (auto simp: ac_simps)
      qed
    qed
  qed
qed

definition pool :: "joiner \<Rightarrow> string list" where
  "pool j = j_roundPreferredNodes j @ j_roundNonPreferredNodes j"

text \<open>What a joiner never changes.\<close>

definition same_target :: "joiner \<Rightarrow> joiner \<Rightarrow> bool" where
  "same_target j j' \<longleftrightarrow> j_hostPort j' = j_hostPort j \<and> j_bootstrapHosts j' = j_bootstrapHosts j \<and>
     j_joinSize j' = j_joinSize j \<and> j_parallelismFactor j' = j_parallelismFactor j \<and>
     j_joinRetries j' = j_joinRetries j \<and> j_joinResponses j' = j_joinResponses j"

definition targets :: "joiner \<Rightarrow> string list" where
  "targets j = collectPotentialNodes [] j"

lemma same_target_targets: "same_target j j' \<Longrightarrow> targets j' = targets j"
  by (simp add: same_target_def targets_def collectPotentialNodes_def)

lemma pool_init:
  "(distinct (targets j) \<longrightarrow> distinct (pool (j_init joined j))) \<and>
    set (pool (j_init joined j)) = set (targets j) - set joined \<and> same_target j (j_init joined j)"
proof -
  define P where "P = collectPotentialNodes joined j"
  have "P = [h \<leftarrow> targets j. h \<notin> set joined]"
    by (simp add: P_def targets_def collectPotentialNodes_def conj_commute)
  then have P: "distinct (targets j) \<Longrightarrow> distinct P" "set P = set (targets j) - set joined" by auto
  show ?thesis
    using P unfolding pool_def j_init_def Let_def collectPreferredNodes_def collectNonPreferredNodes_def
    by (auto simp: same_target_def P_def [symmetric] filter_empty_conv)
qed

lemma selectGroup_correct:
  assumes sel: "selectGroup pick joined j = (grp, j')" and pool: "set (pool j) \<subseteq> set (targets j)"
    and left: "length joined < j_joinSize j" "j_joinSize j \<le> card (set (targets j))"
    and fac: "1 \<le> j_parallelismFactor j"
  shows "grp \<noteq> [] \<and> set (grp @ pool j') \<subseteq> set (targets j) \<and> same_target j j' \<and>
    (distinct (targets j) \<and> distinct (pool j @ joined) \<longrightarrow> distinct (grp @ pool j' @ joined))"
proof -
  define j1 where "j1 = (if j_roundPreferredNodes j = [] \<and> j_roundNonPreferredNodes j = []
               then j_init joined j else j)"
  have j1: "set (pool j1) \<subseteq> set (targets j)" "same_target j j1"
    "distinct (targets j) \<and> distinct (pool j @ joined) \<Longrightarrow> distinct (pool j1 @ joined)"
    using pool pool_init [of j joined] by (auto simp: j1_def same_target_def)
  have "card (set joined) < card (set (targets j))"
    using left card_length [of joined] by simp
  then have "set (targets j) - set joined \<noteq> {}"
    by (metis Diff_eq_empty_iff card_mono finite_set not_less)
  then have ne: "pool j1 \<noteq> []"
    using pool_init [of j joined] by (auto simp: j1_def pool_def split: if_splits)
  define n where "n = (int (j_joinSize j1) - int (length joined)) * j_parallelismFactor j1"
  have "0 < n"
    using left fac j1(2) by (simp add: n_def same_target_def)
  obtain p q where loop: "select_loop pick n (j_roundPreferredNodes j1) (j_roundNonPreferredNodes j1) []
      = (grp, p, q)"
    and j': "j' = j1\<lparr>j_roundPreferredNodes := p, j_roundNonPreferredNodes := q\<rparr>"
    using sel by (auto simp: selectGroup_def Let_def j1_def [symmetric] n_def split: prod.splits)
  note c = select_loop_correct [OF loop]
  have m: "mset (grp @ pool j') = mset (pool j1)"
    using c by (simp add: j' pool_def ac_simps)
  then have "mset (grp @ pool j' @ joined) = mset (pool j1 @ joined)"
    by (simp add: union_assoc [symmetric])
  then have "distinct (grp @ pool j' @ joined) \<longleftrightarrow> distinct (pool j1 @ joined)"
    by (rule mset_eq_imp_distinct_iff)
  moreover have "set (grp @ pool j') = set (pool j1)" using mset_eq_setD [OF m] .
  moreover have "grp \<noteq> []" using c \<open>0 < n\<close> ne by (auto simp: pool_def)
  moreover have "same_target j j'" using j1(2) by (simp add: j' same_target_def)
  ultimately show ?thesis using j1 by blast
qed

section \<open>Runs\<close>

text \<open>Time passes, the node may be destroyed, requests are answered in any order, retries fire.\<close>

inductive join_run :: "config \<Rightarrow> string \<Rightarrow> joiner \<Rightarrow> int \<Rightarrow> joining \<Rightarrow> bool"
  for cfg whoami j0 where
  start: "join_run cfg whoami j0 now (start_join pick now False j0)"
| tick: "join_run cfg whoami j0 now s \<Longrightarrow> now \<le> now' \<Longrightarrow> join_run cfg whoami j0 now' s"
| destroy: "join_run cfg whoami j0 now s \<Longrightarrow> join_run cfg whoami j0 now (s\<lparr>jn_destroyed := True\<rparr>)"
| reply: "join_run cfg whoami j0 now s \<Longrightarrow> node \<in> set (jn_waiting s) \<Longrightarrow> 0 \<le> r \<Longrightarrow>
    join_run cfg whoami j0 now (on_join_reply cfg whoami r now node res s)"
| retry: "join_run cfg whoami j0 now s \<Longrightarrow> jn_retryAt s = Some d \<Longrightarrow> d \<le> now \<Longrightarrow>
    join_run cfg whoami j0 now (on_retry pick s)"

text \<open>
  The bootstrap hosts name at least as many distinct nodes, besides the node itself, as are to be
  joined, and at least one is. Nothing is asked of the list beyond that: it may have duplicates.
\<close>

definition enough_hosts :: "joiner \<Rightarrow> bool" where
  "enough_hosts j \<longleftrightarrow> 0 < j_joinSize j \<and> j_joinSize j \<le> card (set (targets j)) \<and> 1 \<le> j_parallelismFactor j"

text \<open>A joiner as it is constructed.\<close>

definition fresh_joiner :: "joiner \<Rightarrow> bool" where
  "fresh_joiner j \<longleftrightarrow> pool j = [] \<and> j_joinResponses j \<noteq> None \<and> j_joinRetries j = 0"

definition fixed :: "joiner \<Rightarrow> joiner \<Rightarrow> bool" where
  "fixed j0 j \<longleftrightarrow> j_hostPort j = j_hostPort j0 \<and> j_bootstrapHosts j = j_bootstrapHosts j0 \<and>
     j_joinSize j = j_joinSize j0 \<and> j_parallelismFactor j = j_parallelismFactor j0"

definition group_ok :: "joiner \<Rightarrow> joining \<Rightarrow> join_group \<Rightarrow> bool" where
  "group_ok j0 s g \<longleftrightarrow>
     (distinct (j_bootstrapHosts j0) \<longrightarrow>
       distinct (jn_waiting s @ gr_joined g @ gr_failed g @ pool (jn_joiner s) @ jn_nodesJoined s)) \<and>
     set (jn_waiting s @ gr_joined g @ gr_failed g) \<subseteq> set (targets j0) \<and> jn_waiting s \<noteq> [] \<and>
     gr_size g = length (jn_waiting s) + length (gr_joined g) + length (gr_failed g) \<and>
     gr_left g = int (j_joinSize j0) - int (length (jn_nodesJoined s)) \<and>
     int (length (gr_joined g)) < gr_left g"

definition open_ok :: "joiner \<Rightarrow> joining \<Rightarrow> bool" where
  "open_ok j0 s \<longleftrightarrow> j_joinResponses (jn_joiner s) \<noteq> None \<and> jn_update s = None \<and>
     (case jn_group s of
        Some g \<Rightarrow> jn_retryAt s = None \<and> group_ok j0 s g
      | None \<Rightarrow> jn_retryAt s \<noteq> None \<and> jn_waiting s = [] \<and> length (jn_nodesJoined s) < j_joinSize j0)"

definition closed_ok :: "joiner \<Rightarrow> joining \<Rightarrow> join_error + string list \<Rightarrow> bool" where
  "closed_ok j0 s res \<longleftrightarrow> jn_group s = None \<and> jn_retryAt s = None \<and>
     (case res of
        Inr ns \<Rightarrow> ns = jn_nodesJoined s \<and> j_joinSize j0 \<le> length ns \<and> jn_update s \<noteq> None
      | Inl e \<Rightarrow> jn_update s = None)"

definition join_ok :: "joiner \<Rightarrow> joining \<Rightarrow> bool" where
  "join_ok j0 s \<longleftrightarrow> fixed j0 (jn_joiner s) \<and>
     (distinct (j_bootstrapHosts j0) \<longrightarrow> distinct (pool (jn_joiner s) @ jn_nodesJoined s)) \<and>
     set (pool (jn_joiner s) @ jn_nodesJoined s) \<subseteq> set (targets j0) \<and>
     (case jn_result s of None \<Rightarrow> open_ok j0 s | Some res \<Rightarrow> closed_ok j0 s res)"

lemma fixed_targets: "fixed j0 j \<Longrightarrow> targets j = targets j0"
  by (simp add: fixed_def targets_def collectPotentialNodes_def)

lemma distinct_targets: "distinct (j_bootstrapHosts j0) \<Longrightarrow> distinct (targets j0)"
  by (simp add: targets_def collectPotentialNodes_def)

lemma distinct_hosts_enough:
  assumes "distinct (j_bootstrapHosts j)" "0 < j_joinSize j" "j_joinSize j \<le> length (targets j)"
    "1 \<le> j_parallelismFactor j"
  shows "enough_hosts j"
  using assms distinct_targets by (simp add: enough_hosts_def distinct_card)

text \<open>What opening a group leaves alone, whatever the hosts.\<close>

lemma selectGroup_frame:
  assumes "selectGroup pick joined j = (grp, j')"
  shows "same_target j j'"
proof -
  have "same_target j (j_init joined j)" "same_target j j" using pool_init by (auto simp: same_target_def)
  then show ?thesis
    using assms by (auto simp: selectGroup_def Let_def same_target_def split: prod.splits if_splits)
qed

lemma joinGroup_frame:
  "same_target (jn_joiner s) (jn_joiner (joinGroup pick s))" "jn_startTime (joinGroup pick s) = jn_startTime s"
  "jn_retryAt (joinGroup pick s) = jn_retryAt s" "jn_result (joinGroup pick s) = jn_result s"
  "jn_update (joinGroup pick s) = jn_update s"
  using selectGroup_frame by (auto simp: joinGroup_def split: prod.splits)

lemma joinGroup_ok:
  assumes good: "enough_hosts j0" and fxd: "fixed j0 (jn_joiner s)"
    and dist: "distinct (j_bootstrapHosts j0) \<longrightarrow> distinct (pool (jn_joiner s) @ jn_nodesJoined s)"
    and sub: "set (pool (jn_joiner s) @ jn_nodesJoined s) \<subseteq> set (targets j0)"
    and left: "length (jn_nodesJoined s) < j_joinSize j0" and idle: "jn_waiting s = []"
    and s: "jn_result s = None" "jn_retryAt s = None" "jn_update s = None"
      "j_joinResponses (jn_joiner s) \<noteq> None"
  shows "join_ok j0 (joinGroup pick s)"
proof -
  obtain grp j where sel: "selectGroup pick (jn_nodesJoined s) (jn_joiner s) = (grp, j)" by fastforce
  have t: "targets (jn_joiner s) = targets j0" by (rule fixed_targets [OF fxd])
  have c: "grp \<noteq> [] \<and> set (grp @ pool j) \<subseteq> set (targets j0) \<and> same_target (jn_joiner s) j \<and>
      (distinct (targets j0) \<and> distinct (pool (jn_joiner s) @ jn_nodesJoined s) \<longrightarrow>
        distinct (grp @ pool j @ jn_nodesJoined s))"
    unfolding t [symmetric]
    by (rule selectGroup_correct [OF sel]) (use sub left good fxd t in \<open>auto simp: enough_hosts_def fixed_def\<close>)
  then have "distinct (j_bootstrapHosts j0) \<longrightarrow> distinct (grp @ pool j @ jn_nodesJoined s)"
    using dist distinct_targets by blast
  moreover have "fixed j0 j" using c fxd by (simp add: fixed_def same_target_def)
  ultimately show ?thesis
    using c sub left s idle
    by (auto simp: joinGroup_def sel join_ok_def open_ok_def group_ok_def same_target_def fixed_def)
qed

lemma start_frame:
  "fixed j0 (jn_joiner (start_join pick now d j0))" "jn_startTime (start_join pick now d j0) = now"
  "jn_retryAt (start_join pick now d j0) = None"
  "j_joinRetries (jn_joiner (start_join pick now d j0)) = j_joinRetries j0"
  using joinGroup_frame [where pick = pick and s = "\<lparr>jn_joiner = j0, jn_destroyed = d, jn_nodesJoined = [], jn_group = None,
    jn_waiting = [], jn_startTime = now, jn_retryAt = None, jn_update = None, jn_result = None\<rparr>"]
  by (auto simp: start_join_def Let_def fixed_def same_target_def)

lemma start_ok:
  assumes "enough_hosts j0" "fresh_joiner j0"
  shows "join_ok j0 (start_join pick now False j0)"
proof -
  have "targets j0 \<noteq> []" using assms(1) by (auto simp: enough_hosts_def)
  then have "\<not> isSingleNodeCluster j0"
    by (auto simp: isSingleNodeCluster_def targets_def collectPotentialNodes_def)
  moreover let ?s = "\<lparr>jn_joiner = j0, jn_destroyed = False, jn_nodesJoined = [], jn_group = None,
    jn_waiting = [], jn_startTime = now, jn_retryAt = None, jn_update = None, jn_result = None\<rparr>"
  have "join_ok j0 (joinGroup pick ?s)"
    using assms by (intro joinGroup_ok) (simp_all add: enough_hosts_def fresh_joiner_def fixed_def)
  ultimately show ?thesis by (simp add: start_join_def)
qed

lemma distinct_remove1_move:
  assumes "w \<in> set ws"
  shows "distinct (remove1 w ws @ w # zs) \<longleftrightarrow> distinct (ws @ zs)" "set (remove1 w ws @ w # zs) = set (ws @ zs)"
    "Suc (length (remove1 w ws)) = length ws"
proof -
  have m: "mset (remove1 w ws @ w # zs) = mset (ws @ zs)" using assms by simp
  then show "distinct (remove1 w ws @ w # zs) \<longleftrightarrow> distinct (ws @ zs)" by (rule mset_eq_imp_distinct_iff)
  show "set (remove1 w ws @ w # zs) = set (ws @ zs)" by (rule mset_eq_setD [OF m])
  show "Suc (length (remove1 w ws)) = length ws"
    using assms by (simp add: length_remove1) (metis Suc_pred length_pos_if_in_set)
qed

text \<open>A reply in a group that is open; \<^theory_text>\<open>s\<close> is the state without the request.\<close>

lemma node_done_ok:
  assumes fxd: "fixed j0 (jn_joiner s)" and res: "jn_result s = None" and g: "jn_group s = Some g"
    and s: "jn_retryAt s = None" "jn_update s = None" "j_joinResponses (jn_joiner s) \<noteq> None"
    and dist: "distinct (j_bootstrapHosts j0) \<longrightarrow>
      distinct (jn_waiting s @ node # gr_joined g @ gr_failed g @ pool (jn_joiner s) @ jn_nodesJoined s)"
    and sub: "set (jn_waiting s @ node # gr_joined g @ gr_failed g @ pool (jn_joiner s) @ jn_nodesJoined s)
      \<subseteq> set (targets j0)"
    and size: "gr_size g = Suc (length (jn_waiting s) + length (gr_joined g) + length (gr_failed g))"
    and left: "gr_left g = int (j_joinSize j0) - int (length (jn_nodesJoined s))"
      "int (length (gr_joined g)) < gr_left g"
  shows "join_ok j0 (node_done cfg whoami r now err node s)"
proof -
  define g1 where "g1 = (if err then g\<lparr>gr_failed := gr_failed g @ [node]\<rparr>
    else g\<lparr>gr_joined := gr_joined g @ [node]\<rparr>)"
  have g1: "gr_size g1 = length (jn_waiting s) + length (gr_joined g1) + length (gr_failed g1)"
    "gr_left g1 = gr_left g"
    "mset (gr_joined g1) + mset (gr_failed g1) = add_mset node (mset (gr_joined g) + mset (gr_failed g))"
    using size by (auto simp: g1_def)
  have "mset (jn_waiting s @ gr_joined g1 @ gr_failed g1 @ pool (jn_joiner s) @ jn_nodesJoined s) =
      mset (jn_waiting s @ node # gr_joined g @ gr_failed g @ pool (jn_joiner s) @ jn_nodesJoined s)"
    using g1(3) by (simp add: union_assoc [symmetric])
  then have d1: "distinct (j_bootstrapHosts j0) \<longrightarrow>
      distinct (jn_waiting s @ gr_joined g1 @ gr_failed g1 @ pool (jn_joiner s) @ jn_nodesJoined s)"
    and s1: "set (jn_waiting s @ gr_joined g1 @ gr_failed g1 @ pool (jn_joiner s) @ jn_nodesJoined s)
      \<subseteq> set (targets j0)"
    using dist sub mset_eq_imp_distinct_iff mset_eq_setD by metis+
  have size0: "j_joinSize (jn_joiner s) = j_joinSize j0" using fxd by (simp add: fixed_def)
  show ?thesis
  proof (cases "gr_left g1 \<le> int (length (gr_joined g1)) \<or>
      gr_size g1 \<le> length (gr_joined g1) + length (gr_failed g1)")
    case False
    then have "jn_waiting s \<noteq> []" using g1(1) by auto
    then show ?thesis
      using False fxd res g s d1 s1 g1 left
      by (simp add: node_done_def g1_def [symmetric] Let_def join_ok_def open_ok_def group_ok_def)
  next
    case True
    have fin: "node_done cfg whoami r now err node s =
        group_done cfg whoami r now (gr_joined g1) (s\<lparr>jn_group := None\<rparr>)"
      using True g by (simp add: node_done_def g1_def [symmetric] Let_def)
    have joined: "distinct (j_bootstrapHosts j0) \<longrightarrow> distinct (pool (jn_joiner s) @ jn_nodesJoined s @ gr_joined g1)"
      "set (pool (jn_joiner s) @ jn_nodesJoined s @ gr_joined g1) \<subseteq> set (targets j0)"
      using d1 s1 by auto
    have idle: "jn_waiting s = []" if "length (jn_nodesJoined s) + length (gr_joined g1) < j_joinSize j0"
      using True that g1(1, 2) left by auto
    have pool_same: "pool (j\<lparr>j_joinResponses := x\<rparr>) = pool j" "pool (j\<lparr>j_joinDelay := y\<rparr>) = pool j"
      for j x y by (simp_all add: pool_def)
    have fixed_same: "fixed j0 (j\<lparr>j_joinResponses := x\<rparr>) = fixed j0 j"
      "fixed j0 (j\<lparr>j_joinDelay := y\<rparr>) = fixed j0 j" for j x y
      by (simp_all add: fixed_def)
    show ?thesis
      unfolding fin group_done_def
      using joined idle fxd res s size0
      by (auto simp: Let_def join_ok_def open_ok_def closed_ok_def pool_same fixed_same not_le)
  qed
qed

lemma reply_ok:
  assumes ok: "join_ok j0 s" and node: "node \<in> set (jn_waiting s)"
  shows "join_ok j0 (on_join_reply cfg whoami r now node res s)"
proof (cases "jn_result s")
  case (Some x)
  then have "jn_group s = None" using ok by (simp add: join_ok_def closed_ok_def)
  then show ?thesis
    using ok Some by (auto simp: on_join_reply_def node_done_def join_ok_def closed_ok_def Let_def
        pool_def fixed_def split: join_reply.split option.splits sum.splits)
next
  case None
  then have op: "open_ok j0 s" using ok by (simp add: join_ok_def)
  then obtain g where g: "jn_group s = Some g" "group_ok j0 s g" "jn_retryAt s = None"
    using node by (auto simp: open_ok_def split: option.splits)
  have dist: "distinct (j_bootstrapHosts j0) \<longrightarrow>
      distinct (jn_waiting s @ gr_joined g @ gr_failed g @ pool (jn_joiner s) @ jn_nodesJoined s)"
    and sub: "set (jn_waiting s @ gr_joined g @ gr_failed g @ pool (jn_joiner s) @ jn_nodesJoined s)
      \<subseteq> set (targets j0)"
    using g(2) ok by (auto simp: group_ok_def join_ok_def)
  note mv = distinct_remove1_move [OF node]
  have moved: "distinct (j_bootstrapHosts j0) \<longrightarrow>
      distinct (remove1 node (jn_waiting s) @ node # gr_joined g @ gr_failed g @ pool (jn_joiner s) @ jn_nodesJoined s)"
    unfolding mv(1) by (rule dist)
  obtain rs where rs: "j_joinResponses (jn_joiner s) = Some rs" "jn_update s = None"
    using op by (auto simp: open_ok_def)
  define s1 where "s1 = s\<lparr>jn_waiting := remove1 node (jn_waiting s)\<rparr>"
  have step: "join_ok j0 (node_done cfg whoami r now err node (s1\<lparr>jn_joiner := j\<rparr>))"
    if j: "fixed j0 j" "pool j = pool (jn_joiner s)" "j_joinResponses j \<noteq> None" for err j
  proof (rule node_done_ok)
    show "fixed j0 (jn_joiner (s1\<lparr>jn_joiner := j\<rparr>))" "j_joinResponses (jn_joiner (s1\<lparr>jn_joiner := j\<rparr>)) \<noteq> None"
      using j by simp_all
    show "distinct (j_bootstrapHosts j0) \<longrightarrow> distinct (jn_waiting (s1\<lparr>jn_joiner := j\<rparr>) @ node # gr_joined g @ gr_failed g @
        pool (jn_joiner (s1\<lparr>jn_joiner := j\<rparr>)) @ jn_nodesJoined (s1\<lparr>jn_joiner := j\<rparr>))"
      using moved j by (simp add: s1_def)
    show "set (jn_waiting (s1\<lparr>jn_joiner := j\<rparr>) @ node # gr_joined g @ gr_failed g @
        pool (jn_joiner (s1\<lparr>jn_joiner := j\<rparr>)) @ jn_nodesJoined (s1\<lparr>jn_joiner := j\<rparr>)) \<subseteq> set (targets j0)"
      using node set_remove1_subset [of node "jn_waiting s"] sub j by (auto simp: s1_def)
  qed (use g rs None mv(3) in \<open>simp_all add: s1_def group_ok_def\<close>)
  have fxd: "fixed j0 (jn_joiner s)" using ok by (simp add: join_ok_def)
  have same: "s1\<lparr>jn_joiner := jn_joiner s\<rparr> = s1" by (simp add: s1_def)
  have push: "fixed j0 ((jn_joiner s)\<lparr>j_joinResponses := x\<rparr>) \<and>
      pool ((jn_joiner s)\<lparr>j_joinResponses := x\<rparr>) = pool (jn_joiner s)" for x
    using fxd by (simp add: fixed_def pool_def)
  show ?thesis
    using step [of "jn_joiner s"] step [of "(jn_joiner s)\<lparr>j_joinResponses := Some (rs @ [x])\<rparr>" for x]
      fxd rs push same
    by (auto simp: on_join_reply_def Let_def s1_def [symmetric] split: join_reply.split option.split)
      (simp_all add: s1_def)
qed

lemma retry_frame:
  "fixed (jn_joiner s) (jn_joiner (on_retry pick s))" "jn_startTime (on_retry pick s) = jn_startTime s"
  "jn_retryAt (on_retry pick s) = None"
  "j_joinRetries (jn_joiner (on_retry pick s)) = Suc (j_joinRetries (jn_joiner s))"
  using joinGroup_frame [where pick = pick and s = "s\<lparr>jn_retryAt := None, jn_joiner := (jn_joiner s)\<lparr>j_joinRetries :=
    Suc (j_joinRetries (jn_joiner s))\<rparr>\<rparr>"]
  by (auto simp: on_retry_def Let_def fixed_def same_target_def)

lemma retry_ok:
  assumes good: "enough_hosts j0" and ok: "join_ok j0 s" and d: "jn_retryAt s = Some d"
  shows "join_ok j0 (on_retry pick s)"
proof -
  have open_s: "jn_result s = None" "open_ok j0 s"
    using ok d by (auto simp: join_ok_def closed_ok_def split: option.splits)
  then have "jn_group s = None" using d by (auto simp: open_ok_def split: option.splits)
  then have w: "jn_waiting s = []" "length (jn_nodesJoined s) < j_joinSize j0"
    using open_s(2) by (simp_all add: open_ok_def)
  show ?thesis
    unfolding on_retry_def Let_def
    by (rule joinGroup_ok [OF good])
      (use ok open_s w in \<open>simp_all add: join_ok_def open_ok_def fixed_def pool_def\<close>)
qed

section \<open>Time\<close>

definition min_delay :: "config \<Rightarrow> int" where
  "min_delay cfg = min (c_joinDelayMax cfg) (c_joinDelayMin cfg)"

text \<open>How late it is, at least, by the number of retries.\<close>

definition time_ok :: "config \<Rightarrow> int \<Rightarrow> joining \<Rightarrow> bool" where
  "time_ok cfg now s \<longleftrightarrow>
    (let k = int (j_joinRetries (jn_joiner s)) in
     jn_startTime s + min_delay cfg * k \<le> now \<and>
     min_delay cfg * k \<le> c_maxJoinDuration cfg + min_delay cfg \<and>
     (\<forall>d. jn_retryAt s = Some d \<longrightarrow> jn_startTime s + min_delay cfg * (k + 1) \<le> d \<and>
        min_delay cfg * k \<le> c_maxJoinDuration cfg))"

lemma retry_delay_ge:
  assumes "0 \<le> r" and "0 \<le> c_joinDelayMin cfg"
  shows "min_delay cfg \<le> retry_delay cfg r k"
proof -
  let ?n = "c_joinDelayMin cfg * 2 ^ k"
  have "(1::int) \<le> 2 ^ k" by simp
  then have n: "c_joinDelayMin cfg \<le> ?n" using mult_left_mono [OF _ assms(2)] by fastforce
  have "0 \<le> r * (real_of_int ?n * 1.5 - real_of_int ?n)"
    using assms n by (intro mult_nonneg_nonneg) linarith+
  then have "0 \<le> \<lfloor>r * (real_of_int ?n * 1.5 - real_of_int ?n)\<rfloor>" by simp
  then have "c_joinDelayMin cfg \<le> \<lfloor>r * (real_of_int ?n * 1.5 - real_of_int ?n)\<rfloor> + ?n"
    using n by linarith
  then show ?thesis
    unfolding retry_delay_def min_delay_def Let_def by (rule min.mono [OF order_refl])
qed

lemma node_done_time:
  assumes ok: "time_ok cfg now s" and r: "0 \<le> r" "0 \<le> c_joinDelayMin cfg"
  shows "time_ok cfg now (node_done cfg whoami r now err node s)"
proof -
  have done_ok: "time_ok cfg now (group_done cfg whoami r now ns s)" if "time_ok cfg now s" for ns s
    using that retry_delay_ge [OF r, of "j_joinRetries (jn_joiner s)"]
    by (auto simp: group_done_def time_ok_def Let_def distrib_left not_less)
  have frame: "time_ok cfg now (s\<lparr>jn_group := g\<rparr>)" for g
    using ok by (simp add: time_ok_def)
  show ?thesis
    unfolding node_done_def Let_def using ok frame done_ok [OF frame] by (auto split: option.split)
qed

lemma reply_time:
  assumes "time_ok cfg now s" and "0 \<le> r" and "0 \<le> c_joinDelayMin cfg"
  shows "time_ok cfg now (on_join_reply cfg whoami r now node res s)"
proof -
  have "time_ok cfg now (s\<lparr>jn_waiting := w, jn_joiner := j\<rparr>)"
    if "j_joinRetries j = j_joinRetries (jn_joiner s)" for w j
    using assms(1) that by (simp add: time_ok_def)
  moreover have "time_ok cfg now (s\<lparr>jn_waiting := w\<rparr>)" for w
    using assms(1) by (simp add: time_ok_def)
  ultimately show ?thesis
    using assms(2, 3) by (auto simp: on_join_reply_def Let_def intro!: node_done_time
        split: join_reply.split option.split)
qed

lemma node_done_fixed: "fixed (jn_joiner s) (jn_joiner (node_done cfg whoami r now err node s))"
  by (auto simp: node_done_def group_done_def fixed_def Let_def split: option.split)

lemma reply_fixed: "fixed (jn_joiner s) (jn_joiner (on_join_reply cfg whoami r now node res s))"
proof -
  have *: "fixed (jn_joiner s) (jn_joiner (node_done cfg whoami r now err node s'))"
    if "fixed (jn_joiner s) (jn_joiner s')" for s' err
    using node_done_fixed [of s' cfg whoami r now err node] that by (simp add: fixed_def)
  show ?thesis
    unfolding on_join_reply_def Let_def
    by (cases res) (auto split: option.split intro!: *, simp_all add: fixed_def)
qed

lemma join_run_fixed: "join_run cfg whoami j0 now s \<Longrightarrow> fixed j0 (jn_joiner s)"
proof (induction rule: join_run.induct)
  case (reply now s node r res)
  then show ?case using reply_fixed [of s cfg whoami r now node res] by (simp add: fixed_def)
next
  case (retry now s d pick)
  then show ?case using retry_frame(1) [where s = s and pick = pick] by (simp add: fixed_def)
qed (simp_all add: start_frame)

lemma fixed_enough:
  assumes "fixed j0 j"
  shows "enough_hosts j \<longleftrightarrow> enough_hosts j0"
  using fixed_targets [OF assms] assms by (simp add: enough_hosts_def fixed_def)

lemma join_run_ok:
  assumes "join_run cfg whoami j0 now s" and good: "enough_hosts j0" "fresh_joiner j0"
  shows "join_ok j0 s"
  using assms(1)
proof (induction rule: join_run.induct)
  case (start now pick)
  show ?case by (rule start_ok [OF good])
next
  case (tick now s now')
  then show ?case by simp
next
  case (destroy now s)
  then show ?case
    by (auto simp: join_ok_def open_ok_def closed_ok_def group_ok_def split: option.splits sum.splits)
next
  case (reply now s node r res)
  then show ?case using reply_ok by blast
next
  case (retry now s d pick)
  then show ?case using retry_ok [OF good(1)] by blast
qed

lemma join_run_time:
  assumes "join_run cfg whoami j0 now s" and good: "fresh_joiner j0"
    and delays: "0 \<le> c_joinDelayMin cfg" "0 \<le> c_joinDelayMax cfg" "0 \<le> c_maxJoinDuration cfg"
  shows "time_ok cfg now s"
  using assms(1)
proof (induction rule: join_run.induct)
  case (start now pick)
  then show ?case
    using good delays by (simp add: start_frame time_ok_def min_delay_def fresh_joiner_def)
next
  case (reply now s node r res)
  then show ?case using reply_time delays by blast
next
  case (retry now s d pick)
  then show ?case
    using retry_frame [where s = s and pick = pick] by (auto simp: time_ok_def Let_def distrib_left algebra_simps)
qed (auto simp: time_ok_def Let_def)

text \<open>
  C34: as long as the bootstrap hosts name at least as many distinct nodes besides the node itself as
  are to be joined, and at least one is to be, a join always has something to wait for: until it has
  called back, requests of its group are under way or the next retry is scheduled. The hosts may be
  listed more than once. Whatever the hosts, it retries at most
  \<open>maxJoinDuration / min(joinDelayMin, joinDelayMax) + 1\<close> times.
\<close>

theorem join_never_stalls:
  assumes run: "join_run cfg whoami j0 now s" and fresh: "fresh_joiner j0"
    and delays: "0 < c_joinDelayMin cfg" "0 < c_joinDelayMax cfg" "0 \<le> c_maxJoinDuration cfg"
  shows "(enough_hosts j0 \<and> jn_result s = None \<longrightarrow>
      (jn_waiting s \<noteq> [] \<and> jn_group s \<noteq> None \<and> jn_retryAt s = None \<or>
       jn_waiting s = [] \<and> (\<exists>d. jn_retryAt s = Some d))) \<and>
    int (j_joinRetries (jn_joiner s)) \<le>
      c_maxJoinDuration cfg div min (c_joinDelayMax cfg) (c_joinDelayMin cfg) + 1"
proof -
  have ok: "time_ok cfg now s" using join_run_time [OF run fresh] delays by simp
  let ?k = "int (j_joinRetries (jn_joiner s))" and ?d = "min_delay cfg"
  have d: "0 < ?d" using delays by (simp add: min_delay_def)
  have "?k * ?d \<le> c_maxJoinDuration cfg + ?d"
    using ok by (simp add: time_ok_def Let_def mult.commute)
  then have "(?k - 1) * ?d \<le> c_maxJoinDuration cfg" by (simp add: algebra_simps)
  then have "?k - 1 \<le> c_maxJoinDuration cfg div ?d"
    using d by (metis nonzero_mult_div_cancel_right order_less_irrefl zdiv_mono1)
  moreover have "jn_waiting s \<noteq> [] \<and> jn_group s \<noteq> None \<and> jn_retryAt s = None \<or>
      jn_waiting s = [] \<and> (\<exists>d. jn_retryAt s = Some d)" if "enough_hosts j0 \<and> jn_result s = None"
    using join_run_ok [OF run _ fresh] that
    by (auto simp: join_ok_def open_ok_def group_ok_def split: option.splits)
  ultimately show ?thesis by (simp add: min_delay_def)
qed

text \<open>
  a join that succeeds has joined nodes of the bootstrap list other than itself, at least as many as
  it was asked for, distinct ones where the list is, and has set the merged members once; whatever is
  answered later changes neither its result nor the update.
\<close>

theorem join_success_correct:
  assumes run: "join_run cfg whoami j0 now s" and good: "enough_hosts j0" "fresh_joiner j0"
    and res: "jn_result s = Some res"
  shows "(\<forall>ns. res = Inr ns \<longrightarrow> j_joinSize j0 \<le> length ns \<and>
       (distinct (j_bootstrapHosts j0) \<longrightarrow> distinct ns) \<and>
       set ns \<subseteq> set (j_bootstrapHosts j0) - {j_hostPort j0}) \<and>
    (jn_update s \<noteq> None \<longleftrightarrow> (\<exists>ns. res = Inr ns)) \<and> jn_retryAt s = None \<and>
    jn_result (on_join_reply cfg whoami r now node reply s) = Some res \<and>
    jn_update (on_join_reply cfg whoami r now node reply s) = jn_update s"
proof -
  have ok: "join_ok j0 s" by (rule join_run_ok [OF run good])
  have "set (jn_nodesJoined s) \<subseteq> set (j_bootstrapHosts j0) - {j_hostPort j0}"
    using ok by (auto simp: join_ok_def targets_def collectPotentialNodes_def)
  moreover have c: "closed_ok j0 s res" "distinct (j_bootstrapHosts j0) \<longrightarrow> distinct (jn_nodesJoined s)"
    using ok res by (simp_all add: join_ok_def)
  moreover have "jn_group s = None" using c(1) by (simp add: closed_ok_def)
  ultimately show ?thesis
    using res by (auto simp: closed_ok_def on_join_reply_def node_done_def Let_def
        split: sum.splits join_reply.split)
qed

section \<open>A joiner at work\<close>

definition demo_hosts :: "string list \<Rightarrow> joiner" where
  "demo_hosts hosts = (case new_joiner default_config ''127.0.0.1:1'' hosts None None None of
     Inr j \<Rightarrow> j | Inl e \<Rightarrow> undefined)"

definition demo_join :: joining where
  "demo_join = start_join (\<lambda>hs. 0) 100 False
     (demo_hosts [''127.0.0.1:1'', ''127.0.0.1:2'', ''127.0.0.2:1''])"

definition demo_join_done :: joining where
  "demo_join_done = on_join_reply default_config ''127.0.0.1:1'' 0 100 ''127.0.0.1:2'' (Joined None)
     (on_join_reply default_config ''127.0.0.1:1'' 0 100 ''127.0.0.2:1'' (Joined None) demo_join)"

lemma demo_join_good:
  "enough_hosts (demo_hosts [''127.0.0.1:1'', ''127.0.0.1:2'', ''127.0.0.2:1''])"
  "fresh_joiner (demo_hosts [''127.0.0.1:1'', ''127.0.0.1:2'', ''127.0.0.2:1''])"
  by code_simp+

lemma demo_join_distinct:
  "distinct (j_bootstrapHosts (demo_hosts [''127.0.0.1:1'', ''127.0.0.1:2'', ''127.0.0.2:1'']))"
  by code_simp

lemma demo_join_run:
  "join_run default_config ''127.0.0.1:1''
     (demo_hosts [''127.0.0.1:1'', ''127.0.0.1:2'', ''127.0.0.2:1'']) 100 demo_join"
  unfolding demo_join_def by (rule join_run.start)

lemma demo_delays:
  "0 < c_joinDelayMin default_config" "0 < c_joinDelayMax default_config"
  "0 \<le> c_maxJoinDuration default_config"
  by code_simp+

text \<open>A host listed twice, and enough others.\<close>

definition demo_dup :: joining where
  "demo_dup = start_join (\<lambda>hs. 0) 100 False
     (demo_hosts [''127.0.0.1:1'', ''127.0.0.2:1'', ''127.0.0.2:1'', ''127.0.0.3:1'', ''127.0.0.4:1''])"

lemma join_never_stalls_witness:
  "jn_result demo_dup = None \<and> jn_waiting demo_dup \<noteq> [] \<and> jn_group demo_dup \<noteq> None \<and>
   j_joinRetries (jn_joiner demo_dup) \<le> 12001"
proof -
  let ?j = "demo_hosts [''127.0.0.1:1'', ''127.0.0.2:1'', ''127.0.0.2:1'', ''127.0.0.3:1'', ''127.0.0.4:1'']"
  have j: "enough_hosts ?j" "fresh_joiner ?j" by code_simp+
  have run: "join_run default_config ''127.0.0.1:1'' ?j 100 demo_dup"
    unfolding demo_dup_def by (rule join_run.start)
  have s: "jn_result demo_dup = None" "jn_retryAt demo_dup = None"
    "c_maxJoinDuration default_config div
      min (c_joinDelayMax default_config) (c_joinDelayMin default_config) + 1 = 12001"
    by code_simp+
  show ?thesis using join_never_stalls [OF run j(2) demo_delays] j(1) s by simp
qed

lemma join_success_correct_witness:
  "\<exists>ns. jn_result demo_join_done = Some (Inr ns) \<and> distinct ns \<and>
     set ns \<subseteq> {''127.0.0.1:2'', ''127.0.0.2:1''} \<and> jn_update demo_join_done \<noteq> None"
proof -
  have "''127.0.0.2:1'' \<in> set (jn_waiting demo_join)"
    "''127.0.0.1:2'' \<in> set (jn_waiting (on_join_reply default_config ''127.0.0.1:1'' 0 100 ''127.0.0.2:1''
       (Joined None) demo_join))" by code_simp+
  then have run: "join_run default_config ''127.0.0.1:1''
      (demo_hosts [''127.0.0.1:1'', ''127.0.0.1:2'', ''127.0.0.2:1'']) 100 demo_join_done"
    unfolding demo_join_done_def by (intro join_run.reply demo_join_run) simp_all
  have res: "jn_result demo_join_done = Some (Inr [''127.0.0.2:1'', ''127.0.0.1:2''])" by code_simp
  have hosts: "set (j_bootstrapHosts (demo_hosts [''127.0.0.1:1'', ''127.0.0.1:2'', ''127.0.0.2:1''])) -
      {j_hostPort (demo_hosts [''127.0.0.1:1'', ''127.0.0.1:2'', ''127.0.0.2:1''])} =
      {''127.0.0.1:2'', ''127.0.0.2:1''}" by code_simp
  show ?thesis
    using join_success_correct [OF run demo_join_good res] demo_join_distinct res hosts by simp
qed

text \<open>
  Bootstrap hosts that are not distinct defeat the joiner: after one of two equal entries was
  joined and the other failed, the retry selects an empty group, which never calls back.
\<close>

lemma duplicate_hosts_stall:
  "let s0 = start_join (\<lambda>hs. 0) 100 False (demo_hosts [''127.0.0.1:1'', ''a:2'', ''a:2'']);
       s1 = on_join_reply default_config ''127.0.0.1:1'' 0 100 ''a:2'' (Joined None) s0;
       s2 = on_join_reply default_config ''127.0.0.1:1'' 0 100 ''a:2'' Join_failed s1;
       s3 = on_retry (\<lambda>hs. 0) s2
   in jn_retryAt s2 = Some 200 \<and> jn_result s3 = None \<and> jn_waiting s3 = [] \<and> jn_retryAt s3 = None"
  by code_simp

end
