(* ===== verification/Healing.thy ===== *)
theory Healing
  imports Joiner
begin

text \<open>
  Healing a partitioned cluster: one attempt with a target (\<open>lib/partition_healing/healer.js\<close>), the
  heal over the hosts a discover provider names, and the timer that starts one now and then
  (\<open>discover_provider_healer.js\<close>).

  The join request an attempt begins with, the ping it ends with and the discover provider are outside: what
  they answer are arguments. A shuffle and a random number are arguments, too.
\<close>

section \<open>An attempt\<close>

definition heal_request :: "node_ctx \<Rightarrow> string \<Rightarrow> node \<Rightarrow> join_body" where
  "heal_request ctx app n =
     \<lparr>jb_app = Some app, jb_source = Some (x_whoami ctx), jb_incarnation = getIncarnationNumber (n_membership n)\<rparr>"

definition sendChanges :: "node_ctx \<Rightarrow> string \<Rightarrow> update list \<Rightarrow> node \<Rightarrow> ping_body" where
  "sendChanges ctx app changes n =
     \<lparr>pg_checksum = ms_checksum (n_membership n), pg_changes = changes, pg_source = x_whoami ctx,
      pg_sourceInc = getIncarnationNumber (n_membership n), pg_app = Some app\<rparr>"

definition createSuspectChange :: "update \<Rightarrow> update" where
  "createSuspectChange member =
     \<lparr>u_id = None, u_address = u_address member, u_status = Suspect, u_inc = u_inc member, u_source = None,
      u_sourceInc = None, u_dampScore = None, u_tombstone = False\<rparr>"

definition nodeWouldBecomeUnPingable :: "update \<Rightarrow> update \<Rightarrow> bool" where
  "nodeWouldBecomeUnPingable currentState newState =
     (if \<not> isStatusPingable (u_status currentState) then False
      else if isStatusPingable (u_status newState) then False
      else if u_inc currentState > u_inc newState then False
      else if u_inc currentState < u_inc newState then True
      else statusPrecedence (u_status newState) > statusPrecedence (u_status currentState))"

text \<open>\<open>_.indexBy(changes, 'address')\<close>.\<close>

definition indexByAddress :: "update list \<Rightarrow> update dict" where
  "indexByAddress changes = fold (\<lambda>c d. dset (u_address c) c d) changes []"

fun heal_changes :: "update dict \<Rightarrow> update list \<Rightarrow> update list \<times> update list" where
  "heal_changes membershipA [] = ([], [])"
| "heal_changes membershipA (b # bs) =
     (let (changesForA, changesForB) = heal_changes membershipA bs in
      case dget membershipA (u_address b) of
        None \<Rightarrow> (changesForA, changesForB)
      | Some a \<Rightarrow>
          (if nodeWouldBecomeUnPingable a b then createSuspectChange b # changesForA else changesForA,
           if nodeWouldBecomeUnPingable b a then createSuspectChange a # changesForB else changesForB))"

definition generateChanges :: "node_ctx \<Rightarrow> update list \<Rightarrow> node \<Rightarrow> update list \<times> update list" where
  "generateChanges ctx membershipB n =
     heal_changes (indexByAddress (membershipAsChanges (x_whoami ctx) (n_membership n))) membershipB"

definition pingableHosts :: "update list \<Rightarrow> string list" where
  "pingableHosts membershipB = map u_address (filter (\<lambda>b. isStatusPingable (u_status b)) membershipB)"

text \<open>
  The answer to the join request: what the attempt does here, and then the ping it sends to the target
  or, with nothing to send, its result.
\<close>

datatype heal_step = Send ping_body | Healed "string list"

definition onHealJoin :: "node_ctx \<Rightarrow> env \<Rightarrow> string \<Rightarrow> update list \<Rightarrow> node \<Rightarrow> (heal_step \<times> node) outcome" where
  "onHealJoin ctx env app membershipB n =
     (let (changesForA, changesForB) = generateChanges ctx membershipB n in
      if changesForA \<noteq> [] \<or> changesForB \<noteq> [] then
        (case (if changesForA \<noteq> [] then n_update ctx env changesForA n else Inr n) of
           Inl e \<Rightarrow> Inl e
         | Inr n1 \<Rightarrow>
             Inr (if changesForB \<noteq> [] then Send (sendChanges ctx app changesForB n1)
                  else Healed (pingableHosts membershipB), n1))
      else
        (case n_update ctx env membershipB n of
           Inl e \<Rightarrow> Inl e
         | Inr n1 \<Rightarrow>
             Inr (Send (sendChanges ctx app (membershipAsChanges (x_whoami ctx) (n_membership n1)) n1), n1)))"

definition onHealSent :: "update list \<Rightarrow> 'e option \<Rightarrow> 'e + string list" where
  "onHealSent membershipB err = (case err of Some e \<Rightarrow> Inl e | None \<Rightarrow> Inr (pingableHosts membershipB))"

section \<open>A heal\<close>

datatype heal_error = RingpopIsNotReady | DiscoverProviderNotAvailable | Discover_failed string

definition isHostAValidTarget :: "node_ctx \<Rightarrow> membership \<Rightarrow> string \<Rightarrow> bool" where
  "isHostAValidTarget ctx ms host =
     (if host = x_whoami ctx then False
      else (case findMemberByAddress ms host of
              None \<Rightarrow> True
            | Some r \<Rightarrow> statusPrecedence (m_status (deref ms r)) \<ge> statusPrecedence Faulty))"

definition getTargets :: "(string list \<Rightarrow> string list) \<Rightarrow> node_ctx \<Rightarrow> membership \<Rightarrow> string list \<Rightarrow> string list" where
  "getTargets shuffle ctx ms hosts = shuffle (filter (isHostAValidTarget ctx ms) hosts)"

text \<open>A heal under way: the target it asks, or what its callback was given.\<close>

record healing =
  hl_potentialTargets :: "string list"
  hl_targets :: "string list"
  hl_numberOfFailures :: nat
  hl_asked :: "string option"
  hl_result :: "(heal_error + string list) option"

definition healNext :: "config \<Rightarrow> healing \<Rightarrow> healing" where
  "healNext cfg h =
     (if hl_potentialTargets h \<noteq> [] \<and> int (hl_numberOfFailures h) < c_discoverProviderHealerMaxFailures cfg
      then h\<lparr>hl_potentialTargets := butlast (hl_potentialTargets h), hl_asked := Some (last (hl_potentialTargets h))\<rparr>
      else h\<lparr>hl_result := Some (Inr (hl_targets h))\<rparr>)"

definition heal_over :: "heal_error \<Rightarrow> healing" where
  "heal_over e = \<lparr>hl_potentialTargets = [], hl_targets = [], hl_numberOfFailures = 0, hl_asked = None,
     hl_result = Some (Inl e)\<rparr>"

text \<open>\<open>heal\<close> up to its first attempt; \<open>hosts\<close> is what the discover provider gives, if there is one.\<close>

definition heal ::
  "(string list \<Rightarrow> string list) \<Rightarrow> node_ctx \<Rightarrow> (string + string list) option \<Rightarrow> membership \<Rightarrow> healing"
where
  "heal shuffle ctx discovered ms =
     (if \<not> x_isReady ctx then heal_over RingpopIsNotReady
      else (case discovered of
              None \<Rightarrow> heal_over DiscoverProviderNotAvailable
            | Some (Inl e) \<Rightarrow> heal_over (Discover_failed e)
            | Some (Inr hosts) \<Rightarrow>
                healNext (x_config ctx)
                  \<lparr>hl_potentialTargets = getTargets shuffle ctx ms hosts, hl_targets = [],
                   hl_numberOfFailures = 0, hl_asked = None, hl_result = None\<rparr>))"

text \<open>An attempt is over: it failed, or the target can reach the given nodes.\<close>

definition onHealAttempt :: "config \<Rightarrow> 'e + string list \<Rightarrow> healing \<Rightarrow> healing" where
  "onHealAttempt cfg res h =
     (case hl_asked h of
        None \<Rightarrow> h
      | Some target \<Rightarrow>
          (let h1 = h\<lparr>hl_asked := None\<rparr> in
           case res of
             Inl e \<Rightarrow> healNext cfg (h1\<lparr>hl_numberOfFailures := Suc (hl_numberOfFailures h1)\<rparr>)
           | Inr reachableNodes \<Rightarrow>
               healNext cfg (h1\<lparr>hl_targets := hl_targets h1 @ [target],
                 hl_potentialTargets := filter (\<lambda>t. t \<notin> set reachableNodes) (hl_potentialTargets h1)\<rparr>)))"

section \<open>The timer\<close>

text \<open>
  The pending timeouts and the heals the timer started are explicit: \<open>dh_pending\<close> holds handles,
  \<open>dh_heals\<close> counts the heals whose callback has not been called.
\<close>

record healer =
  dh_healPeriod :: int
  dh_baseProbability :: int
  dh_previousHostListSize :: nat
  dh_healTimer :: "nat option"
  dh_isStopped :: bool
  dh_pending :: "nat list"
  dh_heals :: nat
  dh_nextId :: nat

definition new_healer :: "config \<Rightarrow> healer" where
  "new_healer cfg =
     \<lparr>dh_healPeriod = c_discoverProviderHealerPeriod cfg,
      dh_baseProbability = c_discoverProviderHealerBaseProbability cfg, dh_previousHostListSize = 0,
      dh_healTimer = None, dh_isStopped = True, dh_pending = [], dh_heals = 0, dh_nextId = 0\<rparr>"

definition probability :: "node_ctx \<Rightarrow> membership \<Rightarrow> healer \<Rightarrow> real" where
  "probability ctx ms h =
     (let pingableMembers = length (filter (\<lambda>r. isPingable ctx (deref ms r)) (ms_members ms))
      in real_of_int (dh_baseProbability h) / real (max (max 1 pingableMembers) (dh_previousHostListSize h)))"

definition scheduleNext :: "healer \<Rightarrow> healer" where
  "scheduleNext h =
     h\<lparr>dh_healTimer := Some (dh_nextId h), dh_pending := dh_pending h @ [dh_nextId h],
       dh_nextId := Suc (dh_nextId h)\<rparr>"

definition heal_run :: "node_ctx \<Rightarrow> real \<Rightarrow> membership \<Rightarrow> healer \<Rightarrow> healer" where
  "heal_run ctx random ms h =
     (if dh_isStopped h then h
      else if dh_healTimer h \<noteq> None \<and> random < probability ctx ms h then h\<lparr>dh_heals := Suc (dh_heals h)\<rparr>
      else scheduleNext h)"

definition heal_start :: "node_ctx \<Rightarrow> real \<Rightarrow> membership \<Rightarrow> healer \<Rightarrow> healer" where
  "heal_start ctx random ms h =
     (if dh_healTimer h \<noteq> None then h else heal_run ctx random ms (h\<lparr>dh_isStopped := False\<rparr>))"

definition heal_stop :: "healer \<Rightarrow> healer" where
  "heal_stop h =
     (let h1 = h\<lparr>dh_isStopped := True\<rparr> in
      case dh_healTimer h1 of
        None \<Rightarrow> h1
      | Some i \<Rightarrow> h1\<lparr>dh_pending := filter (\<lambda>j. j \<noteq> i) (dh_pending h1), dh_healTimer := None\<rparr>)"

text \<open>The timeout fires; a heal the timer started calls back, whatever it was given.\<close>

definition onHealTimer :: "node_ctx \<Rightarrow> real \<Rightarrow> membership \<Rightarrow> nat \<Rightarrow> healer \<Rightarrow> healer" where
  "onHealTimer ctx random ms i h =
     (if i \<in> set (dh_pending h)
      then heal_run ctx random ms (h\<lparr>dh_pending := filter (\<lambda>j. j \<noteq> i) (dh_pending h)\<rparr>) else h)"

definition onHeal :: "healer \<Rightarrow> healer" where
  "onHeal h = (if dh_heals h = 0 then h else scheduleNext (h\<lparr>dh_heals := dh_heals h - 1\<rparr>))"

definition onDiscovered :: "string list \<Rightarrow> healer \<Rightarrow> healer" where
  "onDiscovered hosts h = h\<lparr>dh_previousHostListSize := length hosts\<rparr>"

end
