(* ===== verification/Healing_Properties.thy ===== *)
theory Healing_Properties
  imports Healing Node_Properties
begin

text \<open>
  Healing never takes a member that is up out of a ring: an attempt either merges two lists that do not
  contradict each other, after which both rings are the same, or makes the members they disagree on
  suspect. A heal asks every target once at most and stops.
\<close>

section \<open>Lists of changes and views\<close>

lemma as_changes:
  assumes wf: "ms_wf ms"
  shows "distinct (map u_address (membershipAsChanges w ms))"
    and "c \<in> set (membershipAsChanges w ms) \<Longrightarrow> view ms (u_address c) = Some (u_rank c)"
    and "view ms a = Some k \<Longrightarrow> \<exists>c \<in> set (membershipAsChanges w ms). u_address c = a \<and> u_rank c = k"
proof -
  have "map u_address (membershipAsChanges w ms) = map (\<lambda>r. m_address (deref ms r)) (ms_members ms)"
    by (simp add: membershipAsChanges_def Let_def)
  then show "distinct (map u_address (membershipAsChanges w ms))" using wf_distinct_addresses [OF wf] by simp
  show "c \<in> set (membershipAsChanges w ms) \<Longrightarrow> view ms (u_address c) = Some (u_rank c)"
    using wf_member [OF wf] by (auto simp: membershipAsChanges_def Let_def)
  assume "view ms a = Some k"
  then obtain r where r: "dget (ms_byAddress ms) a = Some r" "k = m_rank (deref ms r)"
    by (auto simp: view_def known_def)
  then have "r \<in> set (ms_members ms)" "m_address (deref ms r) = a" using wf_index [OF wf] by auto
  then show "\<exists>c \<in> set (membershipAsChanges w ms). u_address c = a \<and> u_rank c = k"
    using r(2) by (auto simp: membershipAsChanges_def Let_def)
qed

lemma dget_index:
  "dget (fold (\<lambda>c d. dset (u_address c) c d) cs d) a =
    (if about a cs = [] then dget d a else Some (last (about a cs)))"
proof (induction cs arbitrary: d)
  case (Cons c cs)
  show ?case
    using Cons.IH [of "dset (u_address c) c d"] by (auto simp: dict.get_put)
qed simp

lemma index_view:
  assumes "ms_wf ms"
  shows "map_option u_rank (dget (indexByAddress (membershipAsChanges w ms)) a) = view ms a"
    and "dget (indexByAddress (membershipAsChanges w ms)) a = Some c \<Longrightarrow> u_address c = a"
proof -
  let ?cs = "membershipAsChanges w ms"
  have d: "dget (indexByAddress ?cs) a = (if about a ?cs = [] then None else Some (last (about a ?cs)))"
    by (simp add: indexByAddress_def dget_index)
  have mem: "last (about a ?cs) \<in> set ?cs" "u_address (last (about a ?cs)) = a" if "about a ?cs \<noteq> []"
    using last_in_set [OF that] by auto
  show "dget (indexByAddress ?cs) a = Some c \<Longrightarrow> u_address c = a"
    unfolding d using mem by (auto split: if_splits)
  show "map_option u_rank (dget (indexByAddress ?cs) a) = view ms a"
  proof (cases "about a ?cs = []")
    case True
    then have "view ms a = None" using as_changes(3) [OF assms, of a _ w]
      by (cases "view ms a") (auto simp: filter_empty_conv)
    then show ?thesis unfolding d using True by simp
  next
    case False
    then show ?thesis unfolding d using as_changes(2) [OF assms mem(1)] mem(2) by auto
  qed
qed

text \<open>A change that would take a member out of the ring.\<close>

definition unpings :: "int \<times> status \<Rightarrow> int \<times> status \<Rightarrow> bool" where
  "unpings k k' \<longleftrightarrow> isStatusPingable (snd k) \<and> \<not> isStatusPingable (snd k') \<and> rank_less k k'"

lemma unpingable_iff: "nodeWouldBecomeUnPingable a b \<longleftrightarrow> unpings (u_rank a) (u_rank b)"
  by (auto simp: nodeWouldBecomeUnPingable_def unpings_def rank_less_def)

definition suspicion :: "string \<Rightarrow> int \<Rightarrow> update" where
  "suspicion a i = \<lparr>u_id = None, u_address = a, u_status = Suspect, u_inc = i, u_source = None,
     u_sourceInc = None, u_dampScore = None, u_tombstone = False\<rparr>"

lemma suspicion_simps [simp]:
  "u_address (suspicion a i) = a" "u_status (suspicion a i) = Suspect" "u_inc (suspicion a i) = i"
  "createSuspectChange c = suspicion (u_address c) (u_inc c)"
  by (simp_all add: suspicion_def createSuspectChange_def)

lemma heal_changes_eq:
  "heal_changes d bs =
    (map createSuspectChange (filter (\<lambda>b. \<exists>a. dget d (u_address b) = Some a \<and> unpings (u_rank a) (u_rank b)) bs),
     map (\<lambda>b. createSuspectChange (the (dget d (u_address b))))
       (filter (\<lambda>b. \<exists>a. dget d (u_address b) = Some a \<and> unpings (u_rank b) (u_rank a)) bs))"
  by (induction bs) (auto simp: unpingable_iff Let_def split: option.split)

lemma generateChanges_eq:
  assumes wf: "ms_wf (n_membership n)"
  shows "generateChanges ctx mB n =
    (map createSuspectChange
       (filter (\<lambda>b. \<exists>k. view (n_membership n) (u_address b) = Some k \<and> unpings k (u_rank b)) mB),
     map (\<lambda>b. suspicion (u_address b) (fst (the (view (n_membership n) (u_address b)))))
       (filter (\<lambda>b. \<exists>k. view (n_membership n) (u_address b) = Some k \<and> unpings (u_rank b) k) mB))"
proof -
  let ?d = "indexByAddress (membershipAsChanges (x_whoami ctx) (n_membership n))"
  note v = index_view [OF wf, of "x_whoami ctx"]
  have iff: "(\<exists>c. dget ?d a = Some c \<and> P (u_rank c)) \<longleftrightarrow> (\<exists>k. view (n_membership n) a = Some k \<and> P k)" for a P
    unfolding v(1) [of a, symmetric] by (cases "dget ?d a") auto
  have s: "createSuspectChange (the (dget ?d a)) = suspicion a (fst (the (view (n_membership n) a)))"
    if known: "view (n_membership n) a \<noteq> None" for a
  proof -
    obtain c where c: "dget ?d a = Some c" "view (n_membership n) a = Some (u_rank c)"
      using v(1) [of a] known by (cases "dget ?d a") auto
    then show ?thesis using v(2) [OF c(1)] by auto
  qed
  show ?thesis
    unfolding generateChanges_def heal_changes_eq iff [where P = "\<lambda>k. unpings k r" for r]
      iff [where P = "\<lambda>k. unpings r k" for r]
    by (auto intro!: map_cong simp: s simp del: suspicion_simps(4))
qed

text \<open>A batch with one change per address, address by address.\<close>

definition merge_rank :: "int \<times> status \<Rightarrow> (int \<times> status) option \<Rightarrow> (int \<times> status) option" where
  "merge_rank r k =
     (case k of None \<Rightarrow> if snd r = Tombstone then None else Some r
      | Some k \<Rightarrow> if rank_less k r then Some r else Some k)"

lemma about_single: "distinct (map u_address us) \<Longrightarrow> c \<in> set us \<Longrightarrow> about (u_address c) us = [c]"
proof (induction us)
  case (Cons u us)
  show ?case
  proof (cases "c = u")
    case True
    then have "about (u_address c) us = []" using Cons.prems(1) by (auto simp: filter_empty_conv image_iff)
    then show ?thesis using True by simp
  next
    case False
    then have "c \<in> set us" using Cons.prems by simp
    then show ?thesis using Cons by (auto simp: rev_image_eqI)
  qed
qed simp

lemma steps_at:
  assumes "distinct (map u_address us)" "c \<in> set us" "u_address c \<noteq> w"
  shows "gossip_steps w now i us v (u_address c) = merge_rank (u_rank c) (v (u_address c))"
  using gossip_steps_other [OF assms(3), of now i us v] about_single [OF assms(1,2)]
  by (simp add: join_rank_def merge_rank_def processed_def split: option.split)

lemma steps_absent:
  assumes "a \<notin> u_address ` set us" "a \<noteq> w"
  shows "gossip_steps w now i us v a = v a"
proof -
  have "about a us = []" using assms(1) by (auto simp: filter_empty_conv)
  then show ?thesis using gossip_steps_other [OF assms(2), of now i us v] by simp
qed

text \<open>About itself a node that hears something newer only takes a new incarnation number.\<close>

lemma steps_self:
  assumes "v w = Some k"
  shows "(\<exists>j. gossip_steps w now i us v w = Some (now j, snd k)) \<and>
      (\<exists>c \<in> set us. u_address c = w \<and> rank_less k (u_rank c)) \<or>
    gossip_steps w now i us v w = Some k \<and> (\<forall>c \<in> set us. u_address c = w \<longrightarrow> \<not> rank_less k (u_rank c))"
  using assms
proof (induction us arbitrary: i v k)
  case (Cons u us)
  show ?case
  proof (cases "u_address u = w \<and> rank_less k (u_rank u)")
    case True
    then have "gossip_step w (now i) u v w = Some (now i, snd k)"
      using Cons.prems by (simp add: gossip_step_def processed_def)
    from Cons.IH [of "gossip_step w (now i) u v" _ "Suc i", OF this] show ?thesis using True by auto
  next
    case False
    then have "gossip_step w (now i) u v w = Some k"
      using Cons.prems by (auto simp: gossip_step_def processed_def)
    from Cons.IH [of "gossip_step w (now i) u v" _ "Suc i", OF this] show ?thesis using False by auto
  qed
qed simp

section \<open>An attempt\<close>

lemma live_iff: "a \<in> live v \<longleftrightarrow> (\<exists>k. v a = Some k \<and> isStatusPingable (snd k))"
  by (auto simp: live_def)

lemma consistent_distinct:
  "distinct (map u_address us) \<Longrightarrow> \<forall>u \<in> set us. known_status (u_status u) \<Longrightarrow> consistent us"
  by (auto simp: consistent_def distinct_map dest: inj_onD)

lemma consistent_suspicions: "\<forall>u \<in> set us. u_status u = Suspect \<Longrightarrow> consistent us"
  by (auto simp: consistent_def)

text \<open>What two nodes may say of a member without a conflict.\<close>

definition agree :: "(int \<times> status) option \<Rightarrow> (int \<times> status) option \<Rightarrow> bool" where
  "agree x y \<longleftrightarrow> (\<forall>k k'. x = Some k \<and> y = Some k' \<longrightarrow> \<not> unpings k k' \<and> \<not> unpings k' k)"

definition up :: "(int \<times> status) option \<Rightarrow> bool" where
  "up x \<longleftrightarrow> (\<exists>k. x = Some k \<and> isStatusPingable (snd k))"

lemma no_conflict:
  assumes wf: "ms_wf (n_membership nA)" "ms_wf msB"
    and g: "generateChanges ctx (membershipAsChanges w msB) nA = ([], [])"
  shows "agree (view (n_membership nA) a) (view msB a)"
proof -
  have "\<not> unpings k k' \<and> \<not> unpings k' k"
    if v: "view (n_membership nA) a = Some k" "view msB a = Some k'" for k k'
  proof -
    obtain b where b: "b \<in> set (membershipAsChanges w msB)" "u_address b = a" "u_rank b = k'"
      using as_changes(3) [OF wf(2) v(2)] by blast
    then show ?thesis
      using g v(1) unfolding generateChanges_eq [OF wf(1)] by (cases k) (auto simp: filter_empty_conv)
  qed
  then show ?thesis by (auto simp: agree_def)
qed

lemma equal_precedence_up:
  "known_status s \<Longrightarrow> known_status t \<Longrightarrow> statusPrecedence s = statusPrecedence t \<Longrightarrow>
    isStatusPingable s = isStatusPingable t"
  using precedence_inj by blast

lemma merge_up:
  assumes "agree x (Some r)" and "known_status (snd r)" and "\<forall>k. x = Some k \<longrightarrow> known_status (snd k)"
  shows "up (merge_rank r x) \<longleftrightarrow> up x \<or> isStatusPingable (snd r)"
proof (cases x)
  case (Some k)
  obtain i s j t where "k = (i, s)" "r = (j, t)" by (cases k, cases r) auto
  then show ?thesis
    using assms equal_precedence_up [of s t] unfolding Some
    by (auto simp: agree_def up_def merge_rank_def unpings_def rank_less_def split: if_splits)
qed (cases r, auto simp: up_def merge_rank_def)

text \<open>After the local half of an attempt.\<close>

lemma attempt_ok:
  assumes inv: "n_inv ctx n" and ready: "x_isReady ctx" "ms_local (n_membership n) = Some l"
    and mB: "distinct (map u_address mB)" "\<forall>b \<in> set mB. known_status (u_status b)"
    and g: "generateChanges ctx mB n = (forA, forB)"
  shows "\<exists>stp n'. onHealJoin ctx env app mB n = Inr (stp, n') \<and> n_inv ctx n' \<and>
    ms_local (n_membership n') = Some l \<and>
    view (n_membership n') = gossip_steps (x_whoami ctx) (e_now env) 0
      (if forA = [] \<and> forB = [] then mB else forA) (view (n_membership n)) \<and>
    stp = (if forA = [] \<and> forB = []
           then Send (sendChanges ctx app (membershipAsChanges (x_whoami ctx) (n_membership n')) n')
           else if forB \<noteq> [] then Send (sendChanges ctx app forB n') else Healed (pingableHosts mB))"
proof -
  have wf: "ms_wf (n_membership n)" using inv by (simp add: n_inv_def ms_ok_def)
  let ?cs = "if forA = [] \<and> forB = [] then mB else forA"
  have "consistent forA"
    using g unfolding generateChanges_eq [OF wf] by (intro consistent_suspicions) auto
  then have "consistent ?cs" using consistent_distinct [OF mB] by simp
  then obtain n' where n': "n_update ctx env ?cs n = Inr n'" "n_inv ctx n'"
    "ms_local (n_membership n') = Some l"
    "view (n_membership n') = gossip_steps (x_whoami ctx) (e_now env) 0 ?cs (view (n_membership n))"
    using n_update_ok [OF inv, of ?cs env] ready by auto
  show ?thesis
  proof (cases "forA = [] \<and> forB \<noteq> []")
    case True
    then show ?thesis using g inv ready by (simp add: onHealJoin_def)
  next
    case False
    then show ?thesis using g n' by (auto simp: onHealJoin_def split: if_splits)
  qed
qed

lemma suspicions_at:
  assumes mB: "distinct (map u_address mB)" and a: "a \<noteq> w"
    and forA: "forA = map createSuspectChange (filter (\<lambda>b. \<exists>k. v (u_address b) = Some k \<and> unpings k (u_rank b)) mB)"
  shows "gossip_steps w now i forA v a = (case find (\<lambda>b. u_address b = a) mB of None \<Rightarrow> v a
       | Some b \<Rightarrow> (case v a of None \<Rightarrow> None
           | Some k \<Rightarrow> if unpings k (u_rank b) then Some (u_inc b, Suspect) else Some k))"
proof -
  have dA: "distinct (map u_address forA)"
    using mB by (simp add: forA comp_def distinct_map_filter)
  have absent: "gossip_steps w now i forA v a = v a"
    if "\<forall>b \<in> set mB. u_address b = a \<longrightarrow> \<not> (\<exists>k. v a = Some k \<and> unpings k (u_rank b))"
    by (rule steps_absent [OF _ a]) (use that in \<open>auto simp: forA\<close>)
  show ?thesis
  proof (cases "find (\<lambda>b. u_address b = a) mB")
    case None
    then have "\<forall>b \<in> set mB. u_address b \<noteq> a" by (auto simp: find_None_iff)
    then show ?thesis using absent None by auto
  next
    case (Some b)
    then have b: "b \<in> set mB" "u_address b = a" by (auto simp: find_Some_iff)
    then have only: "x = b" if "x \<in> set mB" "u_address x = a" for x
      using mB that by (auto simp: distinct_map dest: inj_onD)
    show ?thesis
    proof (cases "\<exists>k. v a = Some k \<and> unpings k (u_rank b)")
      case True
      then obtain k where k: "v a = Some k" "unpings k (u_rank b)" by blast
      then have mem: "createSuspectChange b \<in> set forA" using b by (cases k) (auto simp: forA)
      have "gossip_steps w now i forA v a = merge_rank (u_inc b, Suspect) (v a)"
        using steps_at [OF dA mem, of w now i v] a b(2) by simp
      moreover have "k = (u_inc b, Suspect)" if "\<not> rank_less k (u_inc b, Suspect)"
        using k(2) that by (cases k, cases "snd k") (auto simp: unpings_def rank_less_def)
      ultimately show ?thesis using Some k by (auto simp: merge_rank_def)
    next
      case False
      then have "gossip_steps w now i forA v a = v a" using only by (intro absent) auto
      then show ?thesis using Some False by (auto split: option.split)
    qed
  qed
qed

lemma merged_up:
  assumes mB: "distinct (map u_address mB)" "\<forall>b \<in> set mB. known_status (u_status b)"
    and v: "all_known v" and ag: "\<forall>b \<in> set mB. agree (v (u_address b)) (Some (u_rank b))"
    and a: "a \<noteq> w"
  shows "up (gossip_steps w now i mB v a) \<longleftrightarrow>
    up (v a) \<or> (\<exists>b \<in> set mB. u_address b = a \<and> isStatusPingable (u_status b))"
proof (cases "a \<in> u_address ` set mB")
  case True
  then obtain b where b: "b \<in> set mB" "u_address b = a" by auto
  have only: "x = b" if "x \<in> set mB" "u_address x = a" for x
    using mB(1) that b by (auto simp: distinct_map dest: inj_onD)
  have "up (merge_rank (u_rank b) (v a)) \<longleftrightarrow> up (v a) \<or> isStatusPingable (snd (u_rank b))"
  proof (rule merge_up)
    show "agree (v a) (Some (u_rank b))" using ag b by blast
    show "known_status (snd (u_rank b))" using mB(2) b(1) by simp
    show "\<forall>k. v a = Some k \<longrightarrow> known_status (snd k)" using v unfolding all_known_def by blast
  qed
  moreover have "gossip_steps w now i mB v a = merge_rank (u_rank b) (v a)"
    using steps_at [OF mB(1) b(1), of w now i v] b(2) a by simp
  moreover have "(\<exists>b \<in> set mB. u_address b = a \<and> isStatusPingable (u_status b)) \<longleftrightarrow>
      isStatusPingable (snd (u_rank b))"
    using only b by (metis snd_conv)
  ultimately show ?thesis by simp
next
  case False
  then have "\<not> (\<exists>b \<in> set mB. u_address b = a \<and> isStatusPingable (u_status b))" by auto
  then show ?thesis using steps_absent [OF False a, of now i v] by metis
qed

text \<open>
  C20: an attempt to heal never takes a member out of the ring of the node that makes it. If the two
  lists contradict each other, exactly the members the target holds to be down, at an incarnation number
  this node does not know better of, become suspect at that number; otherwise the lists are merged.
\<close>

theorem heal_attempt_correct:
  assumes inv: "n_inv ctx n" and ready: "x_isReady ctx" "ms_local (n_membership n) = Some l"
    and mB: "distinct (map u_address mB)" "\<forall>b \<in> set mB. known_status (u_status b)"
    and g: "generateChanges ctx mB n = (forA, forB)"
  shows "\<exists>stp n'. onHealJoin ctx env app mB n = Inr (stp, n') \<and> n_inv ctx n' \<and>
    ring_servers (n_ring n) \<subseteq> ring_servers (n_ring n') \<and>
    (forA = [] \<and> forB = [] \<longrightarrow> (\<forall>b \<in> set mB. u_address b \<noteq> x_whoami ctx \<longrightarrow>
      view (n_membership n') (u_address b) = merge_rank (u_rank b) (view (n_membership n) (u_address b)))) \<and>
    (forA \<noteq> [] \<or> forB \<noteq> [] \<longrightarrow> (\<forall>a. a \<noteq> x_whoami ctx \<longrightarrow> view (n_membership n') a =
      (case find (\<lambda>b. u_address b = a) mB of
         None \<Rightarrow> view (n_membership n) a
       | Some b \<Rightarrow> (case view (n_membership n) a of
             None \<Rightarrow> None
           | Some k \<Rightarrow> if unpings k (u_rank b) then Some (u_inc b, Suspect) else Some k))))"
proof -
  let ?v = "view (n_membership n)" and ?w = "x_whoami ctx"
  have wf: "ms_wf (n_membership n)" using inv by (simp add: n_inv_def ms_ok_def)
  obtain stp n' where n': "onHealJoin ctx env app mB n = Inr (stp, n')" "n_inv ctx n'"
    "view (n_membership n') = gossip_steps ?w (e_now env) 0 (if forA = [] \<and> forB = [] then mB else forA) ?v"
    using attempt_ok [OF assms] by blast
  let ?v' = "view (n_membership n')"
  have known: "all_known ?v" using inv by (simp add: n_inv_def)
  have servers: "ring_servers (n_ring n) = live ?v" "ring_servers (n_ring n') = live ?v'"
    using inv n'(2) by (simp_all add: n_inv_def)
  have forA: "forA = map createSuspectChange (filter (\<lambda>b. \<exists>k. ?v (u_address b) = Some k \<and> unpings k (u_rank b)) mB)"
    using g unfolding generateChanges_eq [OF wf] by simp
  have merged: "?v' (u_address b) = merge_rank (u_rank b) (?v (u_address b))"
    if "forA = [] \<and> forB = []" "b \<in> set mB" "u_address b \<noteq> ?w" for b
    using steps_at [OF mB(1) that(2,3)] n'(3) that(1) by simp
  have suspects: "?v' a = (case find (\<lambda>b. u_address b = a) mB of None \<Rightarrow> ?v a
       | Some b \<Rightarrow> (case ?v a of None \<Rightarrow> None
           | Some k \<Rightarrow> if unpings k (u_rank b) then Some (u_inc b, Suspect) else Some k))"
    if "forA \<noteq> [] \<or> forB \<noteq> []" "a \<noteq> ?w" for a
    using suspicions_at [OF mB(1) that(2) forA] n'(3) that(1) by auto
  have "up (?v' a)" if up: "up (?v a)" for a
  proof (cases "a = ?w")
    case True
    then show ?thesis
      using steps_self [of ?v ?w _ "e_now env" 0 "if forA = [] \<and> forB = [] then mB else forA"] up n'(3)
      by (auto simp: up_def)
  next
    case other: False
    show ?thesis
    proof (cases "forA = [] \<and> forB = []")
      case True
      have "\<forall>b \<in> set mB. agree (?v (u_address b)) (Some (u_rank b))"
        using g True unfolding generateChanges_eq [OF wf] by (auto simp: agree_def filter_empty_conv)
      from merged_up [OF mB known this other] show ?thesis using up n'(3) True by auto
    next
      case False
      then show ?thesis using suspects [of a] other up by (auto simp: up_def split: option.splits)
    qed
  qed
  then show ?thesis using n' merged suspects servers by (auto simp: live_iff up_def)
qed

section \<open>Two nodes\<close>

text \<open>A ping as it arrives.\<close>

definition as_ping :: "ping_body \<Rightarrow> ping_in" where
  "as_ping p = \<lparr>pi_source = Some (pg_source p), pi_sourceInc = pg_sourceInc p, pi_changes = Some (pg_changes p),
     pi_checksum = pg_checksum p, pi_app = pg_app p, pi_target = None\<rparr>"

lemma handlePing_updates:
  assumes "handlePing ctx env app req maxJobs (Some (as_ping p)) n = Inr (Inr out, started, n')"
  shows "\<exists>n1. n_update ctx env (pg_changes p) n = Inr n1 \<and> n_membership n' = n_membership n1 \<and>
    n_ring n' = n_ring n1"
  using assms
  by (auto simp: handlePing_def as_ping_def Let_def split: if_splits option.splits sum.splits prod.splits)

text \<open>The same of a third member, on both sides of an exchange.\<close>

definition visible :: "(int \<times> status) option \<Rightarrow> (int \<times> status) option" where
  "visible x = (case x of None \<Rightarrow> None | Some k \<Rightarrow> if snd k = Tombstone then None else Some k)"

definition merge_opt :: "(int \<times> status) option \<Rightarrow> (int \<times> status) option \<Rightarrow> (int \<times> status) option" where
  "merge_opt x y = (case x of None \<Rightarrow> y | Some r \<Rightarrow> merge_rank r y)"

lemma exchange_same:
  assumes "\<forall>k. x = Some k \<longrightarrow> known_status (snd k)" and "\<forall>k. y = Some k \<longrightarrow> known_status (snd k)"
  shows "visible (merge_opt (merge_opt y x) y) = visible (merge_opt y x)"
proof (cases y)
  case (Some r)
  show ?thesis
  proof (cases x)
    case (Some k)
    have "k = r" if "\<not> rank_less k r" "\<not> rank_less r k"
      using assms(1) Some that rank_le_antisym [of k r] by (simp add: rank_le_def)
    moreover have "\<not> (rank_less k r \<and> rank_less r k)" by (auto simp: rank_less_def)
    ultimately show ?thesis using \<open>y = Some r\<close> Some
      by (auto simp: merge_opt_def merge_rank_def rank_less_def)
  qed (use Some in \<open>auto simp: merge_opt_def merge_rank_def visible_def rank_less_def\<close>)
qed (cases x, auto simp: merge_opt_def merge_rank_def visible_def)

lemma visible_up: "visible x = visible y \<Longrightarrow> up x = up y"
  by (cases x; cases y) (auto simp: visible_def up_def split: if_splits)

lemma steps_as_changes:
  assumes wf: "ms_wf ms" and a: "a \<noteq> w"
  shows "gossip_steps w now i (membershipAsChanges w' ms) v a = merge_opt (view ms a) (v a)"
proof (cases "view ms a")
  case None
  then have "a \<notin> u_address ` set (membershipAsChanges w' ms)"
    using as_changes(2) [OF wf, of _ w'] by fastforce
  then show ?thesis using steps_absent [OF _ a] None by (simp add: merge_opt_def)
next
  case (Some k)
  then obtain c where c: "c \<in> set (membershipAsChanges w' ms)" "u_address c = a" "u_rank c = k"
    using as_changes(3) [OF wf] by blast
  then show ?thesis
    using steps_at [OF as_changes(1) [OF wf] c(1), of w now i v] a Some by (simp add: merge_opt_def)
qed

lemma as_changes_known:
  assumes "ms_wf ms" "all_known (view ms)"
  shows "\<forall>b \<in> set (membershipAsChanges w ms). known_status (u_status b)"
  using as_changes(2) [OF assms(1), of _ w] assms(2) unfolding all_known_def by (metis snd_conv)

lemma merge_opt_up:
  assumes "agree x y" and "\<forall>k. x = Some k \<longrightarrow> known_status (snd k)" and "\<forall>k. y = Some k \<longrightarrow> known_status (snd k)"
  shows "up (merge_opt y x) \<longleftrightarrow> up x \<or> up y"
proof (cases y)
  case (Some r)
  then show ?thesis using merge_up [of x r] assms by (auto simp: merge_opt_def up_def)
qed (simp add: merge_opt_def up_def)

text \<open>What the node says of itself cannot contradict the other side after the merge.\<close>

lemma self_agrees:
  assumes wf: "ms_wf ms" and ag: "agree (v w) (view ms w)" and up: "up (v w)"
    and v': "v' = gossip_steps w now i (membershipAsChanges w' ms) v"
  shows "agree (v' w) (view ms w) \<and> up (v' w)"
proof -
  let ?cs = "membershipAsChanges w' ms"
  obtain k where k: "v w = Some k" "isStatusPingable (snd k)" using up by (auto simp: up_def)
  consider (new) j c where "v' w = Some (now j, snd k)" "c \<in> set ?cs" "u_address c = w" "rank_less k (u_rank c)"
    | (same) "v' w = Some k"
    using steps_self [of v w k now i ?cs, OF k(1)] unfolding v' by blast
  then show ?thesis
  proof cases
    case new
    have "view ms w = Some (u_rank c)" using as_changes(2) [OF wf new(2)] new(3) by simp
    then have "isStatusPingable (u_status c)"
      using ag k new(4) by (auto simp: agree_def unpings_def)
    then show ?thesis using new(1) k(2) \<open>view ms w = Some (u_rank c)\<close>
      by (auto simp: agree_def unpings_def up_def)
  next
    case same
    then show ?thesis using ag k by (auto simp: up_def)
  qed
qed

lemma exchange_up:
  assumes wf: "ms_wf msA" "ms_wf msB" and ne: "wA \<noteq> wB"
    and known: "all_known (view msA)" "all_known (view msB)" "all_known (view msA')"
    and ag: "\<And>a. agree (view msA a) (view msB a)" and wfA': "ms_wf msA'"
    and up: "up (view msA wA)" "up (view msB wB)"
    and A': "view msA' = gossip_steps wA nowA 0 (membershipAsChanges wB msB) (view msA)"
    and vB': "vB' = gossip_steps wB nowB 0 (membershipAsChanges wA msA') (view msB)"
  shows "(up (view msA' a) \<longleftrightarrow> up (view msA a) \<or> up (view msB a)) \<and>
    (up (vB' a) \<longleftrightarrow> up (view msA a) \<or> up (view msB a)) \<and>
    (a \<noteq> wA \<and> a \<noteq> wB \<longrightarrow> visible (vB' a) = visible (view msA' a))"
proof -
  have k: "\<forall>k. view msA a = Some k \<longrightarrow> known_status (snd k)" "\<forall>k. view msB a = Some k \<longrightarrow> known_status (snd k)"
    "\<forall>k. view msA' a = Some k \<longrightarrow> known_status (snd k)"
    using known unfolding all_known_def by blast+
  have other: "view msA' a = merge_opt (view msB a) (view msA a)" if "a \<noteq> wA"
    unfolding A' by (rule steps_as_changes [OF wf(2) that])
  have otherB: "vB' a = merge_opt (view msA' a) (view msB a)" if "a \<noteq> wB"
    unfolding vB' by (rule steps_as_changes [OF wfA' that])
  have upA: "up (view msA' a) \<longleftrightarrow> up (view msA a) \<or> up (view msB a)" if "a \<noteq> wA"
    using merge_opt_up [OF ag k(1,2)] other that by simp
  show ?thesis
  proof (cases "a = wA")
    case True
    have s: "agree (view msA' wA) (view msB wA)" "up (view msA' wA)"
      using self_agrees [OF wf(2) ag up(1) A'] by simp_all
    have "agree (view msB wA) (view msA' wA)" using s(1) by (auto simp: agree_def)
    then have "up (vB' wA)" using merge_opt_up [of "view msB a" "view msA' a"] k(2,3) otherB True ne s(2) by simp
    then show ?thesis using s(2) up(1) True by simp
  next
    case notA: False
    show ?thesis
    proof (cases "a = wB")
      case True
      have "up (vB' wB)"
        using steps_self [of "view msB" wB _ nowB 0 "membershipAsChanges wA msA'"] up(2)
        unfolding vB' by (auto simp: up_def)
      then show ?thesis using upA [OF notA] True up(2) by simp
    next
      case False
      have "visible (vB' a) = visible (view msA' a)"
        unfolding otherB [OF False] other [OF notA] by (rule exchange_same [OF k(1,2)])
      then show ?thesis using visible_up upA [OF notA] by blast
    qed
  qed
qed

text \<open>
  C19: when the lists of two nodes of a split cluster do not contradict each other, one attempt joins
  the parts: through the target's answer to the join and its handling of the ping, both nodes end with the
  same ring, of all servers either had, with the same of every third member that is not a tombstone, and so
  with the same owner of every key.
\<close>

theorem heal_merges_rings:
  assumes A: "n_inv ctxA nA" "x_isReady ctxA" "ms_local (n_membership nA) = Some lA"
    and B: "n_inv ctxB nB" "x_isReady ctxB" "ms_local (n_membership nB) = Some lB"
    and ne: "x_whoami ctxA \<noteq> x_whoami ctxB"
    and self: "x_whoami ctxA \<in> ring_servers (n_ring nA)" "x_whoami ctxB \<in> ring_servers (n_ring nB)"
    and join: "handleJoin cfg (x_whoami ctxB) app denying (Some (heal_request ctxA app nA)) nB = Inr ans"
    and agreed: "generateChanges ctxA (ja_membership ans) nA = ([], [])"
    and attempt: "onHealJoin ctxA envA app (ja_membership ans) nA = Inr (Send body, nA')"
    and ping: "handlePing ctxB envB app req maxJobs (Some (as_ping body)) nB = Inr (Inr out, started, nB')"
    and hash: "x_hashFunc ctxB = x_hashFunc ctxA" "hr_replicaPoints (n_ring nB) = hr_replicaPoints (n_ring nA)"
  shows "ring_servers (n_ring nA') = ring_servers (n_ring nA) \<union> ring_servers (n_ring nB) \<and>
    ring_servers (n_ring nB') = ring_servers (n_ring nA) \<union> ring_servers (n_ring nB) \<and>
    ring_lookup (x_hashFunc ctxA) key (n_ring nB') = ring_lookup (x_hashFunc ctxA) key (n_ring nA') \<and>
    (a \<noteq> x_whoami ctxA \<and> a \<noteq> x_whoami ctxB \<longrightarrow>
      visible (view (n_membership nB') a) = visible (view (n_membership nA') a))"
proof -
  let ?msA = "n_membership nA" and ?msB = "n_membership nB" and ?wA = "x_whoami ctxA" and ?wB = "x_whoami ctxB"
  have wf: "ms_wf ?msA" "ms_wf ?msB" using A(1) B(1) by (simp_all add: n_inv_def ms_ok_def)
  have known: "all_known (view ?msA)" "all_known (view ?msB)" using A(1) B(1) by (simp_all add: n_inv_def)
  have mB: "ja_membership ans = membershipAsChanges ?wB ?msB"
    using join by (auto simp: handleJoin_def heal_request_def split: if_splits option.splits)
  obtain stp n' where n': "onHealJoin ctxA envA app (ja_membership ans) nA = Inr (stp, n')" "n_inv ctxA n'"
    "view (n_membership n') = gossip_steps ?wA (e_now envA) 0 (ja_membership ans) (view ?msA)"
    "stp = Send (sendChanges ctxA app (membershipAsChanges ?wA (n_membership n')) n')"
    using attempt_ok [OF A _ _ agreed, of envA app] as_changes(1) [OF wf(2)] as_changes_known [OF wf(2) known(2)]
    unfolding mB by auto
  then have A': "n_inv ctxA nA'" "pg_changes body = membershipAsChanges ?wA (n_membership nA')"
    "view (n_membership nA') = gossip_steps ?wA (e_now envA) 0 (membershipAsChanges ?wB ?msB) (view ?msA)"
    using attempt mB by (auto simp: sendChanges_def)
  then have wfA': "ms_wf (n_membership nA')" "all_known (view (n_membership nA'))"
    by (simp_all add: n_inv_def ms_ok_def)
  obtain n1 where n1: "n_update ctxB envB (pg_changes body) nB = Inr n1" "n_membership nB' = n_membership n1"
    "n_ring nB' = n_ring n1" using handlePing_updates [OF ping] by blast
  have "consistent (pg_changes body)"
    unfolding A'(2) by (rule consistent_distinct [OF as_changes(1) [OF wfA'(1)] as_changes_known [OF wfA']])
  then have B': "n_inv ctxB n1"
    "view (n_membership n1) = gossip_steps ?wB (e_now envB) 0 (membershipAsChanges ?wA (n_membership nA')) (view ?msB)"
    using n_update_ok [OF B(1), of "pg_changes body" envB] B(2,3) n1(1) unfolding A'(2) by auto
  have servers: "ring_servers (n_ring nA) = live (view ?msA)" "ring_servers (n_ring nB) = live (view ?msB)"
    "ring_servers (n_ring nA') = live (view (n_membership nA'))" "ring_servers (n_ring nB') = live (view (n_membership n1))"
    using A(1) B(1) A'(1) B'(1) n1(3) by (simp_all add: n_inv_def)
  have ag: "agree (view ?msA a) (view ?msB a)" for a
    using no_conflict [OF wf, of ctxA ?wB] agreed unfolding mB by blast
  have self': "up (view ?msA ?wA)" "up (view ?msB ?wB)"
    using self unfolding servers by (simp_all add: live_iff up_def)
  note e = exchange_up [OF wf ne known wfA'(2) ag wfA'(1) self' A'(3) B'(2)]
  have rings: "ring_servers (n_ring nA') = ring_servers (n_ring nA) \<union> ring_servers (n_ring nB)"
    "ring_servers (n_ring nB') = ring_servers (n_ring nA) \<union> ring_servers (n_ring nB)"
    using e unfolding servers by (auto simp: live_iff up_def)
  have "ring_ok (x_hashFunc ctxA) (n_ring nA')" "ring_ok (x_hashFunc ctxA) (n_ring nB')"
    using A'(1) B'(1) n1(3) hash(1) by (simp_all add: n_inv_def parts_ok_def)
  moreover have "hr_replicaPoints (n_ring nB') = hr_replicaPoints (n_ring nA')"
    using n_update_frame [OF n1(1) B(1)] n_update_frame [of ctxA envA _ nA nA'] A(1) attempt agreed n1(3) hash(2)
    by (auto simp: onHealJoin_def split: sum.splits)
  ultimately have "ring_lookup (x_hashFunc ctxA) key (n_ring nB') = ring_lookup (x_hashFunc ctxA) key (n_ring nA')"
    using lookup_owner rings by simp
  then show ?thesis using rings e n1(2) by auto
qed

section \<open>Two lone nodes\<close>

definition lone_ctx :: "string \<Rightarrow> node_ctx" where
  "lone_ctx w = \<lparr>x_whoami = w, x_isReady = True, x_hashFunc = (\<lambda>s. 7), x_config = default_config\<rparr>"

lemma lone_ctx_simps [simp]:
  "x_whoami (lone_ctx w) = w" "x_isReady (lone_ctx w)" "x_hashFunc (lone_ctx w) = (\<lambda>s. 7)"
  "x_config (lone_ctx w) = default_config"
  by (simp_all add: lone_ctx_def)

lemma ready_lone [simp]: "ready (lone_ctx w) True = lone_ctx w"
  by (simp add: lone_ctx_def)

lemma lone_node:
  "\<exists>n l. n_inv (lone_ctx w) n \<and> ms_local (n_membership n) = Some l \<and>
    view (n_membership n) = [w \<mapsto> (1001, Alive)] \<and> hr_replicaPoints (n_ring n) = 2"
proof -
  let ?c = "ready (lone_ctx w) False"
  have inv0: "n_inv ?c demo_start" using n_reachable_inv [OF n_reachable.start] by blast
  have q: "quiet demo_start = new_membership" by (simp add: quiet_def new_node_def new_membership_def)
  have ok: "ms_ok ?c new_membership" using inv0 by (simp add: n_inv_def new_node_def)
  have v: "view new_membership = Map.empty" by (auto simp: view_def known_def new_membership_def)
  obtain n where n: "n_setLocalStatus ?c demo_env Alive demo_start = Inr n" "n_inv ?c n"
    "ms_local (n_membership n) \<noteq> None"
    using n_setLocalStatus_ok [OF inv0, of Alive demo_env] by auto
  have "ring_ok (x_hashFunc ?c) (n_ring demo_start)" using inv0 by (simp add: n_inv_def parts_ok_def)
  then have f: "n_membership n = (setLocalStatus ?c demo_env Alive new_membership)\<lparr>ms_events := []\<rparr>"
    "hr_replicaPoints (n_ring n) = hr_replicaPoints (n_ring demo_start)"
    using settle_frame n(1) unfolding n_setLocalStatus_def q by blast+
  have "view (n_membership n) = [w \<mapsto> (1001, Alive)]"
    using setLocalStatus_ok [OF ok, of demo_env Alive] v by (simp add: f(1) demo_env_def)
  moreover have "hr_replicaPoints (n_ring n) = 2" by (simp add: f(2) new_node_def new_ring_def)
  moreover have "n_inv (lone_ctx w) n" using n_inv_ready [OF n(2)] by simp
  ultimately show ?thesis using n(3) by blast
qed

text \<open>Every change of the member list gives it a checksum.\<close>

lemma update_loop_updates:
  "update_loop ctx env i changes ms = Inr (ms', us) \<Longrightarrow> us = [] \<Longrightarrow> ms' = ms"
proof (induction changes arbitrary: i ms us)
  case (Cons c cs)
  then show ?case
    by (auto split: sum.splits prod.splits option.splits simp: apply_change_def reincarnate_def Let_def split: if_splits)
qed simp

lemma n_update_checksum:
  assumes "n_update ctx env changes n = Inr n'" and "n_inv ctx n" and "x_isReady ctx"
    and "view (n_membership n') \<noteq> view (n_membership n)"
  shows "\<exists>s. ms_checksum (n_membership n') = Some (x_hashFunc ctx s)"
proof -
  obtain ms us where u: "ms_update ctx env changes (quiet n) = Inr (ms, us)" "n_membership n' = ms\<lparr>ms_events := []\<rparr>"
    using n_update_frame [OF assms(1,2)] by blast
  have "us \<noteq> []"
  proof
    assume "us = []"
    then have "ms = quiet n" using u(1) assms(3) update_loop_updates
      by (fastforce simp: ms_update_def split: if_splits sum.splits prod.splits)
    then show False using u(2) assms(4) by simp
  qed
  then show ?thesis using u assms(3)
    by (auto simp: ms_update_def ms_emit_def ms_computeChecksum_def Let_def split: if_splits sum.splits prod.splits)
qed

abbreviation answer_of :: "string \<Rightarrow> node \<Rightarrow> join_answer" where
  "answer_of w n \<equiv> \<lparr>ja_app = ''app'', ja_coordinator = w, ja_membership = membershipAsChanges w (n_membership n),
     ja_checksum = ms_checksum (n_membership n)\<rparr>"

lemma heal_example:
  "\<exists>nA lA nB lB nA' body out started nB'.
    n_inv (lone_ctx ''a:1'') nA' \<and>
    (n_inv (lone_ctx ''a:1'') nA \<and> ms_local (n_membership nA) = Some lA \<and>
     view (n_membership nA) = [''a:1'' \<mapsto> (1001, Alive)]) \<and>
    (n_inv (lone_ctx ''b:1'') nB \<and> ms_local (n_membership nB) = Some lB \<and>
     view (n_membership nB) = [''b:1'' \<mapsto> (1001, Alive)]) \<and>
    hr_replicaPoints (n_ring nB) = hr_replicaPoints (n_ring nA) \<and>
    handleJoin default_config ''b:1'' ''app'' False (Some (heal_request (lone_ctx ''a:1'') ''app'' nA)) nB =
      Inr (answer_of ''b:1'' nB) \<and>
    generateChanges (lone_ctx ''a:1'') (membershipAsChanges ''b:1'' (n_membership nB)) nA = ([], []) \<and>
    onHealJoin (lone_ctx ''a:1'') demo_env ''app'' (membershipAsChanges ''b:1'' (n_membership nB)) nA = Inr (Send body, nA') \<and>
    handlePing (lone_ctx ''b:1'') demo_env ''app'' True 5 (Some (as_ping body)) nB = Inr (Inr out, started, nB')"
proof -
  obtain nA lA where A: "n_inv (lone_ctx ''a:1'') nA" "ms_local (n_membership nA) = Some lA"
    "view (n_membership nA) = [''a:1'' \<mapsto> (1001, Alive)]" "hr_replicaPoints (n_ring nA) = 2"
    using lone_node by blast
  obtain nB lB where B: "n_inv (lone_ctx ''b:1'') nB" "ms_local (n_membership nB) = Some lB"
    "view (n_membership nB) = [''b:1'' \<mapsto> (1001, Alive)]" "hr_replicaPoints (n_ring nB) = 2"
    using lone_node by blast
  let ?mB = "membershipAsChanges ''b:1'' (n_membership nB)"
  have wf: "ms_wf (n_membership nA)" "ms_wf (n_membership nB)" using A(1) B(1) by (simp_all add: n_inv_def ms_ok_def)
  have "validateHostPort ''a:1''" "c_memberBlacklist default_config = []" by code_simp+
  then have join: "handleJoin default_config ''b:1'' ''app'' False
      (Some (heal_request (lone_ctx ''a:1'') ''app'' nA)) nB = Inr (answer_of ''b:1'' nB)"
    using A(2) by (simp add: handleJoin_def heal_request_def validateJoinerAddress_def getIncarnationNumber_def)
  have addr: "u_address b = ''b:1''" if "b \<in> set ?mB" for b
    using as_changes(2) [OF wf(2) that] B(3) by (simp split: if_splits)
  have g: "generateChanges (lone_ctx ''a:1'') ?mB nA = ([], [])"
    unfolding generateChanges_eq [OF wf(1)] using addr A(3) by (auto simp: filter_empty_conv)
  have "all_known (view (n_membership nB))" using B(1) by (simp add: n_inv_def)
  note ok = as_changes(1) [OF wf(2), of "''b:1''"] as_changes_known [OF wf(2) this, of "''b:1''"]
  obtain nA' where A': "onHealJoin (lone_ctx ''a:1'') demo_env ''app'' ?mB nA =
      Inr (Send (sendChanges (lone_ctx ''a:1'') ''app'' (membershipAsChanges ''a:1'' (n_membership nA')) nA'), nA')"
    "n_inv (lone_ctx ''a:1'') nA'"
    "view (n_membership nA') = gossip_steps ''a:1'' (e_now demo_env) 0 ?mB (view (n_membership nA))"
    using attempt_ok [OF A(1) _ A(2) ok g, of demo_env "''app''"] by auto
  have "view (n_membership nA') ''b:1'' = Some (1001, Alive)"
    unfolding A'(3) using steps_as_changes [OF wf(2), of "''b:1''" "''a:1''"] B(3) A(3)
    by (simp add: merge_opt_def merge_rank_def)
  then have "view (n_membership nA') \<noteq> view (n_membership nA)" using A(3) by auto
  moreover have "n_update (lone_ctx ''a:1'') demo_env ?mB nA = Inr nA'"
    using A'(1) g by (auto simp: onHealJoin_def split: sum.splits)
  ultimately have c: "ms_checksum (n_membership nA') = Some 7"
    using n_update_checksum [of "lone_ctx ''a:1''" demo_env ?mB nA nA'] A(1) by simp
  let ?body = "sendChanges (lone_ctx ''a:1'') ''app'' (membershipAsChanges ''a:1'' (n_membership nA')) nA'"
  have wfA': "ms_wf (n_membership nA')" "all_known (view (n_membership nA'))"
    using A'(2) by (simp_all add: n_inv_def ms_ok_def)
  have "consistent (pg_changes ?body)"
    using consistent_distinct [OF as_changes(1) [OF wfA'(1)] as_changes_known [OF wfA']] by (simp add: sendChanges_def)
  then obtain n1 where "n_update (lone_ctx ''b:1'') demo_env (pg_changes ?body) nB = Inr n1"
    using n_update_ok [OF B(1), of "pg_changes ?body" demo_env] B(2) by auto
  moreover obtain out full ds where "issueAsReceiver ''b:1'' (n_membership n1) (Some ''a:1'')
      (getIncarnationNumber (n_membership nA')) (Some 7) (n_dissemination n1) = ((out, full), ds)"
    by (metis surj_pair)
  moreover obtain started ds' where "(if full then tryStartReverseFullSync 5 ds else (False, ds)) = (started, ds')"
    by fastforce
  ultimately have "handlePing (lone_ctx ''b:1'') demo_env ''app'' True 5 (Some (as_ping ?body)) nB =
      Inr (Inr out, started, n1\<lparr>n_dissemination := ds'\<rparr>)"
    using c by (simp add: handlePing_def as_ping_def sendChanges_def truthy_str_def truthy_num_def)
  then show ?thesis using A B join g A'(1,2) by metis
qed

theorem heal_attempt_correct_witness:
  "\<exists>nA (nB :: node) stp nA'. onHealJoin (lone_ctx ''a:1'') demo_env ''app'' (membershipAsChanges ''b:1'' (n_membership nB)) nA =
      Inr (stp, nA') \<and> n_inv (lone_ctx ''a:1'') nA' \<and> ring_servers (n_ring nA) \<subseteq> ring_servers (n_ring nA')"
proof -
  obtain nA lA nB where n: "n_inv (lone_ctx ''a:1'') nA" "ms_local (n_membership nA) = Some lA"
    "n_inv (lone_ctx ''b:1'') nB"
    "generateChanges (lone_ctx ''a:1'') (membershipAsChanges ''b:1'' (n_membership nB)) nA = ([], [])"
    using heal_example by blast
  then have wf: "ms_wf (n_membership nB)" "all_known (view (n_membership nB))"
    by (simp_all add: n_inv_def ms_ok_def)
  have "x_isReady (lone_ctx ''a:1'')" by simp
  from heal_attempt_correct [OF n(1) this n(2) as_changes(1) [OF wf(1)] as_changes_known [OF wf] n(4),
      of demo_env "''app''"]
  obtain stp nA' where "onHealJoin (lone_ctx ''a:1'') demo_env ''app'' (membershipAsChanges ''b:1'' (n_membership nB)) nA =
      Inr (stp, nA')" "n_inv (lone_ctx ''a:1'') nA'" "ring_servers (n_ring nA) \<subseteq> ring_servers (n_ring nA')"
    by (elim exE conjE)
  then have "onHealJoin (lone_ctx ''a:1'') demo_env ''app'' (membershipAsChanges ''b:1'' (n_membership nB)) nA =
      Inr (stp, nA') \<and> n_inv (lone_ctx ''a:1'') nA' \<and> ring_servers (n_ring nA) \<subseteq> ring_servers (n_ring nA')"
    by (intro conjI)
  then show ?thesis by (intro exI)
qed

theorem heal_merges_rings_witness:
  "\<exists>nA' (nB' :: node). n_inv (lone_ctx ''a:1'') nA' \<and> ring_servers (n_ring nA') = {''a:1'', ''b:1''} \<and>
    ring_servers (n_ring nB') = {''a:1'', ''b:1''} \<and>
    ring_lookup (\<lambda>s. 7) ''key'' (n_ring nB') = ring_lookup (\<lambda>s. 7) ''key'' (n_ring nA')"
proof -
  obtain nA lA nB lB nA' body out started nB' where
    A': "n_inv (lone_ctx ''a:1'') nA'"
    and A: "n_inv (lone_ctx ''a:1'') nA" "ms_local (n_membership nA) = Some lA"
      "view (n_membership nA) = [''a:1'' \<mapsto> (1001, Alive)]"
    and B: "n_inv (lone_ctx ''b:1'') nB" "ms_local (n_membership nB) = Some lB"
      "view (n_membership nB) = [''b:1'' \<mapsto> (1001, Alive)]"
    and e: "hr_replicaPoints (n_ring nB) = hr_replicaPoints (n_ring nA)"
      "handleJoin default_config ''b:1'' ''app'' False (Some (heal_request (lone_ctx ''a:1'') ''app'' nA)) nB =
        Inr (answer_of ''b:1'' nB)"
      "generateChanges (lone_ctx ''a:1'') (membershipAsChanges ''b:1'' (n_membership nB)) nA = ([], [])"
      "onHealJoin (lone_ctx ''a:1'') demo_env ''app'' (membershipAsChanges ''b:1'' (n_membership nB)) nA =
        Inr (Send body, nA')"
      "handlePing (lone_ctx ''b:1'') demo_env ''app'' True 5 (Some (as_ping body)) nB = Inr (Inr out, started, nB')"
    using heal_example by blast
  have r: "ring_servers (n_ring nA) = {''a:1''}" "ring_servers (n_ring nB) = {''b:1''}"
    using A(1,3) B(1,3) by (auto simp: n_inv_def live_def split: if_splits)
  have side: "x_isReady (lone_ctx ''a:1'')" "x_isReady (lone_ctx ''b:1'')"
    "x_whoami (lone_ctx ''a:1'') \<noteq> x_whoami (lone_ctx ''b:1'')"
    "x_whoami (lone_ctx ''a:1'') \<in> ring_servers (n_ring nA)" "x_whoami (lone_ctx ''b:1'') \<in> ring_servers (n_ring nB)"
    "x_hashFunc (lone_ctx ''b:1'') = x_hashFunc (lone_ctx ''a:1'')"
    by (simp_all add: r)
  have join: "handleJoin default_config (x_whoami (lone_ctx ''b:1'')) ''app'' False
      (Some (heal_request (lone_ctx ''a:1'') ''app'' nA)) nB = Inr (answer_of ''b:1'' nB)"
    using e(2) by simp
  have steps: "generateChanges (lone_ctx ''a:1'') (ja_membership (answer_of ''b:1'' nB)) nA = ([], [])"
    "onHealJoin (lone_ctx ''a:1'') demo_env ''app'' (ja_membership (answer_of ''b:1'' nB)) nA = Inr (Send body, nA')"
    using e(3,4) by simp_all
  note m = heal_merges_rings [OF A(1) side(1) A(2) B(1) side(2) B(2) side(3-5) join steps e(5) side(6) e(1), of "''key''"]
  have "{''a:1''} \<union> {''b:1''} = {''a:1'', ''b:1''}" by (rule insert_is_Un [symmetric])
  note rings = m [unfolded r this lone_ctx_simps]
  have "n_inv (lone_ctx ''a:1'') nA' \<and> ring_servers (n_ring nA') = {''a:1'', ''b:1''} \<and>
      ring_servers (n_ring nB') = {''a:1'', ''b:1''} \<and>
      ring_lookup (\<lambda>s. 7) ''key'' (n_ring nB') = ring_lookup (\<lambda>s. 7) ''key'' (n_ring nA')"
    by (intro conjI A' rings [THEN conjunct1] rings [THEN conjunct2, THEN conjunct1]
        rings [THEN conjunct2, THEN conjunct2, THEN conjunct1])
  then show ?thesis by (intro exI)
qed

section \<open>A heal over the hosts\<close>

text \<open>The attempts of a heal: the targets it asked, with what came of it.\<close>

fun attempts :: "config \<Rightarrow> healing \<Rightarrow> ('e + string list) list \<Rightarrow> (string \<times> ('e + string list)) list" where
  "attempts cfg h [] = []"
| "attempts cfg h (r # rs) =
     (case hl_asked h of None \<Rightarrow> [] | Some t \<Rightarrow> (t, r) # attempts cfg (onHealAttempt cfg r h) rs)"

definition failed :: "(string \<times> ('e + string list)) list \<Rightarrow> nat" where
  "failed as = length (filter (\<lambda>(t, r). isl r) as)"

definition healed :: "(string \<times> ('e + string list)) list \<Rightarrow> string list" where
  "healed as = map fst (filter (\<lambda>(t, r). \<not> isl r) as)"

definition reached :: "(string \<times> ('e + string list)) list \<Rightarrow> string set" where
  "reached as = {n. \<exists>t ns. (t, Inr ns) \<in> set as \<and> n \<in> set ns}"

lemma attempt_simps [simp]:
  "failed [] = 0" "failed ((t, Inl e) # as) = Suc (failed as)" "failed ((t, Inr ns) # as) = failed as"
  "healed [] = []" "healed ((t, Inl e) # as) = healed as" "healed ((t, Inr ns) # as) = t # healed as"
  "reached [] = {}" "reached ((t, Inl e) # as) = reached as" "reached ((t, Inr ns) # as) = set ns \<union> reached as"
  by (auto simp: failed_def healed_def reached_def)

text \<open>A heal asks, or it is over and says why.\<close>

definition heal_ok :: "config \<Rightarrow> healing \<Rightarrow> bool" where
  "heal_ok cfg h \<longleftrightarrow> int (hl_numberOfFailures h) \<le> max 0 (c_discoverProviderHealerMaxFailures cfg) \<and>
     (case hl_asked h of
        Some t \<Rightarrow> hl_result h = None \<and> distinct (t # hl_potentialTargets h) \<and>
          int (hl_numberOfFailures h) < c_discoverProviderHealerMaxFailures cfg
      | None \<Rightarrow> hl_result h = Some (Inr (hl_targets h)) \<and>
          (hl_potentialTargets h = [] \<or> c_discoverProviderHealerMaxFailures cfg \<le> int (hl_numberOfFailures h)))"

lemma healNext_ok:
  assumes "distinct (hl_potentialTargets h)" and "hl_asked h = None" and "hl_result h = None"
    and "int (hl_numberOfFailures h) \<le> max 0 (c_discoverProviderHealerMaxFailures cfg)"
  shows "heal_ok cfg (healNext cfg h)"
proof (cases "hl_potentialTargets h" rule: rev_cases)
  case (snoc ts t)
  then show ?thesis using assms by (auto simp: heal_ok_def healNext_def)
qed (use assms in \<open>simp add: heal_ok_def healNext_def\<close>)

lemma onHealAttempt_ok: "heal_ok cfg h \<Longrightarrow> heal_ok cfg (onHealAttempt cfg r h)"
  by (auto simp: onHealAttempt_def heal_ok_def [of cfg h] Let_def intro!: healNext_ok
      split: option.splits sum.splits)

lemma healNext_frame [simp]:
  "hl_numberOfFailures (healNext cfg h) = hl_numberOfFailures h" "hl_targets (healNext cfg h) = hl_targets h"
  by (simp_all add: healNext_def)

definition todo :: "healing \<Rightarrow> string list" where
  "todo h = (case hl_asked h of None \<Rightarrow> [] | Some t \<Rightarrow> [t]) @ hl_potentialTargets h"

lemma todo_healNext:
  "hl_asked h = None \<Longrightarrow> set (todo (healNext cfg h)) = set (hl_potentialTargets h) \<and>
    length (todo (healNext cfg h)) = length (hl_potentialTargets h)"
  by (cases "hl_potentialTargets h" rule: rev_cases) (auto simp: todo_def healNext_def)

lemma heal_run_correct:
  assumes "heal_ok cfg h"
  shows "let as = attempts cfg h rs; h' = fold (onHealAttempt cfg) rs h in
    heal_ok cfg h' \<and> distinct (map fst as) \<and> fst ` set as \<subseteq> set (todo h) \<and>
    hl_targets h' = hl_targets h @ healed as \<and>
    hl_numberOfFailures h' = hl_numberOfFailures h + failed as \<and>
    (hl_asked h' = None \<and> int (hl_numberOfFailures h') < c_discoverProviderHealerMaxFailures cfg \<longrightarrow>
      set (todo h) \<subseteq> fst ` set as \<union> reached as) \<and>
    (length (todo h) \<le> length rs \<longrightarrow> hl_asked h' = None)"
  using assms
proof (induction rs arbitrary: h)
  case Nil
  then show ?case by (cases "hl_asked h") (auto simp: heal_ok_def todo_def)
next
  case (Cons r rs)
  show ?case
  proof (cases "hl_asked h")
    case None
    have "fold (onHealAttempt cfg) rs h = h"
      using None by (induction rs) (simp_all add: onHealAttempt_def)
    moreover have "onHealAttempt cfg r h = h" using None by (simp add: onHealAttempt_def)
    ultimately show ?thesis using None Cons.prems by (auto simp: heal_ok_def todo_def Let_def)
  next
    case (Some t)
    let ?h = "onHealAttempt cfg r h"
    have ok: "heal_ok cfg ?h" using onHealAttempt_ok Cons.prems by blast
    have d: "t \<notin> set (hl_potentialTargets h)" "distinct (hl_potentialTargets h)"
      using Cons.prems Some by (simp_all add: heal_ok_def)
    have todo: "todo h = t # hl_potentialTargets h" using Some by (simp add: todo_def)
    show ?thesis
    proof (cases r)
      case (Inl e)
      have h: "hl_targets ?h = hl_targets h" "hl_numberOfFailures ?h = Suc (hl_numberOfFailures h)"
        "set (todo ?h) = set (hl_potentialTargets h)" "length (todo ?h) = length (hl_potentialTargets h)"
        using Some Inl todo_healNext [of "h\<lparr>hl_asked := None, hl_numberOfFailures := Suc (hl_numberOfFailures h)\<rparr>" cfg]
        by (simp_all add: onHealAttempt_def)
      show ?thesis using Cons.IH [OF ok] Some Inl h todo d by (auto simp: Let_def)
    next
      case (Inr ns)
      have h: "hl_targets ?h = hl_targets h @ [t]" "hl_numberOfFailures ?h = hl_numberOfFailures h"
        "set (todo ?h) = set (hl_potentialTargets h) - set ns" "length (todo ?h) \<le> length (hl_potentialTargets h)"
        using Some Inr todo_healNext [of "h\<lparr>hl_asked := None, hl_targets := hl_targets h @ [t],
            hl_potentialTargets := filter (\<lambda>t. t \<notin> set ns) (hl_potentialTargets h)\<rparr>" cfg]
        by (auto simp: onHealAttempt_def)
      show ?thesis using Cons.IH [OF ok] Some Inr h todo d by (auto simp: Let_def)
    qed
  qed
qed

text \<open>
  a heal asks every valid target once at most, and is over after as many attempts as there are
  valid targets or at the limit of failures; its result are the targets that were healed, and unless the
  failures stopped it every valid target was asked or is reachable from one that was healed.
\<close>

theorem heal_correct:
  assumes "x_isReady ctx" and "distinct hosts"
    and "mset (shuffle (filter (isHostAValidTarget ctx ms) hosts)) = mset (filter (isHostAValidTarget ctx ms) hosts)"
    and "as = attempts (x_config ctx) (heal shuffle ctx (Some (Inr hosts)) ms) rs"
    and "h = fold (onHealAttempt (x_config ctx)) rs (heal shuffle ctx (Some (Inr hosts)) ms)"
  shows "distinct (map fst as) \<and> fst ` set as \<subseteq> set (filter (isHostAValidTarget ctx ms) hosts) \<and>
    int (failed as) \<le> max 0 (c_discoverProviderHealerMaxFailures (x_config ctx)) \<and>
    (hl_result h = None \<or> hl_result h = Some (Inr (healed as))) \<and>
    (length (filter (isHostAValidTarget ctx ms) hosts) \<le> length rs \<longrightarrow> hl_result h \<noteq> None) \<and>
    (hl_result h \<noteq> None \<and> int (failed as) < c_discoverProviderHealerMaxFailures (x_config ctx) \<longrightarrow>
      set (filter (isHostAValidTarget ctx ms) hosts) \<subseteq> fst ` set as \<union> reached as)"
proof -
  let ?ts = "filter (isHostAValidTarget ctx ms) hosts" and ?cfg = "x_config ctx"
  let ?h = "\<lparr>hl_potentialTargets = shuffle ?ts, hl_targets = [], hl_numberOfFailures = 0, hl_asked = None,
    hl_result = None\<rparr>"
  have h0: "heal shuffle ctx (Some (Inr hosts)) ms = healNext ?cfg ?h"
    using assms(1) by (simp add: heal_def getTargets_def)
  have "distinct ?ts" using assms(2) by simp
  then have d: "distinct (shuffle ?ts)" using assms(3) mset_eq_imp_distinct_iff by blast
  have s: "set (shuffle ?ts) = set ?ts" "length (shuffle ?ts) = length ?ts"
    using mset_eq_setD [OF assms(3)] mset_eq_length [OF assms(3)] by simp_all
  have ok: "heal_ok ?cfg (healNext ?cfg ?h)" by (rule healNext_ok) (simp_all add: d)
  have t: "set (todo (healNext ?cfg ?h)) = set ?ts" "length (todo (healNext ?cfg ?h)) = length ?ts"
    using todo_healNext [of ?h ?cfg] s by simp_all
  note run = heal_run_correct [OF ok, of rs, unfolded Let_def, folded h0, folded assms(4,5), unfolded h0 t]
  have over: "hl_result h \<noteq> None \<longleftrightarrow> hl_asked h = None" "hl_result h = None \<or> hl_result h = Some (Inr (hl_targets h))"
    "int (hl_numberOfFailures h) \<le> max 0 (c_discoverProviderHealerMaxFailures ?cfg)"
    using run by (auto simp: heal_ok_def split: option.splits)
  show ?thesis using run over by simp
qed

theorem heal_correct_witness:
  "\<exists>h. h = fold (onHealAttempt default_config) [Inr [''c:1''], Inl ''refused'']
      (heal id (lone_ctx ''a:1'') (Some (Inr [''c:1'', ''a:1'', ''d:1'', ''b:1''])) new_membership) \<and>
    hl_result h = Some (Inr [''b:1''])"
proof -
  let ?hosts = "[''c:1'', ''a:1'', ''d:1'', ''b:1'']" and ?rs = "[Inr [''c:1''], Inl ''refused'']"
  define h where "h = fold (onHealAttempt (x_config (lone_ctx ''a:1''))) ?rs
      (heal id (lone_ctx ''a:1'') (Some (Inr ?hosts)) new_membership)"
  have "hl_result h = None \<or> hl_result h = Some (Inr (healed (attempts (x_config (lone_ctx ''a:1''))
      (heal id (lone_ctx ''a:1'') (Some (Inr ?hosts)) new_membership) ?rs)))"
    using heal_correct [OF _ _ _ refl h_def] by simp
  moreover have "hl_result h \<noteq> None" unfolding h_def by code_simp
  moreover have "healed (attempts (x_config (lone_ctx ''a:1''))
      (heal id (lone_ctx ''a:1'') (Some (Inr ?hosts)) new_membership) ?rs) = [''b:1'']" by code_simp
  ultimately show ?thesis by (auto simp: h_def)
qed

section \<open>The timer\<close>

text \<open>
  Between a start and a stop exactly one timeout is pending or one heal is under way, as long as no heal
  was under way at the start.
\<close>

lemma heal_loop_alive:
  assumes "\<not> dh_isStopped h" and "length (dh_pending h) + dh_heals h = 1"
  shows "length (dh_pending (onHealTimer ctx random ms i h)) + dh_heals (onHealTimer ctx random ms i h) = 1"
    and "length (dh_pending (onHeal h)) + dh_heals (onHeal h) = 1"
proof -
  show "length (dh_pending (onHealTimer ctx random ms i h)) + dh_heals (onHealTimer ctx random ms i h) = 1"
    using assms by (cases "dh_pending h") (auto simp: onHealTimer_def heal_run_def scheduleNext_def)
  show "length (dh_pending (onHeal h)) + dh_heals (onHeal h) = 1"
    using assms by (cases "dh_pending h") (auto simp: onHeal_def scheduleNext_def)
qed

lemma heal_base_probability: "c_discoverProviderHealerBaseProbability default_config = 3"
  by code_simp

text \<open>
  A stop during a heal: the heal's callback schedules the timer all the same, whose firing does nothing
  but whose handle stays, so the healer cannot be started again; or, started before the callback, it
  has two timers.
\<close>

lemma heal_stop_sticks:
  "let ctx = lone_ctx ''a:1''; ms = new_membership;
       h1 = onHealTimer ctx 0 ms 0 (heal_start ctx 0 ms (new_healer default_config));
       h2 = onHealTimer ctx 0 ms 1 (onHeal (heal_stop h1));
       h3 = heal_start ctx 0 ms h2
   in dh_heals h1 = 1 \<and> dh_isStopped h3 \<and> dh_pending h3 = [] \<and> dh_heals h3 = 0"
  by (simp add: new_healer_def heal_start_def heal_run_def scheduleNext_def onHealTimer_def heal_stop_def onHeal_def
      probability_def new_membership_def heal_base_probability Let_def)

lemma heal_restart_doubles:
  "let ctx = lone_ctx ''a:1''; ms = new_membership;
       h1 = onHealTimer ctx 0 ms 0 (heal_start ctx 0 ms (new_healer default_config))
   in dh_pending (onHeal (heal_start ctx 0 ms (heal_stop h1))) = [1, 2]"
  by (simp add: new_healer_def heal_start_def heal_run_def scheduleNext_def onHealTimer_def heal_stop_def onHeal_def
      probability_def new_membership_def heal_base_probability Let_def)

end
