(* ===== verification/Self_Evict.thy ===== *)
theory Self_Evict
  imports Node
begin

text \<open>
  Self eviction (\<open>lib/self-evict.js\<close>): a node that shuts down runs its preEvict hooks, declares itself
  faulty and pings some members with it, runs its postEvict hooks and calls back.

  The callbacks given to \<open>process.nextTick\<close> are an explicit queue. A hook that was called and a ping that
  was sent are outstanding until they call back, each at a moment of its own; \<open>_.after\<close> is a counter.
\<close>

section \<open>State\<close>

datatype phase_name = PreEvict | Evicting | PostEvict | Done

datatype hook_kind = Pre | Post

record evict_phase =
  ph_phase :: phase_name
  ph_ts :: int
  ph_duration :: "int option"
  ph_numberOfPings :: "nat option"
  ph_numberOfSuccessfulPings :: "nat option"

text \<open>A property of the registered object: missing, a function, or something else.\<close>

datatype hook_field = Missing | Function | Other

record hooks =
  hk_name :: string
  hk_preEvict :: hook_field
  hk_postEvict :: hook_field

datatype evict_error =
    ArgumentRequired string
  | FieldRequired string string
  | DuplicateHook string
  | MethodRequired string string
  | InvalidOption string
  | RingpopIsAlreadyShuttingDown evict_phase

datatype evict_tick =
    Run_hook hook_kind string
  | Hooks_done hook_kind
  | Evict
  | Post_evict
  | Finish

record self_evict =
  se_hooks :: "hooks dict"
  se_callback :: "nat option"
  se_phases :: "evict_phase list"
  se_ticks :: "evict_tick list"
  se_after :: "hook_kind \<Rightarrow> int"
  se_running :: "(hook_kind \<times> string) list"
  se_afterPing :: int
  se_pinging :: "string list"
  se_called :: "(hook_kind \<times> string) list"
  se_answers :: "(nat \<times> evict_error option) list"

definition new_self_evict :: self_evict where
  "new_self_evict = \<lparr>se_hooks = [], se_callback = None, se_phases = [], se_ticks = [], se_after = (\<lambda>k. 0),
     se_running = [], se_afterPing = 0, se_pinging = [], se_called = [], se_answers = []\<rparr>"

definition currentPhase :: "self_evict \<Rightarrow> evict_phase option" where
  "currentPhase s = (if se_phases s \<noteq> [] then Some (last (se_phases s)) else None)"

section \<open>Hooks\<close>

definition registerHooks :: "hooks option \<Rightarrow> self_evict \<Rightarrow> evict_error + self_evict" where
  "registerHooks hooks s =
     (case hooks of
        None \<Rightarrow> Inl (ArgumentRequired ''hooks'')
      | Some h \<Rightarrow>
          if hk_name h = [] then Inl (FieldRequired ''hooks'' ''name'')
          else if dget (se_hooks s) (hk_name h) \<noteq> None then Inl (DuplicateHook (hk_name h))
          else if hk_preEvict h = Missing \<and> hk_postEvict h = Missing
          then Inl (MethodRequired ''hooks'' ''preEvict and/or postEvict'')
          else if hk_preEvict h = Other then Inl (InvalidOption ''preEvict'')
          else if hk_postEvict h = Other then Inl (InvalidOption ''postEvict'')
          else Inr (s\<lparr>se_hooks := dset (hk_name h) h (se_hooks s)\<rparr>))"

fun field_of :: "hook_kind \<Rightarrow> hooks \<Rightarrow> hook_field" where
  "field_of Pre h = hk_preEvict h"
| "field_of Post h = hk_postEvict h"

definition hook_names :: "hook_kind \<Rightarrow> self_evict \<Rightarrow> string list" where
  "hook_names kind s =
     filter (\<lambda>name. case dget (se_hooks s) name of None \<Rightarrow> False | Some h \<Rightarrow> field_of kind h \<noteq> Missing)
       (dkeys (se_hooks s))"

definition nextTick :: "evict_tick \<Rightarrow> self_evict \<Rightarrow> self_evict" where
  "nextTick t s = s\<lparr>se_ticks := se_ticks s @ [t]\<rparr>"

text \<open>The function given to \<open>_runHooks\<close>.\<close>

fun hooksDone :: "hook_kind \<Rightarrow> self_evict \<Rightarrow> self_evict" where
  "hooksDone Pre s = nextTick Evict s"
| "hooksDone Post s = nextTick Finish s"

definition runHooks :: "hook_kind \<Rightarrow> self_evict \<Rightarrow> self_evict" where
  "runHooks kind s =
     (let names = hook_names kind s in
      if length names = 0 then hooksDone kind s
      else s\<lparr>se_after := (se_after s)(kind := int (length names)),
             se_ticks := se_ticks s @ map (Run_hook kind) names\<rparr>)"

text \<open>\<open>hook[type](hookDone)\<close>, and \<open>hookDone\<close>: \<open>_.after\<close> counts down and calls from then on.\<close>

definition runHook :: "hook_kind \<Rightarrow> string \<Rightarrow> self_evict \<Rightarrow> self_evict" where
  "runHook kind name s =
     s\<lparr>se_running := se_running s @ [(kind, name)], se_called := se_called s @ [(kind, name)]\<rparr>"

definition hookDone :: "hook_kind \<Rightarrow> self_evict \<Rightarrow> self_evict" where
  "hookDone kind s =
     (let times = se_after s kind - 1; s1 = s\<lparr>se_after := (se_after s)(kind := times)\<rparr>
      in if times < 1 then nextTick (Hooks_done kind) s1 else s1)"

section \<open>Phases\<close>

definition transitionTo :: "int \<Rightarrow> phase_name \<Rightarrow> self_evict \<Rightarrow> self_evict" where
  "transitionTo now phaseName s =
     (let phase = \<lparr>ph_phase = phaseName, ph_ts = now, ph_duration = None, ph_numberOfPings = None,
            ph_numberOfSuccessfulPings = None\<rparr>;
          previous = (if se_phases s \<noteq> []
            then butlast (se_phases s) @ [(last (se_phases s))\<lparr>ph_duration := Some (now - ph_ts (last (se_phases s)))\<rparr>]
            else [])
      in s\<lparr>se_phases := previous @ [phase]\<rparr>)"

definition initiate :: "int \<Rightarrow> nat \<Rightarrow> self_evict \<Rightarrow> self_evict" where
  "initiate now callback s =
     (case currentPhase s of
        Some phase \<Rightarrow> s\<lparr>se_answers := se_answers s @ [(callback, Some (RingpopIsAlreadyShuttingDown phase))]\<rparr>
      | None \<Rightarrow> runHooks Pre (transitionTo now PreEvict (s\<lparr>se_callback := Some callback\<rparr>)))"

text \<open>\<open>xs.slice(0, n)\<close>: a negative end counts from the back.\<close>

definition slice0 :: "int \<Rightarrow> 'a list \<Rightarrow> 'a list" where
  "slice0 n xs = (if 0 \<le> n then take (nat n) xs else take (length xs - nat (- n)) xs)"

definition getMembersToPing :: "node_ctx \<Rightarrow> node \<Rightarrow> string list" where
  "getMembersToPing ctx n =
     (let ms = n_membership n;
          pingableMembers = filter (\<lambda>r. isPingable ctx (deref ms r)) (ms_members ms);
          maxNumberOfPings = \<lceil>real (length pingableMembers) * c_selfEvictionMaxPingRatio (x_config ctx)\<rceil>;
          numberOfPings = min (min (ds_maxPiggybackCount (n_dissemination n)) maxNumberOfPings)
            (int (length pingableMembers))
      in map (\<lambda>r. m_address (deref ms r)) (slice0 numberOfPings pingableMembers))"

text \<open>The phase object of the eviction, which the pings go on updating.\<close>

definition update_evicting :: "(evict_phase \<Rightarrow> evict_phase) \<Rightarrow> self_evict \<Rightarrow> self_evict" where
  "update_evicting f s = s\<lparr>se_phases := map (\<lambda>p. if ph_phase p = Evicting then f p else p) (se_phases s)\<rparr>"

text \<open>The pings are sent one after the other, each with the changes dissemination issues for it.\<close>

fun sendPings :: "node_ctx \<Rightarrow> string \<Rightarrow> string list \<Rightarrow> node \<Rightarrow> (string \<times> ping_body) list \<times> node" where
  "sendPings ctx app [] n = ([], n)"
| "sendPings ctx app (target # targets) n =
     (let (body, ds) = ping_request ctx app (n_membership n) (n_dissemination n);
          (pings, n') = sendPings ctx app targets (n\<lparr>n_dissemination := ds\<rparr>)
      in ((target, body) # pings, n'))"

definition evict_self :: "node_ctx \<Rightarrow> env \<Rightarrow> string \<Rightarrow> int \<Rightarrow> self_evict \<Rightarrow> node \<Rightarrow>
    ((string \<times> ping_body) list \<times> self_evict \<times> node) outcome" where
  "evict_self ctx env app now s n =
     (let s1 = transitionTo now Evicting s in
      case n_setLocalStatus ctx env Faulty n of
        Inl e \<Rightarrow> Inl e
      | Inr n1 \<Rightarrow>
          let membersToPing = getMembersToPing ctx n1;
              s2 = update_evicting (\<lambda>p. p\<lparr>ph_numberOfPings := Some (length membersToPing),
                     ph_numberOfSuccessfulPings := Some 0\<rparr>) s1
          in if c_selfEvictionPingEnabled (x_config ctx) \<and> length membersToPing > 0
             then (let (pings, n2) = sendPings ctx app membersToPing n1 in
                   Inr (pings, s2\<lparr>se_afterPing := int (length membersToPing), se_pinging := membersToPing\<rparr>, n2))
             else Inr ([], nextTick Post_evict s2, n1))"

definition afterPing :: "bool \<Rightarrow> self_evict \<Rightarrow> self_evict" where
  "afterPing err s =
     (let s1 = (if err then s
                else update_evicting (\<lambda>p. p\<lparr>ph_numberOfSuccessfulPings := map_option Suc (ph_numberOfSuccessfulPings p)\<rparr>) s);
          times = se_afterPing s1 - 1;
          s2 = s1\<lparr>se_afterPing := times\<rparr>
      in if times < 1 then nextTick Post_evict s2 else s2)"

definition postEvict :: "int \<Rightarrow> self_evict \<Rightarrow> self_evict" where
  "postEvict now s = runHooks Post (transitionTo now PostEvict s)"

definition evict_done :: "int \<Rightarrow> self_evict \<Rightarrow> self_evict" where
  "evict_done now s =
     (let s1 = transitionTo now Done s in
      case se_callback s1 of None \<Rightarrow> s1 | Some cb \<Rightarrow> s1\<lparr>se_answers := se_answers s1 @ [(cb, None)]\<rparr>)"

text \<open>The next tick.\<close>

definition evict_tick :: "node_ctx \<Rightarrow> env \<Rightarrow> string \<Rightarrow> int \<Rightarrow> self_evict \<Rightarrow> node \<Rightarrow>
    ((string \<times> ping_body) list \<times> self_evict \<times> node) outcome" where
  "evict_tick ctx env app now s n =
     (case se_ticks s of
        [] \<Rightarrow> Inr ([], s, n)
      | t # ts \<Rightarrow>
          let s1 = s\<lparr>se_ticks := ts\<rparr> in
          (case t of
             Run_hook kind name \<Rightarrow> Inr ([], runHook kind name s1, n)
           | Hooks_done kind \<Rightarrow> Inr ([], hooksDone kind s1, n)
           | Evict \<Rightarrow> evict_self ctx env app now s1 n
           | Post_evict \<Rightarrow> Inr ([], postEvict now s1, n)
           | Finish \<Rightarrow> Inr ([], evict_done now s1, n)))"

end
