(* ===== verification/Self_Evict_Properties.thy ===== *)
theory Self_Evict_Properties
  imports Self_Evict Node_Properties
begin

text \<open>
  A self eviction goes through its phases in order, calls every hook once, never stalls and calls back
  exactly once; the eviction itself takes the node out of its own ring and tells a bounded number of members.
\<close>

section \<open>Runs\<close>

text \<open>
  What happens after a start: the next tick, a hook that was called calls back, or a ping is over. In
  between hooks may be registered and the eviction initiated again. At every tick the node is any
  well-formed one.
\<close>

inductive evict_step :: "node_ctx \<Rightarrow> int \<Rightarrow> self_evict \<Rightarrow> self_evict \<Rightarrow> bool" for ctx now where
  tick: "n_inv ctx n \<Longrightarrow> se_ticks s \<noteq> [] \<Longrightarrow> evict_tick ctx env app now s n = Inr (pings, s', n') \<Longrightarrow>
    evict_step ctx now s s'"
| hook: "(kind, name) \<in> set (se_running s) \<Longrightarrow>
    evict_step ctx now s (hookDone kind (s\<lparr>se_running := remove1 (kind, name) (se_running s)\<rparr>))"
| ping: "target \<in> set (se_pinging s) \<Longrightarrow>
    evict_step ctx now s (afterPing err (s\<lparr>se_pinging := remove1 target (se_pinging s)\<rparr>))"

definition fresh :: "self_evict \<Rightarrow> bool" where
  "fresh s \<longleftrightarrow> se_phases s = [] \<and> se_ticks s = [] \<and> se_running s = [] \<and> se_pinging s = [] \<and>
     se_called s = [] \<and> se_answers s = [] \<and> distinct (dkeys (se_hooks s))"

inductive evict_run :: "node_ctx \<Rightarrow> self_evict \<Rightarrow> nat \<Rightarrow> int \<Rightarrow> self_evict \<Rightarrow> bool" for ctx s0 cb where
  start: "fresh s0 \<Longrightarrow> evict_run ctx s0 cb now (initiate now cb s0)"
| again: "evict_run ctx s0 cb now s \<Longrightarrow> evict_run ctx s0 cb now (initiate now cb' s)"
| register: "evict_run ctx s0 cb now s \<Longrightarrow> registerHooks h s = Inr s' \<Longrightarrow> evict_run ctx s0 cb now s'"
| step: "evict_run ctx s0 cb now s \<Longrightarrow> now \<le> now' \<Longrightarrow> evict_step ctx now' s s' \<Longrightarrow> evict_run ctx s0 cb now' s'"

section \<open>The invariant\<close>

abbreviation names :: "evict_phase list \<Rightarrow> phase_name list" where
  "names ps \<equiv> map ph_phase ps"

fun final_tick :: "hook_kind \<Rightarrow> evict_tick" where
  "final_tick Pre = Evict"
| "final_tick Post = Finish"

definition called :: "hook_kind \<Rightarrow> self_evict \<Rightarrow> string list" where
  "called kind s = map snd (filter (\<lambda>(k, n). k = kind) (se_called s))"

text \<open>The hooks of a kind run: some to call, some to wait for, or all are through.\<close>

definition hooks_stage :: "hook_kind \<Rightarrow> string list \<Rightarrow> self_evict \<Rightarrow> bool" where
  "hooks_stage kind todo s \<longleftrightarrow> distinct (called kind s @ todo) \<and>
     (se_ticks s = map (Run_hook kind) todo \<and> (\<forall>(k, n) \<in> set (se_running s). k = kind) \<and>
        se_after s kind = int (length todo + length (se_running s)) \<and> length todo + length (se_running s) > 0 \<or>
      todo = [] \<and> se_running s = [] \<and> (se_ticks s = [Hooks_done kind] \<or> se_ticks s = [final_tick kind]))"

definition evict_stage :: "self_evict \<Rightarrow> self_evict \<Rightarrow> bool" where
  "evict_stage s0 s \<longleftrightarrow>
     (case names (se_phases s) of
        [PreEvict] \<Rightarrow> (\<exists>todo. hooks_stage Pre todo s \<and> set (called Pre s @ todo) = set (hook_names Pre s0)) \<and>
          called Post s = [] \<and> se_pinging s = []
      | [PreEvict, Evicting] \<Rightarrow> distinct (called Pre s) \<and> set (called Pre s) = set (hook_names Pre s0) \<and>
          called Post s = [] \<and> se_running s = [] \<and>
          (se_pinging s \<noteq> [] \<and> se_afterPing s = int (length (se_pinging s)) \<and> se_ticks s = [] \<or>
           se_pinging s = [] \<and> se_ticks s = [Post_evict])
      | [PreEvict, Evicting, PostEvict] \<Rightarrow> distinct (called Pre s) \<and> set (called Pre s) = set (hook_names Pre s0) \<and>
          (\<exists>todo. hooks_stage Post todo s \<and> set (hook_names Post s0) \<subseteq> set (called Post s @ todo)) \<and>
          se_pinging s = []
      | [PreEvict, Evicting, PostEvict, Done] \<Rightarrow> distinct (called Pre s) \<and>
          set (called Pre s) = set (hook_names Pre s0) \<and> distinct (called Post s) \<and>
          set (hook_names Post s0) \<subseteq> set (called Post s) \<and>
          se_ticks s = [] \<and> se_running s = [] \<and> se_pinging s = []
      | _ \<Rightarrow> False)"

definition succeeded :: "self_evict \<Rightarrow> nat list" where
  "succeeded s = map fst (filter (\<lambda>(c, e). e = None) (se_answers s))"

definition evict_ok :: "self_evict \<Rightarrow> nat \<Rightarrow> self_evict \<Rightarrow> bool" where
  "evict_ok s0 cb s \<longleftrightarrow> evict_stage s0 s \<and> se_callback s = Some cb \<and> distinct (dkeys (se_hooks s)) \<and>
     (\<forall>k. set (hook_names k s0) \<subseteq> set (hook_names k s)) \<and>
     succeeded s = (if Done \<in> set (names (se_phases s)) then [cb] else [])"

lemma evict_stage_cases:
  assumes "evict_stage s0 s"
  obtains (pre) "names (se_phases s) = [PreEvict]"
    | (evicting) "names (se_phases s) = [PreEvict, Evicting]"
    | (post) "names (se_phases s) = [PreEvict, Evicting, PostEvict]"
    | (over) "names (se_phases s) = [PreEvict, Evicting, PostEvict, Done]"
  using assms by (auto simp: evict_stage_def split: list.splits phase_name.splits)

section \<open>Steps of the model\<close>

lemma names_transition [simp]: "names (se_phases (transitionTo now p s)) = names (se_phases s) @ [p]"
  by (cases "se_phases s" rule: rev_cases) (simp_all add: transitionTo_def Let_def)

lemma transition_frame [simp]:
  "se_hooks (transitionTo now p s) = se_hooks s" "se_callback (transitionTo now p s) = se_callback s"
  "se_ticks (transitionTo now p s) = se_ticks s" "se_after (transitionTo now p s) = se_after s"
  "se_running (transitionTo now p s) = se_running s" "se_pinging (transitionTo now p s) = se_pinging s"
  "se_called (transitionTo now p s) = se_called s" "se_answers (transitionTo now p s) = se_answers s"
  "se_afterPing (transitionTo now p s) = se_afterPing s"
  by (simp_all add: transitionTo_def Let_def)

lemma update_evicting_frame [simp]:
  "se_hooks (update_evicting f s) = se_hooks s" "se_callback (update_evicting f s) = se_callback s"
  "se_ticks (update_evicting f s) = se_ticks s" "se_after (update_evicting f s) = se_after s"
  "se_running (update_evicting f s) = se_running s" "se_pinging (update_evicting f s) = se_pinging s"
  "se_called (update_evicting f s) = se_called s" "se_answers (update_evicting f s) = se_answers s"
  "se_afterPing (update_evicting f s) = se_afterPing s"
  by (simp_all add: update_evicting_def)

lemma names_update_evicting:
  assumes "\<And>p. ph_phase (f p) = ph_phase p"
  shows "names (se_phases (update_evicting f s)) = names (se_phases s)"
  by (simp add: update_evicting_def assms)

lemma hook_names_cong: "se_hooks s = se_hooks s' \<Longrightarrow> hook_names k s = hook_names k s'"
  by (simp add: hook_names_def)

lemma called_cong: "se_called s = se_called s' \<Longrightarrow> called k s = called k s'"
  by (simp add: called_def)

lemma distinct_hook_names: "distinct (dkeys (se_hooks s)) \<Longrightarrow> distinct (hook_names k s)"
  by (simp add: hook_names_def)

lemma runHooks_frame [simp]:
  "se_hooks (runHooks k s) = se_hooks s" "se_callback (runHooks k s) = se_callback s"
  "se_phases (runHooks k s) = se_phases s" "se_running (runHooks k s) = se_running s"
  "se_pinging (runHooks k s) = se_pinging s" "se_called (runHooks k s) = se_called s"
  "se_answers (runHooks k s) = se_answers s"
  by (cases k; simp add: runHooks_def nextTick_def Let_def)+

lemma runHooks_stage:
  assumes "se_ticks s = []" "se_running s = []" "called k s = []" "distinct (dkeys (se_hooks s))"
  shows "hooks_stage k (hook_names k s) (runHooks k s)"
proof -
  have c: "called k (runHooks k s) = []" using assms(3) called_cong [of "runHooks k s" s] by simp
  show ?thesis
    using assms distinct_hook_names [of s k] c
    by (cases k) (auto simp: hooks_stage_def runHooks_def nextTick_def Let_def)
qed

lemma initiate_start:
  assumes "fresh s0"
  shows "evict_ok s0 cb (initiate now cb s0)"
proof -
  let ?s = "transitionTo now PreEvict (s0\<lparr>se_callback := Some cb\<rparr>)"
  have eq: "initiate now cb s0 = runHooks Pre ?s" using assms by (simp add: initiate_def currentPhase_def fresh_def)
  have n: "hook_names k (runHooks Pre ?s) = hook_names k s0" "hook_names k ?s = hook_names k s0" for k
    by (rule hook_names_cong, simp)+
  have c: "called k (runHooks Pre ?s) = []" "called k ?s = []" for k using assms by (simp_all add: called_def fresh_def)
  have "hooks_stage Pre (hook_names Pre s0) (runHooks Pre ?s)"
    using runHooks_stage [of ?s Pre] assms c by (simp add: fresh_def n)
  then show ?thesis
    using assms c unfolding eq by (auto simp: evict_ok_def evict_stage_def fresh_def n succeeded_def)
qed

lemma stage_phases:
  assumes "evict_stage s0 s"
  shows "se_phases s \<noteq> []"
  using assms by (auto simp: evict_stage_def)

lemma evict_ok_cong:
  assumes "names (se_phases s') = names (se_phases s)" "se_ticks s' = se_ticks s" "se_after s' = se_after s"
    "se_running s' = se_running s" "se_pinging s' = se_pinging s" "se_afterPing s' = se_afterPing s"
    "se_called s' = se_called s" "se_callback s' = se_callback s" "succeeded s' = succeeded s"
    and "distinct (dkeys (se_hooks s'))" "\<And>k. set (hook_names k s) \<subseteq> set (hook_names k s')"
  shows "evict_ok s0 cb s \<Longrightarrow> evict_ok s0 cb s'"
proof -
  have c: "called k s' = called k s" for k using assms(7) by (rule called_cong)
  have h: "hooks_stage k todo s' = hooks_stage k todo s" for k todo using assms c by (simp add: hooks_stage_def)
  have "evict_stage s0 s' = evict_stage s0 s"
    unfolding evict_stage_def c h assms(1-6) ..
  moreover assume "evict_ok s0 cb s"
  ultimately show ?thesis using assms by (auto simp: evict_ok_def)
qed

lemma again_ok:
  assumes "evict_ok s0 cb s"
  shows "evict_ok s0 cb (initiate now cb' s)"
proof -
  have "se_phases s \<noteq> []" using assms stage_phases by (auto simp: evict_ok_def)
  then obtain p where p: "initiate now cb' s = s\<lparr>se_answers := se_answers s @ [(cb', Some (RingpopIsAlreadyShuttingDown p))]\<rparr>"
    by (simp add: initiate_def currentPhase_def)
  show ?thesis unfolding p
    by (rule evict_ok_cong [OF _ _ _ _ _ _ _ _ _ _ _ assms])
      (use assms in \<open>simp_all add: succeeded_def evict_ok_def hook_names_def\<close>)
qed

lemma register_ok:
  assumes ok: "evict_ok s0 cb s" and reg: "registerHooks h s = Inr s'"
  shows "evict_ok s0 cb s'"
proof -
  obtain x where x: "s' = s\<lparr>se_hooks := dset (hk_name x) x (se_hooks s)\<rparr>" "dget (se_hooks s) (hk_name x) = None"
    using reg by (auto simp: registerHooks_def split: option.splits if_splits)
  have "set (hook_names k s) \<subseteq> set (hook_names k s')" for k
    using x(2) unfolding x(1) by (auto simp: hook_names_def dict.get_put split: option.splits)
  moreover have "distinct (dkeys (se_hooks s'))" using ok x(1) by (simp add: evict_ok_def dict.ok_put)
  ultimately show ?thesis
    by (intro evict_ok_cong [OF _ _ _ _ _ _ _ _ _ _ _ ok]) (simp_all add: x(1) succeeded_def)
qed

text \<open>A hook calls back.\<close>

lemma hookDone_frame [simp]:
  "se_hooks (hookDone k s) = se_hooks s" "se_callback (hookDone k s) = se_callback s"
  "se_phases (hookDone k s) = se_phases s" "se_running (hookDone k s) = se_running s"
  "se_pinging (hookDone k s) = se_pinging s" "se_called (hookDone k s) = se_called s"
  "se_answers (hookDone k s) = se_answers s" "se_afterPing (hookDone k s) = se_afterPing s"
  by (simp_all add: hookDone_def nextTick_def Let_def)

lemma hookDone_stage:
  assumes st: "hooks_stage k todo s" and mem: "(kind, name) \<in> set (se_running s)"
  shows "kind = k \<and> hooks_stage k todo (hookDone kind (s\<lparr>se_running := remove1 (kind, name) (se_running s)\<rparr>))"
proof -
  have run: "se_ticks s = map (Run_hook k) todo" "\<forall>(k', n) \<in> set (se_running s). k' = k"
    "se_after s k = int (length todo + length (se_running s))"
    using st mem by (auto simp: hooks_stage_def)
  then have k: "kind = k" using mem by blast
  let ?s = "s\<lparr>se_running := remove1 (kind, name) (se_running s)\<rparr>"
  have c: "called k (hookDone kind ?s) = called k s" by (rule called_cong) simp
  have len: "length (remove1 (kind, name) (se_running s)) = length (se_running s) - 1" "0 < length (se_running s)"
    using mem by (auto simp: length_remove1)
  have rk: "\<forall>(k', n) \<in> set (remove1 (kind, name) (se_running s)). k' = k"
    using run(2) set_remove1_subset [of "(kind, name)" "se_running s"] by blast
  have d: "distinct (called k s @ todo)" using st by (simp add: hooks_stage_def)
  show ?thesis
  proof (cases "todo = [] \<and> length (se_running s) = 1")
    case True
    then have "remove1 (kind, name) (se_running s) = []" using len(1) by (metis cancel_comm_monoid_add_class.diff_cancel length_0_conv)
    then show ?thesis
      using True run d c k by (simp add: hooks_stage_def hookDone_def nextTick_def Let_def)
  next
    case False
    then have "\<not> (length todo = 0 \<and> length (se_running s) = 1)" by simp
    then have many: "1 < length todo + length (se_running s)" using len(2) by linarith
    then have "1 < se_after s k" using run(3) by linarith
    then have n: "\<not> se_after s kind - 1 < 1" "length todo + length (remove1 (kind, name) (se_running s)) > 0"
      using k many len(1) by (simp, linarith)
    moreover have "int (length (remove1 (kind, name) (se_running s))) = int (length (se_running s)) - 1"
      using len by linarith
    ultimately have "se_ticks (hookDone kind ?s) = map (Run_hook k) todo"
      "se_after (hookDone kind ?s) k = int (length todo + length (remove1 (kind, name) (se_running s)))"
      using run k many by (simp_all add: hookDone_def Let_def)
    then show ?thesis using d c k rk n(2) by (simp add: hooks_stage_def)
  qed
qed

lemma hook_ok:
  assumes ok: "evict_ok s0 cb s" and mem: "(kind, name) \<in> set (se_running s)"
  shows "evict_ok s0 cb (hookDone kind (s\<lparr>se_running := remove1 (kind, name) (se_running s)\<rparr>))" (is "evict_ok s0 cb ?s'")
proof -
  have st: "evict_stage s0 s" using ok by (simp add: evict_ok_def)
  have c: "called k ?s' = called k s" "hook_names k ?s' = hook_names k s" for k
    by (rule called_cong, simp) (rule hook_names_cong, simp)
  from st have "evict_stage s0 ?s'"
  proof (cases rule: evict_stage_cases)
    case pre
    then show ?thesis using st hookDone_stage [OF _ mem] by (auto simp: evict_stage_def c)
  next
    case evicting
    then show ?thesis using st mem by (auto simp: evict_stage_def)
  next
    case post
    then show ?thesis using st hookDone_stage [OF _ mem] by (auto simp: evict_stage_def c)
  next
    case over
    then show ?thesis using st mem by (auto simp: evict_stage_def)
  qed
  then show ?thesis using ok by (simp add: evict_ok_def c succeeded_def)
qed

text \<open>A ping is over.\<close>

lemma afterPing_frame [simp]:
  "se_hooks (afterPing e s) = se_hooks s" "se_callback (afterPing e s) = se_callback s"
  "names (se_phases (afterPing e s)) = names (se_phases s)" "se_running (afterPing e s) = se_running s"
  "se_pinging (afterPing e s) = se_pinging s" "se_called (afterPing e s) = se_called s"
  "se_answers (afterPing e s) = se_answers s" "se_after (afterPing e s) = se_after s"
  by (simp_all add: afterPing_def nextTick_def Let_def names_update_evicting)

lemma ping_ok:
  assumes ok: "evict_ok s0 cb s" and mem: "target \<in> set (se_pinging s)"
  shows "evict_ok s0 cb (afterPing err (s\<lparr>se_pinging := remove1 target (se_pinging s)\<rparr>))" (is "evict_ok s0 cb ?s'")
proof -
  have st: "evict_stage s0 s" using ok by (simp add: evict_ok_def)
  have c: "called k ?s' = called k s" "hook_names k ?s' = hook_names k s" for k
    by (rule called_cong, simp) (rule hook_names_cong, simp)
  from st have "evict_stage s0 ?s'"
  proof (cases rule: evict_stage_cases)
    case evicting
    have e: "se_afterPing s = int (length (se_pinging s))" "se_ticks s = []" "se_running s = []"
      using st evicting mem by (auto simp: evict_stage_def)
    have len: "length (remove1 target (se_pinging s)) = length (se_pinging s) - 1" "0 < length (se_pinging s)"
      using mem by (auto simp: length_remove1)
    then have "se_pinging ?s' \<noteq> [] \<and> se_afterPing ?s' = int (length (se_pinging ?s')) \<and> se_ticks ?s' = [] \<or>
        se_pinging ?s' = [] \<and> se_ticks ?s' = [Post_evict]"
      using e by (auto simp: afterPing_def nextTick_def Let_def)
    then show ?thesis using st evicting e(3) by (simp add: evict_stage_def c)
  qed (use st mem in \<open>auto simp: evict_stage_def\<close>)
  then show ?thesis using ok by (simp add: evict_ok_def c succeeded_def)
qed

text \<open>A tick.\<close>

lemma hooksDone_frame [simp]:
  "se_hooks (hooksDone k s) = se_hooks s" "se_callback (hooksDone k s) = se_callback s"
  "se_phases (hooksDone k s) = se_phases s" "se_running (hooksDone k s) = se_running s"
  "se_pinging (hooksDone k s) = se_pinging s" "se_called (hooksDone k s) = se_called s"
  "se_answers (hooksDone k s) = se_answers s" "se_ticks (hooksDone k s) = se_ticks s @ [final_tick k]"
  by (cases k; simp add: nextTick_def)+

lemma final_tick_simps [simp]:
  "final_tick k \<noteq> Run_hook k' n" "final_tick k \<noteq> Hooks_done k'" "final_tick k \<noteq> Post_evict"
  "Run_hook k' n \<noteq> final_tick k" "Hooks_done k' \<noteq> final_tick k"
  by (cases k; simp)+

text \<open>Within a stage: the next hook is called, or all hooks are through.\<close>

lemma hooks_tick:
  assumes st: "hooks_stage k todo s" and t: "se_ticks s = t # ts" "t \<noteq> final_tick k"
    and s': "evict_tick ctx env app now s n = Inr (pings, s', n')"
  shows "\<exists>todo'. hooks_stage k todo' s' \<and> set (called k s' @ todo') = set (called k s @ todo) \<and>
    called k2 s' = (if k2 = k then called k s' else called k2 s) \<and> se_phases s' = se_phases s \<and>
    se_hooks s' = se_hooks s \<and> se_callback s' = se_callback s \<and> se_pinging s' = se_pinging s \<and>
    se_answers s' = se_answers s"
proof -
  consider (run) name todo' where "todo = name # todo'" "t = Run_hook k name" "ts = map (Run_hook k) todo'"
      "\<forall>(k', n) \<in> set (se_running s). k' = k" "se_after s k = int (length todo + length (se_running s))"
    | (all) "todo = []" "t = Hooks_done k" "ts = []" "se_running s = []"
    using st t by (cases todo) (auto simp: hooks_stage_def)
  then show ?thesis
  proof cases
    case run
    have eq: "s' = runHook k name (s\<lparr>se_ticks := ts\<rparr>)" using s' t run by (simp add: evict_tick_def)
    have "called k s' = called k s @ [name]" "k2 \<noteq> k \<Longrightarrow> called k2 s' = called k2 s"
      by (auto simp: eq runHook_def called_def)
    then show ?thesis using st run by (intro exI [of _ todo']) (auto simp: eq runHook_def hooks_stage_def)
  next
    case all
    have eq: "s' = hooksDone k (s\<lparr>se_ticks := ts\<rparr>)" using s' t all by (simp add: evict_tick_def)
    have "called k2 s' = called k2 s" for k2 unfolding eq by (rule called_cong) simp
    then show ?thesis using st all by (intro exI [of _ "[]"]) (auto simp: eq hooks_stage_def)
  qed
qed

lemma hooks_final:
  assumes "hooks_stage k todo s" and "se_ticks s = final_tick k # ts"
  shows "ts = [] \<and> todo = [] \<and> se_running s = [] \<and> distinct (called k s)"
  using assms by (cases todo) (auto simp: hooks_stage_def)

lemma evict_self_shape:
  assumes "evict_self ctx env app now s n = Inr (pings, s', n')" and "se_ticks s = []" and "se_pinging s = []"
  shows "names (se_phases s') = names (se_phases s) @ [Evicting] \<and> se_hooks s' = se_hooks s \<and>
    se_callback s' = se_callback s \<and> se_running s' = se_running s \<and> se_called s' = se_called s \<and>
    se_answers s' = se_answers s \<and>
    (se_pinging s' \<noteq> [] \<and> se_afterPing s' = int (length (se_pinging s')) \<and> se_ticks s' = [] \<or>
     se_pinging s' = [] \<and> se_ticks s' = [Post_evict])"
  using assms
  by (auto simp: evict_self_def nextTick_def Let_def names_update_evicting split: sum.splits if_splits prod.splits)

lemma tick_ok:
  assumes ok: "evict_ok s0 cb s" and ne: "se_ticks s \<noteq> []"
    and s': "evict_tick ctx env app now s n = Inr (pings, s', n')"
  shows "evict_ok s0 cb s'"
proof -
  obtain t ts where t: "se_ticks s = t # ts" using ne by (cases "se_ticks s") auto
  have st: "evict_stage s0 s" and rest: "se_callback s = Some cb" "distinct (dkeys (se_hooks s))"
    "\<And>k. set (hook_names k s0) \<subseteq> set (hook_names k s)"
    "succeeded s = (if Done \<in> set (names (se_phases s)) then [cb] else [])"
    using ok by (auto simp: evict_ok_def)
  from st show ?thesis
  proof (cases rule: evict_stage_cases)
    case pre
    then obtain todo where todo: "hooks_stage Pre todo s" "set (called Pre s @ todo) = set (hook_names Pre s0)"
      "called Post s = []" "se_pinging s = []"
      using st by (auto simp: evict_stage_def)
    show ?thesis
    proof (cases "t = final_tick Pre")
      case True
      have f: "ts = []" "todo = []" "se_running s = []" "distinct (called Pre s)"
        using hooks_final [OF todo(1)] t True by auto
      have "evict_self ctx env app now (s\<lparr>se_ticks := []\<rparr>) n = Inr (pings, s', n')"
        using s' t True f(1) by (simp add: evict_tick_def)
      from evict_self_shape [OF this] have sh: "names (se_phases s') = [PreEvict, Evicting]"
        "se_hooks s' = se_hooks s" "se_callback s' = se_callback s" "se_running s' = []" "se_called s' = se_called s"
        "se_answers s' = se_answers s"
        "se_pinging s' \<noteq> [] \<and> se_afterPing s' = int (length (se_pinging s')) \<and> se_ticks s' = [] \<or>
         se_pinging s' = [] \<and> se_ticks s' = [Post_evict]"
        using todo(4) pre f(3) by simp_all
      have "called k s' = called k s" "hook_names k s' = hook_names k s" for k
        using sh by (auto intro: called_cong hook_names_cong)
      then show ?thesis using sh todo f rest pre by (simp add: evict_ok_def evict_stage_def succeeded_def)
    next
      case False
      obtain todo' where h: "hooks_stage Pre todo' s'" "set (called Pre s' @ todo') = set (called Pre s @ todo)"
        "called Post s' = called Post s" "se_phases s' = se_phases s" "se_hooks s' = se_hooks s"
        "se_callback s' = se_callback s" "se_pinging s' = se_pinging s" "se_answers s' = se_answers s"
        using hooks_tick [OF todo(1) t False s', of Post] by auto
      have "hook_names k s' = hook_names k s" for k using h(5) by (rule hook_names_cong)
      then show ?thesis using h todo rest pre by (auto simp: evict_ok_def evict_stage_def succeeded_def)
    qed
  next
    case evicting
    then have e: "distinct (called Pre s)" "set (called Pre s) = set (hook_names Pre s0)" "called Post s = []"
      "se_running s = []" "se_pinging s = []" "t = Post_evict" "ts = []"
      using st t by (auto simp: evict_stage_def)
    let ?s = "transitionTo now PostEvict (s\<lparr>se_ticks := []\<rparr>)"
    have eq: "s' = runHooks Post ?s" using s' t e(6,7) by (simp add: evict_tick_def postEvict_def)
    have c: "called k ?s = called k s" "called k s' = called k s" for k unfolding eq by (rule called_cong, simp)+
    have h: "hook_names k ?s = hook_names k s" "hook_names k s' = hook_names k s" for k
      unfolding eq by (rule hook_names_cong, simp)+
    have "hooks_stage Post (hook_names Post ?s) s'"
      unfolding eq by (rule runHooks_stage) (use e c rest in simp_all)
    then have "\<exists>todo. hooks_stage Post todo s' \<and> set (hook_names Post s0) \<subseteq> set todo"
      unfolding h using rest(3) by blast
    then show ?thesis using e c h rest evicting
      by (simp add: evict_ok_def evict_stage_def succeeded_def eq)
  next
    case post
    then obtain todo where todo: "hooks_stage Post todo s" "set (hook_names Post s0) \<subseteq> set (called Post s @ todo)"
      "distinct (called Pre s)" "set (called Pre s) = set (hook_names Pre s0)" "se_pinging s = []"
      using st by (auto simp: evict_stage_def)
    show ?thesis
    proof (cases "t = final_tick Post")
      case True
      have f: "ts = []" "todo = []" "se_running s = []" "distinct (called Post s)"
        using hooks_final [OF todo(1)] t True by auto
      have eq: "s' = evict_done now (s\<lparr>se_ticks := []\<rparr>)" using s' t True f(1) by (simp add: evict_tick_def)
      have sh: "names (se_phases s') = [PreEvict, Evicting, PostEvict, Done]" "se_hooks s' = se_hooks s"
        "se_callback s' = se_callback s" "se_running s' = []" "se_called s' = se_called s" "se_ticks s' = []"
        "se_pinging s' = []" "se_answers s' = se_answers s @ [(cb, None)]"
        using rest(1) f post todo(5) unfolding eq by (simp_all add: evict_done_def Let_def)
      have "called k s' = called k s" "hook_names k s' = hook_names k s" for k
        using sh by (auto intro: called_cong hook_names_cong)
      then show ?thesis using sh todo f rest post by (simp add: evict_ok_def evict_stage_def succeeded_def)
    next
      case False
      obtain todo' where h: "hooks_stage Post todo' s'" "set (called Post s' @ todo') = set (called Post s @ todo)"
        "called Pre s' = called Pre s" "se_phases s' = se_phases s" "se_hooks s' = se_hooks s"
        "se_callback s' = se_callback s" "se_pinging s' = se_pinging s" "se_answers s' = se_answers s"
        using hooks_tick [OF todo(1) t False s', of Pre] by auto
      have "hook_names k s' = hook_names k s" for k using h(5) by (rule hook_names_cong)
      moreover have "set (hook_names Post s0) \<subseteq> set (called Post s' @ todo')" using todo(2) h(2) by simp
      ultimately show ?thesis using h todo(3-5) rest post by (auto simp: evict_ok_def evict_stage_def succeeded_def)
    qed
  next
    case over
    then show ?thesis using st ne by (auto simp: evict_stage_def)
  qed
qed

lemma evict_run_ok: "evict_run ctx s0 cb now s \<Longrightarrow> evict_ok s0 cb s"
proof (induction rule: evict_run.induct)
  case (step now s now' s')
  from step.hyps(3) step.IH show ?case
    by (cases rule: evict_step.cases) (auto intro: tick_ok hook_ok ping_ok)
qed (auto intro: initiate_start again_ok register_ok)

section \<open>Time stamps\<close>

fun timed :: "evict_phase list \<Rightarrow> bool" where
  "timed [] = True"
| "timed [p] = (ph_duration p = None)"
| "timed (p # q # ps) \<longleftrightarrow> ph_duration p = Some (ph_ts q - ph_ts p) \<and> ph_ts p \<le> ph_ts q \<and> timed (q # ps)"

lemma timed_snoc:
  "timed (ps @ [p]) \<Longrightarrow> ph_ts p \<le> ph_ts q \<Longrightarrow> ph_duration q = None \<Longrightarrow>
    timed (ps @ [p\<lparr>ph_duration := Some (ph_ts q - ph_ts p)\<rparr>, q])"
proof (induction ps rule: induct_list012)
  case (3 a b ps)
  then show ?case by simp
qed auto

lemma timed_map:
  assumes "\<And>p. ph_ts (f p) = ph_ts p" "\<And>p. ph_duration (f p) = ph_duration p"
  shows "timed (map f ps) = timed ps"
  by (induction ps rule: timed.induct) (simp_all add: assms)

definition timed_ok :: "int \<Rightarrow> self_evict \<Rightarrow> bool" where
  "timed_ok now s \<longleftrightarrow> timed (se_phases s) \<and> (\<forall>p \<in> set (se_phases s). ph_ts p \<le> now)"

lemma timed_later: "timed_ok now s \<Longrightarrow> now \<le> now' \<Longrightarrow> timed_ok now' s"
  by (fastforce simp: timed_ok_def)

lemma timed_cong: "se_phases s' = se_phases s \<Longrightarrow> timed_ok now s \<Longrightarrow> timed_ok now s'"
  by (simp add: timed_ok_def)

lemma timed_ok_frame [simp]:
  "timed_ok now (runHooks k s) = timed_ok now s" "timed_ok now (hooksDone k s) = timed_ok now s"
  "timed_ok now (hookDone k s) = timed_ok now s" "timed_ok now (runHook k name s) = timed_ok now s"
  "timed_ok now (s\<lparr>se_answers := as\<rparr>) = timed_ok now s" "timed_ok now (s\<lparr>se_ticks := ts\<rparr>) = timed_ok now s"
  "timed_ok now (s\<lparr>se_callback := cb\<rparr>) = timed_ok now s" "timed_ok now (s\<lparr>se_running := rs\<rparr>) = timed_ok now s"
  "timed_ok now (s\<lparr>se_called := cs\<rparr>) = timed_ok now s"
  by (simp_all add: timed_ok_def runHook_def)

lemma timed_transition:
  assumes "timed_ok now s"
  shows "timed_ok now (transitionTo now p s)"
proof (cases "se_phases s" rule: rev_cases)
  case Nil
  then show ?thesis by (simp add: timed_ok_def transitionTo_def)
next
  case (snoc ps l)
  let ?p = "\<lparr>ph_phase = p, ph_ts = now, ph_duration = None, ph_numberOfPings = None,
    ph_numberOfSuccessfulPings = None\<rparr>"
  have "timed (ps @ [l])" "ph_ts l \<le> ph_ts ?p" using assms snoc by (simp_all add: timed_ok_def)
  from timed_snoc [OF this] show ?thesis
    using assms snoc by (auto simp: timed_ok_def transitionTo_def)
qed

lemma timed_update:
  assumes "\<And>p. ph_ts (f p) = ph_ts p" "\<And>p. ph_duration (f p) = ph_duration p"
  shows "timed_ok now (update_evicting f s) = timed_ok now s"
proof -
  have "timed (map (\<lambda>p. if ph_phase p = Evicting then f p else p) (se_phases s)) = timed (se_phases s)"
    by (rule timed_map) (simp_all add: assms)
  moreover have "ph_ts (if ph_phase p = Evicting then f p else p) = ph_ts p" for p by (simp add: assms)
  ultimately show ?thesis by (simp add: timed_ok_def update_evicting_def del: if_image_distrib)
qed

lemma timed_tick:
  assumes "timed_ok now s" and s': "evict_tick ctx env app now s n = Inr (pings, s', n')"
  shows "timed_ok now s'"
proof (cases "se_ticks s")
  case Nil
  then show ?thesis using assms by (simp add: evict_tick_def)
next
  case (Cons t ts)
  let ?s = "s\<lparr>se_ticks := ts\<rparr>"
  have ok: "timed_ok now ?s" using assms(1) by (simp add: timed_ok_def)
  note tr = timed_transition [OF ok]
  show ?thesis
  proof (cases t)
    case Evict
    have "\<exists>k. se_phases s' = se_phases (update_evicting (\<lambda>p. p\<lparr>ph_numberOfPings := Some k,
        ph_numberOfSuccessfulPings := Some 0\<rparr>) (transitionTo now Evicting ?s))"
      using s' Cons Evict
      by (auto simp: evict_tick_def evict_self_def nextTick_def Let_def split: sum.splits if_splits prod.splits)
    moreover have "timed_ok now (update_evicting (\<lambda>p. p\<lparr>ph_numberOfPings := Some k,
        ph_numberOfSuccessfulPings := Some 0\<rparr>) (transitionTo now Evicting ?s))" for k
      using tr by (simp add: timed_update)
    ultimately show ?thesis using timed_cong by blast
  qed (use s' Cons ok tr in \<open>auto simp: evict_tick_def runHook_def postEvict_def evict_done_def Let_def split: option.splits\<close>)
qed

lemma evict_run_timed: "evict_run ctx s0 cb now s \<Longrightarrow> timed_ok now s"
proof (induction rule: evict_run.induct)
  case (start now)
  have "timed_ok now s0" using start by (simp add: timed_ok_def fresh_def)
  then have "timed_ok now (transitionTo now PreEvict (s0\<lparr>se_callback := Some cb\<rparr>))"
    by (intro timed_transition) simp
  then show ?case using start by (simp add: initiate_def currentPhase_def fresh_def)
next
  case (again now s cb')
  have "se_phases s \<noteq> []" using evict_run_ok [OF again.hyps] stage_phases by (auto simp: evict_ok_def)
  then show ?case using again.IH by (simp add: initiate_def currentPhase_def timed_ok_def)
next
  case (register now s h s')
  then show ?case by (auto simp: registerHooks_def timed_ok_def split: option.splits if_splits)
next
  case (step now s now' s')
  have ok: "timed_ok now' s" using timed_later step.IH step.hyps(2) by blast
  from step.hyps(3) show ?case
  proof (cases rule: evict_step.cases)
    case (tick n env app pings n')
    then show ?thesis using timed_tick ok by blast
  next
    case (hook kind name)
    then show ?thesis using ok by (simp add: timed_ok_def)
  next
    case (ping target err)
    then show ?thesis using ok
      by (auto simp: afterPing_def nextTick_def Let_def timed_update [unfolded timed_ok_def] timed_ok_def)
  qed
qed

section \<open>Properties\<close>

text \<open>
  C22: the phases of a self eviction come in their order, with their durations; the preEvict hooks are all
  called, each once, before the node declares itself faulty, and the postEvict hooks after it, all of them
  before the eviction is over.
\<close>

theorem self_evict_in_order:
  assumes "evict_run ctx s0 cb now s"
  shows "(\<exists>rest. names (se_phases s) @ rest = [PreEvict, Evicting, PostEvict, Done]) \<and> timed (se_phases s) \<and>
    distinct (called Pre s) \<and> distinct (called Post s) \<and>
    set (called Pre s) \<subseteq> set (hook_names Pre s0) \<and>
    (1 < length (se_phases s) \<longrightarrow> set (called Pre s) = set (hook_names Pre s0)) \<and>
    (length (se_phases s) < 3 \<longrightarrow> called Post s = []) \<and>
    (length (se_phases s) = 4 \<longrightarrow> set (hook_names Post s0) \<subseteq> set (called Post s))"
proof -
  have st: "evict_stage s0 s" and t: "timed (se_phases s)"
    using evict_run_ok [OF assms] evict_run_timed [OF assms] by (simp_all add: evict_ok_def timed_ok_def)
  have len: "length (se_phases s) = length (names (se_phases s))" by simp
  from st show ?thesis
    by (cases rule: evict_stage_cases) (use st t in \<open>auto simp: evict_stage_def hooks_stage_def simp: len
      simp del: length_map\<close>)
qed

text \<open>
  C23: a self eviction calls back exactly once, when it is over, and until then there is a tick to run, a
  hook that has not called back or a ping under way; whoever initiates it again is told that it is on.
\<close>

theorem self_evict_answers_once:
  assumes "evict_run ctx s0 cb now s"
  shows "succeeded s = (if Done \<in> set (names (se_phases s)) then [cb] else []) \<and>
    (Done \<in> set (names (se_phases s)) \<longleftrightarrow> se_ticks s = [] \<and> se_running s = [] \<and> se_pinging s = []) \<and>
    (\<exists>phase. initiate now cb' s = s\<lparr>se_answers := se_answers s @ [(cb', Some (RingpopIsAlreadyShuttingDown phase))]\<rparr>)"
proof -
  have ok: "evict_ok s0 cb s" by (rule evict_run_ok [OF assms])
  then have st: "evict_stage s0 s" by (simp add: evict_ok_def)
  then have "se_phases s \<noteq> []" by (rule stage_phases)
  then have "\<exists>phase. initiate now cb' s = s\<lparr>se_answers := se_answers s @ [(cb', Some (RingpopIsAlreadyShuttingDown phase))]\<rparr>"
    by (intro exI [of _ "last (se_phases s)"]) (simp add: initiate_def currentPhase_def)
  moreover from st have "Done \<in> set (names (se_phases s)) \<longleftrightarrow> se_ticks s = [] \<and> se_running s = [] \<and> se_pinging s = []"
    by (cases rule: evict_stage_cases) (use st in \<open>auto simp: evict_stage_def hooks_stage_def simp del: set_map\<close>)
  ultimately show ?thesis using ok by (simp add: evict_ok_def)
qed

section \<open>Termination\<close>

fun weight :: "evict_tick \<Rightarrow> nat" where
  "weight (Run_hook k n) = 4"
| "weight (Hooks_done k) = 2"
| "weight _ = 1"

definition work_left :: "self_evict \<Rightarrow> nat \<times> nat" where
  "work_left s = (4 - length (se_phases s),
     sum_list (map weight (se_ticks s)) + 3 * length (se_running s) + 2 * length (se_pinging s))"

lemma weight_final [simp]: "weight (final_tick k) = 1"
  by (cases k) simp_all

lemma ok_length:
  assumes "evict_ok s0 cb s"
  shows "length (se_phases s) \<le> 4"
proof -
  have "evict_stage s0 s" using assms by (simp add: evict_ok_def)
  then have "length (names (se_phases s)) \<le> 4" by (cases rule: evict_stage_cases) auto
  then show ?thesis by simp
qed

lemma length_transition [simp]: "length (se_phases (transitionTo now p s)) = Suc (length (se_phases s))"
  by (metis length_append_singleton length_map names_transition)

lemma evict_step_work:
  assumes st: "evict_step ctx now s s'" and ok: "evict_ok s0 cb s"
  shows "evict_ok s0 cb s' \<and> (work_left s', work_left s) \<in> less_than <*lex*> less_than"
  using st
proof (cases rule: evict_step.cases)
  case (tick n env app pings n')
  have ok': "evict_ok s0 cb s'" by (rule tick_ok [OF ok tick(2,3)])
  obtain t ts where t: "se_ticks s = t # ts" using tick(2) by (cases "se_ticks s") auto
  have grown: "(work_left s', work_left s) \<in> less_than <*lex*> less_than"
    if "length (se_phases s') = Suc (length (se_phases s))"
    using that ok_length [OF ok'] by (auto simp: work_left_def)
  have "(work_left s', work_left s) \<in> less_than <*lex*> less_than"
  proof (cases t)
    case (Run_hook k name)
    then show ?thesis using tick(3) t by (auto simp: evict_tick_def runHook_def work_left_def)
  next
    case (Hooks_done k)
    then show ?thesis using tick(3) t by (auto simp: evict_tick_def work_left_def)
  next
    case Evict
    then have "length (se_phases s') = Suc (length (se_phases s))" using tick(3) t
      by (auto simp: evict_tick_def evict_self_def nextTick_def update_evicting_def Let_def
          split: sum.splits if_splits prod.splits)
    then show ?thesis by (rule grown)
  next
    case Post_evict
    then show ?thesis using tick(3) t by (intro grown) (auto simp: evict_tick_def postEvict_def)
  next
    case Finish
    then show ?thesis using tick(3) t by (intro grown) (auto simp: evict_tick_def evict_done_def Let_def split: option.splits)
  qed
  then show ?thesis using ok' by simp
next
  case (hook kind name)
  then obtain m where "length (se_running s) = Suc m" by (cases "se_running s") auto
  then have "(work_left s', work_left s) \<in> less_than <*lex*> less_than"
    using hook by (auto simp: work_left_def hookDone_def nextTick_def Let_def length_remove1)
  then show ?thesis using hook hook_ok [OF ok] by simp
next
  case (ping target err)
  then obtain m where "length (se_pinging s) = Suc m" by (cases "se_pinging s") auto
  then have "(work_left s', work_left s) \<in> less_than <*lex*> less_than"
    using ping by (auto simp: work_left_def afterPing_def update_evicting_def nextTick_def Let_def length_remove1)
  then show ?thesis using ping ping_ok [OF ok] by simp
qed

text \<open>
  a self eviction that is not interfered with ends: from no state of a run can ticks, hooks and pings go
  on for ever.
\<close>

theorem self_evict_terminates:
  "wf {(s', s). (\<exists>now. evict_run ctx s0 cb now s) \<and> (\<exists>now. evict_step ctx now s s')}"
proof (rule wf_subset)
  show "wf (inv_image (less_than <*lex*> less_than) work_left)" by (intro wf_inv_image wf_lex_prod wf_less_than)
  show "{(s', s). (\<exists>now. evict_run ctx s0 cb now s) \<and> (\<exists>now. evict_step ctx now s s')} \<subseteq>
      inv_image (less_than <*lex*> less_than) work_left"
    using evict_step_work evict_run_ok by (fastforce simp del: in_lex_prod)
qed

section \<open>The eviction\<close>

lemma issue_loop_max: "ds_maxPiggybackCount (snd (issue_loop f as ds)) = ds_maxPiggybackCount ds"
  by (induction f as ds rule: issue_loop.induct)
    (auto simp: Let_def ds_emit_def split: option.splits prod.splits)

lemma sendPings_ok:
  "sendPings ctx app targets n = (pings, n') \<Longrightarrow> map fst pings = targets \<and>
    n_membership n' = n_membership n \<and> n_ring n' = n_ring n \<and>
    ds_maxPiggybackCount (n_dissemination n') = ds_maxPiggybackCount (n_dissemination n)"
proof (induction targets arbitrary: n pings)
  case (Cons t ts)
  let ?ds = "snd (ping_request ctx app (n_membership n) (n_dissemination n))"
  obtain ps where ps: "sendPings ctx app ts (n\<lparr>n_dissemination := ?ds\<rparr>) = (ps, n')" "map fst pings = t # map fst ps"
    using Cons.prems by (auto simp: Let_def split: prod.splits)
  have "ds_maxPiggybackCount ?ds = ds_maxPiggybackCount (n_dissemination n)"
    using issue_loop_max [of "\<lambda>_. False" "dkeys (ds_changes (n_dissemination n))" "n_dissemination n"]
    by (auto simp: ping_request_def issueAsSender_def issueAs_def Let_def split: prod.splits)
  then show ?case using Cons.IH [OF ps(1)] ps(2) by simp
qed simp

lemma slice0_set: "set (slice0 k xs) \<subseteq> set xs"
  by (auto simp: slice0_def dest: in_set_takeD)

lemma slice0_length: "0 \<le> k \<Longrightarrow> length (slice0 k xs) = min (nat k) (length xs)"
  by (simp add: slice0_def)

text \<open>Whom a node pings when it evicts itself.\<close>

lemma membersToPing_ok:
  assumes inv: "n_inv ctx n"
  shows "set (getMembersToPing ctx n) \<subseteq> ring_servers (n_ring n) - {x_whoami ctx} \<and>
    (0 \<le> ds_maxPiggybackCount (n_dissemination n) \<and> 0 \<le> c_selfEvictionMaxPingRatio (x_config ctx) \<longrightarrow>
       int (length (getMembersToPing ctx n)) \<le> ds_maxPiggybackCount (n_dissemination n) \<and>
       int (length (getMembersToPing ctx n)) \<le>
         \<lceil>real (card (ring_servers (n_ring n))) * c_selfEvictionMaxPingRatio (x_config ctx)\<rceil>)"
proof -
  let ?ms = "n_membership n" and ?ratio = "c_selfEvictionMaxPingRatio (x_config ctx)"
  let ?ps = "filter (\<lambda>r. isPingable ctx (deref ?ms r)) (ms_members ?ms)"
  let ?max = "ds_maxPiggybackCount (n_dissemination n)" and ?share = "\<lceil>real (length ?ps) * ?ratio\<rceil>"
  let ?k = "min (min ?max ?share) (int (length ?ps))"
  have wf: "ms_wf ?ms" and servers: "ring_servers (n_ring n) = live (view ?ms)"
    using inv by (simp_all add: n_inv_def ms_ok_def)
  have eq: "getMembersToPing ctx n = map (\<lambda>r. m_address (deref ?ms r)) (slice0 ?k ?ps)"
    by (simp add: getMembersToPing_def Let_def)
  have up: "m_address (deref ?ms r) \<in> ring_servers (n_ring n) - {x_whoami ctx}" if "r \<in> set ?ps" for r
    using that wf_member [OF wf, of r] unfolding servers by (auto simp: isPingable_def live_def)
  have "distinct (map (\<lambda>r. m_address (deref ?ms r)) ?ps)"
    using wf_distinct_addresses [OF wf] by (rule distinct_map_filter)
  then have "length ?ps = card ((\<lambda>r. m_address (deref ?ms r)) ` set ?ps)"
    by (metis distinct_card length_map set_map)
  also have "\<dots> \<le> card (ring_servers (n_ring n))" by (rule card_mono) (use up in blast)+
  finally have len: "length ?ps \<le> card (ring_servers (n_ring n))" .
  have "int (length (getMembersToPing ctx n)) \<le> ?max \<and>
      int (length (getMembersToPing ctx n)) \<le> \<lceil>real (card (ring_servers (n_ring n))) * ?ratio\<rceil>"
    if pos: "0 \<le> ?max" "0 \<le> ?ratio"
  proof -
    have "0 \<le> real (length ?ps) * ?ratio" using pos(2) by simp
    then have "0 \<le> ?share" by linarith
    moreover have "?share \<le> \<lceil>real (card (ring_servers (n_ring n))) * ?ratio\<rceil>"
      using pos(2) len by (intro ceiling_mono mult_right_mono) simp_all
    ultimately have share: "0 \<le> ?share" "?share \<le> \<lceil>real (card (ring_servers (n_ring n))) * ?ratio\<rceil>" .
    then have "0 \<le> ?k" using pos(1) by simp
    then have "int (length (getMembersToPing ctx n)) = min ?k (int (length ?ps))"
      unfolding eq by (simp add: slice0_length of_nat_min)
    then show ?thesis using share by linarith
  qed
  then show ?thesis using up slice0_set [of ?k ?ps] unfolding eq by auto
qed

text \<open>
  evicting itself a node declares itself faulty at a new incarnation number, leaves its own ring and
  keeps every other server in it; it pings, when pings are enabled, only members it takes for up, at most
  as many as changes are piggybacked and as the configured share of them.
\<close>

theorem evict_self_correct:
  assumes inv: "n_inv ctx n"
  shows "\<exists>pings s' n'. evict_self ctx env app now s n = Inr (pings, s', n') \<and>
    view (n_membership n') = (view (n_membership n))(x_whoami ctx \<mapsto> (e_now env 1, Faulty)) \<and>
    ring_servers (n_ring n') = ring_servers (n_ring n) - {x_whoami ctx} \<and>
    set (map fst pings) \<subseteq> ring_servers (n_ring n') \<and>
    (0 \<le> ds_maxPiggybackCount (n_dissemination n') \<and> 0 \<le> c_selfEvictionMaxPingRatio (x_config ctx) \<longrightarrow>
       int (length pings) \<le> ds_maxPiggybackCount (n_dissemination n') \<and>
       int (length pings) \<le> \<lceil>real (card (ring_servers (n_ring n'))) * c_selfEvictionMaxPingRatio (x_config ctx)\<rceil>) \<and>
    (\<not> c_selfEvictionPingEnabled (x_config ctx) \<longrightarrow> pings = [])"
proof -
  have ok: "ms_ok ctx (quiet n)" "ring_ok (x_hashFunc ctx) (n_ring n)"
    using inv by (simp_all add: n_inv_def parts_ok_def)
  obtain n1 where n1: "n_setLocalStatus ctx env Faulty n = Inr n1" "n_inv ctx n1"
    using n_setLocalStatus_ok [OF inv, of Faulty env] by auto
  have "n_membership n1 = (setLocalStatus ctx env Faulty (quiet n))\<lparr>ms_events := []\<rparr>"
    using settle_frame n1(1) ok(2) unfolding n_setLocalStatus_def by blast
  then have v: "view (n_membership n1) = (view (n_membership n))(x_whoami ctx \<mapsto> (e_now env 1, Faulty))"
    using setLocalStatus_ok [OF ok(1), of env Faulty] by simp
  have servers: "ring_servers (n_ring n1) = ring_servers (n_ring n) - {x_whoami ctx}"
    using inv n1(2) v by (auto simp: n_inv_def live_def split: if_splits)
  note p = membersToPing_ok [OF n1(2)]
  show ?thesis
  proof (cases "c_selfEvictionPingEnabled (x_config ctx) \<and> length (getMembersToPing ctx n1) > 0")
    case True
    obtain pings n2 where s: "sendPings ctx app (getMembersToPing ctx n1) n1 = (pings, n2)" by fastforce
    have f: "map fst pings = getMembersToPing ctx n1" "n_membership n2 = n_membership n1" "n_ring n2 = n_ring n1"
      "ds_maxPiggybackCount (n_dissemination n2) = ds_maxPiggybackCount (n_dissemination n1)"
      using sendPings_ok [OF s] by simp_all
    have "length pings = length (getMembersToPing ctx n1)" using f(1) by (metis length_map)
    moreover have "set (map fst pings) \<subseteq> ring_servers (n_ring n1)" using f(1) p by auto
    moreover have "\<exists>s'. evict_self ctx env app now s n = Inr (pings, s', n2)"
      using True n1(1) s by (simp add: evict_self_def Let_def)
    ultimately show ?thesis using True f p v servers by metis
  next
    case False
    then obtain s' where e: "evict_self ctx env app now s n = Inr ([], s', n1)"
      using n1(1) by (auto simp: evict_self_def Let_def)
    have "0 \<le> \<lceil>real (card (ring_servers (n_ring n1))) * c_selfEvictionMaxPingRatio (x_config ctx)\<rceil>"
      if "0 \<le> c_selfEvictionMaxPingRatio (x_config ctx)"
    proof -
      have "0 \<le> real (card (ring_servers (n_ring n1))) * c_selfEvictionMaxPingRatio (x_config ctx)"
        using that by simp
      then show ?thesis by linarith
    qed
    then show ?thesis
      by (intro exI [of _ "[]"] exI [of _ s'] exI [of _ n1]) (simp add: e v servers)
  qed
qed

section \<open>A self eviction at work\<close>

definition demo_hook :: "string \<Rightarrow> hook_field \<Rightarrow> hook_field \<Rightarrow> hooks" where
  "demo_hook name pre post = \<lparr>hk_name = name, hk_preEvict = pre, hk_postEvict = post\<rparr>"

definition demo_evicter :: self_evict where
  "demo_evicter = (case registerHooks (Some (demo_hook ''drain'' Function Missing)) new_self_evict of
     Inr s \<Rightarrow> s | Inl e \<Rightarrow> new_self_evict)"

definition demo_evicting :: self_evict where
  "demo_evicting = runHook Pre ''drain'' (initiate 100 1 demo_evicter\<lparr>se_ticks := []\<rparr>)"

lemma demo_evicter_facts: "fresh demo_evicter" "hook_names Pre demo_evicter = [''drain'']"
  "se_ticks (initiate 100 1 demo_evicter) = [Run_hook Pre ''drain'']"
  "called Pre demo_evicting = [''drain'']" "length (se_phases demo_evicting) = 1"
  "names (se_phases demo_evicting) = [PreEvict]"
  unfolding fresh_def by code_simp+

lemma demo_evict_run:
  "evict_run (ready demo_ctx False) demo_evicter 1 100 demo_evicting"
proof -
  let ?s = "initiate 100 1 demo_evicter"
  have run: "evict_run (ready demo_ctx False) demo_evicter 1 100 ?s"
    by (rule evict_run.start [OF demo_evicter_facts(1)])
  have tick: "evict_tick (ready demo_ctx False) demo_env ''app'' 100 ?s demo_start = Inr ([], demo_evicting, demo_start)"
    using demo_evicter_facts(3) by (simp add: evict_tick_def demo_evicting_def)
  have "se_ticks ?s \<noteq> []" using demo_evicter_facts(3) by simp
  then have "evict_step (ready demo_ctx False) 100 ?s demo_evicting"
    by (rule evict_step.tick [OF n_inv_start _ tick])
  then show ?thesis using evict_run.step [OF run order_refl] by blast
qed

theorem self_evict_in_order_witness:
  "\<exists>rest. names (se_phases demo_evicting) @ rest = [PreEvict, Evicting, PostEvict, Done]"
  using self_evict_in_order [OF demo_evict_run] by blast

theorem self_evict_answers_once_witness:
  "succeeded demo_evicting = [] \<and> \<not> (se_ticks demo_evicting = [] \<and> se_running demo_evicting = [] \<and>
    se_pinging demo_evicting = [])"
  using self_evict_answers_once [OF demo_evict_run] demo_evicter_facts(6) by simp

theorem evict_self_correct_witness:
  "\<exists>pings s' n'. evict_self (ready demo_ctx False) demo_env ''app'' 100 demo_evicting demo_start = Inr (pings, s', n') \<and>
    view (n_membership n') ''a:1'' = Some (1001, Faulty)"
proof -
  have "n_inv (ready demo_ctx False) demo_start" by (rule n_inv_start)
  from evict_self_correct [OF this, of demo_env "''app''" 100 demo_evicting] show ?thesis
    by (auto simp: demo_env_def)
qed

text \<open>A hook that calls back twice makes everything after the hooks happen twice.\<close>

lemma hook_calls_twice:
  "se_ticks (hookDone Pre (hookDone Pre demo_evicting)) = [Hooks_done Pre, Hooks_done Pre]"
  by code_simp

end
