(* ===== verification/Proxy.thy ===== *)
theory Proxy
  imports Server Node Complex_Main
begin

text \<open>
  The request proxy of ringpop (\<open>lib/request-proxy/index.js\<close>, \<open>send.js\<close>, \<open>util.js\<close>) and the
  endpoint at the other end (\<open>server/proxy-req.js\<close>): HTTP requests forwarded to the owner of
  their keys, with retries, and requests of other nodes executed here.

  The proxy is a state: the inflight counter, the sender objects by number, and \<^theory_text>\<open>work\<close>, the
  callbacks that wait for the body parser, the channel, a timeout, the next tick or the
  application. What a callback does is one operation; which one comes next, and what it is given,
  is the environment's choice. A reply's head travels as JSON text: it is represented by the
  value it parses to, \<^theory_text>\<open>None\<close> when it does not parse.
\<close>

section \<open>Requests, replies and errors\<close>

record http_request =
  q_url :: string
  q_headers :: "string dict"
  q_method :: string
  q_httpVersion :: string

text \<open>\<open>rawHead\<close>: what goes with a forwarded request.\<close>

record head =
  h_request :: http_request
  h_ringpopChecksum :: "int option"
  h_ringpopKeys :: "string list option"

definition rawHead :: "http_request \<Rightarrow> int option \<Rightarrow> string list \<Rightarrow> head" where
  "rawHead req checksum keys =
     \<lparr>h_request = req, h_ringpopChecksum = checksum, h_ringpopKeys = Some keys\<rparr>"

text \<open>
  The typed errors of the proxy; \<^theory_text>\<open>Foreign\<close> is an error of the parser, the channel or the
  application, with its message and \<open>statusCode\<close>.
\<close>

datatype direction = Egress | Ingress

datatype metric = Inflight_metric | Eventloop_metric

datatype proxy_error =
    InvalidCheckSumError "int option" "int option"
  | InvalidKeyError string string
  | TooManyRequestsError direction int metric
  | ChannelDestroyedError
  | MaxRetriesExceeded int
  | RetryDivergenceError "string list" string "string list"
  | NeedHeaderError
  | Foreign string "int option"

fun statusCode :: "proxy_error \<Rightarrow> int option" where
  "statusCode (TooManyRequestsError d m k) = Some 429"
| "statusCode (Foreign msg c) = c"
| "statusCode e = None"

text \<open>A body is a text, or the JSON of an error.\<close>

datatype body_text = Text string | Error_json proxy_error

record reply_head =
  rh_statusCode :: "int option"
  rh_headers :: "string dict option"

type_synonym reply = "reply_head option \<times> body_text"

type_synonym px_result = "proxy_error + reply"

text \<open>What \<open>res\<close> was ended with: its status, headers, and the body or the error's message.\<close>

record px_response =
  pr_statusCode :: int
  pr_headers :: "string dict"
  pr_body :: "proxy_error + body_text"

definition error_response :: "proxy_error \<Rightarrow> px_response" where
  "error_response err =
     \<lparr>pr_statusCode = (case statusCode err of None \<Rightarrow> 500 | Some c \<Rightarrow> if c = 0 then 500 else c),
      pr_headers = [], pr_body = Inl err\<rparr>"

text \<open>\<open>safeParse(res1) || {}\<close>, the headers copied one by one, and \<open>statusCode || 200\<close>.\<close>

definition reply_response :: "reply \<Rightarrow> px_response" where
  "reply_response r =
    (let h = (case fst r of None \<Rightarrow> \<lparr>rh_statusCode = None, rh_headers = None\<rparr> | Some h \<Rightarrow> h)
     in \<lparr>pr_statusCode = (case rh_statusCode h of None \<Rightarrow> 200 | Some c \<Rightarrow> if c = 0 then 200 else c),
         pr_headers = (case rh_headers h of None \<Rightarrow> [] | Some hs \<Rightarrow> fold (\<lambda>(k, v). dset k v) hs []),
         pr_body = Inr (snd r)\<rparr>)"

section \<open>The state\<close>

text \<open>Channel options; the host of a rerouted request can be undefined.\<close>

record channel_opts =
  co_host :: "string option"
  co_timeout :: int
  co_endpoint :: string

text \<open>Options of a request: \<open>max\<close> and \<open>schedule\<close> override the ones of the proxy.\<close>

record proxy_opts =
  o_keys :: "string list"
  o_dest :: string
  o_req :: http_request
  o_maxRetries :: "int option"
  o_retrySchedule :: "rat list option"
  o_endpoint :: "string option"
  o_timeout :: "int option"
  o_skipLookupOnRetry :: bool

text \<open>\<open>RequestProxySend\<close>; \<^theory_text>\<open>sn_response\<close> numbers the response its callback ends.\<close>

record sender =
  sn_response :: nat
  sn_keys :: "string list"
  sn_host :: string
  sn_timeout :: int
  sn_endpoint :: string
  sn_request :: http_request
  sn_body :: string
  sn_retrySchedule :: "rat list"
  sn_maxRetries :: int
  sn_maxRetryTimeout :: "rat option"
  sn_skipLookupOnRetry :: bool
  sn_destinations :: "string option list"
  sn_errors :: "proxy_error list"
  sn_numRetries :: nat

text \<open>A callback of \<open>handleRequest\<close>: the one of a sender, or the reply to another node.\<close>

datatype reply_to = To_send nat | To_channel nat

datatype px_work =
    Body nat proxy_opts
  | Identify nat channel_opts
  | Reply nat
  | Reply_no_retries nat
  | Retry nat "rat option"
  | Tick_destroyed nat
  | Tick_reply nat px_result
  | Tick_proxy nat px_result
  | App reply_to

datatype px_event =
    ChecksumsDiffer
  | KeysDiffer
  | RetryAborted
  | RetryAttempted
  | RetryFailed
  | RetrySucceeded
  | RetryRerouted string "string option"
  | RetryScheduled
  | RequestProxied
  | Request head string

record proxy =
  px_retrySchedule :: "rat list option"
  px_maxRetries :: "int option"
  px_enforceConsistency :: bool
  px_enforceKeyConsistency :: bool
  px_sends :: "nat list"
  px_inflight :: int
  px_miscounts :: nat
  px_senders :: "sender list"
  px_work :: "px_work list"
  px_requests :: "(nat \<times> string option \<times> head \<times> string) list"
  px_written :: "(nat \<times> px_response) list"
  px_replied :: "(nat \<times> px_result) list"
  px_events :: "px_event list"

definition new_proxy :: "rat list option \<Rightarrow> int option \<Rightarrow> bool option \<Rightarrow> bool option \<Rightarrow> proxy" where
  "new_proxy schedule maxRetries enforce enforceKeys =
     \<lparr>px_retrySchedule = schedule, px_maxRetries = maxRetries,
      px_enforceConsistency = (case enforce of None \<Rightarrow> True | Some b \<Rightarrow> b),
      px_enforceKeyConsistency = (case enforceKeys of None \<Rightarrow> False | Some b \<Rightarrow> b),
      px_sends = [], px_inflight = 0, px_miscounts = 0, px_senders = [], px_work = [],
      px_requests = [], px_written = [], px_replied = [], px_events = []\<rparr>"

text \<open>The node around the proxy, as it is when a callback runs.\<close>

record site =
  st_whoami :: string
  st_config :: config
  st_hash :: "string \<Rightarrow> int"
  st_ring :: hash_ring
  st_currentLag :: int
  st_proxyReqTimeout :: int
  st_channelDestroyed :: bool

text \<open>\<open>ringpop.lookup\<close>, which returns on every well-formed ring (\<open>rp_lookup\<close> is then \<open>Some\<close>).\<close>

definition px_lookup :: "site \<Rightarrow> string \<Rightarrow> string" where
  "px_lookup S key = the (rp_lookup (st_hash S) (st_whoami S) key (st_ring S))"

definition px_emit :: "px_event \<Rightarrow> proxy \<Rightarrow> proxy" where
  "px_emit e p = p\<lparr>px_events := px_events p @ [e]\<rparr>"

definition px_wait :: "px_work \<Rightarrow> proxy \<Rightarrow> proxy" where
  "px_wait w p = p\<lparr>px_work := px_work p @ [w]\<rparr>"

definition px_write :: "nat \<Rightarrow> px_response \<Rightarrow> proxy \<Rightarrow> proxy" where
  "px_write r x p = p\<lparr>px_written := px_written p @ [(r, x)]\<rparr>"

definition upd_sender :: "nat \<Rightarrow> (sender \<Rightarrow> sender) \<Rightarrow> proxy \<Rightarrow> proxy" where
  "upd_sender i f p = p\<lparr>px_senders := (px_senders p)[i := f (px_senders p ! i)]\<rparr>"

section \<open>Back pressure\<close>

definition decrementInflight :: "proxy \<Rightarrow> proxy" where
  "decrementInflight p =
    (let n = px_inflight p - 1
     in if n < 0 then p\<lparr>px_inflight := 0, px_miscounts := Suc (px_miscounts p)\<rparr>
        else p\<lparr>px_inflight := n\<rparr>)"

definition incrementInflight :: "site \<Rightarrow> proxy \<Rightarrow> proxy" where
  "incrementInflight S p =
    (let n = px_inflight p + 1; limit = c_maxInflightRequests (st_config S)
     in if n > limit then p\<lparr>px_inflight := limit, px_miscounts := Suc (px_miscounts p)\<rparr>
        else p\<lparr>px_inflight := n\<rparr>)"

definition hasExceededMaxInflightRequests :: "site \<Rightarrow> proxy \<Rightarrow> bool" where
  "hasExceededMaxInflightRequests S p \<longleftrightarrow>
     c_backpressureEnabled (st_config S) \<and> px_inflight p + 1 > c_maxInflightRequests (st_config S)"

definition hasExceededMaxEventLoopLag :: "site \<Rightarrow> bool" where
  "hasExceededMaxEventLoopLag S \<longleftrightarrow>
     c_backpressureEnabled (st_config S) \<and> st_currentLag S > c_maxEventLoopLag (st_config S)"

definition shouldRespondWithTooManyReqs :: "site \<Rightarrow> direction \<Rightarrow> proxy \<Rightarrow> proxy_error option" where
  "shouldRespondWithTooManyReqs S d p =
    (if hasExceededMaxInflightRequests S p
     then Some (TooManyRequestsError d (c_maxInflightRequests (st_config S)) Inflight_metric)
     else if hasExceededMaxEventLoopLag S
     then Some (TooManyRequestsError d (c_maxEventLoopLag (st_config S)) Eventloop_metric)
     else None)"

section \<open>Executing a forwarded request\<close>

text \<open>
  The callback of a sender goes on in the next tick; the one of the endpoint answers the other
  node.
\<close>

fun give :: "reply_to \<Rightarrow> px_result \<Rightarrow> proxy \<Rightarrow> proxy" where
  "give (To_send i) res p = px_wait (Tick_proxy i res) p"
| "give (To_channel c) res p = p\<lparr>px_replied := px_replied p @ [(c, res)]\<rparr>"

text \<open>The first key that is not looked up to this node, with what it is looked up to.\<close>

fun foreign_key :: "site \<Rightarrow> string list \<Rightarrow> string option" where
  "foreign_key S [] = None"
| "foreign_key S (k # ks) = (if px_lookup S k \<noteq> st_whoami S then Some (px_lookup S k) else foreign_key S ks)"

text \<open>\<open>handleRequest\<close> in its three steps: the checksums, the keys, the back pressure.\<close>

definition execute :: "site \<Rightarrow> head \<Rightarrow> string \<Rightarrow> reply_to \<Rightarrow> proxy \<Rightarrow> proxy" where
  "execute S h body cb p =
    (case shouldRespondWithTooManyReqs S Ingress p of
       Some e \<Rightarrow> give cb (Inr (Some \<lparr>rh_statusCode = Some 429, rh_headers = None\<rparr>, Error_json e)) p
     | None \<Rightarrow> px_wait (App cb) (px_emit (Request h body) (incrementInflight S p)))"

definition check_keys :: "site \<Rightarrow> head \<Rightarrow> string \<Rightarrow> reply_to \<Rightarrow> proxy \<Rightarrow> proxy" where
  "check_keys S h body cb p =
    (case foreign_key S (case h_ringpopKeys h of None \<Rightarrow> [] | Some ks \<Rightarrow> ks) of
       None \<Rightarrow> execute S h body cb p
     | Some target \<Rightarrow>
         let p1 = px_emit KeysDiffer p
         in if px_enforceKeyConsistency p1 then give cb (Inl (InvalidKeyError target (st_whoami S))) p1
            else execute S h body cb p1)"

definition handleRequest :: "site \<Rightarrow> head \<Rightarrow> string \<Rightarrow> reply_to \<Rightarrow> proxy \<Rightarrow> proxy" where
  "handleRequest S h body cb p =
    (if h_ringpopChecksum h \<noteq> hr_checksum (st_ring S) then
       let p1 = px_emit ChecksumsDiffer p
       in if px_enforceConsistency p1
          then give cb (Inl (InvalidCheckSumError (hr_checksum (st_ring S)) (h_ringpopChecksum h))) p1
          else check_keys S h body cb p1
     else check_keys S h body cb p)"

text \<open>The application answers: with an error, or a status, headers and a body.\<close>

definition onAppResponse :: "reply_to \<Rightarrow> proxy_error + (int \<times> string dict \<times> string) \<Rightarrow> proxy \<Rightarrow> proxy" where
  "onAppResponse cb resp p =
    (let p1 = decrementInflight p
     in case resp of
          Inl err \<Rightarrow> give cb (Inl err) p1
        | Inr (status, headers, body) \<Rightarrow>
            give cb (Inr (Some \<lparr>rh_statusCode = Some status, rh_headers = Some headers\<rparr>, Text body)) p1)"

text \<open>The endpoint \<open>/proxy/req\<close>; a null header is refused.\<close>

definition handleProxyReq :: "site \<Rightarrow> head option \<Rightarrow> string \<Rightarrow> nat \<Rightarrow> proxy \<Rightarrow> proxy" where
  "handleProxyReq S header body c p =
    (case header of
       None \<Rightarrow> give (To_channel c) (Inl NeedHeaderError) p
     | Some h \<Rightarrow> handleRequest S h body (To_channel c) p)"

section \<open>Sending, with retries\<close>

definition RETRY_SCHEDULE :: "rat list" where
  "RETRY_SCHEDULE = [0, 1, 7 / 2]"

text \<open>An entry of the schedule in milliseconds; past its end the product is NaN.\<close>

definition schedule_ms :: "rat list \<Rightarrow> nat \<Rightarrow> rat option" where
  "schedule_ms schedule n = (if n < length schedule then Some (schedule ! n * 1000) else None)"

definition new_sender ::
  "nat \<Rightarrow> string list \<Rightarrow> string \<Rightarrow> int \<Rightarrow> string \<Rightarrow> http_request \<Rightarrow> string \<Rightarrow> int option \<Rightarrow> rat list option \<Rightarrow>
   bool \<Rightarrow> sender"
where
  "new_sender r keys host timeout endpoint req body maxR schedule skipLookup =
    (let retrySchedule = (case schedule of None \<Rightarrow> RETRY_SCHEDULE | Some s \<Rightarrow> s)
     in \<lparr>sn_response = r, sn_keys = keys, sn_host = host, sn_timeout = timeout,
         sn_endpoint = endpoint, sn_request = req, sn_body = body, sn_retrySchedule = retrySchedule,
         sn_maxRetries = numOrDefault maxR (int (length retrySchedule)),
         sn_maxRetryTimeout = (if retrySchedule = [] then None
           else schedule_ms retrySchedule (length retrySchedule - 1)),
         sn_skipLookupOnRetry = skipLookup, sn_destinations = [Some host], sn_errors = [],
         sn_numRetries = 0\<rparr>)"

definition sender_opts :: "sender \<Rightarrow> channel_opts" where
  "sender_opts s = \<lparr>co_host = Some (sn_host s), co_timeout = sn_timeout s, co_endpoint = sn_endpoint s\<rparr>"

text \<open>\<open>send\<close>: a destroyed channel is an error; otherwise the host is to be identified first.\<close>

definition send :: "site \<Rightarrow> nat \<Rightarrow> channel_opts \<Rightarrow> proxy \<Rightarrow> proxy" where
  "send S i co p =
    (if st_channelDestroyed S then px_wait (Tick_destroyed i) p else px_wait (Identify i co) p)"

text \<open>\<open>onRequest\<close>: the request leaves with the checksum of the ring as it is now.\<close>

definition onIdentified :: "site \<Rightarrow> nat \<Rightarrow> channel_opts \<Rightarrow> proxy_error option \<Rightarrow> proxy \<Rightarrow> proxy" where
  "onIdentified S i co err p =
    (case err of
       Some e \<Rightarrow> give (To_send i) (Inl e) p
     | None \<Rightarrow>
         let s = px_senders p ! i;
             h = rawHead (sn_request s) (hr_checksum (st_ring S)) (sn_keys s);
             p1 = p\<lparr>px_requests := px_requests p @ [(i, co_host co, h, sn_body s)]\<rparr>;
             p2 = px_wait (if sn_maxRetries s = 0 then Reply_no_retries i else Reply i) p1
         in px_emit RequestProxied p2)"

definition scheduleRetry :: "nat \<Rightarrow> proxy \<Rightarrow> proxy" where
  "scheduleRetry i p =
    (let s = px_senders p ! i;
         delay = (case schedule_ms (sn_retrySchedule s) (sn_numRetries s) of
                    Some d \<Rightarrow> Some d | None \<Rightarrow> sn_maxRetryTimeout s)
     in px_emit RetryScheduled (px_wait (Retry i delay) p))"

definition handleMaxRetriesExceeded :: "nat \<Rightarrow> proxy \<Rightarrow> proxy" where
  "handleMaxRetriesExceeded i p =
     give (To_send i) (Inl (MaxRetriesExceeded (sn_maxRetries (px_senders p ! i)))) (px_emit RetryFailed p)"

definition handleSuccess :: "nat \<Rightarrow> reply \<Rightarrow> proxy \<Rightarrow> proxy" where
  "handleSuccess i r p =
     give (To_send i) (Inr r) (if sn_numRetries (px_senders p ! i) > 0 then px_emit RetrySucceeded p else p)"

text \<open>A reply of the channel: an error, \<open>res.ok\<close> false with a text, or the two arguments.\<close>

datatype channel_reply = Channel_error proxy_error | Not_ok string | Ok_reply reply

text \<open>\<open>if (!err && !res.ok) err = new Error(String(arg3))\<close>.\<close>

fun reply_error :: "channel_reply \<Rightarrow> px_result" where
  "reply_error (Channel_error e) = Inl e"
| "reply_error (Not_ok text) = Inl (Foreign text None)"
| "reply_error (Ok_reply r) = Inr r"

definition onSend :: "nat \<Rightarrow> channel_reply \<Rightarrow> proxy \<Rightarrow> proxy" where
  "onSend i x p =
    (let res = reply_error x; s = px_senders p ! i
     in if sn_maxRetries s = 0 then give (To_send i) res p
        else case res of
          Inr r \<Rightarrow> handleSuccess i r p
        | Inl e \<Rightarrow>
            let p1 = upd_sender i (\<lambda>s. s\<lparr>sn_errors := sn_errors s @ [e]\<rparr>) p
            in if int (sn_numRetries s) \<ge> sn_maxRetries s then handleMaxRetriesExceeded i p1
               else scheduleRetry i p1)"

definition onSendNoRetries :: "nat \<Rightarrow> channel_reply \<Rightarrow> proxy \<Rightarrow> proxy" where
  "onSendNoRetries i x p = px_wait (Tick_reply i (reply_error x)) p"

text \<open>The destinations of the keys, each once.\<close>

definition lookupKeys :: "site \<Rightarrow> string list \<Rightarrow> string list" where
  "lookupKeys S keys = dkeys (fold (\<lambda>k. dset (px_lookup S k) True) keys [])"

definition abortOnKeyDivergence :: "nat \<Rightarrow> string list \<Rightarrow> proxy \<Rightarrow> proxy" where
  "abortOnKeyDivergence i dests p =
    (let s = px_senders p ! i
     in give (To_send i) (Inl (RetryDivergenceError (sn_keys s) (sn_host s) dests)) (px_emit RetryAborted p))"

definition rerouteRetry :: "site \<Rightarrow> nat \<Rightarrow> string option \<Rightarrow> proxy \<Rightarrow> proxy" where
  "rerouteRetry S i newDest p =
    (let s = px_senders p ! i;
         p1 = upd_sender i (\<lambda>s. s\<lparr>sn_destinations := sn_destinations s @ [newDest]\<rparr>) p;
         p2 = px_emit (RetryRerouted (sn_host s) newDest) p1
     in if newDest = Some (st_whoami S)
        then handleRequest S (rawHead (sn_request s) (hr_checksum (st_ring S)) (sn_keys s)) (sn_body s)
               (To_send i) p2
        else send S i (sender_opts s\<lparr>co_host := newDest\<rparr>) p2)"

definition attemptRetry :: "site \<Rightarrow> nat \<Rightarrow> proxy \<Rightarrow> proxy" where
  "attemptRetry S i p =
    (let p1 = upd_sender i (\<lambda>s. s\<lparr>sn_numRetries := Suc (sn_numRetries s)\<rparr>) p;
         s = px_senders p1 ! i;
         dests = (if sn_skipLookupOnRetry s then [sn_host s] else lookupKeys S (sn_keys s))
     in if length dests > 1 then abortOnKeyDivergence i dests p1
        else
          let p2 = px_emit RetryAttempted p1; newDest = (case dests of [] \<Rightarrow> None | d # _ \<Rightarrow> Some d)
          in if newDest = Some (sn_host s) then send S i (sender_opts s) p2
             else rerouteRetry S i newDest p2)"

section \<open>Forwarding a request\<close>

definition proxyReq :: "site \<Rightarrow> nat \<Rightarrow> proxy_opts \<Rightarrow> proxy \<Rightarrow> proxy" where
  "proxyReq S r opts p =
    (case shouldRespondWithTooManyReqs S Egress p of
       Some e \<Rightarrow> px_write r (error_response e) p
     | None \<Rightarrow> px_wait (Body r opts) (incrementInflight S p))"

text \<open>
  \<open>onBody\<close>. The timeout and the endpoint are computed when the request arrives; they do not
  change. The sender is in \<open>sends\<close> once \<open>sendRequest\<close> has returned.
\<close>

definition onBody :: "site \<Rightarrow> nat \<Rightarrow> proxy_opts \<Rightarrow> proxy_error + string \<Rightarrow> proxy \<Rightarrow> proxy" where
  "onBody S r opts res p =
    (case res of
       Inl err \<Rightarrow> px_write r (error_response err) (decrementInflight p)
     | Inr rawBody \<Rightarrow>
         let i = length (px_senders p);
             timeout = (case o_timeout opts of None \<Rightarrow> st_proxyReqTimeout S
                          | Some t \<Rightarrow> if t = 0 then st_proxyReqTimeout S else t);
             endpoint = (case o_endpoint opts of None \<Rightarrow> ''/proxy/req''
                           | Some e \<Rightarrow> if e = [] then ''/proxy/req'' else e);
             maxRetries = (case o_maxRetries opts of Some m \<Rightarrow> Some m | None \<Rightarrow> px_maxRetries p);
             schedule = (case o_retrySchedule opts of Some s \<Rightarrow> Some s | None \<Rightarrow> px_retrySchedule p);
             s = new_sender r (o_keys opts) (o_dest opts) timeout endpoint (o_req opts) rawBody maxRetries schedule
                   (o_skipLookupOnRetry opts);
             p1 = send S i (sender_opts s) (p\<lparr>px_senders := px_senders p @ [s]\<rparr>)
         in p1\<lparr>px_sends := px_sends p1 @ [i]\<rparr>)"

text \<open>\<open>removeSend\<close>, with \<open>send.destroy\<close>: the retry that waits, if any, is cleared.\<close>

fun retry_of :: "nat \<Rightarrow> px_work \<Rightarrow> bool" where
  "retry_of i (Retry j d) = (i = j)"
| "retry_of i w = False"

definition sender_destroy :: "nat \<Rightarrow> proxy \<Rightarrow> proxy" where
  "sender_destroy i p = p\<lparr>px_work := [w \<leftarrow> px_work p. \<not> retry_of i w]\<rparr>"

definition removeSend :: "nat \<Rightarrow> proxy \<Rightarrow> proxy" where
  "removeSend i p = sender_destroy i (p\<lparr>px_sends := remove1 i (px_sends p)\<rparr>)"

definition onProxy :: "nat \<Rightarrow> px_result \<Rightarrow> proxy \<Rightarrow> proxy" where
  "onProxy i res p =
    (let r = sn_response (px_senders p ! i); p1 = decrementInflight (removeSend i p)
     in case res of
          Inl err \<Rightarrow> px_write r (error_response err) p1
        | Inr rep \<Rightarrow> px_write r (reply_response rep) p1)"

text \<open>\<open>destroy\<close>.\<close>

definition px_destroy :: "proxy \<Rightarrow> proxy" where
  "px_destroy p = (fold sender_destroy (px_sends p) p)\<lparr>px_sends := []\<rparr>"

section \<open>Runs\<close>

text \<open>What the environment does: a request comes in, or the work at a place is done.\<close>

datatype px_in =
    In_request nat proxy_opts
  | In_forwarded nat "head option" string
  | In_body nat "proxy_error + string"
  | In_identified nat "proxy_error option"
  | In_reply nat channel_reply
  | In_timeout nat
  | In_tick nat
  | In_app nat "proxy_error + (int \<times> string dict \<times> string)"

definition take_out :: "nat \<Rightarrow> proxy \<Rightarrow> proxy" where
  "take_out n p = p\<lparr>px_work := take n (px_work p) @ drop (Suc n) (px_work p)\<rparr>"

definition work_at :: "nat \<Rightarrow> proxy \<Rightarrow> px_work option" where
  "work_at n p = (if n < length (px_work p) then Some (px_work p ! n) else None)"

fun px_step :: "site \<Rightarrow> px_in \<Rightarrow> proxy \<Rightarrow> proxy option" where
  "px_step S (In_request r opts) p = Some (proxyReq S r opts p)"
| "px_step S (In_forwarded c header body) p = Some (handleProxyReq S header body c p)"
| "px_step S (In_body n res) p =
    (case work_at n p of Some (Body r opts) \<Rightarrow> Some (onBody S r opts res (take_out n p)) | _ \<Rightarrow> None)"
| "px_step S (In_identified n err) p =
    (case work_at n p of Some (Identify i co) \<Rightarrow> Some (onIdentified S i co err (take_out n p)) | _ \<Rightarrow> None)"
| "px_step S (In_reply n x) p =
    (case work_at n p of
       Some (Reply i) \<Rightarrow> Some (onSend i x (take_out n p))
     | Some (Reply_no_retries i) \<Rightarrow> Some (onSendNoRetries i x (take_out n p))
     | _ \<Rightarrow> None)"
| "px_step S (In_timeout n) p =
    (case work_at n p of Some (Retry i d) \<Rightarrow> Some (attemptRetry S i (take_out n p)) | _ \<Rightarrow> None)"
| "px_step S (In_tick n) p =
    (case work_at n p of
       Some (Tick_destroyed i) \<Rightarrow> Some (give (To_send i) (Inl ChannelDestroyedError) (take_out n p))
     | Some (Tick_reply i res) \<Rightarrow> Some (give (To_send i) res (take_out n p))
     | Some (Tick_proxy i res) \<Rightarrow> Some (onProxy i res (take_out n p))
     | _ \<Rightarrow> None)"
| "px_step S (In_app n resp) p =
    (case work_at n p of Some (App cb) \<Rightarrow> Some (onAppResponse cb resp (take_out n p)) | _ \<Rightarrow> None)"

text \<open>A run: each input with the node as it is then.\<close>

fun px_run :: "(site \<times> px_in) list \<Rightarrow> proxy \<Rightarrow> proxy option" where
  "px_run [] p = Some p"
| "px_run ((S, e) # es) p = (case px_step S e p of None \<Rightarrow> None | Some p' \<Rightarrow> px_run es p')"

end
