(* ===== verification/Proxy_Facts.thy ===== *)
theory Proxy_Facts
  imports Proxy
begin

text \<open>
  The life cycle of a forwarded request. Each callback of the proxy takes one piece of work and
  leaves the next one for the same sender, or ends the request; \<^theory_text>\<open>follows\<close> says which may come
  next. The invariant ties the work, the senders and the requests made together.
\<close>

section \<open>Phases\<close>

datatype phase = P_body | P_identify | P_reply | P_reply_once | P_retry | P_destroyed | P_answer | P_over | P_app

fun phase_of :: "px_work \<Rightarrow> phase" where
  "phase_of (Body r opts) = P_body"
| "phase_of (Identify i co) = P_identify"
| "phase_of (Reply i) = P_reply"
| "phase_of (Reply_no_retries i) = P_reply_once"
| "phase_of (Retry i d) = P_retry"
| "phase_of (Tick_destroyed i) = P_destroyed"
| "phase_of (Tick_reply i res) = P_answer"
| "phase_of (Tick_proxy i res) = P_over"
| "phase_of (App cb) = P_app"

definition follows :: "phase \<Rightarrow> phase \<Rightarrow> bool" where
  "follows a b \<longleftrightarrow> (a, b) \<in>
    {(P_body, P_identify), (P_body, P_destroyed), (P_identify, P_over), (P_identify, P_reply),
     (P_identify, P_reply_once), (P_reply, P_over), (P_reply, P_retry), (P_reply_once, P_answer),
     (P_retry, P_over), (P_retry, P_destroyed), (P_retry, P_identify), (P_retry, P_app),
     (P_destroyed, P_over), (P_answer, P_over), (P_app, P_over)}"

fun sid_of :: "px_work \<Rightarrow> nat option" where
  "sid_of (Body r opts) = None"
| "sid_of (Identify i co) = Some i"
| "sid_of (Reply i) = Some i"
| "sid_of (Reply_no_retries i) = Some i"
| "sid_of (Retry i d) = Some i"
| "sid_of (Tick_destroyed i) = Some i"
| "sid_of (Tick_reply i res) = Some i"
| "sid_of (Tick_proxy i res) = Some i"
| "sid_of (App (To_send i)) = Some i"
| "sid_of (App (To_channel c)) = None"

definition sids :: "px_work list \<Rightarrow> nat list" where
  "sids ws = List.map_filter sid_of ws"

lemma sids_simps [simp]:
  "sids [] = []"
  "sids (w # ws) = (case sid_of w of None \<Rightarrow> sids ws | Some i \<Rightarrow> i # sids ws)"
  "sids (us @ ws) = sids us @ sids ws"
  by (simp_all add: sids_def List.map_filter_def split: option.splits)

lemma set_sids: "i \<in> set (sids ws) \<longleftrightarrow> (\<exists>w \<in> set ws. sid_of w = Some i)"
  by (induction ws) (auto split: option.splits)

lemma phase_over [simp]: "phase_of w = P_over \<longleftrightarrow> (\<exists>i res. w = Tick_proxy i res)"
  by (cases w) auto

lemma phase_app [simp]: "phase_of w = P_app \<longleftrightarrow> (\<exists>cb. w = App cb)"
  by (cases w) auto

section \<open>The common shape of a continuation\<close>

text \<open>
  The sender \<^theory_text>\<open>i\<close> becomes \<^theory_text>\<open>s'\<close>, and \<^theory_text>\<open>w\<close> is what it waits for next; running the request
  here counts it once more.
\<close>

definition cont :: "site \<Rightarrow> nat \<Rightarrow> px_work \<Rightarrow> sender \<Rightarrow> px_event list \<Rightarrow> (nat \<times> string option \<times> head \<times> string) list \<Rightarrow>
  proxy \<Rightarrow> proxy" where
  "cont S i w s' es rq p =
    (let q = p\<lparr>px_senders := (px_senders p)[i := s'], px_events := es, px_requests := rq\<rparr>
     in px_wait w (if phase_of w = P_app then incrementInflight S q else q))"

definition moved :: "site \<Rightarrow> px_work \<Rightarrow> nat \<Rightarrow> proxy \<Rightarrow> proxy \<Rightarrow> bool" where
  "moved S v i p p' \<longleftrightarrow>
    (\<exists>w s' es new. p' = cont S i w s' es (px_requests p @ new) p \<and> sid_of w = Some i \<and>
       follows (phase_of v) (phase_of w) \<and>
       sn_response s' = sn_response (px_senders p ! i) \<and>
       sn_maxRetries s' = sn_maxRetries (px_senders p ! i) \<and>
       sn_numRetries s' = sn_numRetries (px_senders p ! i) + (if phase_of v = P_retry then 1 else 0) \<and>
       map fst new = (if phase_of w = P_reply \<or> phase_of w = P_reply_once then [i] else []) \<and>
       (phase_of w = P_retry \<longrightarrow> int (sn_numRetries s') < sn_maxRetries s') \<and>
       (phase_of w = P_app \<longrightarrow> shouldRespondWithTooManyReqs S Ingress p = None))"

lemma list_update_id_nth [simp]: "xs[i := xs ! i] = xs"
  by (rule list_update_id)

lemma cont_same:
  "px_wait w p = cont S i w (px_senders p ! i) (px_events p) (px_requests p) p" if "phase_of w \<noteq> P_app"
  using that by (simp add: cont_def)

lemma moved_wait:
  "sid_of w = Some i \<Longrightarrow> follows (phase_of v) (phase_of w) \<Longrightarrow> phase_of w \<notin> {P_app, P_reply, P_reply_once, P_retry} \<Longrightarrow>
   phase_of v \<noteq> P_retry \<Longrightarrow> px_events q = es \<Longrightarrow> q = p\<lparr>px_events := es\<rparr> \<Longrightarrow> moved S v i p (px_wait w q)"
  unfolding moved_def cont_def
  by (rule exI[of _ w], rule exI[of _ "px_senders p ! i"], rule exI[of _ es], rule exI[of _ "[]"])
     (auto simp: px_wait_def)

lemma onIdentified_moved: "moved S (Identify i co) i p (onIdentified S i co err p)"
proof (cases err)
  case (Some e)
  then show ?thesis
    by (auto simp: onIdentified_def follows_def intro: moved_wait[where es="px_events p"])
next
  case None
  let ?s = "px_senders p ! i"
  let ?w = "if sn_maxRetries ?s = 0 then Reply_no_retries i else Reply i"
  show ?thesis
    unfolding moved_def cont_def None onIdentified_def
    by (rule exI[of _ ?w], rule exI[of _ ?s], rule exI[of _ "px_events p @ [RequestProxied]"],
        rule exI[of _ "[(i, co_host co, rawHead (sn_request ?s) (hr_checksum (st_ring S)) (sn_keys ?s), sn_body ?s)]"])
       (auto simp: px_wait_def px_emit_def follows_def Let_def)
qed

lemma onSendNoRetries_moved: "moved S (Reply_no_retries i) i p (onSendNoRetries i x p)"
  unfolding onSendNoRetries_def
  by (rule moved_wait[where es="px_events p"]) (auto simp: follows_def)

lemma tick_moved:
  "phase_of v = P_destroyed \<or> phase_of v = P_answer \<Longrightarrow> moved S v i p (give (To_send i) res p)"
  unfolding give.simps
  by (rule moved_wait[where es="px_events p"]) (auto simp: follows_def)

lemma onSend_moved: "moved S (Reply i) i p (onSend i x p)"
proof -
  let ?s = "px_senders p ! i"
  let ?e = "sn_errors ?s"
  consider (once) "sn_maxRetries ?s = 0"
    | (ok) r where "sn_maxRetries ?s \<noteq> 0" "reply_error x = Inr r"
    | (fail) e where "sn_maxRetries ?s \<noteq> 0" "reply_error x = Inl e"
    by (cases "reply_error x") auto
  then show ?thesis
  proof cases
    case once
    then show ?thesis
      by (auto simp: onSend_def follows_def Let_def intro: moved_wait[where es="px_events p"])
  next
    case ok
    then have "onSend i x p = handleSuccess i r p" by (simp add: onSend_def)
    then show ?thesis
      by (auto simp: handleSuccess_def follows_def px_emit_def
               intro: moved_wait[where es="px_events p"] moved_wait[where es="px_events p @ [RetrySucceeded]"])
  next
    case fail
    let ?s' = "?s\<lparr>sn_errors := sn_errors ?s @ [e]\<rparr>"
    have sel: "(px_senders p)[i := ?s'] ! i = ?s' \<or> length (px_senders p) \<le> i"
      by (cases "i < length (px_senders p)") auto
    show ?thesis
    proof (cases "int (sn_numRetries ?s) \<ge> sn_maxRetries ?s")
      case True
      with fail have *: "onSend i x p = handleMaxRetriesExceeded i (upd_sender i (\<lambda>s. s\<lparr>sn_errors := sn_errors s @ [e]\<rparr>) p)"
        by (simp add: onSend_def Let_def)
      show ?thesis
        unfolding * moved_def cont_def handleMaxRetriesExceeded_def give.simps
        by (rule exI, rule exI[of _ ?s'], rule exI[of _ "px_events p @ [RetryFailed]"], rule exI[of _ "[]"],
            rule conjI, rule refl[THEN trans, rotated])
           (auto simp: px_wait_def px_emit_def upd_sender_def follows_def)
    next
      case False
      let ?q = "upd_sender i (\<lambda>s. s\<lparr>sn_errors := sn_errors s @ [e]\<rparr>) p"
      from False fail have *: "onSend i x p = scheduleRetry i ?q"
        by (simp add: onSend_def Let_def)
      obtain d where d: "scheduleRetry i ?q = px_emit RetryScheduled (px_wait (Retry i d) ?q)"
        by (simp add: scheduleRetry_def Let_def)
      show ?thesis
        unfolding * d moved_def cont_def
        by (rule exI[of _ "Retry i d"], rule exI[of _ ?s'], rule exI[of _ "px_events p @ [RetryScheduled]"], rule exI[of _ "[]"])
           (use False in \<open>auto simp: px_wait_def px_emit_def upd_sender_def follows_def\<close>)
    qed
  qed
qed

section \<open>Executing a request\<close>

lemma handleRequest_cases:
  obtains (refused) es res where "handleRequest S h body cb p = give cb res (p\<lparr>px_events := es\<rparr>)"
  | (runs) es where "handleRequest S h body cb p = px_wait (App cb) (incrementInflight S (p\<lparr>px_events := es\<rparr>))"
      "shouldRespondWithTooManyReqs S Ingress p = None"
proof -
  have e: "px_emit e p = p\<lparr>px_events := px_events p @ [e]\<rparr>" for e p
    by (simp add: px_emit_def)
  have ev: "shouldRespondWithTooManyReqs S d (p\<lparr>px_events := es\<rparr>) = shouldRespondWithTooManyReqs S d p" for d es
    by (simp add: shouldRespondWithTooManyReqs_def hasExceededMaxInflightRequests_def)
  have inc: "px_emit e (incrementInflight S p) = incrementInflight S (px_emit e p)" for e and p :: proxy
    by (simp add: px_emit_def incrementInflight_def Let_def)
  have ex: "(\<exists>es res. execute S h body cb (p\<lparr>px_events := fs\<rparr>) = give cb res (p\<lparr>px_events := es\<rparr>)) \<or>
    (\<exists>es. execute S h body cb (p\<lparr>px_events := fs\<rparr>) = px_wait (App cb) (incrementInflight S (p\<lparr>px_events := es\<rparr>)) \<and>
      shouldRespondWithTooManyReqs S Ingress p = None)" for fs
  proof (cases "shouldRespondWithTooManyReqs S Ingress p")
    case None
    then have "execute S h body cb (p\<lparr>px_events := fs\<rparr>) =
      px_wait (App cb) (incrementInflight S (p\<lparr>px_events := fs @ [Request h body]\<rparr>))"
      by (simp add: execute_def ev inc) (simp add: e)
    then show ?thesis using None by blast
  next
    case (Some a)
    then have "execute S h body cb (p\<lparr>px_events := fs\<rparr>) =
      give cb (Inr (Some \<lparr>rh_statusCode = Some 429, rh_headers = None\<rparr>, Error_json a)) (p\<lparr>px_events := fs\<rparr>)"
      by (simp add: execute_def ev)
    then show ?thesis by blast
  qed
  have ck: "(\<exists>es res. check_keys S h body cb (p\<lparr>px_events := fs\<rparr>) = give cb res (p\<lparr>px_events := es\<rparr>)) \<or>
    (\<exists>es. check_keys S h body cb (p\<lparr>px_events := fs\<rparr>) = px_wait (App cb) (incrementInflight S (p\<lparr>px_events := es\<rparr>)) \<and>
      shouldRespondWithTooManyReqs S Ingress p = None)" for fs
    using ex[of fs] ex[of "fs @ [KeysDiffer]"]
    by (auto simp: check_keys_def Let_def e split: option.splits)
  have "(\<exists>es res. handleRequest S h body cb p = give cb res (p\<lparr>px_events := es\<rparr>)) \<or>
    (\<exists>es. handleRequest S h body cb p = px_wait (App cb) (incrementInflight S (p\<lparr>px_events := es\<rparr>)) \<and>
      shouldRespondWithTooManyReqs S Ingress p = None)"
    using ck[of "px_events p"] ck[of "px_events p @ [ChecksumsDiffer]"]
    by (auto simp: handleRequest_def Let_def e)
  then show thesis using refused runs by blast
qed

section \<open>A retry\<close>

lemma shouldRespond_upd [simp]:
  "shouldRespondWithTooManyReqs S d (p\<lparr>px_events := es\<rparr>) = shouldRespondWithTooManyReqs S d p"
  "shouldRespondWithTooManyReqs S d (p\<lparr>px_senders := ss\<rparr>) = shouldRespondWithTooManyReqs S d p"
  "shouldRespondWithTooManyReqs S d (p\<lparr>px_work := ws\<rparr>) = shouldRespondWithTooManyReqs S d p"
  by (simp_all add: shouldRespondWithTooManyReqs_def hasExceededMaxInflightRequests_def)

definition retried :: "sender \<Rightarrow> sender \<Rightarrow> bool" where
  "retried s s' \<longleftrightarrow> sn_response s' = sn_response s \<and> sn_maxRetries s' = sn_maxRetries s \<and>
     sn_numRetries s' = Suc (sn_numRetries s)"

lemma moved_retry:
  assumes "retried (px_senders p ! i) s'" "sid_of w = Some i" "follows P_retry (phase_of w)"
    "phase_of w \<noteq> P_app" "phase_of w \<notin> {P_reply, P_reply_once, P_retry}"
  shows "moved S (Retry i d) i p (px_wait w (p\<lparr>px_senders := (px_senders p)[i := s'], px_events := es\<rparr>))"
  unfolding moved_def cont_def
  by (rule exI[of _ w], rule exI[of _ s'], rule exI[of _ es], rule exI[of _ "[]"])
     (use assms in \<open>auto simp: px_wait_def retried_def\<close>)

lemma moved_app:
  assumes "retried (px_senders p ! i) s'" "shouldRespondWithTooManyReqs S Ingress p = None"
  shows "moved S (Retry i d) i p (px_wait (App (To_send i))
    (incrementInflight S (p\<lparr>px_senders := (px_senders p)[i := s'], px_events := es\<rparr>)))"
  unfolding moved_def cont_def
  by (rule exI[of _ "App (To_send i)"], rule exI[of _ s'], rule exI[of _ es], rule exI[of _ "[]"])
     (use assms in \<open>auto simp: retried_def follows_def\<close>)

lemma send_moved:
  assumes "retried (px_senders p ! i) s'"
  shows "moved S (Retry i d) i p (send S i co (p\<lparr>px_senders := (px_senders p)[i := s'], px_events := es\<rparr>))"
  using assms by (auto simp: send_def follows_def intro!: moved_retry)

lemma handle_moved:
  assumes "retried (px_senders p ! i) s'"
  shows "moved S (Retry i d) i p
    (handleRequest S h body (To_send i) (p\<lparr>px_senders := (px_senders p)[i := s'], px_events := es\<rparr>))"
  using assms
  by (cases rule: handleRequest_cases[where S=S and h=h and body=body and cb="To_send i"
        and p="p\<lparr>px_senders := (px_senders p)[i := s'], px_events := es\<rparr>"])
     (auto simp: follows_def intro!: moved_retry moved_app)

lemma reroute_moved:
  assumes s1: "retried (px_senders p ! i) s1" and i: "i < length (px_senders p)"
  shows "moved S (Retry i d) i p
    (rerouteRetry S i newDest (p\<lparr>px_senders := (px_senders p)[i := s1], px_events := es\<rparr>))"
proof -
  have "retried (px_senders p ! i) (s1\<lparr>sn_destinations := ds\<rparr>)" for ds
    using s1 by (simp add: retried_def)
  note r = handle_moved[OF this] send_moved[OF this]
  show ?thesis
    unfolding rerouteRetry_def Let_def
    by (simp add: upd_sender_def px_emit_def i r)
qed

lemma attemptRetry_moved:
  assumes i: "i < length (px_senders p)"
  shows "moved S (Retry i d) i p (attemptRetry S i p)"
proof -
  let ?s = "(px_senders p ! i)\<lparr>sn_numRetries := Suc (sn_numRetries (px_senders p ! i))\<rparr>"
  let ?p1 = "p\<lparr>px_senders := (px_senders p)[i := ?s]\<rparr>"
  let ?q = "\<lambda>es. p\<lparr>px_senders := (px_senders p)[i := ?s], px_events := es\<rparr>"
  have r: "retried (px_senders p ! i) ?s" by (simp add: retried_def)
  have p1: "upd_sender i (\<lambda>s. s\<lparr>sn_numRetries := Suc (sn_numRetries s)\<rparr>) p = ?p1"
    by (simp add: upd_sender_def)
  have s1: "px_senders ?p1 ! i = ?s" using i by simp
  have q: "px_emit e ?p1 = ?q (px_events p @ [e])" for e by (simp add: px_emit_def)
  have ab: "moved S (Retry i d) i p (abortOnKeyDivergence i ds ?p1)" for ds
    unfolding abortOnKeyDivergence_def Let_def give.simps q
    by (rule moved_retry[OF r]) (simp_all add: follows_def)
  show ?thesis
    unfolding attemptRetry_def Let_def p1 s1 q
    using ab send_moved[OF r] reroute_moved[OF r i] by (simp split: if_splits)
qed

section \<open>Every step\<close>

text \<open>A new sender for the request \<^theory_text>\<open>r\<close>, waiting for its first piece of work.\<close>

definition opened :: "nat \<Rightarrow> proxy_opts \<Rightarrow> proxy \<Rightarrow> proxy \<Rightarrow> bool" where
  "opened r opts p p' \<longleftrightarrow>
    (\<exists>s w. p' = p\<lparr>px_senders := px_senders p @ [s], px_sends := px_sends p @ [length (px_senders p)],
                 px_work := px_work p @ [w]\<rparr> \<and>
       sid_of w = Some (length (px_senders p)) \<and> follows P_body (phase_of w) \<and>
       sn_response s = r \<and> sn_numRetries s = 0 \<and>
       sn_maxRetries s = (case o_maxRetries opts of Some m \<Rightarrow> m | None \<Rightarrow>
         (case px_maxRetries p of Some m \<Rightarrow> m | None \<Rightarrow>
           int (length (case o_retrySchedule opts of Some sc \<Rightarrow> sc | None \<Rightarrow>
             (case px_retrySchedule p of Some sc \<Rightarrow> sc | None \<Rightarrow> RETRY_SCHEDULE))))))"

lemma onBody_cases:
  obtains (failed) x where "onBody S r opts res p = px_write r x (decrementInflight p)"
  | (opened) "opened r opts p (onBody S r opts res p)"
proof (cases res)
  case (Inl e)
  then show ?thesis using failed by (simp add: onBody_def)
next
  case (Inr b)
  define i where "i = length (px_senders p)"
  define m where "m = (case o_maxRetries opts of Some m \<Rightarrow> Some m | None \<Rightarrow> px_maxRetries p)"
  define sc where "sc = (case o_retrySchedule opts of Some s \<Rightarrow> Some s | None \<Rightarrow> px_retrySchedule p)"
  obtain timeout endpoint where
    b: "onBody S r opts res p =
      (let s = new_sender r (o_keys opts) (o_dest opts) timeout endpoint (o_req opts) b m sc (o_skipLookupOnRetry opts);
           p1 = send S i (sender_opts s) (p\<lparr>px_senders := px_senders p @ [s]\<rparr>)
       in p1\<lparr>px_sends := px_sends p1 @ [i]\<rparr>)"
    unfolding Inr onBody_def i_def m_def sc_def sum.case Let_def by blast
  define s where "s = new_sender r (o_keys opts) (o_dest opts) timeout endpoint (o_req opts) b m sc (o_skipLookupOnRetry opts)"
  define w where "w = (if st_channelDestroyed S then Tick_destroyed i else Identify i (sender_opts s))"
  have "onBody S r opts res p = p\<lparr>px_senders := px_senders p @ [s], px_sends := px_sends p @ [i],
      px_work := px_work p @ [w]\<rparr>"
    unfolding b Let_def s_def[symmetric] by (simp add: send_def px_wait_def w_def)
  moreover have "sid_of w = Some i" "follows P_body (phase_of w)"
    by (simp_all add: w_def follows_def)
  moreover have "sn_response s = r" "sn_numRetries s = 0"
    by (simp_all add: s_def new_sender_def Let_def)
  moreover have "sn_maxRetries s = (case o_maxRetries opts of Some m \<Rightarrow> m | None \<Rightarrow>
         (case px_maxRetries p of Some m \<Rightarrow> m | None \<Rightarrow>
           int (length (case o_retrySchedule opts of Some sc \<Rightarrow> sc | None \<Rightarrow>
             (case px_retrySchedule p of Some sc \<Rightarrow> sc | None \<Rightarrow> RETRY_SCHEDULE)))))"
    by (cases "o_maxRetries opts"; cases "px_maxRetries p"; cases "o_retrySchedule opts"; cases "px_retrySchedule p")
       (simp_all add: s_def new_sender_def Let_def m_def sc_def)
  ultimately have "opened r opts p (onBody S r opts res p)"
    unfolding opened_def i_def by blast
  then show ?thesis by (rule opened)
qed

definition proxy_internal :: "px_in \<Rightarrow> bool" where
  "proxy_internal e \<longleftrightarrow> (\<forall>r opts. e \<noteq> In_request r opts) \<and> (\<forall>c h b. e \<noteq> In_forwarded c h b)"

lemma work_at_take:
  "work_at n p = Some v \<Longrightarrow>
   px_work p = take n (px_work p) @ v # drop (Suc n) (px_work p) \<and>
   px_work (take_out n p) = take n (px_work p) @ drop (Suc n) (px_work p)"
  by (auto simp: work_at_def take_out_def id_take_nth_drop split: if_splits)

lemma take_out_sel [simp]:
  "px_senders (take_out n p) = px_senders p" "px_written (take_out n p) = px_written p"
  "px_requests (take_out n p) = px_requests p" "px_inflight (take_out n p) = px_inflight p"
  "px_maxRetries (take_out n p) = px_maxRetries p" "px_retrySchedule (take_out n p) = px_retrySchedule p"
  "px_replied (take_out n p) = px_replied p" "px_miscounts (take_out n p) = px_miscounts p"
  by (simp_all add: take_out_def)

lemma step_internal_cases:
  assumes st: "px_step S e p = Some p'" and e: "proxy_internal e"
  obtains (body) n v r opts x where "work_at n p = Some v" "v = Body r opts"
      "p' = px_write r x (decrementInflight (take_out n p))"
  | (opened) n v r opts where "work_at n p = Some v" "v = Body r opts" "opened r opts (take_out n p) p'"
  | (moved) n v i where "work_at n p = Some v" "sid_of v = Some i" "phase_of v \<noteq> P_app"
      "i < length (px_senders p) \<Longrightarrow> moved S v i (take_out n p) p'"
  | (over) n v i res x where "work_at n p = Some v" "v = Tick_proxy i res"
      "p' = px_write (sn_response (px_senders p ! i)) x (decrementInflight (removeSend i (take_out n p)))"
  | (app) n v cb res where "work_at n p = Some v" "v = App cb"
      "p' = give cb res (decrementInflight (take_out n p))"
proof (cases e)
  case (In_body n res)
  with st obtain r opts where w: "work_at n p = Some (Body r opts)" and
    p': "p' = onBody S r opts res (take_out n p)"
    by (auto split: option.splits px_work.splits)
  show thesis
    by (cases rule: onBody_cases[where S=S and r=r and opts=opts and res=res and p="take_out n p"])
       (use w p' body opened in metis)+
next
  case (In_identified n err)
  with st obtain i co where w: "work_at n p = Some (Identify i co)" and
    p': "p' = onIdentified S i co err (take_out n p)"
    by (auto split: option.splits px_work.splits)
  show thesis by (rule moved[OF w]) (auto simp: p' intro: onIdentified_moved)
next
  case (In_reply n x)
  with st consider i where "work_at n p = Some (Reply i)" "p' = onSend i x (take_out n p)"
    | i where "work_at n p = Some (Reply_no_retries i)" "p' = onSendNoRetries i x (take_out n p)"
    by (auto split: option.splits px_work.splits)
  then show thesis
  proof cases
    case 1 show thesis by (rule moved[OF 1(1)]) (auto simp: 1(2) intro: onSend_moved)
  next
    case 2 show thesis by (rule moved[OF 2(1)]) (auto simp: 2(2) intro: onSendNoRetries_moved)
  qed
next
  case (In_timeout n)
  with st obtain i d where w: "work_at n p = Some (Retry i d)" and p': "p' = attemptRetry S i (take_out n p)"
    by (auto split: option.splits px_work.splits)
  show thesis by (rule moved[OF w]) (auto simp: p' intro: attemptRetry_moved)
next
  case (In_tick n)
  with st consider (d) i where "work_at n p = Some (Tick_destroyed i)"
      "p' = give (To_send i) (Inl ChannelDestroyedError) (take_out n p)"
    | (r) i res where "work_at n p = Some (Tick_reply i res)" "p' = give (To_send i) res (take_out n p)"
    | (o) i res where "work_at n p = Some (Tick_proxy i res)" "p' = onProxy i res (take_out n p)"
    by (auto simp del: give.simps split: option.splits px_work.splits)
  then show thesis
  proof cases
    case d show thesis by (rule moved[OF d(1)]) (auto simp: d(2) simp del: give.simps intro: tick_moved)
  next
    case r show thesis by (rule moved[OF r(1)]) (auto simp: r(2) simp del: give.simps intro: tick_moved)
  next
    case o
    obtain x where "onProxy i res (take_out n p) =
      px_write (sn_response (px_senders p ! i)) x (decrementInflight (removeSend i (take_out n p)))"
      by (cases res) (auto simp: onProxy_def Let_def)
    with o over show thesis by metis
  qed
next
  case (In_app n resp)
  with st obtain cb where w: "work_at n p = Some (App cb)" and p': "p' = onAppResponse cb resp (take_out n p)"
    by (auto simp del: give.simps split: option.splits px_work.splits)
  obtain res where "onAppResponse cb resp (take_out n p) = give cb res (decrementInflight (take_out n p))"
    by (cases resp) (auto simp: onAppResponse_def Let_def simp del: give.simps split: prod.splits)
  with w p' app show thesis by metis
qed (use e in \<open>auto simp: proxy_internal_def\<close>)

end
