(* ===== verification/Proxy_Inv.thy ===== *)
theory Proxy_Inv
  imports Proxy_Facts
begin

text \<open>
  The invariant of the request proxy, what a step does to the requests that are open, to the
  inflight counter, and to the bound on the steps that are left.
\<close>

section \<open>Definitions\<close>

definition made :: "proxy \<Rightarrow> nat \<Rightarrow> nat" where
  "made p i = count_list (map fst (px_requests p)) i"

text \<open>A piece of work whose sender exists, has retries left, has made its requests.\<close>

definition work_ok :: "sender list \<Rightarrow> (nat \<Rightarrow> nat) \<Rightarrow> px_work \<Rightarrow> bool" where
  "work_ok ss mk w \<longleftrightarrow>
    (case sid_of w of None \<Rightarrow> True | Some i \<Rightarrow>
       i < length ss \<and>
       (phase_of w = P_retry \<longrightarrow> int (sn_numRetries (ss ! i)) < sn_maxRetries (ss ! i)) \<and>
       (phase_of w = P_identify \<longrightarrow> mk i \<le> sn_numRetries (ss ! i)))"

definition px_inv :: "proxy \<Rightarrow> bool" where
  "px_inv p \<longleftrightarrow>
    (\<forall>w \<in> set (px_work p). work_ok (px_senders p) (made p) w) \<and> distinct (sids (px_work p)) \<and>
    (\<forall>s \<in> set (px_senders p). int (sn_numRetries s) \<le> max 0 (sn_maxRetries s)) \<and>
    (\<forall>q \<in> set (px_requests p). fst q < length (px_senders p)) \<and>
    (\<forall>i < length (px_senders p). made p i \<le> Suc (sn_numRetries (px_senders p ! i)))"

text \<open>The response a piece of work will end.\<close>

definition rid_of :: "sender list \<Rightarrow> px_work \<Rightarrow> nat option" where
  "rid_of ss w = (case w of Body r opts \<Rightarrow> Some r | _ \<Rightarrow> map_option (\<lambda>i. sn_response (ss ! i)) (sid_of w))"

definition under_way :: "nat \<Rightarrow> proxy \<Rightarrow> nat" where
  "under_way r p = length [w \<leftarrow> px_work p. rid_of (px_senders p) w = Some r]"

definition answers :: "nat \<Rightarrow> proxy \<Rightarrow> nat" where
  "answers r p = count_list (map fst (px_written p)) r"

text \<open>A request forwarded here and run here is inflight twice: once going out, once coming in.\<close>

fun weight :: "px_work \<Rightarrow> int" where
  "weight (App (To_send i)) = 2"
| "weight w = 1"

definition inflight_requests :: "proxy \<Rightarrow> int" where
  "inflight_requests p = sum_list (map weight (px_work p))"

section \<open>The pieces of a step\<close>

lemma movedE:
  assumes "moved S v i q p'"
  obtains w s' new where
    "sid_of w = Some i" "follows (phase_of v) (phase_of w)"
    "px_work p' = px_work q @ [w]" "px_senders p' = (px_senders q)[i := s']"
    "px_written p' = px_written q" "px_replied p' = px_replied q" "px_requests p' = px_requests q @ new"
    "px_maxRetries p' = px_maxRetries q" "px_retrySchedule p' = px_retrySchedule q"
    "phase_of w \<noteq> P_app \<Longrightarrow> px_inflight p' = px_inflight q \<and> px_miscounts p' = px_miscounts q"
    "phase_of w = P_app \<Longrightarrow> shouldRespondWithTooManyReqs S Ingress q = None \<and>
       px_inflight p' = px_inflight (incrementInflight S q) \<and> px_miscounts p' = px_miscounts (incrementInflight S q)"
    "sn_response s' = sn_response (px_senders q ! i)"
    "sn_maxRetries s' = sn_maxRetries (px_senders q ! i)"
    "sn_numRetries s' = sn_numRetries (px_senders q ! i) + (if phase_of v = P_retry then 1 else 0)"
    "map fst new = (if phase_of w = P_reply \<or> phase_of w = P_reply_once then [i] else [])"
    "phase_of w = P_retry \<longrightarrow> int (sn_numRetries s') < sn_maxRetries s'"
proof -
  from assms obtain w s' es new where
    p': "p' = cont S i w s' es (px_requests q @ new) q" and
    a: "sid_of w = Some i" "follows (phase_of v) (phase_of w)"
    "sn_response s' = sn_response (px_senders q ! i)"
    "sn_maxRetries s' = sn_maxRetries (px_senders q ! i)"
    "sn_numRetries s' = sn_numRetries (px_senders q ! i) + (if phase_of v = P_retry then 1 else 0)"
    "map fst new = (if phase_of w = P_reply \<or> phase_of w = P_reply_once then [i] else [])"
    "phase_of w = P_retry \<longrightarrow> int (sn_numRetries s') < sn_maxRetries s'" and
    r: "phase_of w = P_app \<longrightarrow> shouldRespondWithTooManyReqs S Ingress q = None"
    unfolding moved_def by auto
  show thesis
    by (rule that[OF a(1,2) _ _ _ _ _ _ _ _ _ a(3-6)])
       (use r a(7) in \<open>auto simp: p' cont_def px_wait_def incrementInflight_def Let_def\<close>)
qed

lemma count_fst_append:
  "count_list (map fst (xs @ ys)) a = count_list (map fst xs) a + count_list (map fst ys) a"
  by (induction xs) auto

lemma dec_sel [simp]:
  "px_work (decrementInflight p) = px_work p" "px_senders (decrementInflight p) = px_senders p"
  "px_written (decrementInflight p) = px_written p" "px_requests (decrementInflight p) = px_requests p"
  "px_maxRetries (decrementInflight p) = px_maxRetries p" "px_replied (decrementInflight p) = px_replied p"
  "px_retrySchedule (decrementInflight p) = px_retrySchedule p"
  by (simp_all add: decrementInflight_def Let_def)

lemma inc_sel [simp]:
  "px_work (incrementInflight S p) = px_work p" "px_senders (incrementInflight S p) = px_senders p"
  "px_written (incrementInflight S p) = px_written p" "px_requests (incrementInflight S p) = px_requests p"
  "px_maxRetries (incrementInflight S p) = px_maxRetries p" "px_replied (incrementInflight S p) = px_replied p"
  "px_retrySchedule (incrementInflight S p) = px_retrySchedule p"
  by (simp_all add: incrementInflight_def Let_def)

lemma wait_sel [simp]:
  "px_work (px_wait w p) = px_work p @ [w]" "px_senders (px_wait w p) = px_senders p"
  "px_written (px_wait w p) = px_written p" "px_requests (px_wait w p) = px_requests p"
  "px_maxRetries (px_wait w p) = px_maxRetries p" "px_inflight (px_wait w p) = px_inflight p"
  "px_miscounts (px_wait w p) = px_miscounts p" "px_replied (px_wait w p) = px_replied p"
  "px_retrySchedule (px_wait w p) = px_retrySchedule p"
  by (simp_all add: px_wait_def)

lemma write_sel [simp]:
  "px_work (px_write r x p) = px_work p" "px_senders (px_write r x p) = px_senders p"
  "px_written (px_write r x p) = px_written p @ [(r, x)]" "px_requests (px_write r x p) = px_requests p"
  "px_maxRetries (px_write r x p) = px_maxRetries p" "px_inflight (px_write r x p) = px_inflight p"
  "px_miscounts (px_write r x p) = px_miscounts p" "px_replied (px_write r x p) = px_replied p"
  "px_retrySchedule (px_write r x p) = px_retrySchedule p"
  by (simp_all add: px_write_def)

lemma give_sel [simp]:
  "px_senders (give cb res p) = px_senders p" "px_written (give cb res p) = px_written p"
  "px_requests (give cb res p) = px_requests p" "px_maxRetries (give cb res p) = px_maxRetries p"
  "px_inflight (give cb res p) = px_inflight p" "px_miscounts (give cb res p) = px_miscounts p"
  "px_retrySchedule (give cb res p) = px_retrySchedule p"
  by (cases cb; simp)+

lemma destroy_sel [simp]:
  "px_senders (sender_destroy i p) = px_senders p" "px_written (sender_destroy i p) = px_written p"
  "px_requests (sender_destroy i p) = px_requests p" "px_maxRetries (sender_destroy i p) = px_maxRetries p"
  "px_inflight (sender_destroy i p) = px_inflight p" "px_miscounts (sender_destroy i p) = px_miscounts p"
  "px_retrySchedule (sender_destroy i p) = px_retrySchedule p" "px_replied (sender_destroy i p) = px_replied p"
  by (simp_all add: sender_destroy_def)

lemma remove_sel [simp]:
  "px_senders (removeSend i p) = px_senders p" "px_written (removeSend i p) = px_written p"
  "px_requests (removeSend i p) = px_requests p" "px_maxRetries (removeSend i p) = px_maxRetries p"
  "px_inflight (removeSend i p) = px_inflight p" "px_miscounts (removeSend i p) = px_miscounts p"
  "px_retrySchedule (removeSend i p) = px_retrySchedule p" "px_replied (removeSend i p) = px_replied p"
  by (simp_all add: removeSend_def)

text \<open>A sender that waits for nothing else has no retry to clear.\<close>

lemma retry_of_sid: "retry_of i w \<Longrightarrow> sid_of w = Some i"
  by (cases w) auto

lemma removeSend_work:
  assumes "i \<notin> set (sids (px_work p))"
  shows "px_work (removeSend i p) = px_work p"
proof -
  have "\<forall>w \<in> set (px_work p). \<not> retry_of i w"
    using assms retry_of_sid unfolding set_sids by blast
  then show ?thesis by (simp add: removeSend_def sender_destroy_def filter_id_conv)
qed

lemma sids_out:
  assumes "distinct (sids (us @ v # vs))" "sid_of v = Some i"
  shows "i \<notin> set (sids (us @ vs))" "distinct (sids (us @ vs))"
  using assms by auto

section \<open>The invariant is kept\<close>

lemma px_invD:
  assumes "px_inv p"
  shows "w \<in> set (px_work p) \<Longrightarrow> work_ok (px_senders p) (made p) w"
    "distinct (sids (px_work p))"
    "i < length (px_senders p) \<Longrightarrow> int (sn_numRetries (px_senders p ! i)) \<le> max 0 (sn_maxRetries (px_senders p ! i))"
    "q \<in> set (px_requests p) \<Longrightarrow> fst q < length (px_senders p)"
    "i < length (px_senders p) \<Longrightarrow> made p i \<le> Suc (sn_numRetries (px_senders p ! i))"
  using assms unfolding px_inv_def by (blast intro: nth_mem)+

lemma work_ok_other:
  assumes "work_ok ss mk w" "\<And>j. sid_of w = Some j \<Longrightarrow> j < length ss \<Longrightarrow> j < length ss' \<and> ss' ! j = ss ! j \<and> mk' j = mk j"
  shows "work_ok ss' mk' w"
  using assms by (auto simp: work_ok_def split: option.splits)

lemma work_ok_sid: "work_ok ss mk w \<Longrightarrow> sid_of w = Some i \<Longrightarrow> i < length ss"
  by (simp add: work_ok_def)

lemma inv_take_out:
  assumes inv: "px_inv p" and v: "work_at n p = Some v"
  shows "px_inv (take_out n p)"
proof -
  note w = work_at_take[OF v]
  have "set (px_work (take_out n p)) \<subseteq> set (px_work p)"
    using w by (metis (no_types, lifting) Un_iff list.set_intros(2) set_append subsetI)
  moreover have "distinct (sids (px_work (take_out n p)))"
    using px_invD(2)[OF inv] w by (cases "sid_of v") (metis distinct_append sids_simps(2,3) option.case distinct.simps(2) set_simps(2) disjoint_insert(1) inf_commute)+
  moreover have "made (take_out n p) = made p" by (simp add: made_def fun_eq_iff)
  ultimately show ?thesis using inv unfolding px_inv_def by auto
qed

lemma sid_unique:
  assumes inv: "px_inv p" and v: "work_at n p = Some v" "sid_of v = Some i"
  shows "i \<notin> set (sids (px_work (take_out n p)))"
proof -
  note w = work_at_take[OF v(1)]
  have "distinct (sids (take n (px_work p) @ v # drop (Suc n) (px_work p)))"
    using px_invD(2)[OF inv] w by metis
  from sids_out(1)[OF this v(2)] show ?thesis using w by metis
qed

text \<open>Changing everything that is not work, sender or request keeps the invariant.\<close>

lemma inv_cong:
  assumes "px_work p' = px_work p" "px_senders p' = px_senders p" "px_requests p' = px_requests p"
  shows "px_inv p' \<longleftrightarrow> px_inv p"
proof -
  have "made p' = made p" using assms by (simp add: made_def fun_eq_iff)
  then show ?thesis using assms by (simp add: px_inv_def)
qed

lemma inv_wait:
  assumes "px_inv p" "work_ok (px_senders p) (made p) w" "sid_of w = None \<or> (\<exists>i. sid_of w = Some i \<and> i \<notin> set (sids (px_work p)))"
  shows "px_inv (px_wait w p)"
proof -
  have "made (px_wait w p) = made p" by (simp add: made_def fun_eq_iff)
  moreover have "distinct (sids (px_work p @ [w]))"
    using assms(1,3) by (auto simp: px_inv_def)
  ultimately show ?thesis using assms unfolding px_inv_def by auto
qed

lemma inv_moved:
  assumes inv: "px_inv q" and m: "moved S v i q p'" and i: "i < length (px_senders q)"
    and out: "i \<notin> set (sids (px_work q))"
    and v: "phase_of v = P_identify \<Longrightarrow> made q i \<le> sn_numRetries (px_senders q ! i)"
    and vr: "phase_of v = P_retry \<Longrightarrow> int (sn_numRetries (px_senders q ! i)) < sn_maxRetries (px_senders q ! i)"
    and nb: "phase_of v \<noteq> P_body"
  shows "px_inv p'"
proof -
  from m obtain w s' new where
    a: "sid_of w = Some i" "follows (phase_of v) (phase_of w)"
    "px_work p' = px_work q @ [w]" "px_senders p' = (px_senders q)[i := s']"
    "px_requests p' = px_requests q @ new"
    "sn_maxRetries s' = sn_maxRetries (px_senders q ! i)"
    "sn_numRetries s' = sn_numRetries (px_senders q ! i) + (if phase_of v = P_retry then 1 else 0)"
    "map fst new = (if phase_of w = P_reply \<or> phase_of w = P_reply_once then [i] else [])"
    and b: "phase_of w = P_retry \<longrightarrow> int (sn_numRetries s') < sn_maxRetries s'"
    by (rule movedE) (rule that; assumption)
  have mk: "made p' j = made q j" if "j \<noteq> i" for j
    using a(5,8) that by (auto simp: made_def count_fst_append)
  have mki: "made p' i = made q i + (if phase_of w = P_reply \<or> phase_of w = P_reply_once then 1 else 0)"
    using a(5,8) by (auto simp: made_def count_fst_append)
  have fo: "phase_of w = P_reply \<or> phase_of w = P_reply_once \<Longrightarrow> phase_of v = P_identify"
    "phase_of w = P_identify \<Longrightarrow> phase_of v = P_retry"
    using a(2) nb by (auto simp: follows_def)
  have old: "work_ok (px_senders p') (made p') u" if u: "u \<in> set (px_work q)" for u
  proof (rule work_ok_other[OF px_invD(1)[OF inv u]])
    fix j assume "sid_of u = Some j" "j < length (px_senders q)"
    moreover from this u out have "j \<noteq> i" unfolding set_sids by blast
    ultimately show "j < length (px_senders p') \<and> px_senders p' ! j = px_senders q ! j \<and> made p' j = made q j"
      using a(4) mk by simp
  qed
  have bound: "made q i \<le> Suc (sn_numRetries (px_senders q ! i))" using px_invD(5)[OF inv i] .
  have sel: "px_senders p' ! i = s'" using a(4) i by simp
  have "made p' i \<le> sn_numRetries s'" if "phase_of w = P_identify"
    using fo(2)[OF that] that bound mki a(7) by simp
  then have new: "work_ok (px_senders p') (made p') w"
    unfolding work_ok_def a(1) using b i sel a(4) by simp
  have nm: "int (sn_numRetries s') \<le> max 0 (sn_maxRetries s')"
    using px_invD(3)[OF inv i] vr a(6,7) by (auto split: if_splits)
  have "set (px_senders p') \<subseteq> insert s' (set (px_senders q))" unfolding a(4) by (rule set_update_subset_insert)
  then have s: "\<forall>s \<in> set (px_senders p'). int (sn_numRetries s) \<le> max 0 (sn_maxRetries s)"
    using inv nm unfolding px_inv_def by blast
  have m': "made p' j \<le> Suc (sn_numRetries (px_senders p' ! j))" if "j < length (px_senders p')" for j
  proof (cases "j = i")
    case True
    then show ?thesis using mki bound sel a(7) v fo(1) by (auto split: if_splits)
  next
    case False
    then show ?thesis using that mk px_invD(5)[OF inv] a(4) by simp
  qed
  have "fst x < length (px_senders p')" if "x \<in> set (px_requests p')" for x
  proof -
    from that a(5) consider "x \<in> set (px_requests q)" | "fst x \<in> set (map fst new)" by auto
    then show ?thesis
    proof cases
      case 1
      then show ?thesis using px_invD(4)[OF inv 1] a(4) by simp
    next
      case 2
      then have "fst x = i" using a(8) by (simp split: if_splits)
      then show ?thesis using a(4) i by simp
    qed
  qed
  moreover have "distinct (sids (px_work p'))" using a(1,3) out px_invD(2)[OF inv] by simp
  moreover have "\<forall>u \<in> set (px_work p'). work_ok (px_senders p') (made p') u" using old new a(3) by simp
  ultimately show ?thesis using s m' unfolding px_inv_def by blast
qed

lemma inv_opened:
  assumes inv: "px_inv q" and o: "opened r opts q p'"
  shows "px_inv p'"
proof -
  let ?n = "length (px_senders q)"
  from o obtain s w where p': "px_work p' = px_work q @ [w]" "px_senders p' = px_senders q @ [s]"
      "px_requests p' = px_requests q" and
    w: "sid_of w = Some ?n" "follows P_body (phase_of w)" "sn_numRetries s = 0"
    unfolding opened_def by auto
  have mk: "made p' = made q" using p' by (simp add: made_def fun_eq_iff)
  have z: "made q ?n = 0"
    unfolding made_def count_list_0_iff using px_invD(4)[OF inv] by (metis (no_types, lifting) imageE list.set_map nat_less_le)
  have out: "?n \<notin> set (sids (px_work q))"
    unfolding set_sids using px_invD(1)[OF inv] work_ok_sid by blast
  have "work_ok (px_senders p') (made p') u" if "u \<in> set (px_work q)" for u
    by (rule work_ok_other[OF px_invD(1)[OF inv that]]) (use p' mk in \<open>auto simp: nth_append\<close>)
  moreover have "work_ok (px_senders p') (made p') w"
    using w p' z mk by (auto simp: work_ok_def follows_def)
  moreover have "distinct (sids (px_work p'))" using p' w out px_invD(2)[OF inv] by simp
  moreover have "\<forall>s \<in> set (px_senders p'). int (sn_numRetries s) \<le> max 0 (sn_maxRetries s)"
    using p' w inv unfolding px_inv_def by auto
  moreover have "\<forall>x \<in> set (px_requests p'). fst x < length (px_senders p')"
    using px_invD(4)[OF inv] p' by (auto simp: less_Suc_eq)
  moreover have "\<forall>i < length (px_senders p'). made p' i \<le> Suc (sn_numRetries (px_senders p' ! i))"
    using px_invD(5)[OF inv] p' z mk by (auto simp: less_Suc_eq nth_append)
  ultimately show ?thesis using p' unfolding px_inv_def by auto
qed

lemma inv_step:
  assumes inv: "px_inv p" and st: "px_step S e p = Some p'"
  shows "px_inv p'"
proof (cases "proxy_internal e")
  case False
  then consider r opts where "e = In_request r opts" | c h b where "e = In_forwarded c h b"
    unfolding proxy_internal_def by auto
  then show ?thesis
  proof cases
    case 1
    then show ?thesis
      using st inv inv_cong[of "incrementInflight S p" p] inv_cong[of "px_write r x p" p for x]
      by (auto simp: proxyReq_def work_ok_def intro!: inv_wait split: option.splits)
  next
    case 2
    have g: "px_inv (give (To_channel c) res (p\<lparr>px_events := es\<rparr>))" for res es
      using inv inv_cong[of "give (To_channel c) res (p\<lparr>px_events := es\<rparr>)" p] by simp
    have r: "px_inv (px_wait (App (To_channel c)) (incrementInflight S (p\<lparr>px_events := es\<rparr>)))" for es
      using inv inv_cong[of "incrementInflight S (p\<lparr>px_events := es\<rparr>)" p]
      by (auto simp: work_ok_def intro!: inv_wait)
    show ?thesis
    proof (cases h)
      case None
      then show ?thesis using st 2 inv inv_cong[of p' p] by (auto simp: handleProxyReq_def)
    next
      case (Some hd)
      then have "p' = handleRequest S hd b (To_channel c) p" using st 2 by (simp add: handleProxyReq_def)
      then show ?thesis
        by (cases rule: handleRequest_cases[where S=S and h=hd and body=b and cb="To_channel c" and p=p])
           (simp_all only: g r)
    qed
  qed
next
  case True
  from st True show ?thesis
  proof (cases rule: step_internal_cases)
    case (body n v r opts x)
    then show ?thesis using inv_take_out[OF inv body(1)] inv_cong[of p' "take_out n p"] by simp
  next
    case (opened n v r opts)
    then show ?thesis using inv_take_out[OF inv] inv_opened by blast
  next
    case (moved n v i)
    note q = inv_take_out[OF inv moved(1)]
    have "v \<in> set (px_work p)" using work_at_take[OF moved(1)] by (metis in_set_conv_decomp)
    then have ok: "work_ok (px_senders p) (made p) v" using px_invD(1)[OF inv] by blast
    have i: "i < length (px_senders (take_out n p))" using work_ok_sid[OF ok moved(2)] by simp
    have mk: "made (take_out n p) = made p" by (simp add: made_def fun_eq_iff)
    have "phase_of v \<noteq> P_body" using moved(2) by (cases v) auto
    then show ?thesis
      using inv_moved[OF q moved(4)[OF work_ok_sid[OF ok moved(2)]] i sid_unique[OF inv moved(1,2)]] ok moved(2) mk
      unfolding work_ok_def by simp
  next
    case (over n v i res x)
    note q = inv_take_out[OF inv over(1)]
    have "i \<notin> set (sids (px_work (take_out n p)))" using sid_unique[OF inv over(1)] over(2) by simp
    then show ?thesis
      using q over(3) removeSend_work[of i "take_out n p"] inv_cong[of p' "take_out n p"] by simp
  next
    case (app n v cb res)
    let ?q = "decrementInflight (take_out n p)"
    have q: "px_inv ?q" using inv_take_out[OF inv app(1)] inv_cong[of ?q "take_out n p"] by simp
    show ?thesis
    proof (cases cb)
      case (To_channel c)
      then show ?thesis using q app(3) inv_cong[of p' ?q] by simp
    next
      case (To_send i)
      have "i \<notin> set (sids (px_work (take_out n p)))" using sid_unique[OF inv app(1)] app(2) To_send by simp
      moreover have "i < length (px_senders p)"
        using px_invD(1)[OF inv, of v] work_ok_sid[of _ _ v i] app(2) To_send work_at_take[OF app(1)]
        by (metis in_set_conv_decomp sid_of.simps(9))
      ultimately show ?thesis using q app(3) To_send by (auto intro!: inv_wait simp: work_ok_def)
    qed
  qed
qed

lemma inv_new: "px_inv (new_proxy sc mr ec ek)"
  by (simp add: px_inv_def new_proxy_def made_def)

lemma inv_run: "px_run es p = Some p' \<Longrightarrow> px_inv p \<Longrightarrow> px_inv p'"
  by (induction es p rule: px_run.induct) (auto split: option.splits intro: inv_step)

section \<open>What a step does to a sum over the work\<close>

text \<open>The work of a state in which one piece was done, as seen by a sum over the work.\<close>

lemma sum_out:
  assumes "work_at n p = Some v"
  shows "sum_list (map f (px_work p)) = f v + (sum_list (map f (px_work (take_out n p))) :: 'a :: comm_monoid_add)"
proof -
  note w = work_at_take[OF assms]
  have "map f (px_work p) = map f (take n (px_work p)) @ f v # map f (drop (Suc n) (px_work p))"
    using w by (metis list.simps(9) map_append)
  moreover have "map f (px_work (take_out n p)) = map f (take n (px_work p)) @ map f (drop (Suc n) (px_work p))"
    using w by (metis map_append)
  ultimately show ?thesis by (simp add: ac_simps)
qed

definition is_for :: "nat \<Rightarrow> sender list \<Rightarrow> px_work \<Rightarrow> nat" where
  "is_for r ss w = (if rid_of ss w = Some r then 1 else 0)"

lemma under_way_sum: "under_way r p = sum_list (map (is_for r (px_senders p)) (px_work p))"
proof -
  have "length [w \<leftarrow> ws. rid_of ss w = Some r] = sum_list (map (is_for r ss) ws)" for ws ss
    by (induction ws) (simp_all add: is_for_def)
  then show ?thesis by (simp add: under_way_def)
qed

lemma rid_of_sid: "sid_of w = Some i \<Longrightarrow> rid_of ss w = Some (sn_response (ss ! i))"
  by (cases w) (auto simp: rid_of_def)

lemma rid_of_cong:
  "(\<And>i. sid_of w = Some i \<Longrightarrow> sn_response (ss' ! i) = sn_response (ss ! i)) \<Longrightarrow> rid_of ss' w = rid_of ss w"
  by (cases w; cases "sid_of w") (auto simp: rid_of_def)

lemma answers_write: "answers r (px_write r' x p) = answers r p + (if r' = r then 1 else 0)"
  by (simp add: answers_def count_fst_append)

text \<open>What holds of all the senders of the work that stays, when one sender is replaced.\<close>

lemma sum_others:
  assumes out: "i \<notin> set (sids ws)"
    and same: "\<And>w j. sid_of w = Some j \<Longrightarrow> j \<noteq> i \<Longrightarrow> f w = g w" "\<And>w. sid_of w = None \<Longrightarrow> f w = g w"
  shows "sum_list (map f ws) = sum_list (map g ws)"
proof -
  have "f w = g w" if "w \<in> set ws" for w
    using that out same by (cases "sid_of w") (auto simp: set_sids)
  then show ?thesis by (metis map_cong)
qed

lemma moved_place:
  assumes inv: "px_inv p" and v: "work_at n p = Some v" "sid_of v = Some i"
  shows "i < length (px_senders p)" "i < length (px_senders (take_out n p))"
proof -
  have "v \<in> set (px_work p)" using work_at_take[OF v(1)] by (metis in_set_conv_decomp)
  then show "i < length (px_senders p)" using px_invD(1)[OF inv] work_ok_sid v(2) by blast
  then show "i < length (px_senders (take_out n p))" by simp
qed

lemma account_step:
  assumes inv: "px_inv p" and st: "px_step S e p = Some p'" and e: "proxy_internal e"
  shows "answers r p' + under_way r p' = answers r p + under_way r p"
  using st e
proof (cases rule: step_internal_cases)
  case (body n v r' opts x)
  have "is_for r (px_senders p) v = (if r' = r then 1 else 0)"
    using body(2) by (simp add: is_for_def rid_of_def)
  then show ?thesis
    using body(3) sum_out[OF body(1), of "is_for r (px_senders p)"]
    by (simp add: under_way_sum answers_write) (simp add: answers_def)
next
  case (opened n v r' opts)
  let ?q = "take_out n p"
  from opened(3) obtain s w where p': "px_work p' = px_work ?q @ [w]" "px_senders p' = px_senders ?q @ [s]"
      "px_written p' = px_written ?q" and
    w: "sid_of w = Some (length (px_senders ?q))" "sn_response s = r'"
    unfolding opened_def by auto
  have q: "px_inv ?q" by (rule inv_take_out[OF inv opened(1)])
  have "is_for r (px_senders p') u = is_for r (px_senders p) u" if "u \<in> set (px_work ?q)" for u
  proof -
    have "rid_of (px_senders p') u = rid_of (px_senders p) u"
      by (rule rid_of_cong) (use work_ok_sid[OF px_invD(1)[OF q that]] p' in \<open>auto simp: nth_append\<close>)
    then show ?thesis by (simp add: is_for_def)
  qed
  then have "map (is_for r (px_senders p')) (px_work ?q) = map (is_for r (px_senders p)) (px_work ?q)"
    by (intro map_cong) auto
  then have "sum_list (map (is_for r (px_senders p')) (px_work ?q)) = sum_list (map (is_for r (px_senders p)) (px_work ?q))"
    by (rule arg_cong)
  moreover have "is_for r (px_senders p') w = is_for r (px_senders p) v"
    using w p' opened(2) by (simp add: is_for_def rid_of_sid[OF w(1)]) (simp add: rid_of_def)
  ultimately show ?thesis
    using sum_out[OF opened(1), of "is_for r (px_senders p)"] p'(3)
    unfolding under_way_sum p'(1) map_append sum_list_append answers_def by simp
next
  case (moved n v i)
  let ?q = "take_out n p"
  note i = moved_place[OF inv moved(1,2)]
  from moved(4)[OF i(1)] obtain w s' where
    a: "sid_of w = Some i" "px_work p' = px_work ?q @ [w]" "px_senders p' = (px_senders ?q)[i := s']"
    "px_written p' = px_written ?q" "sn_response s' = sn_response (px_senders ?q ! i)"
    by (rule movedE) (rule that; assumption)
  have "rid_of (px_senders p') u = rid_of (px_senders p) u" for u
    by (rule rid_of_cong) (use a i in \<open>auto simp: nth_list_update\<close>)
  then have eq: "is_for r (px_senders p') = is_for r (px_senders p)" by (simp add: is_for_def fun_eq_iff)
  have "is_for r (px_senders p) w = is_for r (px_senders p) v"
    using rid_of_sid[OF a(1)] rid_of_sid[OF moved(2)] by (simp add: is_for_def)
  then show ?thesis
    using a(2,4) sum_out[OF moved(1), of "is_for r (px_senders p)"] eq
    by (simp add: under_way_sum answers_def)
next
  case (over n v i res x)
  have "i \<notin> set (sids (px_work (take_out n p)))" using sid_unique[OF inv over(1)] over(2) by simp
  note rw = removeSend_work[OF this]
  have "is_for r (px_senders p) v = (if sn_response (px_senders p ! i) = r then 1 else 0)"
    using over(2) by (simp add: is_for_def rid_of_def)
  then show ?thesis
    using over(3) sum_out[OF over(1), of "is_for r (px_senders p)"] rw
    by (simp add: under_way_sum answers_write) (simp add: answers_def)
next
  case (app n v cb res)
  show ?thesis
  proof (cases cb)
    case (To_send i)
    then have "is_for r (px_senders p) v = is_for r (px_senders p) (Tick_proxy i res)"
      using app(2) by (simp add: is_for_def rid_of_def)
    then show ?thesis
      using app(3) sum_out[OF app(1), of "is_for r (px_senders p)"] To_send
      by (simp add: under_way_sum answers_def)
  next
    case (To_channel c)
    then have "is_for r (px_senders p) v = 0" using app(2) by (simp add: is_for_def rid_of_def)
    then show ?thesis
      using app(3) sum_out[OF app(1), of "is_for r (px_senders p)"] To_channel
      by (simp add: under_way_sum answers_def)
  qed
qed

section \<open>The inflight counter\<close>

text \<open>The counter is right: it never had to be corrected, and respects the limit.\<close>

definition balanced :: "int \<Rightarrow> proxy \<Rightarrow> bool" where
  "balanced limit p \<longleftrightarrow> px_inflight p = inflight_requests p \<and> px_inflight p \<le> limit \<and> px_miscounts p = 0"

lemma weight_pos: "1 \<le> weight w"
  by (cases w rule: weight.cases) simp_all

lemma inflight_nonneg: "0 \<le> inflight_requests p"
proof -
  have "0 \<le> sum_list (map weight ws)" for ws
  proof (induction ws)
    case (Cons w ws)
    then show ?case using weight_pos[of w] by simp
  qed simp
  then show ?thesis by (simp add: inflight_requests_def)
qed

lemma weight_one: "phase_of w \<noteq> P_app \<Longrightarrow> weight w = 1"
  by (cases w) auto

lemma inc_balanced:
  assumes "px_inflight p \<le> limit" "c_backpressureEnabled (st_config S)" "c_maxInflightRequests (st_config S) = limit"
    "shouldRespondWithTooManyReqs S d p = None"
  shows "px_inflight (incrementInflight S p) = px_inflight p + 1" "px_inflight p + 1 \<le> limit"
    "px_miscounts (incrementInflight S p) = px_miscounts p"
  using assms
  by (auto simp: incrementInflight_def shouldRespondWithTooManyReqs_def hasExceededMaxInflightRequests_def Let_def
      split: if_splits)

lemma dec_balanced:
  assumes "1 \<le> px_inflight p"
  shows "px_inflight (decrementInflight p) = px_inflight p - 1"
    "px_miscounts (decrementInflight p) = px_miscounts p"
  using assms by (simp_all add: decrementInflight_def Let_def)

lemma under_way_weight:
  "work_at n p = Some v \<Longrightarrow> inflight_requests p = weight v + inflight_requests (take_out n p)"
  unfolding inflight_requests_def by (rule sum_out)

lemma balanced_step:
  assumes inv: "px_inv p" and st: "px_step S e p = Some p'" and b: "balanced limit p"
    and S: "c_backpressureEnabled (st_config S)" "c_maxInflightRequests (st_config S) = limit"
  shows "balanced limit p'"
proof (cases "proxy_internal e")
  case False
  then consider r opts where "e = In_request r opts" | c h bd where "e = In_forwarded c h bd"
    unfolding proxy_internal_def by auto
  then show ?thesis
  proof cases
    case 1
    then show ?thesis
      using st b inc_balanced[OF _ S, of p Egress]
      by (auto simp: proxyReq_def balanced_def inflight_requests_def split: option.splits)
  next
    case 2
    have g: "balanced limit (give (To_channel c) res (p\<lparr>px_events := es\<rparr>))" for res es
      using b by (simp add: balanced_def inflight_requests_def)
    have r: "balanced limit (px_wait (App (To_channel c)) (incrementInflight S (p\<lparr>px_events := es\<rparr>)))"
      if "shouldRespondWithTooManyReqs S Ingress p = None" for es
      using b inc_balanced[OF _ S, of "p\<lparr>px_events := es\<rparr>" Ingress] that
      by (simp add: balanced_def inflight_requests_def)
    show ?thesis
    proof (cases h)
      case None
      then show ?thesis using st 2 b by (auto simp: handleProxyReq_def balanced_def inflight_requests_def)
    next
      case (Some hd)
      then have "p' = handleRequest S hd bd (To_channel c) p" using st 2 by (simp add: handleProxyReq_def)
      then show ?thesis
        by (cases rule: handleRequest_cases[where S=S and h=hd and body=bd and cb="To_channel c" and p=p])
           (simp_all only: g r)
    qed
  qed
next
  case True
  have one: "1 \<le> px_inflight p" if "work_at n p = Some v" for n v
    using b under_way_weight[OF that] weight_pos[of v] inflight_nonneg[of "take_out n p"]
    by (simp add: balanced_def)
  from st True show ?thesis
  proof (cases rule: step_internal_cases)
    case (body n v r opts x)
    then show ?thesis
      using b under_way_weight[OF body(1)] dec_balanced[of "take_out n p"] one[OF body(1)]
      by (simp add: balanced_def inflight_requests_def)
  next
    case (opened n v r opts)
    then obtain s w where p': "px_work p' = px_work (take_out n p) @ [w]" "px_inflight p' = px_inflight p"
      "px_miscounts p' = px_miscounts p" and "follows P_body (phase_of w)"
      unfolding opened_def by auto
    then have "phase_of w \<noteq> P_app" by (auto simp: follows_def)
    then show ?thesis
      using p' b under_way_weight[OF opened(1)] opened(2) weight_one[of w]
      by (simp add: balanced_def inflight_requests_def)
  next
    case (moved n v i)
    let ?q = "take_out n p"
    from moved(4)[OF moved_place(1)[OF inv moved(1,2)]] obtain w where
      a: "px_work p' = px_work ?q @ [w]" "sid_of w = Some i"
      "phase_of w \<noteq> P_app \<Longrightarrow> px_inflight p' = px_inflight ?q \<and> px_miscounts p' = px_miscounts ?q"
      "phase_of w = P_app \<Longrightarrow> shouldRespondWithTooManyReqs S Ingress ?q = None \<and>
       px_inflight p' = px_inflight (incrementInflight S ?q) \<and> px_miscounts p' = px_miscounts (incrementInflight S ?q)"
      by (rule movedE) (rule that; blast)
    have v1: "weight v = 1" by (rule weight_one[OF moved(3)])
    show ?thesis
    proof (cases "phase_of w = P_app")
      case False
      then show ?thesis
        using a b under_way_weight[OF moved(1)] v1 weight_one[OF False]
        by (simp add: balanced_def inflight_requests_def)
    next
      case True
      then obtain cb where "w = App cb" by auto
      with a(2) have w2: "weight w = 2" by (cases cb) auto
      from True a(4) have sr: "shouldRespondWithTooManyReqs S Ingress ?q = None" by blast
      have "px_inflight ?q \<le> limit" using b by (simp add: balanced_def)
      note ib = inc_balanced[OF this S sr]
      show ?thesis
        using a True b under_way_weight[OF moved(1)] v1 w2 ib
        by (simp add: balanced_def inflight_requests_def)
    qed
  next
    case (over n v i res x)
    have "i \<notin> set (sids (px_work (take_out n p)))" using sid_unique[OF inv over(1)] over(2) by simp
    note rw = removeSend_work[OF this]
    show ?thesis
      using over b under_way_weight[OF over(1)] dec_balanced[of "removeSend i (take_out n p)"] one[OF over(1)] rw
      by (simp add: balanced_def inflight_requests_def)
  next
    case (app n v cb res)
    then show ?thesis
      using b under_way_weight[OF app(1)] dec_balanced[of "take_out n p"] one[OF app(1)]
      by (cases cb) (simp_all add: balanced_def inflight_requests_def)
  qed
qed

section \<open>The steps that are left\<close>

definition body_retries :: "proxy \<Rightarrow> proxy_opts \<Rightarrow> int" where
  "body_retries p opts = (case o_maxRetries opts of Some m \<Rightarrow> m | None \<Rightarrow>
     (case px_maxRetries p of Some m \<Rightarrow> m | None \<Rightarrow>
       int (length (case o_retrySchedule opts of Some sc \<Rightarrow> sc | None \<Rightarrow>
         (case px_retrySchedule p of Some sc \<Rightarrow> sc | None \<Rightarrow> RETRY_SCHEDULE)))))"

definition retries_left :: "sender \<Rightarrow> nat" where
  "retries_left s = nat (sn_maxRetries s - int (sn_numRetries s))"

definition phase_rank :: "phase \<Rightarrow> nat \<Rightarrow> nat" where
  "phase_rank f n = (case f of
     P_body \<Rightarrow> 3 * n + 6 | P_identify \<Rightarrow> 3 * n + 5 | P_reply \<Rightarrow> 3 * n + 4 | P_retry \<Rightarrow> 3 * n + 3
   | P_reply_once \<Rightarrow> 3 | P_destroyed \<Rightarrow> 2 | P_answer \<Rightarrow> 2 | P_app \<Rightarrow> 2 | P_over \<Rightarrow> 1)"

definition rank :: "proxy \<Rightarrow> sender list \<Rightarrow> px_work \<Rightarrow> nat" where
  "rank p ss w = (case w of Body r opts \<Rightarrow> phase_rank P_body (nat (body_retries p opts))
     | _ \<Rightarrow> (case sid_of w of None \<Rightarrow> 1 | Some i \<Rightarrow> phase_rank (phase_of w) (retries_left (ss ! i))))"

definition steps_left :: "proxy \<Rightarrow> nat" where
  "steps_left p = sum_list (map (rank p (px_senders p)) (px_work p))"

lemma rank_sid: "sid_of w = Some i \<Longrightarrow> rank p ss w = phase_rank (phase_of w) (retries_left (ss ! i))"
  by (cases w) (auto simp: rank_def)

lemma body_retries_cong:
  assumes "px_maxRetries p' = px_maxRetries p" "px_retrySchedule p' = px_retrySchedule p"
  shows "body_retries p' opts = body_retries p opts"
  unfolding body_retries_def assms ..

lemma rank_cong:
  assumes "px_maxRetries p' = px_maxRetries p" "px_retrySchedule p' = px_retrySchedule p"
    and "\<And>i. sid_of w = Some i \<Longrightarrow> ss' ! i = ss ! i"
  shows "rank p' ss' w = rank p ss w"
  using assms(3) body_retries_cong[OF assms(1,2)]
  by (cases w; cases "sid_of w") (auto simp: rank_def)

lemma rank_follows:
  assumes f: "follows a b" and a: "a \<noteq> P_body"
    and n: "m = (if a = P_retry then n - 1 else n)" "a = P_retry \<Longrightarrow> 0 < n"
  shows "phase_rank b m < phase_rank a n"
  using f a n by (auto simp: follows_def phase_rank_def)

lemma steps_left_less:
  assumes "work_at n p = Some v"
    "sum_list (map (rank p' (px_senders p')) (px_work p')) \<le> m + sum_list (map (rank p (px_senders p)) (px_work (take_out n p)))"
    "m < rank p (px_senders p) v"
  shows "steps_left p' < steps_left p"
  using assms sum_out[OF assms(1), of "rank p (px_senders p)"] by (simp add: steps_left_def)

lemma remaining_step:
  assumes inv: "px_inv p" and st: "px_step S e p = Some p'" and e: "proxy_internal e"
  shows "steps_left p' < steps_left p"
  using st e
proof (cases rule: step_internal_cases)
  case (body n v r opts x)
  have "rank p' (px_senders p') = rank p (px_senders p)"
    by (rule ext, rule rank_cong) (simp_all add: body(3))
  then show ?thesis
    by (intro steps_left_less[OF body(1), where m=0]) (simp_all add: body rank_def phase_rank_def)
next
  case (opened n v r opts)
  let ?q = "take_out n p"
  from opened(3) obtain s w where p': "px_work p' = px_work ?q @ [w]" "px_senders p' = px_senders ?q @ [s]"
      "px_maxRetries p' = px_maxRetries p" "px_retrySchedule p' = px_retrySchedule p" and
    w: "sid_of w = Some (length (px_senders ?q))" "follows P_body (phase_of w)" "sn_numRetries s = 0" and
    m: "sn_maxRetries s = body_retries ?q opts"
    unfolding opened_def body_retries_def by auto
  have q: "px_inv ?q" by (rule inv_take_out[OF inv opened(1)])
  have "rank p' (px_senders p') u = rank p (px_senders p) u" if "u \<in> set (px_work ?q)" for u
    by (rule rank_cong[OF p'(3,4)])
       (use work_ok_sid[OF px_invD(1)[OF q that]] p'(2) in \<open>auto simp: nth_append\<close>)
  then have "map (rank p' (px_senders p')) (px_work ?q) = map (rank p (px_senders p)) (px_work ?q)"
    by (intro map_cong) auto
  then have s1: "sum_list (map (rank p' (px_senders p')) (px_work ?q)) = sum_list (map (rank p (px_senders p)) (px_work ?q))"
    by (rule arg_cong)
  have br: "body_retries ?q opts = body_retries p opts" by (rule body_retries_cong) simp_all
  have "rank p' (px_senders p') w = phase_rank (phase_of w) (nat (body_retries p opts))"
    using rank_sid[OF w(1)] p'(2) w(3) m br by (simp add: retries_left_def)
  also have "\<dots> < rank p (px_senders p) v"
    using w(2) opened(2) by (auto simp: rank_def follows_def phase_rank_def)
  finally show ?thesis
    by (intro steps_left_less[OF opened(1)]) (simp_all only: p'(1) s1 map_append sum_list_append list.map sum_list.Cons sum_list.Nil add_0_right add.commute order.refl)
next
  case (moved n v i)
  let ?q = "take_out n p"
  note i = moved_place[OF inv moved(1,2)]
  have ok: "work_ok (px_senders p) (made p) v"
    using px_invD(1)[OF inv] work_at_take[OF moved(1)] by (metis in_set_conv_decomp)
  from moved(4)[OF i(1)] obtain w s' where
    a: "sid_of w = Some i" "px_work p' = px_work ?q @ [w]" "px_senders p' = (px_senders ?q)[i := s']"
    "px_maxRetries p' = px_maxRetries ?q" "px_retrySchedule p' = px_retrySchedule ?q"
    "follows (phase_of v) (phase_of w)"
    "sn_maxRetries s' = sn_maxRetries (px_senders ?q ! i)"
    "sn_numRetries s' = sn_numRetries (px_senders ?q ! i) + (if phase_of v = P_retry then 1 else 0)"
    by (rule movedE) (rule that; assumption)
  have out: "i \<notin> set (sids (px_work ?q))" by (rule sid_unique[OF inv moved(1,2)])
  have s1: "sum_list (map (rank p' (px_senders p')) (px_work ?q)) = sum_list (map (rank p (px_senders p)) (px_work ?q))"
    by (rule sum_others[OF out]) (rule rank_cong; use a in simp)+
  let ?n = "retries_left (px_senders p ! i)"
  have left: "retries_left s' = (if phase_of v = P_retry then ?n - 1 else ?n)"
    using a(7,8) by (auto simp: retries_left_def nat_diff_distrib')
  have pos: "phase_of v = P_retry \<Longrightarrow> 0 < ?n"
    using ok moved(2) by (simp add: work_ok_def retries_left_def)
  have "phase_of v \<noteq> P_body" using moved(2) by (cases v) auto
  from rank_follows[OF a(6) this left pos]
  have "rank p' (px_senders p') w < rank p (px_senders p) v"
    using rank_sid[OF a(1)] rank_sid[OF moved(2)] a(3) i by simp
  then show ?thesis
    by (intro steps_left_less[OF moved(1)]) (simp_all only: a(2) s1 map_append sum_list_append list.map sum_list.Cons sum_list.Nil add_0_right add.commute order.refl)
next
  case (over n v i res x)
  have "i \<notin> set (sids (px_work (take_out n p)))" using sid_unique[OF inv over(1)] over(2) by simp
  note rw = removeSend_work[OF this]
  have "rank p' (px_senders p') = rank p (px_senders p)"
    by (rule ext, rule rank_cong) (simp_all add: over(3))
  then show ?thesis
    by (intro steps_left_less[OF over(1), where m=0]) (simp_all add: over rw rank_def phase_rank_def)
next
  case (app n v cb res)
  have r: "rank p' (px_senders p') = rank p (px_senders p)"
    by (rule ext, rule rank_cong) (cases cb; simp add: app(3))+
  show ?thesis
  proof (cases cb)
    case (To_send i)
    then show ?thesis
      using r by (intro steps_left_less[OF app(1), where m=1]) (simp_all add: app rank_def phase_rank_def)
  next
    case (To_channel c)
    then show ?thesis
      using r by (intro steps_left_less[OF app(1), where m=0]) (simp_all add: app rank_def phase_rank_def)
  qed
qed

text \<open>Every piece of work can be done.\<close>

lemma proxy_progress:
  assumes "px_work p \<noteq> []"
  shows "\<exists>e p'. proxy_internal e \<and> px_step S e p = Some p'"
proof -
  have w: "work_at 0 p = Some (hd (px_work p))" using assms by (simp add: work_at_def hd_conv_nth)
  show ?thesis
  proof (cases "hd (px_work p)")
    case (Body r opts)
    then show ?thesis using w by (intro exI[of _ "In_body 0 (Inr [])"]) (simp add: proxy_internal_def)
  next
    case (Identify i co)
    then show ?thesis using w by (intro exI[of _ "In_identified 0 None"]) (simp add: proxy_internal_def)
  next
    case (Reply i)
    then show ?thesis using w by (intro exI[of _ "In_reply 0 (Not_ok [])"]) (simp add: proxy_internal_def)
  next
    case (Reply_no_retries i)
    then show ?thesis using w by (intro exI[of _ "In_reply 0 (Not_ok [])"]) (simp add: proxy_internal_def)
  next
    case (Retry i d)
    then show ?thesis using w by (intro exI[of _ "In_timeout 0"]) (simp add: proxy_internal_def)
  next
    case (App cb)
    then show ?thesis
      using w by (intro exI[of _ "In_app 0 (Inl NeedHeaderError)"]) (simp add: proxy_internal_def)
  qed (use w in \<open>intro exI[of _ "In_tick 0"]; simp add: proxy_internal_def\<close>)+
qed

end
