(* ===== verification/Proxy_Properties.thy ===== *)
theory Proxy_Properties
  imports Proxy_Inv Server_Properties
begin

text \<open>
  What the request proxy promises: every request it takes is answered once, after a bounded
  number of steps and of attempts; the inflight counter counts; a forwarded request is run only
  where the checks allow it, and reaches the owner of its keys.
\<close>

section \<open>Runs\<close>

definition asks_for :: "nat \<Rightarrow> px_in \<Rightarrow> bool" where
  "asks_for r e \<longleftrightarrow> (case e of In_request r' opts \<Rightarrow> r' = r | _ \<Rightarrow> False)"

lemma asks_internal: "proxy_internal e \<Longrightarrow> \<not> asks_for r e"
  by (auto simp: proxy_internal_def asks_for_def split: px_in.splits)

lemma account_external:
  assumes "px_step S e p = Some p'" "\<not> proxy_internal e"
  shows "answers r p' + under_way r p' = answers r p + under_way r p + (if asks_for r e then 1 else 0)"
proof -
  consider r' opts where "e = In_request r' opts" | c h bd where "e = In_forwarded c h bd"
    using assms(2) unfolding proxy_internal_def by auto
  then show ?thesis
  proof cases
    case 1
    then show ?thesis
      using assms(1)
      by (auto simp: proxyReq_def under_way_sum is_for_def rid_of_def answers_def asks_for_def count_fst_append
          split: option.splits)
  next
    case 2
    have no: "\<not> asks_for r e" using 2 by (simp add: asks_for_def)
    show ?thesis
    proof (cases h)
      case None
      then show ?thesis using assms(1) 2 no by (auto simp: handleProxyReq_def under_way_sum answers_def)
    next
      case (Some hd)
      then have p': "p' = handleRequest S hd bd (To_channel c) p" using assms(1) 2 by (simp add: handleProxyReq_def)
      show ?thesis
        by (cases rule: handleRequest_cases[where S=S and h=hd and body=bd and cb="To_channel c" and p=p])
           (simp_all add: p' no under_way_sum is_for_def rid_of_def answers_def)
    qed
  qed
qed

lemma account_run:
  "px_run es p = Some p' \<Longrightarrow> px_inv p \<Longrightarrow>
   answers r p' + under_way r p' = answers r p + under_way r p + length [e \<leftarrow> map snd es. asks_for r e]"
proof (induction es p rule: px_run.induct)
  case (2 S e es p)
  then obtain q where q: "px_step S e p = Some q" "px_run es q = Some p'" by (auto split: option.splits)
  have "answers r q + under_way r q = answers r p + under_way r p + (if asks_for r e then 1 else 0)"
    using account_step[OF "2.prems"(2) q(1)] account_external[OF q(1)] asks_internal by (cases "proxy_internal e") auto
  then show ?case using "2.IH"[OF q inv_step[OF "2.prems"(2) q(1)]] by simp
qed simp

lemma remaining_run:
  "px_run es p = Some p' \<Longrightarrow> px_inv p \<Longrightarrow> list_all (\<lambda>(S, e). proxy_internal e) es \<Longrightarrow>
   steps_left p' + length es \<le> steps_left p"
proof (induction es p rule: px_run.induct)
  case (2 S e es p)
  then obtain q where q: "px_step S e p = Some q" "px_run es q = Some p'" by (auto split: option.splits)
  have "steps_left q < steps_left p" using remaining_step[OF "2.prems"(2) q(1)] "2.prems"(3) by simp
  then show ?case using "2.IH"[OF q inv_step[OF "2.prems"(2) q(1)]] "2.prems"(3) by simp
qed simp

lemma new_counts: "answers r (new_proxy sc mr ec ek) = 0" "under_way r (new_proxy sc mr ec ek) = 0"
  by (simp_all add: answers_def under_way_def new_proxy_def)

text \<open>A proxy run to the end: a maximal sequence of callbacks.\<close>

lemma proxy_run_ends:
  assumes "px_inv p"
  shows "\<exists>es p'. list_all (\<lambda>(S, e). proxy_internal e) es \<and> px_run es p = Some p' \<and> px_work p' = []"
  using assms
proof (induction "steps_left p" arbitrary: p rule: less_induct)
  case less
  show ?case
  proof (cases "px_work p = []")
    case True
    then show ?thesis by (intro exI[of _ "[]"] exI[of _ p]) simp
  next
    case False
    fix S :: site
    from proxy_progress[OF False, of S] obtain e q where e: "proxy_internal e" "px_step S e p = Some q" by blast
    from less(1)[OF remaining_step[OF less(2) e(2,1)] inv_step[OF less(2) e(2)]]
    obtain es p' where "list_all (\<lambda>(S, e). proxy_internal e) es" "px_run es q = Some p'" "px_work p' = []" by blast
    then show ?thesis using e by (intro exI[of _ "(S, e) # es"] exI[of _ p']) simp
  qed
qed

lemma balanced_run:
  "px_run es p = Some p' \<Longrightarrow> px_inv p \<Longrightarrow> balanced limit p \<Longrightarrow>
   list_all (\<lambda>(S, e). c_backpressureEnabled (st_config S) \<and> c_maxInflightRequests (st_config S) = limit) es \<Longrightarrow>
   balanced limit p'"
proof (induction es p rule: px_run.induct)
  case (2 S e es p)
  then obtain q where q: "px_step S e p = Some q" "px_run es q = Some p'" by (auto split: option.splits)
  then show ?case
    using "2.IH"[OF q inv_step[OF "2.prems"(2) q(1)]] balanced_step[OF "2.prems"(2) q(1) "2.prems"(3)] "2.prems"(4) by simp
qed simp

section \<open>Where a forwarded request is run\<close>

lemma foreign_none: "foreign_key S ks = None \<longleftrightarrow> (\<forall>k \<in> set ks. px_lookup S k = st_whoami S)"
  by (induction ks) auto

definition keys_of :: "head \<Rightarrow> string list" where
  "keys_of h = (case h_ringpopKeys h of None \<Rightarrow> [] | Some ks \<Rightarrow> ks)"

definition is_timeout :: "px_in \<Rightarrow> bool" where
  "is_timeout e \<longleftrightarrow> (case e of In_timeout n \<Rightarrow> True | _ \<Rightarrow> False)"

text \<open>The events a step adds: a request is run only after the checks that are enforced.\<close>

definition allowed :: "site \<Rightarrow> bool \<Rightarrow> bool \<Rightarrow> proxy \<Rightarrow> head \<Rightarrow> bool" where
  "allowed S checksums keys p h \<longleftrightarrow>
     (checksums \<longrightarrow> h_ringpopChecksum h = hr_checksum (st_ring S)) \<and>
     (keys \<longrightarrow> (\<forall>k \<in> set (keys_of h). px_lookup S k = st_whoami S)) \<and>
     shouldRespondWithTooManyReqs S Ingress p = None"

definition adds_events :: "site \<Rightarrow> bool \<Rightarrow> bool \<Rightarrow> proxy \<Rightarrow> proxy \<Rightarrow> bool" where
  "adds_events S c k p p' \<longleftrightarrow>
    (\<exists>es. px_events p' = px_events p @ es \<and> (\<forall>h b. Request h b \<in> set es \<longrightarrow> allowed S c k p h))"

lemma adds_none: "px_events p' = px_events p \<Longrightarrow> adds_events S c k p p'"
  by (simp add: adds_events_def)

lemma adds_one: "px_events p' = px_events p @ [e] \<Longrightarrow> \<forall>h b. e \<noteq> Request h b \<Longrightarrow> adds_events S c k p p'"
  unfolding adds_events_def by (rule exI[of _ "[e]"]) auto

lemma events_sel [simp]:
  "px_events (px_wait w p) = px_events p" "px_events (give cb res p) = px_events p"
  "px_events (decrementInflight p) = px_events p" "px_events (incrementInflight S p) = px_events p"
  "px_events (px_emit e p) = px_events p @ [e]" "px_events (take_out n p) = px_events p"
  "px_events (px_write r x p) = px_events p" "px_events (upd_sender i f p) = px_events p"
  "px_events (removeSend i p) = px_events p" "px_events (send S i co p) = px_events p"
  by (cases cb; simp add: px_wait_def decrementInflight_def incrementInflight_def px_emit_def take_out_def
      px_write_def upd_sender_def removeSend_def sender_destroy_def send_def Let_def)+

lemma respond_emit [simp]:
  "shouldRespondWithTooManyReqs S d (px_emit e p) = shouldRespondWithTooManyReqs S d p"
  by (simp add: px_emit_def)

lemma enforce_emit [simp]:
  "px_enforceConsistency (px_emit e p) = px_enforceConsistency p"
  "px_enforceKeyConsistency (px_emit e p) = px_enforceKeyConsistency p"
  by (simp_all add: px_emit_def)

text \<open>The events of \<open>handleRequest\<close>, and on which conditions it runs the request.\<close>

lemma handleRequest_events:
  "\<exists>es. px_events (handleRequest S h body cb p) = px_events p @ es \<and>
    (\<forall>h' b. Request h' b \<in> set es \<longrightarrow> h' = h \<and>
       allowed S (px_enforceConsistency p) (px_enforceKeyConsistency p) p h)"
proof -
  have ex: "\<exists>es. px_events (execute S h body cb q) = px_events q @ es \<and>
    (\<forall>h' b. Request h' b \<in> set es \<longrightarrow> h' = h \<and> shouldRespondWithTooManyReqs S Ingress q = None)" for q
    by (cases "shouldRespondWithTooManyReqs S Ingress q") (auto simp: execute_def)
  have ck: "\<exists>es. px_events (check_keys S h body cb q) = px_events q @ es \<and>
    (\<forall>h' b. Request h' b \<in> set es \<longrightarrow> h' = h \<and> shouldRespondWithTooManyReqs S Ingress q = None \<and>
       (px_enforceKeyConsistency q \<longrightarrow> (\<forall>k \<in> set (keys_of h). px_lookup S k = st_whoami S)))" for q
  proof (cases "foreign_key S (keys_of h)")
    case None
    then show ?thesis
      using ex[of q] foreign_none[of S "keys_of h"] by (fastforce simp: check_keys_def keys_of_def[symmetric])
  next
    case (Some target)
    show ?thesis
    proof (cases "px_enforceKeyConsistency q")
      case True
      then show ?thesis
        using Some by (intro exI[of _ "[KeysDiffer]"]) (simp add: check_keys_def keys_of_def[symmetric])
    next
      case False
      from ex[of "px_emit KeysDiffer q"] obtain es where
        "px_events (execute S h body cb (px_emit KeysDiffer q)) = px_events q @ KeysDiffer # es"
        "\<forall>h' b. Request h' b \<in> set es \<longrightarrow> h' = h \<and> shouldRespondWithTooManyReqs S Ingress q = None"
        by auto
      then show ?thesis
        using Some False by (intro exI[of _ "KeysDiffer # es"]) (simp add: check_keys_def keys_of_def[symmetric])
    qed
  qed
  show ?thesis
  proof (cases "h_ringpopChecksum h = hr_checksum (st_ring S)")
    case True
    then show ?thesis using ck[of p] by (auto simp: handleRequest_def allowed_def)
  next
    case False
    show ?thesis
    proof (cases "px_enforceConsistency p")
      case True
      then show ?thesis
        using False by (intro exI[of _ "[ChecksumsDiffer]"]) (simp add: handleRequest_def)
    next
      case noc: False
      from ck[of "px_emit ChecksumsDiffer p"] obtain es where
        "px_events (check_keys S h body cb (px_emit ChecksumsDiffer p)) = px_events p @ ChecksumsDiffer # es"
        "\<forall>h' b. Request h' b \<in> set es \<longrightarrow> h' = h \<and> shouldRespondWithTooManyReqs S Ingress p = None \<and>
           (px_enforceKeyConsistency p \<longrightarrow> (\<forall>k \<in> set (keys_of h). px_lookup S k = st_whoami S))"
        by auto
      then show ?thesis
        using False noc by (intro exI[of _ "ChecksumsDiffer # es"]) (auto simp: handleRequest_def allowed_def)
    qed
  qed
qed

text \<open>A retry whose keys are all looked up to one server.\<close>

lemma dkeys_fold: "set (dkeys (fold (\<lambda>k. dset (f k) True) ks acc)) = set (dkeys acc) \<union> f ` set ks"
proof (induction ks arbitrary: acc)
  case (Cons k ks)
  then show ?case by simp
qed simp

lemma lookupKeys_set: "set (lookupKeys S ks) = px_lookup S ` set ks"
  using dkeys_fold[of "px_lookup S" ks "[]"] by (simp add: lookupKeys_def)

lemma attemptRetry_events:
  assumes i: "i < length (px_senders p)"
  shows "adds_events S True True p (attemptRetry S i p)"
proof -
  define p1 where "p1 = upd_sender i (\<lambda>s. s\<lparr>sn_numRetries := Suc (sn_numRetries s)\<rparr>) p"
  define s where "s = px_senders p1 ! i"
  define dests where "dests = (if sn_skipLookupOnRetry s then [sn_host s] else lookupKeys S (sn_keys s))"
  define newDest where "newDest = (case dests of [] \<Rightarrow> None | d # _ \<Rightarrow> Some d)"
  have ev: "px_events p1 = px_events p" by (simp add: p1_def)
  have sr: "shouldRespondWithTooManyReqs S Ingress p1 = shouldRespondWithTooManyReqs S Ingress p"
    by (simp add: p1_def upd_sender_def)
  have eq: "attemptRetry S i p = (if length dests > 1 then abortOnKeyDivergence i dests p1
      else if newDest = Some (sn_host s) then send S i (sender_opts s) (px_emit RetryAttempted p1)
      else rerouteRetry S i newDest (px_emit RetryAttempted p1))"
    unfolding attemptRetry_def Let_def p1_def s_def dests_def newDest_def ..
  consider (diverged) "length dests > 1" | (same) "length dests \<le> 1" "newDest = Some (sn_host s)"
    | (remote) "length dests \<le> 1" "newDest \<noteq> Some (sn_host s)" "newDest \<noteq> Some (st_whoami S)"
    | (local) "length dests \<le> 1" "newDest \<noteq> Some (sn_host s)" "newDest = Some (st_whoami S)"
    by linarith
  then show ?thesis
  proof cases
    case diverged
    then show ?thesis
      unfolding eq by (intro adds_one[where e=RetryAborted]) (simp_all add: abortOnKeyDivergence_def Let_def ev del: give.simps)
  next
    case same
    then show ?thesis unfolding eq by (intro adds_one[where e=RetryAttempted]) (simp_all add: ev)
  next
    case remote
    then have "px_events (attemptRetry S i p) = px_events p @ [RetryAttempted, RetryRerouted (sn_host s) newDest]"
      unfolding eq by (simp add: rerouteRetry_def Let_def ev) (simp add: px_emit_def s_def)
    then show ?thesis unfolding adds_events_def by auto
  next
    case local
    let ?p2 = "px_emit (RetryRerouted (sn_host s) newDest)
      (upd_sender i (\<lambda>s. s\<lparr>sn_destinations := sn_destinations s @ [newDest]\<rparr>) (px_emit RetryAttempted p1))"
    let ?h = "rawHead (sn_request s) (hr_checksum (st_ring S)) (sn_keys s)"
    have at: "attemptRetry S i p = handleRequest S ?h (sn_body s) (To_send i) ?p2"
      unfolding eq using local by (simp add: rerouteRetry_def Let_def) (simp add: px_emit_def s_def)
    have "dests = [st_whoami S]" using local by (auto simp: newDest_def split: list.splits)
    moreover have "\<not> sn_skipLookupOnRetry s" using local by (auto simp: newDest_def dests_def)
    ultimately have "lookupKeys S (sn_keys s) = [st_whoami S]" by (simp add: dests_def)
    then have keys: "\<forall>k \<in> set (keys_of ?h). px_lookup S k = st_whoami S"
      using lookupKeys_set[of S "sn_keys s"] by (auto simp: keys_of_def rawHead_def)
    from handleRequest_events[of S ?h "sn_body s" "To_send i" ?p2] obtain es where
      "px_events (attemptRetry S i p) = px_events ?p2 @ es"
      "\<forall>h' b. Request h' b \<in> set es \<longrightarrow> h' = ?h \<and>
         allowed S (px_enforceConsistency ?p2) (px_enforceKeyConsistency ?p2) ?p2 ?h"
      unfolding at by blast
    moreover have "shouldRespondWithTooManyReqs S Ingress ?p2 = shouldRespondWithTooManyReqs S Ingress p"
      by (simp add: sr upd_sender_def)
    moreover have "px_events ?p2 = px_events p @ [RetryAttempted, RetryRerouted (sn_host s) newDest]"
      by (simp add: ev)
    ultimately have "px_events (attemptRetry S i p) = px_events p @ ([RetryAttempted, RetryRerouted (sn_host s) newDest] @ es)"
      "\<forall>h' b. Request h' b \<in> set es \<longrightarrow> allowed S True True p h'"
      using keys by (auto simp: allowed_def rawHead_def)
    then show ?thesis unfolding adds_events_def by auto
  qed
qed

lemma onSend_events: "adds_events S c k p (onSend i x p)"
proof -
  have "px_events (onSend i x p) = px_events p \<or> (\<exists>e. px_events (onSend i x p) = px_events p @ [e] \<and> (\<forall>h b. e \<noteq> Request h b))"
    by (auto simp: onSend_def Let_def handleSuccess_def handleMaxRetriesExceeded_def scheduleRetry_def
        simp del: give.simps split: sum.splits)
  then show ?thesis using adds_none adds_one by metis
qed

lemma adds_cong:
  "adds_events S c k (take_out n p) p' \<Longrightarrow> adds_events S c k p p'"
  by (simp add: adds_events_def allowed_def) (simp add: take_out_def)

text \<open>
  C30: A forwarded request is handed to the application only where it may run. Every request a
  step hands over was admitted by the back pressure; its checksum is the ring's, unless checksums
  are not enforced, and all its keys are looked up to this node, unless keys are not enforced. A
  retry that comes back to this node passes both checks whatever is enforced.
\<close>

theorem requests_run_only_where_allowed:
  assumes run: "px_run ins (new_proxy sc mr ec ek) = Some p" and st: "px_step S e p = Some p'"
  shows "\<exists>es. px_events p' = px_events p @ es \<and>
    (\<forall>h b. Request h b \<in> set es \<longrightarrow>
      ((is_timeout e \<or> px_enforceConsistency p) \<longrightarrow> h_ringpopChecksum h = hr_checksum (st_ring S)) \<and>
      ((is_timeout e \<or> px_enforceKeyConsistency p) \<longrightarrow> (\<forall>k \<in> set (keys_of h). px_lookup S k = st_whoami S)) \<and>
      shouldRespondWithTooManyReqs S Ingress p = None)"
proof -
  have "adds_events S (is_timeout e \<or> px_enforceConsistency p) (is_timeout e \<or> px_enforceKeyConsistency p) p p'"
  proof (cases e)
    case (In_request r opts)
    then show ?thesis using st by (intro adds_none) (auto simp: proxyReq_def split: option.splits)
  next
    case (In_forwarded c header body)
    show ?thesis
    proof (cases header)
      case None
      then show ?thesis using st In_forwarded by (intro adds_none) (auto simp: handleProxyReq_def)
    next
      case (Some h)
      then have "p' = handleRequest S h body (To_channel c) p" using st In_forwarded by (simp add: handleProxyReq_def)
      then show ?thesis
        using handleRequest_events[of S h body "To_channel c" p] In_forwarded
        by (fastforce simp: adds_events_def is_timeout_def)
    qed
  next
    case (In_body n res)
    then obtain r opts where "p' = onBody S r opts res (take_out n p)"
      using st by (auto split: option.splits px_work.splits)
    then show ?thesis by (intro adds_none) (auto simp: onBody_def Let_def send_def px_wait_def split: sum.splits)
  next
    case (In_identified n err)
    then obtain i co where "p' = onIdentified S i co err (take_out n p)"
      using st by (auto split: option.splits px_work.splits)
    then show ?thesis
      by (cases err) (auto simp: onIdentified_def Let_def px_wait_def px_emit_def
          simp del: give.simps intro: adds_none adds_one[where e=RequestProxied])
  next
    case (In_reply n x)
    then consider i where "p' = onSend i x (take_out n p)" | i where "p' = onSendNoRetries i x (take_out n p)"
      using st by (auto split: option.splits px_work.splits)
    then show ?thesis
      by cases (auto simp: onSendNoRetries_def intro: adds_cong[OF onSend_events] adds_none)
  next
    case (In_timeout n)
    with st obtain i d where w: "work_at n p = Some (Retry i d)" and p': "p' = attemptRetry S i (take_out n p)"
      by (auto split: option.splits px_work.splits)
    have "i < length (px_senders (take_out n p))" using moved_place(2)[OF inv_run[OF run inv_new] w] by simp
    from adds_cong[OF attemptRetry_events[OF this]] show ?thesis using p' In_timeout by (simp add: is_timeout_def)
  next
    case (In_tick n)
    then show ?thesis
      using st by (intro adds_none)
        (auto simp: onProxy_def Let_def simp del: give.simps split: option.splits px_work.splits sum.splits)
  next
    case (In_app n resp)
    then show ?thesis
      using st by (intro adds_none)
        (auto simp: onAppResponse_def Let_def simp del: give.simps split: option.splits px_work.splits sum.splits)
  qed
  then show ?thesis unfolding adds_events_def allowed_def .
qed

text \<open>A run for the examples: a forwarded request fails once, is retried, and is answered.\<close>

definition demo_site :: site where
  "demo_site = \<lparr>st_whoami = ''a:1'', st_config = default_config\<lparr>c_backpressureEnabled := True\<rparr>,
     st_hash = demo_hash, st_ring = demo_ring, st_currentLag = 0, st_proxyReqTimeout = 30000,
     st_channelDestroyed = False\<rparr>"

definition demo_opts :: proxy_opts where
  "demo_opts = \<lparr>o_keys = [''yy''], o_dest = ''b:1'',
     o_req = \<lparr>q_url = ''/x'', q_headers = [], q_method = ''GET'', q_httpVersion = ''1.1''\<rparr>,
     o_maxRetries = None, o_retrySchedule = None, o_endpoint = None, o_timeout = None,
     o_skipLookupOnRetry = False\<rparr>"

definition demo_ins :: "(site \<times> px_in) list" where
  "demo_ins = map (Pair demo_site)
     [In_request 7 demo_opts, In_body 0 (Inr ''hello''), In_identified 0 None, In_reply 0 (Not_ok ''busy'')]"

definition demo_proxy :: proxy where
  "demo_proxy = the (px_run demo_ins (new_proxy None None None None))"

lemma demo_run: "px_run demo_ins (new_proxy None None None None) = Some demo_proxy"
proof -
  have "Option.is_none (px_run demo_ins (new_proxy None None None None)) = False" by code_simp
  then show ?thesis by (auto simp: demo_proxy_def Option.is_none_def)
qed

lemma requests_run_only_where_allowed_witness:
  "\<exists>p' es. px_step demo_site (In_timeout 0) demo_proxy = Some p' \<and> px_events p' = px_events demo_proxy @ es"
proof -
  have "Option.is_none (px_step demo_site (In_timeout 0) demo_proxy) = False" by code_simp
  then obtain p' where "px_step demo_site (In_timeout 0) demo_proxy = Some p'" by (auto simp: Option.is_none_def)
  then show ?thesis using requests_run_only_where_allowed[OF demo_run] by blast
qed

text \<open>
  C27: Every request the proxy is given is answered exactly once, or is still under way, in every
  order of the body parser, the channel, the timeouts and the application: a request is not lost
  and not answered twice.
\<close>

theorem forwarded_requests_answered_once:
  assumes "px_run ins (new_proxy sc mr ec ek) = Some p"
  shows "answers r p + under_way r p = length [e \<leftarrow> map snd ins. asks_for r e]"
  using account_run[OF assms inv_new] by (simp add: new_counts)

lemma forwarded_requests_answered_once_witness:
  "answers 7 demo_proxy + under_way 7 demo_proxy = 1"
  using forwarded_requests_answered_once[OF demo_run, of 7] by (simp add: demo_ins_def asks_for_def)

text \<open>
  C28: Forwarding ends. From every state a run reaches, at most \<^theory_text>\<open>steps_left\<close> callbacks can follow
  before the next request, whatever they are given and in whatever order; and the callbacks can
  run to a state in which nothing is outstanding and every request was answered once.
\<close>

theorem forwarding_terminates:
  assumes "px_run ins (new_proxy sc mr ec ek) = Some p"
  shows "(\<forall>more p'. px_run more p = Some p' \<and> list_all (\<lambda>(S, e). proxy_internal e) more \<longrightarrow>
      length more \<le> steps_left p) \<and>
    (\<exists>more p'. px_run more p = Some p' \<and> list_all (\<lambda>(S, e). proxy_internal e) more \<and> px_work p' = [] \<and>
      (\<forall>r. answers r p' = length [e \<leftarrow> map snd ins. asks_for r e]))"
proof
  note inv = inv_run[OF assms inv_new]
  show "\<forall>more p'. px_run more p = Some p' \<and> list_all (\<lambda>(S, e). proxy_internal e) more \<longrightarrow>
      length more \<le> steps_left p"
    using remaining_run[OF _ inv] by (meson add_leE)
  from proxy_run_ends[OF inv] obtain more p' where
    m: "list_all (\<lambda>(S, e). proxy_internal e) more" "px_run more p = Some p'" "px_work p' = []" by blast
  have none: "[e \<leftarrow> map snd more. asks_for r e] = []" for r
    using m(1) asks_internal by (auto simp: filter_empty_conv list_all_iff)
  have "answers r p' = length [e \<leftarrow> map snd ins. asks_for r e]" for r
  proof -
    have "under_way r p' = 0" using m(3) by (simp add: under_way_def)
    then show ?thesis
      using account_run[OF m(2) inv, of r] account_run[OF assms inv_new, of r] none[of r]
      by (simp add: new_counts)
  qed
  then show "\<exists>more p'. px_run more p = Some p' \<and> list_all (\<lambda>(S, e). proxy_internal e) more \<and> px_work p' = [] \<and>
      (\<forall>r. answers r p' = length [e \<leftarrow> map snd ins. asks_for r e])"
    using m by blast
qed

lemma forwarding_terminates_witness:
  "\<exists>more p'. px_run more demo_proxy = Some p' \<and> px_work p' = [] \<and> answers 7 p' = 1"
  using conjunct2[OF forwarding_terminates[OF demo_run]] by (fastforce simp: demo_ins_def asks_for_def)

text \<open>
  C29: With back pressure on, the inflight counter is the number of requests under way, a request
  forwarded and run by the same node counting twice; it never passes the limit, and the corrections
  of a miscount never happen.
\<close>

theorem inflight_counts_requests:
  assumes "px_run ins (new_proxy sc mr ec ek) = Some p" and "0 \<le> limit"
    and "list_all (\<lambda>(S, e). c_backpressureEnabled (st_config S) \<and> c_maxInflightRequests (st_config S) = limit) ins"
  shows "px_inflight p = inflight_requests p \<and> px_inflight p \<le> limit \<and> px_miscounts p = 0"
proof -
  have "balanced limit (new_proxy sc mr ec ek)"
    using assms(2) by (simp add: balanced_def new_proxy_def inflight_requests_def)
  from balanced_run[OF assms(1) inv_new this assms(3)] show ?thesis by (simp add: balanced_def)
qed

lemma inflight_counts_requests_witness:
  "px_inflight demo_proxy = inflight_requests demo_proxy \<and> px_inflight demo_proxy \<le> 5000 \<and> px_miscounts demo_proxy = 0"
proof -
  have "c_maxInflightRequests default_config = 5000" by code_simp
  then show ?thesis
    by (intro inflight_counts_requests[OF demo_run]) (simp_all add: demo_ins_def demo_site_def)
qed

text \<open>
  A sender makes at most one request more than its retries, and never retries more often than
  \<open>maxRetries\<close>; a negative number of retries is none.
\<close>

theorem retries_bounded:
  assumes "px_run ins (new_proxy sc mr ec ek) = Some p" and "i < length (px_senders p)"
  shows "int (sn_numRetries (px_senders p ! i)) \<le> max 0 (sn_maxRetries (px_senders p ! i)) \<and>
    int (made p i) \<le> 1 + max 0 (sn_maxRetries (px_senders p ! i))"
  using px_invD(3,5)[OF inv_run[OF assms(1) inv_new] assms(2)] by linarith

lemma retries_bounded_witness:
  "int (made demo_proxy 0) \<le> 1 + max 0 (sn_maxRetries (px_senders demo_proxy ! 0))"
proof -
  have "0 < length (px_senders demo_proxy)" by code_simp
  then show ?thesis using retries_bounded[OF demo_run] by blast
qed

text \<open>
  C31: A forwarded request reaches the owner of its keys. When two nodes agree on the ring, each
  group of keys that \<open>handleOrProxyAll\<close> sends away is run by the node it is sent to, with checksums
  and keys enforced, unless that node is too busy.
\<close>

theorem forwarded_keys_reach_owner:
  assumes rings: "ring_ok h ring" "ring_ok h (st_ring S)" "st_hash S = h"
    and agree: "ring_servers (st_ring S) = ring_servers ring" "hr_replicaPoints (st_ring S) = hr_replicaPoints ring"
      "hr_checksum (st_ring S) = hr_checksum ring"
    and split: "handleOrProxyAll h me keys ring = Some groups" "(Some (st_whoami S), ks) \<in> set groups"
    and free: "shouldRespondWithTooManyReqs S Ingress p = None"
  shows "handleProxyReq S (Some (rawHead req (hr_checksum ring) ks)) body c p =
    px_wait (App (To_channel c)) (px_emit (Request (rawHead req (hr_checksum ring) ks) body) (incrementInflight S p))"
proof -
  from split obtain gs where gs: "groupByDest (\<lambda>k. rp_lookup h me k ring) keys [] = Some gs"
    "groups = map (\<lambda>(d, ks). (if me = d then None else Some d, ks)) gs"
    by (auto simp: handleOrProxyAll_def split: option.splits)
  with split(2) have g: "(st_whoami S, ks) \<in> set gs" "me \<noteq> st_whoami S" by (auto split: if_splits)
  have look: "\<forall>k \<in> set ks. rp_lookup h me k ring = Some (st_whoami S)"
    using groupByDest_dest[OF gs(1)] g(1) by auto
  have "px_lookup S k = st_whoami S" if "k \<in> set ks" for k
  proof -
    have "owner (ring_points h ring) (h k) = Some (st_whoami S)" "st_whoami S \<noteq> []"
      using look[rule_format, OF that] g(2) unfolding rp_lookup_eq[OF rings(1)]
      by (cases "owner (ring_points h ring) (h k)"; simp split: if_splits)+
    then show ?thesis
      using agree rings(3) by (simp add: px_lookup_def rp_lookup_eq[OF rings(2)])
  qed
  then have "foreign_key S ks = None" by (simp add: foreign_none)
  then show ?thesis
    using free agree(3) by (simp add: handleProxyReq_def handleRequest_def check_keys_def execute_def rawHead_def)
qed

lemma forwarded_keys_reach_owner_witness:
  "handleProxyReq (demo_site\<lparr>st_whoami := ''b:1''\<rparr>) (Some (rawHead (o_req demo_opts) (hr_checksum demo_ring) [''k1'', ''yy'']))
      ''hello'' 3 demo_proxy =
    px_wait (App (To_channel 3)) (px_emit (Request (rawHead (o_req demo_opts) (hr_checksum demo_ring) [''k1'', ''yy'']) ''hello'')
      (incrementInflight (demo_site\<lparr>st_whoami := ''b:1''\<rparr>) demo_proxy))"
proof -
  let ?S = "demo_site\<lparr>st_whoami := ''b:1''\<rparr>"
  have g: "handleOrProxyAll demo_hash ''a:1'' [''k1'', ''yy''] demo_ring = Some [(Some ''b:1'', [''k1'', ''yy''])]" by code_simp
  have "Option.is_none (shouldRespondWithTooManyReqs ?S Ingress demo_proxy)" by code_simp
  then have f: "shouldRespondWithTooManyReqs ?S Ingress demo_proxy = None" by (simp add: Option.is_none_def split: option.splits)
  show ?thesis
    by (rule forwarded_keys_reach_owner[OF demo_ring_ok _ _ _ _ _ g _ f]) (simp_all add: demo_site_def demo_ring_ok)
qed

section \<open>Where the proxy falls short\<close>

text \<open>
  \<open>destroy\<close> clears the retry a sender waits for and calls nothing back: the request is neither
  answered nor under way, and stays counted as inflight.
\<close>

lemma destroy_drops_request:
  "answers 7 (px_destroy demo_proxy) = 0 \<and> under_way 7 (px_destroy demo_proxy) = 0 \<and>
   px_inflight (px_destroy demo_proxy) = 1"
  by (intro conjI) code_simp+

text \<open>
  With back pressure off requests past the limit are admitted while the counter stays at the
  limit; as they end it falls below the number of requests under way.
\<close>

definition small_site :: site where
  "small_site = demo_site\<lparr>st_config := default_config\<lparr>c_maxInflightRequests := 1\<rparr>\<rparr>"

lemma counter_saturates:
  "map_option (\<lambda>p. (px_inflight p, inflight_requests p, px_miscounts p))
     (px_run (map (Pair small_site) [In_request 1 demo_opts, In_request 2 demo_opts, In_body 0 (Inl NeedHeaderError)])
       (new_proxy None None None None)) = Some (0, 1, 1)"
  by code_simp

end
