(* ===== verification/Middleware.thy ===== *)
theory Middleware
  imports Joiner
begin

text \<open>
  What a message goes through between a client and a handler of another node: the middleware
  stacks (\<open>lib/middleware/stack.js\<close>), the patches for nodes that do not know tombstones
  (\<open>tombstone.js\<close>), the encoding (\<open>transport.js\<close>) and the wrapper of the handlers
  (\<open>server/index.js\<close>).

  A message is its list of changes, its list of members, and the rest, which the middlewares do
  not look at. JSON texts are a type \<^theory_text>\<open>'t\<close> with a pair of functions \<^theory_text>\<open>enc\<close> and \<^theory_text>\<open>dec\<close>, with \<^theory_text>\<open>None\<close> for null:
  \<^theory_text>\<open>enc None\<close> is the text null, and \<^theory_text>\<open>dec\<close> gives \<^theory_text>\<open>None\<close> where \<open>safeParse\<close> gives null.
\<close>

section \<open>Messages\<close>

record 'x message =
  msg_changes :: "update list option"
  msg_membership :: "update list option"
  msg_rest :: 'x

text \<open>An argument: undefined, null, bytes (a string or a buffer), or a value.\<close>

datatype ('x, 't) arg = Absent | Null | Bytes 't | Value "'x message"

section \<open>Stacks\<close>

text \<open>
  A middleware has a request part, a response part, or both. The parts call back once, with the
  arguments replaced; of the request they see the endpoint.
\<close>

record ('x, 't, 'e) middleware =
  mw_request :: "(string \<Rightarrow> ('x, 't) arg \<times> ('x, 't) arg \<Rightarrow> ('x, 't) arg \<times> ('x, 't) arg) option"
  mw_response :: "(string \<Rightarrow> 'e option \<times> ('x, 't) arg \<times> ('x, 't) arg \<Rightarrow> 'e option \<times> ('x, 't) arg \<times> ('x, 't) arg) option"

text \<open>\<open>callRequestMiddleware\<close>, with the index it increments: what the handler is called with.\<close>

function callRequestMiddleware ::
  "('x, 't, 'e) middleware list \<Rightarrow> string \<Rightarrow> nat \<Rightarrow> ('x, 't) arg \<times> ('x, 't) arg \<Rightarrow> ('x, 't) arg \<times> ('x, 't) arg"
where
  "callRequestMiddleware mws req i args =
    (if i < length mws then
       (case mw_request (mws ! i) of
          Some f \<Rightarrow> callRequestMiddleware mws req (Suc i) (f req args)
        | None \<Rightarrow> callRequestMiddleware mws req (Suc i) args)
     else args)"
  by pat_completeness auto

termination
  by (relation "measure (\<lambda>(mws, req, i, args). length mws - i)") auto

declare callRequestMiddleware.simps [simp del]

text \<open>\<open>callResponseMiddleware\<close>, with the index before it is decremented: what the callback gets.\<close>

fun callResponseMiddleware ::
  "('x, 't, 'e) middleware list \<Rightarrow> string \<Rightarrow> nat \<Rightarrow> 'e option \<times> ('x, 't) arg \<times> ('x, 't) arg \<Rightarrow> 'e option \<times> ('x, 't) arg \<times> ('x, 't) arg"
where
  "callResponseMiddleware mws req 0 res = res"
| "callResponseMiddleware mws req (Suc i) res =
    (case mw_response (mws ! i) of
       Some f \<Rightarrow> callResponseMiddleware mws req i (f req res)
     | None \<Rightarrow> callResponseMiddleware mws req i res)"

text \<open>A run of the stack around a handler.\<close>

definition run_stack ::
  "('x, 't, 'e) middleware list \<Rightarrow> string \<Rightarrow> (('x, 't) arg \<times> ('x, 't) arg \<Rightarrow> 'e option \<times> ('x, 't) arg \<times> ('x, 't) arg) \<Rightarrow> ('x, 't) arg \<times> ('x, 't) arg \<Rightarrow>
   'e option \<times> ('x, 't) arg \<times> ('x, 't) arg"
where
  "run_stack mws req handler args =
     callResponseMiddleware mws req (length mws) (handler (callRequestMiddleware mws req 0 args))"

section \<open>Tombstones\<close>

definition faultyAsTombstone :: "update \<Rightarrow> update" where
  "faultyAsTombstone change =
    (if u_status change = Faulty \<and> u_tombstone change
     then change\<lparr>u_status := Tombstone, u_tombstone := False\<rparr> else change)"

definition tombstoneAsFaulty :: "update \<Rightarrow> update" where
  "tombstoneAsFaulty change =
    (if u_status change = Tombstone then change\<lparr>u_status := Faulty, u_tombstone := True\<rparr> else change)"

definition patch_changes :: "(update \<Rightarrow> update) \<Rightarrow> ('x, 't) arg \<Rightarrow> ('x, 't) arg" where
  "patch_changes patcher msg =
    (case msg of Value m \<Rightarrow> Value (m\<lparr>msg_changes := map_option (map patcher) (msg_changes m)\<rparr>) | _ \<Rightarrow> msg)"

definition patch_membership :: "(update \<Rightarrow> update) \<Rightarrow> ('x, 't) arg \<Rightarrow> ('x, 't) arg" where
  "patch_membership patcher msg =
    (case msg of Value m \<Rightarrow> Value (m\<lparr>msg_membership := map_option (map patcher) (msg_membership m)\<rparr>) | _ \<Rightarrow> msg)"

definition requestPatcher :: "string \<Rightarrow> ('x, 't) arg \<Rightarrow> (update \<Rightarrow> update) \<Rightarrow> ('x, 't) arg" where
  "requestPatcher endpoint msg patcher =
    (if endpoint = ''/protocol/ping'' \<or> endpoint = ''/protocol/ping-req'' then patch_changes patcher msg else msg)"

definition responsePatcher :: "string \<Rightarrow> ('x, 't) arg \<Rightarrow> (update \<Rightarrow> update) \<Rightarrow> ('x, 't) arg" where
  "responsePatcher endpoint msg patcher =
    (if endpoint = ''/protocol/ping'' \<or> endpoint = ''/protocol/ping-req'' then patch_changes patcher msg
     else if endpoint = ''/protocol/join'' then patch_membership patcher msg
     else msg)"

definition tombstonePatchServerMiddleware :: "('x, 't, 'e) middleware" where
  "tombstonePatchServerMiddleware =
     \<lparr>mw_request = Some (\<lambda>req (arg2, arg3). (arg2, requestPatcher req arg3 faultyAsTombstone)),
      mw_response = Some (\<lambda>req (err, res1, res2). (err, res1, responsePatcher req res2 tombstoneAsFaulty))\<rparr>"

definition tombstonePatchClientMiddleware :: "('x, 't, 'e) middleware" where
  "tombstonePatchClientMiddleware =
     \<lparr>mw_request = Some (\<lambda>req (arg2, arg3). (arg2, requestPatcher req arg3 tombstoneAsFaulty)),
      mw_response = Some (\<lambda>req (err, res1, res2). (err, responsePatcher req res1 faultyAsTombstone, res2))\<rparr>"

section \<open>Encoding\<close>

text \<open>Bytes that parse become the value, bytes that do not stay.\<close>

definition parse_arg :: "('t \<Rightarrow> 'x message option) \<Rightarrow> ('x, 't) arg \<Rightarrow> ('x, 't) arg" where
  "parse_arg dec a = (case a of Bytes s \<Rightarrow> (case dec s of Some m \<Rightarrow> Value m | None \<Rightarrow> a) | _ \<Rightarrow> a)"

definition transportServerMiddleware ::
  "('x message option \<Rightarrow> 't) \<Rightarrow> ('t \<Rightarrow> 'x message option) \<Rightarrow> ('x, 't, 'e) middleware"
where
  "transportServerMiddleware enc dec =
     \<lparr>mw_request = Some (\<lambda>req (arg2, arg3).
        if req = ''/proxy/req'' then (parse_arg dec arg2, arg3) else (arg2, parse_arg dec arg3)),
      mw_response = Some (\<lambda>req (err, res1, res2).
        (err, res1, (case res2 of Value m \<Rightarrow> Bytes (enc (Some m)) | Null \<Rightarrow> Bytes (enc None) | _ \<Rightarrow> res2)))\<rparr>"

text \<open>\<open>setupChannel\<close>: the stacks of a node's client and of its server.\<close>

definition client_stack :: "('x, 't, 'e) middleware list" where
  "client_stack = [tombstonePatchClientMiddleware]"

definition server_stack ::
  "('x message option \<Rightarrow> 't) \<Rightarrow> ('t \<Rightarrow> 'x message option) \<Rightarrow> ('x, 't, 'e) middleware list"
where
  "server_stack enc dec = [transportServerMiddleware enc dec, tombstonePatchServerMiddleware]"

text \<open>The wrapper of a handler: \<open>sendNotOk\<close> with the error's JSON, or \<open>sendOk\<close> with the results.\<close>

datatype ('x, 't) sent = Not_Ok 't | Sent_ok "('x, 't) arg" "('x, 't) arg"

definition registered ::
  "('x message option \<Rightarrow> 't) \<Rightarrow> ('t \<Rightarrow> 'x message option) \<Rightarrow> ('e \<Rightarrow> 't) \<Rightarrow> string \<Rightarrow>
   (('x, 't) arg \<times> ('x, 't) arg \<Rightarrow> 'e option \<times> ('x, 't) arg \<times> ('x, 't) arg) \<Rightarrow> ('x, 't) arg \<times> ('x, 't) arg \<Rightarrow> ('x, 't) sent"
where
  "registered enc dec enc_err url handler args =
    (case run_stack (server_stack enc dec) url handler args of
       (Some err, res1, res2) \<Rightarrow> Not_Ok (enc_err err)
     | (None, res1, res2) \<Rightarrow> Sent_ok res1 res2)"

text \<open>
  The client's side of a call (\<open>subChannelRequest\<close>): head and body leave as JSON, null as the text
  null, which the other side gets as bytes; the answer's second argument is parsed into the first
  result.
\<close>

definition stringify :: "('x message option \<Rightarrow> 't) \<Rightarrow> ('x, 't) arg \<Rightarrow> ('x, 't) arg" where
  "stringify enc a = (case a of Value m \<Rightarrow> Bytes (enc (Some m)) | Null \<Rightarrow> Bytes (enc None) | _ \<Rightarrow> a)"

definition client_receives ::
  "('t \<Rightarrow> 'x message option) \<Rightarrow> ('t \<Rightarrow> 'e) \<Rightarrow> ('x, 't) sent \<Rightarrow> 'e option \<times> ('x, 't) arg \<times> ('x, 't) arg"
where
  "client_receives dec dec_err s =
    (case s of
       Not_Ok t \<Rightarrow> (Some (dec_err t), Null, Null)
     | Sent_ok res1 res2 \<Rightarrow>
         (None, (case res2 of Bytes t \<Rightarrow> (case dec t of Some m \<Rightarrow> Value m | None \<Rightarrow> Null) | _ \<Rightarrow> Null), Null))"

text \<open>A call of a client, the channel between, and a handler.\<close>

definition call ::
  "('x message option \<Rightarrow> 't) \<Rightarrow> ('t \<Rightarrow> 'x message option) \<Rightarrow> ('e \<Rightarrow> 't) \<Rightarrow> ('t \<Rightarrow> 'e) \<Rightarrow> string \<Rightarrow>
   (('x, 't) arg \<times> ('x, 't) arg \<Rightarrow> 'e option \<times> ('x, 't) arg \<times> ('x, 't) arg) \<Rightarrow> ('x, 't) arg \<times> ('x, 't) arg \<Rightarrow> 'e option \<times> ('x, 't) arg \<times> ('x, 't) arg"
where
  "call enc dec enc_err dec_err url handler args =
     run_stack client_stack url
       (\<lambda>(arg2, arg3). client_receives dec dec_err
          (registered enc dec enc_err url handler (stringify enc arg2, stringify enc arg3))) args"

end
