(* ===== verification/Client.thy ===== *)
theory Client
  imports Middleware
begin

text \<open>
  The client of a ringpop node (\<open>client.js\<close>, \<open>client_request.js\<close>): requests to other nodes, the
  limit on those under way, and the scan that cancels wedged ones.

  The client is a state: its request objects by number (the uuid), the ids of those under way, the
  timer, and the callbacks that wait for the next tick, for the channel to be identified or for an
  answer. Callers' callbacks are numbered; \<^theory_text>\<open>cl_answers\<close> lists the ones that were called. The
  clock is an argument.
\<close>

section \<open>Data\<close>

datatype 't client_error =
    ClientRequestsLimitError nat int string
  | RequestCanceledError string
  | SubChannelDestroyed string string
  | InvalidHostPortError string
  | Channel_failed string
  | Server_error 't

datatype request_state =
    Initialized | WaitForIdentifiedPre | WaitForIdentifiedPost | SubChannelRequestPre | SubChannelRequestPost

record ('x, 't) client_request =
  cq_host :: string
  cq_timeout :: "int option"
  cq_endpoint :: string
  cq_head :: "('x, 't) arg"
  cq_body :: "('x, 't) arg"
  cq_timestamp :: int
  cq_cancelTimestamp :: "int option"
  cq_isCanceled :: bool
  cq_state :: request_state
  cq_callback :: "nat option"

datatype 't client_work =
    Ticked nat "'t client_error"
  | Refused nat "'t client_error"
  | Identifying nat
  | Answering nat

type_synonym ('x, 't) client_result = "'t client_error option \<times> ('x, 't) arg"

record ('x, 't) client =
  cl_objects :: "('x, 't) client_request list"
  cl_requestsById :: "nat list"
  cl_wedgedTimer :: bool
  cl_due :: "int option"
  cl_isDestroyed :: bool
  cl_work :: "'t client_work list"
  cl_sent :: "(nat \<times> string \<times> int \<times> ('x, 't) arg \<times> ('x, 't) arg) list"
  cl_answers :: "(nat \<times> ('x, 't) client_result) list"
  cl_wedgedErrors :: nat

definition new_client :: "('x, 't) client" where
  "new_client = \<lparr>cl_objects = [], cl_requestsById = [], cl_wedgedTimer = False, cl_due = None,
     cl_isDestroyed = False, cl_work = [], cl_sent = [], cl_answers = [], cl_wedgedErrors = 0\<rparr>"

text \<open>The channel as it is now: which of its parts are destroyed.\<close>

record channel =
  ch_sub_destroyed :: bool
  ch_top_destroyed :: bool

definition cl_upd :: "nat \<Rightarrow> (('x, 't) client_request \<Rightarrow> ('x, 't) client_request) \<Rightarrow> ('x, 't) client \<Rightarrow> ('x, 't) client"
where
  "cl_upd i f c = c\<lparr>cl_objects := (cl_objects c)[i := f (cl_objects c ! i)]\<rparr>"

definition cl_wait :: "'t client_work \<Rightarrow> ('x, 't) client \<Rightarrow> ('x, 't) client" where
  "cl_wait w c = c\<lparr>cl_work := cl_work c @ [w]\<rparr>"

section \<open>A request\<close>

text \<open>
  \<open>_invokeCallback\<close> with the client's \<open>onSend\<close>: the request is no longer under way, and its
  caller's callback is called the first time only.
\<close>

definition invokeCallback :: "nat \<Rightarrow> ('x, 't) client_result \<Rightarrow> ('x, 't) client \<Rightarrow> ('x, 't) client" where
  "invokeCallback i res c =
    (case cq_callback (cl_objects c ! i) of
       None \<Rightarrow> c
     | Some k \<Rightarrow>
         cl_upd i (\<lambda>q. q\<lparr>cq_callback := None\<rparr>)
           (c\<lparr>cl_requestsById := remove1 i (cl_requestsById c), cl_answers := cl_answers c @ [(k, res)]\<rparr>))"

definition changeState :: "nat \<Rightarrow> request_state \<Rightarrow> ('x, 't) client \<Rightarrow> ('x, 't) client" where
  "changeState i st = cl_upd i (\<lambda>q. q\<lparr>cq_state := st\<rparr>)"

definition cq_cancel :: "int \<Rightarrow> nat \<Rightarrow> ('x, 't) client \<Rightarrow> ('x, 't) client" where
  "cq_cancel now i c =
     invokeCallback i (Some (RequestCanceledError (cq_endpoint (cl_objects c ! i))), Absent)
       (cl_upd i (\<lambda>q. q\<lparr>cq_cancelTimestamp := Some now, cq_isCanceled := True\<rparr>) c)"

definition cq_send :: "channel \<Rightarrow> nat \<Rightarrow> ('x, 't) client \<Rightarrow> ('x, 't) client" where
  "cq_send ch i c =
    (let q = cl_objects c ! i
     in if ch_sub_destroyed ch then cl_wait (Ticked i (SubChannelDestroyed (cq_endpoint q) ''subChannel'')) c
        else if ch_top_destroyed ch then cl_wait (Ticked i (SubChannelDestroyed (cq_endpoint q) ''topChannel'')) c
        else if \<not> validateHostPort (cq_host q) then cl_wait (Ticked i (InvalidHostPortError (cq_host q))) c
        else cl_wait (Identifying i) (changeState i WaitForIdentifiedPre c))"

text \<open>\<open>onIdentified\<close>: a canceled request stops here, an error ends it, otherwise it is sent.\<close>

definition cq_onIdentified ::
  "('x message option \<Rightarrow> 't) \<Rightarrow> nat \<Rightarrow> string option \<Rightarrow> ('x, 't) client \<Rightarrow> ('x, 't) client"
where
  "cq_onIdentified enc i err c =
    (let c1 = changeState i WaitForIdentifiedPost c; q = cl_objects c1 ! i
     in if cq_isCanceled q then c1
        else case err of
          Some e \<Rightarrow> invokeCallback i (Some (Channel_failed e), Absent) c1
        | None \<Rightarrow>
            (case callRequestMiddleware (client_stack :: ('x, 't, unit) middleware list) (cq_endpoint q) 0
                (cq_head q, cq_body q) of
               (arg2, arg3) \<Rightarrow>
                 let c2 = changeState i SubChannelRequestPre c1;
                     timeout = (case cq_timeout q of None \<Rightarrow> 30000 | Some t \<Rightarrow> if t = 0 then 30000 else t)
                 in cl_wait (Answering i)
                      (c2\<lparr>cl_sent := cl_sent c2 @ [(i, cq_host q, timeout, stringify enc arg2, stringify enc arg3)]\<rparr>)))"

text \<open>\<open>onSend\<close>: the channel's error, or the answer of the other node, back through the stack.\<close>

definition cq_onSend ::
  "('t \<Rightarrow> 'x message option) \<Rightarrow> nat \<Rightarrow> string + ('x, 't) sent \<Rightarrow> ('x, 't) client \<Rightarrow> ('x, 't) client"
where
  "cq_onSend dec i x c =
    (let c1 = changeState i SubChannelRequestPost c; q = cl_objects c1 ! i
     in if cq_isCanceled q then c1
        else
          let received = (case x of
                Inl e \<Rightarrow> (Some (Channel_failed e), Null, Null)
              | Inr s \<Rightarrow> client_receives dec Server_error s)
          in case callResponseMiddleware client_stack (cq_endpoint q) (length (client_stack :: ('x, 't, 't client_error) middleware list))
                received of
               (err, res1, res2) \<Rightarrow> invokeCallback i (err, res1) c1)"

section \<open>The client\<close>

definition wedgedRequestTimeout :: "config \<Rightarrow> int" where
  "wedgedRequestTimeout cfg = (if c_wedgedRequestTimeout cfg = 0 then 30000 else c_wedgedRequestTimeout cfg)"

definition wedgedTimerInterval :: "config \<Rightarrow> int" where
  "wedgedTimerInterval cfg = (if c_wedgedTimerInterval cfg = 0 then 1000 else c_wedgedTimerInterval cfg)"

definition scheduleWedgedTimer :: "config \<Rightarrow> int \<Rightarrow> ('x, 't) client \<Rightarrow> ('x, 't) client" where
  "scheduleWedgedTimer cfg now c = c\<lparr>cl_wedgedTimer := True, cl_due := Some (now + wedgedTimerInterval cfg)\<rparr>"

definition is_wedged :: "config \<Rightarrow> int \<Rightarrow> ('x, 't) client_request \<Rightarrow> bool" where
  "is_wedged cfg now q \<longleftrightarrow> now - cq_timestamp q \<ge> wedgedRequestTimeout cfg"

definition scanForWedgedRequests :: "config \<Rightarrow> int \<Rightarrow> ('x, 't) client \<Rightarrow> ('x, 't) client" where
  "scanForWedgedRequests cfg now c =
    (let wedged = [i \<leftarrow> cl_requestsById c. is_wedged cfg now (cl_objects c ! i)];
         c1 = fold (\<lambda>i c. cq_cancel now i (c\<lparr>cl_requestsById := remove1 i (cl_requestsById c)\<rparr>)) wedged c
     in if wedged = [] then c1 else c1\<lparr>cl_wedgedErrors := Suc (cl_wedgedErrors c1)\<rparr>)"

definition onWedgedTimeout :: "config \<Rightarrow> int \<Rightarrow> ('x, 't) client \<Rightarrow> ('x, 't) client" where
  "onWedgedTimeout cfg now c =
    (let c1 = c\<lparr>cl_due := None\<rparr>
     in if cl_isDestroyed c1 then c1 else scheduleWedgedTimer cfg now (scanForWedgedRequests cfg now c1))"

definition cl_request ::
  "config \<Rightarrow> channel \<Rightarrow> int \<Rightarrow> nat \<Rightarrow> string \<Rightarrow> int option \<Rightarrow> string \<Rightarrow> ('x, 't) arg \<Rightarrow> ('x, 't) arg \<Rightarrow>
   ('x, 't) client \<Rightarrow> ('x, 't) client"
where
  "cl_request cfg ch now k host timeout endpoint head body c =
    (let c1 = (if cl_wedgedTimer c then c else scheduleWedgedTimer cfg now c);
         inflightCurrent = length (cl_requestsById c1); inflightMax = c_inflightClientRequestsLimit cfg
     in if int inflightCurrent \<ge> inflightMax
        then cl_wait (Refused k (ClientRequestsLimitError inflightCurrent inflightMax endpoint)) c1
        else
          let i = length (cl_objects c1);
              q = \<lparr>cq_host = host, cq_timeout = timeout, cq_endpoint = endpoint, cq_head = head, cq_body = body,
                   cq_timestamp = now, cq_cancelTimestamp = None, cq_isCanceled = False,
                   cq_state = Initialized, cq_callback = Some k\<rparr>
          in cq_send ch i (c1\<lparr>cl_objects := cl_objects c1 @ [q], cl_requestsById := cl_requestsById c1 @ [i]\<rparr>))"

text \<open>The calls the client offers, with the endpoints they go to; the head is always null.\<close>

datatype client_method =
    AdminConfigGet | AdminConfigSet | AdminGossipStart | AdminGossipStop | AdminGossipTick
  | ProtocolJoin | ProtocolPing | ProtocolPingReq | ProtocolDampReq

fun endpoint_of :: "client_method \<Rightarrow> string" where
  "endpoint_of AdminConfigGet = ''/admin/config/get''"
| "endpoint_of AdminConfigSet = ''/admin/config/set''"
| "endpoint_of AdminGossipStart = ''/admin/gossip/start''"
| "endpoint_of AdminGossipStop = ''/admin/gossip/stop''"
| "endpoint_of AdminGossipTick = ''/admin/gossip/tick''"
| "endpoint_of ProtocolJoin = ''/protocol/join''"
| "endpoint_of ProtocolPing = ''/protocol/ping''"
| "endpoint_of ProtocolPingReq = ''/protocol/ping-req''"
| "endpoint_of ProtocolDampReq = ''/protocol/damp-req''"

definition client_call ::
  "config \<Rightarrow> channel \<Rightarrow> int \<Rightarrow> client_method \<Rightarrow> string \<Rightarrow> int option \<Rightarrow> ('x, 't) arg \<Rightarrow> nat \<Rightarrow>
   ('x, 't) client \<Rightarrow> ('x, 't) client"
where
  "client_call cfg ch now m host timeout body k c =
     cl_request cfg ch now k host timeout (endpoint_of m) Null body c"

definition cl_destroy :: "('x, 't) client \<Rightarrow> ('x, 't) client" where
  "cl_destroy c = c\<lparr>cl_due := None, cl_isDestroyed := True\<rparr>"

section \<open>Steps\<close>

datatype ('x, 't) client_in =
    Call nat string "int option" string "('x, 't) arg" "('x, 't) arg"
  | Tick nat
  | Identified nat "string option"
  | Answered nat "string + ('x, 't) sent"
  | Wedged_timeout
  | Destroy_client

definition cl_take :: "nat \<Rightarrow> ('x, 't) client \<Rightarrow> ('x, 't) client" where
  "cl_take n c = c\<lparr>cl_work := take n (cl_work c) @ drop (Suc n) (cl_work c)\<rparr>"

fun cl_step ::
  "('x message option \<Rightarrow> 't) \<Rightarrow> ('t \<Rightarrow> 'x message option) \<Rightarrow> config \<Rightarrow> channel \<Rightarrow> int \<Rightarrow> ('x, 't) client_in \<Rightarrow>
   ('x, 't) client \<Rightarrow> ('x, 't) client option"
where
  "cl_step enc dec cfg ch now (Call k host timeout endpoint head body) c =
     Some (cl_request cfg ch now k host timeout endpoint head body c)"
| "cl_step enc dec cfg ch now (Tick n) c =
     (if n < length (cl_work c) then
        (case cl_work c ! n of
           Ticked i e \<Rightarrow> Some (invokeCallback i (Some e, Absent) (cl_take n c))
         | Refused k e \<Rightarrow> let c1 = cl_take n c in Some (c1\<lparr>cl_answers := cl_answers c1 @ [(k, (Some e, Absent))]\<rparr>)
         | _ \<Rightarrow> None)
      else None)"
| "cl_step enc dec cfg ch now (Identified n err) c =
     (if n < length (cl_work c) then
        (case cl_work c ! n of Identifying i \<Rightarrow> Some (cq_onIdentified enc i err (cl_take n c)) | _ \<Rightarrow> None)
      else None)"
| "cl_step enc dec cfg ch now (Answered n x) c =
     (if n < length (cl_work c) then
        (case cl_work c ! n of Answering i \<Rightarrow> Some (cq_onSend dec i x (cl_take n c)) | _ \<Rightarrow> None)
      else None)"
| "cl_step enc dec cfg ch now Wedged_timeout c =
     (if cl_due c \<noteq> None then Some (onWedgedTimeout cfg now c) else None)"
| "cl_step enc dec cfg ch now Destroy_client c = Some (cl_destroy c)"

end
