(* ===== verification/Middleware_Properties.thy ===== *)
theory Middleware_Properties
  imports Middleware
begin

text \<open>The order of a stack, and that a call delivers what was sent.\<close>

definition apply_request :: "string \<Rightarrow> ('x, 't, 'e) middleware \<Rightarrow> ('x, 't) arg \<times> ('x, 't) arg \<Rightarrow> ('x, 't) arg \<times> ('x, 't) arg" where
  "apply_request req m args = (case mw_request m of None \<Rightarrow> args | Some f \<Rightarrow> f req args)"

definition apply_response :: "string \<Rightarrow> ('x, 't, 'e) middleware \<Rightarrow> 'e option \<times> ('x, 't) arg \<times> ('x, 't) arg \<Rightarrow> 'e option \<times> ('x, 't) arg \<times> ('x, 't) arg" where
  "apply_response req m res = (case mw_response m of None \<Rightarrow> res | Some f \<Rightarrow> f req res)"

lemma request_fold: "callRequestMiddleware mws req i args = fold (apply_request req) (drop i mws) args"
proof (induction mws req i args rule: callRequestMiddleware.induct)
  case (1 mws req i args)
  show ?case
  proof (cases "i < length mws")
    case True
    then have "drop i mws = mws ! i # drop (Suc i) mws" by (rule Cons_nth_drop_Suc[symmetric])
    then show ?thesis
      using 1 True by (subst callRequestMiddleware.simps) (simp add: apply_request_def[abs_def] split: option.split)
  next
    case False
    then show ?thesis by (subst callRequestMiddleware.simps) simp
  qed
qed

lemma response_fold:
  "i \<le> length mws \<Longrightarrow> callResponseMiddleware mws req i res = fold (apply_response req) (rev (take i mws)) res"
  by (induction mws req i res rule: callResponseMiddleware.induct)
     (auto simp: take_Suc_conv_app_nth apply_response_def split: option.split)

text \<open>
  A middleware stack is an onion: requests pass the middlewares in order, then the handler, and
  responses pass them in reverse, middlewares without the method being skipped.
\<close>

theorem stack_is_onion:
  "run_stack mws req handler args =
    fold (apply_response req) (rev mws) (handler (fold (apply_request req) mws args))"
  by (simp add: run_stack_def request_fold response_fold)

section \<open>A call\<close>

lemma patch_inverse:
  "\<not> (u_status c = Faulty \<and> u_tombstone c) \<Longrightarrow> (u_status c = Tombstone \<longrightarrow> \<not> u_tombstone c) \<Longrightarrow>
   faultyAsTombstone (tombstoneAsFaulty c) = c"
  by (auto simp: faultyAsTombstone_def tombstoneAsFaulty_def)

lemma no_tombstone: "u_status (tombstoneAsFaulty c) \<noteq> Tombstone"
  by (simp add: tombstoneAsFaulty_def)

text \<open>Changes as the nodes make them: the flag is for the wire only.\<close>

definition unflagged :: "'x message \<Rightarrow> bool" where
  "unflagged m \<longleftrightarrow> (\<forall>us. msg_changes m = Some us \<longrightarrow> (\<forall>c \<in> set us. \<not> u_tombstone c)) \<and>
     (\<forall>us. msg_membership m = Some us \<longrightarrow> (\<forall>c \<in> set us. \<not> u_tombstone c))"

lemma map_inverse:
  "(\<forall>us. x = Some us \<longrightarrow> (\<forall>c \<in> set us. \<not> u_tombstone c)) \<Longrightarrow>
   map_option (map faultyAsTombstone) (map_option (map tombstoneAsFaulty) x) = x"
  by (cases x) (auto simp: patch_inverse map_idI)

lemma patch_changes_inverse:
  "unflagged m \<Longrightarrow> patch_changes faultyAsTombstone (patch_changes tombstoneAsFaulty (Value m)) = Value m"
  using map_inverse by (simp add: patch_changes_def unflagged_def)

lemma patch_membership_inverse:
  "unflagged m \<Longrightarrow> patch_membership faultyAsTombstone (patch_membership tombstoneAsFaulty (Value m)) = Value m"
  using map_inverse by (simp add: patch_membership_def unflagged_def)

lemma request_inverse:
  "unflagged m \<Longrightarrow> requestPatcher ep (requestPatcher ep (Value m) tombstoneAsFaulty) faultyAsTombstone = Value m"
  by (simp add: requestPatcher_def patch_changes_inverse)

lemma response_inverse:
  "unflagged m \<Longrightarrow> responsePatcher ep (responsePatcher ep (Value m) tombstoneAsFaulty) faultyAsTombstone = Value m"
  by (simp add: responsePatcher_def patch_changes_inverse patch_membership_inverse)

lemma patcher_value:
  "\<exists>m'. requestPatcher ep (Value m) f = Value m'" "\<exists>m'. responsePatcher ep (Value m) f = Value m'"
  by (simp_all add: requestPatcher_def responsePatcher_def patch_changes_def patch_membership_def)

lemma patcher_other [simp]:
  "requestPatcher ep Absent f = Absent" "requestPatcher ep Null f = Null" "requestPatcher ep (Bytes s) f = Bytes s"
  "responsePatcher ep Absent f = Absent" "responsePatcher ep Null f = Null" "responsePatcher ep (Bytes s) f = Bytes s"
  by (simp_all add: requestPatcher_def responsePatcher_def patch_changes_def patch_membership_def)

text \<open>A list of changes with a tombstone in it.\<close>

definition has_tombstone :: "update list option \<Rightarrow> bool" where
  "has_tombstone us = (case us of None \<Rightarrow> False | Some cs \<Rightarrow> Tombstone \<in> u_status ` set cs)"

lemma patched_clean: "\<not> has_tombstone (map_option (map tombstoneAsFaulty) us)"
  using no_tombstone by (auto simp: has_tombstone_def split: option.split) (metis no_tombstone)

text \<open>
  C24: A call delivers what was sent. The body a client sends to a protocol endpoint reaches the
  handler as it is, tombstones included, and so does the handler's answer to the caller; the head,
  which is null, reaches it as the bytes of the text null. On the wire neither the changes of a ping or
  ping-req, nor those of its answer, nor the members in the answer to a join contain a tombstone, so
  nodes that do not know the status read them.
\<close>

theorem call_delivers:
  assumes json: "\<And>x :: 'x message option. dec (enc x :: 't) = x" and ep: "ep \<noteq> ''/proxy/req''"
    and body: "unflagged m" and answer: "handler (Bytes (enc None), Value m) = (None, r1, Value a)" "unflagged a"
  shows "call enc dec enc_err dec_err ep handler (Null, Value m) = (None, Value a, Null) \<and>
    (\<exists>m' a'. stringify enc (snd (callRequestMiddleware client_stack ep 0 (Null, Value m))) = Bytes (enc (Some m')) \<and>
       registered enc dec enc_err ep handler (Bytes (enc None), Bytes (enc (Some m'))) = Sent_ok r1 (Bytes (enc (Some a'))) \<and>
       (ep \<in> {''/protocol/ping'', ''/protocol/ping-req''} \<longrightarrow>
          \<not> has_tombstone (msg_changes m') \<and> \<not> has_tombstone (msg_changes a')) \<and>
       (ep = ''/protocol/join'' \<longrightarrow> \<not> has_tombstone (msg_membership a')))"
proof -
  from patcher_value(1) obtain m' where m': "requestPatcher ep (Value m) tombstoneAsFaulty = (Value m' :: ('x, 't) arg)" by blast
  have there: "requestPatcher ep (Value m' :: ('x, 't) arg) faultyAsTombstone = Value m"
    using request_inverse[OF body, of ep, where 'b='t] m' by simp
  from patcher_value(2) obtain a' where a': "responsePatcher ep (Value a) tombstoneAsFaulty = (Value a' :: ('x, 't) arg)" by blast
  have again: "responsePatcher ep (Value a' :: ('x, 't) arg) faultyAsTombstone = Value a"
    using response_inverse[OF answer(2), of ep, where 'b='t] a' by simp
  have sent: "stringify enc (snd (callRequestMiddleware client_stack ep 0 (Null, Value m))) = Bytes (enc (Some m'))"
    by (simp add: client_stack_def request_fold apply_request_def tombstonePatchClientMiddleware_def stringify_def m')
  have reg: "registered enc dec enc_err ep handler (Bytes (enc None), Bytes (enc (Some m'))) = Sent_ok r1 (Bytes (enc (Some a')))"
    by (simp add: stack_is_onion apply_request_def apply_response_def registered_def server_stack_def
        tombstonePatchServerMiddleware_def transportServerMiddleware_def parse_arg_def json ep there answer a')
  have "call enc dec enc_err dec_err ep handler (Null, Value m) = (None, Value a, Null)"
    using reg by (simp add: call_def client_stack_def stack_is_onion apply_request_def apply_response_def
        tombstonePatchClientMiddleware_def stringify_def client_receives_def json m' again)
  moreover have "ep \<in> {''/protocol/ping'', ''/protocol/ping-req''} \<Longrightarrow>
      \<not> has_tombstone (msg_changes m') \<and> \<not> has_tombstone (msg_changes a')"
    using m' a' patched_clean by (auto simp: requestPatcher_def responsePatcher_def patch_changes_def)
  moreover have "ep = ''/protocol/join'' \<Longrightarrow> \<not> has_tombstone (msg_membership a')"
    using a' patched_clean by (auto simp: responsePatcher_def patch_membership_def)
  ultimately show ?thesis using sent reg by blast
qed

text \<open>The example: a ping with a tombstone, answered with another.\<close>

definition demo_message :: "unit message" where
  "demo_message = \<lparr>msg_changes = Some [\<lparr>u_id = None, u_address = ''b:1'', u_status = Tombstone, u_inc = 3,
     u_source = None, u_sourceInc = None, u_dampScore = None, u_tombstone = False\<rparr>], msg_membership = None, msg_rest = ()\<rparr>"

lemma call_delivers_witness:
  "call id id (\<lambda>e :: unit. None) (\<lambda>t. ()) ''/protocol/ping'' (\<lambda>args. (None, Absent, Value demo_message))
     (Null, Value demo_message) = (None, Value demo_message, Null) \<and> has_tombstone (msg_changes demo_message)"
proof -
  have u: "unflagged demo_message" by (simp add: unflagged_def demo_message_def)
  have "call id id (\<lambda>e :: unit. None) (\<lambda>t. ()) ''/protocol/ping'' (\<lambda>args. (None, Absent, Value demo_message))
     (Null, Value demo_message) = (None, Value demo_message, Null)"
    by (rule conjunct1[OF call_delivers]) (simp_all add: u)
  then show ?thesis by (simp add: has_tombstone_def demo_message_def)
qed

end
