(* ===== verification/Client_Properties.thy ===== *)
theory Client_Properties
  imports Client Middleware_Properties
begin

text \<open>
  A call of the client is answered once, and no later than a timeout and a scan interval after it
  was made; there are never more requests under way than the limit allows.
\<close>

section \<open>The invariant\<close>

fun wid :: "'t client_work \<Rightarrow> nat option" where
  "wid (Ticked i e) = Some i"
| "wid (Refused k e) = None"
| "wid (Identifying i) = Some i"
| "wid (Answering i) = Some i"

definition cl_inv :: "('x, 't) client \<Rightarrow> bool" where
  "cl_inv c \<longleftrightarrow>
    (\<forall>w \<in> set (cl_work c). \<forall>i. wid w = Some i \<longrightarrow> i < length (cl_objects c)) \<and>
    distinct (cl_requestsById c) \<and>
    (\<forall>i \<in> set (cl_requestsById c). i < length (cl_objects c) \<and> \<not> cq_isCanceled (cl_objects c ! i) \<and>
       (\<exists>w \<in> set (cl_work c). wid w = Some i)) \<and>
    (\<forall>i < length (cl_objects c). cq_callback (cl_objects c ! i) \<noteq> None \<longleftrightarrow> i \<in> set (cl_requestsById c))"

definition cl_answered :: "nat \<Rightarrow> ('x, 't) client \<Rightarrow> nat" where
  "cl_answered k c = length [a \<leftarrow> cl_answers c. fst a = k]"

definition refused :: "nat \<Rightarrow> 't client_work \<Rightarrow> bool" where
  "refused k w \<longleftrightarrow> (case w of Refused k' e \<Rightarrow> k' = k | _ \<Rightarrow> False)"

definition cl_open :: "nat \<Rightarrow> ('x, 't) client \<Rightarrow> nat" where
  "cl_open k c = length [q \<leftarrow> cl_objects c. cq_callback q = Some k] + length [w \<leftarrow> cl_work c. refused k w]"

lemma filter_update:
  "i < length xs \<Longrightarrow> length (filter P (xs[i := y])) + (if P (xs ! i) then 1 else 0) =
   length (filter P xs) + (if P y then 1 else 0)"
proof (induction xs arbitrary: i)
  case (Cons x xs)
  then show ?case by (cases i) auto
qed simp

lemma upd_sel [simp]:
  "length (cl_objects (cl_upd i f c)) = length (cl_objects c)"
  "cl_requestsById (cl_upd i f c) = cl_requestsById c" "cl_work (cl_upd i f c) = cl_work c"
  "cl_answers (cl_upd i f c) = cl_answers c" "cl_due (cl_upd i f c) = cl_due c"
  "cl_isDestroyed (cl_upd i f c) = cl_isDestroyed c" "cl_wedgedTimer (cl_upd i f c) = cl_wedgedTimer c"
  by (simp_all add: cl_upd_def)

lemma upd_nth: "i < length (cl_objects c) \<Longrightarrow>
  cl_objects (cl_upd i f c) ! j = (if j = i then f (cl_objects c ! i) else cl_objects c ! j)"
  by (simp add: cl_upd_def nth_list_update)

lemma cl_wait_sel [simp]:
  "cl_objects (cl_wait w c) = cl_objects c" "cl_requestsById (cl_wait w c) = cl_requestsById c"
  "cl_work (cl_wait w c) = cl_work c @ [w]" "cl_answers (cl_wait w c) = cl_answers c"
  "cl_due (cl_wait w c) = cl_due c" "cl_isDestroyed (cl_wait w c) = cl_isDestroyed c"
  "cl_wedgedTimer (cl_wait w c) = cl_wedgedTimer c"
  by (simp_all add: cl_wait_def)

lemma changeState_sel [simp]:
  "length (cl_objects (changeState i st c)) = length (cl_objects c)"
  "cl_requestsById (changeState i st c) = cl_requestsById c" "cl_work (changeState i st c) = cl_work c"
  "cl_answers (changeState i st c) = cl_answers c" "cl_due (changeState i st c) = cl_due c"
  "cl_isDestroyed (changeState i st c) = cl_isDestroyed c" "cl_wedgedTimer (changeState i st c) = cl_wedgedTimer c"
  by (simp_all add: changeState_def)

text \<open>A change to a request object that keeps what the invariant and the bounds look at.\<close>

definition similar :: "('x, 't) client \<Rightarrow> ('x, 't) client \<Rightarrow> bool" where
  "similar c c' \<longleftrightarrow> length (cl_objects c') = length (cl_objects c) \<and>
     (\<forall>i < length (cl_objects c). cq_callback (cl_objects c' ! i) = cq_callback (cl_objects c ! i) \<and>
        cq_isCanceled (cl_objects c' ! i) = cq_isCanceled (cl_objects c ! i) \<and>
        cq_timestamp (cl_objects c' ! i) = cq_timestamp (cl_objects c ! i)) \<and>
     cl_requestsById c' = cl_requestsById c \<and> cl_answers c' = cl_answers c"

lemma similar_state: "similar c (changeState i st c)"
  by (cases "i < length (cl_objects c)")
     (auto simp: similar_def changeState_def upd_nth, simp_all add: cl_upd_def list_update_beyond)

lemma similar_trans: "similar a b \<Longrightarrow> similar b c \<Longrightarrow> similar a c"
  by (simp add: similar_def)

lemma similar_callbacks:
  assumes "similar c c'"
  shows "map cq_callback (cl_objects c') = map cq_callback (cl_objects c)"
  using assms by (simp add: similar_def list_eq_iff_nth_eq)

lemma filter_callback: "length [q \<leftarrow> xs. cq_callback q = Some k] = length [x \<leftarrow> map cq_callback xs. x = Some k]"
  by (induction xs) auto

lemma similar_open:
  assumes "similar c c'" "[w \<leftarrow> cl_work c'. refused k w] = [w \<leftarrow> cl_work c. refused k w]"
  shows "cl_open k c' = cl_open k c" "cl_answered k c' = cl_answered k c"
  using assms similar_callbacks[OF assms(1)]
  by (simp_all add: cl_open_def filter_callback cl_answered_def similar_def)

lemma similar_inv:
  assumes "similar c c'" "cl_inv c"
    "\<forall>w \<in> set (cl_work c'). \<forall>i. wid w = Some i \<longrightarrow> i < length (cl_objects c)"
    "\<forall>i \<in> set (cl_requestsById c). \<exists>w \<in> set (cl_work c'). wid w = Some i"
  shows "cl_inv c'"
  using assms by (simp add: cl_inv_def similar_def)

section \<open>Calling back\<close>

text \<open>The callback of a request that is under way; its work may be gone already.\<close>

lemma invoke_open:
  assumes "i < length (cl_objects c)"
  shows "cl_answered k (invokeCallback i res c) + cl_open k (invokeCallback i res c) = cl_answered k c + cl_open k c"
proof (cases "cq_callback (cl_objects c ! i)")
  case None
  then show ?thesis by (simp add: invokeCallback_def)
next
  case (Some k')
  then show ?thesis
    using filter_update[OF assms, of "\<lambda>q. cq_callback q = Some k" "(cl_objects c ! i)\<lparr>cq_callback := None\<rparr>"]
    by (simp add: invokeCallback_def cl_answered_def cl_open_def cl_upd_def split: if_splits)
qed

text \<open>Everything but a continuation for \<^theory_text>\<open>i\<close>.\<close>

definition inv_but :: "nat \<Rightarrow> ('x, 't) client \<Rightarrow> bool" where
  "inv_but i c \<longleftrightarrow>
    (\<forall>w \<in> set (cl_work c). \<forall>i. wid w = Some i \<longrightarrow> i < length (cl_objects c)) \<and>
    distinct (cl_requestsById c) \<and>
    (\<forall>j \<in> set (cl_requestsById c). j < length (cl_objects c) \<and>
       (j \<noteq> i \<longrightarrow> \<not> cq_isCanceled (cl_objects c ! j) \<and> (\<exists>w \<in> set (cl_work c). wid w = Some j))) \<and>
    (\<forall>j < length (cl_objects c). j \<noteq> i \<longrightarrow> (cq_callback (cl_objects c ! j) \<noteq> None \<longleftrightarrow> j \<in> set (cl_requestsById c))) \<and>
    i < length (cl_objects c) \<and> (i \<in> set (cl_requestsById c) \<longrightarrow> cq_callback (cl_objects c ! i) \<noteq> None)"

lemma invoke_inv:
  assumes "inv_but i c"
  shows "cl_inv (invokeCallback i res c)"
proof (cases "cq_callback (cl_objects c ! i)")
  case None
  then show ?thesis using assms by (auto simp: invokeCallback_def inv_but_def cl_inv_def)
next
  case (Some k)
  let ?c = "invokeCallback i res c"
  have i: "i < length (cl_objects c)" using assms by (simp add: inv_but_def)
  have c': "cl_work ?c = cl_work c" "cl_requestsById ?c = remove1 i (cl_requestsById c)"
    "cl_objects ?c = (cl_objects c)[i := (cl_objects c ! i)\<lparr>cq_callback := None\<rparr>]"
    using Some by (simp_all add: invokeCallback_def cl_upd_def)
  have d: "distinct (cl_requestsById c)" using assms by (simp add: inv_but_def)
  show ?thesis
    using assms i unfolding cl_inv_def c' inv_but_def
    by (auto simp: nth_list_update set_remove1_eq[OF d] distinct_remove1)
qed

lemma take_work:
  "n < length (cl_work c) \<Longrightarrow> cl_work c = take n (cl_work c) @ cl_work c ! n # drop (Suc n) (cl_work c) \<and>
   cl_work (cl_take n c) = take n (cl_work c) @ drop (Suc n) (cl_work c)"
  by (simp add: cl_take_def id_take_nth_drop)

lemma take_sel [simp]:
  "cl_objects (cl_take n c) = cl_objects c" "cl_requestsById (cl_take n c) = cl_requestsById c"
  "cl_answers (cl_take n c) = cl_answers c" "cl_due (cl_take n c) = cl_due c"
  "cl_isDestroyed (cl_take n c) = cl_isDestroyed c" "cl_wedgedTimer (cl_take n c) = cl_wedgedTimer c"
  by (simp_all add: cl_take_def)

lemma take_inv_but:
  assumes inv: "cl_inv c" and n: "n < length (cl_work c)" and w: "wid (cl_work c ! n) = Some i"
  shows "inv_but i (cl_take n c)"
proof -
  note t = take_work[OF n]
  have sub: "set (cl_work (cl_take n c)) \<subseteq> set (cl_work c)"
    using t by (metis (no_types, lifting) Un_iff list.set_intros(2) set_append subsetI)
  have i: "i < length (cl_objects c)" using inv w n by (auto simp: cl_inv_def)
  have other: "\<exists>w \<in> set (cl_work (cl_take n c)). wid w = Some j"
    if j: "j \<in> set (cl_requestsById c)" "j \<noteq> i" for j
  proof -
    from inv j obtain v where v: "v \<in> set (cl_work c)" "wid v = Some j" unfolding cl_inv_def by blast
    then have "v \<noteq> cl_work c ! n" using w j(2) by auto
    then have "v \<in> set (take n (cl_work c) @ drop (Suc n) (cl_work c))"
      using v(1) t by (metis Un_iff insert_iff list.simps(15) set_append)
    then show ?thesis using t v(2) by metis
  qed
  show ?thesis
    using inv sub i other unfolding inv_but_def cl_inv_def by auto
qed

lemma take_refused:
  assumes "n < length (cl_work c)" "wid (cl_work c ! n) = Some i"
  shows "[w \<leftarrow> cl_work (cl_take n c). refused k w] = [w \<leftarrow> cl_work c. refused k w]"
proof -
  have "\<not> refused k (cl_work c ! n)" using assms(2) by (cases "cl_work c ! n") (simp_all add: refused_def)
  then show ?thesis using take_work[OF assms(1)] by (metis (no_types, lifting) filter.simps(2) filter_append)
qed

lemma take_open:
  assumes "n < length (cl_work c)" "wid (cl_work c ! n) = Some i"
  shows "cl_open k (cl_take n c) = cl_open k c" "cl_answered k (cl_take n c) = cl_answered k c"
  using take_refused[OF assms] by (simp_all add: cl_open_def cl_answered_def)

section \<open>Every step keeps the invariant\<close>

lemma similar_inv_but:
  assumes "similar c c'" "cl_work c' = cl_work c" "inv_but i c"
  shows "inv_but i c'"
  using assms unfolding inv_but_def similar_def by auto

text \<open>The request \<^theory_text>\<open>i\<close> waits for the next piece of work, or is no longer under way.\<close>

lemma inv_but_wait:
  assumes "inv_but i c" "wid w = Some i" "\<not> cq_isCanceled (cl_objects c ! i)"
    "cq_callback (cl_objects c ! i) \<noteq> None \<longleftrightarrow> i \<in> set (cl_requestsById c)"
  shows "cl_inv (cl_wait w c)"
  using assms unfolding inv_but_def cl_inv_def by auto

lemma inv_but_drop:
  assumes "inv_but i c" "i \<notin> set (cl_requestsById c)" "cq_callback (cl_objects c ! i) = None"
  shows "cl_inv c"
  using assms unfolding inv_but_def cl_inv_def by auto

lemma inv_at:
  assumes inv: "cl_inv c" and n: "n < length (cl_work c)" and w: "wid (cl_work c ! n) = Some i"
  shows "i < length (cl_objects c)"
    "cq_callback (cl_objects c ! i) \<noteq> None \<longleftrightarrow> i \<in> set (cl_requestsById c)"
    "cq_isCanceled (cl_objects c ! i) \<Longrightarrow> i \<notin> set (cl_requestsById c)"
proof -
  have "cl_work c ! n \<in> set (cl_work c)" using n by simp
  then show "i < length (cl_objects c)" using inv w unfolding cl_inv_def by blast
  then show "cq_callback (cl_objects c ! i) \<noteq> None \<longleftrightarrow> i \<in> set (cl_requestsById c)"
    using inv unfolding cl_inv_def by blast
  show "cq_isCanceled (cl_objects c ! i) \<Longrightarrow> i \<notin> set (cl_requestsById c)"
    using inv unfolding cl_inv_def by blast
qed

lemma state_same:
  assumes "i < length (cl_objects c)"
  shows "cq_isCanceled (cl_objects (changeState i st c) ! i) = cq_isCanceled (cl_objects c ! i)"
    "cq_callback (cl_objects (changeState i st c) ! i) = cq_callback (cl_objects c ! i)"
    "cq_timestamp (cl_objects (changeState i st c) ! j) = cq_timestamp (cl_objects c ! j)"
  using assms by (simp_all add: changeState_def upd_nth)

text \<open>What a callback of the channel does: stop, call back, or wait for the next one.\<close>

definition carried_on :: "nat \<Rightarrow> ('x, 't) client \<Rightarrow> ('x, 't) client \<Rightarrow> bool" where
  "carried_on i c c' \<longleftrightarrow>
    (cq_isCanceled (cl_objects c ! i) \<and> similar c c' \<and> cl_work c' = cl_work c) \<or>
    (\<exists>c1 res. similar c c1 \<and> cl_work c1 = cl_work c \<and> c' = invokeCallback i res c1) \<or>
    (\<not> cq_isCanceled (cl_objects c ! i) \<and> similar c c' \<and>
      (\<exists>w. cl_work c' = cl_work c @ [w] \<and> wid w = Some i))"

lemma onIdentified_cases: "i < length (cl_objects c) \<Longrightarrow> carried_on i c (cq_onIdentified enc i err c)"
proof -
  assume i: "i < length (cl_objects c)"
  let ?c1 = "changeState i WaitForIdentifiedPost c"
  show ?thesis
  proof (cases "cq_isCanceled (cl_objects c ! i)")
    case True
    then show ?thesis
      using state_same(1)[OF i, of WaitForIdentifiedPost] similar_state[of c i]
      by (simp add: carried_on_def cq_onIdentified_def Let_def)
  next
    case False
    show ?thesis
    proof (cases err)
      case (Some e)
      then have "cq_onIdentified enc i err c = invokeCallback i (Some (Channel_failed e), Absent) ?c1"
        using False state_same(1)[OF i, of WaitForIdentifiedPost] by (simp add: cq_onIdentified_def Let_def)
      moreover have "similar c ?c1" "cl_work ?c1 = cl_work c" by (simp_all add: similar_state)
      ultimately show ?thesis unfolding carried_on_def by blast
    next
      case None
      then obtain sent where eq: "cq_onIdentified enc i err c =
          cl_wait (Answering i) ((changeState i SubChannelRequestPre ?c1)\<lparr>cl_sent := sent\<rparr>)"
        using False state_same(1)[OF i, of WaitForIdentifiedPost]
        by (simp add: cq_onIdentified_def Let_def case_prod_beta)
      have "similar c (changeState i SubChannelRequestPre ?c1)"
        by (rule similar_trans[OF similar_state similar_state])
      then have "similar c (cl_wait (Answering i) ((changeState i SubChannelRequestPre ?c1)\<lparr>cl_sent := sent\<rparr>))"
        by (simp add: similar_def)
      then show ?thesis using eq False by (auto simp: carried_on_def)
    qed
  qed
qed

lemma onSend_cases: "i < length (cl_objects c) \<Longrightarrow> carried_on i c (cq_onSend dec i x c)"
proof -
  assume i: "i < length (cl_objects c)"
  let ?c1 = "changeState i SubChannelRequestPost c"
  have s: "similar c ?c1" "cl_work ?c1 = cl_work c" by (simp_all add: similar_state)
  show ?thesis
  proof (cases "cq_isCanceled (cl_objects c ! i)")
    case True
    then show ?thesis
      using state_same(1)[OF i, of SubChannelRequestPost] s by (simp add: carried_on_def cq_onSend_def Let_def)
  next
    case False
    then obtain res where "cq_onSend dec i x c = invokeCallback i res ?c1"
      using state_same(1)[OF i, of SubChannelRequestPost]
      by (simp add: cq_onSend_def Let_def case_prod_beta)
    then show ?thesis using s unfolding carried_on_def by blast
  qed
qed

lemma carried_on_ok:
  assumes inv: "cl_inv c" and n: "n < length (cl_work c)" and w: "wid (cl_work c ! n) = Some i"
    and c: "carried_on i (cl_take n c) c'"
  shows "cl_inv c'" "cl_answered k c' + cl_open k c' = cl_answered k c + cl_open k c"
proof -
  note at = inv_at[OF inv n w] and but = take_inv_but[OF inv n w] and op = take_open[OF n w, of k]
  have new: "\<not> refused k v" if "wid v = Some i" for v using that by (cases v) (simp_all add: refused_def)
  from c consider
    (stop) "cq_isCanceled (cl_objects c ! i)" "similar (cl_take n c) c'" "cl_work c' = cl_work (cl_take n c)"
  | (call) c1 res where "similar (cl_take n c) c1" "cl_work c1 = cl_work (cl_take n c)" "c' = invokeCallback i res c1"
  | (more) v where "\<not> cq_isCanceled (cl_objects c ! i)" "similar (cl_take n c) c'"
      "cl_work c' = cl_work (cl_take n c) @ [v]" "wid v = Some i"
    unfolding carried_on_def by auto
  then show "cl_inv c'"
  proof cases
    case stop
    have s: "cl_objects c' ! i = cl_objects c' ! i" "cq_callback (cl_objects c' ! i) = cq_callback (cl_objects c ! i)"
      "cl_requestsById c' = cl_requestsById c"
      using stop(2) at(1) by (simp_all add: similar_def)
    show ?thesis
      by (rule inv_but_drop[OF similar_inv_but[OF stop(2,3) but]]) (use s at stop(1) in auto)
  next
    case call
    show ?thesis unfolding call(3) by (rule invoke_inv[OF similar_inv_but[OF call(1,2) but]])
  next
    case more
    have "cl_inv (cl_wait v (cl_take n c))"
      by (rule inv_but_wait[OF but more(4)]) (use more(1) at in auto)
    then show ?thesis
      by (rule similar_inv[rotated]) (use more(2,3) but more(4) at in \<open>auto simp: similar_def inv_but_def cl_inv_def\<close>)
  qed
  from c consider
    (stop) "similar (cl_take n c) c'" "cl_work c' = cl_work (cl_take n c)"
  | (call) c1 res where "similar (cl_take n c) c1" "cl_work c1 = cl_work (cl_take n c)" "c' = invokeCallback i res c1"
  | (more) v where "similar (cl_take n c) c'"
      "cl_work c' = cl_work (cl_take n c) @ [v]" "wid v = Some i"
    unfolding carried_on_def by auto
  then show "cl_answered k c' + cl_open k c' = cl_answered k c + cl_open k c"
  proof cases
    case stop
    then show ?thesis using similar_open[OF stop(1), of k] op by simp
  next
    case call
    have "i < length (cl_objects c1)" using call(1) at(1) by (simp add: similar_def)
    then show ?thesis
      using invoke_open[of i c1 k res] similar_open[OF call(1), of k] call(2,3) op by simp
  next
    case more
    then show ?thesis using similar_open[OF more(1), of k] op new[OF more(3)] by simp
  qed
qed

section \<open>Calls and scans\<close>

lemma request_cases:
  obtains (refused) e where "cl_request cfg ch now k host timeout endpoint head body c =
      cl_wait (Refused k e) (if cl_wedgedTimer c then c else scheduleWedgedTimer cfg now c)"
      "c_inflightClientRequestsLimit cfg \<le> int (length (cl_requestsById c))"
  | (called) q w where
      "cl_objects (cl_request cfg ch now k host timeout endpoint head body c) = cl_objects c @ [q]"
      "cl_work (cl_request cfg ch now k host timeout endpoint head body c) = cl_work c @ [w]"
      "cl_requestsById (cl_request cfg ch now k host timeout endpoint head body c) = cl_requestsById c @ [length (cl_objects c)]"
      "cl_answers (cl_request cfg ch now k host timeout endpoint head body c) = cl_answers c"
      "wid w = Some (length (cl_objects c))" "cq_callback q = Some k" "\<not> cq_isCanceled q" "cq_timestamp q = now"
      "int (length (cl_requestsById c)) < c_inflightClientRequestsLimit cfg"
proof -
  let ?c1 = "if cl_wedgedTimer c then c else scheduleWedgedTimer cfg now c"
  have c1: "cl_objects ?c1 = cl_objects c" "cl_requestsById ?c1 = cl_requestsById c" "cl_work ?c1 = cl_work c"
    "cl_answers ?c1 = cl_answers c"
    by (simp_all add: scheduleWedgedTimer_def)
  show thesis
  proof (cases "int (length (cl_requestsById c)) \<ge> c_inflightClientRequestsLimit cfg")
    case True
    then show thesis using refused c1 by (simp add: cl_request_def Let_def)
  next
    case False
    define i where "i = length (cl_objects c)"
    define q where "q = \<lparr>cq_host = host, cq_timeout = timeout, cq_endpoint = endpoint, cq_head = head, cq_body = body,
                   cq_timestamp = now, cq_cancelTimestamp = None, cq_isCanceled = False,
                   cq_state = Initialized, cq_callback = Some k\<rparr>"
    let ?c2 = "?c1\<lparr>cl_objects := cl_objects c @ [q], cl_requestsById := cl_requestsById c @ [i]\<rparr>"
    have eq: "cl_request cfg ch now k host timeout endpoint head body c = cq_send ch i ?c2"
      using False c1 by (simp add: cl_request_def Let_def q_def i_def del: if_split)
    obtain w st where w: "cq_send ch i ?c2 = cl_wait w ?c2 \<or> cq_send ch i ?c2 = cl_wait w (changeState i st ?c2)"
      "wid w = Some i"
      by (auto simp: cq_send_def Let_def simp del: if_split split: if_split_asm)
        (metis wid.simps(1) wid.simps(3))
    show thesis
      using w False c1
      by (elim disjE) (rule called[where w=w], auto simp: eq i_def q_def changeState_def cl_upd_def list_update_append)+
  qed
qed

definition cancel_one :: "int \<Rightarrow> nat \<Rightarrow> ('x, 't) client \<Rightarrow> ('x, 't) client" where
  "cancel_one now i c = cq_cancel now i (c\<lparr>cl_requestsById := remove1 i (cl_requestsById c)\<rparr>)"

text \<open>Nothing about the clock, the timer and the requests' times changes.\<close>

definition same_times :: "('x, 't) client \<Rightarrow> ('x, 't) client \<Rightarrow> bool" where
  "same_times c c' \<longleftrightarrow> (\<forall>j. cq_timestamp (cl_objects c' ! j) = cq_timestamp (cl_objects c ! j)) \<and>
     length (cl_objects c') = length (cl_objects c) \<and>
     cl_due c' = cl_due c \<and> cl_isDestroyed c' = cl_isDestroyed c \<and> cl_wedgedTimer c' = cl_wedgedTimer c"

lemma upd_times: "(\<And>q. cq_timestamp (f q) = cq_timestamp q) \<Longrightarrow> same_times c (cl_upd i f c)"
  by (cases "i < length (cl_objects c)") (auto simp: same_times_def cl_upd_def nth_list_update list_update_beyond)

lemma times_refl [simp]: "same_times c c"
  by (simp add: same_times_def)

lemma times_trans: "same_times a b \<Longrightarrow> same_times b c \<Longrightarrow> same_times a c"
  by (simp add: same_times_def)

lemma invoke_times: "same_times c (invokeCallback i res c)"
proof (cases "cq_callback (cl_objects c ! i)")
  case (Some k)
  let ?c1 = "c\<lparr>cl_requestsById := remove1 i (cl_requestsById c), cl_answers := cl_answers c @ [(k, res)]\<rparr>"
  have "same_times c ?c1" by (simp add: same_times_def)
  moreover have "same_times ?c1 (cl_upd i (\<lambda>q. q\<lparr>cq_callback := None\<rparr>) ?c1)" by (rule upd_times) simp
  ultimately show ?thesis using Some times_trans by (simp add: invokeCallback_def)
qed (simp add: invokeCallback_def)

lemma invoke_byId: "set (cl_requestsById (invokeCallback i res c)) \<subseteq> set (cl_requestsById c)"
  by (simp add: invokeCallback_def set_remove1_subset split: option.split)

lemma cancel_one_ok:
  assumes inv: "cl_inv c" and i: "i \<in> set (cl_requestsById c)"
  shows "cl_inv (cancel_one now i c)"
    "cl_answered k (cancel_one now i c) + cl_open k (cancel_one now i c) = cl_answered k c + cl_open k c"
    "cl_requestsById (cancel_one now i c) = remove1 i (cl_requestsById c)"
    "same_times c (cancel_one now i c)"
proof -
  have len: "i < length (cl_objects c)" using inv i by (simp add: cl_inv_def)
  define c1 where "c1 = c\<lparr>cl_requestsById := remove1 i (cl_requestsById c)\<rparr>"
  define c2 where "c2 = cl_upd i (\<lambda>q. q\<lparr>cq_cancelTimestamp := Some now, cq_isCanceled := True\<rparr>) c1"
  obtain res where eq: "cancel_one now i c = invokeCallback i res c2"
    by (simp add: cancel_one_def cq_cancel_def c1_def[symmetric] c2_def[symmetric])
  have d: "distinct (cl_requestsById c)" using inv by (simp add: cl_inv_def)
  have o: "cl_objects c2 = (cl_objects c)[i := (cl_objects c ! i)\<lparr>cq_cancelTimestamp := Some now, cq_isCanceled := True\<rparr>]"
    "cl_requestsById c2 = remove1 i (cl_requestsById c)" "cl_work c2 = cl_work c" "cl_answers c2 = cl_answers c"
    by (simp_all add: c2_def c1_def cl_upd_def)
  have "inv_but i c2"
    using inv len d unfolding inv_but_def cl_inv_def o
    by (auto simp: nth_list_update set_remove1_eq[OF d] distinct_remove1)
  then show "cl_inv (cancel_one now i c)" unfolding eq by (rule invoke_inv)
  have "map cq_callback (cl_objects c2) = map cq_callback (cl_objects c)"
    using len by (auto simp: o(1) list_eq_iff_nth_eq nth_list_update)
  then have "cl_open k c2 = cl_open k c" "cl_answered k c2 = cl_answered k c"
    using o by (simp_all add: cl_open_def filter_callback cl_answered_def del: map_update)
  then show "cl_answered k (cancel_one now i c) + cl_open k (cancel_one now i c) = cl_answered k c + cl_open k c"
    using invoke_open[of i c2 k res] len o(1) by (simp add: eq)
  have "remove1 i (remove1 i (cl_requestsById c)) = remove1 i (cl_requestsById c)"
    using d by (simp add: remove1_idem)
  then show "cl_requestsById (cancel_one now i c) = remove1 i (cl_requestsById c)"
    using o(2) by (simp add: eq invokeCallback_def split: option.split)
  have "same_times c c1" by (simp add: same_times_def c1_def)
  moreover have "same_times c1 c2" unfolding c2_def by (rule upd_times) simp
  ultimately show "same_times c (cancel_one now i c)"
    unfolding eq using invoke_times times_trans by blast
qed

lemma cancel_many:
  assumes "cl_inv c" "distinct is" "set is \<subseteq> set (cl_requestsById c)"
  shows "cl_inv (fold (cancel_one now) is c) \<and>
    cl_answered k (fold (cancel_one now) is c) + cl_open k (fold (cancel_one now) is c) = cl_answered k c + cl_open k c \<and>
    set (cl_requestsById (fold (cancel_one now) is c)) = set (cl_requestsById c) - set is \<and>
    same_times c (fold (cancel_one now) is c)"
  using assms
proof (induction "is" arbitrary: c)
  case (Cons i "is")
  note c1 = cancel_one_ok[OF Cons.prems(1), where i=i and now=now]
  have d: "distinct (cl_requestsById c)" using Cons.prems(1) by (simp add: cl_inv_def)
  have i: "i \<in> set (cl_requestsById c)" using Cons.prems(3) by simp
  have "set is \<subseteq> set (cl_requestsById (cancel_one now i c))"
    using Cons.prems(2,3) c1(3)[OF i] by (auto simp: set_remove1_eq[OF d])
  from Cons.IH[OF c1(1)[OF i] _ this] Cons.prems(2)
  show ?case
    using c1(2)[OF i, of k] c1(3,4)[OF i] times_trans by (auto simp: set_remove1_eq[OF d])
qed simp

lemma scan_ok:
  fixes c :: "('x, 't) client"
  assumes inv: "cl_inv c"
  shows "cl_inv (scanForWedgedRequests cfg now c)"
    "cl_answered k (scanForWedgedRequests cfg now c) + cl_open k (scanForWedgedRequests cfg now c) =
      cl_answered k c + cl_open k c"
    "set (cl_requestsById (scanForWedgedRequests cfg now c)) =
      {i \<in> set (cl_requestsById c). \<not> is_wedged cfg now (cl_objects c ! i)}"
    "same_times c (scanForWedgedRequests cfg now c)"
proof -
  let ?w = "[i \<leftarrow> cl_requestsById c. is_wedged cfg now (cl_objects c ! i)]"
  let ?c1 = "fold (cancel_one now) ?w c"
  have "distinct ?w" "set ?w \<subseteq> set (cl_requestsById c)" using inv by (auto simp: cl_inv_def)
  note m = cancel_many[OF inv this, of now]
  have eq: "scanForWedgedRequests cfg now c =
      (if ?w = [] then ?c1 else ?c1\<lparr>cl_wedgedErrors := Suc (cl_wedgedErrors ?c1)\<rparr>)"
    by (simp add: scanForWedgedRequests_def Let_def cancel_one_def[abs_def])
  have "cl_inv ?c1" using m by blast
  moreover have "cl_inv (x\<lparr>cl_wedgedErrors := e\<rparr>) = cl_inv x" for x :: "('x, 't) client" and e
    by (simp add: cl_inv_def)
  ultimately show "cl_inv (scanForWedgedRequests cfg now c)" unfolding eq using inv by simp
  show "cl_answered k (scanForWedgedRequests cfg now c) + cl_open k (scanForWedgedRequests cfg now c) =
      cl_answered k c + cl_open k c"
    unfolding eq using m[of k] by (simp add: cl_answered_def cl_open_def)
  show "set (cl_requestsById (scanForWedgedRequests cfg now c)) =
      {i \<in> set (cl_requestsById c). \<not> is_wedged cfg now (cl_objects c ! i)}"
    unfolding eq using m by auto
  show "same_times c (scanForWedgedRequests cfg now c)"
    unfolding eq using m by (auto simp: same_times_def)
qed

section \<open>Runs\<close>

text \<open>
  Runs on a clock: time passes up to the instant the scan is due, at which it happens; \<^theory_text>\<open>calls\<close>
  collects the callbacks the client was given.
\<close>

inductive client_run ::
  "('x message option \<Rightarrow> 't) \<Rightarrow> ('t \<Rightarrow> 'x message option) \<Rightarrow> config \<Rightarrow> nat list \<Rightarrow> int \<Rightarrow> ('x, 't) client \<Rightarrow> bool"
  for enc dec cfg
where
  start: "client_run enc dec cfg [] now new_client"
| wait: "client_run enc dec cfg calls now c \<Longrightarrow> now \<le> now' \<Longrightarrow> (\<forall>d. cl_due c = Some d \<longrightarrow> now' \<le> d) \<Longrightarrow>
    client_run enc dec cfg calls now' c"
| step: "client_run enc dec cfg calls now c \<Longrightarrow> cl_step enc dec cfg ch now e c = Some c' \<Longrightarrow>
    (e = Wedged_timeout \<longrightarrow> cl_due c = Some now) \<Longrightarrow>
    calls' = (case e of Call k host timeout endpoint head body \<Rightarrow> calls @ [k] | _ \<Rightarrow> calls) \<Longrightarrow>
    client_run enc dec cfg calls' now c'"

definition timely :: "config \<Rightarrow> int \<Rightarrow> ('x, 't) client \<Rightarrow> bool" where
  "timely cfg now c \<longleftrightarrow>
    (\<not> cl_isDestroyed c \<longrightarrow>
      (case cl_due c of
         None \<Rightarrow> \<not> cl_wedgedTimer c \<and> cl_requestsById c = []
       | Some d \<Rightarrow> cl_wedgedTimer c \<and> now \<le> d \<and> d - wedgedTimerInterval cfg \<le> now \<and>
           (\<forall>i \<in> set (cl_requestsById c).
              d - wedgedTimerInterval cfg < cq_timestamp (cl_objects c ! i) + wedgedRequestTimeout cfg)))"

lemma timely_less:
  assumes "timely cfg now c" "set (cl_requestsById c') \<subseteq> set (cl_requestsById c)" "same_times c c'"
  shows "timely cfg now c'"
  using assms unfolding timely_def same_times_def by (auto split: option.splits)

lemma carried_times:
  assumes "carried_on i c c'" "i < length (cl_objects c)" "same_times c c'"
  shows "set (cl_requestsById c') \<subseteq> set (cl_requestsById c)"
  using assms invoke_byId unfolding carried_on_def similar_def by fastforce

lemma state_times: "same_times c (changeState i st c)"
  unfolding changeState_def by (rule upd_times) simp

lemma onIdentified_times: "same_times c (cq_onIdentified enc i err c)"
proof -
  let ?c1 = "changeState i WaitForIdentifiedPost c"
  have c1: "same_times c ?c1" by (rule state_times)
  have c2: "same_times ?c1 (changeState i SubChannelRequestPre ?c1)" by (rule state_times)
  have c3: "same_times a (cl_wait w (b\<lparr>cl_sent := s\<rparr>)) = same_times a b" for a b :: "('x, 't) client" and w s
    by (simp add: same_times_def)
  show ?thesis
    using c1 times_trans[OF c1 c2] times_trans[OF c1 invoke_times]
    by (simp add: cq_onIdentified_def Let_def case_prod_beta c3 split: option.split)
qed

lemma onSend_times: "same_times c (cq_onSend dec i x c)"
  using state_times[of c i SubChannelRequestPost] times_trans[OF state_times[of c] invoke_times]
  by (simp add: cq_onSend_def Let_def case_prod_beta)

lemma take_times: "same_times c (cl_take n c)"
  by (simp add: same_times_def)

lemma timely_carried:
  assumes "timely cfg now c" "carried_on i (cl_take n c) c'" "i < length (cl_objects c)" "same_times (cl_take n c) c'"
  shows "timely cfg now c'"
  using timely_less[OF assms(1)] carried_times[OF assms(2) _ assms(4)] assms(3) times_trans[OF take_times assms(4)] by simp

text \<open>The four facts of a state, in one name.\<close>

definition good :: "config \<Rightarrow> nat list \<Rightarrow> int \<Rightarrow> ('x, 't) client \<Rightarrow> bool" where
  "good cfg calls now c \<longleftrightarrow> cl_inv c \<and> (\<forall>k. cl_answered k c + cl_open k c = count_list calls k) \<and>
    timely cfg now c \<and> int (length (cl_requestsById c)) \<le> max 0 (c_inflightClientRequestsLimit cfg)"

lemma good_schedule:
  assumes "good cfg calls now c" "0 \<le> wedgedTimerInterval cfg" "\<not> cl_wedgedTimer c"
  shows "good cfg calls now (scheduleWedgedTimer cfg now c)"
  using assms
  by (auto simp: good_def scheduleWedgedTimer_def cl_inv_def cl_open_def cl_answered_def timely_def split: option.splits)

lemma good_request:
  assumes g: "good cfg calls now c" and I: "0 \<le> wedgedTimerInterval cfg" and W: "0 < wedgedRequestTimeout cfg"
  shows "good cfg (calls @ [k]) now (cl_request cfg ch now k host timeout endpoint head body c)"
proof -
  let ?c1 = "if cl_wedgedTimer c then c else scheduleWedgedTimer cfg now c"
  let ?c' = "cl_request cfg ch now k host timeout endpoint head body c"
  have g1: "good cfg calls now ?c1" using g good_schedule[OF g I] by simp
  have same: "cl_objects ?c1 = cl_objects c" "cl_requestsById ?c1 = cl_requestsById c" "cl_work ?c1 = cl_work c"
    "cl_answers ?c1 = cl_answers c"
    by (simp_all add: scheduleWedgedTimer_def)
  show ?thesis
  proof (cases rule: request_cases[of cfg ch now k host timeout endpoint head body c])
    case (refused e)
    have "cl_inv (cl_wait (Refused k e) ?c1)" using g1 by (auto simp: good_def cl_inv_def simp del: if_split)
    moreover have "timely cfg now ?c1" using g1 by (simp add: good_def)
    then have "timely cfg now (cl_wait (Refused k e) ?c1)"
      by (rule timely_less) (simp_all add: same_times_def del: if_split)
    moreover have "cl_answered j (cl_wait (Refused k e) ?c1) + cl_open j (cl_wait (Refused k e) ?c1) =
        count_list (calls @ [k]) j" for j
      using g1 by (simp add: good_def cl_answered_def cl_open_def Client_Properties.refused_def add.assoc[symmetric] del: if_split)
    ultimately show ?thesis using g1 unfolding refused(1) good_def by (simp del: if_split)
  next
    case (called q w)
    let ?n = "length (cl_objects c)"
    have inv: "cl_inv c" and ans: "cl_answered j c + cl_open j c = count_list calls j" for j
      using g by (auto simp: good_def)
    have fresh: "?n \<notin> set (cl_requestsById c)" using inv by (auto simp: cl_inv_def)
    have "cl_inv ?c'"
      using inv fresh called(5-7) unfolding cl_inv_def called(1-3)
      by (auto simp: nth_append less_Suc_eq)
    moreover have "\<not> refused j w" for j using called(5) by (cases w) (simp_all add: refused_def)
    then have "cl_answered j ?c' + cl_open j ?c' = count_list (calls @ [k]) j" for j
      using ans[of j] called(6) by (simp add: cl_answered_def cl_open_def called(1,2,4))
    moreover have "timely cfg now ?c'"
    proof -
      have timer: "cl_due ?c' = cl_due ?c1" "cl_wedgedTimer ?c' = cl_wedgedTimer ?c1" "cl_isDestroyed ?c' = cl_isDestroyed ?c1"
        using called(9) same by (simp_all add: cl_request_def Let_def cq_send_def del: if_split)
      have "timely cfg now ?c1" using g1 by (simp add: good_def)
      then show ?thesis
        using W called(8) fresh inv unfolding timely_def timer called(1,3)
        by (auto simp: same nth_append cl_inv_def scheduleWedgedTimer_def split: option.splits if_splits)
    qed
    ultimately show ?thesis using called(9) by (simp add: good_def called(3))
  qed
qed

lemma good_scan:
  assumes g: "good cfg calls now c" and I: "0 \<le> wedgedTimerInterval cfg" and due: "cl_due c = Some now"
  shows "good cfg calls now (onWedgedTimeout cfg now c)"
proof (cases "cl_isDestroyed c")
  case True
  then show ?thesis using g by (simp add: good_def onWedgedTimeout_def cl_inv_def cl_answered_def cl_open_def timely_def)
next
  case False
  let ?c1 = "c\<lparr>cl_due := None\<rparr>"
  let ?c2 = "scanForWedgedRequests cfg now ?c1"
  have inv: "cl_inv ?c1" using g by (simp add: good_def cl_inv_def)
  note s = scan_ok[OF inv, where cfg=cfg and now=now]
  have c': "onWedgedTimeout cfg now c = scheduleWedgedTimer cfg now ?c2"
    using False by (simp add: onWedgedTimeout_def Let_def)
  have o: "cl_open k ?c1 = cl_open k c" "cl_answered k ?c1 = cl_answered k c" for k
    by (simp_all add: cl_open_def cl_answered_def)
  have times: "cq_timestamp (cl_objects ?c2 ! i) = cq_timestamp (cl_objects c ! i)" for i
    using s(4) by (simp add: same_times_def)
  have "cl_inv (scheduleWedgedTimer cfg now ?c2)" using s(1) by (simp add: cl_inv_def scheduleWedgedTimer_def)
  moreover have "cl_answered k (scheduleWedgedTimer cfg now ?c2) + cl_open k (scheduleWedgedTimer cfg now ?c2) = count_list calls k" for k
    using s(2)[of k] o[of k] g by (simp add: good_def scheduleWedgedTimer_def cl_open_def cl_answered_def)
  moreover have "timely cfg now (scheduleWedgedTimer cfg now ?c2)"
    using I times unfolding timely_def
    by (auto simp: scheduleWedgedTimer_def s(3) is_wedged_def)
  moreover have "length (cl_requestsById ?c2) \<le> length (cl_requestsById c)"
  proof -
    have "set (cl_requestsById ?c2) \<subseteq> set (cl_requestsById c)" using s(3) by auto
    then show ?thesis using s(1) inv by (simp add: cl_inv_def) (metis card_mono distinct_card finite_set)
  qed
  ultimately show ?thesis using g unfolding c' good_def by (simp add: scheduleWedgedTimer_def)
qed

lemma good_carried:
  assumes g: "good cfg calls now c" and n: "n < length (cl_work c)" "wid (cl_work c ! n) = Some i"
    and c: "carried_on i (cl_take n c) c'" "same_times (cl_take n c) c'"
  shows "good cfg calls now c'"
proof -
  have inv: "cl_inv c" using g by (simp add: good_def)
  have len: "i < length (cl_objects c)" using inv_at(1)[OF inv n] .
  have sub: "set (cl_requestsById c') \<subseteq> set (cl_requestsById c)"
    using carried_times[OF c(1) _ c(2)] len by simp
  have inv': "cl_inv c'" by (rule carried_on_ok(1)[OF inv n c(1)])
  then have "length (cl_requestsById c') \<le> length (cl_requestsById c)"
    using sub inv by (metis card_mono cl_inv_def distinct_card finite_set)
  then show ?thesis
    using inv' carried_on_ok(2)[OF inv n c(1)] timely_carried[OF _ c(1) len c(2)] g by (simp add: good_def)
qed

lemma good_refused:
  assumes g: "good cfg calls now c" and n: "n < length (cl_work c)" "cl_work c ! n = Refused k e"
  shows "good cfg calls now ((cl_take n c)\<lparr>cl_answers := cl_answers c @ [(k, (Some e, Absent))]\<rparr>)"
proof -
  obtain us vs where w: "cl_work c = us @ Refused k e # vs" and t: "cl_work (cl_take n c) = us @ vs"
    using take_work[OF n(1)] n(2) by metis
  let ?c' = "(cl_take n c)\<lparr>cl_answers := cl_answers c @ [(k, (Some e, Absent))]\<rparr>"
  have inv: "cl_inv c" and ans: "cl_answered j c + cl_open j c = count_list calls j" and tm: "timely cfg now c" for j
    using g by (auto simp: good_def)
  have "cl_inv ?c'" using inv unfolding cl_inv_def by (auto simp: t w)
  moreover have "timely cfg now ?c'" by (rule timely_less[OF tm]) (simp_all add: same_times_def)
  moreover have "cl_answered j ?c' + cl_open j ?c' = count_list calls j" for j
    using ans[of j] by (auto simp: cl_answered_def cl_open_def t w refused_def)
  ultimately show ?thesis using g by (simp add: good_def)
qed

lemma good_run:
  assumes run: "client_run enc dec cfg calls now c" and I: "0 \<le> wedgedTimerInterval cfg" and W: "0 < wedgedRequestTimeout cfg"
  shows "good cfg calls now c"
  using run
proof induction
  case (start now)
  then show ?case by (simp add: good_def cl_inv_def new_client_def cl_answered_def cl_open_def timely_def)
next
  case (wait calls now c now')
  then show ?case by (auto simp: good_def timely_def split: option.splits)
next
  case (step calls now c ch e c' calls')
  show ?case
  proof (cases e)
    case (Call k host timeout endpoint head body)
    then show ?thesis using step good_request[OF step.IH I W] by auto
  next
    case (Tick n)
    then have n: "n < length (cl_work c)" and cs: "calls' = calls" using step.hyps by (auto split: if_splits)
    show ?thesis
    proof (cases "cl_work c ! n")
      case (Ticked i err)
      then have c': "c' = invokeCallback i (Some err, Absent) (cl_take n c)" using step.hyps Tick n by simp
      have "carried_on i (cl_take n c) c'" unfolding c' carried_on_def
        by (intro disjI2 disjI1 exI[of _ "cl_take n c"] exI[of _ "(Some err, Absent)"] conjI) (simp_all add: similar_def)
      then show ?thesis
        using good_carried[OF step.IH n, of i] Ticked cs invoke_times[of "cl_take n c"] by (simp add: c')
    next
      case (Refused k err)
      then show ?thesis using step.hyps Tick n good_refused[OF step.IH n Refused] cs by (simp add: Let_def)
    qed (use step.hyps Tick n in auto)
  next
    case (Identified n err)
    then obtain i where n: "n < length (cl_work c)" "cl_work c ! n = Identifying i"
      "c' = cq_onIdentified enc i err (cl_take n c)" and cs: "calls' = calls"
      using step.hyps by (auto split: if_splits client_work.splits)
    have "i < length (cl_objects c)" using inv_at(1)[of c n i] step.IH n by (simp add: good_def)
    then show ?thesis
      using good_carried[OF step.IH n(1), of i] n(2,3) onIdentified_cases[of i "cl_take n c"] onIdentified_times[of "cl_take n c"] cs
      by simp
  next
    case (Answered n x)
    then obtain i where n: "n < length (cl_work c)" "cl_work c ! n = Answering i"
      "c' = cq_onSend dec i x (cl_take n c)" and cs: "calls' = calls"
      using step.hyps by (auto split: if_splits client_work.splits)
    have "i < length (cl_objects c)" using inv_at(1)[of c n i] step.IH n by (simp add: good_def)
    then show ?thesis
      using good_carried[OF step.IH n(1), of i] n(2,3) onSend_cases[of i "cl_take n c"] onSend_times[of "cl_take n c"] cs
      by simp
  next
    case Wedged_timeout
    then show ?thesis using step good_scan[OF step.IH I] by (auto split: if_splits)
  next
    case Destroy_client
    then show ?thesis
      using step by (auto simp: good_def cl_destroy_def cl_inv_def cl_answered_def cl_open_def timely_def)
  qed
qed

section \<open>The properties\<close>

text \<open>An example: one call, five milliseconds later.\<close>

definition demo_call :: "(unit, unit message option) client_in" where
  "demo_call = Call 4 ''127.0.0.1:2'' None ''/protocol/ping'' Null (Value demo_message)"

definition demo_client :: "(unit, unit message option) client" where
  "demo_client = the (cl_step id id default_config \<lparr>ch_sub_destroyed = False, ch_top_destroyed = False\<rparr> 100 demo_call new_client)"

lemma demo_client_run: "client_run id id default_config [4] 105 demo_client"
proof -
  have "cl_step id id default_config \<lparr>ch_sub_destroyed = False, ch_top_destroyed = False\<rparr> 100 demo_call new_client = Some demo_client"
    by (simp only: demo_client_def demo_call_def cl_step.simps option.sel)
  then have "client_run id id default_config [4] 100 demo_client"
    by (rule client_run.step[OF client_run.start]) (simp_all add: demo_call_def)
  moreover have "cl_due demo_client = Some 1100" by code_simp
  ultimately show ?thesis using client_run.wait[of id id default_config "[4]" 100 demo_client 105] by simp
qed

lemma demo_times: "0 \<le> wedgedTimerInterval default_config" "0 < wedgedRequestTimeout default_config"
  by code_simp+

text \<open>
  C25: Every call of the client is answered once: its callback has been called, or the call waits for
  the refusal of the limit, or its request is under way; and a request that is under way always has
  a callback of the channel or of the next tick to wait for.
\<close>

theorem client_calls_answered_once:
  assumes "client_run enc dec cfg calls now c" "0 \<le> wedgedTimerInterval cfg" "0 < wedgedRequestTimeout cfg"
  shows "cl_answered k c + cl_open k c = count_list calls k \<and>
    (\<forall>i < length (cl_objects c). cq_callback (cl_objects c ! i) = Some k \<longrightarrow>
      i \<in> set (cl_requestsById c) \<and> (\<exists>w \<in> set (cl_work c). wid w = Some i))"
proof -
  have "good cfg calls now c" by (rule good_run[OF assms])
  then show ?thesis unfolding good_def cl_inv_def by fastforce
qed

lemma client_calls_answered_once_witness: "cl_answered 4 demo_client + cl_open 4 demo_client = 1"
  using client_calls_answered_once[OF demo_client_run demo_times, of 4] by simp

text \<open>
  C26: No request of the client stays under way for longer than the timeout for wedged requests and
  one scan interval: the scan cancels it and calls back. And there are never more requests under way
  than the limit.
\<close>

theorem client_requests_bounded:
  assumes "client_run enc dec cfg calls now c" "0 \<le> wedgedTimerInterval cfg" "0 < wedgedRequestTimeout cfg"
  shows "(\<not> cl_isDestroyed c \<longrightarrow> (\<forall>i \<in> set (cl_requestsById c).
      now - cq_timestamp (cl_objects c ! i) < wedgedRequestTimeout cfg + wedgedTimerInterval cfg)) \<and>
    int (length (cl_requestsById c)) \<le> max 0 (c_inflightClientRequestsLimit cfg)"
proof -
  have g: "good cfg calls now c" by (rule good_run[OF assms])
  have "now - cq_timestamp (cl_objects c ! i) < wedgedRequestTimeout cfg + wedgedTimerInterval cfg"
    if "\<not> cl_isDestroyed c" "i \<in> set (cl_requestsById c)" for i
    using g that by (fastforce simp: good_def timely_def split: option.splits)
  then show ?thesis using g by (simp add: good_def)
qed

lemma client_requests_bounded_witness:
  "cl_requestsById demo_client = [0] \<and>
   105 - cq_timestamp (cl_objects demo_client ! 0) < wedgedRequestTimeout default_config + wedgedTimerInterval default_config"
proof -
  have "cl_requestsById demo_client = [0]" "\<not> cl_isDestroyed demo_client" by code_simp+
  then show ?thesis using client_requests_bounded[OF demo_client_run demo_times] by simp
qed

end
