(* ===== verification/Discovery.thy ===== *)
theory Discovery
  imports Prelude Complex_Main
begin

text \<open>
  Where a node gets its bootstrap hosts from (\<open>discover-providers.js\<close>), with the exponential
  backoff of a provider that retries (\<open>lib/backoff.js\<close>). Reading a file and calling a given
  provider end with a reply that is an argument; the clock and \<open>Math.random\<close> are arguments, too.
\<close>

section \<open>Backoff\<close>

record backoff_opts =
  bo_minDelay :: "int option"
  bo_maxDelay :: "int option"
  bo_retries :: "nat option"
  bo_timeout :: "int option"

record backoff =
  b_minDelay :: int
  b_maxDelay :: int
  b_retries :: "nat option"
  b_timeLimit :: "int option"
  b_attempt :: nat
  b_firstTry :: "int option"

datatype backoff_error = MaxRetriesReached nat nat | RetryTimedOut int int

text \<open>\<open>opts.minDelay || 500\<close> and \<open>opts.maxDelay || 15000\<close>.\<close>

definition new_backoff :: "backoff_opts \<Rightarrow> backoff" where
  "new_backoff opts =
     \<lparr>b_minDelay = (case bo_minDelay opts of None \<Rightarrow> 500 | Some d \<Rightarrow> if d = 0 then 500 else d),
      b_maxDelay = (case bo_maxDelay opts of None \<Rightarrow> 15000 | Some d \<Rightarrow> if d = 0 then 15000 else d),
      b_retries = bo_retries opts, b_timeLimit = bo_timeout opts, b_attempt = 0, b_firstTry = None\<rparr>"

definition backoff_delay :: "real \<Rightarrow> backoff \<Rightarrow> int" where
  "backoff_delay random b =
    (let minDelay = b_minDelay b * 2 ^ b_attempt b;
         withFuzz = \<lfloor>random * (real_of_int minDelay * 0.5)\<rfloor> + minDelay
     in min (b_maxDelay b) withFuzz)"

text \<open>
  \<open>retry\<close>: the callback is called with an error by \<open>setImmediate\<close>, or after a delay. A first try at
  the instant 0 counts as none.
\<close>

datatype backoff_step = Give_up backoff_error | Wait int

definition backoff_retry :: "real \<Rightarrow> int \<Rightarrow> backoff \<Rightarrow> backoff_step \<times> backoff" where
  "backoff_retry random now b =
    (let first = (case b_firstTry b of None \<Rightarrow> now | Some t \<Rightarrow> if t = 0 then now else t);
         b1 = b\<lparr>b_firstTry := Some first\<rparr>
     in case b_retries b1 of
          Some n \<Rightarrow>
            if n \<le> b_attempt b1 then (Give_up (MaxRetriesReached n (b_attempt b1)), b1)
            else (case b_timeLimit b1 of
                Some limit \<Rightarrow> if now - first > limit then (Give_up (RetryTimedOut limit (now - first)), b1)
                  else (Wait (backoff_delay random b1), b1)
              | None \<Rightarrow> (Wait (backoff_delay random b1), b1))
        | None \<Rightarrow>
            (case b_timeLimit b1 of
                Some limit \<Rightarrow> if now - first > limit then (Give_up (RetryTimedOut limit (now - first)), b1)
                  else (Wait (backoff_delay random b1), b1)
              | None \<Rightarrow> (Wait (backoff_delay random b1), b1)))"

definition backoff_onTimeout :: "backoff \<Rightarrow> backoff" where
  "backoff_onTimeout b = b\<lparr>b_attempt := Suc (b_attempt b)\<rparr>"

section \<open>Providers\<close>

text \<open>\<open>retry: true\<close> is the default policy, an object is completed by it.\<close>

datatype retry_policy = Default_policy | Policy backoff_opts

definition policy_opts :: "retry_policy \<Rightarrow> backoff_opts" where
  "policy_opts p =
    (let defaults = \<lparr>bo_minDelay = Some 500, bo_maxDelay = Some 15000, bo_retries = None, bo_timeout = Some 60000\<rparr>
     in case p of
          Default_policy \<Rightarrow> defaults
        | Policy o1 \<Rightarrow>
            \<lparr>bo_minDelay = (case bo_minDelay o1 of None \<Rightarrow> Some 500 | x \<Rightarrow> x),
             bo_maxDelay = (case bo_maxDelay o1 of None \<Rightarrow> Some 15000 | x \<Rightarrow> x),
             bo_retries = bo_retries o1,
             bo_timeout = (case bo_timeout o1 of None \<Rightarrow> Some 60000 | x \<Rightarrow> x)\<rparr>)"

text \<open>A provider given as a function is a number.\<close>

datatype provider =
    Given nat
  | Static_hosts "string list"
  | Json_file string
  | Retrying retry_policy provider

datatype file_opt = No_file | File_path string | File_hosts "string list"

record object_opts =
  oo_discoverProvider :: "nat option"
  oo_hosts :: "string list option"
  oo_bootstrapFile :: file_opt
  oo_retry :: "retry_policy option"

datatype discover_opts =
    Opts_none
  | Opts_function nat
  | Opts_path string
  | Opts_hosts "string list"
  | Opts_object object_opts

definition retryDiscoverProvider :: "retry_policy option \<Rightarrow> provider \<Rightarrow> provider" where
  "retryDiscoverProvider opts inner = (case opts of None \<Rightarrow> inner | Some p \<Rightarrow> Retrying p inner)"

definition object_provider :: "object_opts \<Rightarrow> provider option" where
  "object_provider opts =
    (case oo_discoverProvider opts of
       Some f \<Rightarrow> Some (Given f)
     | None \<Rightarrow>
        (case oo_hosts opts of
           Some hosts \<Rightarrow> Some (Static_hosts hosts)
         | None \<Rightarrow>
            (case oo_bootstrapFile opts of
               File_path path \<Rightarrow> if path \<noteq> [] then Some (Json_file path) else None
             | File_hosts hosts \<Rightarrow> Some (Static_hosts hosts)
             | No_file \<Rightarrow> None)))"

text \<open>An empty path is falsy, so it is replaced by an object without properties.\<close>

definition createFromOpts :: "discover_opts \<Rightarrow> provider option" where
  "createFromOpts opts =
    (case opts of
       Opts_none \<Rightarrow> None
     | Opts_function f \<Rightarrow> Some (Given f)
     | Opts_path path \<Rightarrow> if path = [] then None else Some (Json_file path)
     | Opts_hosts hosts \<Rightarrow> Some (Static_hosts hosts)
     | Opts_object o1 \<Rightarrow> map_option (retryDiscoverProvider (oo_retry o1)) (object_provider o1))"

section \<open>Discovering\<close>

text \<open>What a provider calls back with: an error, or hosts; a retry's error is that of the backoff.\<close>

datatype discover_error = Provider_error string | Backoff_error backoff_error "string option"

type_synonym discovered = "discover_error + string list option"

text \<open>What comes next for a discovery that retries.\<close>

datatype discovery_phase =
    Asking
  | Waiting int
  | Failing backoff_error
  | Delivering discovered
  | Delivered discovered

record discovery =
  dy_backoff :: backoff
  dy_lastError :: "string option"
  dy_phase :: discovery_phase
  dy_attempts :: nat

definition start_retrying :: "retry_policy \<Rightarrow> discovery" where
  "start_retrying p =
     \<lparr>dy_backoff = new_backoff (policy_opts p), dy_lastError = None, dy_phase = Asking, dy_attempts = 1\<rparr>"

text \<open>
  \<open>onTry\<close>: hosts end the discovery; null, an empty list or an error is retried. The reply's hosts
  are \<^theory_text>\<open>None\<close> for null.
\<close>

definition try_again :: "real \<Rightarrow> int \<Rightarrow> string option \<Rightarrow> discovery \<Rightarrow> discovery" where
  "try_again random now err d =
    (case backoff_retry random now (dy_backoff d) of
       (Give_up e, b) \<Rightarrow> d\<lparr>dy_lastError := err, dy_backoff := b, dy_phase := Failing e\<rparr>
     | (Wait delay, b) \<Rightarrow> d\<lparr>dy_lastError := err, dy_backoff := b, dy_phase := Waiting (now + delay)\<rparr>)"

definition onTry :: "real \<Rightarrow> int \<Rightarrow> string + string list option \<Rightarrow> discovery \<Rightarrow> discovery" where
  "onTry random now reply d =
    (case reply of
       Inl e \<Rightarrow> try_again random now (Some e) d
     | Inr None \<Rightarrow> try_again random now None d
     | Inr (Some hosts) \<Rightarrow>
         if hosts \<noteq> [] then d\<lparr>dy_phase := Delivering (Inr (Some hosts))\<rparr> else try_again random now None d)"

text \<open>The backoff's timeout and its immediate error call \<open>attempt\<close>; the result is delivered last.\<close>

definition onBackoff :: "discovery \<Rightarrow> discovery" where
  "onBackoff d =
    (case dy_phase d of
       Waiting t \<Rightarrow> d\<lparr>dy_backoff := backoff_onTimeout (dy_backoff d), dy_phase := Asking, dy_attempts := Suc (dy_attempts d)\<rparr>
     | Failing e \<Rightarrow> d\<lparr>dy_phase := Delivering (Inl (Backoff_error e (dy_lastError d)))\<rparr>
     | Delivering r \<Rightarrow> d\<lparr>dy_phase := Delivered r\<rparr>
     | _ \<Rightarrow> d)"

end
