(* ===== verification/Discovery_Properties.thy ===== *)
theory Discovery_Properties
  imports Discovery
begin

text \<open>The delays of a backoff grow up to their maximum, and a discovery that retries ends.\<close>

section \<open>Delays\<close>

lemma fuzz_bounds:
  assumes "0 \<le> r" "r < 1" "0 \<le> (m :: int)"
  shows "0 \<le> \<lfloor>r * (real_of_int m * 0.5)\<rfloor>" "2 * \<lfloor>r * (real_of_int m * 0.5)\<rfloor> \<le> m"
proof -
  show "0 \<le> \<lfloor>r * (real_of_int m * 0.5)\<rfloor>" using assms by simp
  define F where "F = \<lfloor>r * (real_of_int m * 0.5)\<rfloor>"
  have "real_of_int F \<le> r * (real_of_int m * 0.5)" unfolding F_def by (rule of_int_floor_le)
  also have "\<dots> \<le> 1 * (real_of_int m * 0.5)"
    using assms by (intro mult_right_mono) auto
  finally have "real_of_int (2 * F) \<le> real_of_int m" by simp
  then show "2 * \<lfloor>r * (real_of_int m * 0.5)\<rfloor> \<le> m" unfolding F_def[symmetric] by (simp only: of_int_le_iff)
qed

lemma delay_bounds:
  assumes "0 \<le> r" "r < 1" "0 \<le> b_minDelay b"
  shows "min (b_maxDelay b) (b_minDelay b * 2 ^ b_attempt b) \<le> backoff_delay r b"
    "2 * backoff_delay r b \<le> 3 * (b_minDelay b * 2 ^ b_attempt b)"
    "backoff_delay r b \<le> b_maxDelay b"
proof -
  let ?m = "b_minDelay b * 2 ^ b_attempt b"
  have m: "0 \<le> ?m" using assms(3) by simp
  note f = fuzz_bounds[OF assms(1,2) m]
  define F where "F = \<lfloor>r * (real_of_int ?m * 0.5)\<rfloor>"
  have eq: "backoff_delay r b = min (b_maxDelay b) (F + ?m)" by (simp only: backoff_delay_def Let_def F_def)
  show "min (b_maxDelay b) ?m \<le> backoff_delay r b" "2 * backoff_delay r b \<le> 3 * ?m" "backoff_delay r b \<le> b_maxDelay b"
    using f m unfolding eq F_def[symmetric] by (auto simp: min_def)
qed

text \<open>
  A backoff waits longer every time, up to its maximum: whatever the random numbers, the delay of
  a retry is at least the delay of the one before and at least the minimum doubled at every attempt,
  both cut off at the maximum, and never more than the maximum or one and a half times that double.
\<close>

theorem backoff_delays_grow:
  assumes r: "0 \<le> r" "r < 1" "0 \<le> r'" "r' < 1" and d: "0 \<le> b_minDelay b"
  shows "backoff_delay r b \<le> backoff_delay r' (backoff_onTimeout b) \<and>
    min (b_maxDelay b) (b_minDelay b * 2 ^ b_attempt b) \<le> backoff_delay r b \<and>
    backoff_delay r b \<le> b_maxDelay b \<and>
    2 * backoff_delay r b \<le> 3 * (b_minDelay b * 2 ^ b_attempt b)"
proof -
  let ?b = "backoff_onTimeout b"
  have b: "b_minDelay ?b = b_minDelay b" "b_maxDelay ?b = b_maxDelay b" "b_attempt ?b = Suc (b_attempt b)"
    by (simp_all add: backoff_onTimeout_def)
  have "min (b_maxDelay b) (2 * (b_minDelay b * 2 ^ b_attempt b)) \<le> backoff_delay r' ?b"
    using delay_bounds(1)[OF r(3,4), of ?b] d b by (simp add: mult.left_commute)
  moreover have "0 \<le> b_minDelay b * 2 ^ b_attempt b" using d by simp
  ultimately show ?thesis using delay_bounds[OF r(1,2) d] by linarith
qed

lemma backoff_delays_grow_witness:
  "backoff_delay (1/2) (new_backoff (policy_opts Default_policy)) \<le>
   backoff_delay 0 (backoff_onTimeout (new_backoff (policy_opts Default_policy)))"
  using backoff_delays_grow[of "1/2" 0 "new_backoff (policy_opts Default_policy)"]
  by (simp add: new_backoff_def policy_opts_def Let_def)

section \<open>Discoveries\<close>

text \<open>Runs on a clock: a timeout fires when it is due or later.\<close>

inductive discovery_run :: "retry_policy \<Rightarrow> int \<Rightarrow> discovery \<Rightarrow> bool" for p where
  start: "0 < now \<Longrightarrow> discovery_run p now (start_retrying p)"
| wait: "discovery_run p now d \<Longrightarrow> now \<le> now' \<Longrightarrow> discovery_run p now' d"
| reply: "discovery_run p now d \<Longrightarrow> dy_phase d = Asking \<Longrightarrow> 0 \<le> random \<Longrightarrow> random < 1 \<Longrightarrow>
    discovery_run p now (onTry random now reply d)"
| go_on: "discovery_run p now d \<Longrightarrow> dy_phase d \<noteq> Asking \<Longrightarrow> (\<forall>t. dy_phase d = Waiting t \<longrightarrow> t \<le> now) \<Longrightarrow>
    discovery_run p now (onBackoff d)"

definition result_ok :: "discovered \<Rightarrow> bool" where
  "result_ok res \<longleftrightarrow> (case res of Inl e \<Rightarrow> True | Inr None \<Rightarrow> False | Inr (Some hs) \<Rightarrow> hs \<noteq> [])"

text \<open>Where a discovery stands: \<^theory_text>\<open>m\<close> is the least delay.\<close>

definition dy_ok :: "retry_policy \<Rightarrow> int \<Rightarrow> int \<Rightarrow> discovery \<Rightarrow> bool" where
  "dy_ok p m now d \<longleftrightarrow>
    (let b = dy_backoff d; b0 = new_backoff (policy_opts p) in
     b_minDelay b = b_minDelay b0 \<and> b_maxDelay b = b_maxDelay b0 \<and> b_retries b = b_retries b0 \<and>
     b_timeLimit b = b_timeLimit b0 \<and> dy_attempts d = Suc (b_attempt b) \<and> 0 < now \<and>
     (\<forall>n. b_retries b = Some n \<longrightarrow> b_attempt b \<le> n) \<and>
     (b_firstTry b = None \<longrightarrow> b_attempt b = 0 \<and> dy_phase d \<notin> range Waiting) \<and>
     (\<forall>f. b_firstTry b = Some f \<longrightarrow> 0 < f \<and> f \<le> now \<and> int (b_attempt b) * m \<le> now - f) \<and>
     (\<forall>limit. b_timeLimit b = Some limit \<longrightarrow> 0 < b_attempt b \<longrightarrow> (int (b_attempt b) - 1) * m \<le> limit) \<and>
     (\<forall>t. dy_phase d = Waiting t \<longrightarrow>
        (\<forall>f. b_firstTry b = Some f \<longrightarrow> (int (b_attempt b) + 1) * m \<le> t - f) \<and>
        (\<forall>n. b_retries b = Some n \<longrightarrow> b_attempt b < n) \<and>
        (\<forall>limit. b_timeLimit b = Some limit \<longrightarrow> int (b_attempt b) * m \<le> limit)) \<and>
     (\<forall>res. dy_phase d = Delivering res \<or> dy_phase d = Delivered res \<longrightarrow> result_ok res))"

definition least_delay :: "retry_policy \<Rightarrow> int" where
  "least_delay p = (let b = new_backoff (policy_opts p) in min (b_maxDelay b) (b_minDelay b))"

lemma least_le:
  assumes r: "0 \<le> r" "r < 1" and b: "b_minDelay b = b_minDelay b0" "b_maxDelay b = b_maxDelay b0" "0 < b_minDelay b0"
  shows "min (b_maxDelay b0) (b_minDelay b0) \<le> backoff_delay r b"
proof -
  have "b_minDelay b0 * 1 \<le> b_minDelay b0 * 2 ^ b_attempt b" using b by (intro mult_left_mono) auto
  then have "b_minDelay b0 \<le> b_minDelay b0 * 2 ^ b_attempt b" by linarith
  moreover have "min (b_maxDelay b0) (b_minDelay b0 * 2 ^ b_attempt b) \<le> backoff_delay r b"
    using delay_bounds(1)[OF r, of b] b by simp
  ultimately show ?thesis by linarith
qed

definition first_try :: "int \<Rightarrow> backoff \<Rightarrow> int" where
  "first_try now b = (case b_firstTry b of None \<Rightarrow> now | Some t \<Rightarrow> if t = 0 then now else t)"

lemma retry_cases:
  obtains (stop) e where "backoff_retry r now b = (Give_up e, b\<lparr>b_firstTry := Some (first_try now b)\<rparr>)"
  | (again) "backoff_retry r now b = (Wait (backoff_delay r b), b\<lparr>b_firstTry := Some (first_try now b)\<rparr>)"
      "\<forall>n. b_retries b = Some n \<longrightarrow> b_attempt b < n"
      "\<forall>limit. b_timeLimit b = Some limit \<longrightarrow> now - first_try now b \<le> limit"
proof -
  have d: "backoff_delay r (b\<lparr>b_firstTry := x\<rparr>) = backoff_delay r b" for x by (simp add: backoff_delay_def)
  define b1 where "b1 = b\<lparr>b_firstTry := Some (first_try now b)\<rparr>"
  have eq: "backoff_retry r now b = (case b_retries b of
      Some n \<Rightarrow> if n \<le> b_attempt b then (Give_up (MaxRetriesReached n (b_attempt b)), b1)
        else (case b_timeLimit b of Some limit \<Rightarrow> if now - first_try now b > limit
            then (Give_up (RetryTimedOut limit (now - first_try now b)), b1) else (Wait (backoff_delay r b), b1)
          | None \<Rightarrow> (Wait (backoff_delay r b), b1))
    | None \<Rightarrow> (case b_timeLimit b of Some limit \<Rightarrow> if now - first_try now b > limit
            then (Give_up (RetryTimedOut limit (now - first_try now b)), b1) else (Wait (backoff_delay r b), b1)
          | None \<Rightarrow> (Wait (backoff_delay r b), b1)))"
    unfolding backoff_retry_def Let_def first_try_def[symmetric] b1_def[symmetric]
    by (cases "b_retries b"; cases "b_timeLimit b") (simp_all add: b1_def d)
  have "(\<exists>e. backoff_retry r now b = (Give_up e, b1)) \<or>
    backoff_retry r now b = (Wait (backoff_delay r b), b1) \<and> (\<forall>n. b_retries b = Some n \<longrightarrow> b_attempt b < n) \<and>
      (\<forall>limit. b_timeLimit b = Some limit \<longrightarrow> now - first_try now b \<le> limit)"
    unfolding eq by (cases "b_retries b"; cases "b_timeLimit b") auto
  then show thesis using stop again unfolding b1_def by blast
qed

lemma onTry_ok:
  assumes ok: "dy_ok p (least_delay p) now d" and a: "dy_phase d = Asking" and r: "0 \<le> r" "r < 1"
    and pos: "0 < b_minDelay (new_backoff (policy_opts p))" "0 < b_maxDelay (new_backoff (policy_opts p))"
  shows "dy_ok p (least_delay p) now (onTry r now reply d)"
proof -
  let ?b = "dy_backoff d" and ?new = "new_backoff (policy_opts p)" and ?m = "least_delay p"
  let ?first = "first_try now ?b"
  have first: "0 < ?first" "?first \<le> now" "int (b_attempt ?b) * ?m \<le> now - ?first"
    using ok by (auto simp: dy_ok_def Let_def first_try_def split: option.splits)
  have again: "dy_ok p ?m now (try_again r now e d)" for e
  proof (cases rule: retry_cases[of r now ?b])
    case (stop x)
    then show ?thesis using ok first by (simp add: try_again_def dy_ok_def Let_def)
  next
    case again
    have "?m \<le> backoff_delay r ?b"
      using least_le[OF r, of ?b ?new] ok pos by (simp add: least_delay_def dy_ok_def Let_def)
    then have w: "(int (b_attempt ?b) + 1) * ?m \<le> now + backoff_delay r ?b - ?first"
      using first(3) by (simp add: distrib_right)
    have "\<forall>limit. b_timeLimit ?b = Some limit \<longrightarrow> int (b_attempt ?b) * ?m \<le> limit"
      using again(3) first(3) by (meson order_trans)
    then show ?thesis
      using ok first w again(2) by (simp add: try_again_def again(1) dy_ok_def Let_def)
  qed
  show ?thesis
  proof (cases "\<exists>hosts. reply = Inr (Some hosts) \<and> hosts \<noteq> []")
    case True
    then show ?thesis using ok by (auto simp: onTry_def dy_ok_def Let_def result_ok_def)
  next
    case False
    then have "\<exists>e. onTry r now reply d = try_again r now e d"
      by (auto simp: onTry_def split: sum.split option.split)
    then show ?thesis using again by auto
  qed
qed

lemma onBackoff_ok:
  assumes ok: "dy_ok p m now d" and t: "\<forall>t. dy_phase d = Waiting t \<longrightarrow> t \<le> now"
  shows "dy_ok p m now (onBackoff d)"
proof (cases "dy_phase d")
  case (Waiting x)
  then obtain f where f: "b_firstTry (dy_backoff d) = Some f" using ok by (auto simp: dy_ok_def Let_def)
  have "x \<le> now" using t Waiting by simp
  then show ?thesis
    using ok Waiting f by (auto simp: onBackoff_def dy_ok_def Let_def backoff_onTimeout_def Suc_le_eq algebra_simps)
qed (use ok in \<open>auto simp: onBackoff_def dy_ok_def Let_def result_ok_def\<close>)

lemma dy_run_ok:
  assumes run: "discovery_run p now d"
    and pos: "0 < b_minDelay (new_backoff (policy_opts p))" "0 < b_maxDelay (new_backoff (policy_opts p))"
  shows "dy_ok p (least_delay p) now d"
  using run
proof induction
  case (start now)
  then show ?case by (auto simp: dy_ok_def Let_def start_retrying_def new_backoff_def)
next
  case (wait now d now')
  then show ?case unfolding dy_ok_def Let_def by (auto intro: order_trans)
next
  case (reply now d random reply)
  then show ?case using onTry_ok[OF _ _ _ _ pos] by blast
next
  case (go_on now d)
  then show ?case using onBackoff_ok by blast
qed

text \<open>
  A discovery that retries ends: it asks the provider at most \<open>retries + 1\<close> times when the number
  is given and at most \<open>timeout / least delay + 2\<close> times when the timeout is, whatever the provider
  answers and however late; what it delivers is an error or a list that is not empty.
\<close>

theorem discovery_bounded:
  assumes run: "discovery_run p now d"
    and pos: "0 < b_minDelay (new_backoff (policy_opts p))" "0 < b_maxDelay (new_backoff (policy_opts p))"
  shows "(\<forall>n. b_retries (dy_backoff d) = Some n \<longrightarrow> dy_attempts d \<le> Suc n) \<and>
    (\<forall>limit. b_timeLimit (dy_backoff d) = Some limit \<and> 0 \<le> limit \<longrightarrow>
      int (dy_attempts d) \<le> limit div least_delay p + 2) \<and>
    (\<forall>res. dy_phase d = Delivered res \<longrightarrow> result_ok res)"
proof -
  have ok: "dy_ok p (least_delay p) now d" by (rule dy_run_ok[OF assms])
  have m: "0 < least_delay p" using pos by (simp add: least_delay_def Let_def)
  have "int (dy_attempts d) \<le> limit div least_delay p + 2"
    if l: "b_timeLimit (dy_backoff d) = Some limit" "0 \<le> limit" for limit
  proof (cases "0 < b_attempt (dy_backoff d)")
    case True
    then have "(int (b_attempt (dy_backoff d)) - 1) * least_delay p \<le> limit"
      using ok l by (simp add: dy_ok_def Let_def)
    then have "int (b_attempt (dy_backoff d)) - 1 \<le> limit div least_delay p"
      using m by (metis nonzero_mult_div_cancel_right order_less_irrefl zdiv_mono1)
    then show ?thesis using ok by (simp add: dy_ok_def Let_def)
  next
    case False
    then show ?thesis using ok l m by (simp add: dy_ok_def Let_def pos_imp_zdiv_nonneg_iff)
  qed
  then show ?thesis using ok by (auto simp: dy_ok_def Let_def)
qed

definition demo_discovery :: discovery where
  "demo_discovery = onTry 0 100 (Inl ''no file'') (start_retrying Default_policy)"

lemma discovery_bounded_witness:
  "int (dy_attempts demo_discovery) \<le> 60000 div 500 + 2 \<and> dy_phase demo_discovery = Waiting 600"
proof -
  have "discovery_run Default_policy 100 demo_discovery"
    unfolding demo_discovery_def by (rule discovery_run.reply[OF discovery_run.start]) (simp_all add: start_retrying_def)
  from discovery_bounded[OF this] have "\<forall>limit. b_timeLimit (dy_backoff demo_discovery) = Some limit \<and> 0 \<le> limit \<longrightarrow>
      int (dy_attempts demo_discovery) \<le> limit div least_delay Default_policy + 2"
    by (simp add: new_backoff_def policy_opts_def)
  moreover have "b_timeLimit (dy_backoff demo_discovery) = Some 60000" "dy_phase demo_discovery = Waiting 600"
    by (simp_all add: demo_discovery_def onTry_def start_retrying_def new_backoff_def policy_opts_def backoff_retry_def
        backoff_delay_def try_again_def Let_def)
  moreover have "least_delay Default_policy = 500" by (simp add: least_delay_def new_backoff_def policy_opts_def Let_def)
  ultimately show ?thesis by simp
qed

end
