(* ===== verification/Bootstrap.thy ===== *)
theory Bootstrap
  imports Discovery Proxy Client Healing Json
begin

text \<open>
  A ringpop node as a whole (\<open>index.js\<close>): bootstrapping it, which discovers hosts, joins them and
  sets the member list; what being ready starts and being destroyed stops
  (\<open>lib/on_ringpop_event.js\<close>, \<open>lib/on_config_event.js\<close>); the sampler of the event loop's lag
  (\<open>lib/lag_sampler.js\<close>).

  The discover provider's hosts and the answers to join requests are arguments. Bootstraps are
  numbered in the order of their calls, and \<^theory_text>\<open>rp_answers\<close> lists the callbacks that were called. The
  statistics, rates, tracers and the rollup of updates are left out, and so is the check of the
  bootstrap hosts, which only logs.
\<close>

section \<open>The lag sampler\<close>

record lag_sampler =
  ls_lagTimer :: bool
  ls_toobusy :: bool
  ls_currentLag :: int

definition new_lag_sampler :: lag_sampler where
  "new_lag_sampler = \<lparr>ls_lagTimer = False, ls_toobusy = False, ls_currentLag = 0\<rparr>"

definition lag_start :: "lag_sampler \<Rightarrow> lag_sampler" where
  "lag_start l = (if ls_lagTimer l then l else l\<lparr>ls_toobusy := True, ls_lagTimer := True\<rparr>)"

definition lag_onTimeout :: "int \<Rightarrow> lag_sampler \<Rightarrow> lag_sampler" where
  "lag_onTimeout lag l = (if ls_lagTimer l then l\<lparr>ls_currentLag := lag\<rparr> else l)"

definition lag_stop :: "lag_sampler \<Rightarrow> lag_sampler" where
  "lag_stop l = (if ls_lagTimer l then l\<lparr>ls_lagTimer := False, ls_toobusy := False\<rparr> else l)"

text \<open>\<open>set.backpressureEnabled\<close> on the configuration starts or stops it.\<close>

definition onBackpressureEnabled :: "bool \<Rightarrow> lag_sampler \<Rightarrow> lag_sampler" where
  "onBackpressureEnabled newValue l = (if newValue then lag_start l else lag_stop l)"

section \<open>State\<close>

datatype boot_error =
    AlreadyReady
  | DiscoverFailed discover_error
  | NoBootstrapHosts
  | JoinFailed join_error
  | DestroyedDuringBootstrap

datatype boot_phase = Discovering | Joining_hosts joining | Boot_over

record boot =
  bt_callback :: "nat option"
  bt_parallelism :: "int option"
  bt_phase :: boot_phase

datatype ringpop_event = Destroying | Destroyed | Ready

record ringpop =
  rp_node :: node
  rp_isReady :: bool
  rp_destroyed :: bool
  rp_bootstrapFile :: "string option"
  rp_joinSize :: "nat option"
  rp_joinTimeout :: int
  rp_discoverProvider :: "provider option"
  rp_bootstrapHosts :: "string list option"
  rp_healer :: healer
  rp_lagSampler :: lag_sampler
  rp_requestProxy :: proxy
  rp_client :: "(json, string) client"
  rp_boots :: "boot list"
  rp_answers :: "(nat \<times> (boot_error + string list)) list"
  rp_events :: "ringpop_event list"

definition rp_emit :: "ringpop_event \<Rightarrow> ringpop \<Rightarrow> ringpop" where
  "rp_emit e rp = rp\<lparr>rp_events := rp_events rp @ [e]\<rparr>"

text \<open>The context of the node's operations, with the node's own \<open>isReady\<close>.\<close>

definition rp_ctx :: "node_ctx \<Rightarrow> ringpop \<Rightarrow> node_ctx" where
  "rp_ctx ctx rp = ctx\<lparr>x_isReady := rp_isReady rp\<rparr>"

definition set_phase :: "nat \<Rightarrow> boot_phase \<Rightarrow> ringpop \<Rightarrow> ringpop" where
  "set_phase i ph rp = rp\<lparr>rp_boots := (rp_boots rp)[i := (rp_boots rp ! i)\<lparr>bt_phase := ph\<rparr>]\<rparr>"

text \<open>\<open>if (callback) callback(...)\<close>; the bootstrap \<^theory_text>\<open>i\<close> is over.\<close>

definition boot_answer :: "nat \<Rightarrow> boot_error + string list \<Rightarrow> ringpop \<Rightarrow> ringpop" where
  "boot_answer i res rp =
    (let rp1 = set_phase i Boot_over rp
     in case bt_callback (rp_boots rp ! i) of
          None \<Rightarrow> rp1
        | Some k \<Rightarrow> rp1\<lparr>rp_answers := rp_answers rp1 @ [(k, res)]\<rparr>)"

section \<open>Ready and destroyed\<close>

text \<open>What the listeners of \<open>ready\<close> do, with the random numbers gossip and healer draw.\<close>

definition onReady ::
  "node_ctx \<Rightarrow> (nat list \<Rightarrow> nat list) \<Rightarrow> int \<Rightarrow> real \<Rightarrow> real \<Rightarrow> ringpop \<Rightarrow> ringpop"
where
  "onReady ctx shuffle now random1 random2 rp =
    (let cfg = x_config ctx; n = rp_node rp;
         rp1 = (if c_autoGossip cfg
           then (case g_start shuffle now random1 (n_membership n) (n_gossip n) of
                   (ms, g) \<Rightarrow> rp\<lparr>rp_node := n\<lparr>n_membership := ms, n_gossip := g\<rparr>\<rparr>)
           else rp);
         rp2 = (if c_backpressureEnabled cfg then rp1\<lparr>rp_lagSampler := lag_start (rp_lagSampler rp1)\<rparr> else rp1)
     in if c_discoverProviderHealerPeriodicEnabled cfg
        then rp2\<lparr>rp_healer := heal_start (rp_ctx ctx rp2) random2 (n_membership (rp_node rp2)) (rp_healer rp2)\<rparr>
        else rp2)"

definition onDestroyed :: "ringpop \<Rightarrow> ringpop" where
  "onDestroyed rp =
    (let n = rp_node rp
     in rp\<lparr>rp_lagSampler := lag_stop (rp_lagSampler rp),
           rp_node := n\<lparr>n_membership := stopDampScoreDecayer (n_membership n), n_damper := d_destroy (n_damper n)\<rparr>,
           rp_healer := heal_stop (rp_healer rp)\<rparr>)"

text \<open>A join under way reads \<open>ringpop.destroyed\<close>.\<close>

definition destroy_join :: "boot \<Rightarrow> boot" where
  "destroy_join b =
    (case bt_phase b of
       Joining_hosts s \<Rightarrow> b\<lparr>bt_phase := Joining_hosts (s\<lparr>jn_destroyed := True\<rparr>)\<rparr>
     | _ \<Rightarrow> b)"

definition rp_destroy :: "ringpop \<Rightarrow> ringpop" where
  "rp_destroy rp =
    (if rp_destroyed rp then rp
     else
       let rp1 = rp_emit Destroying rp; n = rp_node rp1;
           rp2 = rp1\<lparr>rp_node := n\<lparr>n_gossip := g_stop (n_gossip n), n_transitions := st_disable (n_transitions n)\<rparr>,
                     rp_requestProxy := px_destroy (rp_requestProxy rp1),
                     rp_client := cl_destroy (rp_client rp1)\<rparr>
       in onDestroyed (rp_emit Destroyed
            (rp2\<lparr>rp_destroyed := True, rp_boots := map destroy_join (rp_boots rp2)\<rparr>)))"

section \<open>Bootstrapping\<close>

definition bootstrap :: "discover_opts \<Rightarrow> int option \<Rightarrow> nat option \<Rightarrow> ringpop \<Rightarrow> ringpop" where
  "bootstrap opts parallelism cb rp =
    (let i = length (rp_boots rp);
         rp1 = rp\<lparr>rp_boots := rp_boots rp @ [\<lparr>bt_callback = cb, bt_parallelism = parallelism, bt_phase = Discovering\<rparr>]\<rparr>
     in if rp_isReady rp then boot_answer i (Inl AlreadyReady) rp1
        else
          rp1\<lparr>rp_discoverProvider := Some
            (case createFromOpts opts of
               Some p \<Rightarrow> p
             | None \<Rightarrow> Json_file (case rp_bootstrapFile rp of
                 None \<Rightarrow> ''./hosts.json'' | Some f \<Rightarrow> if f = [] then ''./hosts.json'' else f))\<rparr>)"

text \<open>\<open>onJoin\<close>: the join's result, with the context and the random numbers of this turn.\<close>

definition onJoin ::
  "node_ctx \<Rightarrow> (nat list \<Rightarrow> nat list) \<Rightarrow> int \<Rightarrow> real \<Rightarrow> real \<Rightarrow> nat \<Rightarrow> join_error + string list \<Rightarrow> ringpop \<Rightarrow>
   ringpop outcome"
where
  "onJoin ctx shuffle now random1 random2 i res rp =
    (case res of
       Inl err \<Rightarrow> Inr (boot_answer i (Inl (JoinFailed err)) rp)
     | Inr nodesJoined \<Rightarrow>
         if rp_destroyed rp then Inr (boot_answer i (Inl DestroyedDuringBootstrap) rp)
         else
           (case n_set (rp_ctx ctx rp) (rp_node rp) of
              Inl e \<Rightarrow> Inl e
            | Inr n \<Rightarrow>
                Inr (boot_answer i (Inr nodesJoined)
                  (onReady ctx shuffle now random1 random2
                    (rp_emit Ready (rp\<lparr>rp_node := n, rp_isReady := True\<rparr>))))))"

text \<open>
  What a step of the join does outside it: the update of a join that is complete, then its
  callback. The joins' states before and after the step are \<^theory_text>\<open>s\<close> and \<^theory_text>\<open>s'\<close>.
\<close>

definition join_moved ::
  "node_ctx \<Rightarrow> env \<Rightarrow> (nat list \<Rightarrow> nat list) \<Rightarrow> int \<Rightarrow> real \<Rightarrow> real \<Rightarrow> nat \<Rightarrow> joining \<Rightarrow> joining \<Rightarrow> ringpop \<Rightarrow>
   ringpop outcome"
where
  "join_moved ctx env shuffle now random1 random2 i s s' rp =
    (let rp1 = set_phase i (Joining_hosts s') rp;
         updated = (if jn_update s = None
           then (case jn_update s' of
                   None \<Rightarrow> Inr rp1
                 | Some us \<Rightarrow>
                     (case n_update (rp_ctx ctx rp1) env us (rp_node rp1) of
                        Inl e \<Rightarrow> Inl e
                      | Inr n \<Rightarrow> Inr (rp1\<lparr>rp_node := n\<rparr>)))
           else Inr rp1)
     in case updated of
          Inl e \<Rightarrow> Inl e
        | Inr rp2 \<Rightarrow>
            (case (jn_result s, jn_result s') of
               (None, Some res) \<Rightarrow> onJoin ctx shuffle now random1 random2 i res rp2
             | _ \<Rightarrow> Inr rp2))"

text \<open>
  The provider calls back: \<^theory_text>\<open>None\<close> are hosts that are not an array. A join that has its result at
  once calls back in the next tick.
\<close>

definition onHostsDiscovered ::
  "node_ctx \<Rightarrow> env \<Rightarrow> (string list \<Rightarrow> nat) \<Rightarrow> int \<Rightarrow> nat \<Rightarrow> discovered \<Rightarrow> ringpop \<Rightarrow> ringpop outcome"
where
  "onHostsDiscovered ctx env pick now i res rp =
    (case res of
       Inl err \<Rightarrow> Inr (boot_answer i (Inl (DiscoverFailed err)) rp)
     | Inr hosts \<Rightarrow>
        let rp1 = rp\<lparr>rp_bootstrapHosts := hosts\<rparr>
        in if hosts = None \<or> hosts = Some [] then Inr (boot_answer i (Inl NoBootstrapHosts) rp1)
           else
             (case n_setLocalStatus (rp_ctx ctx rp1) env Alive (rp_node rp1) of
                Inl e \<Rightarrow> Inl e
              | Inr n \<Rightarrow>
                  let rp2 = rp1\<lparr>rp_node := n\<rparr>
                  in (case new_joiner (x_config ctx) (x_whoami ctx) (the hosts) (Some (rp_joinTimeout rp2))
                            (bt_parallelism (rp_boots rp2 ! i)) (rp_joinSize rp2) of
                        Inl e \<Rightarrow> Inl (Error ''InvalidOptionError'')
                      | Inr j \<Rightarrow>
                          Inr (set_phase i (Joining_hosts (start_join pick now (rp_destroyed rp2) j)) rp2))))"

definition onJoinTick ::
  "node_ctx \<Rightarrow> (nat list \<Rightarrow> nat list) \<Rightarrow> int \<Rightarrow> real \<Rightarrow> real \<Rightarrow> nat \<Rightarrow> joining \<Rightarrow> ringpop \<Rightarrow> ringpop outcome"
where
  "onJoinTick ctx shuffle now random1 random2 i s rp =
    (case jn_result s of
       None \<Rightarrow> Inr rp
     | Some res \<Rightarrow> onJoin ctx shuffle now random1 random2 i res rp)"

definition onJoinReply ::
  "node_ctx \<Rightarrow> env \<Rightarrow> (nat list \<Rightarrow> nat list) \<Rightarrow> int \<Rightarrow> real \<Rightarrow> real \<Rightarrow> real \<Rightarrow> nat \<Rightarrow> joining \<Rightarrow> string \<Rightarrow> join_reply \<Rightarrow>
   ringpop \<Rightarrow> ringpop outcome"
where
  "onJoinReply ctx env shuffle now random1 random2 r i s host reply rp =
     join_moved ctx env shuffle now random1 random2 i s
       (on_join_reply (x_config ctx) (x_whoami ctx) r now host reply s) rp"

definition onJoinRetry :: "(string list \<Rightarrow> nat) \<Rightarrow> nat \<Rightarrow> joining \<Rightarrow> ringpop \<Rightarrow> ringpop" where
  "onJoinRetry pick i s rp = set_phase i (Joining_hosts (on_retry pick s)) rp"

text \<open>
  A node before its bootstrap; the parts of \<^theory_text>\<open>n\<close> are new. The member list starts its decayer
  when it is created.
\<close>

definition initMembership :: "node_ctx \<Rightarrow> membership" where
  "initMembership ctx = startDampScoreDecayer ctx new_membership"

definition new_ringpop ::
  "node_ctx \<Rightarrow> node \<Rightarrow> string option \<Rightarrow> nat option \<Rightarrow> int option \<Rightarrow> proxy \<Rightarrow> ringpop"
where
  "new_ringpop ctx n bootstrapFile joinSize joinTimeout px =
     \<lparr>rp_node = n\<lparr>n_membership := initMembership ctx\<rparr>, rp_isReady = False, rp_destroyed = False, rp_bootstrapFile = bootstrapFile,
      rp_joinSize = joinSize,
      rp_joinTimeout = (case joinTimeout of None \<Rightarrow> 1000 | Some t \<Rightarrow> if t = 0 then 1000 else t),
      rp_discoverProvider = None, rp_bootstrapHosts = None, rp_healer = new_healer (x_config ctx),
      rp_lagSampler = new_lag_sampler, rp_requestProxy = px, rp_client = new_client,
      rp_boots = [], rp_answers = [], rp_events = []\<rparr>"

section \<open>Entry points of requests\<close>

datatype entry_error = OptionsRequiredError string | PropertyRequiredError string

text \<open>\<open>proxyReq\<close>: which of the options are missing, in the order they are looked at.\<close>

definition rp_proxyReq :: "site \<Rightarrow> nat \<Rightarrow> (string list \<times> proxy_opts) option \<Rightarrow> ringpop \<Rightarrow> entry_error + ringpop" where
  "rp_proxyReq S r opts rp =
    (case opts of
       None \<Rightarrow> Inl (OptionsRequiredError ''proxyReq'')
     | Some (missing, o1) \<Rightarrow>
        (case [p \<leftarrow> [''keys'', ''dest'', ''req'', ''res'']. p \<in> set missing] of
           p # _ \<Rightarrow> Inl (PropertyRequiredError p)
         | [] \<Rightarrow> Inr (rp\<lparr>rp_requestProxy := proxyReq S r o1 (rp_requestProxy rp)\<rparr>)))"

text \<open>\<open>reload\<close>: another host file; its hosts replace the bootstrap hosts unless reading fails.\<close>

definition rp_reload :: "string \<Rightarrow> ringpop \<Rightarrow> ringpop" where
  "rp_reload file rp = rp\<lparr>rp_discoverProvider := Some (Json_file file)\<rparr>"

definition onReloaded :: "discovered \<Rightarrow> ringpop \<Rightarrow> discover_error option \<times> ringpop" where
  "onReloaded res rp =
    (case res of
       Inl err \<Rightarrow> (Some err, rp)
     | Inr hosts \<Rightarrow> (None, rp\<lparr>rp_bootstrapHosts := hosts\<rparr>))"

end
