(* ===== verification/Proxy_Destroy.thy ===== *)
theory Proxy_Destroy
  imports Proxy_Inv
begin

text \<open>
  Destroying the request proxy clears the retries of the senders it lists. In every run it lists the
  senders that have anything left to do, so no retry outlives it.
\<close>

section \<open>Listed senders\<close>

definition px_owned :: "proxy \<Rightarrow> bool" where
  "px_owned p \<longleftrightarrow> set (sids (px_work p)) \<subseteq> set (px_sends p)"

lemma sends_frame [simp]:
  "px_sends (decrementInflight p) = px_sends p" "px_sends (incrementInflight S p) = px_sends p"
  "px_sends (px_wait w p) = px_sends p" "px_sends (px_write r x p) = px_sends p"
  "px_sends (take_out n p) = px_sends p" "px_sends (give cb res p) = px_sends p"
  by (simp_all add: decrementInflight_def incrementInflight_def px_wait_def px_write_def take_out_def Let_def)
    (cases cb; simp add: px_wait_def)

lemma owned_cong: "px_work p' = px_work p \<Longrightarrow> px_sends p' = px_sends p \<Longrightarrow> px_owned p' = px_owned p"
  by (simp add: px_owned_def)

lemma owned_take_out:
  assumes "px_owned p" "work_at n p = Some v"
  shows "px_owned (take_out n p)"
proof -
  note w = work_at_take [OF assms(2)]
  have "set (sids (px_work (take_out n p))) \<subseteq> set (sids (px_work p))"
    using w by (metis Un_iff list.set_intros(2) set_append set_sids subsetI)
  then show ?thesis using assms(1) by (auto simp: px_owned_def)
qed

lemma owned_wait: "px_owned p \<Longrightarrow> (\<And>i. sid_of w = Some i \<Longrightarrow> i \<in> set (px_sends p)) \<Longrightarrow> px_owned (px_wait w p)"
  by (auto simp: px_owned_def split: option.splits)

lemma owned_external:
  assumes st: "px_step S e p = Some p'" and own: "px_owned p" and e: "\<not> proxy_internal e"
  shows "px_owned p'"
proof (cases "\<exists>r opts. e = In_request r opts")
  case True
  then show ?thesis
    using st own unfolding px_owned_def by (fastforce simp: proxyReq_def split: option.splits)
next
  case False
  then obtain c h b where e: "e = In_forwarded c h b" using e by (auto simp: proxy_internal_def)
  have frame: "px_owned (p\<lparr>px_events := es\<rparr>)" "px_owned (incrementInflight S (p\<lparr>px_events := es\<rparr>))" for es
    using own by (simp_all add: px_owned_def)
  have g: "px_owned (give (To_channel c) res (p\<lparr>px_events := es\<rparr>))" for res es
    using own by (simp add: px_owned_def)
  have r: "px_owned (px_wait (App (To_channel c)) (incrementInflight S (p\<lparr>px_events := es\<rparr>)))" for es
    by (rule owned_wait [OF frame(2)]) simp
  show ?thesis
  proof (cases h)
    case None
    then show ?thesis using st e own by (auto simp: handleProxyReq_def px_owned_def)
  next
    case (Some hd)
    then have "p' = handleRequest S hd b (To_channel c) p" using st e by (simp add: handleProxyReq_def)
    then show ?thesis
      by (cases rule: handleRequest_cases [where S = S and h = hd and body = b and cb = "To_channel c" and p = p])
        (simp_all only: g r)
  qed
qed

lemma owned_step:
  assumes st: "px_step S e p = Some p'" and inv: "px_inv p" and own: "px_owned p"
  shows "px_owned p'"
proof (cases "proxy_internal e")
  case False
  then show ?thesis by (rule owned_external [OF st own])
next
  case True
  have mem: "i \<in> set (px_sends p)" if "work_at n p = Some v" "sid_of v = Some i" for n v i
    using that own work_at_take [OF that(1)] unfolding px_owned_def set_sids
    by (metis in_set_conv_decomp set_sids subsetD)
  from st True show ?thesis
  proof (cases rule: step_internal_cases)
    case (body n v r opts x)
    then show ?thesis using owned_take_out [OF own body(1)] by (simp add: px_owned_def)
  next
    case (opened n v r opts)
    then show ?thesis using owned_take_out [OF own opened(1)] by (auto simp: opened_def px_owned_def)
  next
    case (moved n v i)
    then obtain w s' es new where m: "p' = cont S i w s' es (px_requests (take_out n p) @ new) (take_out n p)"
      "sid_of w = Some i"
      using moved_place(1) [OF inv moved(1,2)] unfolding moved_def by metis
    let ?q = "(take_out n p)\<lparr>px_senders := (px_senders (take_out n p))[i := s'], px_events := es,
      px_requests := px_requests (take_out n p) @ new\<rparr>"
    have "px_owned ?q" "px_owned (incrementInflight S ?q)"
      using owned_take_out [OF own moved(1)] by (simp_all add: px_owned_def)
    moreover have "i \<in> set (px_sends p)" by (rule mem [OF moved(1,2)])
    ultimately show ?thesis unfolding m(1) cont_def Let_def using m(2) by (auto intro!: owned_wait)
  next
    case (over n v i res x)
    have i: "i \<notin> set (sids (px_work (take_out n p)))" using sid_unique [OF inv over(1)] over(2) by simp
    then have "px_work p' = px_work (take_out n p)" "px_sends p' = remove1 i (px_sends p)"
      using over(3) removeSend_work [OF i] by (simp_all add: removeSend_def sender_destroy_def)
    then show ?thesis
      using owned_take_out [OF own over(1)] i unfolding px_owned_def by (metis in_set_remove1 sends_frame(5) subset_iff)
  next
    case (app n v cb res)
    have q: "px_owned (decrementInflight (take_out n p))"
      using owned_take_out [OF own app(1)] by (simp add: px_owned_def)
    show ?thesis
    proof (cases cb)
      case (To_channel c)
      then show ?thesis using q app(3) by (simp add: px_owned_def)
    next
      case (To_send i)
      then show ?thesis using q app(3) mem [OF app(1)] app(2) by (auto intro!: owned_wait)
    qed
  qed
qed

lemma owned_run:
  assumes "px_run es (new_proxy sc mr ec ek) = Some p"
  shows "px_owned p"
proof -
  have "px_run es p0 = Some p \<Longrightarrow> px_inv p0 \<Longrightarrow> px_owned p0 \<Longrightarrow> px_owned p" for p0
    by (induction es p0 rule: px_run.induct) (auto split: option.splits intro: inv_step owned_step)
  from this [OF assms inv_new] show ?thesis by (simp add: px_owned_def new_proxy_def)
qed

section \<open>After the destruction\<close>

definition no_retry :: "proxy \<Rightarrow> bool" where
  "no_retry p \<longleftrightarrow> px_sends p = [] \<and> (\<forall>w \<in> set (px_work p). phase_of w \<noteq> P_retry)"

lemma fold_destroy_work:
  "px_work (fold sender_destroy is p) = [w \<leftarrow> px_work p. \<forall>i \<in> set is. \<not> retry_of i w]"
proof (induction "is" arbitrary: p)
  case (Cons i "is")
  have "[w \<leftarrow> [w \<leftarrow> px_work p. \<not> retry_of i w]. \<forall>i \<in> set is. \<not> retry_of i w] =
      [w \<leftarrow> px_work p. \<forall>i \<in> set (i # is). \<not> retry_of i w]"
    unfolding filter_filter by (rule filter_cong) auto
  then show ?case using Cons [of "sender_destroy i p"] by (simp add: sender_destroy_def)
qed simp

lemma destroy_no_retry:
  assumes "px_owned p"
  shows "no_retry (px_destroy p)"
proof -
  have "\<exists>i \<in> set (px_sends p). retry_of i w" if w: "w \<in> set (px_work p)" "phase_of w = P_retry" for w
  proof -
    obtain i d where r: "w = Retry i d" using w(2) by (cases w) auto
    then have "i \<in> set (sids (px_work p))" using w(1) unfolding set_sids by (intro bexI [of _ w]) simp_all
    then show ?thesis using assms r by (auto simp: px_owned_def)
  qed
  then show ?thesis by (auto simp: no_retry_def px_destroy_def fold_destroy_work)
qed

end
