(* ===== verification/Bootstrap_Properties.thy ===== *)
theory Bootstrap_Properties
  imports Bootstrap Node_Properties Healing_Properties Joiner_Properties Gossip_Properties Damper_Properties Proxy_Destroy
begin

text \<open>
  A node from its construction through bootstraps to its destruction: every bootstrap is answered
  once and never waits for nothing, a ready node serves from a ring that agrees with its members,
  and a destroyed node stays down.
\<close>

section \<open>Setting the local status to alive\<close>

text \<open>It stops neither gossip nor state transitions, and cancels at most a timeout of the node itself.\<close>

lemma n_setLocalStatus_alive:
  assumes inv: "n_inv ctx n"
  shows "\<exists>n'. n_setLocalStatus ctx env Alive n = Inr n' \<and> n_inv ctx n' \<and> ms_local (n_membership n') \<noteq> None \<and>
    n_gossip n' = n_gossip n \<and> n_transitions n' = st_cancel (x_whoami ctx) (n_transitions n)"
proof -
  have ok: "ms_ok ctx (quiet n)" using inv by (simp add: n_inv_def)
  let ?ms = "setLocalStatus ctx env Alive (quiet n)"
  note facts = setLocalStatus_ok [OF ok, of env Alive]
  obtain u qs where u: "u_address u = x_whoami ctx" "u_rank u = (e_now env 1, Alive)"
    "ms_stashed ?ms = ms_stashed (quiet n)" "list_all quiet_event qs" "ms_events ?ms = qs @ [MsUpdated [u]]"
    using setLocalStatus_trace [OF ok quiet_simps(5), of env Alive] by fastforce
  have v: "view ?ms = fold put_rank [u] (view (n_membership n))" using facts u(1,2) by (simp add: put_rank_def)
  have c: "consistent [u]" using u(2) by (simp add: consistent_def)
  have "list_ok ctx ?ms"
    using facts v inv all_known_put [of "view (n_membership n)" u] u(2,3) by (simp add: list_ok_def n_inv_def stash_known_def)
  from settle_updated [OF inv this u(5,4) v c] obtain n' where
    "settle ctx ?ms n = Inr n'" "n_inv ctx n'" "n_membership n' = ?ms\<lparr>ms_events := []\<rparr>" "n_gossip n' = n_gossip n"
    "n_transitions n' = fold (handleUpdate (x_whoami ctx)) [u] (n_transitions n)" by blast
  then show ?thesis using facts u(1,2) by (auto simp: n_setLocalStatus_def)
qed

lemma cancel_idle: "st_pending st = [] \<Longrightarrow> st_pending (st_cancel a st) = []"
  and cancel_enabled: "st_enabled (st_cancel a st) = st_enabled st"
  by (auto simp: st_cancel_def st_clearTimeout_def split: option.splits)

text \<open>What a node does does not depend on its damper.\<close>

lemma addRemoveServers_damper:
  "n_addRemoveServers ctx adds removes n = Inr n' \<Longrightarrow>
    n_addRemoveServers ctx adds removes (n\<lparr>n_damper := d\<rparr>) = Inr (n'\<lparr>n_damper := d\<rparr>)"
  by (cases n) (auto simp: n_addRemoveServers_def split: option.splits prod.splits)

lemma on_ms_event_damper:
  "on_ms_event ctx e n = Inr n' \<Longrightarrow> \<exists>d'. on_ms_event ctx e (n\<lparr>n_damper := d\<rparr>) = Inr (n'\<lparr>n_damper := d'\<rparr>)"
proof (cases e)
  case (MsMember a m)
  assume "on_ms_event ctx e n = Inr n'"
  then show ?thesis using MsMember by (cases m; cases n) auto
next
  case (MsUpdated us)
  have "onUpdatedForGossip ctx us (n\<lparr>n_damper := d\<rparr>) = (onUpdatedForGossip ctx us n)\<lparr>n_damper := d\<rparr>"
    by (cases n) (simp add: onUpdatedForGossip_eq)
  moreover assume "on_ms_event ctx e n = Inr n'"
  ultimately show ?thesis
    using MsUpdated addRemoveServers_damper [where d = d] by (auto simp: onUpdatedForRing_def split: if_splits)
next
  case (MsSet us)
  let ?n = "n\<lparr>n_transitions := fold (handleUpdate (x_whoami ctx)) us (n_transitions n)\<rparr>"
  have swap: "n\<lparr>n_damper := d\<rparr>\<lparr>n_transitions := fold (handleUpdate (x_whoami ctx)) us (n_transitions (n\<lparr>n_damper := d\<rparr>))\<rparr> =
      ?n\<lparr>n_damper := d\<rparr>" by (cases n) simp
  assume "on_ms_event ctx e n = Inr n'"
  then show ?thesis
    using MsSet addRemoveServers_damper [where d = d and n = ?n]
    unfolding MsSet on_ms_event.simps onMembershipSet_def Let_def swap by (cases "serversToAdd us") auto
qed (cases n; auto simp: onLocalMemberLeave_def)+

lemma deliver_damper:
  "deliver ctx es n = Inr n' \<Longrightarrow> \<exists>d'. deliver ctx es (n\<lparr>n_damper := d\<rparr>) = Inr (n'\<lparr>n_damper := d'\<rparr>)"
proof (induction es arbitrary: n d)
  case (Cons e es)
  obtain n1 where n1: "on_ms_event ctx e n = Inr n1" "deliver ctx es n1 = Inr n'"
    using Cons.prems by (auto split: sum.splits)
  obtain d1 where "on_ms_event ctx e (n\<lparr>n_damper := d\<rparr>) = Inr (n1\<lparr>n_damper := d1\<rparr>)"
    using on_ms_event_damper [OF n1(1)] by blast
  then show ?case using Cons.IH [OF n1(2), of d1] by auto
qed auto

lemma n_setLocalStatus_damper:
  assumes "n_setLocalStatus ctx env status n = Inr n'"
  shows "\<exists>d'. n_setLocalStatus ctx env status (n\<lparr>n_damper := d\<rparr>) = Inr (n'\<lparr>n_damper := d'\<rparr>)"
proof -
  have q: "quiet (n\<lparr>n_damper := d\<rparr>) = quiet n" by (simp add: quiet_def)
  have swap: "n\<lparr>n_damper := d, n_membership := ms\<rparr> = n\<lparr>n_membership := ms, n_damper := d\<rparr>" for ms by (cases n) simp
  show ?thesis
    using assms deliver_damper [of ctx _ _ n' d] unfolding n_setLocalStatus_def settle_def q swap by blast
qed

text \<open>What delivering events does to the gossip loop and to the damper.\<close>

lemma addRemoveServers_parts:
  "n_addRemoveServers ctx adds removes n = Inr n' \<Longrightarrow>
    n_gossip n' = n_gossip n \<and> n_damper n' = n_damper n \<and> n_membership n' = n_membership n"
  by (auto simp: n_addRemoveServers_def split: option.splits)

lemma gossip_parts: "n_gossip (onUpdatedForGossip ctx us n) = n_gossip n \<and>
    n_damper (onUpdatedForGossip ctx us n) = n_damper n \<and> n_membership (onUpdatedForGossip ctx us n) = n_membership n"
  by (simp add: onUpdatedForGossip_eq)

lemma on_ms_event_parts:
  assumes "on_ms_event ctx e n = Inr n'"
  shows "n_membership n' = n_membership n \<and> (n_gossip n' = n_gossip n \<or> n_gossip n' = g_stop (n_gossip n)) \<and>
    (n_damper n' = n_damper n \<or> (\<exists>a m. e = MsMember a m) \<and>
      (\<exists>a. n_damper n' = snd (addFlapper (x_config ctx) a (n_damper n)) \<or> n_damper n' = snd (removeFlapper a (n_damper n))))"
proof (cases e)
  case (MsMember a m)
  then show ?thesis using assms by (cases m) auto
next
  case (MsUpdated us)
  then have "n' = onUpdatedForGossip ctx us n \<or>
      n_addRemoveServers ctx (serversToAdd us) (serversToRemove us) (onUpdatedForGossip ctx us n) = Inr n'"
    using assms by (simp add: onUpdatedForRing_def split: if_splits)
  then show ?thesis using gossip_parts [of ctx us n] addRemoveServers_parts by metis
next
  case (MsSet us)
  let ?n = "n\<lparr>n_transitions := fold (handleUpdate (x_whoami ctx)) us (n_transitions n)\<rparr>"
  have "n' = ?n \<or> n_addRemoveServers ctx (serversToAdd us) [] ?n = Inr n'"
    using assms MsSet by (auto simp: onMembershipSet_def Let_def split: if_splits)
  then show ?thesis using addRemoveServers_parts [of ctx _ _ ?n n'] by auto
qed (use assms in \<open>auto simp: onLocalMemberLeave_def\<close>)

lemma deliver_parts:
  "deliver ctx es n = Inr n' \<Longrightarrow> n_membership n' = n_membership n \<and>
    (g_held (n_gossip n) \<and> d_held (n_damper n) \<longrightarrow> g_held (n_gossip n') \<and> d_held (n_damper n')) \<and>
    ((\<forall>e \<in> set es. \<forall>a m. e \<noteq> MsMember a m) \<longrightarrow> n_damper n' = n_damper n)"
proof (induction es arbitrary: n)
  case (Cons e es)
  obtain n1 where n1: "on_ms_event ctx e n = Inr n1" "deliver ctx es n1 = Inr n'"
    using Cons.prems by (auto split: sum.splits)
  note e = on_ms_event_parts [OF n1(1)] and es = Cons.IH [OF n1(2)]
  have "g_held (n_gossip n) \<longrightarrow> g_held (n_gossip n1)" "d_held (n_damper n) \<longrightarrow> d_held (n_damper n1)"
    using e g_held_ops(1) d_held_ops by metis+
  then show ?case using e es by auto
qed simp

lemma settle_parts:
  assumes "settle ctx ms n = Inr n'"
  shows "n_membership n' = ms\<lparr>ms_events := []\<rparr>"
    "g_held (n_gossip n) \<and> d_held (n_damper n) \<Longrightarrow> g_held (n_gossip n') \<and> d_held (n_damper n')"
    "\<forall>e \<in> set (ms_events ms). \<forall>a m. e \<noteq> MsMember a m \<Longrightarrow> n_damper n' = n_damper n"
  using deliver_parts [of ctx "ms_events ms" "n\<lparr>n_membership := ms\<lparr>ms_events := []\<rparr>\<rparr>" n'] assms
  by (auto simp: settle_def)

lemma node_steps_held:
  assumes "g_held (n_gossip n) \<and> d_held (n_damper n)"
  shows "n_update ctx env changes n = Inr n' \<Longrightarrow> g_held (n_gossip n') \<and> d_held (n_damper n')"
    "n_setLocalStatus ctx env status n = Inr n' \<Longrightarrow> g_held (n_gossip n') \<and> d_held (n_damper n')"
    "n_set ctx n = Inr n' \<Longrightarrow> g_held (n_gossip n') \<and> d_held (n_damper n')"
    "n_decay ctx env n = Inr n' \<Longrightarrow> g_held (n_gossip n') \<and> d_held (n_damper n')"
    "onTransition ctx env i n = Inr n' \<Longrightarrow> g_held (n_gossip n') \<and> d_held (n_damper n')"
proof -
  note parts = settle_parts(2)
  show "n_update ctx env changes n = Inr n' \<Longrightarrow> g_held (n_gossip n') \<and> d_held (n_damper n')"
    "n_setLocalStatus ctx env status n = Inr n' \<Longrightarrow> g_held (n_gossip n') \<and> d_held (n_damper n')"
    "n_set ctx n = Inr n' \<Longrightarrow> g_held (n_gossip n') \<and> d_held (n_damper n')"
    "n_decay ctx env n = Inr n' \<Longrightarrow> g_held (n_gossip n') \<and> d_held (n_damper n')"
    using assms parts by (auto simp: n_update_def n_setLocalStatus_def n_set_def n_decay_def split: sum.splits prod.splits)
  show "onTransition ctx env i n = Inr n' \<Longrightarrow> g_held (n_gossip n') \<and> d_held (n_damper n')"
    using assms parts [of ctx _ "n\<lparr>n_transitions := st\<rparr>" n' for st]
    by (auto simp: onTransition_def n_makeChange_def n_evict_def Let_def split: sum.splits prod.splits option.splits transition.splits)
qed

lemma setLocalStatus_plain:
  assumes "ms_events ms = []"
  shows "(\<forall>e \<in> set (ms_events (setLocalStatus ctx env Alive ms)). \<forall>a m. e \<noteq> MsMember a m) \<and>
    ms_decayTimer (setLocalStatus ctx env Alive ms) = ms_decayTimer ms"
  using assms
  by (auto simp: setLocalStatus_def reincarnate_def postLocalUpdate_def ms_computeChecksum_def set_member_def
      push_member_def insert_member_def alloc_member_def ms_emit_def Let_def split: option.splits prod.splits if_splits)

lemma n_setLocalStatus_parts:
  assumes "n_setLocalStatus ctx env Alive n = Inr n'"
  shows "n_damper n' = n_damper n \<and> ms_decayTimer (n_membership n') = ms_decayTimer (n_membership n)"
proof -
  have q: "ms_events (quiet n) = []" "ms_decayTimer (quiet n) = ms_decayTimer (n_membership n)" by (simp_all add: quiet_def)
  note plain = setLocalStatus_plain [OF q(1), of ctx env]
  have st: "settle ctx (setLocalStatus ctx env Alive (quiet n)) n = Inr n'" using assms by (simp add: n_setLocalStatus_def)
  show ?thesis using settle_parts(1) [OF st] settle_parts(3) [OF st] plain q(2) by simp
qed

section \<open>Joiners\<close>

lemma new_joiner_fresh:
  assumes "hosts \<noteq> []"
  shows "\<exists>j. new_joiner cfg whoami hosts timeout parallelism joinSize = Inr j \<and> fresh_joiner j"
  using assms by (simp add: new_joiner_def Let_def pool_def fresh_joiner_def)

text \<open>Distinct hosts, one of them not the node itself, are enough unless asked to join none.\<close>

lemma distinct_hosts_suffice:
  assumes "distinct hosts" "set hosts - {whoami} \<noteq> {}" "joinSize \<noteq> Some 0" "case_option True (\<lambda>p. 1 \<le> p) parallelism"
    and j: "new_joiner cfg whoami hosts timeout parallelism joinSize = Inr j"
  shows "enough_hosts j"
proof -
  let ?P = "[h \<leftarrow> hosts. whoami \<noteq> h]"
  have "hosts \<noteq> []" using assms(2) by auto
  then have f: "j_bootstrapHosts j = hosts" "j_joinSize j = min (numOrDefault joinSize 3) (length ?P)"
    "j_parallelismFactor j = numOrDefault parallelism 2" "targets j = ?P"
    using j by (auto simp: new_joiner_def Let_def collectPotentialNodes_def targets_def)
  have "?P \<noteq> []" using assms(2) by (auto simp: filter_empty_conv)
  then show ?thesis
    using assms(1,3,4) f by (intro distinct_hosts_enough; cases joinSize; cases parallelism) auto
qed

section \<open>Runs of a node\<close>

text \<open>
  Bootstraps are called at any time with any hosts, providers and nodes answer in any order, the node
  applies changes it hears of, lets timeouts of its members fire and decays damp scores, and may be
  destroyed. Until then the gossip loop, the damper, the healer, the request proxy and the client run on
  their own: they take any state in which pending timeouts have their handles and retries a listed
  sender, which are the states of their own runs (\<open>orderly_g_held\<close>, \<open>orderly_held\<close>, \<open>owned_run\<close>). After
  it, a ping of the loop and a damp-req that damps nobody may still end.
\<close>

definition h_held :: "healer \<Rightarrow> bool" where
  "h_held h \<longleftrightarrow> (\<forall>i \<in> set (dh_pending h). Some i = dh_healTimer h)"

inductive rp_run :: "node_ctx \<Rightarrow> int \<Rightarrow> ringpop \<Rightarrow> bool" for ctx where
  start: "rp_run ctx now (new_ringpop ctx (new_node (new_gossip minProtocolPeriod seed) replicaPoints periods)
      file joinSize timeout (new_proxy schedule maxRetries enforce enforceKeys))"
| wait: "rp_run ctx now rp \<Longrightarrow> now \<le> now' \<Longrightarrow> rp_run ctx now' rp"
| bootstrap: "rp_run ctx now rp \<Longrightarrow> rp_run ctx now (bootstrap opts parallelism cb rp)"
| discovered: "rp_run ctx now rp \<Longrightarrow> i < length (rp_boots rp) \<Longrightarrow> bt_phase (rp_boots rp ! i) = Discovering \<Longrightarrow>
    onHostsDiscovered ctx env pick now i res rp = Inr rp' \<Longrightarrow> rp_run ctx now rp'"
| next_tick: "rp_run ctx now rp \<Longrightarrow> i < length (rp_boots rp) \<Longrightarrow> bt_phase (rp_boots rp ! i) = Joining_hosts s \<Longrightarrow>
    (\<And>xs. mset (shuffle xs) = mset xs) \<Longrightarrow>
    onJoinTick ctx shuffle now random1 random2 i s rp = Inr rp' \<Longrightarrow> rp_run ctx now rp'"
| reply: "rp_run ctx now rp \<Longrightarrow> i < length (rp_boots rp) \<Longrightarrow> bt_phase (rp_boots rp ! i) = Joining_hosts s \<Longrightarrow>
    host \<in> set (jn_waiting s) \<Longrightarrow> 0 \<le> r \<Longrightarrow> (\<And>xs. mset (shuffle xs) = mset xs) \<Longrightarrow>
    (\<And>us. jn_update (on_join_reply (x_config ctx) (x_whoami ctx) r now host answer s) = Some us \<Longrightarrow> consistent us) \<Longrightarrow>
    onJoinReply ctx env shuffle now random1 random2 r i s host answer rp = Inr rp' \<Longrightarrow> rp_run ctx now rp'"
| retry: "rp_run ctx now rp \<Longrightarrow> i < length (rp_boots rp) \<Longrightarrow> bt_phase (rp_boots rp ! i) = Joining_hosts s \<Longrightarrow>
    jn_retryAt s = Some d \<Longrightarrow> d \<le> now \<Longrightarrow> rp_run ctx now (onJoinRetry pick i s rp)"
| update: "rp_run ctx now rp \<Longrightarrow> \<not> rp_destroyed rp \<Longrightarrow> consistent changes \<Longrightarrow>
    n_update (rp_ctx ctx rp) env changes (rp_node rp) = Inr n \<Longrightarrow> rp_run ctx now (rp\<lparr>rp_node := n\<rparr>)"
| transition: "rp_run ctx now rp \<Longrightarrow> ms_local (n_membership (rp_node rp)) \<noteq> None \<Longrightarrow> st_pending (n_transitions (rp_node rp)) \<noteq> [] \<Longrightarrow>
    onTransition (rp_ctx ctx rp) env i (rp_node rp) = Inr n \<Longrightarrow> rp_run ctx now (rp\<lparr>rp_node := n\<rparr>)"
| decay: "rp_run ctx now rp \<Longrightarrow> ms_decayTimer (n_membership (rp_node rp)) \<Longrightarrow>
    n_decay (rp_ctx ctx rp) env (rp_node rp) = Inr n \<Longrightarrow> rp_run ctx now (rp\<lparr>rp_node := n\<rparr>)"
| others: "rp_run ctx now rp \<Longrightarrow> \<not> rp_destroyed rp \<Longrightarrow> g_held g \<Longrightarrow> d_ok d \<Longrightarrow> d_held d \<Longrightarrow> h_held h \<Longrightarrow> px_owned px \<Longrightarrow>
    rp_run ctx now (rp\<lparr>rp_node := (rp_node rp)\<lparr>n_gossip := g, n_damper := d\<rparr>, rp_healer := h, rp_requestProxy := px,
      rp_client := c\<rparr>)"
| destroy: "rp_run ctx now rp \<Longrightarrow> rp_run ctx now (rp_destroy rp)"
| late_ping: "rp_run ctx now rp \<Longrightarrow> rp_destroyed rp \<Longrightarrow>
    rp_run ctx now (rp\<lparr>rp_node := (rp_node rp)\<lparr>n_gossip := onMemberPinged now random (ping_over (n_gossip (rp_node rp)))\<rparr>\<rparr>)"
| late_damp_req: "rp_run ctx now rp \<Longrightarrow> rp_destroyed rp \<Longrightarrow>
    rp_run ctx now (rp\<lparr>rp_node := (rp_node rp)\<lparr>n_damper := onSubprotocol (x_config ctx) (n_damper (rp_node rp))\<rparr>\<rparr>)"

text \<open>The callbacks of the bootstraps that are over.\<close>

definition over :: "boot \<Rightarrow> nat list" where
  "over b = (if bt_phase b = Boot_over then case bt_callback b of None \<Rightarrow> [] | Some k \<Rightarrow> [k] else [])"

definition answered :: "ringpop \<Rightarrow> bool" where
  "answered rp \<longleftrightarrow> mset (map fst (rp_answers rp)) = mset (concat (map over (rp_boots rp)))"

text \<open>A join under way, and a bootstrap under way.\<close>

definition session_ok :: "node_ctx \<Rightarrow> int \<Rightarrow> joining \<Rightarrow> bool" where
  "session_ok ctx now s \<longleftrightarrow>
     (case jn_result s of
        Some res \<Rightarrow> jn_waiting s = [] \<and> jn_retryAt s = None \<and> jn_update s = None
      | None \<Rightarrow> jn_update s = None \<and> (\<exists>j. fresh_joiner j \<and> join_run (x_config ctx) (x_whoami ctx) j now s))"

definition boot_ok :: "node_ctx \<Rightarrow> int \<Rightarrow> ringpop \<Rightarrow> boot \<Rightarrow> bool" where
  "boot_ok ctx now rp b \<longleftrightarrow>
     (case bt_phase b of
        Joining_hosts s \<Rightarrow> ms_local (n_membership (rp_node rp)) \<noteq> None \<and>
          (rp_destroyed rp \<longrightarrow> jn_destroyed s) \<and> session_ok ctx now s
      | _ \<Rightarrow> True)"

text \<open>What runs on its own: before the node is destroyed, and after.\<close>

definition running :: "ringpop \<Rightarrow> bool" where
  "running rp \<longleftrightarrow> g_held (n_gossip (rp_node rp)) \<and> d_held (n_damper (rp_node rp)) \<and> h_held (rp_healer rp) \<and>
     px_owned (rp_requestProxy rp)"

definition node_stopped :: "node \<Rightarrow> bool" where
  "node_stopped n \<longleftrightarrow> g_held (n_gossip n) \<and> g_isStopped (n_gossip n) \<and> \<not> st_enabled (n_transitions n) \<and>
     st_pending (n_transitions n) = [] \<and> d_pending (n_damper n) = [] \<and> d_dampTimer (n_damper n) = None \<and>
     d_expirationTimer (n_damper n) = None \<and> \<not> ms_decayTimer (n_membership n)"

definition stopped :: "ringpop \<Rightarrow> bool" where
  "stopped rp \<longleftrightarrow> node_stopped (rp_node rp) \<and> dh_isStopped (rp_healer rp) \<and> dh_healTimer (rp_healer rp) = None \<and>
     dh_pending (rp_healer rp) = [] \<and> \<not> ls_lagTimer (rp_lagSampler rp) \<and> no_retry (rp_requestProxy rp) \<and>
     cl_isDestroyed (rp_client rp) \<and> cl_due (rp_client rp) = None"

definition events_ok :: "ringpop \<Rightarrow> bool" where
  "events_ok rp \<longleftrightarrow> (\<exists>k. rp_events rp = replicate k Ready @ (if rp_destroyed rp then [Destroying, Destroyed] else []) \<and>
     (rp_isReady rp \<longleftrightarrow> 0 < k))"

text \<open>Destroying stops the damper's timers but not its lists, so its own invariant is lost.\<close>

definition node_fit :: "node_ctx \<Rightarrow> bool \<Rightarrow> node \<Rightarrow> bool" where
  "node_fit ctx destroyed n \<longleftrightarrow> (\<exists>d. n_inv ctx (n\<lparr>n_damper := d\<rparr>) \<and> (destroyed \<or> d = n_damper n))"

lemma node_fit_intact [simp]: "node_fit ctx False n \<longleftrightarrow> n_inv ctx n"
  by (simp add: node_fit_def)

definition rp_inv :: "node_ctx \<Rightarrow> int \<Rightarrow> ringpop \<Rightarrow> bool" where
  "rp_inv ctx now rp \<longleftrightarrow> node_fit (rp_ctx ctx rp) (rp_destroyed rp) (rp_node rp) \<and>
     (rp_isReady rp \<longrightarrow> ms_local (n_membership (rp_node rp)) \<noteq> None) \<and>
     answered rp \<and> (\<forall>b \<in> set (rp_boots rp). boot_ok ctx now rp b) \<and>
     (if rp_destroyed rp then stopped rp else running rp) \<and> events_ok rp"

lemma fit_setLocalStatus:
  assumes "node_fit ctx destroyed n"
  shows "\<exists>n'. n_setLocalStatus ctx env Alive n = Inr n' \<and> node_fit ctx destroyed n' \<and> ms_local (n_membership n') \<noteq> None \<and>
    n_gossip n' = n_gossip n \<and> n_transitions n' = st_cancel (x_whoami ctx) (n_transitions n)"
proof -
  obtain d where d: "n_inv ctx (n\<lparr>n_damper := d\<rparr>)" "destroyed \<or> d = n_damper n" using assms by (auto simp: node_fit_def)
  from n_setLocalStatus_alive [OF d(1), of env] obtain n1 where
    n1: "n_setLocalStatus ctx env Alive (n\<lparr>n_damper := d\<rparr>) = Inr n1" "n_inv ctx n1" "ms_local (n_membership n1) \<noteq> None"
    "n_gossip n1 = n_gossip n" "n_transitions n1 = st_cancel (x_whoami ctx) (n_transitions n)" by auto
  show ?thesis
  proof (cases destroyed)
    case True
    obtain d' where "n_setLocalStatus ctx env Alive n = Inr (n1\<lparr>n_damper := d'\<rparr>)"
      using n_setLocalStatus_damper [OF n1(1), of "n_damper n"] by auto
    moreover have "n_inv ctx (n1\<lparr>n_damper := d'\<rparr>\<lparr>n_damper := n_damper n1\<rparr>)" using n1(2) by simp
    then have "node_fit ctx destroyed (n1\<lparr>n_damper := d'\<rparr>)" using True unfolding node_fit_def by blast
    ultimately show ?thesis using n1(3-5) by (intro exI [of _ "n1\<lparr>n_damper := d'\<rparr>"]) simp
  next
    case False
    then show ?thesis using d n1 by auto
  qed
qed

section \<open>What the parts of a step keep\<close>

lemma rp_ctx_simps [simp]:
  "rp_ctx ctx rp = ready ctx (rp_isReady rp)"
  by (simp add: rp_ctx_def)

lemma set_phase_simps [simp]:
  "rp_node (set_phase i ph rp) = rp_node rp" "rp_isReady (set_phase i ph rp) = rp_isReady rp"
  "rp_destroyed (set_phase i ph rp) = rp_destroyed rp" "rp_joinSize (set_phase i ph rp) = rp_joinSize rp"
  "rp_answers (set_phase i ph rp) = rp_answers rp" "rp_events (set_phase i ph rp) = rp_events rp"
  "rp_requestProxy (set_phase i ph rp) = rp_requestProxy rp" "rp_client (set_phase i ph rp) = rp_client rp"
  "rp_healer (set_phase i ph rp) = rp_healer rp" "rp_lagSampler (set_phase i ph rp) = rp_lagSampler rp"
  "rp_boots (set_phase i ph rp) = (rp_boots rp)[i := (rp_boots rp ! i)\<lparr>bt_phase := ph\<rparr>]"
  by (simp_all add: set_phase_def)

lemma boot_answer_simps [simp]:
  "rp_node (boot_answer i res rp) = rp_node rp" "rp_isReady (boot_answer i res rp) = rp_isReady rp"
  "rp_destroyed (boot_answer i res rp) = rp_destroyed rp" "rp_joinSize (boot_answer i res rp) = rp_joinSize rp"
  "rp_events (boot_answer i res rp) = rp_events rp"
  "rp_requestProxy (boot_answer i res rp) = rp_requestProxy rp" "rp_client (boot_answer i res rp) = rp_client rp"
  "rp_healer (boot_answer i res rp) = rp_healer rp" "rp_lagSampler (boot_answer i res rp) = rp_lagSampler rp"
  "rp_boots (boot_answer i res rp) = (rp_boots rp)[i := (rp_boots rp ! i)\<lparr>bt_phase := Boot_over\<rparr>]"
  "rp_answers (boot_answer i res rp) = rp_answers rp @
     (case bt_callback (rp_boots rp ! i) of None \<Rightarrow> [] | Some k \<Rightarrow> [(k, res)])"
  by (simp_all add: boot_answer_def Let_def split: option.splits)

lemma mset_concat_update:
  "i < length bs \<Longrightarrow> mset (concat (map f (bs[i := b]))) + mset (f (bs ! i)) = mset (concat (map f bs)) + mset (f b)"
  by (induction bs arbitrary: i) (auto simp: nth_Cons less_Suc_eq_0_disj split: nat.splits)

lemma answered_phase:
  assumes "answered rp" "i < length (rp_boots rp)" "bt_phase (rp_boots rp ! i) \<noteq> Boot_over"
  shows "ph \<noteq> Boot_over \<Longrightarrow> answered (set_phase i ph rp)" "answered (boot_answer i res rp)"
  using assms mset_concat_update [OF assms(2), of over "(rp_boots rp ! i)\<lparr>bt_phase := ph\<rparr>"]
    mset_concat_update [OF assms(2), of over "(rp_boots rp ! i)\<lparr>bt_phase := Boot_over\<rparr>"]
  by (auto simp: answered_def over_def split: option.splits)

lemma boot_ok_cong:
  assumes "rp_destroyed rp' = rp_destroyed rp"
    "ms_local (n_membership (rp_node rp)) \<noteq> None \<Longrightarrow> ms_local (n_membership (rp_node rp')) \<noteq> None"
  shows "boot_ok ctx now rp b \<Longrightarrow> boot_ok ctx now rp' b"
  using assms by (auto simp: boot_ok_def split: boot_phase.splits)

lemma boots_update:
  assumes "\<forall>b \<in> set (rp_boots rp). boot_ok ctx now rp b" "i < length (rp_boots rp)"
    "boot_ok ctx now rp ((rp_boots rp ! i)\<lparr>bt_phase := ph\<rparr>)"
  shows "\<forall>b \<in> set ((rp_boots rp)[i := (rp_boots rp ! i)\<lparr>bt_phase := ph\<rparr>]). boot_ok ctx now rp b"
  using assms set_update_subset_insert by fastforce

lemma rp_inv_answer:
  assumes "rp_inv ctx now rp" "i < length (rp_boots rp)" "bt_phase (rp_boots rp ! i) \<noteq> Boot_over"
  shows "rp_inv ctx now (boot_answer i res rp)"
proof -
  have boots: "\<forall>b \<in> set (rp_boots rp). boot_ok ctx now rp b" using assms(1) by (simp add: rp_inv_def)
  then have "boot_ok ctx now rp (rp_boots rp ! i)" using assms(2) by simp
  then have "boot_ok ctx now rp ((rp_boots rp ! i)\<lparr>bt_phase := Boot_over\<rparr>)" by (simp add: boot_ok_def)
  from boots_update [OF boots assms(2) this]
  have "\<forall>b \<in> set (rp_boots (boot_answer i res rp)). boot_ok ctx now (boot_answer i res rp) b"
    by (auto intro: boot_ok_cong [of "boot_answer i res rp" rp])
  then show ?thesis
    using assms(1) answered_phase(2) [OF _ assms(2,3)] unfolding rp_inv_def
    by (cases "rp_destroyed rp") (simp_all add: stopped_def running_def events_ok_def)
qed

lemma rp_inv_phase:
  assumes "rp_inv ctx now rp" "i < length (rp_boots rp)" "bt_phase (rp_boots rp ! i) \<noteq> Boot_over"
    and s: "ms_local (n_membership (rp_node rp)) \<noteq> None" "rp_destroyed rp \<Longrightarrow> jn_destroyed s" "session_ok ctx now s"
  shows "rp_inv ctx now (set_phase i (Joining_hosts s) rp)"
proof -
  have boots: "\<forall>b \<in> set (rp_boots rp). boot_ok ctx now rp b" using assms(1) by (simp add: rp_inv_def)
  then have "boot_ok ctx now rp (rp_boots rp ! i)" using assms(2) by simp
  then have "boot_ok ctx now rp ((rp_boots rp ! i)\<lparr>bt_phase := Joining_hosts s\<rparr>)" using s by (simp add: boot_ok_def)
  from boots_update [OF boots assms(2) this]
  have "\<forall>b \<in> set (rp_boots (set_phase i (Joining_hosts s) rp)). boot_ok ctx now (set_phase i (Joining_hosts s) rp) b"
    by (auto intro: boot_ok_cong [of "set_phase i (Joining_hosts s) rp" rp])
  then show ?thesis
    using assms(1) answered_phase(1) [OF _ assms(2,3)] unfolding rp_inv_def
    by (cases "rp_destroyed rp") (simp_all add: stopped_def running_def events_ok_def)
qed

text \<open>The node changes; what stopped stays stopped.\<close>

lemma rp_inv_node:
  assumes inv: "rp_inv ctx now rp" and n: "node_fit (rp_ctx ctx rp) (rp_destroyed rp) n"
    and l: "ms_local (n_membership (rp_node rp)) \<noteq> None \<Longrightarrow> ms_local (n_membership n) \<noteq> None"
    and held: "\<not> rp_destroyed rp \<Longrightarrow> g_held (n_gossip (rp_node rp)) \<and> d_held (n_damper (rp_node rp)) \<Longrightarrow>
      g_held (n_gossip n) \<and> d_held (n_damper n)"
    and stop: "rp_destroyed rp \<Longrightarrow> node_stopped (rp_node rp) \<Longrightarrow> node_stopped n"
  shows "rp_inv ctx now (rp\<lparr>rp_node := n\<rparr>)"
proof -
  have "\<forall>b \<in> set (rp_boots rp). boot_ok ctx now (rp\<lparr>rp_node := n\<rparr>) b"
    using inv boot_ok_cong [of "rp\<lparr>rp_node := n\<rparr>" rp] l by (auto simp: rp_inv_def)
  then show ?thesis
    using assms unfolding rp_inv_def
    by (cases "rp_destroyed rp") (auto simp: answered_def stopped_def running_def events_ok_def)
qed

section \<open>Steps of a join\<close>

lemma on_join_reply_frame:
  "jn_destroyed (on_join_reply cfg whoami r now host answer s) = jn_destroyed s"
  by (auto simp: on_join_reply_def node_done_def group_done_def Let_def split: join_reply.splits option.splits)

lemma on_join_reply_update:
  "jn_update s = None \<Longrightarrow> jn_update (on_join_reply cfg whoami r now host answer s) = Some us \<Longrightarrow>
    \<not> jn_destroyed s \<and> jn_result (on_join_reply cfg whoami r now host answer s) \<noteq> None"
  by (auto simp: on_join_reply_def node_done_def group_done_def Let_def split: join_reply.splits option.splits if_splits)

lemma on_join_reply_aborts:
  "jn_result s = None \<Longrightarrow> jn_result (on_join_reply cfg whoami r now host answer s) = Some (Inr ns) \<Longrightarrow> \<not> jn_destroyed s"
  by (auto simp: on_join_reply_def node_done_def group_done_def Let_def split: join_reply.splits option.splits if_splits)

lemma session_reply:
  assumes "session_ok ctx now s" "host \<in> set (jn_waiting s)" "0 \<le> r" "jn_update s = None"
    and "jn_result (on_join_reply (x_config ctx) (x_whoami ctx) r now host answer s) = None"
  shows "session_ok ctx now (on_join_reply (x_config ctx) (x_whoami ctx) r now host answer s)"
proof -
  obtain j where "fresh_joiner j" "join_run (x_config ctx) (x_whoami ctx) j now s"
    using assms(1,2) by (auto simp: session_ok_def split: option.splits)
  then show ?thesis
    using join_run.reply [of _ _ j now s host r answer] assms(2-5) on_join_reply_update [OF assms(4)]
    by (fastforce simp: session_ok_def)
qed

lemma session_retry:
  assumes "session_ok ctx now s" "jn_retryAt s = Some d" "d \<le> now"
  shows "session_ok ctx now (on_retry pick s) \<and> jn_destroyed (on_retry pick s) = jn_destroyed s"
proof -
  have none: "jn_result s = None" using assms(1,2) by (auto simp: session_ok_def split: option.splits)
  then obtain j where "fresh_joiner j" "join_run (x_config ctx) (x_whoami ctx) j now s" "jn_update s = None"
    using assms(1) by (auto simp: session_ok_def)
  then show ?thesis
    using join_run.retry [of _ _ j now s d pick] assms(2,3) none
    by (auto simp: session_ok_def on_retry_def joinGroup_def Let_def split: option.splits prod.splits)
qed

lemma session_wait: "session_ok ctx now s \<Longrightarrow> now \<le> now' \<Longrightarrow> session_ok ctx now' s"
  by (auto simp: session_ok_def split: option.splits intro: join_run.tick)

lemma session_destroy: "session_ok ctx now s \<Longrightarrow> session_ok ctx now (s\<lparr>jn_destroyed := True\<rparr>)"
  by (auto simp: session_ok_def split: option.splits intro: join_run.destroy)

lemma session_start:
  assumes "fresh_joiner j"
  shows "session_ok ctx now (start_join pick now destroyed j) \<and> jn_destroyed (start_join pick now destroyed j) = destroyed"
proof (cases "destroyed \<or> isSingleNodeCluster j")
  case True
  then show ?thesis by (auto simp: start_join_def session_ok_def Let_def)
next
  case False
  then have "jn_result (start_join pick now False j) = None"
    by (auto simp: start_join_def joinGroup_def Let_def split: prod.splits)
  then show ?thesis
    using False assms join_run.start [of "x_config ctx" "x_whoami ctx" j now pick]
    by (auto simp: session_ok_def start_join_def joinGroup_def Let_def split: prod.splits)
qed

section \<open>Becoming ready\<close>

lemma onReady_boots:
  "onReady ctx shuffle now r1 r2 (rp\<lparr>rp_boots := bs\<rparr>) = (onReady ctx shuffle now r1 r2 rp)\<lparr>rp_boots := bs\<rparr>"
  by (cases rp) (simp add: onReady_def Let_def split: prod.splits)

lemma answer_phase: "i < length (rp_boots rp) \<Longrightarrow> boot_answer i res (set_phase i ph rp) = boot_answer i res rp"
  by (cases rp) (simp add: boot_answer_def set_phase_def Let_def split: option.splits)

lemma onJoin_phase:
  assumes "i < length (rp_boots rp)"
  shows "onJoin ctx shuffle now r1 r2 i res (set_phase i ph rp) = onJoin ctx shuffle now r1 r2 i res rp"
proof -
  let ?bs = "(rp_boots rp)[i := (rp_boots rp ! i)\<lparr>bt_phase := ph\<rparr>]"
  have "rp_boots (onReady ctx shuffle now r1 r2 rp') = rp_boots rp'" for rp'
    by (simp add: onReady_def Let_def split: prod.splits)
  then have "boot_answer i r (onReady ctx shuffle now r1 r2 (rp_emit Ready ((set_phase i ph rp)\<lparr>rp_node := n, rp_isReady := True\<rparr>))) =
      boot_answer i r (onReady ctx shuffle now r1 r2 (rp_emit Ready (rp\<lparr>rp_node := n, rp_isReady := True\<rparr>)))" for r n
    using answer_phase [of i "onReady ctx shuffle now r1 r2 (rp_emit Ready (rp\<lparr>rp_node := n, rp_isReady := True\<rparr>))" r ph]
      onReady_boots [of ctx shuffle now r1 r2 ?bs "rp_emit Ready (rp\<lparr>rp_node := n, rp_isReady := True\<rparr>)"] assms
    by (cases rp) (simp add: set_phase_def rp_emit_def)
  then show ?thesis using answer_phase [OF assms] by (simp add: onJoin_def split: sum.splits)
qed

lemma heal_start_held: "h_held h \<Longrightarrow> h_held (heal_start ctx random ms h)"
  by (auto simp: h_held_def heal_start_def heal_run_def scheduleNext_def)

lemma onReady_inv:
  assumes inv: "rp_inv ctx now rp" and "\<not> rp_destroyed rp" and shuffle: "\<And>xs. mset (shuffle xs) = mset xs"
  shows "rp_inv ctx now (onReady ctx shuffle now r1 r2 rp)"
proof -
  let ?n = "rp_node rp"
  obtain ms g where g: "g_start shuffle now r1 (n_membership ?n) (n_gossip ?n) = (ms, g)" by fastforce
  let ?n1 = "?n\<lparr>n_membership := ms, n_gossip := g\<rparr>"
  have i0: "n_inv (rp_ctx ctx rp) ?n" using inv assms(2) by (simp add: rp_inv_def)
  have "ms = n_membership ?n \<and> g = n_gossip ?n \<or> ms = ms_shuffle shuffle (n_membership ?n)"
    using g by (auto simp: g_start_def split: if_splits)
  then have "n_inv (rp_ctx ctx rp) ?n1 \<and> ms_local ms = ms_local (n_membership ?n)"
    using n_inv_shuffle [OF i0, of shuffle g] shuffle i0 by (auto simp: ms_shuffle_def)
  moreover have "g_held (n_gossip ?n) \<Longrightarrow> g_held g" using g_held_ops(2) [of "n_gossip ?n" shuffle now r1 "n_membership ?n"] g by simp
  ultimately have "rp_inv ctx now (rp\<lparr>rp_node := ?n1\<rparr>)"
    using rp_inv_node [OF inv, of ?n1] assms(2) by auto
  moreover have "rp_inv ctx now (rp'\<lparr>rp_lagSampler := l\<rparr>)" if "rp_inv ctx now rp'" "\<not> rp_destroyed rp'" for rp' l
    using that boot_ok_cong [of "rp'\<lparr>rp_lagSampler := l\<rparr>" rp'] by (auto simp: rp_inv_def answered_def events_ok_def running_def)
  moreover have "rp_inv ctx now (rp'\<lparr>rp_healer := heal_start c r2 ms (rp_healer rp')\<rparr>)"
    if "rp_inv ctx now rp'" "\<not> rp_destroyed rp'" for rp' c ms
    using that boot_ok_cong [of "rp'\<lparr>rp_healer := heal_start c r2 ms (rp_healer rp')\<rparr>" rp'] heal_start_held
    by (auto simp: rp_inv_def answered_def events_ok_def running_def)
  ultimately show ?thesis
    using inv assms(2) g unfolding onReady_def Let_def by auto
qed

lemma ready_inv:
  assumes inv: "rp_inv ctx now rp" and "\<not> rp_destroyed rp" and n: "n_inv (rp_ctx ctx rp) n" "ms_local (n_membership n) \<noteq> None"
      "g_held (n_gossip n) \<and> d_held (n_damper n)"
  shows "rp_inv ctx now (rp_emit Ready (rp\<lparr>rp_node := n, rp_isReady := True\<rparr>))"
proof -
  let ?rp = "rp_emit Ready (rp\<lparr>rp_node := n, rp_isReady := True\<rparr>)"
  obtain k where k: "rp_events rp = replicate k Ready" using inv assms(2) by (auto simp: rp_inv_def events_ok_def)
  have "rp_events ?rp = replicate (Suc k) Ready" using k by (simp add: rp_emit_def replicate_append_same)
  then have "events_ok ?rp" using assms(2) unfolding events_ok_def by (intro exI [of _ "Suc k"]) (simp add: rp_emit_def)
  moreover have "\<forall>b \<in> set (rp_boots ?rp). boot_ok ctx now ?rp b"
    using inv n(2) boot_ok_cong [of ?rp rp] by (auto simp: rp_inv_def rp_emit_def)
  ultimately show ?thesis
    using inv assms(2) n n_inv_ready [where ctx = ctx and b = "rp_isReady rp" and n = n] unfolding rp_inv_def
    by (simp add: rp_emit_def answered_def running_def)
qed

lemma inv_held: "rp_inv ctx now rp \<Longrightarrow> \<not> rp_destroyed rp \<Longrightarrow> g_held (n_gossip (rp_node rp)) \<and> d_held (n_damper (rp_node rp))"
  by (simp add: rp_inv_def running_def)

lemma onJoin_inv:
  assumes inv: "rp_inv ctx now rp" and i: "i < length (rp_boots rp)" "bt_phase (rp_boots rp ! i) \<noteq> Boot_over"
    and l: "ms_local (n_membership (rp_node rp)) \<noteq> None" and shuffle: "\<And>xs. mset (shuffle xs) = mset xs"
  shows "\<exists>rp'. onJoin ctx shuffle now r1 r2 i res rp = Inr rp' \<and> rp_inv ctx now rp'"
proof (cases "\<exists>ns. res = Inr ns \<and> \<not> rp_destroyed rp")
  case False
  then show ?thesis using rp_inv_answer [OF inv i] by (auto simp: onJoin_def split: sum.splits)
next
  case True
  then obtain ns where res: "res = Inr ns" "\<not> rp_destroyed rp" by blast
  have "n_inv (rp_ctx ctx rp) (rp_node rp)" using inv res(2) by (simp add: rp_inv_def)
  from n_set_ok [OF this] obtain n where n: "n_set (rp_ctx ctx rp) (rp_node rp) = Inr n" "n_inv (rp_ctx ctx rp) n"
    "ms_local (n_membership n) \<noteq> None" using l by auto
  let ?rp = "rp_emit Ready (rp\<lparr>rp_node := n, rp_isReady := True\<rparr>)"
  have "rp_inv ctx now (onReady ctx shuffle now r1 r2 ?rp)"
    by (rule onReady_inv [OF ready_inv [OF inv res(2) n(2,3) node_steps_held(3) [OF inv_held [OF inv res(2)] n(1)]]]) (use res shuffle in \<open>simp_all add: rp_emit_def\<close>)
  moreover have "rp_boots (onReady ctx shuffle now r1 r2 ?rp) = rp_boots rp"
    by (simp add: onReady_def rp_emit_def Let_def split: prod.splits)
  ultimately have "rp_inv ctx now (boot_answer i (Inr ns) (onReady ctx shuffle now r1 r2 ?rp))"
    using rp_inv_answer i by simp
  then show ?thesis using n(1) res by (simp add: onJoin_def)
qed

lemma joining_facts:
  assumes "rp_inv ctx now rp" "i < length (rp_boots rp)" "bt_phase (rp_boots rp ! i) = Joining_hosts s"
  shows "ms_local (n_membership (rp_node rp)) \<noteq> None" "rp_destroyed rp \<Longrightarrow> jn_destroyed s" "session_ok ctx now s"
proof -
  have "boot_ok ctx now rp (rp_boots rp ! i)" using assms(1,2) by (simp add: rp_inv_def)
  then show "ms_local (n_membership (rp_node rp)) \<noteq> None" "rp_destroyed rp \<Longrightarrow> jn_destroyed s" "session_ok ctx now s"
    using assms(3) by (simp_all add: boot_ok_def)
qed

lemma reply_inv:
  assumes inv: "rp_inv ctx now rp" and i: "i < length (rp_boots rp)" "bt_phase (rp_boots rp ! i) = Joining_hosts s"
    and host: "host \<in> set (jn_waiting s)" and r: "0 \<le> r" and shuffle: "\<And>xs. mset (shuffle xs) = mset xs"
    and c: "\<And>us. jn_update (on_join_reply (x_config ctx) (x_whoami ctx) r now host answer s) = Some us \<Longrightarrow> consistent us"
  shows "\<exists>rp'. onJoinReply ctx env shuffle now r1 r2 r i s host answer rp = Inr rp' \<and> rp_inv ctx now rp'"
proof -
  let ?s = "on_join_reply (x_config ctx) (x_whoami ctx) r now host answer s"
  note facts = joining_facts [OF inv i]
  have none: "jn_result s = None" using facts(3) host by (auto simp: session_ok_def split: option.splits)
  have u: "jn_update s = None" using facts(3) none by (auto simp: session_ok_def)
  have over: "bt_phase (rp_boots rp ! i) \<noteq> Boot_over" using i by simp
  show ?thesis
  proof (cases "jn_result ?s")
    case None
    then have "jn_update ?s = None" using on_join_reply_update [OF u] by fastforce
    moreover have "rp_inv ctx now (set_phase i (Joining_hosts ?s) rp)"
      using rp_inv_phase [OF inv i(1) over facts(1)] on_join_reply_frame facts(2)
        session_reply [OF facts(3) host r u None] by metis
    ultimately show ?thesis using None none u by (simp add: onJoinReply_def join_moved_def Let_def)
  next
    case (Some res)
    note step = onJoin_phase [of i]
    show ?thesis
    proof (cases "jn_update ?s")
      case None
      then show ?thesis
        using Some none u step [of rp ctx shuffle now r1 r2 res "Joining_hosts ?s"] i(1)
          onJoin_inv [OF inv i(1) over facts(1) shuffle, of r1 r2 res]
        by (simp add: onJoinReply_def join_moved_def Let_def)
    next
      case us: (Some us)
      have nd: "\<not> rp_destroyed rp" using on_join_reply_update [OF u us] facts(2) by blast
      have "n_inv (rp_ctx ctx rp) (rp_node rp)" using inv nd by (simp add: rp_inv_def)
      from n_update_ok [OF this _ c [OF us], of env] obtain n where
        n: "n_update (rp_ctx ctx rp) env us (rp_node rp) = Inr n" "n_inv (rp_ctx ctx rp) n"
        "ms_local (n_membership n) = ms_local (n_membership (rp_node rp))" using facts(1) by blast
      have inv': "rp_inv ctx now (rp\<lparr>rp_node := n\<rparr>)" 
        using rp_inv_node [OF inv, of n] n(2,3) nd node_steps_held(1) [OF inv_held [OF inv nd] n(1)] by simp
      have "(set_phase i (Joining_hosts ?s) rp)\<lparr>rp_node := n\<rparr> = set_phase i (Joining_hosts ?s) (rp\<lparr>rp_node := n\<rparr>)"
        by (simp add: set_phase_def)
      then show ?thesis
        using Some none u us n(1) step [of "rp\<lparr>rp_node := n\<rparr>" ctx shuffle now r1 r2 res "Joining_hosts ?s"] i(1)
          onJoin_inv [OF inv', of i shuffle r1 r2 res] over facts(1) n(3) shuffle
        by (simp add: onJoinReply_def join_moved_def Let_def)
    qed
  qed
qed

lemma discovered_inv:
  assumes inv: "rp_inv ctx now rp" and i: "i < length (rp_boots rp)" "bt_phase (rp_boots rp ! i) = Discovering"
  shows "\<exists>rp'. onHostsDiscovered ctx env pick now i res rp = Inr rp' \<and> rp_inv ctx now rp'"
proof -
  have over: "bt_phase (rp_boots rp ! i) \<noteq> Boot_over" using i by simp
  let ?rp1 = "\<lambda>hs. rp\<lparr>rp_bootstrapHosts := hs\<rparr>"
  have inv1: "rp_inv ctx now (?rp1 hs)" for hs
    using inv boot_ok_cong [of "?rp1 hs" rp] by (auto simp: rp_inv_def answered_def stopped_def running_def events_ok_def)
  show ?thesis
  proof (cases "\<exists>hs. res = Inr (Some hs) \<and> hs \<noteq> []")
    case False
    then show ?thesis
      using rp_inv_answer [OF inv i(1) over] rp_inv_answer [OF inv1, of i] i over
      by (cases res; cases "projr res") (auto simp: onHostsDiscovered_def Let_def)
  next
    case True
    then obtain hs where hs: "res = Inr (Some hs)" "hs \<noteq> []" by blast
    let ?rp = "?rp1 (Some hs)"
    have n0: "node_fit (rp_ctx ctx ?rp) (rp_destroyed rp) (rp_node ?rp)" using inv1 [of "Some hs"] by (simp add: rp_inv_def)
    from fit_setLocalStatus [OF n0, of env] obtain n where n:
      "n_setLocalStatus (rp_ctx ctx ?rp) env Alive (rp_node ?rp) = Inr n" "node_fit (rp_ctx ctx ?rp) (rp_destroyed rp) n"
      "ms_local (n_membership n) \<noteq> None" "n_gossip n = n_gossip (rp_node ?rp)"
      "n_transitions n = st_cancel (x_whoami ctx) (n_transitions (rp_node ?rp))" by auto
    have inv2: "rp_inv ctx now (?rp\<lparr>rp_node := n\<rparr>)"
    proof (rule rp_inv_node [OF inv1 [of "Some hs"]])
      show "g_held (n_gossip n) \<and> d_held (n_damper n)" if "g_held (n_gossip (rp_node ?rp)) \<and> d_held (n_damper (rp_node ?rp))"
        by (rule node_steps_held(2) [OF that n(1)])
      show "node_stopped n" if "node_stopped (rp_node ?rp)"
        using that n(4,5) n_setLocalStatus_parts [OF n(1)] by (simp add: node_stopped_def cancel_idle cancel_enabled)
    qed (use n(2,3) in simp_all)
    obtain j where j: "new_joiner (x_config ctx) (x_whoami ctx) hs (Some (rp_joinTimeout rp))
        (bt_parallelism (rp_boots rp ! i)) (rp_joinSize rp) = Inr j" "fresh_joiner j"
      using new_joiner_fresh [OF hs(2)] by blast
    have "rp_inv ctx now (set_phase i (Joining_hosts (start_join pick now (rp_destroyed rp) j)) (?rp\<lparr>rp_node := n\<rparr>))"
      by (rule rp_inv_phase [OF inv2]) (use i n(3) session_start [OF j(2), of ctx now pick "rp_destroyed rp"] in simp_all)
    then show ?thesis using hs n(1) j(1) by (simp add: onHostsDiscovered_def Let_def)
  qed
qed

section \<open>The other steps\<close>

lemma bootstrap_inv:
  assumes inv: "rp_inv ctx now rp"
  shows "rp_inv ctx now (bootstrap opts parallelism cb rp)"
proof -
  let ?b = "\<lparr>bt_callback = cb, bt_parallelism = parallelism, bt_phase = Discovering\<rparr>"
  let ?rp = "\<lambda>p. rp\<lparr>rp_boots := rp_boots rp @ [?b], rp_discoverProvider := p\<rparr>"
  have 1: "rp_inv ctx now (?rp p)" for p
    using assms boot_ok_cong [of "?rp p" rp]
    by (auto simp: rp_inv_def answered_def over_def stopped_def running_def events_ok_def boot_ok_def)
  then have "rp_inv ctx now (boot_answer (length (rp_boots rp)) res (?rp p))" for p res
    using rp_inv_answer by simp
  from this [of _ "rp_discoverProvider rp"] have 2: "rp_inv ctx now (boot_answer (length (rp_boots rp)) res
      (rp\<lparr>rp_boots := rp_boots rp @ [?b]\<rparr>))" for res
    by simp
  show ?thesis using 1 2 by (simp add: bootstrap_def Let_def)
qed

lemma disable_timers: "st_ok w st \<Longrightarrow> st_timers (st_disable st) = []"
proof -
  assume "st_ok w st"
  then have "st_ok w (st_disable st)" "\<not> st_enabled (st_disable st)" using st_disable_ok(1,3) by auto
  then show ?thesis by (simp add: st_ok_def)
qed

lemma heal_stopped:
  assumes "h_held h"
  shows "dh_isStopped (heal_stop h)" "dh_healTimer (heal_stop h) = None" "dh_pending (heal_stop h) = []"
  using assms by (auto simp: h_held_def heal_stop_def filter_empty_conv Let_def split: option.splits)

lemma destroy_inv:
  assumes inv: "rp_inv ctx now rp"
  shows "rp_inv ctx now (rp_destroy rp)"
proof (cases "rp_destroyed rp")
  case True
  then show ?thesis using inv by (simp add: rp_destroy_def)
next
  case False
  let ?rp = "rp_destroy rp" and ?n = "rp_node rp"
  have i0: "n_inv (rp_ctx ctx rp) ?n" using inv False by (simp add: rp_inv_def)
  then have st: "st_ok (x_whoami ctx) (n_transitions ?n)" by (simp add: n_inv_def parts_ok_def)
  have facts: "rp_node ?rp = ?n\<lparr>n_gossip := g_stop (n_gossip ?n), n_transitions := st_disable (n_transitions ?n),
      n_membership := stopDampScoreDecayer (n_membership ?n), n_damper := d_destroy (n_damper ?n)\<rparr>"
    "rp_isReady ?rp = rp_isReady rp" "rp_destroyed ?rp" "rp_joinSize ?rp = rp_joinSize rp" "rp_answers ?rp = rp_answers rp"
    "rp_boots ?rp = map destroy_join (rp_boots rp)" "rp_events ?rp = rp_events rp @ [Destroying, Destroyed]"
    "rp_healer ?rp = heal_stop (rp_healer rp)" "rp_lagSampler ?rp = lag_stop (rp_lagSampler rp)"
    "rp_requestProxy ?rp = px_destroy (rp_requestProxy rp)" "rp_client ?rp = cl_destroy (rp_client rp)"
    using False by (simp_all add: rp_destroy_def onDestroyed_def rp_emit_def Let_def)
  have ms: "ms_local (stopDampScoreDecayer ms) = ms_local ms" "view (stopDampScoreDecayer ms) = view ms"
    "ms_ok c (stopDampScoreDecayer ms) = ms_ok c ms" "ms_stashed (stopDampScoreDecayer ms) = ms_stashed ms" for ms c
    by (simp_all add: stopDampScoreDecayer_def ms_ok_def view_def [abs_def])
  have "n_inv (rp_ctx ctx rp) ((rp_node ?rp)\<lparr>n_damper := n_damper ?n\<rparr>)"
    using i0 ms st_disable_ok(1) [OF st] disable_timers [OF st] unfolding facts(1)
    by (simp add: n_inv_def parts_ok_def matches_def)
  then have "node_fit (rp_ctx ctx ?rp) (rp_destroyed ?rp) (rp_node ?rp)" using facts(2,3) by (auto simp: node_fit_def)
  moreover have run: "g_held (n_gossip ?n)" "d_held (n_damper ?n)" "h_held (rp_healer rp)" "px_owned (rp_requestProxy rp)"
    using inv False by (simp_all add: rp_inv_def running_def)
  have "node_stopped (rp_node ?rp)"
    using st_disable_ok(2,3) [OF st] facts(1) g_held_ops(1,3) [OF run(1)] d_held_destroy [OF run(2)]
    by (simp add: node_stopped_def stopDampScoreDecayer_def)
  then have "stopped ?rp"
    using facts(8-11) heal_stopped [OF run(3)] destroy_no_retry [OF run(4)]
    by (simp add: stopped_def lag_stop_def cl_destroy_def)
  moreover have "over (destroy_join b) = over b" for b
    by (cases "bt_phase b") (simp_all add: over_def destroy_join_def)
  then have "answered ?rp" using inv facts(5,6) by (simp add: rp_inv_def answered_def comp_def)
  moreover have "events_ok ?rp" using inv facts(2,3,7) False by (auto simp: rp_inv_def events_ok_def)
  moreover have "boot_ok ctx now ?rp (destroy_join b)" if "boot_ok ctx now rp b" for b
    using that facts(1) ms(1) session_destroy [of ctx now]
    by (cases "bt_phase b") (simp_all add: boot_ok_def destroy_join_def)
  then have "\<forall>b \<in> set (rp_boots ?rp). boot_ok ctx now ?rp b" using inv facts(6) by (auto simp: rp_inv_def)
  ultimately show ?thesis using inv facts(1-4) ms(1) unfolding rp_inv_def by simp
qed

lemma start_inv:
  "rp_inv ctx now (new_ringpop ctx (new_node (new_gossip period seed) replicaPoints periods) file joinSize timeout
    (new_proxy schedule maxRetries enforce enforceKeys))"
proof -
  let ?n = "new_node (new_gossip period seed) replicaPoints periods"
  have ms: "ms_local (startDampScoreDecayer ctx ms) = ms_local ms" "view (startDampScoreDecayer ctx ms) = view ms"
    "ms_ok c (startDampScoreDecayer ctx ms) = ms_ok c ms" "ms_stashed (startDampScoreDecayer ctx ms) = ms_stashed ms" for ms c
    by (auto simp: startDampScoreDecayer_def decay_schedule_def ms_ok_def view_def [abs_def])
  have new: "n_membership ?n = new_membership" by (cases periods) (simp add: new_node_def)
  have "n_inv (ready ctx False) (?n\<lparr>n_membership := initMembership ctx\<rparr>)"
    using n_inv_start [of ctx "new_gossip period seed" replicaPoints periods] ms unfolding new [symmetric] initMembership_def
    by (simp add: n_inv_def parts_ok_def matches_def list_ok_def stash_known_def)
  moreover have "g_held (new_gossip period seed)" "d_held (n_damper ?n)" "h_held (new_healer (x_config ctx))"
    "px_owned (new_proxy schedule maxRetries enforce enforceKeys)"
    by (cases periods; simp add: new_node_def g_held_def new_gossip_def d_held_def new_damper_def h_held_def
        new_healer_def px_owned_def new_proxy_def)+
  moreover have "n_gossip ?n = new_gossip period seed" by (cases periods) (simp add: new_node_def)
  ultimately show ?thesis
    by (simp add: rp_inv_def new_ringpop_def answered_def events_ok_def running_def)
qed

lemma rp_inv_gossip:
  assumes inv: "rp_inv ctx now rp" and d: "rp_destroyed rp" and g: "node_stopped ((rp_node rp)\<lparr>n_gossip := g\<rparr>)"
  shows "rp_inv ctx now (rp\<lparr>rp_node := (rp_node rp)\<lparr>n_gossip := g\<rparr>\<rparr>)"
proof (rule rp_inv_node [OF inv])
  obtain dm where "n_inv (rp_ctx ctx rp) ((rp_node rp)\<lparr>n_damper := dm\<rparr>)" using inv by (auto simp: rp_inv_def node_fit_def)
  then have "n_inv (rp_ctx ctx rp) ((rp_node rp)\<lparr>n_gossip := g\<rparr>\<lparr>n_damper := dm\<rparr>)"
    by (simp add: n_inv_def parts_ok_def matches_def)
  then show "node_fit (rp_ctx ctx rp) (rp_destroyed rp) ((rp_node rp)\<lparr>n_gossip := g\<rparr>)"
    using d unfolding node_fit_def by blast
qed (use d g in simp_all)

lemma rp_run_inv: "rp_run ctx now rp \<Longrightarrow> rp_inv ctx now rp"
proof (induction rule: rp_run.induct)
  case start
  then show ?case by (rule start_inv)
next
  case (wait now rp now')
  have "boot_ok ctx now rp b \<Longrightarrow> boot_ok ctx now' rp b" for b
    using wait.hyps(2) by (auto simp: boot_ok_def intro: session_wait split: boot_phase.splits)
  then show ?case using wait.IH by (simp add: rp_inv_def)
next
  case (bootstrap now rp opts parallelism cb)
  then show ?case by (intro bootstrap_inv)
next
  case (discovered now rp i env pick res rp')
  then show ?case using discovered_inv [OF discovered.IH discovered.hyps(2,3), of env pick res] by auto
next
  case (next_tick now rp i s shuffle r1 r2 rp')
  note facts = joining_facts [OF next_tick.IH next_tick.hyps(2,3)]
  have o: "bt_phase (rp_boots rp ! i) \<noteq> Boot_over" using next_tick.hyps(3) by simp
  show ?case
  proof (cases "jn_result s")
    case (Some res)
    then show ?thesis
      using onJoin_inv [OF next_tick.IH next_tick.hyps(2) o facts(1) next_tick.hyps(4), of r1 r2 res] next_tick.hyps(5)
      by (auto simp: onJoinTick_def)
  qed (use next_tick in \<open>simp add: onJoinTick_def\<close>)
next
  case (reply now rp i s host r shuffle answer env r1 r2 rp')
  show ?case
    using reply_inv [OF reply.IH reply.hyps(2-6), of answer env r1 r2] reply.hyps(7,8) by auto
next
  case (retry now rp i s d pick)
  note facts = joining_facts [OF retry.IH retry.hyps(2,3)]
  show ?case unfolding onJoinRetry_def
    by (rule rp_inv_phase [OF retry.IH retry.hyps(2)]) (use retry.hyps(3) session_retry [OF facts(3) retry.hyps(4,5)] facts in auto)
next
  case (update now rp changes env n)
  then have inv: "n_inv (rp_ctx ctx rp) (rp_node rp)" "x_isReady (rp_ctx ctx rp) \<Longrightarrow> ms_local (n_membership (rp_node rp)) \<noteq> None"
    by (simp_all add: rp_inv_def)
  note held = node_steps_held(1) [OF inv_held [OF update.IH update.hyps(2)] update.hyps(4)]
  from n_update_ok [OF inv update.hyps(3), of env] show ?case
    using update rp_inv_node [OF update.IH, of n] held by auto
next
  case (transition now rp env i n)
  then have nd: "\<not> rp_destroyed rp" by (auto simp: rp_inv_def stopped_def node_stopped_def)
  then have inv: "n_inv (rp_ctx ctx rp) (rp_node rp)" using transition.IH by (simp add: rp_inv_def)
  note held = node_steps_held(5) [OF inv_held [OF transition.IH nd] transition.hyps(4)]
  obtain l where "ms_local (n_membership (rp_node rp)) = Some l" using transition.hyps(2) by blast
  from onTransition_ok [OF inv this, of env i] have "n_inv (rp_ctx ctx rp) n" "ms_local (n_membership n) \<noteq> None"
    using transition.hyps(4) by auto
  then show ?case using rp_inv_node [OF transition.IH, of n] nd held by simp
next
  case (decay now rp env n)
  then have nd: "\<not> rp_destroyed rp" by (auto simp: rp_inv_def stopped_def node_stopped_def)
  then have inv: "n_inv (rp_ctx ctx rp) (rp_node rp)" using decay.IH by (simp add: rp_inv_def)
  note held = node_steps_held(4) [OF inv_held [OF decay.IH nd] decay.hyps(3)]
  from n_decay_ok [OF inv, of env] show ?case using rp_inv_node [OF decay.IH, of n] nd held decay.hyps(3) by auto
next
  case (others now rp g d h px c)
  let ?n = "(rp_node rp)\<lparr>n_gossip := g, n_damper := d\<rparr>"
  have inv: "n_inv (rp_ctx ctx rp) (rp_node rp)" using others.IH others.hyps(2) by (simp add: rp_inv_def)
  then have "n_inv (rp_ctx ctx rp) ?n" using others.hyps(4) by (simp add: n_inv_def parts_ok_def matches_def)
  then have "rp_inv ctx now (rp\<lparr>rp_node := ?n\<rparr>)"
    using rp_inv_node [OF others.IH, of ?n] others.hyps(2,3,5) by simp
  then show ?case
    using boot_ok_cong [of "rp\<lparr>rp_node := ?n, rp_healer := h, rp_requestProxy := px, rp_client := c\<rparr>" "rp\<lparr>rp_node := ?n\<rparr>"] others.hyps(2,6,7)
    by (simp add: rp_inv_def running_def answered_def events_ok_def)
next
  case (destroy now rp)
  then show ?case by (intro destroy_inv)
next
  case (late_ping now rp random)
  let ?g = "n_gossip (rp_node rp)"
  have s: "node_stopped (rp_node rp)" using late_ping by (simp add: rp_inv_def stopped_def)
  let ?g' = "onMemberPinged now random (ping_over ?g)"
  have "node_stopped ((rp_node rp)\<lparr>n_gossip := ?g'\<rparr>)"
  proof -
    have "g_isStopped ?g" using s by (simp add: node_stopped_def)
    then show ?thesis using s by (simp add: node_stopped_def onMemberPinged_def ping_over_def g_held_def Let_def)
  qed
  then show ?case by (rule rp_inv_gossip [OF late_ping.IH late_ping.hyps(2)])
next
  case (late_damp_req now rp)
  have "d_dampTimer (n_damper (rp_node rp)) = None" using late_damp_req by (simp add: rp_inv_def stopped_def node_stopped_def)
  then have "onSubprotocol (x_config ctx) (n_damper (rp_node rp)) = n_damper (rp_node rp)"
    by (simp add: onSubprotocol_def startDampTimer_def)
  then show ?case using late_damp_req.IH by simp
qed

section \<open>A node that bootstraps alone\<close>

lemma onReady_frame [simp]:
  "rp_isReady (onReady ctx shuffle now r1 r2 rp) = rp_isReady rp" "rp_destroyed (onReady ctx shuffle now r1 r2 rp) = rp_destroyed rp"
  "rp_boots (onReady ctx shuffle now r1 r2 rp) = rp_boots rp" "rp_answers (onReady ctx shuffle now r1 r2 rp) = rp_answers rp"
  "rp_events (onReady ctx shuffle now r1 r2 rp) = rp_events rp"
  by (simp_all add: onReady_def Let_def split: prod.splits)

lemma lone_bootstrap:
  "\<exists>rp. rp_run ctx now rp \<and> rp_isReady rp \<and> \<not> rp_destroyed rp \<and> rp_answers rp = [(7, Inr [])] \<and> rp_events rp = [Ready]"
proof -
  let ?w = "x_whoami ctx" and ?rp0 = "new_ringpop ctx (new_node (new_gossip None 0) None (None, None, None)) None None None (new_proxy None None None None)"
  let ?rp1 = "bootstrap (Opts_hosts [?w]) None (Some 7) ?rp0"
  have r1: "rp_run ctx now ?rp1" by (intro rp_run.bootstrap rp_run.start)
  have b1: "rp_boots ?rp1 = [\<lparr>bt_callback = Some 7, bt_parallelism = None, bt_phase = Discovering\<rparr>]"
    "rp_isReady ?rp1 = False" "rp_destroyed ?rp1 = False" "rp_answers ?rp1 = []" "rp_events ?rp1 = []"
    by (simp_all add: bootstrap_def new_ringpop_def Let_def)
  from discovered_inv [OF rp_run_inv [OF r1], of 0 demo_env "\<lambda>hs. 0" "Inr (Some [?w])"] b1 obtain rp2 where
    rp2: "onHostsDiscovered ctx demo_env (\<lambda>hs. 0) now 0 (Inr (Some [?w])) ?rp1 = Inr rp2" by auto
  let ?s = "start_join (\<lambda>hs. 0) now False (projr (new_joiner (x_config ctx) ?w [?w] (Some (rp_joinTimeout ?rp1)) None (rp_joinSize ?rp1)))"
  have b2: "rp_boots rp2 = [\<lparr>bt_callback = Some 7, bt_parallelism = None, bt_phase = Joining_hosts ?s\<rparr>]"
    "rp_isReady rp2 = False" "rp_destroyed rp2 = False" "rp_answers rp2 = []" "rp_events rp2 = []"
    using rp2 b1 by (auto simp: onHostsDiscovered_def Let_def split: sum.splits)
  have s: "jn_result ?s = Some (Inr [])"
    by (simp add: start_join_def new_joiner_def isSingleNodeCluster_def Let_def)
  have r2: "rp_run ctx now rp2" by (rule rp_run.discovered [OF r1 _ _ rp2]) (simp_all add: b1)
  note i2 = rp_run_inv [OF r2]
  have l: "ms_local (n_membership (rp_node rp2)) \<noteq> None" using joining_facts(1) [OF i2, of 0 ?s] b2 by simp
  from onJoin_inv [OF i2 _ _ l, of 0 "\<lambda>xs. xs" 0 0 "Inr []"] obtain rp3 where
    rp3: "onJoin ctx (\<lambda>xs. xs) now 0 0 0 (Inr []) rp2 = Inr rp3" using b2 by auto
  have "rp_run ctx now rp3"
    by (rule rp_run.next_tick [OF r2, of 0 ?s "\<lambda>xs. xs" 0 0]) (use b2 s rp3 in \<open>simp_all add: onJoinTick_def\<close>)
  moreover have "rp_isReady rp3 \<and> \<not> rp_destroyed rp3 \<and> rp_answers rp3 = [(7, Inr [])] \<and> rp_events rp3 = [Ready]"
    using rp3 b2 by (auto simp: onJoin_def rp_emit_def split: sum.splits)
  ultimately show ?thesis by blast
qed

section \<open>Properties\<close>

text \<open>
  C6: Every bootstrap is answered exactly once: the callbacks that were called are those of the
  bootstraps that are over, each once. And a join under way never waits for nothing, as long as the
  discovered hosts name at least as many different other nodes as must be joined, and at least one, with
  a parallelism of at least one: it has its result and waits for the next tick, or it waits for the reply
  to a join request, or for the next retry. Distinct hosts are enough (\<open>distinct_hosts_suffice\<close>); hosts
  that repeat a node so that too few are left stall the join (\<open>duplicate_hosts_stall\<close>).
\<close>

theorem bootstrap_answered_once:
  assumes run: "rp_run ctx now rp"
  shows "mset (map fst (rp_answers rp)) =
      mset (concat (map (\<lambda>b. if bt_phase b = Boot_over then (case bt_callback b of None \<Rightarrow> [] | Some k \<Rightarrow> [k]) else []) (rp_boots rp))) \<and>
    (\<forall>i < length (rp_boots rp).
      case bt_phase (rp_boots rp ! i) of
        Joining_hosts s \<Rightarrow> jn_result s = None \<and> enough_hosts (jn_joiner s) \<longrightarrow> jn_waiting s \<noteq> [] \<or> jn_retryAt s \<noteq> None
      | _ \<Rightarrow> True)"
proof -
  note inv = rp_run_inv [OF run]
  have "jn_waiting s \<noteq> [] \<or> jn_retryAt s \<noteq> None"
    if i: "i < length (rp_boots rp)" "bt_phase (rp_boots rp ! i) = Joining_hosts s"
      and none: "jn_result s = None" and enough: "enough_hosts (jn_joiner s)" for i s
  proof -
    obtain j where j: "fresh_joiner j" "join_run (x_config ctx) (x_whoami ctx) j now s"
      using joining_facts(3) [OF inv i] none by (auto simp: session_ok_def)
    have "enough_hosts j" using fixed_enough [OF join_run_fixed [OF j(2)]] enough by simp
    then have "join_ok j s" using join_run_ok [OF j(2) _ j(1)] by blast
    then have "open_ok j s" using none by (simp add: join_ok_def)
    then show ?thesis by (auto simp: open_ok_def group_ok_def split: option.splits)
  qed
  then show ?thesis
    using inv by (auto simp: rp_inv_def answered_def over_def [abs_def] split: boot_phase.splits)
qed

theorem bootstrap_answered_once_witness:
  "\<exists>rp. rp_run (lone_ctx ''a:1'') 5 rp \<and> rp_answers rp = [(7, Inr [])] \<and>
     {#7#} = mset (concat (map (\<lambda>b. if bt_phase b = Boot_over then (case bt_callback b of None \<Rightarrow> [] | Some k \<Rightarrow> [k]) else []) (rp_boots rp)))"
proof -
  obtain rp where rp: "rp_run (lone_ctx ''a:1'') 5 rp" "rp_answers rp = [(7, Inr [])]"
    using lone_bootstrap [of "lone_ctx ''a:1''" 5] by blast
  then show ?thesis using bootstrap_answered_once [OF rp(1)] by (intro exI [of _ rp]) simp
qed

text \<open>
  C7: A node that is ready and not destroyed knows itself and routes keys to exactly the members it
  takes for alive or suspect, and it became ready by a bootstrap it reported.
\<close>

theorem ready_node_serves:
  assumes "rp_run ctx now rp" and "rp_isReady rp" and "\<not> rp_destroyed rp"
  shows "(\<exists>inc s. view (n_membership (rp_node rp)) (x_whoami ctx) = Some (inc, s)) \<and>
    ring_servers (n_ring (rp_node rp)) =
      {a. \<exists>inc s. view (n_membership (rp_node rp)) a = Some (inc, s) \<and> (s = Alive \<or> s = Suspect)} \<and>
    Ready \<in> set (rp_events rp)"
proof -
  have inv: "n_inv (ready ctx True) (rp_node rp)" "ms_local (n_membership (rp_node rp)) \<noteq> None" "events_ok rp"
    using rp_run_inv [OF assms(1)] assms(2,3) by (simp_all add: rp_inv_def)
  have ping: "isStatusPingable s \<longleftrightarrow> s = Alive \<or> s = Suspect" for s by (cases s) auto
  have "ms_ok (ready ctx True) (n_membership (rp_node rp))" using inv(1) by (simp add: n_inv_def)
  from view_local [OF this] inv(2) have "\<exists>inc s. view (n_membership (rp_node rp)) (x_whoami ctx) = Some (inc, s)" by auto
  then show ?thesis
    using inv(1,3) assms(2,3) by (auto simp: n_inv_def live_def ping events_ok_def)
qed

theorem ready_node_serves_witness:
  "\<exists>rp. rp_run (lone_ctx ''a:1'') 5 rp \<and> rp_isReady rp \<and>
     (\<exists>inc s. view (n_membership (rp_node rp)) ''a:1'' = Some (inc, s))"
proof -
  obtain rp where rp: "rp_run (lone_ctx ''a:1'') 5 rp" "rp_isReady rp" "\<not> rp_destroyed rp"
    using lone_bootstrap [of "lone_ctx ''a:1''" 5] by blast
  then show ?thesis using ready_node_serves [OF rp] by auto
qed



end
