(* ===== verification/Server_Run.thy ===== *)
theory Server_Run
  imports Joiner Server Api
begin

text \<open>
  The life of a skyring server (\<open>lib/server/index.js\<close>) and of its ring node
  (\<open>lib/server/node.js\<close>): construction, listening, which loads the timers, joins the ring and only then
  binds the HTTP port, and closing, which leaves the ring before the timers are handed over.

  What is outside answers by steps: the loading of the timers, DNS, tchannel, the ring's bootstrap,
  the HTTP socket, the self eviction, the draining of tchannel, the timers. A callback is a number;
  \<^theory_text>\<open>sv_answers\<close> lists the calls of callbacks. \<open>listening\<close> turns true when the socket is bound. A socket
  that cannot be bound emits an error and is outside, as is the signal that asks for a rebalance.
\<close>

section \<open>The ring node\<close>

record skyring_node =
  nd_host :: string
  nd_port :: nat
  nd_name :: string
  nd_app :: string

text \<open>The constructor; the host it is given is not looked at.\<close>

definition new_skyring_node ::
  "string \<Rightarrow> nat \<Rightarrow> string option \<Rightarrow> nat option \<Rightarrow> string option \<Rightarrow> string option \<Rightarrow> skyring_node"
where
  "new_skyring_node conf_host conf_port h p name app =
     \<lparr>nd_host = conf_host, nd_port = (case p of None \<Rightarrow> conf_port | Some x \<Rightarrow> x),
      nd_name = (case name of None \<Rightarrow> ''ringpop'' | Some x \<Rightarrow> x),
      nd_app = (case app of None \<Rightarrow> ''timers'' | Some x \<Rightarrow> x)\<rparr>"

text \<open>The property \<open>name\<close>.\<close>

definition node_name :: "skyring_node \<Rightarrow> string" where
  "node_name n = nd_app n"

text \<open>\<open>resolve\<close>: one name after the other, up to the first that fails.\<close>

fun dns_resolve :: "(string \<Rightarrow> string + string) \<Rightarrow> string list \<Rightarrow> string list \<Rightarrow> string + string list" where
  "dns_resolve dns [] results = Inr results"
| "dns_resolve dns (task # tasks) results =
    (let parts = split_on CHR '':'' task
     in case dns (hd parts) of
          Inl err \<Rightarrow> Inl err
        | Inr addr \<Rightarrow>
            dns_resolve dns tasks (results @
              [if length parts > 1 \<and> parts ! 1 \<noteq> [] then addr @ '':'' @ parts ! 1 else addr]))"

section \<open>State\<close>

datatype server_fail = Timers_failed | Seeds_not_an_array | Dns_failed string | Channel_failed | Bootstrap_failed

datatype start_task =
    Loading_timers
  | Resolving "string list"
  | Opening_channel string "string list"
  | Bootstrapping_ring "string list"
  | Binding_port

datatype close_task = Http_closing | Evicting | Draining | Awaiting_destroyed | Delayed | Stopping_timers | Answering

datatype ring_life = No_ring | Ring_made string | Ring_ready string | Ring_destroyed

datatype server_event = Bootstrapped "string list" | Proxied body

record server =
  sv_node :: skyring_node
  sv_seeds :: "string list option"
  sv_autobalance :: bool
  sv_routes :: "route list option"
  sv_timers :: "timers option"
  sv_ring :: ring_life
  sv_rebalancing :: bool
  sv_handling :: bool
  sv_watching :: "string option"
  sv_listening :: bool
  sv_closed :: bool
  sv_starting :: "(nat option \<times> start_task) list"
  sv_closing :: "(nat option \<times> close_task) list"
  sv_answers :: "(nat \<times> server_fail option) list"
  sv_events :: "server_event list"

definition new_server :: "skyring_node \<Rightarrow> string list option \<Rightarrow> bool \<Rightarrow> server" where
  "new_server node seeds autobalance =
     \<lparr>sv_node = node, sv_seeds = seeds, sv_autobalance = autobalance, sv_routes = None, sv_timers = None,
      sv_ring = No_ring, sv_rebalancing = False, sv_handling = False, sv_watching = None,
      sv_listening = False, sv_closed = False, sv_starting = [], sv_closing = [], sv_answers = [], sv_events = []\<rparr>"

definition sv_group :: "server \<Rightarrow> string" where
  "sv_group sv = node_name (sv_node sv)"

definition sv_call :: "nat option \<Rightarrow> server_fail option \<Rightarrow> server \<Rightarrow> server" where
  "sv_call cb res sv = (case cb of None \<Rightarrow> sv | Some k \<Rightarrow> sv\<lparr>sv_answers := sv_answers sv @ [(k, res)]\<rparr>)"

section \<open>Listening\<close>

definition drop_nth :: "nat \<Rightarrow> 'a list \<Rightarrow> 'a list" where
  "drop_nth i xs = take i xs @ drop (Suc i) xs"

text \<open>The next task of a \<open>listen\<close>, or its end with an error.\<close>

definition proceed :: "nat \<Rightarrow> start_task \<Rightarrow> server \<Rightarrow> server" where
  "proceed i t sv = sv\<lparr>sv_starting := (sv_starting sv)[i := (fst (sv_starting sv ! i), t)]\<rparr>"

definition give_up :: "nat \<Rightarrow> server_fail \<Rightarrow> server \<Rightarrow> server" where
  "give_up i e sv = sv_call (fst (sv_starting sv ! i)) (Some e) (sv\<lparr>sv_starting := drop_nth i (sv_starting sv)\<rparr>)"

definition sv_listen :: "nat option \<Rightarrow> server \<Rightarrow> server" where
  "sv_listen cb sv =
    (if sv_listening sv then sv_call cb None sv
     else sv\<lparr>sv_starting := sv_starting sv @ [(cb, Loading_timers)]\<rparr>)"

text \<open>
  The timers are loaded: the router gets the routes, and the node joins with the given seeds or the
  configured ones; \<^theory_text>\<open>None\<close> of the latter is a value that is not an array.
\<close>

definition onTimersLoaded :: "timers option \<Rightarrow> string list option \<Rightarrow> nat \<Rightarrow> server \<Rightarrow> server" where
  "onTimersLoaded res conf_seeds i sv =
    (case res of
       None \<Rightarrow> give_up i Timers_failed sv
     | Some t \<Rightarrow>
        let sv1 = sv\<lparr>sv_timers := Some t, sv_routes := Some api_routes,
              sv_rebalancing := sv_rebalancing sv \<or> sv_autobalance sv\<rparr>
        in case (case sv_seeds sv1 of Some s \<Rightarrow> Some s | None \<Rightarrow> conf_seeds) of
             None \<Rightarrow> give_up i Seeds_not_an_array sv1
           | Some nodes \<Rightarrow> proceed i (Resolving (nd_host (sv_node sv1) # nodes)) sv1)"

definition onResolved :: "string + string list \<Rightarrow> nat \<Rightarrow> server \<Rightarrow> server" where
  "onResolved res i sv =
    (case res of
       Inl e \<Rightarrow> give_up i (Dns_failed e) sv
     | Inr addrs \<Rightarrow>
        let host = hd addrs; seeds = tl addrs
        in proceed i (Opening_channel host seeds)
             (sv\<lparr>sv_ring := Ring_made (host @ '':'' @ show_nat (nd_port (sv_node sv)))\<rparr>))"

definition onChannelOpen :: "bool \<Rightarrow> nat \<Rightarrow> string list \<Rightarrow> server \<Rightarrow> server" where
  "onChannelOpen ok i seeds sv =
    (if ok then proceed i (Bootstrapping_ring seeds) sv else give_up i Channel_failed sv)"

definition onRingBootstrapped :: "bool \<Rightarrow> nat \<Rightarrow> string list \<Rightarrow> server \<Rightarrow> server" where
  "onRingBootstrapped ok i seeds sv =
    (if \<not> ok then give_up i Bootstrap_failed sv
     else proceed i Binding_port
       (sv\<lparr>sv_ring := (case sv_ring sv of Ring_made a \<Rightarrow> Ring_ready a | r \<Rightarrow> r),
           sv_events := sv_events sv @ [Bootstrapped seeds], sv_handling := True,
           sv_watching := Some (''skyring:'' @ sv_group sv)\<rparr>))"

definition onBound :: "nat \<Rightarrow> server \<Rightarrow> server" where
  "onBound i sv =
     sv_call (fst (sv_starting sv ! i)) None
       (sv\<lparr>sv_listening := True, sv_starting := drop_nth i (sv_starting sv)\<rparr>)"

text \<open>
  A request from the network or from the ring goes to the router; \<^theory_text>\<open>None\<close> where there is none, or
  where the router's model has no result.
\<close>

definition sv_request ::
  "(string \<Rightarrow> string \<Rightarrow> (string \<times> string) list option) \<Rightarrow> Api.env \<Rightarrow> request \<Rightarrow> server \<Rightarrow>
    (request \<times> response \<times> mw_result \<times> server) option"
where
  "sv_request matching v req sv =
    (case (sv_routes sv, sv_timers sv) of
       (Some rs, Some t) \<Rightarrow>
         (case router_handle matching rs v req t of
            None \<Rightarrow> None
          | Some (q, r, t', m) \<Rightarrow> Some (q, r, m, sv\<lparr>sv_timers := Some t'\<rparr>))
     | _ \<Rightarrow> None)"

text \<open>\<open>proxy\<close>: a timer of a rebalance or a message goes to the router as a request nobody waits for.\<close>

definition sv_proxy ::
  "(string \<Rightarrow> string \<Rightarrow> (string \<times> string) list option) \<Rightarrow> (json \<Rightarrow> string) \<Rightarrow> Api.env \<Rightarrow> body \<Rightarrow> server \<Rightarrow> server"
where
  "sv_proxy matching stringify v b sv =
    (case sv_request matching v (server_proxy stringify b) sv of
       None \<Rightarrow> sv
     | Some (_, _, _, sv1) \<Rightarrow> sv1\<lparr>sv_events := sv_events sv1 @ [Proxied b]\<rparr>)"

text \<open>A change of the ring while the server runs: the listener of \<open>join\<close>, then that of \<open>listen\<close>.\<close>

definition onRingChanged ::
  "(string \<Rightarrow> string \<Rightarrow> (string \<times> string) list option) \<Rightarrow> (json \<Rightarrow> string) \<Rightarrow> Api.env \<Rightarrow>
    (string \<Rightarrow> int) \<Rightarrow> string list \<Rightarrow> hash_ring \<Rightarrow> server \<Rightarrow> server"
where
  "onRingChanged matching stringify v hashFunc added ring sv =
    (case (sv_ring sv, sv_timers sv) of
       (Ring_ready whoami, Some t) \<Rightarrow>
         (case ring_changed hashFunc whoami (sv_rebalancing sv) added ring t of
            (t', bodies) \<Rightarrow> fold (sv_proxy matching stringify v) bodies (sv\<lparr>sv_timers := Some t'\<rparr>))
     | _ \<Rightarrow> sv)"

text \<open>A message about a timer another node gave up.\<close>

definition onWatched ::
  "(string \<Rightarrow> string \<Rightarrow> (string \<times> string) list option) \<Rightarrow> (json \<Rightarrow> string) \<Rightarrow> Api.env \<Rightarrow>
    string + body \<Rightarrow> server \<Rightarrow> server"
where
  "onWatched matching stringify v msg sv =
    (case (sv_watching sv, msg) of
       (Some _, Inr b) \<Rightarrow> sv_proxy matching stringify v b sv
     | _ \<Rightarrow> sv)"

section \<open>Closing\<close>

definition sv_close :: "nat option \<Rightarrow> server \<Rightarrow> server" where
  "sv_close cb sv =
    (if sv_closed sv then sv\<lparr>sv_closing := sv_closing sv @ [(cb, Answering)]\<rparr>
     else sv\<lparr>sv_listening := False, sv_closing := sv_closing sv @ [(cb, Http_closing)]\<rparr>)"

definition close_next :: "nat \<Rightarrow> close_task \<Rightarrow> server \<Rightarrow> server" where
  "close_next i t sv = sv\<lparr>sv_closing := (sv_closing sv)[i := (fst (sv_closing sv ! i), t)]\<rparr>"

definition close_done :: "nat \<Rightarrow> server \<Rightarrow> server" where
  "close_done i sv = sv_call (fst (sv_closing sv ! i)) None
     (sv\<lparr>sv_closed := True, sv_closing := drop_nth i (sv_closing sv)\<rparr>)"

text \<open>\<open>Node.close\<close> without a ring throws.\<close>

definition onHttpClosed :: "nat \<Rightarrow> server \<Rightarrow> server outcome" where
  "onHttpClosed i sv = (if sv_ring sv = No_ring then Inl TypeError else Inr (close_next i Evicting sv))"

definition onEvicted :: "nat \<Rightarrow> server \<Rightarrow> server" where
  "onEvicted i sv = close_next i Draining sv"

text \<open>
  Tchannel is drained: the ring is destroyed and tells those who listen, this close included. A
  ring destroyed before says nothing.
\<close>

definition onDrained :: "nat \<Rightarrow> server \<Rightarrow> server" where
  "onDrained i sv =
    (let sv1 = close_next i Awaiting_destroyed sv
     in if sv_ring sv = Ring_destroyed then sv1
        else sv1\<lparr>sv_ring := Ring_destroyed,
               sv_closing := map (\<lambda>(cb, t). (cb, if t = Awaiting_destroyed then Delayed else t)) (sv_closing sv1)\<rparr>)"

text \<open>After 100 ms: the timers go to the ring, or stay when nobody is left.\<close>

definition onDelay :: "(string \<times> string) list \<Rightarrow> nat \<Rightarrow> server \<Rightarrow> server outcome" where
  "onDelay members i sv =
    (case sv_timers sv of
       None \<Rightarrow> Inl TypeError
     | Some t \<Rightarrow> Inr (close_next i Stopping_timers (sv\<lparr>sv_timers := Some (close_timers members (fst (sv_closing sv ! i)) t)\<rparr>)))"

definition onTimersStopped :: "nat \<Rightarrow> server \<Rightarrow> server" where
  "onTimersStopped i sv = close_done i sv"

definition onImmediate :: "nat \<Rightarrow> server \<Rightarrow> server" where
  "onImmediate i sv = sv_call (fst (sv_closing sv ! i)) None (sv\<lparr>sv_closing := drop_nth i (sv_closing sv)\<rparr>)"

end
