(* ===== verification/Server_Run_Properties.thy ===== *)
theory Server_Run_Properties
  imports Server_Run
begin

text \<open>
  The order of a server's start and end: HTTP is served only after the ring is joined, every callback
  of \<open>listen\<close> and \<open>close\<close> is called once, and a close ends.
\<close>

section \<open>Runs\<close>

text \<open>
  Runs in which a \<open>listen\<close> or \<open>close\<close> begins only when no other is under way, and a close only once
  there is a ring; \<^theory_text>\<open>calls\<close> are the callbacks given so far.
\<close>

inductive sv_run :: "nat multiset \<Rightarrow> server \<Rightarrow> bool" where
  start: "sv_run {#} (new_server node seeds autobalance)"
| listen: "sv_run calls sv \<Longrightarrow> sv_starting sv = [] \<Longrightarrow> sv_closing sv = [] \<Longrightarrow>
    sv_run (calls + mset_set (set_option cb)) (sv_listen cb sv)"
| loaded: "sv_run calls sv \<Longrightarrow> i < length (sv_starting sv) \<Longrightarrow> snd (sv_starting sv ! i) = Loading_timers \<Longrightarrow>
    sv_run calls (onTimersLoaded t conf_seeds i sv)"
| resolved: "sv_run calls sv \<Longrightarrow> i < length (sv_starting sv) \<Longrightarrow> snd (sv_starting sv ! i) = Resolving names \<Longrightarrow>
    sv_run calls (onResolved (dns_resolve dns names []) i sv)"
| opened: "sv_run calls sv \<Longrightarrow> i < length (sv_starting sv) \<Longrightarrow> snd (sv_starting sv ! i) = Opening_channel host seeds \<Longrightarrow>
    sv_run calls (onChannelOpen ok i seeds sv)"
| bootstrapped: "sv_run calls sv \<Longrightarrow> i < length (sv_starting sv) \<Longrightarrow> snd (sv_starting sv ! i) = Bootstrapping_ring seeds \<Longrightarrow>
    sv_run calls (onRingBootstrapped ok i seeds sv)"
| bound: "sv_run calls sv \<Longrightarrow> i < length (sv_starting sv) \<Longrightarrow> snd (sv_starting sv ! i) = Binding_port \<Longrightarrow>
    sv_run calls (onBound i sv)"
| request: "sv_run calls sv \<Longrightarrow> sv_request matching v req sv = Some (q, r, m, sv') \<Longrightarrow> sv_run calls sv'"
| ring_changed: "sv_run calls sv \<Longrightarrow> sv_run calls (onRingChanged matching stringify v hashFunc added ring sv)"
| watched: "sv_run calls sv \<Longrightarrow> sv_run calls (onWatched matching stringify v msg sv)"
| close: "sv_run calls sv \<Longrightarrow> sv_starting sv = [] \<Longrightarrow> sv_closing sv = [] \<Longrightarrow> sv_ring sv \<noteq> No_ring \<Longrightarrow>
    sv_run (calls + mset_set (set_option cb)) (sv_close cb sv)"
| http_closed: "sv_run calls sv \<Longrightarrow> i < length (sv_closing sv) \<Longrightarrow> snd (sv_closing sv ! i) = Http_closing \<Longrightarrow>
    onHttpClosed i sv = Inr sv' \<Longrightarrow> sv_run calls sv'"
| evicted: "sv_run calls sv \<Longrightarrow> i < length (sv_closing sv) \<Longrightarrow> snd (sv_closing sv ! i) = Evicting \<Longrightarrow>
    sv_run calls (onEvicted i sv)"
| drained: "sv_run calls sv \<Longrightarrow> i < length (sv_closing sv) \<Longrightarrow> snd (sv_closing sv ! i) = Draining \<Longrightarrow>
    sv_run calls (onDrained i sv)"
| delay: "sv_run calls sv \<Longrightarrow> i < length (sv_closing sv) \<Longrightarrow> snd (sv_closing sv ! i) = Delayed \<Longrightarrow>
    onDelay members i sv = Inr sv' \<Longrightarrow> sv_run calls sv'"
| stopped: "sv_run calls sv \<Longrightarrow> i < length (sv_closing sv) \<Longrightarrow> snd (sv_closing sv ! i) = Stopping_timers \<Longrightarrow>
    sv_run calls (onTimersStopped i sv)"
| immediate: "sv_run calls sv \<Longrightarrow> i < length (sv_closing sv) \<Longrightarrow> snd (sv_closing sv ! i) = Answering \<Longrightarrow>
    sv_run calls (onImmediate i sv)"

section \<open>The invariant\<close>

text \<open>A callback, if there is one.\<close>

abbreviation given :: "nat option \<Rightarrow> nat multiset" where
  "given cb \<equiv> mset_set (set_option cb)"

definition outstanding :: "server \<Rightarrow> nat multiset" where
  "outstanding sv = (\<Sum>x\<leftarrow>sv_starting sv. given (fst x)) + (\<Sum>x\<leftarrow>sv_closing sv. given (fst x))"

definition loaded_ok :: "server \<Rightarrow> bool" where
  "loaded_ok sv \<longleftrightarrow> sv_timers sv \<noteq> None \<and> sv_routes sv = Some api_routes"

definition joined_ok :: "server \<Rightarrow> bool" where
  "joined_ok sv \<longleftrightarrow> loaded_ok sv \<and> sv_handling sv \<and> sv_watching sv = Some (''skyring:'' @ nd_app (sv_node sv))"

fun start_ok :: "server \<Rightarrow> start_task \<Rightarrow> bool" where
  "start_ok sv Loading_timers = True"
| "start_ok sv (Resolving names) = loaded_ok sv"
| "start_ok sv (Opening_channel host seeds) = (loaded_ok sv \<and> (\<exists>a. sv_ring sv = Ring_made a))"
| "start_ok sv (Bootstrapping_ring seeds) = (loaded_ok sv \<and> (\<exists>a. sv_ring sv = Ring_made a))"
| "start_ok sv Binding_port = (joined_ok sv \<and> (\<exists>a. sv_ring sv = Ring_ready a))"

fun close_ok :: "server \<Rightarrow> close_task \<Rightarrow> bool" where
  "close_ok sv Http_closing = (sv_ring sv \<noteq> No_ring \<and> sv_ring sv \<noteq> Ring_destroyed)"
| "close_ok sv Evicting = (sv_ring sv \<noteq> No_ring \<and> sv_ring sv \<noteq> Ring_destroyed)"
| "close_ok sv Draining = (sv_ring sv \<noteq> No_ring \<and> sv_ring sv \<noteq> Ring_destroyed)"
| "close_ok sv Awaiting_destroyed = False"
| "close_ok sv Delayed = (sv_ring sv = Ring_destroyed)"
| "close_ok sv Stopping_timers = (sv_ring sv = Ring_destroyed)"
| "close_ok sv Answering = sv_closed sv"

definition sv_inv :: "nat multiset \<Rightarrow> server \<Rightarrow> bool" where
  "sv_inv calls sv \<longleftrightarrow>
     calls = mset (map fst (sv_answers sv)) + outstanding sv \<and>
     (case (sv_starting sv, sv_closing sv) of
        ([], []) \<Rightarrow> sv_ring sv = Ring_destroyed \<longrightarrow> sv_closed sv
      | ([x], []) \<Rightarrow> start_ok sv (snd x) \<and> \<not> sv_listening sv \<and> (sv_ring sv = Ring_destroyed \<longrightarrow> sv_closed sv)
      | ([], [x]) \<Rightarrow> close_ok sv (snd x) \<and> (snd x \<noteq> Answering \<longrightarrow> \<not> sv_listening sv)
      | _ \<Rightarrow> False) \<and>
     (sv_ring sv \<noteq> No_ring \<longrightarrow> loaded_ok sv) \<and>
     (sv_listening sv \<longrightarrow> joined_ok sv \<and> (\<exists>a. sv_ring sv = Ring_ready a))"

section \<open>Requests leave the life of the server alone\<close>

definition same_life :: "server \<Rightarrow> server \<Rightarrow> bool" where
  "same_life sv sv' \<longleftrightarrow> (sv_timers sv = None \<longleftrightarrow> sv_timers sv' = None) \<and>
     sv' = sv\<lparr>sv_timers := sv_timers sv', sv_events := sv_events sv'\<rparr>"

lemma same_life_refl [simp]: "same_life sv sv"
  by (simp add: same_life_def)

lemma same_life_trans: "same_life a b \<Longrightarrow> same_life b c \<Longrightarrow> same_life a c"
  by (cases a; cases b; cases c) (simp add: same_life_def)

lemma same_life_request: "sv_request matching v req sv = Some (q, r, m, sv') \<Longrightarrow> same_life sv sv'"
  by (auto simp: sv_request_def same_life_def split: option.splits prod.splits)

lemma same_life_proxy: "same_life sv (sv_proxy matching stringify v b sv)"
proof (cases "sv_request matching v (server_proxy stringify b) sv")
  case (Some x)
  obtain q r m sv1 where x: "x = (q, r, m, sv1)" by (cases x) auto
  have "same_life sv1 (sv1\<lparr>sv_events := sv_events sv1 @ [Proxied b]\<rparr>)" by (simp add: same_life_def)
  then show ?thesis
    using Some x same_life_request [of matching v "server_proxy stringify b" sv q r m sv1] same_life_trans
    by (auto simp: sv_proxy_def)
qed (simp add: sv_proxy_def)

lemma same_life_fold: "same_life sv (fold (sv_proxy matching stringify v) bs sv)"
proof (induction bs arbitrary: sv)
  case (Cons b bs)
  show ?case using same_life_trans [OF same_life_proxy Cons.IH] by simp
qed simp

lemma same_life_ring_changed: "same_life sv (onRingChanged matching stringify v hashFunc added ring sv)"
proof -
  have "same_life sv (sv\<lparr>sv_timers := Some t\<rparr>)" if "sv_timers sv \<noteq> None" for t
    using that by (simp add: same_life_def)
  then show ?thesis
    using same_life_trans [OF _ same_life_fold]
    by (auto simp: onRingChanged_def split: ring_life.splits option.splits prod.splits)
qed

lemma same_life_watched: "same_life sv (onWatched matching stringify v msg sv)"
  by (auto simp: onWatched_def same_life_proxy split: option.splits sum.splits)

lemma start_ok_cong:
  assumes "loaded_ok sv = loaded_ok sv'" "joined_ok sv = joined_ok sv'" "sv_ring sv = sv_ring sv'"
  shows "start_ok sv t = start_ok sv' t"
  using assms by (cases t) simp_all

lemma close_ok_cong: "sv_ring sv = sv_ring sv' \<Longrightarrow> sv_closed sv = sv_closed sv' \<Longrightarrow> close_ok sv t = close_ok sv' t"
  by (cases t) simp_all

lemma same_life_inv:
  assumes "same_life sv sv'" "sv_inv calls sv"
  shows "sv_inv calls sv'"
proof -
  have f: "sv_starting sv' = sv_starting sv" "sv_closing sv' = sv_closing sv" "sv_ring sv' = sv_ring sv"
    "sv_closed sv' = sv_closed sv" "sv_listening sv' = sv_listening sv" "sv_answers sv' = sv_answers sv"
    using assms(1) by (cases sv; cases sv'; simp add: same_life_def)+
  have "loaded_ok sv' = loaded_ok sv" "joined_ok sv' = joined_ok sv"
    using assms(1) by (cases sv; cases sv'; auto simp: same_life_def loaded_ok_def joined_ok_def)+
  then have eqs: "start_ok sv' = start_ok sv" "close_ok sv' = close_ok sv" "loaded_ok sv' = loaded_ok sv" "joined_ok sv' = joined_ok sv"
    using f start_ok_cong [of sv' sv] close_ok_cong [of sv' sv] by auto
  then show ?thesis using assms(2) unfolding sv_inv_def outstanding_def f eqs by simp
qed

section \<open>Steps keep the invariant\<close>

lemma one_start:
  assumes "sv_inv calls sv" "i < length (sv_starting sv)"
  obtains cb t where "sv_starting sv = [(cb, t)]" "sv_closing sv = []" "i = 0" "start_ok sv t" "\<not> sv_listening sv"
  using assms by (cases "sv_starting sv" rule: list.exhaust; cases "tl (sv_starting sv)"; cases "sv_closing sv")
    (auto simp: sv_inv_def split: list.splits)

lemma one_close:
  assumes "sv_inv calls sv" "i < length (sv_closing sv)"
  obtains cb t where "sv_closing sv = [(cb, t)]" "sv_starting sv = []" "i = 0" "close_ok sv t" "t \<noteq> Answering \<Longrightarrow> \<not> sv_listening sv"
  using assms by (cases "sv_closing sv" rule: list.exhaust; cases "tl (sv_closing sv)"; cases "sv_starting sv")
    (auto simp: sv_inv_def split: list.splits)

lemma given_call: "mset (map fst (sv_answers (sv_call cb res sv))) = mset (map fst (sv_answers sv)) + given cb"
  by (cases cb) (simp_all add: sv_call_def)

lemma sv_call_simps [simp]:
  "sv_starting (sv_call cb res sv) = sv_starting sv" "sv_closing (sv_call cb res sv) = sv_closing sv"
  "sv_ring (sv_call cb res sv) = sv_ring sv" "sv_closed (sv_call cb res sv) = sv_closed sv"
  "sv_listening (sv_call cb res sv) = sv_listening sv" "sv_timers (sv_call cb res sv) = sv_timers sv"
  "sv_routes (sv_call cb res sv) = sv_routes sv" "sv_handling (sv_call cb res sv) = sv_handling sv"
  "sv_watching (sv_call cb res sv) = sv_watching sv" "sv_node (sv_call cb res sv) = sv_node sv"
  by (cases cb; simp add: sv_call_def)+

lemmas life_defs = sv_inv_def outstanding_def loaded_ok_def joined_ok_def

lemma sv_run_inv: "sv_run calls sv \<Longrightarrow> sv_inv calls sv"
proof (induction rule: sv_run.induct)
  case start
  then show ?case by (simp add: life_defs new_server_def)
next
  case (listen calls sv cb)
  then show ?case
    using given_call [of cb None sv] by (auto simp: sv_listen_def sv_inv_def outstanding_def joined_ok_def loaded_ok_def)
next
  case (loaded calls sv i t conf_seeds)
  from one_start [OF loaded.IH loaded.hyps(2)] obtain cb where
    o: "sv_starting sv = [(cb, Loading_timers)]" "sv_closing sv = []" "i = 0" "\<not> sv_listening sv"
    using loaded.hyps(3) by (metis nth_Cons_0 snd_conv)
  then show ?case
    using loaded.IH given_call [of cb]
    by (auto simp: onTimersLoaded_def give_up_def proceed_def drop_nth_def Let_def sv_inv_def outstanding_def loaded_ok_def
        split: option.splits)
next
  case (resolved calls sv i names)
  from one_start [OF resolved.IH resolved.hyps(2)] obtain cb where
    o: "sv_starting sv = [(cb, Resolving names)]" "sv_closing sv = []" "i = 0" "\<not> sv_listening sv" "loaded_ok sv"
    using resolved.hyps(3) by (metis nth_Cons_0 snd_conv start_ok.simps(2))
  then show ?case
    using resolved.IH given_call [of cb]
    by (auto simp: onResolved_def give_up_def proceed_def drop_nth_def Let_def sv_inv_def outstanding_def loaded_ok_def
        split: sum.splits)
next
  case (opened calls sv i host seeds ok)
  from one_start [OF opened.IH opened.hyps(2)] obtain cb where
    o: "sv_starting sv = [(cb, Opening_channel host seeds)]" "sv_closing sv = []" "i = 0" "\<not> sv_listening sv"
    "start_ok sv (Opening_channel host seeds)"
    using opened.hyps(3) by (metis nth_Cons_0 snd_conv)
  then show ?case
    using opened.IH given_call [of cb]
    by (auto simp: onChannelOpen_def give_up_def proceed_def drop_nth_def sv_inv_def outstanding_def loaded_ok_def)
next
  case (bootstrapped calls sv i seeds ok)
  from one_start [OF bootstrapped.IH bootstrapped.hyps(2)] obtain cb where
    o: "sv_starting sv = [(cb, Bootstrapping_ring seeds)]" "sv_closing sv = []" "i = 0" "\<not> sv_listening sv"
    "start_ok sv (Bootstrapping_ring seeds)"
    using bootstrapped.hyps(3) by (metis nth_Cons_0 snd_conv)
  then show ?case
    using bootstrapped.IH given_call [of cb]
    by (auto simp: onRingBootstrapped_def give_up_def proceed_def drop_nth_def sv_inv_def outstanding_def loaded_ok_def
        joined_ok_def sv_group_def node_name_def)
next
  case (bound calls sv i)
  from one_start [OF bound.IH bound.hyps(2)] obtain cb where
    o: "sv_starting sv = [(cb, Binding_port)]" "sv_closing sv = []" "i = 0" "\<not> sv_listening sv" "start_ok sv Binding_port"
    using bound.hyps(3) by (metis nth_Cons_0 snd_conv)
  then show ?case
    using bound.IH given_call [of cb]
    by (auto simp: onBound_def drop_nth_def sv_inv_def outstanding_def loaded_ok_def joined_ok_def)
next
  case (request calls sv matching v req q r m sv')
  then show ?case using same_life_inv same_life_request by blast
next
  case (ring_changed calls sv)
  then show ?case using same_life_inv same_life_ring_changed by blast
next
  case (watched calls sv)
  then show ?case using same_life_inv same_life_watched by blast
next
  case (close calls sv cb)
  then show ?case
    by (auto simp: sv_close_def sv_inv_def outstanding_def joined_ok_def loaded_ok_def)
next
  case (http_closed calls sv i sv')
  from one_close [OF http_closed.IH http_closed.hyps(2)] obtain cb where
    o: "sv_closing sv = [(cb, Http_closing)]" "sv_starting sv = []" "i = 0" "\<not> sv_listening sv" "close_ok sv Http_closing"
    using http_closed.hyps(3) by (metis close_task.distinct(11) nth_Cons_0 snd_conv)
  then show ?case
    using http_closed by (auto simp: onHttpClosed_def close_next_def sv_inv_def outstanding_def loaded_ok_def split: if_splits)
next
  case (evicted calls sv i)
  from one_close [OF evicted.IH evicted.hyps(2)] obtain cb where
    o: "sv_closing sv = [(cb, Evicting)]" "sv_starting sv = []" "i = 0" "\<not> sv_listening sv" "close_ok sv Evicting"
    using evicted.hyps(3) by (metis close_task.simps nth_Cons_0 snd_conv)
  then show ?case using evicted.IH by (auto simp: onEvicted_def close_next_def sv_inv_def outstanding_def loaded_ok_def)
next
  case (drained calls sv i)
  from one_close [OF drained.IH drained.hyps(2)] obtain cb where
    o: "sv_closing sv = [(cb, Draining)]" "sv_starting sv = []" "i = 0" "\<not> sv_listening sv" "close_ok sv Draining"
    using drained.hyps(3) by (metis close_task.simps nth_Cons_0 snd_conv)
  then show ?case
    using drained.IH by (auto simp: onDrained_def close_next_def Let_def sv_inv_def outstanding_def loaded_ok_def)
next
  case (delay calls sv i members sv')
  from one_close [OF delay.IH delay.hyps(2)] obtain cb where
    o: "sv_closing sv = [(cb, Delayed)]" "sv_starting sv = []" "i = 0" "\<not> sv_listening sv" "close_ok sv Delayed"
    using delay.hyps(3) by (metis close_task.simps nth_Cons_0 snd_conv)
  then show ?case
    using delay.IH delay.hyps(4)
    by (auto simp: onDelay_def close_next_def sv_inv_def outstanding_def loaded_ok_def split: option.splits)
next
  case (stopped calls sv i)
  from one_close [OF stopped.IH stopped.hyps(2)] obtain cb where
    o: "sv_closing sv = [(cb, Stopping_timers)]" "sv_starting sv = []" "i = 0" "\<not> sv_listening sv" "close_ok sv Stopping_timers"
    using stopped.hyps(3) by (metis close_task.simps nth_Cons_0 snd_conv)
  then show ?case
    using stopped.IH given_call [of cb]
    by (auto simp: onTimersStopped_def close_done_def drop_nth_def sv_inv_def outstanding_def loaded_ok_def)
next
  case (immediate calls sv i)
  from one_close [OF immediate.IH immediate.hyps(2)] obtain cb where
    o: "sv_closing sv = [(cb, Answering)]" "sv_starting sv = []" "i = 0" "close_ok sv Answering"
    using immediate.hyps(3) by (metis nth_Cons_0 snd_conv)
  then show ?case
    using immediate.IH given_call [of cb]
    by (auto simp: onImmediate_def drop_nth_def sv_inv_def outstanding_def loaded_ok_def joined_ok_def)
qed

section \<open>Properties\<close>

text \<open>
  C9: As long as no \<open>listen\<close> or \<open>close\<close> begins while another is under way, and a close only once there is
  a ring, a server accepts HTTP requests only once its timers are loaded, its routes are set, its node
  has joined the ring, and requests and timers of other nodes are listened for; while a listen is under
  way it accepts none, and none from the beginning of a close until its last turn, when it answers.
\<close>

theorem serves_after_joining:
  assumes "sv_run calls sv"
  shows "sv_listening sv \<longrightarrow>
      sv_timers sv \<noteq> None \<and> sv_routes sv = Some api_routes \<and> (\<exists>whoami. sv_ring sv = Ring_ready whoami) \<and>
      sv_handling sv \<and> sv_watching sv = Some (''skyring:'' @ sv_group sv) \<and> sv_starting sv = [] \<and>
      (\<forall>(cb, t) \<in> set (sv_closing sv). t = Answering)"
  using sv_run_inv [OF assms]
  by (auto simp: sv_inv_def joined_ok_def loaded_ok_def sv_group_def node_name_def split: list.splits)


section \<open>A server at work\<close>

definition demo_server :: server where
  "demo_server = new_server (new_skyring_node ''127.0.0.1'' 3455 None None None None) (Some []) True"

definition demo_dns :: "string \<Rightarrow> string + string" where
  "demo_dns h = Inr h"

definition demo_up :: "timers \<Rightarrow> server" where
  "demo_up t =
    onBound 0 (onRingBootstrapped True 0 [] (onChannelOpen True 0 []
      (onResolved (dns_resolve demo_dns [''127.0.0.1''] []) 0
        (onTimersLoaded (Some t) None 0 (sv_listen (Some 1) demo_server)))))"

lemma demo_up_run: "sv_run {#1#} (demo_up t)"
proof -
  have "sv_run ({#} + given (Some 1)) (sv_listen (Some 1) demo_server)"
    unfolding demo_server_def by (rule sv_run.listen [OF sv_run.start]) (simp_all add: new_server_def)
  then have "sv_run {#1#} (sv_listen (Some 1) demo_server)" by simp
  then have "sv_run {#1#} (onTimersLoaded (Some t) None 0 (sv_listen (Some 1) demo_server))"
    by (rule sv_run.loaded) (simp_all add: sv_listen_def demo_server_def new_server_def)
  then have "sv_run {#1#} (onResolved (dns_resolve demo_dns [''127.0.0.1''] []) 0
      (onTimersLoaded (Some t) None 0 (sv_listen (Some 1) demo_server)))"
    by (rule sv_run.resolved) (simp_all add: sv_listen_def demo_server_def new_server_def onTimersLoaded_def
      proceed_def new_skyring_node_def Let_def)
  then have "sv_run {#1#} (onChannelOpen True 0 [] (onResolved (dns_resolve demo_dns [''127.0.0.1''] []) 0
      (onTimersLoaded (Some t) None 0 (sv_listen (Some 1) demo_server))))"
    by (rule sv_run.opened [where host = "''127.0.0.1''"]) (simp_all add: sv_listen_def demo_server_def new_server_def onTimersLoaded_def
      proceed_def new_skyring_node_def Let_def onResolved_def demo_dns_def)
  then have "sv_run {#1#} (onRingBootstrapped True 0 [] (onChannelOpen True 0 []
      (onResolved (dns_resolve demo_dns [''127.0.0.1''] []) 0
        (onTimersLoaded (Some t) None 0 (sv_listen (Some 1) demo_server)))))"
    by (rule sv_run.bootstrapped) (simp_all add: sv_listen_def demo_server_def new_server_def onTimersLoaded_def
      proceed_def new_skyring_node_def Let_def onResolved_def demo_dns_def onChannelOpen_def)
  then show ?thesis unfolding demo_up_def
    by (rule sv_run.bound) (simp_all add: sv_listen_def demo_server_def new_server_def onTimersLoaded_def
      proceed_def new_skyring_node_def Let_def onResolved_def demo_dns_def onChannelOpen_def onRingBootstrapped_def)
qed

lemma demo_port: "show_nat 3455 = ''3455''"
proof -
  have d: "digit 3 = CHR ''3''" "digit 4 = CHR ''4''" "digit 5 = CHR ''5''" by code_simp+
  show ?thesis by (simp add: show_nat.simps d)
qed

lemma demo_up_facts: "sv_listening (demo_up t)" "sv_answers (demo_up t) = [(1, None)]" "sv_starting (demo_up t) = []"
    "sv_closing (demo_up t) = []" "sv_ring (demo_up t) = Ring_ready ''127.0.0.1:3455''" "sv_closed (demo_up t) = False"
  by (simp_all add: demo_up_def sv_listen_def demo_server_def new_server_def onTimersLoaded_def proceed_def
      new_skyring_node_def Let_def onResolved_def demo_dns_def onChannelOpen_def onRingBootstrapped_def onBound_def drop_nth_def
      sv_call_def demo_port)

theorem serves_after_joining_witness:
  "\<exists>sv. sv_run {#1#} sv \<and> sv_listening sv \<and> sv_ring sv = Ring_ready ''127.0.0.1:3455'' \<and>
    sv_watching sv = Some (''skyring:'' @ sv_group sv)"
proof -
  let ?sv = "demo_up (new_timers ''n'' [] [])"
  show ?thesis
    using serves_after_joining [OF demo_up_run [of "new_timers ''n'' [] []"]] demo_up_run demo_up_facts [of "new_timers ''n'' [] []"]
    by (intro exI [of _ ?sv]) blast
qed


text \<open>
  Two overlapping closes: the second one's eviction is refused at once, it destroys the ring while the
  first is still evicting, and the first then waits for an event that was already emitted.
\<close>

lemma overlapping_closes_stall:
  "let sv1 = sv_close (Some 3) (sv_close (Some 2) (demo_up t));
       sv2 = close_next 0 Evicting (close_next 1 Evicting sv1);
       sv3 = onDrained 0 (onEvicted 0 (onDrained 1 (onEvicted 1 sv2)))
   in sv_closing sv3 = [(Some 2, Awaiting_destroyed), (Some 3, Delayed)] \<and> sv_ring sv3 = Ring_destroyed"
  using demo_up_facts [of t]
  by (simp add: sv_close_def close_next_def onEvicted_def onDrained_def Let_def)

text \<open>A host given to the constructor of the node is ignored.\<close>

lemma given_host_ignored: "nd_host (new_skyring_node conf_host p (Some h) q n a) = conf_host"
  by (simp add: new_skyring_node_def)

end
