(* ===== verification/Http.thy ===== *)
theory Http
  imports Joiner Api Transports
begin

text \<open>
  The wrappers around node's requests and responses (\<open>lib/server/request.js\<close>,
  \<open>lib/server/response.js\<close>), the parameters of a route (\<open>lib/server/route.js\<close>) and the router's methods
  for single verbs (\<open>lib/server/router.js\<close>). Responses are kept with all their headers and the text
  written; their abstraction is the response of \<^theory_text>\<open>Api\<close>. \<open>querystring.parse\<close>, \<open>path-to-regexp\<close>,
  \<open>JSON.stringify\<close> and node's table of status texts are parameters. Header names are in lower case.
\<close>

section \<open>Requests\<close>

text \<open>\<open>/^(\/\/?(?!\/)[^?#\s]*)(\?[^#\s]*)?$/\<close>: the path, and the query from its question mark on.\<close>

definition path_char :: "char \<Rightarrow> bool" where
  "path_char c \<longleftrightarrow> c \<noteq> CHR ''#'' \<and> \<not> isSpace c"

definition pathexp :: "string \<Rightarrow> (string \<times> string option) option" where
  "pathexp s =
    (let p = takeWhile (\<lambda>c. path_char c \<and> c \<noteq> CHR ''?'') s; r = drop (length p) s
     in if s = [] \<or> hd s \<noteq> CHR ''/'' \<or> take 3 s = ''///'' then None
        else if r = [] then Some (p, None)
        else if hd r = CHR ''?'' \<and> list_all path_char (tl r) then Some (p, Some r)
        else None)"

text \<open>
  \<open>fastparse\<close>: path and query. What the expression does not match is handed to \<open>parseurl\<close> as if it
  were a request, which finds no \<open>url\<close> in it.
\<close>

definition fastparse :: "(string \<Rightarrow> (string \<times> string) list) \<Rightarrow> string \<Rightarrow> (string \<times> (string \<times> string) list) option" where
  "fastparse qs url =
    (case pathexp url of
       None \<Rightarrow> None
     | Some (pathname, None) \<Rightarrow> Some (pathname, [])
     | Some (pathname, Some search) \<Rightarrow> Some (pathname, qs (tl search)))"

record received =
  hq_path :: "string option"
  hq_query :: "(string \<times> string) list"
  hq_headers :: "string dict"

definition new_request :: "(string \<Rightarrow> (string \<times> string) list) \<Rightarrow> string \<Rightarrow> string dict \<Rightarrow> received" where
  "new_request qs url headers =
    (case (if url = [] then None else fastparse qs url) of
       None \<Rightarrow> \<lparr>hq_path = None, hq_query = [], hq_headers = headers\<rparr>
     | Some (path, query) \<Rightarrow> \<lparr>hq_path = Some path, hq_query = query, hq_headers = headers\<rparr>)"

definition request_get :: "string \<Rightarrow> received \<Rightarrow> string option" where
  "request_get key req =
    (let k = toLowerCase key; hs = hq_headers req
     in if k = ''referrer'' \<or> k = ''referer''
        then (case dget hs ''referrer'' of Some (c # s) \<Rightarrow> Some (c # s) | _ \<Rightarrow> dget hs ''referer'')
        else dget hs k)"

section \<open>Routes\<close>

text \<open>\<open>Route.match\<close>: the groups of the match, if any, by the names of the keys.\<close>

definition route_match :: "string list \<Rightarrow> string option list option \<Rightarrow> (string \<times> string) list option" where
  "route_match keys matches =
    (case matches of
       None \<Rightarrow> None
     | Some groups \<Rightarrow> Some [(k, g). (k, Some g) \<leftarrow> zip keys groups])"

definition router_get :: "string \<Rightarrow> middleware list \<Rightarrow> route list \<Rightarrow> route list" where
  "router_get path fn rs = router_route path ''GET'' fn rs"

definition router_put :: "string \<Rightarrow> middleware list \<Rightarrow> route list \<Rightarrow> route list" where
  "router_put path fn rs = router_route path ''PUT'' fn rs"

definition router_post :: "string \<Rightarrow> middleware list \<Rightarrow> route list \<Rightarrow> route list" where
  "router_post path fn rs = router_route path ''POST'' fn rs"

definition router_patch :: "string \<Rightarrow> middleware list \<Rightarrow> route list \<Rightarrow> route list" where
  "router_patch path fn rs = router_route path ''PATCH'' fn rs"

definition router_delete :: "string \<Rightarrow> middleware list \<Rightarrow> route list \<Rightarrow> route list" where
  "router_delete path fn rs = router_route path ''DELETE'' fn rs"

definition router_options :: "string \<Rightarrow> middleware list \<Rightarrow> route list \<Rightarrow> route list" where
  "router_options path fn rs = router_route path ''OPTIONS'' fn rs"

text \<open>
  \<open>Router.handle\<close> on a request as it comes in. Without a path no literal route is found, and the
  patterns are tried on the text of null.
\<close>

definition router_receive ::
  "(string \<Rightarrow> (string \<times> string) list) \<Rightarrow> (string \<Rightarrow> string \<Rightarrow> (string \<times> string) list option) \<Rightarrow> route list \<Rightarrow> Api.env \<Rightarrow>
    string \<Rightarrow> string dict \<Rightarrow> string \<Rightarrow> string \<Rightarrow> timers \<Rightarrow> (request \<times> response \<times> timers \<times> mw_result) option"
where
  "router_receive qs matching routes v url headers mth text t =
    (let hq = new_request qs url headers;
         req = \<lparr>q_method = mth, q_path = (case hq_path hq of None \<Rightarrow> [] | Some p \<Rightarrow> p),
           q_timer_id = request_get ''x-timer-id'' hq, q_params = [], q_text = text, q_body = JNull\<rparr>
     in case hq_path hq of
          Some p \<Rightarrow> router_handle matching routes v req t
        | None \<Rightarrow>
            (case first_match matching ''null'' [r \<leftarrow> routes. rt_method r = mth] of
               Some (r, ps) \<Rightarrow> handleRoute v r (req\<lparr>q_params := ps\<rparr>) new_response t
             | None \<Rightarrow> Some (req, notFound new_response, t, Next)))"

section \<open>Responses\<close>

datatype header = One string | Many "string list"

record http_response =
  hr_status :: status_code
  hr_headers :: "header dict"
  hr_written :: "string list"
  hr_ended :: bool

definition new_http_response :: http_response where
  "new_http_response = \<lparr>hr_status = Status 200, hr_headers = [], hr_written = [], hr_ended = False\<rparr>"

text \<open>Node refuses headers of a response that was sent.\<close>

definition setHeader :: "string \<Rightarrow> header \<Rightarrow> http_response \<Rightarrow> http_response outcome" where
  "setHeader name val r =
    (if hr_ended r \<or> hr_written r \<noteq> [] then Inl (Error ''ERR_HTTP_HEADERS_SENT'')
     else Inr (r\<lparr>hr_headers := dset name val (hr_headers r)\<rparr>))"

definition res_status :: "status_code \<Rightarrow> http_response \<Rightarrow> http_response" where
  "res_status code r = r\<lparr>hr_status := code\<rparr>"

definition res_end :: "string option \<Rightarrow> http_response \<Rightarrow> http_response" where
  "res_end str r = r\<lparr>hr_written := hr_written r @ (case str of None \<Rightarrow> [] | Some s \<Rightarrow> [s]), hr_ended := True\<rparr>"

definition res_send :: "string \<Rightarrow> http_response \<Rightarrow> http_response" where
  "res_send str r = r\<lparr>hr_written := hr_written r @ [str]\<rparr>"

definition res_get :: "string \<Rightarrow> http_response \<Rightarrow> header option" where
  "res_get key r = dget (hr_headers r) (toLowerCase key)"

text \<open>A value that is neither an array nor a string is given by its text.\<close>

definition res_set :: "string \<Rightarrow> header \<Rightarrow> http_response \<Rightarrow> http_response outcome" where
  "res_set key val r = setHeader (toLowerCase key) val r"

definition res_json :: "string \<Rightarrow> http_response \<Rightarrow> http_response outcome" where
  "res_json text r =
    (case setHeader ''content-type'' (One ''application/json'') r of
       Inl e \<Rightarrow> Inl e
     | Inr r1 \<Rightarrow> Inr (res_end (Some text) r1))"

text \<open>\<open>Response.error\<close>, of a number and of an error; a status or code of 0 or an empty one counts as none.\<close>

definition res_error_number :: "(nat \<Rightarrow> string option) \<Rightarrow> (json \<Rightarrow> string) \<Rightarrow> nat \<Rightarrow> string option \<Rightarrow> http_response \<Rightarrow> http_response outcome" where
  "res_error_number statusText stringify err msg r =
    (let message = (case msg of Some (c # s) \<Rightarrow> Some (c # s) | _ \<Rightarrow> statusText err)
     in case setHeader ''x-skyring-reason'' (One (case message of None \<Rightarrow> ''Internal Server Error'' | Some m \<Rightarrow> m)) r of
          Inl e \<Rightarrow> Inl e
        | Inr r1 \<Rightarrow> res_json (stringify (JObj (case message of None \<Rightarrow> [] | Some m \<Rightarrow> [(''message'', JStr m)])))
            (res_status (Status err) r1))"

definition res_error_err :: "http_error \<Rightarrow> http_response \<Rightarrow> http_response outcome" where
  "res_error_err e r =
    (let (code, message) =
       (case (e_status e, e_code e) of
          (Some (Suc n), _) \<Rightarrow> (Status (Suc n), e_message e)
        | (_, Some c) \<Rightarrow> (Invalid_status c, e_message e)
        | (_, None) \<Rightarrow> (Status 500, ''Internal Server Error''))
     in case setHeader ''x-skyring-reason'' (One message) (res_status code r) of
          Inl x \<Rightarrow> Inl x
        | Inr r1 \<Rightarrow> Inr (res_end None r1))"

definition http_notFound :: "(json \<Rightarrow> string) \<Rightarrow> http_response \<Rightarrow> http_response outcome" where
  "http_notFound stringify r =
    (case res_set ''Content-Type'' (One ''application/json'') (res_status (Status 404) r) of
       Inl e \<Rightarrow> Inl e
     | Inr r1 \<Rightarrow>
        (case res_set ''x-skyring-reason'' (One ''Not Found'') r1 of
           Inl e \<Rightarrow> Inl e
         | Inr r2 \<Rightarrow> Inr (res_end (Some (stringify (JObj [(''message'', JStr ''Not Found'')]))) r2)))"

text \<open>What a route's end does: the error, the body that a handler set, or nothing more.\<close>

definition finish_route :: "(json \<Rightarrow> string) \<Rightarrow> http_error option \<Rightarrow> json option \<Rightarrow> http_response \<Rightarrow> http_response outcome" where
  "finish_route stringify err body r =
    (case (err, body) of
       (Some e, _) \<Rightarrow> res_error_err e r
     | (None, Some b) \<Rightarrow> res_json (stringify b) r
     | (None, None) \<Rightarrow> Inr (res_end None r))"

end
