(* ===== verification/Http_Properties.thy ===== *)
theory Http_Properties
  imports Http
begin

text \<open>
  The responses of \<open>lib/server/response.js\<close> refine those of \<^theory_text>\<open>Api\<close>, and what becomes of the URL
  of a request.
\<close>

definition text_header :: "string \<Rightarrow> http_response \<Rightarrow> string option" where
  "text_header k r = (case dget (hr_headers r) k of Some (One s) \<Rightarrow> Some s | _ \<Rightarrow> None)"

definition view_response :: "http_response \<Rightarrow> response" where
  "view_response r = \<lparr>s_status = hr_status r, s_reason = text_header ''x-skyring-reason'' r,
     s_location = text_header ''location'' r, s_json = (text_header ''content-type'' r = Some ''application/json''),
     s_ended = hr_ended r\<rparr>"

definition fresh_response :: "http_response \<Rightarrow> bool" where
  "fresh_response r \<longleftrightarrow> \<not> hr_ended r \<and> hr_written r = []"

lemma setHeader_fresh: "fresh_response r \<Longrightarrow> setHeader k v r = Inr (r\<lparr>hr_headers := dset k v (hr_headers r)\<rparr>)"
  by (simp add: setHeader_def fresh_response_def)

lemma fresh_simps [simp]: "fresh_response (res_status c r) = fresh_response r" "fresh_response (r\<lparr>hr_headers := h\<rparr>) = fresh_response r"
  by (simp_all add: fresh_response_def res_status_def)

lemma lower_names:
  "toLowerCase ''Location'' = ''location''" "toLowerCase ''Content-Type'' = ''content-type''"
  "toLowerCase ''x-skyring-reason'' = ''x-skyring-reason''"
  by code_simp+

lemma view_simps:
  "view_response (r\<lparr>hr_headers := dset ''x-skyring-reason'' (One m) (hr_headers r)\<rparr>) = (view_response r)\<lparr>s_reason := Some m\<rparr>"
  "view_response (r\<lparr>hr_headers := dset ''location'' (One m) (hr_headers r)\<rparr>) = (view_response r)\<lparr>s_location := Some m\<rparr>"
  "view_response (r\<lparr>hr_headers := dset ''content-type'' (One ''application/json'') (hr_headers r)\<rparr>) = (view_response r)\<lparr>s_json := True\<rparr>"
  "view_response (res_status c r) = (view_response r)\<lparr>s_status := c\<rparr>"
  "view_response (res_end s r) = (view_response r)\<lparr>s_ended := True\<rparr>"
  by (simp_all add: view_response_def text_header_def res_status_def res_end_def)

lemma error_refines:
  assumes "fresh_response r" "e_status e \<noteq> Some 0"
  shows "\<exists>r'. res_error_err e r = Inr r' \<and> view_response r' = res_error e (view_response r)"
proof -
  have "\<exists>r'. setHeader ''x-skyring-reason'' (One m) (res_status c r) = Inr r' \<and>
      view_response (res_end None r') = (view_response r)\<lparr>s_status := c, s_reason := Some m, s_ended := True\<rparr>" for m c
    using assms(1) by (simp add: setHeader_fresh view_simps)
  then show ?thesis
    using assms(2)
    by (auto simp: res_error_err_def res_error_def Let_def split: option.splits nat.splits sum.splits) (metis Inl_Inr_False sum.inject(2))+
qed

lemma res_set_names:
  "res_set ''Location'' v r = setHeader ''location'' v r" "res_set ''Content-Type'' v r = setHeader ''content-type'' v r"
  "res_set ''x-skyring-reason'' v r = setHeader ''x-skyring-reason'' v r"
  unfolding res_set_def lower_names by simp_all

lemma notFound_refines:
  assumes "fresh_response r"
  shows "\<exists>r'. http_notFound stringify r = Inr r' \<and> view_response r' = notFound (view_response r)"
  using assms
  by (simp add: http_notFound_def res_set_names setHeader_def fresh_response_def notFound_def view_response_def text_header_def
      res_status_def res_end_def)

text \<open>
  Answering a response that was not sent yet never fails and does what the API's model says, headers
  and all: the error with its status, its code or 500, the 404, the location of a timer, the end
  without an error. To answer again after that with an error fails.
\<close>

theorem responses_refine_api:
  assumes "fresh_response r" and "e_status e \<noteq> Some 0"
  shows "(\<exists>r'. res_error_err e r = Inr r' \<and> view_response r' = res_error e (view_response r)) \<and>
    (\<exists>r'. http_notFound stringify r = Inr r' \<and> view_response r' = notFound (view_response r)) \<and>
    (\<exists>r'. res_set ''Location'' (One (''/timer/'' @ i)) r = Inr r' \<and> fresh_response r' \<and>
      view_response r' = (view_response r)\<lparr>s_location := Some (''/timer/'' @ i)\<rparr>) \<and>
    (\<exists>r'. finish_route stringify None None r = Inr r' \<and> view_response r' = (view_response r)\<lparr>s_ended := True\<rparr> \<and>
      (\<exists>x. res_error_err e r' = Inl x))"
proof -
  have "\<exists>x. res_error_err e (res_end None r) = Inl x"
    by (auto simp: res_error_err_def setHeader_def res_status_def res_end_def Let_def split: option.splits nat.splits)
  then show ?thesis
    using error_refines [OF assms] notFound_refines [OF assms(1), of stringify] assms(1)
    by (simp add: res_set_names setHeader_fresh view_simps finish_route_def)
qed

theorem responses_refine_api_witness:
  "\<exists>r'. res_error_err (invalid ''no'') new_http_response = Inr r' \<and>
    view_response r' = res_error (invalid ''no'') (view_response new_http_response)"
  using responses_refine_api [of new_http_response "invalid ''no''"]
  by (simp add: fresh_response_def new_http_response_def invalid_def)

section \<open>URLs\<close>

lemma pathexp_path:
  assumes "list_all (\<lambda>c. path_char c \<and> c \<noteq> CHR ''?'') p" "list_all path_char q"
    and "take 3 (CHR ''/'' # p) \<noteq> ''///''"
  shows "pathexp (CHR ''/'' # p) = Some (CHR ''/'' # p, None)"
    and "take 3 (CHR ''/'' # p @ CHR ''?'' # q) \<noteq> ''///'' \<Longrightarrow>
      pathexp (CHR ''/'' # p @ CHR ''?'' # q) = Some (CHR ''/'' # p, Some (CHR ''?'' # q))"
proof -
  let ?P = "\<lambda>c. path_char c \<and> c \<noteq> CHR ''?''"
  have s: "?P CHR ''/''" by code_simp
  have t: "takeWhile ?P p = p" using assms(1) by (simp add: takeWhile_eq_all_conv list_all_iff)
  then have "takeWhile ?P (CHR ''/'' # p) = CHR ''/'' # p" using s by simp
  then show "pathexp (CHR ''/'' # p) = Some (CHR ''/'' # p, None)" using assms(3) by (simp add: pathexp_def Let_def)
  have "takeWhile ?P (p @ CHR ''?'' # q) = p" using assms(1) by (induction p) auto
  then have "takeWhile ?P (CHR ''/'' # p @ CHR ''?'' # q) = CHR ''/'' # p" using s by simp
  then show "take 3 (CHR ''/'' # p @ CHR ''?'' # q) \<noteq> ''///'' \<Longrightarrow>
      pathexp (CHR ''/'' # p @ CHR ''?'' # q) = Some (CHR ''/'' # p, Some (CHR ''?'' # q))"
    using assms(2) by (simp add: pathexp_def Let_def)
qed

text \<open>A target in absolute form, which a client of a proxy sends, has no path: it is never found.\<close>

lemma absolute_target_lost:
  "router_receive qs (\<lambda>pat path. None) api_routes v ''http://a/timer'' [] ''POST'' text t =
    Some (\<lparr>q_method = ''POST'', q_path = [], q_timer_id = None, q_params = [], q_text = text, q_body = JNull\<rparr>,
     notFound new_response, t, Next)"
proof -
  have "pathexp ''http://a/timer'' = None" by code_simp
  moreover have "first_match (\<lambda>pat path. None) p rs = None" for p and rs :: "route list" by (induction rs) auto
  moreover have "request_get ''x-timer-id'' \<lparr>hq_path = None, hq_query = [], hq_headers = []\<rparr> = None" by code_simp
  ultimately show ?thesis by (simp add: router_receive_def new_request_def fastparse_def Let_def)
qed

end
