(* ===== verification/Scylla.thy ===== *)
theory Scylla
  imports Transports Joiner
begin

text \<open>
  The store on a ScyllaDB cluster (\<open>packages/scylladown\<close>): a table of keys and values, one CQL
  statement per operation, and an iterator over the table.

  The cluster is outside: \<^theory_text>\<open>exec\<close> executes a statement with its parameters, \<^theory_text>\<open>exec_batch\<close> a batch of
  them, on the cluster's state, and answers with an error or rows. A text and the buffer of its bytes
  are different values, as \<open>encode\<close> and \<open>decode\<close> (UTF-8) convert them. The names of the statements are those
  of \<open>kQuery\<close>.
\<close>

section \<open>Names and lists\<close>

text \<open>\<open>\w\<close>, and what \<open>slugify\<close> removes, trims and replaces.\<close>

definition isWord :: "char \<Rightarrow> bool" where
  "isWord c \<longleftrightarrow> (let n = of_char c :: nat in (48 \<le> n \<and> n \<le> 57) \<or> (65 \<le> n \<and> n \<le> 90) \<or> (97 \<le> n \<and> n \<le> 122) \<or> n = 95)"

definition isGap :: "char \<Rightarrow> bool" where
  "isGap c \<longleftrightarrow> c = CHR ''-'' \<or> isSpace c"

definition trim :: "string \<Rightarrow> string" where
  "trim s = rev (dropWhile isSpace (rev (dropWhile isSpace s)))"

text \<open>Every run of gaps becomes one underscore; the flag tells whether the last character was a gap.\<close>

fun underscores :: "bool \<Rightarrow> string \<Rightarrow> string" where
  "underscores gap [] = []"
| "underscores gap (c # s) =
    (if isGap c then (if gap then [] else [CHR ''_'']) @ underscores True s else c # underscores False s)"

definition slugify :: "string \<Rightarrow> string" where
  "slugify str = toLowerCase (underscores False (trim [c \<leftarrow> str. isWord c \<or> isGap c]))"

text \<open>\<open>split(/\s*,\s*/)\<close>: white space around the commas goes, but not at the ends of the text.\<close>

definition trim_left :: "string \<Rightarrow> string" where
  "trim_left s = dropWhile isSpace s"

definition trim_right :: "string \<Rightarrow> string" where
  "trim_right s = rev (dropWhile isSpace (rev s))"

definition csv_split :: "string \<Rightarrow> string list" where
  "csv_split s =
    (let ps = split_on CHR '','' s; n = length ps
     in map (\<lambda>i. (if 0 < i then trim_left else id) ((if Suc i < n then trim_right else id) (ps ! i))) [0..<n])"

datatype list_opt = No_list | List_opt "string list" | Text_opt string

definition toArray :: "list_opt \<Rightarrow> string list" where
  "toArray item =
    (case item of No_list \<Rightarrow> [] | List_opt xs \<Rightarrow> xs | Text_opt s \<Rightarrow> if s = [] then [] else csv_split s)"

text \<open>The servers of a NATS client: those of the options, or the configured ones.\<close>

definition nats_servers :: "list_opt option \<Rightarrow> list_opt \<Rightarrow> string list" where
  "nats_servers hosts conf = parseHosts (toArray (case hosts of None \<Rightarrow> conf | Some No_list \<Rightarrow> conf | Some (Text_opt []) \<Rightarrow> conf | Some h \<Rightarrow> h))"

section \<open>Statements\<close>

type_synonym bytes = "nat list"

datatype data = Text string | Buffer bytes

datatype stmt =
    Get_row string
  | Put_row string
  | Del_row string
  | Insert_row string
  | Select_all string
  | Create_keyspace string int
  | Create_table string string

type_synonym row = "string \<times> bytes"

record ('c, 'e) cluster =
  exec :: "stmt \<Rightarrow> data list \<Rightarrow> 'c \<Rightarrow> ('e + row list) \<times> 'c"
  exec_batch :: "(stmt \<times> data list) option list \<Rightarrow> 'c \<Rightarrow> 'e option \<times> 'c"
  encode :: "string \<Rightarrow> bytes"
  decode :: "bytes \<Rightarrow> string"

section \<open>The store\<close>

datatype 'e store_error = Cluster 'e | Not_found

record scylla =
  sy_table :: string
  sy_keyspace :: "string option"
  sy_hosts :: "string list"
  sy_connected :: bool

definition new_scylla :: "string \<Rightarrow> scylla" where
  "new_scylla location = \<lparr>sy_table = slugify location, sy_keyspace = None, sy_hosts = [], sy_connected = False\<rparr>"

definition as_buffer :: "('c, 'e) cluster \<Rightarrow> data \<Rightarrow> data" where
  "as_buffer cl v = (case v of Buffer b \<Rightarrow> Buffer b | Text s \<Rightarrow> Buffer (encode cl s))"

text \<open>\<open>_open\<close>: connect, then create keyspace and table; the first error ends it.\<close>

record open_opts =
  so_contactPoints :: "list_opt option"
  so_keyspace :: "string option"
  so_replicas :: "int option"

definition scylla_open ::
  "('c, 'e) cluster \<Rightarrow> 'e option \<Rightarrow> open_opts \<Rightarrow> scylla \<Rightarrow> 'c \<Rightarrow> 'e option \<times> scylla \<times> 'c"
where
  "scylla_open cl conn opts sy c =
    (let ks = (case so_keyspace opts of None \<Rightarrow> ''skyring'' | Some k \<Rightarrow> k);
         sy1 = sy\<lparr>sy_hosts := (case so_contactPoints opts of None \<Rightarrow> [''127.0.0.1''] | Some p \<Rightarrow> toArray p),
                  sy_keyspace := Some ks\<rparr>
     in case conn of
          Some e \<Rightarrow> (Some e, sy1, c)
        | None \<Rightarrow>
           (case exec cl (Create_keyspace ks (case so_replicas opts of None \<Rightarrow> 1 | Some r \<Rightarrow> r)) [] c of
              (Inl e, c1) \<Rightarrow> (Some e, sy1\<lparr>sy_connected := True\<rparr>, c1)
            | (Inr _, c1) \<Rightarrow>
               (case exec cl (Create_table ks (sy_table sy1)) [] c1 of
                  (Inl e, c2) \<Rightarrow> (Some e, sy1\<lparr>sy_connected := True\<rparr>, c2)
                | (Inr _, c2) \<Rightarrow> (None, sy1\<lparr>sy_connected := True\<rparr>, c2))))"

text \<open>\<open>asBuffer: false\<close> asks for the text.\<close>

definition scylla_get ::
  "('c, 'e) cluster \<Rightarrow> scylla \<Rightarrow> string \<Rightarrow> bool \<Rightarrow> 'c \<Rightarrow> ('e store_error + data) \<times> 'c"
where
  "scylla_get cl sy key asBuffer c =
    (case exec cl (Get_row (sy_table sy)) [Text key] c of
       (Inl e, c1) \<Rightarrow> (Inl (Cluster e), c1)
     | (Inr [], c1) \<Rightarrow> (Inl Not_found, c1)
     | (Inr ((_, v) # _), c1) \<Rightarrow> (Inr (if asBuffer then Buffer v else Text (decode cl v)), c1))"

definition err_of :: "('e + row list) \<times> 'c \<Rightarrow> 'e option \<times> 'c" where
  "err_of r = ((case fst r of Inl e \<Rightarrow> Some e | Inr _ \<Rightarrow> None), snd r)"

definition scylla_insert :: "('c, 'e) cluster \<Rightarrow> scylla \<Rightarrow> string \<Rightarrow> data \<Rightarrow> 'c \<Rightarrow> 'e option \<times> 'c" where
  "scylla_insert cl sy key v c = err_of (exec cl (Insert_row (sy_table sy)) [Text key, as_buffer cl v] c)"

definition scylla_put :: "('c, 'e) cluster \<Rightarrow> scylla \<Rightarrow> string \<Rightarrow> data \<Rightarrow> bool \<Rightarrow> 'c \<Rightarrow> 'e option \<times> 'c" where
  "scylla_put cl sy key v ins c =
    (if ins then scylla_insert cl sy key v c
     else err_of (exec cl (Put_row (sy_table sy)) [as_buffer cl v, Text key] c))"

definition scylla_del :: "('c, 'e) cluster \<Rightarrow> scylla \<Rightarrow> string \<Rightarrow> 'c \<Rightarrow> 'e option \<times> 'c" where
  "scylla_del cl sy key c = err_of (exec cl (Del_row (sy_table sy)) [Text key] c)"

text \<open>An operation of another type becomes \<open>undefined\<close> in the batch; values are passed as they are.\<close>

datatype batch_op = Put_op string data | Del_op string | Other_op

definition batch_stmt :: "scylla \<Rightarrow> batch_op \<Rightarrow> (stmt \<times> data list) option" where
  "batch_stmt sy op =
    (case op of
       Del_op k \<Rightarrow> Some (Del_row (sy_table sy), [Text k])
     | Put_op k v \<Rightarrow> Some (Put_row (sy_table sy), [v, Text k])
     | Other_op \<Rightarrow> None)"

definition scylla_batch :: "('c, 'e) cluster \<Rightarrow> scylla \<Rightarrow> batch_op list \<Rightarrow> 'c \<Rightarrow> 'e option \<times> 'c" where
  "scylla_batch cl sy ops c = (if ops = [] then (None, c) else exec_batch cl (map (batch_stmt sy) ops) c)"

definition scylla_close :: "scylla \<Rightarrow> scylla" where
  "scylla_close sy = sy\<lparr>sy_connected := False\<rparr>"

section \<open>The iterator\<close>

record iterator =
  it_keyAsBuffer :: bool
  it_valueAsBuffer :: bool
  it_cursor :: "row list option"

text \<open>An option that is missing counts as false.\<close>

definition new_iterator :: "bool option \<Rightarrow> bool option \<Rightarrow> iterator" where
  "new_iterator keyAsBuffer valueAsBuffer =
     \<lparr>it_keyAsBuffer = (keyAsBuffer = Some True), it_valueAsBuffer = (valueAsBuffer = Some True), it_cursor = None\<rparr>"

text \<open>The value of a row is a buffer already, and stays one without \<open>valueAsBuffer\<close>, too.\<close>

definition it_item :: "('c, 'e) cluster \<Rightarrow> iterator \<Rightarrow> row \<Rightarrow> data \<times> data" where
  "it_item cl it r = ((if it_keyAsBuffer it then Buffer (encode cl (fst r)) else Text (fst r)), Buffer (snd r))"

definition it_step :: "('c, 'e) cluster \<Rightarrow> iterator \<Rightarrow> row list \<Rightarrow> (data \<times> data) option \<times> iterator" where
  "it_step cl it rows =
    (case rows of
       [] \<Rightarrow> (None, it\<lparr>it_cursor := Some []\<rparr>)
     | r # rs \<Rightarrow> (Some (it_item cl it r), it\<lparr>it_cursor := Some rs\<rparr>))"

definition it_next ::
  "('c, 'e) cluster \<Rightarrow> scylla \<Rightarrow> iterator \<Rightarrow> 'c \<Rightarrow> ('e + (data \<times> data) option) \<times> iterator \<times> 'c"
where
  "it_next cl sy it c =
    (case it_cursor it of
       Some rows \<Rightarrow> (case it_step cl it rows of (x, it1) \<Rightarrow> (Inr x, it1, c))
     | None \<Rightarrow>
        (case exec cl (Select_all (sy_table sy)) [] c of
           (Inl e, c1) \<Rightarrow> (Inl e, it, c1)
         | (Inr rows, c1) \<Rightarrow> (case it_step cl it rows of (x, it1) \<Rightarrow> (Inr x, it1, c1))))"

definition it_end :: "iterator \<Rightarrow> iterator" where
  "it_end it = it\<lparr>it_cursor := None\<rparr>"

end
