(* ===== verification/Scylla_Properties.thy ===== *)
theory Scylla_Properties
  imports Scylla
begin

text \<open>
  On a cluster that does what CQL documents, the store is a map from keys to values: every run of
  operations without an error answers and ends as the same run on a map. The cluster's promise is the
  hypothesis \<^theory_text>\<open>cql_documented\<close>; a concrete cluster fulfils it.
\<close>

section \<open>What CQL promises\<close>

text \<open>
  \<^theory_text>\<open>rows c t\<close> is the table \<^theory_text>\<open>t\<close> of the cluster. UPDATE and INSERT replace the row of their key, DELETE removes
  it, a batch without two operations on one key does all of its operations; nothing is said of a write that fails.
\<close>

definition apply_op :: "('c, 'e) cluster \<Rightarrow> batch_op \<Rightarrow> (string \<rightharpoonup> bytes) \<Rightarrow> (string \<rightharpoonup> bytes)" where
  "apply_op cl op m =
    (case op of
       Put_op k v \<Rightarrow> m(k \<mapsto> (case v of Buffer b \<Rightarrow> b | Text s \<Rightarrow> encode cl s))
     | Del_op k \<Rightarrow> m(k := None)
     | Other_op \<Rightarrow> m)"

fun op_key :: "batch_op \<Rightarrow> string list" where
  "op_key (Put_op k v) = [k]"
| "op_key (Del_op k) = [k]"
| "op_key Other_op = []"

definition sound_batch :: "batch_op list \<Rightarrow> bool" where
  "sound_batch ops \<longleftrightarrow> Other_op \<notin> set ops \<and> distinct (concat (map op_key ops))"

definition writes :: "('c \<Rightarrow> string \<Rightarrow> string \<rightharpoonup> bytes) \<Rightarrow> string \<Rightarrow> ((string \<rightharpoonup> bytes) \<Rightarrow> (string \<rightharpoonup> bytes)) \<Rightarrow> 'c \<Rightarrow> 'c \<Rightarrow> bool" where
  "writes rows t f c c' \<longleftrightarrow> rows c' = (rows c)(t := f (rows c t))"

definition cql_documented :: "('c, 'e) cluster \<Rightarrow> ('c \<Rightarrow> string \<Rightarrow> string \<rightharpoonup> bytes) \<Rightarrow> bool" where
  "cql_documented cl rows \<longleftrightarrow>
     (\<forall>t k c. rows (snd (exec cl (Get_row t) [Text k] c)) = rows c \<and>
        (\<forall>rs. fst (exec cl (Get_row t) [Text k] c) = Inr rs \<longrightarrow> map snd rs = (case rows c t k of None \<Rightarrow> [] | Some v \<Rightarrow> [v]))) \<and>
     (\<forall>t k v c rs c'. exec cl (Put_row t) [Buffer v, Text k] c = (Inr rs, c') \<longrightarrow> writes rows t (\<lambda>m. m(k \<mapsto> v)) c c') \<and>
     (\<forall>t k v c rs c'. exec cl (Insert_row t) [Text k, Buffer v] c = (Inr rs, c') \<longrightarrow> writes rows t (\<lambda>m. m(k \<mapsto> v)) c c') \<and>
     (\<forall>t k c rs c'. exec cl (Del_row t) [Text k] c = (Inr rs, c') \<longrightarrow> writes rows t (\<lambda>m. m(k := None)) c c') \<and>
     (\<forall>t c rs c'. exec cl (Select_all t) [] c = (Inr rs, c') \<longrightarrow>
        rows c' = rows c \<and> distinct (map fst rs) \<and> map_of rs = rows c t) \<and>
     (\<forall>sy ops c c'. sound_batch ops \<longrightarrow> exec_batch cl (map (batch_stmt sy) ops) c = (None, c') \<longrightarrow>
        writes rows (sy_table sy) (fold (apply_op cl) ops) c c')"

section \<open>A map of keys and values\<close>

datatype store_op = S_get string bool | S_put string data bool | S_del string | S_batch "batch_op list"

datatype 'e store_out = Got data | Missing | Done | Failed 'e

definition of_err :: "'e option \<times> 'c \<Rightarrow> 'e store_out \<times> 'c" where
  "of_err r = (case r of (None, c) \<Rightarrow> (Done, c) | (Some e, c) \<Rightarrow> (Failed e, c))"

definition run_op :: "('c, 'e) cluster \<Rightarrow> scylla \<Rightarrow> store_op \<Rightarrow> 'c \<Rightarrow> 'e store_out \<times> 'c" where
  "run_op cl sy op c =
    (case op of
       S_get k asBuffer \<Rightarrow>
         (case scylla_get cl sy k asBuffer c of
            (Inl Not_found, c1) \<Rightarrow> (Missing, c1)
          | (Inl (Cluster e), c1) \<Rightarrow> (Failed e, c1)
          | (Inr v, c1) \<Rightarrow> (Got v, c1))
     | S_put k v ins \<Rightarrow> of_err (scylla_put cl sy k v ins c)
     | S_del k \<Rightarrow> of_err (scylla_del cl sy k c)
     | S_batch ops \<Rightarrow> of_err (scylla_batch cl sy ops c))"

definition map_op :: "('c, 'e) cluster \<Rightarrow> store_op \<Rightarrow> (string \<rightharpoonup> bytes) \<Rightarrow> 'e store_out \<times> (string \<rightharpoonup> bytes)" where
  "map_op cl op m =
    (case op of
       S_get k asBuffer \<Rightarrow>
         (case m k of None \<Rightarrow> (Missing, m) | Some v \<Rightarrow> (Got (if asBuffer then Buffer v else Text (decode cl v)), m))
     | S_put k v ins \<Rightarrow> (Done, apply_op cl (Put_op k v) m)
     | S_del k \<Rightarrow> (Done, apply_op cl (Del_op k) m)
     | S_batch ops \<Rightarrow> (Done, fold (apply_op cl) ops m))"

fun run_ops :: "('op \<Rightarrow> 's \<Rightarrow> 'out \<times> 's) \<Rightarrow> 'op list \<Rightarrow> 's \<Rightarrow> 'out list \<times> 's" where
  "run_ops f [] s = ([], s)"
| "run_ops f (op # ops) s = (case f op s of (x, s1) \<Rightarrow> (case run_ops f ops s1 of (xs, s2) \<Rightarrow> (x # xs, s2)))"

definition sound_op :: "store_op \<Rightarrow> bool" where
  "sound_op op \<longleftrightarrow> (case op of S_batch ops \<Rightarrow> sound_batch ops | _ \<Rightarrow> True)"

lemma cql_laws:
  assumes "cql_documented cl rows"
  shows "rows (snd (exec cl (Get_row t) [Text k] c)) = rows c"
    and "fst (exec cl (Get_row t) [Text k] c) = Inr rs \<Longrightarrow> map snd rs = (case rows c t k of None \<Rightarrow> [] | Some v \<Rightarrow> [v])"
    and "exec cl (Put_row t) [Buffer v, Text k] c = (Inr rs, c') \<Longrightarrow> writes rows t (\<lambda>m. m(k \<mapsto> v)) c c'"
    and "exec cl (Insert_row t) [Text k, Buffer v] c = (Inr rs, c') \<Longrightarrow> writes rows t (\<lambda>m. m(k \<mapsto> v)) c c'"
    and "exec cl (Del_row t) [Text k] c = (Inr rs, c') \<Longrightarrow> writes rows t (\<lambda>m. m(k := None)) c c'"
  using assms unfolding cql_documented_def by (elim conjE; simp)+

lemma of_err_done: "of_err (err_of p) = (x, c') \<Longrightarrow> (\<And>e. x \<noteq> Failed e) \<Longrightarrow> \<exists>rs. p = (Inr rs, c') \<and> x = Done"
  by (cases p; cases "fst p") (auto simp: of_err_def err_of_def)

lemma run_op_refines:
  assumes cl: "cql_documented cl rows" and op: "sound_op op" and r: "run_op cl sy op c = (x, c')" and ok: "\<And>e. x \<noteq> Failed e"
  shows "(x, rows c' (sy_table sy)) = map_op cl op (rows c (sy_table sy)) \<and> (\<forall>t. t \<noteq> sy_table sy \<longrightarrow> rows c' t = rows c t)"
proof (cases op)
  case (S_get k b)
  let ?r = "exec cl (Get_row (sy_table sy)) [Text k] c"
  obtain a c1 where ac: "?r = (a, c1)" by fastforce
  have g: "rows c1 = rows c" "\<And>rs. a = Inr rs \<Longrightarrow> map snd rs = (case rows c (sy_table sy) k of None \<Rightarrow> [] | Some v \<Rightarrow> [v])"
    using cql_laws(1,2) [OF cl, of "sy_table sy" k c] ac by simp_all
  show ?thesis
  proof (cases a)
    case (Inl e)
    then show ?thesis using S_get r ok ac by (auto simp: run_op_def scylla_get_def)
  next
    case (Inr rs)
    then show ?thesis
      using S_get r ac g by (cases rs; cases "rows c (sy_table sy) k") (auto simp: run_op_def scylla_get_def map_op_def)
  qed
next
  case (S_put k v ins)
  let ?b = "case v of Buffer b \<Rightarrow> b | Text s \<Rightarrow> encode cl s"
  have b: "as_buffer cl v = Buffer ?b" by (simp add: as_buffer_def split: data.splits)
  have "writes rows (sy_table sy) (\<lambda>m. m(k \<mapsto> ?b)) c c' \<and> x = Done"
  proof (cases ins)
    case True
    then have "of_err (err_of (exec cl (Insert_row (sy_table sy)) [Text k, Buffer ?b] c)) = (x, c')"
      using S_put r by (simp add: run_op_def scylla_put_def scylla_insert_def b)
    from of_err_done [OF this ok] obtain rs where "exec cl (Insert_row (sy_table sy)) [Text k, Buffer ?b] c = (Inr rs, c')" "x = Done" by blast
    then show ?thesis using cql_laws(4) [OF cl] by simp
  next
    case False
    then have "of_err (err_of (exec cl (Put_row (sy_table sy)) [Buffer ?b, Text k] c)) = (x, c')"
      using S_put r by (simp add: run_op_def scylla_put_def b)
    from of_err_done [OF this ok] obtain rs where "exec cl (Put_row (sy_table sy)) [Buffer ?b, Text k] c = (Inr rs, c')" "x = Done" by blast
    then show ?thesis using cql_laws(3) [OF cl] by simp
  qed
  then show ?thesis using S_put by (simp add: map_op_def apply_op_def writes_def)
next
  case (S_del k)
  have "of_err (err_of (exec cl (Del_row (sy_table sy)) [Text k] c)) = (x, c')"
    using S_del r by (simp add: run_op_def scylla_del_def)
  from of_err_done [OF this ok] obtain rs where "exec cl (Del_row (sy_table sy)) [Text k] c = (Inr rs, c')" "x = Done" by blast
  then have "writes rows (sy_table sy) (\<lambda>m. m(k := None)) c c' \<and> x = Done" using cql_laws(5) [OF cl] by simp
  then show ?thesis using S_del by (simp add: map_op_def apply_op_def writes_def)
next
  case (S_batch ops)
  have x: "x = Done" using S_batch r ok by (auto simp: run_op_def of_err_def split: option.splits prod.splits)
  show ?thesis
  proof (cases "ops = []")
    case True
    then show ?thesis using S_batch r by (auto simp: run_op_def of_err_def scylla_batch_def map_op_def)
  next
    case False
    then have "exec_batch cl (map (batch_stmt sy) ops) c = (None, c')"
      using S_batch r ok by (auto simp: run_op_def of_err_def scylla_batch_def split: option.splits prod.splits)
    moreover have "sound_batch ops" using S_batch op by (simp add: sound_op_def)
    ultimately have "writes rows (sy_table sy) (fold (apply_op cl) ops) c c'" using cl unfolding cql_documented_def by blast
    then show ?thesis using S_batch x by (simp add: map_op_def writes_def)
  qed
qed

text \<open>
  C11: On a cluster that keeps CQL's promises the store is a map: any sequence of gets, puts, deletions
  and batches that meets no error, and whose batches put and delete different keys, answers exactly as
  on a map of keys to values, leaves the table as that map, and no other table changes. The operations
  of one CQL batch have one timestamp, so on one key they would not be done in their order.
\<close>

theorem storage_refines_map:
  assumes "cql_documented cl rows" and "list_all sound_op ops"
    and "run_ops (run_op cl sy) ops c = (xs, c')" and "\<And>e. Failed e \<notin> set xs"
  shows "run_ops (map_op cl) ops (rows c (sy_table sy)) = (xs, rows c' (sy_table sy)) \<and>
    (\<forall>t. t \<noteq> sy_table sy \<longrightarrow> rows c' t = rows c t)"
  using assms(2-)
proof (induction ops arbitrary: c xs)
  case (Cons op ops)
  obtain x c1 where 1: "run_op cl sy op c = (x, c1)" by fastforce
  obtain ys where 2: "run_ops (run_op cl sy) ops c1 = (ys, c')" and xs: "xs = x # ys"
    using Cons.prems(2) 1 by (auto split: prod.splits)
  have "(x, rows c1 (sy_table sy)) = map_op cl op (rows c (sy_table sy)) \<and> (\<forall>t. t \<noteq> sy_table sy \<longrightarrow> rows c1 t = rows c t)"
    by (rule run_op_refines [OF assms(1) _ 1]) (use Cons.prems(1,3) xs in auto)
  moreover have "run_ops (map_op cl) ops (rows c1 (sy_table sy)) = (ys, rows c' (sy_table sy)) \<and>
      (\<forall>t. t \<noteq> sy_table sy \<longrightarrow> rows c' t = rows c1 t)"
    by (rule Cons.IH [OF _ 2]) (use Cons.prems(1,3) xs in auto)
  ultimately show ?case using xs by (auto split: prod.splits)
qed simp

section \<open>The iterator\<close>

fun it_run :: "('c, 'e) cluster \<Rightarrow> scylla \<Rightarrow> nat \<Rightarrow> iterator \<Rightarrow> 'c \<Rightarrow> ('e + (data \<times> data) option) list \<times> iterator \<times> 'c" where
  "it_run cl sy 0 it c = ([], it, c)"
| "it_run cl sy (Suc n) it c =
    (case it_next cl sy it c of (x, it1, c1) \<Rightarrow> (case it_run cl sy n it1 c1 of (xs, it2, c2) \<Rightarrow> (x # xs, it2, c2)))"

lemma it_item_cursor [simp]: "it_item cl (it\<lparr>it_cursor := x\<rparr>) = it_item cl it"
  by (simp add: it_item_def [abs_def])

lemma it_run_cursor:
  "it_cursor it = Some rows \<Longrightarrow> \<exists>it'. it_run cl sy (Suc (length rows)) it c = (map (\<lambda>r. Inr (Some (it_item cl it r))) rows @ [Inr None], it', c)"
proof (induction rows arbitrary: it)
  case Nil
  then show ?case by (simp add: it_next_def it_step_def)
next
  case (Cons r rows)
  let ?it = "it\<lparr>it_cursor := Some rows\<rparr>"
  have "it_next cl sy it c = (Inr (Some (it_item cl it r)), ?it, c)" using Cons.prems by (simp add: it_next_def it_step_def)
  moreover obtain it' where "it_run cl sy (Suc (length rows)) ?it c = (map (\<lambda>r. Inr (Some (it_item cl ?it r))) rows @ [Inr None], it', c)"
    using Cons.IH [of ?it] by auto
  ultimately show ?case by (simp del: it_run.simps(2) add: it_run.simps(2) [of cl sy "Suc (length rows)"])
qed

text \<open>
  The iterator of the store reads every key of the table exactly once with its value, then ends, with
  one query; between its steps the cluster is left alone.
\<close>

theorem iterator_reads_table:
  assumes "cql_documented cl rows" and "exec cl (Select_all (sy_table sy)) [] c = (Inr rs, c1)"
    and "it_cursor it = None"
  shows "(\<exists>it'. it_run cl sy (Suc (length rs)) it c =
      (map (\<lambda>r. Inr (Some (it_item cl it r))) rs @ [Inr None], it', c1)) \<and>
    distinct (map fst rs) \<and> map_of rs = rows c (sy_table sy) \<and> rows c1 = rows c"
proof -
  have "distinct (map fst rs) \<and> map_of rs = rows c (sy_table sy) \<and> rows c1 = rows c"
    using assms(1,2) unfolding cql_documented_def by blast
  moreover have "\<exists>it'. it_run cl sy (Suc (length rs)) it c = (map (\<lambda>r. Inr (Some (it_item cl it r))) rs @ [Inr None], it', c1)"
  proof (cases rs)
    case Nil
    then show ?thesis using assms(2,3) by (simp add: it_next_def it_step_def)
  next
    case (Cons r rs')
    let ?it = "it\<lparr>it_cursor := Some rs'\<rparr>"
    have "it_next cl sy it c = (Inr (Some (it_item cl it r)), ?it, c1)"
      using assms(2,3) Cons by (simp add: it_next_def it_step_def)
    moreover obtain it' where "it_run cl sy (Suc (length rs')) ?it c1 = (map (\<lambda>r. Inr (Some (it_item cl ?it r))) rs' @ [Inr None], it', c1)"
      using it_run_cursor [of ?it rs' cl sy c1] by auto
    ultimately show ?thesis using Cons by (simp del: it_run.simps(2) add: it_run.simps(2) [of cl sy "Suc (length rs')"])
  qed
  ultimately show ?thesis by blast
qed

section \<open>A concrete cluster\<close>

type_synonym tables = "string \<Rightarrow> row list"

definition put_row :: "string \<Rightarrow> bytes \<Rightarrow> row list \<Rightarrow> row list" where
  "put_row k v rs = (k, v) # [r \<leftarrow> rs. fst r \<noteq> k]"

fun table_exec :: "stmt \<Rightarrow> data list \<Rightarrow> tables \<Rightarrow> (string + row list) \<times> tables" where
  "table_exec (Get_row t) [Text k] c = (Inr (case map_of (c t) k of None \<Rightarrow> [] | Some v \<Rightarrow> [([], v)]), c)"
| "table_exec (Put_row t) [Buffer v, Text k] c = (Inr [], c(t := put_row k v (c t)))"
| "table_exec (Insert_row t) [Text k, Buffer v] c = (Inr [], c(t := put_row k v (c t)))"
| "table_exec (Del_row t) [Text k] c = (Inr [], c(t := [r \<leftarrow> c t. fst r \<noteq> k]))"
| "table_exec (Select_all t) [] c = (if distinct (map fst (c t)) then (Inr (c t), c) else (Inl ''corrupt'', c))"
| "table_exec (Create_keyspace ks n) [] c = (Inr [], c)"
| "table_exec (Create_table ks t) [] c = (Inr [], c)"
| "table_exec s ps c = (Inl ''invalid'', c)"

definition demo_encode :: "string \<Rightarrow> bytes" where
  "demo_encode s = map of_char s"

definition demo_decode :: "bytes \<Rightarrow> string" where
  "demo_decode b = map char_of b"

fun demo_batch :: "(stmt \<times> data list) option list \<Rightarrow> tables \<Rightarrow> string option \<times> tables" where
  "demo_batch [] c = (None, c)"
| "demo_batch (None # ops) c = (Some ''invalid'', c)"
| "demo_batch (Some (s, ps) # ops) c =
    (case table_exec s (case ps of [Text v, Text k] \<Rightarrow> [Buffer (demo_encode v), Text k] | _ \<Rightarrow> ps) c of
       (Inl e, c1) \<Rightarrow> (Some e, c1)
     | (Inr _, c1) \<Rightarrow> demo_batch ops c1)"

definition demo_cluster :: "(tables, string) cluster" where
  "demo_cluster = \<lparr>exec = table_exec, exec_batch = demo_batch, encode = demo_encode, decode = demo_decode\<rparr>"

definition demo_rows :: "tables \<Rightarrow> string \<Rightarrow> string \<rightharpoonup> bytes" where
  "demo_rows c t = map_of (c t)"

lemma del_row_map: "map_of [r \<leftarrow> rs. fst r \<noteq> k] = (map_of rs)(k := None)"
  by (induction rs) (auto simp: fun_eq_iff)

lemma put_row_map: "map_of (put_row k v rs) = (map_of rs)(k \<mapsto> v)"
  by (simp add: put_row_def del_row_map)

lemma writes_trans: "writes rows t f c c1 \<Longrightarrow> writes rows t g c1 c2 \<Longrightarrow> writes rows t (\<lambda>m. g (f m)) c c2"
  by (simp add: writes_def)

lemma demo_writes:
  "writes demo_rows t (\<lambda>m. m(k \<mapsto> v)) c (c(t := put_row k v (c t)))"
  "writes demo_rows t (\<lambda>m. m(k := None)) c (c(t := [r \<leftarrow> c t. fst r \<noteq> k]))"
  by (auto simp: writes_def demo_rows_def fun_eq_iff put_row_map del_row_map)

lemma apply_put: "apply_op demo_cluster (Put_op k v) = (\<lambda>m. m(k \<mapsto> (case v of Buffer b \<Rightarrow> b | Text s \<Rightarrow> demo_encode s)))"
  by (cases v) (simp_all add: fun_eq_iff apply_op_def demo_cluster_def)

lemma apply_del: "apply_op cl (Del_op k) = (\<lambda>m. m(k := None))"
  by (rule ext) (simp add: apply_op_def)

lemma demo_batch_writes:
  "Other_op \<notin> set ops \<Longrightarrow> demo_batch (map (batch_stmt sy) ops) c = (None, c') \<Longrightarrow>
    writes demo_rows (sy_table sy) (fold (apply_op demo_cluster) ops) c c'"
proof (induction ops arbitrary: c)
  case (Cons op ops)
  show ?case
  proof (cases op)
    case (Put_op k v)
    let ?b = "case v of Buffer b \<Rightarrow> b | Text s \<Rightarrow> demo_encode s"
    have "writes demo_rows (sy_table sy) (fold (apply_op demo_cluster) ops) (c(sy_table sy := put_row k ?b (c (sy_table sy)))) c'"
      using Cons Put_op by (cases v) (auto simp: batch_stmt_def)
    from writes_trans [OF demo_writes(1) this] show ?thesis
      using Put_op by (simp add: apply_put comp_def)
  next
    case (Del_op k)
    have "writes demo_rows (sy_table sy) (fold (apply_op demo_cluster) ops) (c(sy_table sy := [r \<leftarrow> c (sy_table sy). fst r \<noteq> k])) c'"
      using Cons Del_op by (auto simp: batch_stmt_def)
    from writes_trans [OF demo_writes(2) this] show ?thesis
      using Del_op by (simp add: apply_del comp_def)
  qed (use Cons.prems in auto)
qed (simp add: writes_def)

lemma demo_documented: "cql_documented demo_cluster demo_rows"
  unfolding cql_documented_def
proof (intro conjI allI impI)
  fix sy :: scylla and ops c c'
  assume "sound_batch ops" "exec_batch demo_cluster (map (batch_stmt sy) ops) c = (None, c')"
  then show "writes demo_rows (sy_table sy) (fold (apply_op demo_cluster) ops) c c'"
    using demo_batch_writes by (simp add: sound_batch_def demo_cluster_def)
qed (auto simp: demo_cluster_def demo_rows_def [abs_def] intro: demo_writes [unfolded demo_rows_def [abs_def]] split: option.splits if_splits)

definition demo_store :: scylla where
  "demo_store = new_scylla ''My Timers''"

lemma demo_store_table: "sy_table demo_store = ''my_timers''"
  by code_simp

lemma storage_refines_map_witness:
  "\<exists>c'. run_ops (run_op demo_cluster demo_store) [S_put ''k'' (Text ''v'') False, S_get ''k'' False, S_batch [Del_op ''k''], S_get ''k'' True]
      (\<lambda>t. []) = ([Done, Got (Text ''v''), Done, Missing], c') \<and>
    run_ops (map_op demo_cluster) [S_put ''k'' (Text ''v'') False, S_get ''k'' False, S_batch [Del_op ''k''], S_get ''k'' True]
      (demo_rows (\<lambda>t. []) ''my_timers'') = ([Done, Got (Text ''v''), Done, Missing], demo_rows c' ''my_timers'')"
proof -
  let ?ops = "[S_put ''k'' (Text ''v'') False, S_get ''k'' False, S_batch [Del_op ''k''], S_get ''k'' True]"
  have dec: "demo_decode (demo_encode ''v'') = ''v''" by code_simp
  obtain xs c' where r: "run_ops (run_op demo_cluster demo_store) ?ops (\<lambda>t. []) = (xs, c')" by fastforce
  have xs: "xs = [Done, Got (Text ''v''), Done, Missing]"
    using r dec by (simp add: run_op_def of_err_def err_of_def scylla_put_def scylla_get_def scylla_batch_def batch_stmt_def
        as_buffer_def demo_cluster_def put_row_def demo_store_table)
  show ?thesis
    using storage_refines_map [OF demo_documented _ r] r unfolding xs demo_store_table
    by (auto simp: sound_op_def sound_batch_def)
qed

lemma iterator_reads_table_witness:
  "\<exists>it'. it_run demo_cluster demo_store (Suc (Suc 0)) (new_iterator None (Some True)) (\<lambda>t. [(''k'', [1])]) =
    ([Inr (Some (Text ''k'', Buffer [1])), Inr None], it', \<lambda>t. [(''k'', [1])])"
proof -
  have "exec demo_cluster (Select_all (sy_table demo_store)) [] (\<lambda>t. [(''k'', [1])]) = (Inr [(''k'', [1])], \<lambda>t. [(''k'', [1])])"
    by (simp add: demo_cluster_def)
  from iterator_reads_table [OF demo_documented this, of "new_iterator None (Some True)"] show ?thesis
    by (simp add: new_iterator_def it_item_def)
qed

section \<open>Names of tables\<close>

text \<open>A table's name holds only lower-case letters, digits and underscores, whatever the location.\<close>

lemma underscores_chars: "c \<in> set (underscores g s) \<Longrightarrow> c = CHR ''_'' \<or> (c \<in> set s \<and> \<not> isGap c)"
  by (induction g s rule: underscores.induct) (auto split: if_splits)

lemma trim_set: "set (trim s) \<subseteq> set s"
proof -
  have "set (dropWhile isSpace (rev (dropWhile isSpace s))) \<subseteq> set (rev (dropWhile isSpace s))" by (auto dest: set_dropWhileD)
  also have "\<dots> \<subseteq> set s" by (auto dest: set_dropWhileD)
  finally show ?thesis by (simp add: trim_def)
qed

lemma to_lower_word: "isWord c \<Longrightarrow> isWord (to_lower c) \<and> \<not> (65 \<le> (of_char (to_lower c) :: nat) \<and> (of_char (to_lower c) :: nat) \<le> 90)"
  by (auto simp: to_lower_def isWord_def Let_def)

lemma word_underscore: "isWord CHR ''_''"
  by code_simp

lemma slugify_safe:
  "list_all (\<lambda>c. isWord c \<and> \<not> (65 \<le> (of_char c :: nat) \<and> (of_char c :: nat) \<le> 90)) (slugify str)"
proof -
  define X where "X = [c \<leftarrow> str. isWord c \<or> isGap c]"
  have "isWord c" if c: "c \<in> set (underscores False (trim X))" for c
  proof (cases "c = CHR ''_''")
    case True
    then show ?thesis by (simp only: word_underscore)
  next
    case False
    then have "c \<in> set (trim X)" "\<not> isGap c" using underscores_chars [OF c] by blast+
    then have "c \<in> set X" using subsetD [OF trim_set] by simp
    then show ?thesis using \<open>\<not> isGap c\<close> by (simp add: X_def)
  qed
  then show ?thesis
    using to_lower_word unfolding slugify_def toLowerCase_def X_def [symmetric] list_all_iff by simp
qed

text \<open>Two locations can share a table.\<close>

lemma slugify_collides: "slugify ''a-b'' = slugify ''A b!''"
  by code_simp

text \<open>Without \<open>valueAsBuffer\<close> the iterator hands out a buffer all the same, where \<open>get\<close> gives the text.\<close>

lemma iterator_ignores_value_option:
  "snd (it_item cl (new_iterator None (Some False)) (k, v)) = Buffer v"
  by (simp add: it_item_def)

end
