(* ===== verification/Socket_Transports.thy ===== *)
theory Socket_Transports
  imports Transports
begin

text \<open>
  The transports over sockets: ZeroMQ (\<open>packages/zmq-transport/lib/zmq.js\<close>) with one socket for every
  address, and TCP (\<open>packages/tcp-transport/lib/tcp.js\<close>) with one pool of connections for every
  address. What becomes of binding a socket, of a pool's connection and of a write are arguments; sockets and
  pools are numbers. A report is the \<open>success\<close> or \<open>failure\<close> of the timers.
\<close>

section \<open>ZeroMQ\<close>

record zmq_socket =
  zs_id :: nat
  zs_type :: string

record zmq =
  zq_bind :: bool
  zq_connections :: "zmq_socket dict"
  zq_nextId :: nat
  zq_sent :: "(nat \<times> json) list"
  zq_closed :: "nat list"

definition new_zmq :: "bool option \<Rightarrow> bool \<Rightarrow> zmq" where
  "new_zmq bind env_bind =
     \<lparr>zq_bind = (case bind of Some b \<Rightarrow> b | None \<Rightarrow> env_bind), zq_connections = [], zq_nextId = 0,
      zq_sent = [], zq_closed = []\<rparr>"

definition zmq_methods :: "string list" where
  "zmq_methods = [''push'', ''pub'']"

datatype zmq_error = ENOZMQTYPE string string | Bind_error string

text \<open>\<open>connection\<close>: the socket, or null and an error. The last argument is what \<open>bindSync\<close> throws.\<close>

definition zmq_connection :: "string \<Rightarrow> string \<Rightarrow> string option \<Rightarrow> zmq \<Rightarrow> (zmq_socket option \<times> zmq_error option) \<times> zmq" where
  "zmq_connection addr ty bound z =
    (case dget (zq_connections z) addr of
       Some s \<Rightarrow> ((Some s, None), z)
     | None \<Rightarrow>
        if ty \<notin> set zmq_methods then ((None, Some (ENOZMQTYPE ty addr)), z)
        else
          let s = \<lparr>zs_id = zq_nextId z, zs_type = ty\<rparr>; z1 = z\<lparr>zq_nextId := Suc (zq_nextId z)\<rparr>;
              opened = ((Some s, None), z1\<lparr>zq_connections := dset addr s (zq_connections z1)\<rparr>)
          in if zq_bind z
             then (case bound of
                     Some e \<Rightarrow> ((None, Some (Bind_error e)), z1\<lparr>zq_closed := zq_closed z1 @ [zs_id s]\<rparr>)
                   | None \<Rightarrow> opened)
             else opened)"

definition zmq_exec :: "exec_call \<Rightarrow> string option \<Rightarrow> zmq \<times> timers \<Rightarrow> zmq \<times> timers" where
  "zmq_exec c bound st =
    (case zmq_connection (x_uri c) (x_method c) bound (fst st) of
       ((None, _), z) \<Rightarrow> (z, failure (x_id c) ''ENOZMQCONN'' None (snd st))
     | ((Some s, Some e), z) \<Rightarrow> (z, failure (x_id c) ''error'' None (snd st))
     | ((Some s, None), z) \<Rightarrow> (z\<lparr>zq_sent := zq_sent z @ [(zs_id s, x_data c)]\<rparr>, success (x_id c) None (snd st)))"

text \<open>A socket's error closes it and forgets the address; a shutdown does so with all.\<close>

definition zmq_onError :: "string \<Rightarrow> nat \<Rightarrow> zmq \<Rightarrow> zmq" where
  "zmq_onError addr s z = z\<lparr>zq_closed := zq_closed z @ [s], zq_connections := ddel addr (zq_connections z)\<rparr>"

definition zmq_shutdown :: "zmq \<Rightarrow> zmq" where
  "zmq_shutdown z = fold (\<lambda>(addr, s) z. zmq_onError addr (zs_id s) z) (zq_connections z) z"

section \<open>TCP\<close>

datatype tcp_task = Acquiring nat exec_call | Writing nat exec_call

record tcp =
  tc_pools :: "nat dict"
  tc_nextId :: nat
  tc_work :: "tcp_task list"
  tc_written :: "(nat \<times> string) list"
  tc_destroyed :: "nat list"

definition new_tcp :: tcp where
  "new_tcp = \<lparr>tc_pools = [], tc_nextId = 0, tc_work = [], tc_written = [], tc_destroyed = []\<rparr>"

definition tcp_getPool :: "string \<Rightarrow> tcp \<Rightarrow> nat \<times> tcp" where
  "tcp_getPool addr tc =
    (case dget (tc_pools tc) addr of
       Some p \<Rightarrow> (p, tc)
     | None \<Rightarrow> (tc_nextId tc, tc\<lparr>tc_pools := dset addr (tc_nextId tc) (tc_pools tc), tc_nextId := Suc (tc_nextId tc)\<rparr>))"

definition tcp_exec :: "exec_call \<Rightarrow> tcp \<Rightarrow> tcp" where
  "tcp_exec c tc =
    (case tcp_getPool (x_uri c) tc of (p, tc1) \<Rightarrow> tc1\<lparr>tc_work := tc_work tc1 @ [Acquiring p c]\<rparr>)"

definition drop_task :: "nat \<Rightarrow> tcp \<Rightarrow> tcp" where
  "drop_task i tc = tc\<lparr>tc_work := take i (tc_work tc) @ drop (Suc i) (tc_work tc)\<rparr>"

text \<open>
  What is written of a payload: the text of an object or an array, or the payload as a string, and a newline.
  \<^theory_text>\<open>str\<close> stands for \<open>JSON.stringify\<close>, which writes null, booleans and integers as a string's
  concatenation does.
\<close>

definition tcp_line :: "(json \<Rightarrow> string) \<Rightarrow> json \<Rightarrow> string" where
  "tcp_line str v = (case v of JStr s \<Rightarrow> s | JUndefined \<Rightarrow> ''undefined'' | _ \<Rightarrow> str v) @ [CHR 10]"

text \<open>The pool's promise: a connection, to which the payload is written, or a rejection.\<close>

definition tcp_onAcquired :: "(json \<Rightarrow> string) \<Rightarrow> bool \<Rightarrow> nat \<Rightarrow> tcp \<times> timers \<Rightarrow> tcp \<times> timers" where
  "tcp_onAcquired str ok i st =
    (case tc_work (fst st) ! i of
       Acquiring p c \<Rightarrow>
         if ok then ((fst st)\<lparr>tc_work := (tc_work (fst st))[i := Writing p c],
                              tc_written := tc_written (fst st) @ [(p, tcp_line str (x_data c))]\<rparr>, snd st)
         else (drop_task i (fst st), failure (x_id c) ''ETCPERR'' None (snd st))
     | Writing p c \<Rightarrow> st)"

text \<open>The callback of the write does not look at its error.\<close>

definition tcp_onWritten :: "string option \<Rightarrow> nat \<Rightarrow> tcp \<times> timers \<Rightarrow> tcp \<times> timers" where
  "tcp_onWritten err i st =
    (case tc_work (fst st) ! i of
       Writing p c \<Rightarrow> (drop_task i (fst st), success (x_id c) None (snd st))
     | Acquiring p c \<Rightarrow> st)"

text \<open>A connection's error forgets the address; the pool itself lives on.\<close>

definition tcp_onError :: "string \<Rightarrow> tcp \<Rightarrow> tcp" where
  "tcp_onError addr tc = tc\<lparr>tc_pools := ddel addr (tc_pools tc)\<rparr>"

text \<open>A step of the shutdown: the pool of an address is drained and cleared.\<close>

definition tcp_onDrained :: "string \<Rightarrow> tcp \<Rightarrow> tcp" where
  "tcp_onDrained addr tc =
    (case dget (tc_pools tc) addr of
       None \<Rightarrow> tc
     | Some p \<Rightarrow> tc\<lparr>tc_destroyed := tc_destroyed tc @ [p], tc_pools := ddel addr (tc_pools tc)\<rparr>)"

section \<open>Functions\<close>

text \<open>The transport for tests calls a function in the next turn, then reports.\<close>

definition callback_exec :: "exec_call \<Rightarrow> exec_call list \<Rightarrow> exec_call list" where
  "callback_exec c queue = queue @ [c]"

definition callback_turn :: "exec_call list \<times> timers \<Rightarrow> exec_call list \<times> timers" where
  "callback_turn st =
    (case fst st of [] \<Rightarrow> st | c # cs \<Rightarrow> (cs, success (x_id c) None (snd st)))"

section \<open>Facts\<close>

lemma zmq_connection_none:
  "zmq_connection addr ty bound z = ((None, e), z') \<Longrightarrow> zq_connections z' = zq_connections z \<and> zq_sent z' = zq_sent z"
  by (auto simp: zmq_connection_def Let_def split: option.splits if_splits)

lemma zmq_connection_some:
  "zmq_connection addr ty bound z = ((Some s, e), z') \<Longrightarrow>
    e = None \<and> dget (zq_connections z') addr = Some s \<and> zq_sent z' = zq_sent z"
  by (auto simp: zmq_connection_def Let_def split: option.splits if_splits)

text \<open>
  A ZeroMQ execution is reported at once and once: it succeeds, with its payload sent over the one
  socket kept for its address, or it fails with nothing sent and no socket kept; an address without a socket fails exactly
  for an unknown method or when its socket cannot be bound.
\<close>

lemma zmq_exec_correct:
  "let (z', t') = zmq_exec c bound (z, t); addr = x_uri c;
       refused = (dget (zq_connections z) addr = None \<and> (x_method c \<notin> set zmq_methods \<or> zq_bind z \<and> bound \<noteq> None))
   in if refused
      then t' = failure (x_id c) ''ENOZMQCONN'' None t \<and> zq_connections z' = zq_connections z \<and> zq_sent z' = zq_sent z
      else t' = success (x_id c) None t \<and>
        (\<exists>s. dget (zq_connections z') addr = Some s \<and> zq_sent z' = zq_sent z @ [(zs_id s, x_data c)] \<and>
          (dget (zq_connections z) addr \<noteq> None \<longrightarrow> dget (zq_connections z) addr = Some s))"
  by (auto simp: zmq_exec_def zmq_connection_def Let_def split: option.splits if_splits)

text \<open>The reason of a refusal never reaches the timers, and a socket of another type is used again.\<close>

lemma zmq_type_ignored:
  "dget (zq_connections z) (x_uri c) = Some s \<Longrightarrow> x_method c \<noteq> zs_type s \<Longrightarrow>
    snd (zmq_exec c bound (z, t)) = success (x_id c) None t"
  by (simp add: zmq_exec_def zmq_connection_def)

text \<open>Runs of the TCP transport, with the executions asked for and those reported.\<close>

datatype tcp_report = Succeeded string | Gave_up string

inductive tcp_run :: "string multiset \<Rightarrow> string multiset \<Rightarrow> tcp \<Rightarrow> timers \<Rightarrow> bool" where
  start: "tcp_run {#} {#} new_tcp t"
| exec: "tcp_run asked reported tc t \<Longrightarrow> tcp_run (add_mset (x_id c) asked) reported (tcp_exec c tc) t"
| acquired: "tcp_run asked reported tc t \<Longrightarrow> i < length (tc_work tc) \<Longrightarrow> tc_work tc ! i = Acquiring p c \<Longrightarrow>
    tcp_onAcquired str ok i (tc, t) = (tc', t') \<Longrightarrow>
    tcp_run asked (if ok then reported else add_mset (x_id c) reported) tc' t'"
| written: "tcp_run asked reported tc t \<Longrightarrow> i < length (tc_work tc) \<Longrightarrow> tc_work tc ! i = Writing p c \<Longrightarrow>
    tcp_onWritten err i (tc, t) = (tc', t') \<Longrightarrow> tcp_run asked (add_mset (x_id c) reported) tc' t'"
| error: "tcp_run asked reported tc t \<Longrightarrow> tcp_run asked reported (tcp_onError addr tc) t"
| drained: "tcp_run asked reported tc t \<Longrightarrow> tcp_run asked reported (tcp_onDrained addr tc) t"

fun task_id :: "tcp_task \<Rightarrow> string" where
  "task_id (Acquiring p c) = x_id c"
| "task_id (Writing p c) = x_id c"

lemma drop_mset: "i < length xs \<Longrightarrow> mset (take i xs @ drop (Suc i) xs) = mset xs - {#xs ! i#}"
proof -
  assume "i < length xs"
  then have "mset xs = mset (take i xs @ xs ! i # drop (Suc i) xs)" by (simp add: id_take_nth_drop [symmetric])
  then show ?thesis by simp
qed

lemma drop_task_ids:
  "i < length (tc_work tc) \<Longrightarrow>
    add_mset (task_id (tc_work tc ! i)) (mset (map task_id (tc_work (drop_task i tc)))) = mset (map task_id (tc_work tc))"
proof -
  assume i: "i < length (tc_work tc)"
  have "add_mset (tc_work tc ! i) (mset (tc_work (drop_task i tc))) = mset (tc_work tc)"
    using i by (simp add: drop_task_def drop_mset del: mset_append)
  then show ?thesis by (metis image_mset_add_mset mset_map)
qed

lemma update_ids: "i < length ts \<Longrightarrow> task_id (ts ! i) = task_id u \<Longrightarrow> map task_id (ts[i := u]) = map task_id ts"
  by (simp add: map_update list_update_same_conv)

lemma tcp_work_simps [simp]:
  "tc_work (tcp_exec c tc) = tc_work tc @ [Acquiring (fst (tcp_getPool (x_uri c) tc)) c]"
  "tc_work (tcp_onError addr tc) = tc_work tc"
  "tc_work (tcp_onDrained addr tc) = tc_work tc"
  by (auto simp: tcp_exec_def tcp_getPool_def tcp_onError_def tcp_onDrained_def split: prod.splits option.splits)

lemma tcp_accounts:
  "tcp_run asked reported tc t \<Longrightarrow> asked = reported + mset (map task_id (tc_work tc))"
proof (induction rule: tcp_run.induct)
  case (acquired asked reported tc t i p c str ok tc' t')
  show ?case
  proof (cases ok)
    case True
    then have "tc_work tc' = (tc_work tc)[i := Writing p c]"
      using acquired.hyps by (auto simp: tcp_onAcquired_def)
    moreover have "map task_id ((tc_work tc)[i := Writing p c]) = map task_id (tc_work tc)"
      using acquired.hyps by (intro update_ids) auto
    ultimately show ?thesis using acquired.IH True by simp
  next
    case False
    then have "tc' = drop_task i tc" using acquired.hyps by (auto simp: tcp_onAcquired_def)
    then show ?thesis using acquired.IH False acquired.hyps drop_task_ids [of i tc] by simp
  qed
next
  case (written asked reported tc t i p c err tc' t')
  then have "tc' = drop_task i tc" by (auto simp: tcp_onWritten_def)
  then show ?case using written.IH written.hyps drop_task_ids [of i tc] by simp
qed (simp_all add: new_tcp_def)

text \<open>
  However a TCP transport's acquisitions, writes, connection errors and shutdowns interleave, every
  execution asked for is either still being acquired or written or has been reported to the timers, each as often as it was
  asked for; once nothing is in progress every one has been reported exactly as often as it was asked for.
\<close>

theorem tcp_reports_once:
  "tcp_run asked reported tc t \<Longrightarrow>
    asked = reported + mset (map task_id (tc_work tc)) \<and> (tc_work tc = [] \<longrightarrow> reported = asked)"
  using tcp_accounts by fastforce

definition demo_task :: exec_call where
  "demo_task = \<lparr>x_transport = ''tcp'', x_method = ''push'', x_uri = ''tcp://h:1'', x_data = JStr ''d'', x_id = ''t1''\<rparr>"

lemma demo_tcp_run:
  "tcp_run {#''t1''#} {#''t1''#}
     \<lparr>tc_pools = [(''tcp://h:1'', 0)], tc_nextId = 1, tc_work = [], tc_written = [(0, ''d'' @ [CHR 10])], tc_destroyed = []\<rparr>
     (success ''t1'' None (new_timers ''n1'' [''tcp''] []))"
proof -
  let ?t = "new_timers ''n1'' [''tcp''] []"
  let ?w = "\<lparr>tc_pools = [(''tcp://h:1'', 0)], tc_nextId = 1, tc_work = [Writing 0 demo_task],
    tc_written = [(0, ''d'' @ [CHR 10])], tc_destroyed = []\<rparr>"
  have 1: "tcp_run {#''t1''#} {#} (tcp_exec demo_task new_tcp) ?t"
    using tcp_run.exec [OF tcp_run.start [of ?t], of demo_task] by (simp add: demo_task_def)
  have 2: "tcp_onAcquired (\<lambda>v. []) True 0 (tcp_exec demo_task new_tcp, ?t) = (?w, ?t)"
    by (simp add: tcp_onAcquired_def tcp_exec_def tcp_getPool_def new_tcp_def tcp_line_def demo_task_def)
  have 3: "tcp_run {#''t1''#} {#} ?w ?t"
    using tcp_run.acquired [OF 1 _ _ 2, of 0 demo_task] by (simp add: tcp_exec_def tcp_getPool_def new_tcp_def)
  show ?thesis
    using tcp_run.written [OF 3, of 0 0 demo_task None] by (simp add: tcp_onWritten_def drop_task_def demo_task_def)
qed

theorem tcp_reports_once_witness:
  "\<exists>tc t. tcp_run {#''t1''#} {#''t1''#} tc t \<and> tc_written tc = [(0, ''d'' @ [CHR 10])] \<and>
     {#''t1''#} = {#''t1''#} + mset (map task_id (tc_work tc)) \<and> tc_work tc = []"
  using demo_tcp_run tcp_reports_once [OF demo_tcp_run] by (intro exI conjI) (assumption, simp_all)

end
