(* ===== verification/Trace.thy ===== *)
theory Trace
  imports Prelude
begin

text \<open>
  Tracing: the store of the tracers (\<open>lib/trace/store.js\<close>), what tracers share
  (\<open>lib/trace/core.js\<close>), tracers to the log and to another service (\<open>lib/trace/log.js\<close>,
  \<open>lib/trace/tchannel.js\<close>), and the endpoints that add and remove them (\<open>server/trace.js\<close>).

  A tracer is a number into the list of the tracers made; pending are the connections of sinks, the
  events of the next turns of the loop and the expiry timers. What becomes of a sink's connection and the clock are
  arguments. A callback is a number; callbacks wait for the store's next \<open>add\<close> or \<open>remove\<close> event,
  whichever tracer it is about. A call that throws keeps what it did before, the registration of its
  callback above all: an operation gives what it throws, if anything, and the store. An \<open>expiresIn\<close> or \<open>expiresAt\<close> of 0 counts as missing, as does an empty
  text.
\<close>

section \<open>Options\<close>

record sink =
  sk_type :: string
  sk_level :: "string option"
  sk_message :: "string option"
  sk_hostPort :: "string option"
  sk_serviceName :: "string option"
  sk_endpoint :: "string option"

record trace_opts =
  to_expiresIn :: "int option"
  to_expiresAt :: "int option"
  to_sink :: "sink option"

record trace_config =
  tf_event :: string
  tf_message :: string
  tf_endpoint :: string

definition resolveEventConfig :: "string \<Rightarrow> trace_config option" where
  "resolveEventConfig traceEvent =
    (if traceEvent = ''membership.checksum.update''
     then Some \<lparr>tf_event = traceEvent, tf_message = ''/trace/membership.checksum.update'',
       tf_endpoint = ''/trace/membership.checksum.update''\<rparr>
     else None)"

definition given_time :: "int option \<Rightarrow> bool" where
  "given_time x \<longleftrightarrow> x \<noteq> None \<and> x \<noteq> Some 0"

text \<open>The option that is invalid, if any.\<close>

definition invalidateOptions :: "trace_opts option \<Rightarrow> string option" where
  "invalidateOptions opts =
    (case opts of
       None \<Rightarrow> Some ''opts''
     | Some os \<Rightarrow>
        if (given_time (to_expiresIn os) \<and> given_time (to_expiresAt os)) \<or>
           \<not> (given_time (to_expiresIn os) \<or> given_time (to_expiresAt os)) then Some ''expires''
        else if to_sink os = None then Some ''sink'' else None)"

section \<open>Tracers\<close>

definition or_else :: "'a option \<Rightarrow> 'a \<Rightarrow> 'a option" where
  "or_else x d = Some (case x of None \<Rightarrow> d | Some y \<Rightarrow> y)"

definition log_sink :: "trace_config \<Rightarrow> sink \<Rightarrow> sink" where
  "log_sink config s = s\<lparr>sk_level := or_else (sk_level s) ''info'', sk_message := or_else (sk_message s) (tf_message config)\<rparr>"

definition tchannel_sink :: "trace_config \<Rightarrow> sink \<Rightarrow> sink" where
  "tchannel_sink config s =
     s\<lparr>sk_serviceName := or_else (sk_serviceName s) ''ringpop'', sk_endpoint := or_else (sk_endpoint s) (tf_endpoint config)\<rparr>"

text \<open>\<open>Tracer\<close>: the options with what they lack; a sink is always there.\<close>

definition tracer_opts :: "trace_opts \<Rightarrow> trace_opts" where
  "tracer_opts opts = opts\<lparr>to_expiresIn := or_else (to_expiresIn opts) 60000\<rparr>"

record tracer =
  tc_event :: string
  tc_opts :: trace_opts
  tc_sink :: sink
  tc_listening :: bool
  tc_timer :: "nat option"

definition empty_or_none :: "string option \<Rightarrow> bool" where
  "empty_or_none x \<longleftrightarrow> x = None \<or> x = Some []"

definition logLevels :: "string list" where
  "logLevels = [''error'', ''warn'', ''info'', ''debug'', ''trace'']"

definition tracer_invalidate :: "tracer \<Rightarrow> string option" where
  "tracer_invalidate tr =
    (case invalidateOptions (Some (tc_opts tr)) of
       Some e \<Rightarrow> Some e
     | None \<Rightarrow>
        if sk_type (tc_sink tr) = ''log''
        then (if \<exists>l \<in> set logLevels. sk_level (tc_sink tr) = Some l then None else Some ''log.level'')
        else if empty_or_none (sk_serviceName (tc_sink tr)) then Some ''tchannel.serviceName''
        else if empty_or_none (sk_endpoint (tc_sink tr)) then Some ''tchannel.endpoint''
        else None)"

text \<open>\<open>new TracerType\<close>, which completes the sink of the options it is given, too.\<close>

definition new_tracer :: "trace_config \<Rightarrow> trace_opts \<Rightarrow> sink \<Rightarrow> (trace_opts \<times> tracer) outcome" where
  "new_tracer config opts s =
    (if sk_type s \<notin> {''log'', ''tchannel''} then Inl TypeError
     else
       let s1 = (if sk_type s = ''log'' then log_sink config s else tchannel_sink config s);
           opts1 = opts\<lparr>to_sink := Some s1\<rparr>
       in Inr (opts1, \<lparr>tc_event = tf_event config, tc_opts = tracer_opts opts1, tc_sink = s1,
                      tc_listening = False, tc_timer = None\<rparr>))"

definition tracer_matches :: "string \<Rightarrow> sink \<Rightarrow> tracer \<Rightarrow> bool" where
  "tracer_matches traceEvent s tr \<longleftrightarrow>
     tc_event tr = traceEvent \<and> sk_type s = sk_type (tc_sink tr) \<and>
     (if sk_type (tc_sink tr) = ''log'' then sk_message s = sk_message (tc_sink tr)
      else sk_hostPort s = sk_hostPort (tc_sink tr) \<and> sk_endpoint s = sk_endpoint (tc_sink tr))"

text \<open>What a listening tracer does with the event: a line of the log, or a request to the host.\<close>

datatype trace_output = Log_line string "string option" string | Trace_request "string option" string string string

definition tracer_send :: "string \<Rightarrow> tracer \<Rightarrow> trace_output" where
  "tracer_send blob tr =
    (let s = tc_sink tr; txt = (\<lambda>x. case x of None \<Rightarrow> [] | Some y \<Rightarrow> y) in
     if sk_type s = ''log'' then Log_line (txt (sk_level s)) (if sk_message s = Some [] then None else sk_message s) blob
     else Trace_request (sk_hostPort s) (txt (sk_serviceName s)) (txt (sk_endpoint s)) blob)"

text \<open>\<open>_remoteCallback\<close>: an error, or a response that is not ok, is an error.\<close>

definition remote_error :: "string \<Rightarrow> string option \<Rightarrow> bool option \<Rightarrow> string option" where
  "remote_error event err resp =
    (case (err, resp) of
       (Some e, _) \<Rightarrow> Some (''ringpop TChannelTracer.'' @ event @ '': '' @ e)
     | (None, Some False) \<Rightarrow> Some (''ringpop TChannelTracer.'' @ event @ '': ringpop TChannelTracer.'' @ event @ '' received \"notOk\"'')
     | _ \<Rightarrow> None)"

section \<open>The store\<close>

datatype trace_answer = Added trace_opts | Refused string | Sink_failed string | Removed "nat option"

record trace_store =
  ts_objs :: "tracer list"
  ts_tracers :: "nat list dict"
  ts_connects :: "(nat \<times> trace_config \<times> trace_opts \<times> trace_opts) list"
  ts_ticks :: "trace_answer list"
  ts_timers :: "(nat \<times> int \<times> trace_config \<times> trace_opts) list"
  ts_nextTimer :: nat
  ts_onAdd :: "nat list"
  ts_onRemove :: "nat list"
  ts_answers :: "(nat \<times> trace_answer) list"
  ts_destroyed :: bool

definition new_trace_store :: trace_store where
  "new_trace_store = \<lparr>ts_objs = [], ts_tracers = [], ts_connects = [], ts_ticks = [], ts_timers = [], ts_nextTimer = 0,
     ts_onAdd = [], ts_onRemove = [], ts_answers = [], ts_destroyed = False\<rparr>"

definition emit_add :: "trace_answer \<Rightarrow> trace_store \<Rightarrow> trace_store" where
  "emit_add a st = st\<lparr>ts_answers := ts_answers st @ [(k, a). k \<leftarrow> ts_onAdd st], ts_onAdd := []\<rparr>"

definition emit_remove :: "trace_answer \<Rightarrow> trace_store \<Rightarrow> trace_store" where
  "emit_remove a st = st\<lparr>ts_answers := ts_answers st @ [(k, a). k \<leftarrow> ts_onRemove st], ts_onRemove := []\<rparr>"

definition event_tracers :: "string \<Rightarrow> trace_store \<Rightarrow> nat list" where
  "event_tracers e st = (case dget (ts_tracers st) e of None \<Rightarrow> [] | Some is \<Rightarrow> is)"

text \<open>\<open>_get\<close>: the first tracer that matches; without a sink the first one looked at throws.\<close>

definition get_tracer :: "trace_config \<Rightarrow> trace_opts \<Rightarrow> trace_store \<Rightarrow> nat option outcome" where
  "get_tracer config opts st =
    (case (event_tracers (tf_event config) st, to_sink opts) of
       ([], _) \<Rightarrow> Inr None
     | (_, None) \<Rightarrow> Inl TypeError
     | (is, Some s) \<Rightarrow> Inr (find (\<lambda>i. tracer_matches (tf_event config) s (ts_objs st ! i)) is))"

definition set_tracer :: "nat \<Rightarrow> (tracer \<Rightarrow> tracer) \<Rightarrow> trace_store \<Rightarrow> trace_store" where
  "set_tracer i f st = st\<lparr>ts_objs := (ts_objs st)[i := f (ts_objs st ! i)]\<rparr>"

definition clear_expiry :: "nat \<Rightarrow> trace_store \<Rightarrow> trace_store" where
  "clear_expiry i st =
    (case tc_timer (ts_objs st ! i) of
       None \<Rightarrow> st
     | Some h \<Rightarrow> set_tracer i (\<lambda>tr. tr\<lparr>tc_timer := None\<rparr>) (st\<lparr>ts_timers := [x \<leftarrow> ts_timers st. fst x \<noteq> h]\<rparr>))"

type_synonym thrown = "js_error option \<times> trace_store"

definition trace_remove :: "trace_config \<Rightarrow> trace_opts \<Rightarrow> nat option \<Rightarrow> trace_store \<Rightarrow> thrown" where
  "trace_remove config opts cb st =
    (let st1 = (case cb of None \<Rightarrow> st | Some k \<Rightarrow> st\<lparr>ts_onRemove := ts_onRemove st @ [k]\<rparr>)
     in case get_tracer config opts st1 of
          Inl e \<Rightarrow> (Some e, st1)
        | Inr None \<Rightarrow> (None, emit_remove (Removed None) st1)
        | Inr (Some i) \<Rightarrow>
            let st2 = clear_expiry i st1;
                st3 = st2\<lparr>ts_tracers := dset (tf_event config) (remove1 i (event_tracers (tf_event config) st2)) (ts_tracers st2)\<rparr>
            in (None, emit_remove (Removed (Some i)) (set_tracer i (\<lambda>tr. tr\<lparr>tc_listening := False\<rparr>) st3)))"

definition updateExpiration :: "int \<Rightarrow> trace_config \<Rightarrow> trace_opts \<Rightarrow> nat \<Rightarrow> trace_store \<Rightarrow> trace_store" where
  "updateExpiration now config opts i st =
    (let newOffset = max 0 (if given_time (to_expiresIn opts) then the (to_expiresIn opts)
                            else (case to_expiresAt opts of None \<Rightarrow> 0 | Some t \<Rightarrow> t - now));
         st1 = clear_expiry i st
     in if newOffset = 0 then st1
        else set_tracer i (\<lambda>tr. tr\<lparr>tc_timer := Some (ts_nextTimer st1)\<rparr>)
               (st1\<lparr>ts_timers := ts_timers st1 @ [(ts_nextTimer st1, now + newOffset, config, opts)],
                    ts_nextTimer := Suc (ts_nextTimer st1)\<rparr>))"

definition trace_add :: "int \<Rightarrow> trace_config \<Rightarrow> trace_opts option \<Rightarrow> nat option \<Rightarrow> trace_store \<Rightarrow> thrown" where
  "trace_add now config given cb st =
    (let st1 = (case cb of None \<Rightarrow> st | Some k \<Rightarrow> st\<lparr>ts_onAdd := ts_onAdd st @ [k]\<rparr>)
     in case (invalidateOptions given, given) of
          (Some e, _) \<Rightarrow> (None, st1\<lparr>ts_ticks := ts_ticks st1 @ [Refused e]\<rparr>)
        | (None, None) \<Rightarrow> (None, st1)
        | (None, Some opts) \<Rightarrow>
            (case get_tracer config opts st1 of
               Inl e \<Rightarrow> (Some e, st1)
             | Inr (Some i) \<Rightarrow>
                 let st2 = updateExpiration now config opts i st1
                 in (None, st2\<lparr>ts_ticks := ts_ticks st2 @ [Added opts]\<rparr>)
             | Inr None \<Rightarrow>
                 (case new_tracer config opts (the (to_sink opts)) of
                    Inl e \<Rightarrow> (Some e, st1)
                  | Inr (opts1, tr) \<Rightarrow>
                      (case tracer_invalidate tr of
                         Some e \<Rightarrow> (None, st1\<lparr>ts_ticks := ts_ticks st1 @ [Refused e]\<rparr>)
                       | None \<Rightarrow>
                           let i = length (ts_objs st1)
                           in (None, st1\<lparr>ts_objs := ts_objs st1 @ [tr],
                                ts_tracers := dset (tf_event config) (event_tracers (tf_event config) st1 @ [i]) (ts_tracers st1),
                                ts_connects := ts_connects st1 @ [(i, config, opts1, opts)]\<rparr>)))))"

definition connectSource :: "nat \<Rightarrow> trace_store \<Rightarrow> trace_store" where
  "connectSource i st = set_tracer i (\<lambda>tr. tr\<lparr>tc_listening := True\<rparr>) st"

text \<open>The sink of the n-th pending connection answers.\<close>

definition onConnect :: "int \<Rightarrow> string option \<Rightarrow> nat \<Rightarrow> trace_store \<Rightarrow> thrown" where
  "onConnect now err n st =
    (case ts_connects st ! n of (i, config, opts, given) \<Rightarrow>
       let st1 = st\<lparr>ts_connects := take n (ts_connects st) @ drop (Suc n) (ts_connects st)\<rparr>
       in case err of
            Some e \<Rightarrow>
              (case trace_remove config opts None st1 of
                 (Some x, st2) \<Rightarrow> (Some x, st2)
               | (None, st2) \<Rightarrow> (None, emit_add (Sink_failed e) st2))
          | None \<Rightarrow>
              let st2 = updateExpiration now config opts i (connectSource i st1)
              in (None, st2\<lparr>ts_ticks := ts_ticks st2 @ [Added given]\<rparr>))"

text \<open>A tick of the store's \<open>nextTick\<close>s, and the expiry of a timer.\<close>

definition onTick :: "trace_store \<Rightarrow> trace_store" where
  "onTick st = (case ts_ticks st of [] \<Rightarrow> st | a # as \<Rightarrow> emit_add a (st\<lparr>ts_ticks := as\<rparr>))"

definition onExpiry :: "nat \<Rightarrow> trace_store \<Rightarrow> thrown" where
  "onExpiry n st =
    (case ts_timers st ! n of (h, due, config, opts) \<Rightarrow>
       trace_remove config opts None (st\<lparr>ts_timers := take n (ts_timers st) @ drop (Suc n) (ts_timers st)\<rparr>))"

text \<open>
  \<open>destroy\<close> walks over the lists of the events as if they were the tracers, whose configuration is then
  undefined.
\<close>

definition trace_destroy :: "trace_store \<Rightarrow> thrown" where
  "trace_destroy st = (if ts_tracers st = [] then (None, st\<lparr>ts_destroyed := True\<rparr>) else (Some TypeError, st))"

text \<open>The event: every listening tracer sends it.\<close>

definition traced :: "string \<Rightarrow> trace_store \<Rightarrow> trace_output list" where
  "traced blob st = [tracer_send blob tr. tr \<leftarrow> ts_objs st, tc_listening tr]"

section \<open>Endpoints\<close>

definition updateTracers ::
  "bool \<Rightarrow> int \<Rightarrow> string \<Rightarrow> trace_opts \<Rightarrow> nat \<Rightarrow> trace_store \<Rightarrow> thrown"
where
  "updateTracers add now event opts cb st =
    (case resolveEventConfig event of
       None \<Rightarrow> (None, st\<lparr>ts_answers := ts_answers st @ [(cb, Refused ''event'')]\<rparr>)
     | Some config \<Rightarrow> if add then trace_add now config (Some opts) (Some cb) st else trace_remove config opts (Some cb) st)"

end
