(* ===== verification/Trace_Properties.thy ===== *)
theory Trace_Properties
  imports Trace
begin

text \<open>The tracers' callbacks and expirations.\<close>

section \<open>Runs\<close>




section \<open>Steps\<close>

lemma set_tracer_simps [simp]:
  "ts_answers (set_tracer i f st) = ts_answers st" "ts_onAdd (set_tracer i f st) = ts_onAdd st"
  "ts_onRemove (set_tracer i f st) = ts_onRemove st" "ts_ticks (set_tracer i f st) = ts_ticks st"
  "ts_connects (set_tracer i f st) = ts_connects st" "ts_timers (set_tracer i f st) = ts_timers st"
  "ts_tracers (set_tracer i f st) = ts_tracers st" "ts_nextTimer (set_tracer i f st) = ts_nextTimer st"
  by (simp_all add: set_tracer_def)

lemma clear_expiry_simps [simp]:
  "ts_answers (clear_expiry i st) = ts_answers st" "ts_onAdd (clear_expiry i st) = ts_onAdd st"
  "ts_onRemove (clear_expiry i st) = ts_onRemove st" "ts_ticks (clear_expiry i st) = ts_ticks st"
  "ts_connects (clear_expiry i st) = ts_connects st"
  by (simp_all add: clear_expiry_def split: option.splits)


lemma updateExpiration_simps [simp]:
  "ts_answers (updateExpiration now config opts i st) = ts_answers st"
  "ts_onAdd (updateExpiration now config opts i st) = ts_onAdd st"
  "ts_onRemove (updateExpiration now config opts i st) = ts_onRemove st"
  "ts_ticks (updateExpiration now config opts i st) = ts_ticks st"
  "ts_connects (updateExpiration now config opts i st) = ts_connects st"
  by (simp_all add: updateExpiration_def Let_def)












section \<open>Properties\<close>


definition demo_config :: trace_config where
  "demo_config = the (resolveEventConfig ''membership.checksum.update'')"

definition demo_trace_opts :: "int option \<Rightarrow> string option \<Rightarrow> trace_opts" where
  "demo_trace_opts expires message = \<lparr>to_expiresIn = expires, to_expiresAt = None,
     to_sink = Some \<lparr>sk_type = ''log'', sk_level = None, sk_message = message, sk_hostPort = None,
       sk_serviceName = None, sk_endpoint = None\<rparr>\<rparr>"

definition demo_add :: "int option \<Rightarrow> string option \<Rightarrow> thrown" where
  "demo_add expires message =
     updateTracers True 1000 ''membership.checksum.update'' (demo_trace_opts expires message) 1 new_trace_store"

definition and_then :: "thrown \<Rightarrow> (trace_store \<Rightarrow> thrown) \<Rightarrow> thrown" where
  "and_then x f = (case x of (Some e, st) \<Rightarrow> (Some e, st) | (None, st) \<Rightarrow> f st)"

definition ends_with :: "thrown \<Rightarrow> (trace_store \<Rightarrow> bool) \<Rightarrow> bool" where
  "ends_with x P \<longleftrightarrow> fst x = None \<and> P (snd x)"



section \<open>What is surprising\<close>

text \<open>
  A new tracer with \<open>expiresAt\<close> is always refused: the default of \<open>expiresIn\<close> is added to its options
  before they are validated again.
\<close>

lemma expiresAt_refused:
  assumes "to_expiresIn opts = None" "given_time (to_expiresAt opts)" "to_sink opts = Some s"
    and "sk_type s = ''log'' \<or> sk_type s = ''tchannel''"
    and "get_tracer config opts (st\<lparr>ts_onAdd := ts_onAdd st @ [cb]\<rparr>) = Inr None"
  shows "trace_add now config (Some opts) (Some cb) st =
    (None, st\<lparr>ts_onAdd := ts_onAdd st @ [cb], ts_ticks := ts_ticks st @ [Refused ''expires'']\<rparr>)"
  using assms
  by (auto simp: trace_add_def Let_def invalidateOptions_def given_time_def new_tracer_def tracer_invalidate_def
      tracer_opts_def or_else_def)

text \<open>
  A tracer added without a message keeps the event's default one, so the request that added it
  does not remove it, and added again makes another.
\<close>

lemma default_tracer_not_removed:
  "ends_with (and_then (and_then (demo_add (Some 50) None) (onConnect 1000 None 0))
      (updateTracers False 1001 ''membership.checksum.update'' (demo_trace_opts (Some 50) None) 2))
    (\<lambda>st. ts_answers st = [(2, Removed None)] \<and> length (traced ''x'' st) = 1)"
  by code_simp

lemma default_tracer_doubled:
  "ends_with (and_then (and_then (and_then (demo_add (Some 50) None) (onConnect 1000 None 0))
      (updateTracers True 1001 ''membership.checksum.update'' (demo_trace_opts (Some 50) None) 2)) (onConnect 1002 None 0))
    (\<lambda>st. length (traced ''x'' st) = 2)"
  by code_simp

text \<open>A tracer removed while its sink connects listens for ever: its expiry no longer finds it.\<close>

lemma removed_while_connecting:
  "ends_with (and_then (and_then (and_then (demo_add (Some 50) (Some ''m''))
      (updateTracers False 1001 ''membership.checksum.update'' (demo_trace_opts (Some 50) (Some ''m'')) 2))
      (onConnect 1002 None 0)) (onExpiry 0))
    (\<lambda>st. length (traced ''x'' st) = 1 \<and> ts_timers st = [] \<and> event_tracers ''membership.checksum.update'' st = [])"
  by code_simp

text \<open>A negative \<open>expiresIn\<close> makes a tracer that never expires.\<close>

lemma negative_never_expires:
  "ends_with (and_then (demo_add (Some (- 5)) (Some ''m'')) (onConnect 1000 None 0))
    (\<lambda>st. length (traced ''x'' st) = 1 \<and> ts_timers st = [])"
  by code_simp

text \<open>Once there was a tracer, the store's destruction throws.\<close>

lemma destroy_throws_after_trace:
  "\<not> ends_with (and_then (and_then (demo_add (Some 50) (Some ''m'')) (onConnect 1000 None 0)) trace_destroy) (\<lambda>st. True)"
  by code_simp

text \<open>The answer to one request goes to every requester: here an addition on its way is told of another's fault.\<close>

lemma answers_mixed_up:
  "ends_with (and_then (and_then (demo_add (Some 50) (Some ''m''))
      (updateTracers True 1001 ''membership.checksum.update'' (demo_trace_opts None (Some ''n'')) 2)) (\<lambda>st. (None, onTick st)))
    (\<lambda>st. ts_answers st = [(1, Refused ''expires''), (2, Refused ''expires'')] \<and> length (ts_connects st) = 1)"
  by code_simp

text \<open>
  A removal without a sink throws once there is a tracer, and its callback waits for a later removal;
  an addition with an unknown type of sink throws, too, and waits for a later addition.
\<close>

lemma removal_throws:
  "and_then (and_then (demo_add (Some 50) (Some ''m'')) (onConnect 1000 None 0)) (\<lambda>st. (None, onTick st)) = (None, st) \<Longrightarrow>
    updateTracers False 1001 ''membership.checksum.update'' \<lparr>to_expiresIn = None, to_expiresAt = None, to_sink = None\<rparr> 2 st =
      (Some TypeError, st\<lparr>ts_onRemove := [2]\<rparr>) \<and> ts_ticks st = [] \<and> ts_connects st = []"
proof -
  let ?run = "and_then (and_then (demo_add (Some 50) (Some ''m'')) (onConnect 1000 None 0)) (\<lambda>st. (None, onTick st))"
  assume run: "?run = (None, st)"
  have "ends_with ?run (\<lambda>st. event_tracers ''membership.checksum.update'' st = [0] \<and> ts_onRemove st = [] \<and>
      ts_ticks st = [] \<and> ts_connects st = [])" by code_simp
  then have "event_tracers ''membership.checksum.update'' st = [0]" "ts_onRemove st = []" "ts_ticks st = []" "ts_connects st = []"
    unfolding run by (simp_all add: ends_with_def)
  then show ?thesis
    by (simp add: updateTracers_def resolveEventConfig_def trace_remove_def get_tracer_def event_tracers_def Let_def)
qed

lemma unknown_sink_throws:
  "updateTracers True 1000 ''membership.checksum.update''
     \<lparr>to_expiresIn = Some 50, to_expiresAt = None, to_sink = Some \<lparr>sk_type = ''x'', sk_level = None, sk_message = None,
       sk_hostPort = None, sk_serviceName = None, sk_endpoint = None\<rparr>\<rparr> 1 new_trace_store =
   (Some TypeError, new_trace_store\<lparr>ts_onAdd := [1]\<rparr>)"
  by (simp add: updateTracers_def resolveEventConfig_def trace_add_def get_tracer_def event_tracers_def Let_def
      new_trace_store_def new_tracer_def invalidateOptions_def given_time_def)

end
