(* ===== verification/Rollup.thy ===== *)
theory Rollup
  imports Member Json
begin

text \<open>
  The rollup of membership updates for the log (\<open>lib/membership/rollup.js\<close>) and the periodic statistics
  of the checksums (\<open>lib/stats-periodic.js\<close>). The clock is an argument; a pending timer is the time
  it is due. The instants of a call are one instant.
\<close>

section \<open>The rollup\<close>

record flushed =
  fl_sinceFirstUpdate :: "int option"
  fl_sinceLastFlush :: "int option"
  fl_numUpdates :: nat
  fl_updates :: "(int \<times> update) list dict option"

record rollup =
  ru_flushInterval :: int
  ru_maxNumUpdates :: int
  ru_buffer :: "(int \<times> update) list dict"
  ru_firstUpdateTime :: "int option"
  ru_lastFlushTime :: "int option"
  ru_lastUpdateTime :: "int option"
  ru_flushTimer :: "int option"
  ru_flushed :: "flushed list"

definition new_rollup :: "int \<Rightarrow> int option \<Rightarrow> rollup" where
  "new_rollup flushInterval maxNumUpdates =
     \<lparr>ru_flushInterval = flushInterval, ru_maxNumUpdates = numOrDefault maxNumUpdates 250, ru_buffer = [],
      ru_firstUpdateTime = None, ru_lastFlushTime = None, ru_lastUpdateTime = None, ru_flushTimer = None, ru_flushed = []\<rparr>"

definition addUpdate :: "int \<Rightarrow> update \<Rightarrow> rollup \<Rightarrow> rollup" where
  "addUpdate ts u r =
     r\<lparr>ru_buffer := dset (u_address u)
         ((case dget (ru_buffer r) (u_address u) of None \<Rightarrow> [] | Some us \<Rightarrow> us) @ [(ts, u)]) (ru_buffer r)\<rparr>"

definition addUpdates :: "int \<Rightarrow> update list \<Rightarrow> rollup \<Rightarrow> rollup" where
  "addUpdates ts us r = fold (addUpdate ts) us r"

definition rollup_destroy :: "rollup \<Rightarrow> rollup" where
  "rollup_destroy r = r\<lparr>ru_flushTimer := None\<rparr>"

definition getNumUpdates :: "rollup \<Rightarrow> nat" where
  "getNumUpdates r = sum_list (map (\<lambda>(k, us). length us) (ru_buffer r))"

text \<open>An instant of 0 is taken for none, as is null.\<close>

definition set_time :: "int option \<Rightarrow> bool" where
  "set_time x \<longleftrightarrow> x \<noteq> None \<and> x \<noteq> Some 0"

definition int_of :: "int option \<Rightarrow> int" where
  "int_of x = (case x of None \<Rightarrow> 0 | Some n \<Rightarrow> n)"

definition flushBuffer :: "int \<Rightarrow> rollup \<Rightarrow> rollup" where
  "flushBuffer now r =
    (if ru_buffer r = [] then r
     else
       let n = getNumUpdates r;
           entry = \<lparr>fl_sinceFirstUpdate = (if set_time (ru_lastUpdateTime r)
                      then Some (int_of (ru_lastUpdateTime r) - int_of (ru_firstUpdateTime r)) else ru_lastUpdateTime r),
                    fl_sinceLastFlush = (if set_time (ru_lastFlushTime r)
                      then Some (now - int_of (ru_lastFlushTime r)) else ru_lastFlushTime r),
                    fl_numUpdates = n,
                    fl_updates = (if int n < ru_maxNumUpdates r then Some (ru_buffer r) else None)\<rparr>
       in r\<lparr>ru_flushed := ru_flushed r @ [entry], ru_buffer := [], ru_firstUpdateTime := None,
            ru_lastUpdateTime := None, ru_lastFlushTime := Some now\<rparr>)"

definition renewFlushTimer :: "int \<Rightarrow> rollup \<Rightarrow> rollup" where
  "renewFlushTimer now r = r\<lparr>ru_flushTimer := Some (now + ru_flushInterval r)\<rparr>"

definition trackUpdates :: "int \<Rightarrow> update list \<Rightarrow> rollup \<Rightarrow> rollup" where
  "trackUpdates now us r =
    (if us = [] then r
     else
       let r1 = (if now - int_of (ru_lastUpdateTime r) \<ge> ru_flushInterval r then flushBuffer now r else r);
           r2 = (if set_time (ru_firstUpdateTime r1) then r1 else r1\<lparr>ru_firstUpdateTime := Some now\<rparr>)
       in (addUpdates now us (renewFlushTimer now r2))\<lparr>ru_lastUpdateTime := Some now\<rparr>)"

text \<open>The flush timer fires.\<close>

definition onFlushTimer :: "int \<Rightarrow> rollup \<Rightarrow> rollup" where
  "onFlushTimer now r = flushBuffer now (r\<lparr>ru_flushTimer := None\<rparr>)"

section \<open>Periodic statistics\<close>

text \<open>\<^theory_text>\<open>num\<close> is what a text, or an array, is as a number; \<open>NaN\<close> is \<^theory_text>\<open>None\<close>.\<close>

definition normalizePeriod :: "(json \<Rightarrow> int option) \<Rightarrow> int \<Rightarrow> json \<Rightarrow> int" where
  "normalizePeriod num periodDefault period =
    (if period = JNull \<or> period = JUndefined then periodDefault
     else case toNumber num period of
            None \<Rightarrow> periodDefault
          | Some n \<Rightarrow> if n < 0 \<or> period = JNum 0 then -1 else if n < 10 then 10 else n)"

record stats_opts =
  so_default :: "int option"
  so_minimum :: "int option"
  so_membershipChecksum :: json
  so_ringChecksum :: json

record periodic_stats =
  pe_running :: bool
  pe_default :: int
  pe_minimum :: int
  pe_membershipPeriod :: int
  pe_ringPeriod :: int
  pe_membershipTimer :: "nat option"
  pe_ringTimer :: "nat option"
  pe_intervals :: "(nat \<times> int) list"
  pe_next :: nat

definition new_periodic_stats :: "(json \<Rightarrow> int option) \<Rightarrow> stats_opts \<Rightarrow> periodic_stats" where
  "new_periodic_stats num opts =
    (let d = (if set_time (so_default opts) then int_of (so_default opts) else 5000)
     in \<lparr>pe_running = False, pe_default = d,
         pe_minimum = (if set_time (so_minimum opts) then int_of (so_minimum opts) else 10),
         pe_membershipPeriod = normalizePeriod num d (so_membershipChecksum opts),
         pe_ringPeriod = normalizePeriod num d (so_ringChecksum opts),
         pe_membershipTimer = None, pe_ringTimer = None, pe_intervals = [], pe_next = 0\<rparr>)"

text \<open>\<open>setInterval\<close>: the handle, and an interval that goes on until it is cleared; out of the range of timers it is 1 ms.\<close>

definition set_interval :: "int \<Rightarrow> periodic_stats \<Rightarrow> nat \<times> periodic_stats" where
  "set_interval period s =
     (pe_next s, s\<lparr>pe_intervals := pe_intervals s @ [(pe_next s, if 1 \<le> period \<and> period \<le> 2147483647 then period else 1)], pe_next := Suc (pe_next s)\<rparr>)"

definition clear_interval :: "nat option \<Rightarrow> periodic_stats \<Rightarrow> periodic_stats" where
  "clear_interval h s = s\<lparr>pe_intervals := [x \<leftarrow> pe_intervals s. Some (fst x) \<noteq> h]\<rparr>"

definition stats_start :: "periodic_stats \<Rightarrow> periodic_stats" where
  "stats_start s =
    (case set_interval (pe_membershipPeriod s) s of
       (h, s1) \<Rightarrow>
         (case set_interval (pe_ringPeriod s1) (s1\<lparr>pe_membershipTimer := Some h\<rparr>) of
            (h', s2) \<Rightarrow> s2\<lparr>pe_ringTimer := Some h', pe_running := True\<rparr>))"

definition stats_stop :: "periodic_stats \<Rightarrow> periodic_stats" where
  "stats_stop s =
    (let s1 = (clear_interval (pe_membershipTimer s) s)\<lparr>pe_membershipTimer := None\<rparr>;
         s2 = (clear_interval (pe_ringTimer s1) s1)\<lparr>pe_ringTimer := None\<rparr>
     in s2\<lparr>pe_running := False\<rparr>)"

text \<open>An interval's statistic: the checksum, if there is one.\<close>

definition checksum_gauge :: "string \<Rightarrow> int option \<Rightarrow> (string \<times> int) list" where
  "checksum_gauge key checksum = (case checksum of None \<Rightarrow> [] | Some c \<Rightarrow> [(key, c)])"

section \<open>Nothing is lost by the rollup\<close>

text \<open>Runs, with the updates given so far, in their order.\<close>

inductive rollup_run :: "update list \<Rightarrow> bool \<Rightarrow> rollup \<Rightarrow> bool" where
  start: "0 < interval \<Longrightarrow> rollup_run [] True (new_rollup interval maxNum)"
| track: "rollup_run given up r \<Longrightarrow> 0 < now \<Longrightarrow> rollup_run (given @ us) (up \<or> us \<noteq> []) (trackUpdates now us r)"
| fire: "rollup_run given up r \<Longrightarrow> ru_flushTimer r = Some due \<Longrightarrow> rollup_run given up (onFlushTimer now r)"
| destroy: "rollup_run given up r \<Longrightarrow> rollup_run given False (rollup_destroy r)"

definition of_addr :: "string \<Rightarrow> (int \<times> update) list dict \<Rightarrow> update list" where
  "of_addr a b = (case dget b a of None \<Rightarrow> [] | Some us \<Rightarrow> map snd us)"

text \<open>What the log has of an address, when no flush was too big for it.\<close>

definition logged :: "string \<Rightarrow> rollup \<Rightarrow> update list" where
  "logged a r = concat (map (\<lambda>f. case fl_updates f of None \<Rightarrow> [] | Some b \<Rightarrow> of_addr a b) (ru_flushed r))"

definition fits :: "rollup \<Rightarrow> bool" where
  "fits r \<longleftrightarrow> list_all (\<lambda>f. fl_updates f \<noteq> None) (ru_flushed r)"

definition rollup_inv :: "update list \<Rightarrow> bool \<Rightarrow> rollup \<Rightarrow> bool" where
  "rollup_inv given up r \<longleftrightarrow>
     distinct (map fst (ru_buffer r)) \<and> 0 < ru_flushInterval r \<and>
     length given = sum_list (map fl_numUpdates (ru_flushed r)) + getNumUpdates r \<and>
     (fits r \<longrightarrow> (\<forall>a. logged a r @ of_addr a (ru_buffer r) = [u \<leftarrow> given. u_address u = a])) \<and>
     (up \<and> ru_buffer r \<noteq> [] \<longrightarrow> (\<exists>t. ru_lastUpdateTime r = Some t \<and> ru_flushTimer r = Some (t + ru_flushInterval r)))"

definition count :: "(int \<times> update) list dict \<Rightarrow> nat" where
  "count b = sum_list (map (\<lambda>(k, us). length us) b)"

lemma getNumUpdates_count: "getNumUpdates r = count (ru_buffer r)"
  by (simp add: getNumUpdates_def count_def)

lemma count_dset:
  "distinct (map fst b) \<Longrightarrow>
    count (dset a ((case dget b a of None \<Rightarrow> [] | Some us \<Rightarrow> us) @ [x]) b) = Suc (count b)"
proof (induction b)
  case (Cons p b)
  obtain k us where p: "p = (k, us)" by (cases p)
  show ?case
  proof (cases "k = a")
    case False
    then show ?thesis using Cons p by (simp add: count_def)
  qed (simp add: p count_def)
qed (simp add: count_def)

lemma addUpdate_simps [simp]:
  "ru_flushed (addUpdate ts u r) = ru_flushed r" "ru_flushInterval (addUpdate ts u r) = ru_flushInterval r"
  "ru_flushTimer (addUpdate ts u r) = ru_flushTimer r" "ru_lastUpdateTime (addUpdate ts u r) = ru_lastUpdateTime r"
  by (simp_all add: addUpdate_def)

lemma addUpdate_buffer:
  "of_addr a (ru_buffer (addUpdate ts u r)) = of_addr a (ru_buffer r) @ (if u_address u = a then [u] else [])"
  by (auto simp: addUpdate_def of_addr_def split: option.splits)

lemma addUpdates_inv:
  "distinct (map fst (ru_buffer r)) \<Longrightarrow>
    distinct (map fst (ru_buffer (addUpdates ts us r))) \<and>
    getNumUpdates (addUpdates ts us r) = getNumUpdates r + length us \<and>
    of_addr a (ru_buffer (addUpdates ts us r)) = of_addr a (ru_buffer r) @ [u \<leftarrow> us. u_address u = a] \<and>
    ru_flushed (addUpdates ts us r) = ru_flushed r \<and> ru_flushInterval (addUpdates ts us r) = ru_flushInterval r \<and>
    ru_flushTimer (addUpdates ts us r) = ru_flushTimer r"
proof (induction us arbitrary: r)
  case (Cons u us)
  have d: "distinct (map fst (ru_buffer (addUpdate ts u r)))"
    using Cons.prems by (simp add: addUpdate_def distinct_update)
  have n: "getNumUpdates (addUpdate ts u r) = Suc (getNumUpdates r)"
    unfolding getNumUpdates_count using count_dset [OF Cons.prems, of "u_address u" "(ts, u)"] by (simp add: addUpdate_def)
  show ?case
    using Cons.IH [OF d] n by (simp add: addUpdates_def addUpdate_buffer)
qed (simp add: addUpdates_def)

lemma flushBuffer_inv:
  assumes "distinct (map fst (ru_buffer r))"
  shows "ru_buffer (flushBuffer now r) = [] \<and> ru_flushInterval (flushBuffer now r) = ru_flushInterval r \<and>
    ru_flushTimer (flushBuffer now r) = ru_flushTimer r \<and>
    sum_list (map fl_numUpdates (ru_flushed (flushBuffer now r))) =
      sum_list (map fl_numUpdates (ru_flushed r)) + getNumUpdates r \<and>
    (fits (flushBuffer now r) \<longrightarrow> fits r \<and> logged a (flushBuffer now r) = logged a r @ of_addr a (ru_buffer r))"
  by (auto simp: flushBuffer_def Let_def getNumUpdates_def fits_def logged_def of_addr_def)

lemma rollup_run_inv: "rollup_run given up r \<Longrightarrow> rollup_inv given up r"
proof (induction rule: rollup_run.induct)
  case (start interval maxNum)
  then show ?case by (simp add: rollup_inv_def new_rollup_def getNumUpdates_def logged_def of_addr_def)
next
  case (track given up r now us)
  show ?case
  proof (cases "us = []")
    case True
    then show ?thesis using track.IH by (simp add: trackUpdates_def)
  next
    case False
    have d: "distinct (map fst (ru_buffer r))" using track.IH by (simp add: rollup_inv_def)
    let ?r1 = "if now - int_of (ru_lastUpdateTime r) \<ge> ru_flushInterval r then flushBuffer now r else r"
    let ?r2 = "if set_time (ru_firstUpdateTime ?r1) then ?r1 else ?r1\<lparr>ru_firstUpdateTime := Some now\<rparr>"
    have 1: "rollup_inv given False ?r1"
      using track.IH flushBuffer_inv [OF d, of now]
      by (auto simp: rollup_inv_def getNumUpdates_count count_def of_addr_def)
    have 2: "rollup_inv given False (renewFlushTimer now ?r2)"
      using 1 by (auto simp: rollup_inv_def renewFlushTimer_def getNumUpdates_def fits_def logged_def)
    have "rollup_inv (given @ us) True ((addUpdates now us (renewFlushTimer now ?r2))\<lparr>ru_lastUpdateTime := Some now\<rparr>)"
      using 2 addUpdates_inv [of "renewFlushTimer now ?r2" now us]
      by (auto simp: rollup_inv_def getNumUpdates_def fits_def logged_def renewFlushTimer_def)
    then show ?thesis using False by (simp add: trackUpdates_def Let_def)
  qed
next
  case (fire given up r due now)
  let ?r = "r\<lparr>ru_flushTimer := None\<rparr>"
  have d: "distinct (map fst (ru_buffer ?r))" using fire.IH by (simp add: rollup_inv_def)
  show ?case
    using fire.IH flushBuffer_inv [OF d, of now]
    by (auto simp: rollup_inv_def onFlushTimer_def getNumUpdates_count count_def of_addr_def fits_def logged_def)
next
  case (destroy given up r)
  then show ?case by (simp add: rollup_inv_def rollup_destroy_def getNumUpdates_def fits_def logged_def)
qed

text \<open>
  The rollup loses no update: the numbers logged and the buffer add up to those given, and as long
  as no flush has too many for the log, the log followed by the buffer has every address's updates in their order.
  While something is in the buffer of a rollup in use a flush is due an interval after the last update.
\<close>

theorem rollup_loses_nothing:
  assumes "rollup_run given up r"
  shows "length given = sum_list (map fl_numUpdates (ru_flushed r)) + getNumUpdates r \<and>
    (fits r \<longrightarrow> logged a r @ of_addr a (ru_buffer r) = [u \<leftarrow> given. u_address u = a]) \<and>
    (up \<and> ru_buffer r \<noteq> [] \<longrightarrow> (\<exists>t. ru_lastUpdateTime r = Some t \<and> ru_flushTimer r = Some (t + ru_flushInterval r)))"
  using rollup_run_inv [OF assms] by (simp add: rollup_inv_def)

theorem rollup_loses_nothing_witness:
  "length [] = sum_list (map fl_numUpdates (ru_flushed (new_rollup 5000 None))) + getNumUpdates (new_rollup 5000 None)"
  using rollup_loses_nothing [OF rollup_run.start [of 5000 None]] by simp

section \<open>Intervals\<close>

text \<open>
  A period is the default, -1, or at least 10; \<open>minimum\<close> has no part in it.
\<close>

lemma normalizePeriod_range:
  "normalizePeriod num d p = d \<or> normalizePeriod num d p = -1 \<or> 10 \<le> normalizePeriod num d p"
  by (auto simp: normalizePeriod_def split: option.splits)

text \<open>The period -1, documented as disabled, is an interval of one millisecond.\<close>

lemma disabled_runs_every_ms:
  "pe_membershipPeriod s = -1 \<Longrightarrow> (pe_next s, 1) \<in> set (pe_intervals (stats_start s))"
  by (simp add: stats_start_def set_interval_def)

text \<open>The intervals in use are exactly those of the two handles, as long as start and stop alternate.\<close>

definition stats_inv :: "periodic_stats \<Rightarrow> bool" where
  "stats_inv s \<longleftrightarrow> (if pe_running s then \<exists>h h' p p'. pe_membershipTimer s = Some h \<and> pe_ringTimer s = Some h' \<and>
       h \<noteq> h' \<and> pe_intervals s = [(h, p), (h', p')] else pe_intervals s = [])"

lemma stats_start_inv: "stats_inv s \<Longrightarrow> \<not> pe_running s \<Longrightarrow> stats_inv (stats_start s) \<and> pe_running (stats_start s)"
  by (simp add: stats_inv_def stats_start_def set_interval_def)

lemma stats_stop_inv: "stats_inv s \<Longrightarrow> pe_running s \<Longrightarrow> stats_inv (stats_stop s) \<and> \<not> pe_running (stats_stop s)"
  by (auto simp: stats_inv_def stats_stop_def clear_interval_def Let_def)

text \<open>A second start loses the handles of the first, whose intervals no stop clears.\<close>

lemma started_twice_leaks:
  "stats_inv s \<Longrightarrow> pe_running s \<Longrightarrow> list_all (\<lambda>x. fst x < pe_next s) (pe_intervals s) \<Longrightarrow>
    pe_intervals (stats_stop (stats_start s)) = pe_intervals s"
  by (auto simp: stats_inv_def stats_start_def set_interval_def stats_stop_def clear_interval_def Let_def)

end
