(* ===== verification/Key_Case.thy ===== *)
theory Key_Case
  imports Json Transports
begin

text \<open>
  The case of the keys of JSON objects (\<open>lib/util.js\<close>): \<open>toCamelCase\<close>, \<open>toSnakeCase\<close> and
  \<open>toLispCase\<close>, which the tracing endpoints use, and that camel case survives the way through snake and lisp case.
\<close>

section \<open>Texts\<close>

definition isUpper :: "char \<Rightarrow> bool" where
  "isUpper c \<longleftrightarrow> (let n = of_char c :: nat in 65 \<le> n \<and> n \<le> 90)"

definition isLower :: "char \<Rightarrow> bool" where
  "isLower c \<longleftrightarrow> (let n = of_char c :: nat in 97 \<le> n \<and> n \<le> 122)"

definition to_upper :: "char \<Rightarrow> char" where
  "to_upper c = (if isLower c then char_of (of_char c - 32 :: nat) else c)"

text \<open>\<open>/([A-Z]+)/g\<close>: a run of capitals becomes the separator and the run in lower case.\<close>

fun separate :: "char \<Rightarrow> bool \<Rightarrow> string \<Rightarrow> string" where
  "separate sep caps [] = []"
| "separate sep caps (c # s) =
    (if isUpper c then (if caps then [] else [sep]) @ to_lower c # separate sep True s
     else c # separate sep False s)"

text \<open>\<open>/([_-][a-z])/g\<close>: a separator and a letter become the capital.\<close>

fun camelize :: "string \<Rightarrow> string" where
  "camelize [] = []"
| "camelize [c] = [c]"
| "camelize (c # d # s) =
    (if (c = CHR ''_'' \<or> c = CHR ''-'') \<and> isLower d then to_upper d # camelize s else c # camelize (d # s))"

definition removeUnderscorePrefix :: "string \<Rightarrow> string \<Rightarrow> string" where
  "removeUnderscorePrefix newStr oldStr =
    (if take 1 newStr = ''_'' \<and> take 1 oldStr \<noteq> ''_'' then drop 1 newStr else newStr)"

definition replaceKey :: "(string \<Rightarrow> string) \<Rightarrow> string \<Rightarrow> string" where
  "replaceKey f key = removeUnderscorePrefix (f key) key"

section \<open>Objects\<close>

text \<open>Equal new keys meet in one entry, which has the last value.\<close>

definition dict_of :: "(string \<times> 'a) list \<Rightarrow> 'a dict" where
  "dict_of fs = fold (\<lambda>(k, v). dset k v) fs []"

fun replace_in :: "(string \<Rightarrow> string) \<Rightarrow> json \<Rightarrow> json" where
  "replace_in f (JArr vs) = JArr (map (replace_in f) vs)"
| "replace_in f (JObj fs) = JObj (dict_of (map (\<lambda>(k, v). (replaceKey f k, replace_in f v)) fs))"
| "replace_in f v = v"

definition replaceKeys :: "(string \<Rightarrow> string) \<Rightarrow> json \<Rightarrow> json" where
  "replaceKeys f arg = (case arg of JStr s \<Rightarrow> JStr (replaceKey f s) | v \<Rightarrow> replace_in f v)"

definition toCamelCase :: "json \<Rightarrow> json" where
  "toCamelCase = replaceKeys camelize"

definition toSnakeCase :: "json \<Rightarrow> json" where
  "toSnakeCase = replaceKeys (separate CHR ''_'' False)"

definition toLispCase :: "json \<Rightarrow> json" where
  "toLispCase = replaceKeys (separate CHR ''-'' False)"

section \<open>Round trip\<close>

text \<open>A key in camel case: no separators, a small first letter and no two capitals in a row.\<close>

fun humps :: "bool \<Rightarrow> string \<Rightarrow> bool" where
  "humps cap [] \<longleftrightarrow> True"
| "humps cap (c # s) \<longleftrightarrow> c \<noteq> CHR ''_'' \<and> c \<noteq> CHR ''-'' \<and> (isUpper c \<longrightarrow> \<not> cap) \<and> humps (isUpper c) s"

fun camel_keys :: "json \<Rightarrow> bool" where
  "camel_keys (JArr vs) \<longleftrightarrow> (\<forall>v \<in> set vs. camel_keys v)"
| "camel_keys (JObj fs) \<longleftrightarrow> distinct (map fst fs) \<and> (\<forall>(k, v) \<in> set fs. humps True k \<and> camel_keys v)"
| "camel_keys v \<longleftrightarrow> True"

lemma lower_upper:
  assumes "isUpper c" shows "isLower (to_lower c)" "to_upper (to_lower c) = c"
proof -
  let ?n = "of_char c :: nat"
  have n: "65 \<le> ?n" "?n \<le> 90" using assms by (auto simp: isUpper_def Let_def)
  have l: "to_lower c = char_of (?n + 32)" using n by (simp add: to_lower_def)
  have o: "(of_char (to_lower c) :: nat) = ?n + 32" using n unfolding l by (simp add: of_char_of)
  show "isLower (to_lower c)" using n o by (simp add: isLower_def)
  show "to_upper (to_lower c) = c" using n o by (simp add: to_upper_def isLower_def)
qed

lemma not_upper_sep: "\<not> isUpper CHR ''_''" "\<not> isUpper CHR ''-''" "\<not> isLower CHR ''_''" "\<not> isLower CHR ''-''"
  by code_simp+

lemma camelize_plain: "c \<noteq> CHR ''_'' \<Longrightarrow> c \<noteq> CHR ''-'' \<Longrightarrow> camelize (c # s) = c # camelize s"
  by (cases s) auto

lemma camelize_separate:
  assumes "sep = CHR ''_'' \<or> sep = CHR ''-''"
  shows "humps cap s \<Longrightarrow> camelize (separate sep False s) = s"
proof (induction s arbitrary: cap rule: length_induct)
  case (1 s)
  show ?case
  proof (cases s)
    case (Cons c t)
    show ?thesis
    proof (cases "isUpper c")
      case False
      then show ?thesis using 1 Cons by (auto simp: camelize_plain)
    next
      case True
      have t: "separate sep True t = separate sep False t"
        using 1(2) Cons True by (cases t) auto
      then show ?thesis
        using 1 Cons True assms lower_upper [OF True] by auto
    qed
  qed simp
qed

lemma replaceKey_roundtrip:
  assumes "sep = CHR ''_'' \<or> sep = CHR ''-''" and "humps True k"
  shows "replaceKey camelize (replaceKey (separate sep False) k) = k"
proof (cases k)
  case (Cons c t)
  then have c: "\<not> isUpper c" "c \<noteq> CHR ''_''" "c \<noteq> CHR ''-''" using assms(2) by auto
  then have "replaceKey (separate sep False) k = separate sep False k"
    using Cons by (simp add: replaceKey_def removeUnderscorePrefix_def)
  then show ?thesis
    using camelize_separate [OF assms] Cons c by (simp add: replaceKey_def removeUnderscorePrefix_def)
qed (simp add: replaceKey_def removeUnderscorePrefix_def)

lemma fold_dset_new:
  "distinct (map fst (d @ fs)) \<Longrightarrow> fold (\<lambda>(k, v). dset k v) fs d = d @ fs"
proof (induction fs arbitrary: d)
  case (Cons p fs)
  obtain k v where p: "p = (k, v)" by (cases p)
  have "dset k v d = d @ [(k, v)]" if "k \<notin> fst ` set d" for d :: "(string \<times> 'a) list"
    using that by (induction d) auto
  then have "dset k v d = d @ [(k, v)]" using Cons.prems p by auto
  then show ?case using Cons.IH [of "d @ [(k, v)]"] Cons.prems p by simp
qed simp

lemma dict_of_distinct: "distinct (map fst fs) \<Longrightarrow> dict_of fs = fs"
  unfolding dict_of_def using fold_dset_new [of "[]" fs] by simp

lemma replace_in_roundtrip:
  assumes sep: "sep = CHR ''_'' \<or> sep = CHR ''-''"
  shows "camel_keys v \<Longrightarrow> replace_in camelize (replace_in (separate sep False) v) = v"
proof (induction v)
  case (JArr vs)
  then show ?case by (simp add: map_idI)
next
  case (JObj fs)
  let ?r = "replaceKey (separate sep False)" and ?g = "replace_in (separate sep False)"
  have keys: "replaceKey camelize (?r k) = k" if "(k, v) \<in> set fs" for k v
    using JObj.prems that replaceKey_roundtrip [OF sep] by auto
  have inj: "inj_on ?r (fst ` set fs)" using keys by (force intro: inj_on_inverseI)
  have d: "distinct (map fst (map (\<lambda>(k, v). (?r k, ?g v)) fs))"
  proof -
    have "map fst (map (\<lambda>(k, v). (?r k, ?g v)) fs) = map ?r (map fst fs)" by auto
    then show ?thesis using inj JObj.prems by (simp only: distinct_map set_map camel_keys.simps)
  qed
  have vals: "replace_in camelize (?g v) = v" if "(k, v) \<in> set fs" for k v
    using JObj.IH [of "(k, v)" v] that JObj.prems by (auto simp: snds.simps)
  have "map (\<lambda>(k, v). (replaceKey camelize k, replace_in camelize v)) (map (\<lambda>(k, v). (?r k, ?g v)) fs) = fs"
    using keys vals by (auto intro!: map_idI)
  then show ?case using dict_of_distinct [OF d] JObj.prems by (simp add: dict_of_distinct)
qed simp_all

text \<open>
  Objects whose keys are in camel case, at every depth, come back unchanged from snake and from lisp
  case: no two keys meet and nothing else of the value is touched.
\<close>

theorem key_case_roundtrip:
  assumes "camel_keys v" and "case v of JStr s \<Rightarrow> humps True s | _ \<Rightarrow> True"
  shows "toCamelCase (toSnakeCase v) = v \<and> toCamelCase (toLispCase v) = v"
proof -
  have "toCamelCase (replaceKeys (separate sep False) v) = v" if "sep = CHR ''_'' \<or> sep = CHR ''-''" for sep
    using replace_in_roundtrip [OF that assms(1)] replaceKey_roundtrip [OF that] assms(2)
    by (cases v) (simp_all add: toCamelCase_def replaceKeys_def)
  then show ?thesis by (simp add: toSnakeCase_def toLispCase_def)
qed

theorem key_case_roundtrip_witness:
  "toSnakeCase (JObj [(''expiresIn'', JNum 5), (''sink'', JObj [(''hostPort'', JStr ''aB'')])]) =
     JObj [(''expires_in'', JNum 5), (''sink'', JObj [(''host_port'', JStr ''aB'')])] \<and>
   toCamelCase (toSnakeCase (JObj [(''expiresIn'', JNum 5), (''sink'', JObj [(''hostPort'', JStr ''aB'')])])) =
     JObj [(''expiresIn'', JNum 5), (''sink'', JObj [(''hostPort'', JStr ''aB'')])]"
proof -
  let ?v = "JObj [(''expiresIn'', JNum 5), (''sink'', JObj [(''hostPort'', JStr ''aB'')])]"
  have "humps True ''expiresIn''" "humps True ''sink''" "humps True ''hostPort''" by code_simp+
  then have "camel_keys ?v" by simp
  from key_case_roundtrip [OF this] have "toCamelCase (toSnakeCase ?v) = ?v" by simp
  moreover have "toSnakeCase ?v = JObj [(''expires_in'', JNum 5), (''sink'', JObj [(''host_port'', JStr ''aB'')])]"
    by code_simp
  ultimately show ?thesis by blast
qed

text \<open>Runs of capitals and a capital at the start do not come back, and two keys may meet.\<close>

lemma capitals_lost:
  "toCamelCase (toSnakeCase (JObj [(''hostIP'', JNull)])) = JObj [(''hostIp'', JNull)]"
  "toCamelCase (JObj [(''a_b'', JNum 1), (''aB'', JNum 2)]) = JObj [(''aB'', JNum 2)]"
  by code_simp+

end
