(* ===== verification/Admin.thy ===== *)
theory Admin
  imports Bootstrap Key_Case
begin

text \<open>
  The server of a ringpop node (\<open>server/index.js\<close>): its endpoints (\<open>server/admin\<close>,
  \<open>server/protocol\<close>, \<open>server/trace.js\<close>) and the handlers that only configure, read or delegate; the store of
  the configuration behind them (\<open>config.js\<close>) with the events it emits; the hooks of the statistics and the
  checks of the bootstrap hosts (\<open>index.js\<close>); and the handler that shards tchannel requests
  (\<open>ringpop-handler.js\<close>). What an element of an array is as a key is an argument, \<^theory_text>\<open>str\<close>.
\<close>

section \<open>Endpoints\<close>

datatype endpoint =
    DebugClear | DebugSet | GossipStart | GossipStop | GossipTick | GossipStatus | MemberJoin | MemberLeave | Reap
  | LookupKey | ReloadFile | Stats | ConfigGet | ConfigSet | HealViaDiscovery
  | DampReq | JoinRing | PingNode | PingReq | AddTrace | RemoveTrace | ProxyReq | Health

definition admin_endpoints :: "(string \<times> endpoint) list" where
  "admin_endpoints =
     [(''/admin/debugClear'', DebugClear), (''/admin/debugSet'', DebugSet), (''/admin/gossip'', GossipStart),
      (''/admin/join'', MemberJoin), (''/admin/leave'', MemberLeave), (''/admin/lookup'', LookupKey),
      (''/admin/reload'', ReloadFile), (''/admin/stats'', Stats), (''/admin/tick'', GossipTick),
      (''/admin/config/get'', ConfigGet), (''/admin/config/set'', ConfigSet),
      (''/admin/gossip/start'', GossipStart), (''/admin/gossip/stop'', GossipStop), (''/admin/gossip/tick'', GossipTick),
      (''/admin/gossip/status'', GossipStatus), (''/admin/member/join'', MemberJoin),
      (''/admin/member/leave'', MemberLeave), (''/admin/reap'', Reap), (''/admin/healpartition/disco'', HealViaDiscovery)]"

definition protocol_endpoints :: "(string \<times> endpoint) list" where
  "protocol_endpoints =
     [(''/protocol/damp-req'', DampReq), (''/protocol/join'', JoinRing), (''/protocol/ping'', PingNode),
      (''/protocol/ping-req'', PingReq)]"

definition trace_endpoints :: "(string \<times> endpoint) list" where
  "trace_endpoints = [(''/trace/add'', AddTrace), (''/trace/remove'', RemoveTrace)]"

text \<open>\<open>RingpopServer\<close> registers them one after the other; a later one of a name replaces the earlier.\<close>

definition registered_urls :: "endpoint dict" where
  "registered_urls = fold (\<lambda>(url, e). dset url e)
     (admin_endpoints @ protocol_endpoints @ trace_endpoints @ [(''/proxy/req'', ProxyReq), (''/health'', Health)]) []"

section \<open>The configuration's store\<close>

record config_store =
  cs_store :: "json dict"
  cs_events :: "(string \<times> json \<times> json) list"

definition prop_of :: "string \<Rightarrow> json dict \<Rightarrow> json" where
  "prop_of k d = (case dget d k of None \<Rightarrow> JUndefined | Some v \<Rightarrow> v)"

definition config_get :: "config_store \<Rightarrow> string \<Rightarrow> json" where
  "config_get cs key = prop_of key (cs_store cs)"

definition config_getAll :: "config_store \<Rightarrow> json dict" where
  "config_getAll cs = cs_store cs"

definition config_set :: "string \<Rightarrow> json \<Rightarrow> config_store \<Rightarrow> config_store" where
  "config_set key val cs =
     cs\<lparr>cs_store := dset key val (cs_store cs),
        cs_events := cs_events cs @ [(''set'', val, config_get cs key), (''set.'' @ key, val, config_get cs key)]\<rparr>"

definition config_defaults :: "json dict" where
  "config_defaults = [(''gossipLogLevel'', JStr ''debug''), (''wedgedRequestTimeout'', JNum (30 * 1000)), (''wedgedTimerInterval'', JNum 1000)]"

definition config_setDefault :: "string \<Rightarrow> config_store \<Rightarrow> config_store" where
  "config_setDefault key cs = config_set key (prop_of key config_defaults) cs"

section \<open>Handlers\<close>

text \<open>What a handler's callback is given, if it is called.\<close>

datatype admin_error = Missing string | Body_required | Body_not_object | Bad_request string | Healing_failed heal_error | Reload_failed discover_error

type_synonym 'a admin_reply = "admin_error + 'a"

fun truthy_json :: "json \<Rightarrow> bool" where
  "truthy_json JUndefined = False"
| "truthy_json JNull = False"
| "truthy_json (JBool b) = b"
| "truthy_json (JNum n) = (n \<noteq> 0)"
| "truthy_json (JStr s) = (s \<noteq> [])"
| "truthy_json v = True"

definition handleConfigGet :: "(json \<Rightarrow> string) \<Rightarrow> json \<Rightarrow> config_store \<Rightarrow> json dict" where
  "handleConfigGet str body cs =
    (case body of
       JArr keys \<Rightarrow> fold (\<lambda>k. dset (str k) (config_get cs (str k))) keys []
     | _ \<Rightarrow> config_getAll cs)"

text \<open>The keys of an array are its indices.\<close>

definition body_entries :: "json \<Rightarrow> (string \<times> json) list" where
  "body_entries body = (case body of JObj fs \<Rightarrow> fs | JArr vs \<Rightarrow> zip (map show_nat [0..<length vs]) vs | _ \<Rightarrow> [])"

definition handleConfigSet :: "json \<Rightarrow> config_store \<Rightarrow> unit admin_reply \<times> config_store" where
  "handleConfigSet body cs =
    (if \<not> truthy_json body then (Inl Body_required, cs)
     else case body of
            JBool b \<Rightarrow> (Inl Body_not_object, cs)
          | JNum n \<Rightarrow> (Inl Body_not_object, cs)
          | JStr s \<Rightarrow> (Inl Body_not_object, cs)
          | _ \<Rightarrow> (Inr (), fold (\<lambda>(k, v). config_set k v) (body_entries body) cs))"

definition handleDebugClear :: "config_store \<Rightarrow> config_store" where
  "handleDebugClear cs = config_set ''gossipLogLevel'' (JStr ''off'') cs"

definition handleDebugSet :: "config_store \<Rightarrow> config_store" where
  "handleDebugSet cs = config_set ''gossipLogLevel'' (JStr ''info'') cs"

definition handleGossipStart :: "(nat list \<Rightarrow> nat list) \<Rightarrow> int \<Rightarrow> real \<Rightarrow> node \<Rightarrow> node" where
  "handleGossipStart shuffle now random n =
    (case g_start shuffle now random (n_membership n) (n_gossip n) of
       (ms, g) \<Rightarrow> n\<lparr>n_membership := ms, n_gossip := g\<rparr>)"

definition handleGossipStop :: "node \<Rightarrow> node" where
  "handleGossipStop n = n\<lparr>n_gossip := g_stop (n_gossip n)\<rparr>"

definition handleGossipStatus :: "node \<Rightarrow> gossip_status" where
  "handleGossipStatus n = getStatus (n_gossip n)"

text \<open>
  A tick by hand: the member that is pinged, whose ping's end answers, or the checksum at once. The
  answer never is an error, as \<open>tick\<close> calls back without one.
\<close>

definition handleGossipTick ::
  "(nat \<Rightarrow> nat list \<Rightarrow> nat list) \<Rightarrow> node_ctx \<Rightarrow> ms_iter \<Rightarrow> node \<Rightarrow> ((nat + int option) \<times> ms_iter \<times> node) option"
where
  "handleGossipTick shuffle ctx it n =
    (case g_tick shuffle ctx it (n_membership n) (n_gossip n) of
       None \<Rightarrow> None
     | Some (None, it', ms, g) \<Rightarrow> Some (Inr (ms_checksum ms), it', n\<lparr>n_membership := ms, n_gossip := g\<rparr>)
     | Some (Some m, it', ms, g) \<Rightarrow> Some (Inl m, it', n\<lparr>n_membership := ms, n_gossip := g\<rparr>))"

definition onTickPinged :: "node \<Rightarrow> int option \<times> node" where
  "onTickPinged n = (ms_checksum (n_membership n), n\<lparr>n_gossip := ping_over (n_gossip n)\<rparr>)"

definition handleLookup :: "(string \<Rightarrow> int) \<Rightarrow> string \<Rightarrow> string option \<Rightarrow> hash_ring \<Rightarrow> string option admin_reply" where
  "handleLookup hashFunc whoami key ring =
    (case key of
       Some (c # k) \<Rightarrow> Inr (rp_lookup hashFunc whoami (c # k) ring)
     | _ \<Rightarrow> Inl (Missing ''key''))"

text \<open>Without a file the callback of \<open>/admin/reload\<close> is never called.\<close>

definition handleReload :: "string option \<Rightarrow> discovered \<Rightarrow> ringpop \<Rightarrow> unit admin_reply option \<times> ringpop" where
  "handleReload file res rp =
    (case file of
       Some (c # f) \<Rightarrow>
         (case onReloaded res (rp_reload (c # f) rp) of
            (Some err, rp1) \<Rightarrow> (Some (Inl (Reload_failed err)), rp1)
          | (None, rp1) \<Rightarrow> (Some (Inr ()), rp1))
     | _ \<Rightarrow> (None, rp))"

definition handleHealth :: "string admin_reply" where
  "handleHealth = Inr ''ok''"

text \<open>The end of a heal by hand.\<close>

definition handleHeal :: "healing \<Rightarrow> string list admin_reply option" where
  "handleHeal h =
    (case hl_result h of
       None \<Rightarrow> None
     | Some (Inl e) \<Rightarrow> Some (Inl (Healing_failed e))
     | Some (Inr targets) \<Rightarrow> Some (Inr targets))"

text \<open>The damp-req: a body's \<open>flappers\<close>, an array of addresses.\<close>

definition handleDampReq :: "json \<Rightarrow> membership \<Rightarrow> (string \<times> int option) list admin_reply" where
  "handleDampReq body ms =
    (if \<not> truthy_json body then Inl (Bad_request ''flappers is required'')
     else case getProp body ''flappers'' of
            Inl e \<Rightarrow> Inl (Bad_request ''flappers is required'')
          | Inr v \<Rightarrow>
              if \<not> truthy_json v then Inl (Bad_request ''flappers is required'')
              else case v of
                     JArr vs \<Rightarrow> Inr (collectDampScores [s. JStr s \<leftarrow> vs] ms)
                   | _ \<Rightarrow> Inl (Bad_request ''flappers must be an array''))"

section \<open>Statistics\<close>

datatype hook_error = Hook_required | Name_required | GetStats_required | Duplicate_hook string

text \<open>A hook: its name and, if it has one, the function that gives its statistics.\<close>

definition isStatsHookRegistered :: "'s dict \<Rightarrow> string \<Rightarrow> bool" where
  "isStatsHookRegistered hooks name \<longleftrightarrow> dget hooks name \<noteq> None"

definition registerStatsHook :: "(string option \<times> 's option) option \<Rightarrow> 's dict \<Rightarrow> hook_error + 's dict" where
  "registerStatsHook hook hooks =
    (case hook of
       None \<Rightarrow> Inl Hook_required
     | Some (None, _) \<Rightarrow> Inl Name_required
     | Some (Some [], _) \<Rightarrow> Inl Name_required
     | Some (Some name, None) \<Rightarrow> Inl GetStats_required
     | Some (Some name, Some getStats) \<Rightarrow>
         if isStatsHookRegistered hooks name then Inl (Duplicate_hook name) else Inr (dset name getStats hooks))"

definition getStatsHooksStats :: "('s \<Rightarrow> 'v) \<Rightarrow> 's dict \<Rightarrow> 'v dict option" where
  "getStatsHooksStats run_hook hooks =
    (if hooks = [] then None else Some (fold (\<lambda>name. dset name (run_hook (the (dget hooks name)))) (dkeys hooks) []))"

text \<open>\<open>stat\<close>: the full keys are kept once made.\<close>

datatype stat_call = Increment string "int option" | Gauge string "int option" | Timing string "int option"

definition stat :: "string \<Rightarrow> string \<Rightarrow> string \<Rightarrow> int option \<Rightarrow> string dict \<Rightarrow> stat_call list \<times> string dict" where
  "stat statPrefix ty key val statKeys =
    (let keys = (case dget statKeys key of
                   Some (c # k) \<Rightarrow> statKeys
                 | _ \<Rightarrow> dset key (statPrefix @ ''.'' @ key) statKeys);
         fq = the (dget keys key)
     in ((if ty = ''increment'' then [Increment fq val] else if ty = ''gauge'' then [Gauge fq val]
          else if ty = ''timing'' then [Timing fq val] else []), keys))"

section \<open>Bootstrap hosts\<close>

text \<open>\<open>/^(\d+.\d+.\d+.\d+):\d+$/\<close>, of which \<^theory_text>\<open>looks_like_ip\<close> is the test.\<close>

definition checkForMissingBootstrapHost :: "string \<Rightarrow> string list \<Rightarrow> bool" where
  "checkForMissingBootstrapHost hostPort hosts \<longleftrightarrow> hostPort \<in> set hosts"

definition mismatchedHosts :: "(string \<Rightarrow> bool) \<Rightarrow> string \<Rightarrow> string list \<Rightarrow> string list" where
  "mismatchedHosts looks_like_ip hostPort hosts =
    (if looks_like_ip hostPort then [h \<leftarrow> hosts. \<not> looks_like_ip h] else [h \<leftarrow> hosts. looks_like_ip h])"

definition checkForHostnameIpMismatch :: "(string \<Rightarrow> bool) \<Rightarrow> string \<Rightarrow> string list \<Rightarrow> bool" where
  "checkForHostnameIpMismatch looks_like_ip hostPort hosts \<longleftrightarrow> mismatchedHosts looks_like_ip hostPort hosts = []"

section \<open>Sharding\<close>

record shard_request =
  sr_endpoint :: string
  sr_sk :: "string option"

datatype sharded = Real_handler | Send_error | Relay string

definition shard_handleRequest ::
  "(string \<Rightarrow> int) \<Rightarrow> string \<Rightarrow> bool dict \<Rightarrow> hash_ring \<Rightarrow> shard_request \<Rightarrow> sharded option"
where
  "shard_handleRequest hashFunc whoami blacklist ring req =
    (if dget blacklist (sr_endpoint req) = Some True then Some Real_handler
     else case sr_sk req of
            Some (c # k) \<Rightarrow>
              (case rp_lookup hashFunc whoami (c # k) ring of
                 None \<Rightarrow> None
               | Some dest \<Rightarrow> Some (if whoami = dest then Real_handler else Relay dest))
          | _ \<Rightarrow> Some Send_error)"

section \<open>Facts\<close>

text \<open>No endpoint replaces another.\<close>

lemma endpoints_distinct: "distinct (map fst (admin_endpoints @ protocol_endpoints @ trace_endpoints @ [(''/proxy/req'', ProxyReq), (''/health'', Health)]))"
  by code_simp

lemma prop_of_dset [simp]: "prop_of k (dset j v d) = (if k = j then v else prop_of k d)"
  by (simp add: prop_of_def update_conv')

lemma config_fold_get:
  "distinct (map fst fs) \<Longrightarrow>
    config_get (fold (\<lambda>(k, v). config_set k v) fs cs) key = (case map_of fs key of None \<Rightarrow> config_get cs key | Some v \<Rightarrow> v)"
proof (induction fs arbitrary: cs)
  case (Cons p fs)
  obtain k v where p: "p = (k, v)" by (cases p)
  have one: "config_get (config_set k v cs) key = (if key = k then v else config_get cs key)"
    by (simp add: config_get_def config_set_def)
  have IH: "config_get (fold (\<lambda>(k, v). config_set k v) fs (config_set k v cs)) key =
      (case map_of fs key of None \<Rightarrow> config_get (config_set k v cs) key | Some v \<Rightarrow> v)"
    by (rule Cons.IH) (use Cons.prems p in simp)
  have no: "map_of fs k = None" using Cons.prems p by (simp add: map_of_eq_None_iff)
  show ?case
  proof (cases "key = k")
    case True
    show ?thesis using IH no True unfolding one by (simp add: p)
  next
    case False
    then show ?thesis using IH unfolding one by (simp add: p)
  qed
qed simp

lemma config_fold_events:
  "\<exists>es. cs_events (fold (\<lambda>(k, v). config_set k v) fs cs) = cs_events cs @ es \<and>
    [(n, v). (n, v, old) \<leftarrow> es] = concat (map (\<lambda>(k, v). [(''set'', v), (''set.'' @ k, v)]) fs)"
proof (induction fs arbitrary: cs)
  case (Cons p fs)
  obtain k v where p: "p = (k, v)" by (cases p)
  show ?case using Cons.IH [of "config_set k v cs"] by (auto simp: p config_set_def)
qed simp

lemma fold_config_get:
  "prop_of key (fold (\<lambda>k. dset (str k) (config_get cs (str k))) keys d) =
    (if key \<in> str ` set keys then config_get cs key else prop_of key d)"
  by (induction keys arbitrary: d) auto

text \<open>
  What \<open>/admin/config/set\<close> sets \<open>/admin/config/get\<close> gives back, key by key, other keys keep their
  values, and every change is announced once with its new value; a body that is no object changes nothing.
\<close>

theorem config_set_get:
  assumes "distinct (map fst fs)" and "\<And>k. str (JStr k) = k"
  shows "\<exists>cs'. handleConfigSet (JObj fs) cs = (Inr (), cs') \<and>
    (\<forall>keys key. prop_of key (handleConfigGet str (JArr (map JStr keys)) cs') =
       (if key \<notin> set keys then JUndefined
        else case map_of fs key of None \<Rightarrow> config_get cs key | Some v \<Rightarrow> v)) \<and>
    (\<exists>es. cs_events cs' = cs_events cs @ es \<and> [(n, v). (n, v, old) \<leftarrow> es] = concat (map (\<lambda>(k, v). [(''set'', v), (''set.'' @ k, v)]) fs))"
  using assms config_fold_get [OF assms(1), of cs] config_fold_events [of fs cs]
  by (auto simp: handleConfigSet_def body_entries_def handleConfigGet_def fold_config_get image_image o_def prop_of_def [of _ "[]"])

theorem config_set_get_witness:
  "\<exists>cs'. handleConfigSet (JObj [(''autoGossip'', JBool False)]) \<lparr>cs_store = [], cs_events = []\<rparr> = (Inr (), cs') \<and>
     prop_of ''autoGossip'' (handleConfigGet (\<lambda>v. case v of JStr s \<Rightarrow> s | _ \<Rightarrow> []) (JArr [JStr ''autoGossip'']) cs') = JBool False"
  using config_set_get [of "[(''autoGossip'', JBool False)]" "\<lambda>v. case v of JStr s \<Rightarrow> s | _ \<Rightarrow> []"
      "\<lparr>cs_store = [], cs_events = []\<rparr>"]
  by (auto dest!: spec [of _ "[''autoGossip'']"] spec [of _ "''autoGossip''"])

text \<open>Registered hooks are all reported, each with its own statistics.\<close>

lemma fold_hooks:
  "dget (fold (\<lambda>name. dset name (f name)) names d) k = (if k \<in> set names then Some (f k) else dget d k)"
  by (induction names arbitrary: d) (auto simp: update_conv')

lemma hooks_reported:
  assumes "registerStatsHook (Some (Some name, Some h)) hooks = Inr hooks'"
  shows "\<exists>stats. getStatsHooksStats g hooks' = Some stats \<and> dget hooks name = None \<and>
    (\<forall>k. dget stats k = (if k = name then Some (g h) else map_option g (dget hooks k)))"
proof -
  have h: "hooks' = dset name h hooks" "dget hooks name = None"
    using assms by (auto simp: registerStatsHook_def isStatsHookRegistered_def split: list.splits if_splits)
  let ?s = "fold (\<lambda>name. dset name (g (the (dget hooks' name)))) (dkeys hooks') []"
  have "k \<in> set (dkeys hooks') \<longleftrightarrow> dget hooks' k \<noteq> None" for k by (simp add: map_of_eq_None_iff)
  then have "dget ?s k = map_option g (dget hooks' k)" for k by (auto simp: fold_hooks)
  then have s: "dget ?s k = (if k = name then Some (g h) else map_option g (dget hooks k))" for k
    using h by (simp add: update_conv')
  have "getStatsHooksStats g hooks' = Some ?s" using h by (simp add: getStatsHooksStats_def)
  then show ?thesis using s h(2) by blast
qed

end
