(* ===== verification/Spec2Isabelle.thy ===== *)
theory Spec2Isabelle
  imports Ring_Properties Membership_Properties Dissemination_Properties Gossip_Properties Damper_Properties Node_Properties Timer_Properties Api_Properties Server_Properties Transports Joiner_Properties Healing_Properties Self_Evict_Properties Proxy_Properties Client_Properties Discovery_Properties Bootstrap_Properties Server_Run_Properties Http_Properties Scylla_Properties Socket_Transports Trace_Properties Rollup Admin
begin

text \<open>
  A verification development of skyring, a distributed timer service, and of ringpop, the membership
  and routing library it is built on. Paths are relative to \<open>src/packages/\<close>.

  \<^bold>\<open>The program.\<close> A skyring node answers HTTP requests to create, change and cancel timers. Every timer
  belongs to the node that owns its id on a consistent hash ring; a request that reaches another node is
  forwarded. When servers join or leave, timers move with the ring. The ring is kept by ringpop: nodes
  gossip about who is up (SWIM with suspicion, refutation and flap damping), join a cluster through
  bootstrap hosts, heal partitions, and evict themselves when they shut down. Components interact by
  calls, by events that listeners turn into further operations, and by messages between nodes.

  \<^bold>\<open>Conventions\<close> (\<^theory_text>\<open>Prelude\<close>, \<^theory_text>\<open>Json\<close>). Strings are lists of characters, plain objects are
  insertion-ordered dictionaries (the interface \<^theory_text>\<open>dictionary\<close> has their laws), objects shared by several
  owners are numbers into a heap. JavaScript's numbers are integers wherever the code computes with
  milliseconds, counters and hashes, which stay far below 2^53, and reals where it uses logarithms, probabilities or decay. A synchronous
  call that may throw returns \<^theory_text>\<open>outcome\<close>; errors given to callbacks are values. Asynchrony is explicit:
  timeouts, ticks and requests under way are in the state, and what comes next is a step of an
  inductive run, in any order. The clock, random numbers, uuids, shuffles, the hash function, JSON texts, regular expressions
  of third parties, DNS, TChannel, the store, NATS and the cluster behind the store are arguments; what
  a property needs of them is a hypothesis with a witness on a concrete instance.

  \<^bold>\<open>Hash ring\<close> (\<open>ringpop/lib/ring\<close>). \<^theory_text>\<open>RBTree\<close> is the red-black tree of \<open>rbtree.js\<close>, \<^theory_text>\<open>HashRing\<close>
  the ring of \<open>index.js\<close>. \<^theory_text>\<open>RBTree_Insert\<close>, \<^theory_text>\<open>RBTree_Remove\<close> and \<^theory_text>\<open>RBTree_Iter\<close> prove the tree's
  operations total and correct from the interface \<^theory_text>\<open>comparator_order\<close>, which the ring's comparator provides;
  \<^theory_text>\<open>Ring_Spec\<close> states the abstract ring and that the tree refines it; \<^theory_text>\<open>Ring_LookupN\<close> and
  \<^theory_text>\<open>Ring_Properties\<close> add the preference list, minimal disruption, the checksum and the bounds.

  \<^bold>\<open>Membership and gossip\<close> (\<open>ringpop/lib/membership\<close>, \<open>ringpop/lib/gossip\<close>). \<^theory_text>\<open>Config\<close>, \<^theory_text>\<open>Member\<close>,
  \<^theory_text>\<open>Membership\<close>, \<^theory_text>\<open>Dissemination\<close>, \<^theory_text>\<open>State_Transitions\<close>, \<^theory_text>\<open>Gossip\<close> and \<^theory_text>\<open>Damper\<close> are one theory for
  each part; \<^theory_text>\<open>Node\<close> joins them with the listeners of \<open>on_membership_event.js\<close> and \<open>on_ring_event.js\<close> and the
  handlers of \<open>server/protocol\<close> and \<open>server/admin/member.js\<close>. \<^theory_text>\<open>Membership_Facts\<close>,
  \<^theory_text>\<open>Membership_Events\<close>, \<^theory_text>\<open>Membership_Choose\<close> and \<^theory_text>\<open>Membership_More\<close> hold the abstraction of a list
  to the rank known of every address, on which gossip is a join; \<^theory_text>\<open>Node_Facts\<close> and \<^theory_text>\<open>Node_Inv\<close> the invariant that
  ring and list agree. The properties are in \<^theory_text>\<open>Membership_Properties\<close>, \<^theory_text>\<open>Dissemination_Properties\<close>,
  \<^theory_text>\<open>Gossip_Properties\<close>, \<^theory_text>\<open>Damper_Properties\<close> and \<^theory_text>\<open>Node_Properties\<close>.

  \<^bold>\<open>Life of a ringpop node\<close> (\<open>ringpop/index.js\<close>). \<^theory_text>\<open>Discovery\<close> (\<open>discover-providers.js\<close>,
  \<open>lib/backoff.js\<close>), \<^theory_text>\<open>Joiner\<close> (\<open>lib/gossip/joiner.js\<close> with the handler of joins), \<^theory_text>\<open>Healing\<close>
  (\<open>lib/partition_healing\<close>), \<^theory_text>\<open>Self_Evict\<close> (\<open>lib/self-evict.js\<close>) and \<^theory_text>\<open>Bootstrap\<close>, which composes them
  from construction to destruction; each has its theory of properties: bootstraps, joins and evictions
  are answered once, heals merge rings, a destroyed node stays down. In \<^theory_text>\<open>Bootstrap_Properties\<close> gossip
  loop, damper, healer, request proxy and client run on their own between the node's steps: they may take
  any state in which pending timeouts have their handles and retries a listed sender, which the theories
  of these parts prove of their own orderly runs (\<^theory_text>\<open>Proxy_Destroy\<close> for the proxy). A join needs enough
  different hosts (\<^theory_text>\<open>enough_hosts\<close>); what stops at a destruction is listed, part by part.

  \<^bold>\<open>Requests between nodes.\<close> \<^theory_text>\<open>Client\<close> (\<open>client.js\<close>, \<open>client_request.js\<close>), \<^theory_text>\<open>Middleware\<close>
  (\<open>lib/middleware\<close>), \<^theory_text>\<open>Proxy\<close> (\<open>lib/request-proxy\<close>), \<^theory_text>\<open>Admin\<close> (the endpoints of \<open>server\<close>, the
  store of \<open>config.js\<close>, hooks of the statistics, \<open>ringpop-handler.js\<close>). \<^theory_text>\<open>Proxy_Facts\<close> and
  \<^theory_text>\<open>Proxy_Inv\<close> hold the life cycle of a forwarded request, \<^theory_text>\<open>Proxy_Destroy\<close> its end with the proxy; the properties say that calls are answered
  once, within bounds, and run only where they may. \<^theory_text>\<open>Trace\<close> (\<open>lib/trace\<close>, \<open>server/trace.js\<close>),
  \<^theory_text>\<open>Rollup\<close> (\<open>lib/membership/rollup.js\<close>, \<open>lib/stats-periodic.js\<close>) and \<^theory_text>\<open>Key_Case\<close> (\<open>lib/util.js\<close>)
  are what observes a node.

  \<^bold>\<open>Timers\<close> (\<open>skyring/lib\<close>). \<^theory_text>\<open>Timer\<close> is \<open>timer.js\<close>: records, store, timeouts and what is published. \<^theory_text>\<open>Timer_Facts\<close>,
  \<^theory_text>\<open>Timer_Inv\<close> and \<^theory_text>\<open>Timer_Runs\<close> hold its invariant and the interface \<^theory_text>\<open>settling\<close> of an event loop whose work
  ends; \<^theory_text>\<open>Timer_Properties\<close> what timers promise across creation, crash, rebalance and shutdown. \<^theory_text>\<open>Transports\<close>
  (\<open>transports/index.js\<close>, \<open>http.js\<close>) and \<^theory_text>\<open>Socket_Transports\<close> (\<open>zmq-transport\<close>, \<open>tcp-transport\<close>,
  \<open>transports/callback.js\<close>) execute them; \<^theory_text>\<open>Scylla\<close> (\<open>scylladown\<close>) is a store that refines a map.

  \<^bold>\<open>Server\<close> (\<open>skyring/lib/server\<close>). \<^theory_text>\<open>Api\<close> has validator, middleware, handlers and router, \<^theory_text>\<open>Http\<close> the
  requests and responses beneath, which refine it. A timeout that is no number but coerces to one passes the
  code's validator: what is then stored is not a timer of the model, and the router's functions have no
  result for it. \<^theory_text>\<open>Server\<close> has what ring changes and messages do to the timers;
  \<^theory_text>\<open>Server_Run\<close> the server from listen to close. \<^theory_text>\<open>Api_Properties\<close>, \<^theory_text>\<open>Server_Properties\<close>, \<^theory_text>\<open>Http_Properties\<close> and
  \<^theory_text>\<open>Server_Run_Properties\<close> tie ring, timers and HTTP together.

  \<^bold>\<open>Loops and bounds.\<close> No loop has fuel. A loop whose end depends on an invariant is a
  \<^theory_text>\<open>partial_function (option)\<close> (\<^theory_text>\<open>ins_loop\<close>, \<^theory_text>\<open>ub_loop\<close>, \<^theory_text>\<open>ln_loop\<close>, \<^theory_text>\<open>mi_loop\<close>), and that it returns is proved
  where the invariant holds; the others are structural or have a measure. That runs settle is
  proved by weights that go down with every step. Delays are compared with 2^31 - 1, the limit of \<open>setTimeout\<close>.

  \<^bold>\<open>Surprises.\<close> Where the code does not do what it means to, the property asks for what the code needs
  and a lemma next to it evaluates the failing case: among others \<^theory_text>\<open>overlapping_closes_stall\<close>,
  \<^theory_text>\<open>destroy_throws_after_trace\<close>, \<^theory_text>\<open>expiresAt_refused\<close>, \<^theory_text>\<open>disabled_runs_every_ms\<close>, \<^theory_text>\<open>absolute_target_lost\<close>,
  \<^theory_text>\<open>duplicate_hosts_stall\<close>, \<^theory_text>\<open>hook_calls_twice\<close>, \<^theory_text>\<open>overlapping_creations\<close>, \<^theory_text>\<open>gossip_restart_doubles\<close>,
  \<^theory_text>\<open>damp_restart_doubles\<close>, \<^theory_text>\<open>damping_after_destroy\<close>, \<^theory_text>\<open>removal_throws\<close>.

  \<^bold>\<open>Not modelled.\<close> Logs, counters and gauges, the listeners that only report, \<open>getStats\<close> and the
  loggers: pure output. Error and event declarations: they are constructors where they are raised.
  \<open>main.js\<close>, the command lines, package indices, benchmarks and examples: glue around the modelled parts. The scripts under
  \<open>docs\<close>: third-party or generated. The NATS client, TChannel, levelup, path-to-regexp, underscore's generic
  helpers and farmhash: not in the repository, hence parameters. Process signals, memory
  and versions: the host's. Tests and their helpers are no part of the program.
\<close>

end
